(* ===== verification/Types.thy ===== *)
theory Types
  imports Prelude
begin

text \<open>
  The string newtypes of \<open>crates/types\<close>: store paths, object keys, system triples,
  tenant ids, compression names, capability tokens, and the marker for messages that may be
  shown to a caller. Each Rust newtype is a HOL datatype of its own, so that a store path
  cannot be passed where an object key is expected.
\<close>

subsection \<open>Object keys and systems\<close>

datatype object_key = ObjectKey (key_str: string)

datatype system_triple = System (sys_str: string)

subsection \<open>Store paths\<close>

datatype store_path = StorePath (sp_str: string)

datatype not_rooted = NotRooted string string

definition from_full :: "string \<Rightarrow> string \<Rightarrow> store_path option" where
  "from_full store_dir full =
     Option.bind (strip_prefix store_dir full) (\<lambda>rest.
     Option.bind (strip_prefix ''/'' rest) (\<lambda>bare. Some (StorePath bare)))"

definition to_full :: "string \<Rightarrow> store_path \<Rightarrow> string" where
  "to_full store_dir p = store_dir @ ''/'' @ sp_str p"

definition from_full_or_err :: "string \<Rightarrow> string \<Rightarrow> (not_rooted, store_path) res" where
  "from_full_or_err store_dir full = ok_or (NotRooted store_dir full) (from_full store_dir full)"

definition base_name :: "store_path \<Rightarrow> string" where
  "base_name p = last (split_on (CHR ''/'') (sp_str p))"

definition sp_name :: "store_path \<Rightarrow> string option" where
  "sp_name p =
     Option.bind (split_once (CHR ''-'') (base_name p)) (\<lambda>(hash, name).
     if length hash = 32 \<and> name \<noteq> [] then Some name else None)"

definition hash_part :: "store_path \<Rightarrow> string option" where
  "hash_part p =
     (let hash = hd (split_on (CHR ''-'') (base_name p)) in
      if length hash = 32 then Some hash else None)"

lemma from_full_iff: "from_full d s = Some p \<longleftrightarrow> s = d @ ''/'' @ sp_str p"
  by (cases p) (auto simp: from_full_def Option.bind_eq_Some_conv strip_prefix_iff)

lemma hd_split_on: "hd (split_on c s) = takeWhile (\<lambda>x. x \<noteq> c) s"
proof (induction s)
  case (Cons x xs)
  then show ?case by (cases "split_on c xs") auto
qed simp

lemma hash_part_iff:
  "hash_part p = Some h \<longleftrightarrow> h = takeWhile (\<lambda>x. x \<noteq> CHR ''-'') (base_name p) \<and> length h = 32"
  by (auto simp: hash_part_def hd_split_on Let_def)

lemma base_name_no_slash: "CHR ''/'' \<notin> set (base_name p)"
  unfolding base_name_def last_split_on_eq using set_takeWhileD by fastforce

lemma hash_part_chars: "hash_part p = Some h \<Longrightarrow> CHR ''/'' \<notin> set h \<and> CHR ''-'' \<notin> set h"
proof -
  assume "hash_part p = Some h"
  then have h: "h = takeWhile (\<lambda>x. x \<noteq> CHR ''-'') (base_name p)"
    by (simp add: hash_part_iff)
  have "CHR ''-'' \<notin> set h" unfolding h using set_takeWhileD by fastforce
  moreover have "CHR ''/'' \<notin> set h"
    unfolding h using base_name_no_slash [of p] set_takeWhileD [of _ _ "base_name p"] by fast
  ultimately show ?thesis by simp
qed

lemma hash_part_length: "hash_part p = Some h \<Longrightarrow> length h = 32"
  by (metis hash_part_iff)

text \<open>A path that has a name has a hash part, and its base name is the two joined.\<close>

lemma sp_name_hash_part:
  assumes "sp_name p = Some n"
  shows "\<exists>h. hash_part p = Some h \<and> base_name p = h @ CHR ''-'' # n \<and> n \<noteq> []"
proof -
  from assms obtain h where h: "split_once (CHR ''-'') (base_name p) = Some (h, n)"
      and len: "length h = 32" and n: "n \<noteq> []"
    by (auto simp: sp_name_def Option.bind_eq_Some_conv split: if_splits)
  from h have b: "base_name p = h @ CHR ''-'' # n" and "CHR ''-'' \<notin> set h"
    by (simp_all add: split_once_Some_iff)
  then have "takeWhile (\<lambda>x. x \<noteq> CHR ''-'') (base_name p) = h"
    by (simp add: takeWhile_append)
  with b len n show ?thesis by (simp add: hash_part_iff)
qed

lemma base_name_bare: "CHR ''/'' \<notin> set s \<Longrightarrow> base_name (StorePath s) = s"
  by (simp add: base_name_def)

lemma sp_name_bare:
  "CHR ''/'' \<notin> set h \<Longrightarrow> CHR ''-'' \<notin> set h \<Longrightarrow> length h = 32 \<Longrightarrow> n \<noteq> [] \<Longrightarrow> CHR ''/'' \<notin> set n \<Longrightarrow>
   sp_name (StorePath (h @ CHR ''-'' # n)) = Some n \<and> hash_part (StorePath (h @ CHR ''-'' # n)) = Some h"
  using split_once_Some_iff [of "CHR ''-''" "h @ CHR ''-'' # n" h n]
  by (auto simp: sp_name_def base_name_bare hash_part_iff takeWhile_append)

text \<open>
  \<open>to_full\<close> and \<open>from_full\<close> are inverse for every store directory and
  every bare path, and \<open>from_full\<close> accepts nothing but a path that is the directory,
  one slash and the bare name: a sibling directory that shares the prefix is refused.
\<close>

theorem from_full_to_full:
  "from_full d (to_full d p) = Some p \<and>
   (from_full d s = Some p \<longleftrightarrow> s = to_full d p)"
  by (auto simp: from_full_iff to_full_def)

subsection \<open>Compression names\<close>

datatype compression =
  CompNone | Zstd | Xz | Bzip2 | Gzip | Lz4 | Brotli | Lzip

datatype unsupported_compression = UnsupportedCompression string

fun compression_as_str :: "compression \<Rightarrow> string" where
  "compression_as_str CompNone = ''none''"
| "compression_as_str Zstd = ''zstd''"
| "compression_as_str Xz = ''xz''"
| "compression_as_str Bzip2 = ''bzip2''"
| "compression_as_str Gzip = ''gzip''"
| "compression_as_str Lz4 = ''lz4''"
| "compression_as_str Brotli = ''br''"
| "compression_as_str Lzip = ''lzip''"

definition compression_from_str :: "string \<Rightarrow> (unsupported_compression, compression) res" where
  "compression_from_str s =
     (if s = ''none'' then Ok CompNone
      else if s = ''zstd'' then Ok Zstd
      else if s = ''xz'' then Ok Xz
      else if s = ''bzip2'' then Ok Bzip2
      else if s = ''gzip'' then Ok Gzip
      else if s = ''lz4'' then Ok Lz4
      else if s = ''br'' then Ok Brotli
      else if s = ''lzip'' then Ok Lzip
      else Err (UnsupportedCompression s))"

lemma compression_from_as_str [simp]: "compression_from_str (compression_as_str c) = Ok c"
  by (cases c) (simp_all add: compression_from_str_def)

lemma compression_from_str_Ok_iff: "compression_from_str s = Ok c \<longleftrightarrow> s = compression_as_str c"
  by (cases c) (auto simp: compression_from_str_def)

subsection \<open>Messages that are safe to show\<close>

text \<open>
  An \<open>eyre\<close> report is a chain of causes, outermost first. A cause is either a
  \<open>Public\<close> message or any other error, of which only its own text is known.
\<close>

datatype cause = PublicCause string | OpaqueCause string

type_synonym report = "cause list"

fun downcast_public :: "cause \<Rightarrow> string option" where
  "downcast_public (PublicCause m) = Some m"
| "downcast_public (OpaqueCause m) = None"

fun public_message :: "report \<Rightarrow> string option" where
  "public_message [] = None"
| "public_message (c # cs) = (case downcast_public c of Some m \<Rightarrow> Some m | None \<Rightarrow> public_message cs)"

definition wrap_err :: "string \<Rightarrow> report \<Rightarrow> report" where
  "wrap_err ctx r = OpaqueCause ctx # r"

lemma public_message_wrap [simp]: "public_message (wrap_err ctx r) = public_message r"
  by (simp add: wrap_err_def)

lemma public_message_Some: "public_message r = Some m \<Longrightarrow> PublicCause m \<in> set r"
  by (induction r) (auto split: option.splits elim: downcast_public.elims)

subsection \<open>Tenant ids\<close>

datatype tenant_id = TenantId (tid_str: string)

definition is_lower :: "char \<Rightarrow> bool" where
  "is_lower c \<longleftrightarrow> 97 \<le> (of_char c :: nat) \<and> (of_char c :: nat) \<le> 122"

definition is_upper :: "char \<Rightarrow> bool" where
  "is_upper c \<longleftrightarrow> 65 \<le> (of_char c :: nat) \<and> (of_char c :: nat) \<le> 90"

definition is_digit :: "char \<Rightarrow> bool" where
  "is_digit c \<longleftrightarrow> 48 \<le> (of_char c :: nat) \<and> (of_char c :: nat) \<le> 57"

definition tenant_char :: "char \<Rightarrow> bool" where
  "tenant_char c \<longleftrightarrow> is_lower c \<or> is_digit c \<or> c = CHR ''-''"

definition from_parts :: "string \<Rightarrow> string \<Rightarrow> tenant_id" where
  "from_parts slug hash_hex = TenantId (slug @ ''-'' @ hash_hex)"

definition from_wire :: "string \<Rightarrow> tenant_id option" where
  "from_wire s =
     (if s \<noteq> [] \<and> length s \<le> 128 \<and> list_all tenant_char s then Some (TenantId s) else None)"

datatype invalid_tenant_id = InvalidTenantId string

definition tenant_from_str :: "string \<Rightarrow> (invalid_tenant_id, tenant_id) res" where
  "tenant_from_str s = ok_or (InvalidTenantId s) (from_wire s)"

text \<open>The well-formedness every \<open>TenantId\<close> that crossed a boundary has.\<close>

definition wf_tenant :: "tenant_id \<Rightarrow> bool" where
  "wf_tenant t \<longleftrightarrow> from_wire (tid_str t) = Some t"

lemma from_wire_wf: "from_wire s = Some t \<Longrightarrow> wf_tenant t \<and> tid_str t = s"
  by (auto simp: from_wire_def wf_tenant_def split: if_splits)

lemma tenant_char_simps [simp]:
  "\<not> tenant_char (CHR ''/'')" "\<not> tenant_char (CHR ''.'')" "\<not> tenant_char (CHR '':'')"
  by (simp_all add: tenant_char_def is_lower_def is_digit_def)

lemma wf_tenant_chars: "wf_tenant t \<Longrightarrow> c \<in> set (tid_str t) \<Longrightarrow> tenant_char c"
  by (auto simp: wf_tenant_def from_wire_def list_all_iff split: if_splits)

lemma wf_tenant_no_slash [simp]: "wf_tenant t \<Longrightarrow> CHR ''/'' \<notin> set (tid_str t)"
  using wf_tenant_chars tenant_char_simps(1) by blast

lemma wf_tenant_no_dot [simp]: "wf_tenant t \<Longrightarrow> CHR ''.'' \<notin> set (tid_str t)"
  using wf_tenant_chars tenant_char_simps(2) by blast

lemma wf_tenant_not_Nil [simp]: "wf_tenant t \<Longrightarrow> tid_str t \<noteq> []"
  by (auto simp: wf_tenant_def from_wire_def split: if_splits)

end
