(* ===== verification/Jobs.thy ===== *)
theory Jobs
  imports Types
begin

text \<open>
  The job queue's data (\<open>crates/server/src/jobs.rs\<close>): the subjects messages are
  published on, the build request the frontend sends, and the outcome a worker reports. A
  UUID is a 128-bit word, printed in the usual hyphenated form. NATS itself (publishing,
  consuming, acknowledging) is library code and is not modelled.
\<close>

definition JOBS_STREAM :: string where "JOBS_STREAM = ''kubernix_jobs''"

definition RESULTS_STREAM :: string where "RESULTS_STREAM = ''kubernix_results''"

text \<open>\<open>Display\<close> of a UUID: 32 hex digits in groups of 8, 4, 4, 4 and 12.\<close>

fun hex_nat :: "nat \<Rightarrow> nat \<Rightarrow> string" where
  "hex_nat 0 n = []"
| "hex_nat (Suc k) n = hex_nat k (n div 16) @ [hex_digit (n mod 16)]"

definition show_uuid :: "uuid \<Rightarrow> string" where
  "show_uuid u =
     (let h = hex_nat 32 (unat u) in
      take 8 h @ ''-'' @ take 4 (drop 8 h) @ ''-'' @ take 4 (drop 12 h) @ ''-'' @
      take 4 (drop 16 h) @ ''-'' @ drop 20 h)"

definition jobs_subject :: "system_triple \<Rightarrow> string list \<Rightarrow> string" where
  "jobs_subject system features =
     (if ''kvm'' \<in> set features then ''kubernix.jobs.'' @ sys_str system @ ''.kvm''
      else if ''big-parallel'' \<in> set features then ''kubernix.jobs.'' @ sys_str system @ ''.big-parallel''
      else ''kubernix.jobs.'' @ sys_str system)"

definition logs_subject :: "uuid \<Rightarrow> string" where
  "logs_subject job_id = ''kubernix.logs.'' @ show_uuid job_id"

definition results_subject :: "uuid \<Rightarrow> string" where
  "results_subject job_id = ''kubernix.results.'' @ show_uuid job_id"

record input_ref =
  in_store_path :: store_path
  in_key :: object_key
  in_references :: "store_path list"
  in_deriver :: store_path
  in_compression :: compression
  in_nar_hash :: string
  in_nar_size :: u64

record build_job =
  bj_job_id :: uuid
  bj_derivation_path :: store_path
  bj_system :: system_triple
  bj_drv :: bytes
  bj_inputs :: "input_ref list"
  bj_tenant :: tenant_id
  bj_token :: bytes
  bj_required_features :: "string list"
  bj_trusted_substituters :: "(string \<times> string) list"

record output_info =
  oi_store_path :: store_path
  oi_nar_hash :: bytes
  oi_nar_size :: u64
  oi_file_hash :: bytes
  oi_file_size :: u64
  oi_key :: object_key
  oi_compression :: compression
  oi_references :: "store_path list"
  oi_deriver :: "store_path option"

datatype failure_kind = OutOfMemory | DiskFull | GuestHang

datatype job_outcome =
    Completed (oc_outputs: "store_path list") (oc_infos: "output_info list") (oc_log_key: string)
  | Failed (oc_message: string) (oc_log_key: string) (oc_failure_kind: "failure_kind option")

subsection \<open>Decoding a reported outcome\<close>

text \<open>
  A \<open>job_result\<close> message after the Cap'n Proto reader has split it into fields. The
  reader itself and the UTF-8 checks on text fields are library code: a message they refuse
  never reaches this point. Hashes arrive as byte strings of any length, and the status is one
  of the schema's enumerants.
\<close>

datatype job_status = StatusCompleted | StatusOther string

record wire_output =
  wo_store_path :: string
  wo_nar_hash :: bytes
  wo_nar_size :: u64
  wo_file_hash :: bytes
  wo_file_size :: u64
  wo_key :: string
  wo_compression :: string
  wo_references :: "string list"
  wo_deriver :: string

record job_result =
  jr_status :: job_status
  jr_log_key :: string
  jr_output_paths :: "string list"
  jr_outputs :: "wire_output list"
  jr_error_msg :: string
  jr_failure_kind :: "failure_kind option"

datatype decode_error = BadHash bytes | BadCompression unsupported_compression

definition digest_from :: "bytes \<Rightarrow> (decode_error, bytes) res" where
  "digest_from bs = (if length bs = 32 then Ok bs else Err (BadHash bs))"

definition decode_output :: "wire_output \<Rightarrow> (decode_error, output_info) res" where
  "decode_output w =
     bind_res (digest_from (wo_nar_hash w)) (\<lambda>nar_hash.
     bind_res (digest_from (wo_file_hash w)) (\<lambda>file_hash.
     bind_res (map_err BadCompression (compression_from_str (wo_compression w))) (\<lambda>compression.
     Ok \<lparr>oi_store_path = StorePath (wo_store_path w), oi_nar_hash = nar_hash,
         oi_nar_size = wo_nar_size w, oi_file_hash = file_hash, oi_file_size = wo_file_size w,
         oi_key = ObjectKey (wo_key w), oi_compression = compression,
         oi_references = map StorePath (wo_references w),
         oi_deriver = (if wo_deriver w = [] then None else Some (StorePath (wo_deriver w)))\<rparr>)))"

definition decode_outcome :: "job_result \<Rightarrow> (decode_error, job_outcome) res" where
  "decode_outcome r =
     (case jr_status r of
        StatusCompleted \<Rightarrow>
          bind_res (collect_res (map decode_output (jr_outputs r))) (\<lambda>infos.
          Ok (Completed (map StorePath (jr_output_paths r)) infos (jr_log_key r)))
      | StatusOther name \<Rightarrow>
          Ok (Failed (if jr_error_msg r = [] then ''build reported status '' @ name else jr_error_msg r)
                (jr_log_key r) (jr_failure_kind r)))"

lemma length_hex_nat [simp]: "length (hex_nat k n) = k"
  by (induction k arbitrary: n) auto

lemma hex_digit_inject: "a < 16 \<Longrightarrow> b < 16 \<Longrightarrow> hex_digit a = hex_digit b \<longleftrightarrow> a = b"
  by (auto simp: hex_digit_def split: if_splits dest!: arg_cong [where f = "of_char :: char \<Rightarrow> nat"])

lemma hex_nat_inject: "m < 16 ^ k \<Longrightarrow> n < 16 ^ k \<Longrightarrow> hex_nat k m = hex_nat k n \<longleftrightarrow> m = n"
proof (induction k arbitrary: m n)
  case (Suc k)
  have "m div 16 < 16 ^ k" "n div 16 < 16 ^ k" using Suc.prems by (simp_all add: div_less_iff_less_mult mult.commute)
  then show ?case using Suc.IH [of "m div 16" "n div 16"]
    by (auto simp: hex_digit_inject) (metis div_mult_mod_eq)
qed simp

lemma show_uuid_inject: "show_uuid a = show_uuid b \<longleftrightarrow> a = b"
proof
  assume eq: "show_uuid a = show_uuid b"
  let ?A = "hex_nat 32 (unat a)" and ?B = "hex_nat 32 (unat b)"
  have parts: "take 8 ?A = take 8 ?B" "take 4 (drop 8 ?A) = take 4 (drop 8 ?B)"
      "take 4 (drop 12 ?A) = take 4 (drop 12 ?B)" "take 4 (drop 16 ?A) = take 4 (drop 16 ?B)"
      "drop 20 ?A = drop 20 ?B"
    using eq by (simp_all add: show_uuid_def Let_def)
  have split: "h = take 8 h @ take 4 (drop 8 h) @ take 4 (drop 12 h) @ take 4 (drop 16 h) @ drop 20 h" for h :: string
  proof -
    have step: "drop m h = take k (drop m h) @ drop (k + m) h" for m k
      by (metis append_take_drop_id drop_drop)
    show ?thesis
      using step [of 0 8] step [of 8 4] step [of 12 4] step [of 16 4] by simp
  qed
  have "?A = ?B" using parts split [of ?A] split [of ?B] by metis
  moreover have "unat a < 16 ^ 32" "unat b < 16 ^ 32"
    using unsigned_less [of a] unsigned_less [of b] by simp_all
  ultimately show "a = b" by (simp add: hex_nat_inject word_unat_eq_iff)
qed simp

text \<open>The message an output was sent as, for an output whose deriver, if any, is not empty.\<close>

definition encode_output :: "output_info \<Rightarrow> wire_output" where
  "encode_output i =
     \<lparr>wo_store_path = sp_str (oi_store_path i), wo_nar_hash = oi_nar_hash i, wo_nar_size = oi_nar_size i,
      wo_file_hash = oi_file_hash i, wo_file_size = oi_file_size i, wo_key = key_str (oi_key i),
      wo_compression = compression_as_str (oi_compression i), wo_references = map sp_str (oi_references i),
      wo_deriver = (case oi_deriver i of None \<Rightarrow> [] | Some d \<Rightarrow> sp_str d)\<rparr>"

definition wf_output_info :: "output_info \<Rightarrow> bool" where
  "wf_output_info i \<longleftrightarrow> length (oi_nar_hash i) = 32 \<and> length (oi_file_hash i) = 32 \<and>
     oi_deriver i \<noteq> Some (StorePath [])"

lemma map_StorePath_sp_str [simp]: "map StorePath (map sp_str xs) = xs"
  by (induction xs) auto

lemma map_sp_str_eq: "map StorePath ss = ps \<longleftrightarrow> ss = map sp_str ps"
  by (metis comp_apply list.map_comp map_StorePath_sp_str map_idI store_path.sel)

lemma decode_output_Ok_iff:
  "decode_output w = Ok i \<longleftrightarrow> w = encode_output i \<and> wf_output_info i"
proof
  assume "decode_output w = Ok i"
  then show "w = encode_output i \<and> wf_output_info i"
    by (auto simp: decode_output_def digest_from_def res_simps compression_from_str_Ok_iff
        encode_output_def wf_output_info_def comp_def split: if_splits)
next
  assume "w = encode_output i \<and> wf_output_info i"
  then show "decode_output w = Ok i"
    by (cases "oi_deriver i") (auto simp: decode_output_def digest_from_def encode_output_def
        wf_output_info_def store_path.expand comp_def map_idI intro!: output_info.equality)
qed

text \<open>
  a completed result is accepted only in full and without change. \<open>decode_outcome\<close>
  yields a completed outcome exactly for the message in which every output is the encoding of
  the decoded one and has two 32-byte digests, and it never panics.
\<close>

theorem decode_outcome_completed_iff:
  "(decode_outcome r = Ok (Completed outs infos lk) \<longleftrightarrow>
      jr_status r = StatusCompleted \<and> jr_output_paths r = map sp_str outs \<and> jr_log_key r = lk \<and>
      jr_outputs r = map encode_output infos \<and> list_all wf_output_info infos) \<and>
   decode_outcome r \<noteq> Panic"
proof -
  have "collect_res (map decode_output ws) = Ok infos \<longleftrightarrow> ws = map encode_output infos \<and> list_all wf_output_info infos" for ws
    unfolding collect_res_Ok_iff
    by (induction infos arbitrary: ws) (auto simp: map_eq_Cons_conv decode_output_Ok_iff)
  moreover have "decode_output w \<noteq> Panic" for w
    by (simp add: decode_output_def digest_from_def compression_from_str_def res_simps)
  then have "collect_res (map decode_output ws) \<noteq> Panic" for ws
    by (intro collect_res_not_Panic) auto
  ultimately show ?thesis
    by (cases "jr_status r") (auto simp: decode_outcome_def res_simps map_sp_str_eq)
qed

end
