(* ===== verification/Base32.thy ===== *)
theory Base32
  imports Prelude
begin

unbundle bit_operations_syntax

text \<open>
  Nix's base32 (\<open>crates/signing/src/base32.rs\<close>): thirty-two digits without
  \<open>e\<close>, \<open>o\<close>, \<open>u\<close> and \<open>t\<close>, the most significant digit
  first, each digit five bits of the little-endian bit string. The arithmetic is on 32-bit
  words as in the source. The proofs read bytes and digits as bit strings.
\<close>

definition BASE32_CHARS :: string where
  "BASE32_CHARS = ''0123456789abcdfghijklmnpqrsvwxyz''"

definition b32_len :: "nat \<Rightarrow> nat" where
  "b32_len n = (n * 8 - 1) div 5 + 1"

definition enc_digit :: "bytes \<Rightarrow> nat \<Rightarrow> u32" where
  "enc_digit bs n =
     (let b = n * 5; i = b div 8; j = b mod 8;
          current = ucast (bs ! i) :: u32;
          next = (if i + 1 \<ge> length bs then 0 else push_bit (8 - j) (ucast (bs ! (i + 1)) :: u32));
          c = drop_bit j current OR next
      in c AND 31)"

definition encode :: "bytes \<Rightarrow> string" where
  "encode bs =
     (if bs = [] then []
      else map (\<lambda>n. BASE32_CHARS ! unat (enc_digit bs n)) (rev [0..<b32_len (length bs)]))"

definition is_valid :: "string \<Rightarrow> bool" where
  "is_valid s \<longleftrightarrow> s \<noteq> [] \<and> list_all (\<lambda>b. b \<in> set BASE32_CHARS) s"

fun position :: "'a \<Rightarrow> 'a list \<Rightarrow> nat option" where
  "position c [] = None"
| "position c (x # xs) = (if x = c then Some 0 else map_option Suc (position c xs))"

definition set_digit :: "nat \<Rightarrow> nat \<Rightarrow> u32 \<Rightarrow> bytes \<Rightarrow> bytes option" where
  "set_digit out_len n digit out =
     (let b = n * 5; i = b div 8; j = b mod 8 in
      if i \<ge> out_len then (if digit \<noteq> 0 then None else Some out)
      else
        let out = out[i := out ! i OR ucast (push_bit j digit)];
            overflow = drop_bit (8 - j) digit in
        if i + 1 < out_len then Some (out[i + 1 := out ! (i + 1) OR ucast overflow])
        else if overflow \<noteq> 0 then None
        else Some out)"

fun decode_loop :: "nat \<Rightarrow> string \<Rightarrow> bytes \<Rightarrow> bytes option" where
  "decode_loop out_len [] out = Some out"
| "decode_loop out_len (c # cs) out =
     Option.bind (position c BASE32_CHARS) (\<lambda>d.
     Option.bind (set_digit out_len (length cs) (of_nat d) out) (decode_loop out_len cs))"

definition decode :: "string \<Rightarrow> nat \<Rightarrow> bytes option" where
  "decode s out_len =
     (if out_len = 0 then (if s = [] then Some [] else None)
      else if length s \<noteq> b32_len out_len then None
      else decode_loop out_len s (replicate out_len 0))"

subsection \<open>The alphabet\<close>

lemma length_BASE32_CHARS [simp]: "length BASE32_CHARS = 32"
  by (simp add: BASE32_CHARS_def)

lemma distinct_BASE32_CHARS: "distinct BASE32_CHARS"
  by (simp add: BASE32_CHARS_def)

lemma position_Some_iff: "distinct xs \<Longrightarrow> position c xs = Some i \<longleftrightarrow> i < length xs \<and> xs ! i = c"
proof (induction xs arbitrary: i)
  case (Cons x xs)
  then show ?case by (cases i) (auto simp: in_set_conv_nth)
qed simp

lemma position_nth [simp]: "i < 32 \<Longrightarrow> position (BASE32_CHARS ! i) BASE32_CHARS = Some i"
  by (simp add: position_Some_iff distinct_BASE32_CHARS)

lemma position_bound: "position c BASE32_CHARS = Some d \<Longrightarrow> d < 32 \<and> BASE32_CHARS ! d = c"
  by (simp add: position_Some_iff distinct_BASE32_CHARS)

lemma base32_no_sep [simp]:
  "CHR ''/'' \<notin> set BASE32_CHARS" "CHR ''.'' \<notin> set BASE32_CHARS" "CHR ''-'' \<notin> set BASE32_CHARS"
  "CHR '';'' \<notin> set BASE32_CHARS" "CHR '':'' \<notin> set BASE32_CHARS"
  by (simp_all add: BASE32_CHARS_def)

subsection \<open>Bit strings\<close>

definition bbit :: "bytes \<Rightarrow> nat \<Rightarrow> bool" where
  "bbit bs q \<longleftrightarrow> q < 8 * length bs \<and> bit (bs ! (q div 8)) (q mod 8)"

lemma bit_u8_less: "bit (w :: u8) m \<Longrightarrow> m < 8"
  using bit_imp_le_length [of w m] by simp

lemma bbit_eqI:
  assumes "length bs = length cs" and "\<And>q. q < 8 * length bs \<Longrightarrow> bbit bs q = bbit cs q"
  shows "bs = cs"
proof (rule nth_equalityI [OF assms(1)])
  fix i assume i: "i < length bs"
  show "bs ! i = cs ! i"
  proof (rule bit_word_eqI)
    fix m assume "m < LENGTH(8)"
    then have m: "m < 8" by simp
    then have "bbit bs (8 * i + m) = bbit cs (8 * i + m)" using i assms(2) by simp
    then show "bit (bs ! i) m = bit (cs ! i) m"
      using i m assms(1) by (simp add: bbit_def)
  qed
qed

lemma and_31: "(c :: u32) AND 31 = take_bit 5 c"
  by (simp add: take_bit_eq_mask mask_eq_exp_minus_1)

lemma bit_enc_digit:
  assumes "n * 5 div 8 < length bs"
  shows "bit (enc_digit bs n) m \<longleftrightarrow> m < 5 \<and> bbit bs (5 * n + m)"
proof -
  define i j where "i = n * 5 div 8" and "j = n * 5 mod 8"
  have ij: "5 * n = 8 * i + j" and j: "j < 8" by (simp_all add: i_def j_def)
  have i: "i < length bs" using assms by (simp add: i_def)
  have sum: "5 * n + m = 8 * i + (j + m)" using ij by simp
  show ?thesis
  proof (cases "m < 5")
    case False
    then show ?thesis by (simp add: enc_digit_def Let_def and_31 bit_simps)
  next
    case True
    have e: "bit (enc_digit bs n) m \<longleftrightarrow>
        bit (bs ! i) (j + m) \<or> (i + 1 < length bs \<and> 8 \<le> j + m \<and> bit (bs ! (i + 1)) (j + m - 8))"
      using True j
      by (auto simp: enc_digit_def Let_def i_def [symmetric] j_def [symmetric] and_31 bit_simps
          not_le add.commute)
    show ?thesis
    proof (cases "j + m < 8")
      case True
      then have "(8 * i + (j + m)) div 8 = i" "(8 * i + (j + m)) mod 8 = j + m" by simp_all
      then show ?thesis using e i True \<open>m < 5\<close> by (simp add: bbit_def sum)
    next
      case False
      then have big: "8 \<le> j + m" "j + m < 16" using j \<open>m < 5\<close> by simp_all
      then obtain r where r: "j + m = 8 + r" "r < 8" by (metis add_less_cancel_left le_Suc_ex numeral_Bit0)
      then have "8 * i + (j + m) = 8 * (i + 1) + r" by simp
      then have "(8 * i + (j + m)) div 8 = i + 1" "(8 * i + (j + m)) mod 8 = j + m - 8"
        using r by simp_all
      then show ?thesis
        using e big \<open>m < 5\<close> bit_u8_less [of "bs ! i" "j + m"]
        by (auto simp: bbit_def sum)
    qed
  qed
qed

lemma bbit_zeros [simp]: "\<not> bbit (replicate k 0) q"
  by (auto simp: bbit_def)

lemma bbit_less: "bbit bs q \<Longrightarrow> q < 8 * length bs"
  by (simp add: bbit_def)

lemma bbit_update:
  assumes "i < length bs"
  shows "bbit (bs[i := bs ! i OR w]) q \<longleftrightarrow>
         bbit bs q \<or> (q < 8 * length bs \<and> q div 8 = i \<and> bit w (q mod 8))"
  using assms by (auto simp: bbit_def nth_list_update bit_or_iff)

lemma b32_len_bound: "n < b32_len k \<Longrightarrow> 0 < k \<Longrightarrow> n * 5 div 8 < k"
  unfolding b32_len_def by linarith

lemma b32_len_covers: "0 < k \<Longrightarrow> q < 8 * k \<Longrightarrow> q div 5 < b32_len k"
  unfolding b32_len_def by linarith

text \<open>
  One decoding step ORs the five bits of the digit in, and fails on a bit past the end. The
  low bits go into byte \<open>i\<close>, the overflow into byte \<open>i + 1\<close>.
\<close>

lemma low_bits:
  fixes d :: u32
  assumes ij: "5 * n = 8 * i + j" and j: "j < 8"
  shows "(q div 8 = i \<and> bit (ucast (push_bit j d) :: u8) (q mod 8)) \<longleftrightarrow>
         q < 8 * i + 8 \<and> 5 * n \<le> q \<and> bit d (q - 5 * n)"
proof (cases "q div 8 = i")
  case True
  then obtain r where r: "q = 8 * i + r" "r < 8"
    by (metis mod_less_divisor mult_div_mod_eq zero_less_numeral)
  then have "q mod 8 = r" "q - 5 * n = r - j" using ij by simp_all
  then show ?thesis using r ij j True by (auto simp: bit_simps)
next
  case False
  then show ?thesis using ij by auto
qed

lemma high_bits:
  fixes d :: u32
  assumes ij: "5 * n = 8 * i + j" and j: "j < 8" and d: "\<And>m. bit d m \<Longrightarrow> m < 5"
  shows "(q div 8 = i + 1 \<and> bit (ucast (drop_bit (8 - j) d) :: u8) (q mod 8)) \<longleftrightarrow>
         8 * i + 8 \<le> q \<and> bit d (q - 5 * n)"
proof (cases "q div 8 = i + 1")
  case True
  then obtain r where r: "q = r + 8 * (i + 1)" "r < 8"
    by (metis add.commute mod_less_divisor mult_div_mod_eq zero_less_numeral)
  then have "q mod 8 = r" "q - 5 * n = 8 - j + r"
    using ij j by (simp_all only: mod_mult_self2 mod_less) simp_all
  then show ?thesis using r True by (auto simp: bit_simps)
next
  case False
  have "q div 8 = i + 1" if "8 * i + 8 \<le> q" "bit d (q - 5 * n)"
    using d [OF that(2)] that(1) ij j by linarith
  with False show ?thesis by auto
qed

definition overflows :: "nat \<Rightarrow> nat \<Rightarrow> u32 \<Rightarrow> bool" where
  "overflows k n d \<longleftrightarrow> (\<exists>m. bit d m \<and> 8 * k \<le> 5 * n + m)"

lemma drop_bit_nonzero: "drop_bit s (d :: u32) \<noteq> 0 \<longleftrightarrow> (\<exists>m. bit d m \<and> s \<le> m)"
proof -
  have "m < 32" if "bit d (s + m)" for m
    using bit_imp_le_length [OF that] by simp
  then have "drop_bit s d = 0 \<longleftrightarrow> (\<forall>m. \<not> bit d (s + m))"
    by (auto simp: bit_eq_iff bit_simps)
  then show ?thesis by (metis le_iff_add)
qed

lemma set_digit_bits:
  assumes len: "length out = k" and fits: "n * 5 div 8 < k" and d: "\<And>m. bit d m \<Longrightarrow> m < 5"
  shows "(overflows k n d \<longrightarrow> set_digit k n d out = None) \<and>
    (\<not> overflows k n d \<longrightarrow> (\<exists>out'. set_digit k n d out = Some out' \<and> length out' = k \<and>
      (\<forall>q. bbit out' q \<longleftrightarrow> bbit out q \<or> (q < 8 * k \<and> 5 * n \<le> q \<and> bit d (q - 5 * n)))))"
proof -
  define i j where "i = n * 5 div 8" and "j = n * 5 mod 8"
  have ij: "5 * n = 8 * i + j" and j: "j < 8" by (simp_all add: i_def j_def)
  have i: "i < k" using fits by (simp add: i_def)
  let ?w = "ucast (push_bit j d) :: u8"
  let ?v = "ucast (drop_bit (8 - j) d) :: u8"
  let ?o1 = "out[i := out ! i OR ?w]"
  let ?o2 = "?o1[i + 1 := ?o1 ! (i + 1) OR ?v]"
  have o1: "bbit ?o1 q \<longleftrightarrow> bbit out q \<or>
      (q < 8 * k \<and> q < 8 * i + 8 \<and> 5 * n \<le> q \<and> bit d (q - 5 * n))" for q
    using bbit_update [of i out ?w q] i len low_bits [where q = q and d = d, OF ij j] by auto
  show ?thesis
  proof (cases "i + 1 < k")
    case True
    have noover: "\<not> overflows k n d"
      unfolding overflows_def using d ij j True by (auto dest!: d)
    have sd: "set_digit k n d out = Some ?o2"
      using True i by (simp add: set_digit_def Let_def i_def [symmetric] j_def [symmetric])
    have "bbit ?o2 q \<longleftrightarrow> bbit out q \<or> (q < 8 * k \<and> 5 * n \<le> q \<and> bit d (q - 5 * n))" for q
      using bbit_update [of "i + 1" ?o1 ?v q] True len o1 [of q] high_bits [where q = q, OF ij j d] ij j
      by (auto simp: not_less)
    then show ?thesis using sd len noover by auto
  next
    case False
    then have ik: "k = i + 1" using i by simp
    have over: "drop_bit (8 - j) d \<noteq> 0 \<longleftrightarrow> overflows k n d"
    proof -
      have "8 - j \<le> m \<longleftrightarrow> 8 * k \<le> 5 * n + m" for m using ij j ik by linarith
      then show ?thesis by (simp add: drop_bit_nonzero overflows_def)
    qed
    have sd: "set_digit k n d out = (if drop_bit (8 - j) d \<noteq> 0 then None else Some ?o1)"
      using False i by (simp add: set_digit_def Let_def i_def [symmetric] j_def [symmetric])
    have "bbit ?o1 q \<longleftrightarrow> bbit out q \<or> (q < 8 * k \<and> 5 * n \<le> q \<and> bit d (q - 5 * n))" for q
      using o1 [of q] ik by auto
    then show ?thesis using sd len over by auto
  qed
qed

subsection \<open>The decoding loop\<close>

definition digit_at :: "string \<Rightarrow> nat \<Rightarrow> u32" where
  "digit_at cs n = of_nat (the (position (rev cs ! n) BASE32_CHARS))"

lemma digit_at_Cons [simp]: "n < length cs \<Longrightarrow> digit_at (c # cs) n = digit_at cs n"
  by (simp add: digit_at_def nth_append)

lemma digit_at_last [simp]: "digit_at (c # cs) (length cs) = of_nat (the (position c BASE32_CHARS))"
  by (simp add: digit_at_def nth_append)

lemma unat_small: "d < 32 \<Longrightarrow> unat (of_nat d :: u32) = d"
  by (simp add: unat_of_nat)

lemma bit_digit_less: "d < 32 \<Longrightarrow> bit (of_nat d :: u32) m \<Longrightarrow> m < 5"
proof -
  assume d: "d < 32" and b: "bit (of_nat d :: u32) m"
  from d have "d = take_bit 5 d" by (simp add: take_bit_nat_eq_self)
  then have "(of_nat d :: u32) = take_bit 5 (of_nat d)" by (metis of_nat_take_bit)
  with b show "m < 5" by (metis bit_take_bit_iff)
qed

lemma decode_loop_Some:
  assumes "0 < k"
  shows "length out = k \<Longrightarrow> length cs \<le> b32_len k \<Longrightarrow> decode_loop k cs out = Some out' \<Longrightarrow>
     length out' = k \<and> (\<forall>n < length cs. \<not> overflows k n (digit_at cs n)) \<and>
     (\<forall>c \<in> set cs. c \<in> set BASE32_CHARS) \<and>
     (\<forall>q. bbit out' q \<longleftrightarrow> bbit out q \<or>
        (q < 8 * k \<and> q div 5 < length cs \<and> bit (digit_at cs (q div 5)) (q mod 5)))"
proof (induction cs arbitrary: out)
  case Nil
  then show ?case by simp
next
  case (Cons c cs)
  from Cons.prems(3) obtain d o1 where d: "position c BASE32_CHARS = Some d"
      and s1: "set_digit k (length cs) (of_nat d) out = Some o1"
      and rest: "decode_loop k cs o1 = Some out'"
    by (auto simp: Option.bind_eq_Some_conv)
  have fits: "length cs * 5 div 8 < k"
    using b32_len_bound [of "length cs" k] Cons.prems(2) assms by simp
  have small: "\<And>m. bit (of_nat d :: u32) m \<Longrightarrow> m < 5"
    using bit_digit_less position_bound [OF d] by blast
  note step = set_digit_bits [where d = "of_nat d", OF Cons.prems(1) fits small]
  have no: "\<not> overflows k (length cs) (of_nat d)" using step s1 by auto
  have o1: "length o1 = k" "\<And>q. bbit o1 q \<longleftrightarrow> bbit out q \<or>
      (q < 8 * k \<and> 5 * length cs \<le> q \<and> bit (of_nat d :: u32) (q - 5 * length cs))"
    using step s1 no by auto
  note ih = Cons.IH [OF o1(1) _ rest]
  have mid: "(5 * length cs \<le> q \<and> bit (of_nat d :: u32) (q - 5 * length cs)) \<longleftrightarrow>
      q div 5 = length cs \<and> bit (of_nat d :: u32) (q mod 5)" for q
  proof (cases "q div 5 = length cs")
    case True
    then have "q = 5 * length cs + q mod 5" by (metis mult_div_mod_eq)
    then show ?thesis using True by (metis add_diff_cancel_left' le_add1)
  next
    case False
    have "q div 5 = length cs" if "5 * length cs \<le> q" "bit (of_nat d :: u32) (q - 5 * length cs)"
      using small [OF that(2)] that(1) by linarith
    with False show ?thesis by blast
  qed
  have last: "digit_at (c # cs) (length cs) = of_nat d" using d by simp
  show ?case
    using ih Cons.prems(2) no last o1(2) mid position_bound [OF d] nth_mem [of d BASE32_CHARS]
    by (auto simp: less_Suc_eq)
qed

lemma decode_loop_total:
  assumes "0 < k"
  shows "length out = k \<Longrightarrow> length cs \<le> b32_len k \<Longrightarrow>
     (\<And>c. c \<in> set cs \<Longrightarrow> position c BASE32_CHARS \<noteq> None) \<Longrightarrow>
     (\<And>n. n < length cs \<Longrightarrow> \<not> overflows k n (digit_at cs n)) \<Longrightarrow>
     \<exists>out'. decode_loop k cs out = Some out'"
proof (induction cs arbitrary: out)
  case Nil
  then show ?case by simp
next
  case (Cons c cs)
  obtain d where d: "position c BASE32_CHARS = Some d" using Cons.prems(3) [of c] by auto
  have fits: "length cs * 5 div 8 < k"
    using b32_len_bound [of "length cs" k] Cons.prems(2) assms by simp
  have small: "\<And>m. bit (of_nat d :: u32) m \<Longrightarrow> m < 5"
    using bit_digit_less position_bound [OF d] by blast
  have "\<not> overflows k (length cs) (of_nat d)" using Cons.prems(4) [of "length cs"] d by simp
  then obtain o1 where o1: "set_digit k (length cs) (of_nat d) out = Some o1" "length o1 = k"
    using set_digit_bits [where d = "of_nat d", OF Cons.prems(1) fits small] by blast
  have "\<not> overflows k n (digit_at cs n)" if "n < length cs" for n
    using Cons.prems(4) [of n] that by simp
  then obtain out' where "decode_loop k cs o1 = Some out'"
    using Cons.IH [OF o1(2)] Cons.prems(2,3) by auto
  then show ?case using d o1 by simp
qed

subsection \<open>Encoding and decoding are inverse\<close>

lemma unat_enc_digit: "n * 5 div 8 < length bs \<Longrightarrow> unat (enc_digit bs n) < 32"
proof -
  have "enc_digit bs n = take_bit 5 (enc_digit bs n)"
    by (simp add: enc_digit_def Let_def and_31)
  then have "unat (enc_digit bs n) = take_bit 5 (unat (enc_digit bs n))"
    by (metis unsigned_take_bit_eq)
  also have "\<dots> < 2 ^ 5" by (rule take_bit_nat_less_exp)
  finally show ?thesis by simp
qed

lemma b32_len_pos [simp]: "0 < b32_len k"
  by (simp add: b32_len_def)

lemma length_encode: "length (encode bs) = (if bs = [] then 0 else b32_len (length bs))"
  by (simp add: encode_def)

lemma encode_nth:
  "bs \<noteq> [] \<Longrightarrow> n < b32_len (length bs) \<Longrightarrow> rev (encode bs) ! n = BASE32_CHARS ! unat (enc_digit bs n)"
  by (simp add: encode_def rev_map)

lemma digit_at_encode:
  "bs \<noteq> [] \<Longrightarrow> n < b32_len (length bs) \<Longrightarrow> digit_at (encode bs) n = enc_digit bs n"
  using unat_enc_digit [OF b32_len_bound, of n bs]
  by (simp add: digit_at_def encode_nth)

lemma encode_alphabet: "c \<in> set (encode bs) \<Longrightarrow> c \<in> set BASE32_CHARS"
proof -
  assume "c \<in> set (encode bs)"
  then obtain n where "n < b32_len (length bs)" "bs \<noteq> []" "c = BASE32_CHARS ! unat (enc_digit bs n)"
    by (auto simp: encode_def split: if_splits)
  then show ?thesis using unat_enc_digit [OF b32_len_bound, of n bs] by simp
qed

lemma enc_digit_no_overflow:
  "n * 5 div 8 < length bs \<Longrightarrow> \<not> overflows (length bs) n (enc_digit bs n)"
  by (auto simp: overflows_def bit_enc_digit bbit_def)

lemma decode_encode: "decode (encode bs) (length bs) = Some bs"
proof (cases "bs = []")
  case True
  then show ?thesis by (simp add: decode_def encode_def)
next
  case False
  let ?k = "length bs" and ?s = "encode bs"
  have k: "0 < ?k" and len: "length ?s = b32_len ?k" using False by (simp_all add: length_encode)
  have "position c BASE32_CHARS \<noteq> None" if "c \<in> set ?s" for c
    using encode_alphabet [OF that] by (metis in_set_conv_nth length_BASE32_CHARS option.distinct(1) position_nth)
  moreover have "\<not> overflows ?k n (digit_at ?s n)" if "n < length ?s" for n
    using that False len enc_digit_no_overflow [OF b32_len_bound, of n bs] by (simp add: digit_at_encode)
  ultimately obtain out' where out': "decode_loop ?k ?s (replicate ?k 0) = Some out'"
    using decode_loop_total [OF k, of "replicate ?k 0" ?s] len by auto
  note bits = decode_loop_Some [OF k _ _ out']
  have "bbit out' q = bbit bs q" if q: "q < 8 * ?k" for q
  proof -
    have n: "q div 5 < b32_len ?k" by (rule b32_len_covers [OF k q])
    have "bbit out' q \<longleftrightarrow> bit (enc_digit bs (q div 5)) (q mod 5)"
      using bits len q n False by (simp add: digit_at_encode)
    also have "\<dots> \<longleftrightarrow> bbit bs (5 * (q div 5) + q mod 5)"
      using bit_enc_digit [OF b32_len_bound [OF n k]] by simp
    finally show ?thesis by simp
  qed
  then have "out' = bs" using bits len by (intro bbit_eqI) auto
  then show ?thesis using out' len k by (simp add: decode_def)
qed

lemma decoded_digit:
  assumes k: "0 < k" and len: "length s = b32_len k"
    and loop: "decode_loop k s (replicate k 0) = Some bs" and n: "n < b32_len k"
  shows "digit_at s n = enc_digit bs n"
proof (rule bit_word_eqI)
  fix m assume "m < LENGTH(32)"
  note bits = decode_loop_Some [OF k _ _ loop]
  have lbs: "length bs = k" using bits len by simp
  have c: "rev s ! n \<in> set BASE32_CHARS" using bits len n nth_mem [of n "rev s"] by auto
  then obtain d where d: "position (rev s ! n) BASE32_CHARS = Some d" "d < 32"
    by (metis in_set_conv_nth length_BASE32_CHARS position_nth)
  have less: "m < 5" if "bit (digit_at s n) m"
    using bit_digit_less [OF d(2), of m] d(1) that by (simp add: digit_at_def)
  have "bit (digit_at s n) m \<longleftrightarrow> m < 5 \<and> bbit bs (5 * n + m)"
  proof (cases "m < 5 \<and> 5 * n + m < 8 * k")
    case True
    then have "(5 * n + m) div 5 = n" "(5 * n + m) mod 5 = m" by simp_all
    then show ?thesis using bits len True n by simp
  next
    case False
    moreover have "\<not> overflows k n (digit_at s n)" using bits len n by simp
    ultimately show ?thesis
      using less bbit_less [of bs "5 * n + m"] lbs by (auto simp: overflows_def not_less)
  qed
  then show "bit (digit_at s n) m = bit (enc_digit bs n) m"
    using bit_enc_digit [of n bs m] b32_len_bound [OF n k] lbs by simp
qed

lemma encode_decode:
  assumes "decode s k = Some bs"
  shows "length bs = k \<and> encode bs = s"
proof (cases "k = 0")
  case True
  then show ?thesis using assms by (auto simp: decode_def encode_def split: if_splits)
next
  case False
  then have k: "0 < k" and len: "length s = b32_len k"
      and loop: "decode_loop k s (replicate k 0) = Some bs"
    using assms by (auto simp: decode_def split: if_splits)
  note bits = decode_loop_Some [OF k _ _ loop]
  have lbs: "length bs = k" and bs: "bs \<noteq> []" using bits len k by auto
  have "rev s = rev (encode bs)"
  proof (rule nth_equalityI)
    show "length (rev s) = length (rev (encode bs))" using len lbs bs by (simp add: length_encode)
    fix n assume "n < length (rev s)"
    then have n: "n < b32_len k" using len by simp
    have "rev s ! n \<in> set BASE32_CHARS" using bits len n nth_mem [of n "rev s"] by auto
    then obtain d where d: "rev s ! n = BASE32_CHARS ! d" "d < 32"
      by (metis in_set_conv_nth length_BASE32_CHARS)
    then have "digit_at s n = of_nat d" by (simp add: digit_at_def)
    then have "unat (enc_digit bs n) = d"
      using decoded_digit [OF k len loop n] d(2) unat_small [of d] by simp
    then show "rev s ! n = rev (encode bs) ! n" using n lbs bs d by (simp add: encode_nth)
  qed
  then show ?thesis using lbs by simp
qed

text \<open>
  C38: Nix base32 is a bijection between byte strings of a known length and the canonical
  texts: decoding what was encoded gives the bytes back, and whatever the decoder accepts for
  \<open>k\<close> bytes is exactly the encoding of the bytes it returns, so a wrong length, a
  letter outside the alphabet and nonzero padding bits are all refused.
\<close>

theorem base32_bijection:
  "decode s k = Some bs \<longleftrightarrow> length bs = k \<and> encode bs = s"
  using decode_encode encode_decode by blast

text \<open>
  The encoding of a nonempty byte string is valid base32 of the documented length; for
  the twenty bytes of a compressed store-path digest it is thirty-two characters.
\<close>

theorem encode_shape:
  assumes "bs \<noteq> []"
  shows "is_valid (encode bs) \<and> length (encode bs) = (8 * length bs - 1) div 5 + 1 \<and>
     (length bs = 20 \<longrightarrow> length (encode bs) = 32)"
proof -
  have len: "length (encode bs) = (8 * length bs - 1) div 5 + 1"
    using assms by (simp add: length_encode b32_len_def mult.commute)
  then have "encode bs \<noteq> []" by auto
  then have "is_valid (encode bs)"
    using encode_alphabet [of _ bs] by (simp add: is_valid_def list_all_iff)
  then show ?thesis using len by simp
qed

theorem encode_shape_witness:
  "is_valid (encode (replicate 20 171)) \<and> length (encode (replicate 20 171)) = 32"
  using encode_shape [of "replicate 20 171"] by simp

end
