(* ===== verification/Signing.thy ===== *)
theory Signing
  imports Base32 Types
begin

text \<open>
  Narinfo signing (\<open>crates/signing/src/lib.rs\<close>). Ed25519 and base64 are library
  code and enter as a record of functions; \<open>crypto_ok\<close> names what the code relies on:
  base64 decodes what it encoded, a signature is 64 bytes, and strict verification accepts a
  signature made with the matching seed.
\<close>

record crypto =
  b64_encode :: "bytes \<Rightarrow> string"
  b64_decode :: "string \<Rightarrow> bytes option"
  ed_public :: "bytes \<Rightarrow> bytes"
  ed_sign :: "bytes \<Rightarrow> bytes \<Rightarrow> bytes"
  ed_key_ok :: "bytes \<Rightarrow> bool"
  ed_verify_strict :: "bytes \<Rightarrow> bytes \<Rightarrow> bytes \<Rightarrow> bool"

definition crypto_ok :: "crypto \<Rightarrow> bool" where
  "crypto_ok c \<longleftrightarrow>
     (\<forall>x. b64_decode c (b64_encode c x) = Some x) \<and>
     (\<forall>seed msg. length (ed_sign c seed msg) = 64) \<and>
     (\<forall>seed. length seed = 32 \<longrightarrow> ed_key_ok c (ed_public c seed)) \<and>
     (\<forall>seed msg. length seed = 32 \<longrightarrow>
        ed_verify_strict c (ed_public c seed) msg (ed_sign c seed msg))"

record fingerprint =
  fp_path :: string
  fp_nar_hash :: bytes
  fp_nar_size :: u64
  fp_references :: "store_path list"
  fp_store_dir :: string

definition compute :: "fingerprint \<Rightarrow> string" where
  "compute f =
     (let references = join_with '','' (map (to_full (fp_store_dir f)) (fp_references f))
      in ''1;'' @ fp_path f @ '';sha256:'' @ encode (fp_nar_hash f) @ '';'' @
         show_nat (unat (fp_nar_size f)) @ '';'' @ references)"

datatype sign_error = Unusable string

text \<open>A key this process holds: its name and the 32-byte seed.\<close>

record local_signer =
  ls_name :: string
  ls_seed :: bytes

definition from_material :: "string \<Rightarrow> bytes \<Rightarrow> (sign_error, local_signer) res" where
  "from_material name material =
     (if length material = 32 then Ok \<lparr>ls_name = name, ls_seed = material\<rparr>
      else Err (Unusable (''expected 32 bytes, got '' @ show_nat (length material))))"

definition material :: "local_signer \<Rightarrow> bytes" where
  "material s = ls_seed s"

definition key_name :: "local_signer \<Rightarrow> string" where
  "key_name s = ls_name s"

definition public_key :: "crypto \<Rightarrow> local_signer \<Rightarrow> bytes" where
  "public_key c s = ed_public c (ls_seed s)"

definition sign :: "crypto \<Rightarrow> local_signer \<Rightarrow> bytes \<Rightarrow> (sign_error, bytes) res" where
  "sign c s data = Ok (ed_sign c (ls_seed s) data)"

definition public_key_string :: "crypto \<Rightarrow> local_signer \<Rightarrow> string" where
  "public_key_string c s = key_name s @ '':'' @ b64_encode c (public_key c s)"

definition sign_path :: "crypto \<Rightarrow> local_signer \<Rightarrow> fingerprint \<Rightarrow> (sign_error, string) res" where
  "sign_path c s f =
     bind_res (sign c s (as_bytes (compute f))) (\<lambda>signature.
     Ok (key_name s @ '':'' @ b64_encode c signature))"

definition verify_sig :: "crypto \<Rightarrow> string \<Rightarrow> string \<Rightarrow> bytes \<Rightarrow> bool" where
  "verify_sig c fp signature pk =
     (case split_once (CHR '':'') signature of
        None \<Rightarrow> False
      | Some (_, encoded) \<Rightarrow>
          (case b64_decode c encoded of
             None \<Rightarrow> False
           | Some raw \<Rightarrow>
               if length raw \<noteq> 64 then False
               else if \<not> ed_key_ok c pk then False
               else ed_verify_strict c pk (as_bytes fp) raw))"

definition key_name_for :: "tenant_id \<Rightarrow> string" where
  "key_name_for tenant = ''kubernix-'' @ tid_str tenant @ ''-1''"

definition KIND_LOCAL_ED25519 :: string where
  "KIND_LOCAL_ED25519 = ''local-ed25519''"

subsection \<open>The fingerprint commits to every field\<close>

text \<open>What a path or reference has to look like for the separators to be unambiguous.\<close>

definition plain :: "string \<Rightarrow> bool" where
  "plain s \<longleftrightarrow> CHR '';'' \<notin> set s \<and> CHR '','' \<notin> set s"

definition wf_fingerprint :: "fingerprint \<Rightarrow> bool" where
  "wf_fingerprint f \<longleftrightarrow> plain (fp_path f) \<and> plain (fp_store_dir f) \<and>
     list_all (\<lambda>r. plain (sp_str r)) (fp_references f) \<and> length (fp_nar_hash f) = 32"

lemma to_full_not_Nil [simp]: "to_full d r \<noteq> []"
  by (simp add: to_full_def)

lemma to_full_inject [simp]: "to_full d r = to_full d r' \<longleftrightarrow> r = r'"
  by (cases r; cases r') (simp add: to_full_def)

lemma plain_to_full: "plain d \<Longrightarrow> plain (sp_str r) \<Longrightarrow> plain (to_full d r)"
  by (simp add: plain_def to_full_def)

lemma join_with_Nil_iff:
  "(\<And>x. x \<in> set xs \<Longrightarrow> x \<noteq> []) \<Longrightarrow> join_with sep xs = [] \<longleftrightarrow> xs = []"
  by (induction sep xs rule: join_with.induct) auto

lemma join_with_inject:
  assumes "\<And>x. x \<in> set xs \<union> set ys \<Longrightarrow> x \<noteq> [] \<and> c \<notin> set x" and "join_with [c] xs = join_with [c] ys"
  shows "xs = ys"
proof (cases "xs = [] \<or> ys = []")
  case True
  then show ?thesis using assms join_with_Nil_iff [of xs "[c]"] join_with_Nil_iff [of ys "[c]"] by auto
next
  case False
  then show ?thesis
    using assms split_on_join [of xs c] split_on_join [of ys c] by (metis UnI1 UnI2)
qed

lemma append_sep_inject:
  "c \<notin> set a \<Longrightarrow> c \<notin> set a' \<Longrightarrow> a @ c # b = a' @ c # b' \<longleftrightarrow> a = a' \<and> b = b'"
  by (metis option.inject prod.inject split_once_Some_iff)

lemma encode_inject: "length x = length y \<Longrightarrow> encode x = encode y \<longleftrightarrow> x = y"
  by (metis decode_encode option.inject)

lemma encode_no_semi: "CHR '';'' \<notin> set (encode x)"
  using encode_alphabet base32_no_sep(4) by blast

lemma show_nat_no_semi: "CHR '';'' \<notin> set (show_nat n)"
  by (rule show_nat_no_sep) (simp add: is_dec_digit_def)

text \<open>
  the fingerprint determines every field a client checks. Two well-formed fingerprints
  over the same store directory whose texts agree have the same path, the same NAR hash, the
  same NAR size and the same references in the same order, so no field can be altered without
  changing what was signed.
\<close>

theorem fingerprint_injective:
  assumes "wf_fingerprint f" and "wf_fingerprint g" and "fp_store_dir f = fp_store_dir g"
    and "compute f = compute g"
  shows "f = g"
proof -
  let ?refs = "\<lambda>f. join_with '','' (map (to_full (fp_store_dir f)) (fp_references f))"
  have semi: "CHR '';'' \<notin> set (fp_path f)" "CHR '';'' \<notin> set (fp_path g)"
    using assms(1,2) by (simp_all add: wf_fingerprint_def plain_def)
  have eq: "fp_path f @ CHR '';'' # (''sha256:'' @ encode (fp_nar_hash f) @ '';'' @
              show_nat (unat (fp_nar_size f)) @ '';'' @ ?refs f) =
            fp_path g @ CHR '';'' # (''sha256:'' @ encode (fp_nar_hash g) @ '';'' @
              show_nat (unat (fp_nar_size g)) @ '';'' @ ?refs g)"
    using assms(4) by (simp add: compute_def Let_def)
  have path: "fp_path f = fp_path g"
    and rest: "encode (fp_nar_hash f) @ CHR '';'' # (show_nat (unat (fp_nar_size f)) @ '';'' @ ?refs f) =
               encode (fp_nar_hash g) @ CHR '';'' # (show_nat (unat (fp_nar_size g)) @ '';'' @ ?refs g)"
    using eq by (simp_all add: append_sep_inject [OF semi])
  have hash: "fp_nar_hash f = fp_nar_hash g"
    and rest2: "show_nat (unat (fp_nar_size f)) @ CHR '';'' # ?refs f =
                show_nat (unat (fp_nar_size g)) @ CHR '';'' # ?refs g"
    using rest assms(1,2)
    by (simp_all add: append_sep_inject [OF encode_no_semi encode_no_semi] encode_inject wf_fingerprint_def)
  have size: "fp_nar_size f = fp_nar_size g" and refs: "?refs f = ?refs g"
    using rest2 by (simp_all add: append_sep_inject [OF show_nat_no_semi show_nat_no_semi] word_unat_eq_iff)
  have "map (to_full (fp_store_dir f)) (fp_references f) = map (to_full (fp_store_dir g)) (fp_references g)"
    by (rule join_with_inject [OF _ refs])
      (use assms(1,2) plain_to_full in \<open>auto simp: wf_fingerprint_def list_all_iff plain_def to_full_def\<close>)
  then have "fp_references f = fp_references g"
    using assms(3) by (simp add: inj_map_eq_map inj_def)
  then show ?thesis using path hash size assms(3) by simp
qed

definition example_fingerprint :: "string list \<Rightarrow> fingerprint" where
  "example_fingerprint refs =
     \<lparr>fp_path = ''/nix/store/a'', fp_nar_hash = replicate 32 171, fp_nar_size = 5,
      fp_references = map StorePath refs, fp_store_dir = ''/nix/store''\<rparr>"

theorem fingerprint_injective_witness:
  "wf_fingerprint (example_fingerprint [''b'', ''c'']) \<and> wf_fingerprint (example_fingerprint [''c'', ''b'']) \<and>
   compute (example_fingerprint [''b'', ''c'']) \<noteq> compute (example_fingerprint [''c'', ''b''])"
proof -
  have wf: "wf_fingerprint (example_fingerprint [''b'', ''c''])" "wf_fingerprint (example_fingerprint [''c'', ''b''])"
    by (simp_all add: wf_fingerprint_def plain_def example_fingerprint_def)
  have "example_fingerprint [''b'', ''c''] \<noteq> example_fingerprint [''c'', ''b'']"
    by (simp add: example_fingerprint_def)
  then show ?thesis
    using wf fingerprint_injective [OF wf] by (auto simp: example_fingerprint_def)
qed

text \<open>
  what \<open>sign_path\<close> returns for a tenant's own key verifies against that key's
  public half, starts with the tenant's key name, and survives storing the key material and
  rebuilding the signer from it. The tenant id being well formed is what keeps the colon that
  separates the key name from the signature unambiguous.
\<close>

theorem sign_path_verifies:
  assumes "crypto_ok c" and "wf_tenant t" and "length seed = 32"
  shows "\<exists>signer sig. from_material (key_name_for t) seed = Ok signer \<and>
           from_material (key_name signer) (material signer) = Ok signer \<and>
           sign_path c signer f = Ok sig \<and>
           prefix (''kubernix-'' @ tid_str t @ ''-1:'') sig \<and>
           verify_sig c (compute f) sig (public_key c signer)"
proof -
  let ?s = "\<lparr>ls_name = key_name_for t, ls_seed = seed\<rparr>"
  let ?sig = "key_name_for t @ CHR '':'' # b64_encode c (ed_sign c seed (as_bytes (compute f)))"
  have "CHR '':'' \<notin> set (tid_str t)"
    using wf_tenant_chars [OF assms(2)] tenant_char_simps(3) by blast
  then have nc: "CHR '':'' \<notin> set (key_name_for t)" by (simp add: key_name_for_def)
  then have "split_once (CHR '':'') ?sig =
      Some (key_name_for t, b64_encode c (ed_sign c seed (as_bytes (compute f))))"
    by (simp add: split_once_Some_iff)
  then have "verify_sig c (compute f) ?sig (public_key c ?s)"
    using assms(1,3) by (simp add: verify_sig_def public_key_def crypto_ok_def)
  moreover have "sign_path c ?s f = Ok ?sig"
    by (simp add: sign_path_def sign_def key_name_def)
  moreover have "prefix (''kubernix-'' @ tid_str t @ ''-1:'') ?sig"
    by (simp add: key_name_for_def prefix_def)
  ultimately show ?thesis
    using assms(3) by (auto simp: from_material_def material_def key_name_def)
qed

text \<open>A crypto record for the witness: identity encodings and a constant signature.\<close>

definition example_crypto :: crypto where
  "example_crypto = \<lparr>b64_encode = from_bytes, b64_decode = (\<lambda>s. Some (as_bytes s)),
     ed_public = (\<lambda>s. s), ed_sign = (\<lambda>s m. replicate 64 0), ed_key_ok = (\<lambda>k. length k = 32),
     ed_verify_strict = (\<lambda>k m g. g = replicate 64 0)\<rparr>"

theorem sign_path_verifies_witness:
  "\<exists>signer sig. from_material (key_name_for (TenantId ''alice'')) (replicate 32 7) = Ok signer \<and>
     from_material (key_name signer) (material signer) = Ok signer \<and>
     sign_path example_crypto signer
       \<lparr>fp_path = ''p'', fp_nar_hash = [], fp_nar_size = 0, fp_references = [], fp_store_dir = ''d''\<rparr> = Ok sig \<and>
     prefix (''kubernix-'' @ tid_str (TenantId ''alice'') @ ''-1:'') sig \<and>
     verify_sig example_crypto (compute
       \<lparr>fp_path = ''p'', fp_nar_hash = [], fp_nar_size = 0, fp_references = [], fp_store_dir = ''d''\<rparr>)
       sig (public_key example_crypto signer)"
  by (rule sign_path_verifies)
    (simp_all add: crypto_ok_def example_crypto_def wf_tenant_def from_wire_def tenant_char_def is_lower_def)

end
