(* ===== verification/Tenant.thy ===== *)
theory Tenant
  imports Types
begin

text \<open>
  Who a connection belongs to (\<open>crates/server/src/tenant.rs\<close>). The sha256 digest is
  a parameter of the definitions; the one fact used about it is its output size.
\<close>

datatype key_type = Ssh | Tls

fun key_type_as_str :: "key_type \<Rightarrow> string" where
  "key_type_as_str Ssh = ''ssh''"
| "key_type_as_str Tls = ''tls''"

record tenant =
  t_id :: tenant_id
  t_identity :: string
  t_verified :: bool

definition HASH_CHARS :: nat where "HASH_CHARS = 16"

definition SLUG_CHARS :: nat where "SLUG_CHARS = 24"

text \<open>
  \<open>chars()\<close> iterates over code points. In UTF-8 every code point has exactly one
  byte that is not a continuation byte, its first; an ASCII character is that byte.
\<close>

definition char_starts :: "string \<Rightarrow> string" where
  "char_starts s = filter (\<lambda>c. \<not> (128 \<le> (of_char c :: nat) \<and> (of_char c :: nat) \<le> 191)) s"

definition is_ascii_alphanumeric :: "char \<Rightarrow> bool" where
  "is_ascii_alphanumeric c \<longleftrightarrow> is_lower c \<or> is_upper c \<or> is_digit c"

definition to_ascii_lowercase :: "char \<Rightarrow> char" where
  "to_ascii_lowercase c = (if is_upper c then char_of ((of_char c :: nat) + 32) else c)"

definition trim_matches :: "'a \<Rightarrow> 'a list \<Rightarrow> 'a list" where
  "trim_matches c s = rev (dropWhile (\<lambda>x. x = c) (rev (dropWhile (\<lambda>x. x = c) s)))"

definition slug_char :: "char \<Rightarrow> char" where
  "slug_char c = (if is_ascii_alphanumeric c then to_ascii_lowercase c else CHR ''-'')"

definition derive_id :: "(bytes \<Rightarrow> bytes) \<Rightarrow> string \<Rightarrow> tenant_id" where
  "derive_id sha256 identity =
     (let digest = sha256 (as_bytes identity);
          hash = concat (map hex_byte (take ((HASH_CHARS + 1) div 2) digest));
          slug = take SLUG_CHARS (map slug_char (char_starts identity));
          slug = trim_matches (CHR ''-'') slug
      in from_parts slug (take HASH_CHARS hash))"

definition tenant_from_ssh ::
  "(bytes \<Rightarrow> bytes) \<Rightarrow> string \<Rightarrow> string option \<Rightarrow> bool \<Rightarrow> tenant" where
  "tenant_from_ssh sha256 user fingerprint verified =
     (let identity = (case fingerprint of Some f \<Rightarrow> ''key:'' @ f | None \<Rightarrow> ''user:'' @ user)
      in \<lparr>t_id = derive_id sha256 identity, t_identity = identity, t_verified = verified\<rparr>)"

subsection \<open>Derived ids are well formed\<close>

lemma slug_char_tenant: "tenant_char (slug_char c)"
proof (cases "is_upper c")
  case True
  then have "(of_char (char_of ((of_char c :: nat) + 32)) :: nat) = of_char c + 32"
    by (simp add: is_upper_def)
  with True show ?thesis
    by (simp add: slug_char_def is_ascii_alphanumeric_def to_ascii_lowercase_def tenant_char_def
        is_lower_def is_upper_def)
next
  case False
  then show ?thesis
    by (simp add: slug_char_def is_ascii_alphanumeric_def to_ascii_lowercase_def tenant_char_def)
qed

lemma set_trim_matches: "set (trim_matches c s) \<subseteq> set s"
  unfolding trim_matches_def by (auto dest!: set_dropWhileD)

lemma length_trim_matches: "length (trim_matches c s) \<le> length s"
  unfolding trim_matches_def
  by (metis length_dropWhile_le length_rev order_trans)

lemma hex_digit_tenant: "n < 16 \<Longrightarrow> tenant_char (hex_digit n)"
  by (auto simp: hex_digit_def tenant_char_def is_lower_def is_digit_def)

lemma hex_byte_tenant: "c \<in> set (hex_byte b) \<Longrightarrow> tenant_char c"
  using unat_u8_less [of b] by (auto simp: hex_byte_def less_mult_imp_div_less intro!: hex_digit_tenant)

lemma length_hex_byte [simp]: "length (hex_byte b) = 2"
  by (simp add: hex_byte_def)

lemma length_concat_hex: "length (concat (map hex_byte bs)) = 2 * length bs"
  by (induction bs) auto

text \<open>
  every id the frontend derives from what a client presented, whatever that is, passes
  the check \<open>from_wire\<close> applies to ids that arrive over the wire, so it can contain
  neither a slash nor a dot and cannot leave its object-key prefix; it ends in a dash and the
  first sixteen hex digits of the digest of the identity, so two identities with the same id
  agree on the first eight bytes of their digests.
\<close>

theorem derive_id_survives_wire:
  assumes "\<And>x. length (sha256 x) = 32"
  shows "from_wire (tid_str (derive_id sha256 identity)) = Some (derive_id sha256 identity) \<and>
         (\<exists>slug. tid_str (derive_id sha256 identity) =
            slug @ ''-'' @ hex (take 8 (sha256 (as_bytes identity))) \<and> length slug \<le> 24)"
proof -
  define slug where "slug = trim_matches (CHR ''-'') (take 24 (map slug_char (char_starts identity)))"
  define hash where "hash = hex (take 8 (sha256 (as_bytes identity)))"
  have "length (take 8 (sha256 (as_bytes identity))) = 8"
    by (simp add: assms)
  then have hash_len: "length hash = 16"
    by (simp add: hash_def hex_def length_concat_hex)
  have id: "derive_id sha256 identity = TenantId (slug @ ''-'' @ hash)"
    using hash_len
    by (simp add: derive_id_def Let_def from_parts_def slug_def hash_def hex_def
        HASH_CHARS_def SLUG_CHARS_def)
  have slug_len: "length slug \<le> 24"
    unfolding slug_def
    by (rule order_trans [OF length_trim_matches]) simp
  have slug_ok: "list_all tenant_char slug"
  proof -
    have "set slug \<subseteq> set (map slug_char (char_starts identity))"
      unfolding slug_def using set_trim_matches set_take_subset by fast
    then show ?thesis by (auto simp: list_all_iff slug_char_tenant)
  qed
  have hash_ok: "list_all tenant_char hash"
    by (auto simp: list_all_iff hash_def hex_def hex_byte_tenant)
  have "tenant_char (CHR ''-'')" by (simp add: tenant_char_def)
  then have "from_wire (slug @ ''-'' @ hash) = Some (TenantId (slug @ ''-'' @ hash))"
    using slug_len hash_len slug_ok hash_ok by (simp add: from_wire_def)
  then show ?thesis using id slug_len hash_def by auto
qed

theorem derive_id_survives_wire_witness:
  "from_wire (tid_str (derive_id (\<lambda>x. replicate 32 171) ''user:../../etc'')) =
     Some (derive_id (\<lambda>x. replicate 32 171) ''user:../../etc'') \<and>
   (\<exists>slug. tid_str (derive_id (\<lambda>x. replicate 32 171) ''user:../../etc'') =
      slug @ ''-'' @ hex (take 8 (replicate 32 171)) \<and> length slug \<le> 24)"
  by (rule derive_id_survives_wire [of "\<lambda>x. replicate 32 171"]) simp

text \<open>
  A client that presents a key is attributed by the key alone, so the same key under two
  user names is the same tenant, and the id never depends on whether anything was verified.
\<close>

theorem tenant_from_ssh_key_decides:
  "t_id (tenant_from_ssh sha256 u (Some f) v) = t_id (tenant_from_ssh sha256 u' (Some f) v') \<and>
   t_id (tenant_from_ssh sha256 u None v) = derive_id sha256 (''user:'' @ u) \<and>
   t_verified (tenant_from_ssh sha256 u fp v) = v \<and>
   t_identity (tenant_from_ssh sha256 u None v) \<noteq> t_identity (tenant_from_ssh sha256 u' (Some f) v')"
  by (simp add: tenant_from_ssh_def Let_def)

end
