(* ===== verification/Store.thy ===== *)
theory Store
  imports Jobs Signing Tenant "HOL-Library.AList"
begin

text \<open>
  The store interface (\<open>crates/server/src/store.rs\<close>): the metadata a path carries,
  the tiers that say how much the frontend vouches for it, the object keys its bytes live
  under, and the traits \<open>PathStore\<close> and \<open>CapabilitySecretStore\<close> as a record
  of operations over an arbitrary store state. The locale \<open>path_store\<close> states what a
  client of the trait relies on. A clock is part of the state of every store; randomness (a
  fresh key seed or secret) is an argument.
\<close>

subsection \<open>Metadata\<close>

datatype hash_type = Md5 | Sha1 | Sha256 | Sha512

record hash =
  h_type :: hash_type
  h_bytes :: bytes

definition to_wire_string :: "hash \<Rightarrow> string" where
  "to_wire_string h =
     (case h_type h of Md5 \<Rightarrow> ''md5'' | Sha1 \<Rightarrow> ''sha1'' | Sha256 \<Rightarrow> ''sha256'' | Sha512 \<Rightarrow> ''sha512'')
     @ '':'' @ hex (h_bytes h)"

record path_info =
  pi_path :: store_path
  pi_deriver :: "store_path option"
  pi_nar_hash :: hash
  pi_nar_size :: u64
  pi_references :: "store_path list"
  pi_registration_time :: int
  pi_ultimate :: bool
  pi_sigs :: "string list"

datatype tier = Verified | Built | Quarantined | Substituted

fun is_vouchable :: "tier \<Rightarrow> bool" where
  "is_vouchable Verified = True"
| "is_vouchable Built = True"
| "is_vouchable Quarantined = False"
| "is_vouchable Substituted = False"

fun tier_as_str :: "tier \<Rightarrow> string" where
  "tier_as_str Verified = ''verified''"
| "tier_as_str Built = ''built''"
| "tier_as_str Quarantined = ''quarantined''"
| "tier_as_str Substituted = ''substituted''"

definition tier_from_str :: "string \<Rightarrow> tier" where
  "tier_from_str s =
     (if s = ''verified'' then Verified
      else if s = ''built'' then Built
      else if s = ''substituted'' then Substituted
      else Quarantined)"

datatype store_error =
    NotFound string
  | Elsewhere string
  | Unsupported string
  | Other string

datatype reservation = Won | Lost uuid

record missing_paths =
  will_build :: "store_path list"
  will_substitute :: "store_path list"
  unknown :: "store_path list"
  download_size :: u64
  missing_nar_size :: u64

definition no_missing :: missing_paths where
  "no_missing = \<lparr>will_build = [], will_substitute = [], unknown = [], download_size = 0, missing_nar_size = 0\<rparr>"

record remote_object =
  ro_key :: object_key
  ro_file_size :: u64
  ro_file_hash :: bytes
  ro_compression :: compression

text \<open>The file hash is a SHA-256 output, 32 bytes by its Rust type.\<close>

definition wf_object :: "remote_object \<Rightarrow> bool" where
  "wf_object ob \<longleftrightarrow> length (ro_file_hash ob) = 32"

record client_options =
  co_verbosity :: nat
  co_use_substitutes :: bool
  co_overrides :: "(string \<times> string) list"

subsection \<open>Object keys\<close>

definition nar_key :: "tenant_id \<Rightarrow> tier \<Rightarrow> store_path \<Rightarrow> object_key option" where
  "nar_key tenant tier store_path =
     Option.bind (hash_part store_path) (\<lambda>hash.
     Some (ObjectKey (case tier of
         Verified \<Rightarrow> ''nar/'' @ hash @ ''.nar.zst''
       | Built \<Rightarrow> tid_str tenant @ ''/nar/'' @ hash @ ''.nar.zst''
       | Quarantined \<Rightarrow> tid_str tenant @ ''/untrusted/nar/'' @ hash @ ''.nar.zst''
       | Substituted \<Rightarrow> tid_str tenant @ ''/untrusted-substituted/nar/'' @ hash @ ''.nar.zst'')))"

definition substituted_nar_key :: "string \<Rightarrow> store_path \<Rightarrow> object_key option" where
  "substituted_nar_key source_slug store_path =
     Option.bind (hash_part store_path) (\<lambda>hash.
     Some (ObjectKey (''substituted/'' @ source_slug @ ''/nar/'' @ hash @ ''.nar.zst'')))"

definition log_key :: "tenant_id \<Rightarrow> store_path \<Rightarrow> object_key option" where
  "log_key tenant drv_path =
     Option.bind (hash_part drv_path) (\<lambda>hash.
     Some (ObjectKey (tid_str tenant @ ''/log/'' @ hash)))"

subsection \<open>The store as a record of operations\<close>

record 's store_ops =
  op_is_valid_path :: "tenant_id \<Rightarrow> store_path \<Rightarrow> 's \<Rightarrow> bool"
  op_query_valid_paths :: "tenant_id \<Rightarrow> store_path list \<Rightarrow> 's \<Rightarrow> store_path list"
  op_query_all_valid_paths :: "tenant_id \<Rightarrow> 's \<Rightarrow> store_path list"
  op_query_path_info :: "tenant_id \<Rightarrow> store_path \<Rightarrow> 's \<Rightarrow> path_info option"
  op_query_path_from_hash_part :: "tenant_id \<Rightarrow> string \<Rightarrow> 's \<Rightarrow> store_path option"
  op_query_referrers :: "tenant_id \<Rightarrow> store_path \<Rightarrow> 's \<Rightarrow> store_path list"
  op_record_path :: "tenant_id \<Rightarrow> path_info \<Rightarrow> remote_object \<Rightarrow> tier \<Rightarrow> 's \<Rightarrow> (store_error, unit) res \<times> 's"
  op_output_object :: "tenant_id \<Rightarrow> store_path \<Rightarrow> 's \<Rightarrow> remote_object option"
  op_object_known :: "object_key \<Rightarrow> 's \<Rightarrow> bool"
  op_find_verified_by_hash_part :: "string \<Rightarrow> 's \<Rightarrow> (path_info \<times> remote_object) option"
  op_record_substituted_path ::
    "tenant_id \<Rightarrow> path_info \<Rightarrow> remote_object \<Rightarrow> string \<Rightarrow> string \<Rightarrow> 's \<Rightarrow> (store_error, unit) res \<times> 's"
  op_find_substituted_by_hash_part :: "string \<Rightarrow> 's \<Rightarrow> (path_info \<times> remote_object \<times> string \<times> string) option"
  op_substituted_source :: "tenant_id \<Rightarrow> store_path \<Rightarrow> 's \<Rightarrow> (string \<times> string) option"
  op_add_signatures :: "tenant_id \<Rightarrow> store_path \<Rightarrow> string list \<Rightarrow> 's \<Rightarrow> (store_error, unit) res \<times> 's"
  op_query_missing :: "tenant_id \<Rightarrow> store_path list \<Rightarrow> 's \<Rightarrow> missing_paths"
  op_tier :: "tenant_id \<Rightarrow> store_path \<Rightarrow> 's \<Rightarrow> tier option"
  op_signer :: "tenant_id \<Rightarrow> bytes \<Rightarrow> 's \<Rightarrow> local_signer option \<times> 's"
  op_reject_unverified_pushes :: "tenant_id \<Rightarrow> 's \<Rightarrow> bool"
  op_trusted_substituters :: "tenant_id \<Rightarrow> 's \<Rightarrow> (string \<times> string) list"
  op_substituter_negative_cache_hit :: "tenant_id \<Rightarrow> string \<Rightarrow> 's \<Rightarrow> bool"
  op_mark_substituter_miss :: "tenant_id \<Rightarrow> string \<Rightarrow> 's \<Rightarrow> 's"
  op_record_access :: "tenant_id \<Rightarrow> store_path \<Rightarrow> 's \<Rightarrow> 's"
  op_reserve_job :: "tenant_id \<Rightarrow> uuid \<Rightarrow> store_path \<Rightarrow> string \<Rightarrow> nat \<Rightarrow> 's \<Rightarrow> reservation \<times> 's"
  op_record_job_outcome :: "tenant_id \<Rightarrow> uuid \<Rightarrow> store_path \<Rightarrow> string \<Rightarrow> job_outcome \<Rightarrow> 's \<Rightarrow> 's"
  op_register_tenant :: "tenant \<Rightarrow> 's \<Rightarrow> (store_error, unit) res \<times> 's"

record 's secret_ops =
  op_current_capability_secret :: "bytes \<Rightarrow> u32 \<Rightarrow> 's \<Rightarrow> (u64 \<times> bytes) \<times> 's"
  op_capability_secret :: "u64 \<Rightarrow> 's \<Rightarrow> bytes option \<times> 's"

lemma tier_from_as_str [simp]: "tier_from_str (tier_as_str t) = t"
  by (cases t) (simp_all add: tier_from_str_def)

lemma tier_as_str_inject [simp]: "tier_as_str a = tier_as_str b \<longleftrightarrow> a = b"
  by (cases a; cases b) simp_all

lemma tier_from_str_vouchable:
  "is_vouchable (tier_from_str s) \<longleftrightarrow> s = ''verified'' \<or> s = ''built''"
  by (simp add: tier_from_str_def)

text \<open>
  The laws a caller of the trait relies on. \<open>inv\<close> is the store's own invariant. A
  recorded path is there with the metadata and the tier it was recorded with, its object has
  the recorded key, and nothing else of any tenant changes; a path is valid exactly when it
  has metadata and exactly when it has a tier; the cross-tenant lookup only ever returns a row
  some tenant holds as verified; obtaining a signer changes no path.
\<close>

locale path_store =
  fixes ops :: "'s store_ops" and inv :: "'s \<Rightarrow> bool"
  assumes record_inv: "inv s \<Longrightarrow> wf_object obj \<Longrightarrow> inv (snd (op_record_path ops t info obj ti s))"
    and record_query: "inv s \<Longrightarrow> wf_object obj \<Longrightarrow> op_record_path ops t info obj ti s = (Ok u, s') \<Longrightarrow>
      op_query_path_info ops t (pi_path info) s' = Some info \<and> op_tier ops t (pi_path info) s' = Some ti \<and>
      map_option ro_key (op_output_object ops t (pi_path info) s') = Some (ro_key obj)"
    and record_frame: "inv s \<Longrightarrow> op_record_path ops t info obj ti s = (r, s') \<Longrightarrow>
      (t', p) \<noteq> (t, pi_path info) \<or> r \<noteq> Ok () \<Longrightarrow>
      op_query_path_info ops t' p s' = op_query_path_info ops t' p s \<and> op_tier ops t' p s' = op_tier ops t' p s"
    and valid_iff_info: "inv s \<Longrightarrow> op_is_valid_path ops t p s \<longleftrightarrow> op_query_path_info ops t p s \<noteq> None"
    and valid_iff_tier: "inv s \<Longrightarrow> op_is_valid_path ops t p s \<longleftrightarrow> op_tier ops t p s \<noteq> None"
    and info_path: "inv s \<Longrightarrow> op_query_path_info ops t p s = Some info \<Longrightarrow> pi_path info = p"
    and from_hash_part: "inv s \<Longrightarrow> op_query_path_from_hash_part ops t h s = Some p \<Longrightarrow> op_is_valid_path ops t p s"
    and find_verified: "inv s \<Longrightarrow> op_find_verified_by_hash_part ops h s = Some (info, obj) \<Longrightarrow>
      \<exists>t. op_tier ops t (pi_path info) s = Some Verified \<and> op_query_path_info ops t (pi_path info) s = Some info \<and> wf_object obj"
    and signer_inv: "inv s \<Longrightarrow> inv (snd (op_signer ops t seed s))"
    and signer_frame: "inv s \<Longrightarrow> op_signer ops t seed s = (sg, s') \<Longrightarrow>
      op_query_path_info ops t' p s' = op_query_path_info ops t' p s \<and> op_tier ops t' p s' = op_tier ops t' p s"
begin

lemma valid_after_record:
  "inv s \<Longrightarrow> wf_object obj \<Longrightarrow> op_record_path ops t info obj ti s = (Ok u, s') \<Longrightarrow> op_is_valid_path ops t (pi_path info) s'"
  using record_query valid_iff_info record_inv by (metis option.distinct(1) snd_conv)

lemma tenant_isolation:
  "inv s \<Longrightarrow> wf_object obj \<Longrightarrow> op_record_path ops t info obj ti s = (r, s') \<Longrightarrow> t' \<noteq> t \<Longrightarrow>
   op_is_valid_path ops t' p s' = op_is_valid_path ops t' p s"
  using record_frame [of s t info obj ti r s' t' p] record_inv [of s obj t info ti] valid_iff_info
  by (metis Pair_inject snd_conv)

end

text \<open>
  What a store promises about objects: recording a path makes its object known, and a path
  recorded with an object no row named before has exactly that object; a signer changes none.
\<close>

locale object_catalog = path_store +
  assumes record_object: "inv s \<Longrightarrow> wf_object obj \<Longrightarrow> \<not> op_object_known ops (ro_key obj) s \<Longrightarrow>
      op_record_path ops t info obj ti s = (Ok u, s') \<Longrightarrow> op_output_object ops t (pi_path info) s' = Some obj"
    and record_object_key: "inv s \<Longrightarrow> wf_object obj \<Longrightarrow> op_record_path ops t info obj ti s = (Ok u, s') \<Longrightarrow>
      map_option ro_key (op_output_object ops t (pi_path info) s') = Some (ro_key obj)"
    and record_known: "inv s \<Longrightarrow> wf_object obj \<Longrightarrow>
      op_record_path ops t info obj ti s = (Ok u, s') \<Longrightarrow> op_object_known ops (ro_key obj) s'"
    and signer_objects: "inv s \<Longrightarrow> op_signer ops t seed s = (sg, s') \<Longrightarrow> op_object_known ops k s' = op_object_known ops k s"

text \<open>
  The contract of the capability secrets: the current secret can be looked up again under its
  id, and a secret has 32 bytes.
\<close>

locale secret_store =
  fixes sops :: "'s secret_ops" and sinv :: "'s \<Rightarrow> bool"
  assumes current_inv: "sinv s \<Longrightarrow> length fresh = 32 \<Longrightarrow> sinv (snd (op_current_capability_secret sops fresh salt s))"
    and lookup_inv: "sinv s \<Longrightarrow> sinv (snd (op_capability_secret sops kid s))"
    and current_lookup: "sinv s \<Longrightarrow> length fresh = 32 \<Longrightarrow>
      op_current_capability_secret sops fresh salt s = ((kid, secret), s') \<Longrightarrow>
      fst (op_capability_secret sops kid s') = Some secret"
    and lookup_length: "sinv s \<Longrightarrow> fst (op_capability_secret sops kid s) = Some secret \<Longrightarrow> length secret = 32"

end
