(* ===== verification/Postgres.thy ===== *)
theory Postgres
  imports Store "HOL-Library.List_Lexorder" "HOL-Library.Char_ord"
begin

text \<open>
  The PostgreSQL store (\<open>crates/server/src/postgres_store.rs\<close> over the schema of
  \<open>crates/server/migrations\<close>). A table is an association list from its primary key
  to its row; a query is a filter over the rows the connection may see, which row-level
  security decides from the settings of the transaction. A text column that holds a tenant id,
  a store path or an object key has that newtype's type; a \<open>BIGINT\<close> column written
  from a \<open>u64\<close> and read back with \<open>as u64\<close> holds its 64 bits. Each statement
  is atomic. \<open>pg_fault\<close> is the error of a database that cannot be reached: then every
  query answers with its default and every write with an error. The state also holds what the
  process keeps outside the database, the cache of capability secrets, and the clock.
\<close>

datatype row_state = Live | Marked | Purging

record path_row =
  pr_hash_part :: string
  pr_deriver :: "store_path option"
  pr_nar_hash_algo :: string
  pr_nar_hash :: bytes
  pr_nar_size :: u64
  pr_registration_time :: int
  pr_ultimate :: bool
  pr_refs :: "store_path list"
  pr_sigs :: "string list"
  pr_object_key :: "object_key option"
  pr_tier :: string
  pr_substituted_from_url :: "string option"
  pr_substituted_from_key :: "string option"
  pr_last_access :: nat
  pr_state :: row_state
  pr_marked_at :: "nat option"

record object_row =
  or_file_size :: u64
  or_file_hash :: bytes
  or_compression :: string

record tenant_row =
  tr_identity :: string
  tr_verified :: bool
  tr_reject_unverified_pushes :: bool
  tr_signing_key_kind :: "string option"
  tr_signing_key_name :: "string option"
  tr_signing_key_material :: "bytes option"
  tr_signing_public_key :: "bytes option"

datatype log_state = LogPresent | LogMarked | LogPurged

record job_row =
  jb_tenant :: tenant_id
  jb_derivation_path :: store_path
  jb_system :: string
  jb_status :: string
  jb_error_msg :: "string option"
  jb_output_paths :: "store_path list"
  jb_log_key :: "string option"
  jb_created_at :: nat
  jb_finished_at :: "nat option"
  jb_failure_kind :: "string option"
  jb_log_state :: log_state

record secret_cache =
  sc_current :: "(nat \<times> u64 \<times> bytes) option"
  sc_by_kid :: "(u64 \<times> bytes) list"

record pg =
  pg_tenants :: "(tenant_id \<times> tenant_row) list"
  pg_objects :: "(object_key \<times> object_row) list"
  pg_store_paths :: "((tenant_id \<times> store_path) \<times> path_row) list"
  pg_jobs :: "(uuid \<times> job_row) list"
  pg_path_access :: "(tenant_id \<times> store_path \<times> nat) list"
  pg_tenant_substituters :: "(tenant_id \<times> string \<times> string) list"
  pg_negative_cache :: "((tenant_id \<times> string) \<times> nat) list"
  pg_capability_secrets :: "(nat \<times> bytes) list"
  pg_kid_seq :: nat
  pg_bindings :: "((string \<times> string) \<times> string \<times> bytes option) list"
  pg_cache :: secret_cache
  pg_default_substituter :: "(string \<times> string) option"
  pg_negative_cache_ttl :: nat
  pg_now :: nat
  pg_fault :: "string option"
  pg_actor_up :: bool

definition pg_empty :: pg where
  "pg_empty = \<lparr>pg_tenants = [], pg_objects = [], pg_store_paths = [], pg_jobs = [], pg_path_access = [],
     pg_tenant_substituters = [], pg_negative_cache = [], pg_capability_secrets = [], pg_kid_seq = 0,
     pg_bindings = [], pg_cache = \<lparr>sc_current = None, sc_by_kid = []\<rparr>, pg_default_substituter = None,
     pg_negative_cache_ttl = 600, pg_now = 0, pg_fault = None, pg_actor_up = True\<rparr>"

definition db_err :: "string \<Rightarrow> store_error" where
  "db_err e = Other (''database: '' @ e)"

definition hash_part_of :: "string \<Rightarrow> string" where
  "hash_part_of path = hd (split_on (CHR ''-'') (last (split_on (CHR ''/'') path)))"

fun algo_name :: "hash_type \<Rightarrow> string" where
  "algo_name Md5 = ''md5''"
| "algo_name Sha1 = ''sha1''"
| "algo_name Sha256 = ''sha256''"
| "algo_name Sha512 = ''sha512''"

definition algo_from_name :: "string \<Rightarrow> hash_type" where
  "algo_from_name name =
     (if name = ''md5'' then Md5 else if name = ''sha1'' then Sha1
      else if name = ''sha512'' then Sha512 else Sha256)"

datatype serving_role = RoleApp | RoleGc | RoleAdmin

fun db_role :: "serving_role \<Rightarrow> string" where
  "db_role RoleApp = ''kubernix_app''"
| "db_role RoleGc = ''kubernix_gc''"
| "db_role RoleAdmin = ''kubernix_admin''"

subsection \<open>Row-level security\<close>

text \<open>
  What a transaction has set: \<open>app.current_tenant\<close>, or one of the two cross-tenant
  read carve-outs. A row is visible when some policy admits it.
\<close>

datatype scope = TenantScope tenant_id | VerifiedRead | SubstitutedRead

fun visible :: "scope \<Rightarrow> (tenant_id \<times> store_path) \<times> path_row \<Rightarrow> bool" where
  "visible (TenantScope t) ((tenant, _), _) \<longleftrightarrow> tenant = t"
| "visible VerifiedRead (_, r) \<longleftrightarrow> pr_tier r = ''verified''"
| "visible SubstitutedRead (_, r) \<longleftrightarrow> pr_tier r = ''substituted''"

definition store_paths_live :: "scope \<Rightarrow> pg \<Rightarrow> ((tenant_id \<times> store_path) \<times> path_row) list" where
  "store_paths_live sc db = filter (\<lambda>row. visible sc row \<and> pr_state (snd row) = Live) (pg_store_paths db)"

text \<open>A query that yields its default when the database cannot be reached.\<close>

definition on_db :: "pg \<Rightarrow> 'a \<Rightarrow> 'a \<Rightarrow> 'a" where
  "on_db db dflt x = (case pg_fault db of Some _ \<Rightarrow> dflt | None \<Rightarrow> x)"

definition row_to_info :: "(tenant_id \<times> store_path) \<times> path_row \<Rightarrow> path_info" where
  "row_to_info row =
     (let r = snd row in
      \<lparr>pi_path = snd (fst row), pi_deriver = pr_deriver r,
       pi_nar_hash = \<lparr>h_type = algo_from_name (pr_nar_hash_algo r), h_bytes = pr_nar_hash r\<rparr>,
       pi_nar_size = pr_nar_size r, pi_references = pr_refs r,
       pi_registration_time = pr_registration_time r, pi_ultimate = pr_ultimate r, pi_sigs = pr_sigs r\<rparr>)"

subsection \<open>Tenants\<close>

definition new_tenant_row :: "string \<Rightarrow> bool \<Rightarrow> tenant_row" where
  "new_tenant_row identity verified =
     \<lparr>tr_identity = identity, tr_verified = verified, tr_reject_unverified_pushes = True,
      tr_signing_key_kind = None, tr_signing_key_name = None, tr_signing_key_material = None,
      tr_signing_public_key = None\<rparr>"

definition seed_default_substituter :: "tenant_id \<Rightarrow> pg \<Rightarrow> pg" where
  "seed_default_substituter tenant db =
     (case pg_default_substituter db of
        None \<Rightarrow> db
      | Some (url, pk) \<Rightarrow>
          if \<exists>(t, u, _) \<in> set (pg_tenant_substituters db). t = tenant \<and> u = url then db
          else db\<lparr>pg_tenant_substituters := pg_tenant_substituters db @ [(tenant, url, pk)]\<rparr>)"

definition ensure_tenant :: "tenant \<Rightarrow> pg \<Rightarrow> (store_error, unit) res \<times> pg" where
  "ensure_tenant t db =
     (case pg_fault db of
        Some e \<Rightarrow> (Err (db_err e), db)
      | None \<Rightarrow>
          let row = (case map_of (pg_tenants db) (t_id t) of
                       None \<Rightarrow> new_tenant_row (t_identity t) (t_verified t)
                     | Some r \<Rightarrow> r\<lparr>tr_verified := t_verified t\<rparr>);
              db = db\<lparr>pg_tenants := AList.update (t_id t) row (pg_tenants db)\<rparr>
          in (Ok (), seed_default_substituter (t_id t) db))"

definition ensure_tenant_id :: "tenant_id \<Rightarrow> pg \<Rightarrow> (store_error, unit) res \<times> pg" where
  "ensure_tenant_id tenant db =
     (case pg_fault db of
        Some e \<Rightarrow> (Err (db_err e), db)
      | None \<Rightarrow>
          (Ok (), if map_of (pg_tenants db) tenant = None
             then db\<lparr>pg_tenants := AList.update tenant
                    (new_tenant_row (''unknown:'' @ tid_str tenant) False) (pg_tenants db)\<rparr>
             else db))"

subsection \<open>Recording and querying paths\<close>

definition upsert_path_inner ::
  "tenant_id \<Rightarrow> path_info \<Rightarrow> remote_object \<Rightarrow> tier \<Rightarrow> (string \<times> string) option \<Rightarrow> pg \<Rightarrow> (store_error, unit) res \<times> pg" where
  "upsert_path_inner tenant info object ti substituted_from db =
     (case ensure_tenant_id tenant db of
        (Ok _, db) \<Rightarrow>
          let k = ro_key object;
              objs = (if map_of (pg_objects db) k = None
                 then AList.update k \<lparr>or_file_size = ro_file_size object, or_file_hash = ro_file_hash object,
                        or_compression = compression_as_str (ro_compression object)\<rparr> (pg_objects db)
                 else pg_objects db);
              row = \<lparr>pr_hash_part = hash_part_of (sp_str (pi_path info)), pr_deriver = pi_deriver info,
                     pr_nar_hash_algo = algo_name (h_type (pi_nar_hash info)),
                     pr_nar_hash = h_bytes (pi_nar_hash info), pr_nar_size = pi_nar_size info,
                     pr_registration_time = pi_registration_time info, pr_ultimate = pi_ultimate info,
                     pr_refs = pi_references info, pr_sigs = pi_sigs info, pr_object_key = Some k,
                     pr_tier = tier_as_str ti,
                     pr_substituted_from_url = map_option fst substituted_from,
                     pr_substituted_from_key = map_option snd substituted_from,
                     pr_last_access = pg_now db, pr_state = Live, pr_marked_at = None\<rparr>
          in (Ok (), db\<lparr>pg_objects := objs,
                        pg_store_paths := AList.update (tenant, pi_path info) row (pg_store_paths db)\<rparr>)
      | (e, db) \<Rightarrow> (e, db))"

definition record_path_db ::
  "tenant_id \<Rightarrow> path_info \<Rightarrow> remote_object \<Rightarrow> tier \<Rightarrow> pg \<Rightarrow> (store_error, unit) res \<times> pg" where
  "record_path_db tenant info object ti db = upsert_path_inner tenant info object ti None db"

definition record_substituted_path_db ::
  "tenant_id \<Rightarrow> path_info \<Rightarrow> remote_object \<Rightarrow> string \<Rightarrow> string \<Rightarrow> pg \<Rightarrow> (store_error, unit) res \<times> pg" where
  "record_substituted_path_db tenant info object url key db =
     upsert_path_inner tenant info object Substituted (Some (url, key)) db"

definition live_row :: "tenant_id \<Rightarrow> store_path \<Rightarrow> pg \<Rightarrow> ((tenant_id \<times> store_path) \<times> path_row) option" where
  "live_row tenant path db = find (\<lambda>row. fst row = (tenant, path)) (store_paths_live (TenantScope tenant) db)"

definition is_valid_path_db :: "tenant_id \<Rightarrow> store_path \<Rightarrow> pg \<Rightarrow> bool" where
  "is_valid_path_db tenant path db = on_db db False (live_row tenant path db \<noteq> None)"

definition query_valid_paths_db :: "tenant_id \<Rightarrow> store_path list \<Rightarrow> pg \<Rightarrow> store_path list" where
  "query_valid_paths_db tenant paths db = on_db db []
     (map (snd \<circ> fst) (filter (\<lambda>row. fst (fst row) = tenant \<and> snd (fst row) \<in> set paths)
        (store_paths_live (TenantScope tenant) db)))"

definition query_all_valid_paths_db :: "tenant_id \<Rightarrow> pg \<Rightarrow> store_path list" where
  "query_all_valid_paths_db tenant db = on_db db []
     (map (snd \<circ> fst) (filter (\<lambda>row. fst (fst row) = tenant) (store_paths_live (TenantScope tenant) db)))"

definition query_path_info_db :: "tenant_id \<Rightarrow> store_path \<Rightarrow> pg \<Rightarrow> path_info option" where
  "query_path_info_db tenant path db = on_db db None (map_option row_to_info (live_row tenant path db))"

definition query_path_from_hash_part_db :: "tenant_id \<Rightarrow> string \<Rightarrow> pg \<Rightarrow> store_path option" where
  "query_path_from_hash_part_db tenant h db = on_db db None
     (map_option (snd \<circ> fst) (find (\<lambda>row. fst (fst row) = tenant \<and> pr_hash_part (snd row) = h)
        (store_paths_live (TenantScope tenant) db)))"

definition query_referrers_db :: "tenant_id \<Rightarrow> store_path \<Rightarrow> pg \<Rightarrow> store_path list" where
  "query_referrers_db tenant path db = on_db db []
     (map (snd \<circ> fst) (filter (\<lambda>row. fst (fst row) = tenant \<and> path \<in> set (pr_refs (snd row)))
        (store_paths_live (TenantScope tenant) db)))"

text \<open>
  Reading an object row back. The two \<open>expect\<close>s would panic the request's task on a
  row no version of this program writes; the caller then gets no answer, which
  \<open>call\<close> turns into the default.
\<close>

definition object_of_row :: "object_key \<Rightarrow> object_row \<Rightarrow> remote_object option" where
  "object_of_row k r =
     (if length (or_file_hash r) \<noteq> 32 then None
      else case compression_from_str (or_compression r) of
             Ok c \<Rightarrow> Some \<lparr>ro_key = k, ro_file_size = or_file_size r, ro_file_hash = or_file_hash r, ro_compression = c\<rparr>
           | _ \<Rightarrow> None)"

text \<open>\<open>store_paths_live sp JOIN objects o ON o.key = sp.object_key\<close>.\<close>

definition joined_object :: "pg \<Rightarrow> path_row \<Rightarrow> (object_key \<times> object_row) option" where
  "joined_object db r =
     Option.bind (pr_object_key r) (\<lambda>k. map_option (Pair k) (map_of (pg_objects db) k))"

definition output_object_db :: "tenant_id \<Rightarrow> store_path \<Rightarrow> pg \<Rightarrow> remote_object option" where
  "output_object_db tenant path db = on_db db None
     (Option.bind (live_row tenant path db) (\<lambda>row.
      Option.bind (joined_object db (snd row)) (\<lambda>(k, r). object_of_row k r)))"

definition object_known_db :: "object_key \<Rightarrow> pg \<Rightarrow> bool" where
  "object_known_db key db = on_db db False (map_of (pg_objects db) key \<noteq> None)"

definition find_verified_by_hash_part_db :: "string \<Rightarrow> pg \<Rightarrow> (path_info \<times> remote_object) option" where
  "find_verified_by_hash_part_db h db = on_db db None
     (Option.bind (find (\<lambda>row. pr_tier (snd row) = ''verified'' \<and> pr_hash_part (snd row) = h \<and>
          joined_object db (snd row) \<noteq> None) (store_paths_live VerifiedRead db)) (\<lambda>row.
      Option.bind (joined_object db (snd row)) (\<lambda>(k, r).
      Option.bind (object_of_row k r) (\<lambda>object. Some (row_to_info row, object)))))"

definition find_substituted_by_hash_part_db ::
  "string \<Rightarrow> pg \<Rightarrow> (path_info \<times> remote_object \<times> string \<times> string) option" where
  "find_substituted_by_hash_part_db h db = on_db db None
     (Option.bind (find (\<lambda>row. pr_tier (snd row) = ''substituted'' \<and> pr_hash_part (snd row) = h \<and>
          joined_object db (snd row) \<noteq> None) (store_paths_live SubstitutedRead db)) (\<lambda>row.
      Option.bind (joined_object db (snd row)) (\<lambda>(k, r).
      Option.bind (object_of_row k r) (\<lambda>object.
      Option.bind (pr_substituted_from_url (snd row)) (\<lambda>url.
      Option.bind (pr_substituted_from_key (snd row)) (\<lambda>key.
      Some (row_to_info row, object, url, key)))))))"

definition substituted_source_db :: "tenant_id \<Rightarrow> store_path \<Rightarrow> pg \<Rightarrow> (string \<times> string) option" where
  "substituted_source_db tenant path db = on_db db None
     (Option.bind (live_row tenant path db) (\<lambda>row.
      if pr_tier (snd row) \<noteq> ''substituted'' then None
      else Option.bind (pr_substituted_from_url (snd row)) (\<lambda>url.
           Option.bind (pr_substituted_from_key (snd row)) (\<lambda>key. Some (url, key)))))"

text \<open>\<open>ARRAY(SELECT DISTINCT unnest(sigs || new))\<close>: the order of the result is unspecified.\<close>

definition add_signatures_db ::
  "tenant_id \<Rightarrow> store_path \<Rightarrow> string list \<Rightarrow> pg \<Rightarrow> (store_error, unit) res \<times> pg" where
  "add_signatures_db tenant path sigs db =
     (case pg_fault db of
        Some e \<Rightarrow> (Err (db_err e), db)
      | None \<Rightarrow>
          (case map_of (pg_store_paths db) (tenant, path) of
             None \<Rightarrow> (Err (NotFound (sp_str path)), db)
           | Some r \<Rightarrow> (Ok (), db\<lparr>pg_store_paths := AList.update (tenant, path)
                  (r\<lparr>pr_sigs := remdups (pr_sigs r @ sigs)\<rparr>) (pg_store_paths db)\<rparr>)))"

definition query_missing_db :: "tenant_id \<Rightarrow> store_path list \<Rightarrow> pg \<Rightarrow> missing_paths" where
  "query_missing_db tenant targets db =
     no_missing\<lparr>will_build := filter (\<lambda>t. t \<notin> set (query_valid_paths_db tenant targets db)) targets\<rparr>"

definition tier_db :: "tenant_id \<Rightarrow> store_path \<Rightarrow> pg \<Rightarrow> tier option" where
  "tier_db tenant path db = on_db db None (map_option (\<lambda>row. tier_from_str (pr_tier (snd row))) (live_row tenant path db))"

text \<open>
  The key is claimed only if none is stored, and what is stored is read back. \<open>seed\<close>
  is the randomness of the freshly generated key, \<open>pub\<close> its public half.
\<close>

definition signer_db :: "(bytes \<Rightarrow> bytes) \<Rightarrow> tenant_id \<Rightarrow> bytes \<Rightarrow> pg \<Rightarrow> local_signer option \<times> pg" where
  "signer_db pub tenant seed db =
     (case ensure_tenant_id tenant db of
        (Ok _, db) \<Rightarrow>
          (case map_of (pg_tenants db) tenant of
             None \<Rightarrow> (None, db)
           | Some r \<Rightarrow>
               let r' = (if tr_signing_key_material r = None
                   then r\<lparr>tr_signing_key_kind := Some KIND_LOCAL_ED25519,
                          tr_signing_key_name := Some (key_name_for tenant),
                          tr_signing_key_material := Some seed,
                          tr_signing_public_key := Some (pub seed)\<rparr> else r);
                   db = db\<lparr>pg_tenants := AList.update tenant r' (pg_tenants db)\<rparr>
               in (case (tr_signing_key_name r', tr_signing_key_material r') of
                     (Some name, Some m) \<Rightarrow>
                       (case from_material name m of Ok signer \<Rightarrow> (Some signer, db) | _ \<Rightarrow> (None, db))
                   | _ \<Rightarrow> (None, db)))
      | (_, db) \<Rightarrow> (None, db))"

definition trusted_substituters_db :: "tenant_id \<Rightarrow> pg \<Rightarrow> (string \<times> string) list" where
  "trusted_substituters_db tenant db = on_db db []
     (map snd (filter (\<lambda>row. fst row = tenant) (pg_tenant_substituters db)))"

definition substituter_negative_cache_hit_db :: "tenant_id \<Rightarrow> string \<Rightarrow> pg \<Rightarrow> bool" where
  "substituter_negative_cache_hit_db tenant h db = on_db db False
     (case map_of (pg_negative_cache db) (tenant, h) of
        None \<Rightarrow> False | Some checked_at \<Rightarrow> checked_at + pg_negative_cache_ttl db > pg_now db)"

text \<open>The row refers to the tenant by a foreign key, so a miss for an unknown tenant is not recorded.\<close>

definition mark_substituter_miss_db :: "tenant_id \<Rightarrow> string \<Rightarrow> pg \<Rightarrow> pg" where
  "mark_substituter_miss_db tenant h db = on_db db db
     (if map_of (pg_tenants db) tenant = None then db
      else db\<lparr>pg_negative_cache := AList.update (tenant, h) (pg_now db) (pg_negative_cache db)\<rparr>)"

definition reject_unverified_pushes_db :: "tenant_id \<Rightarrow> pg \<Rightarrow> bool" where
  "reject_unverified_pushes_db tenant db = on_db db True
     (case map_of (pg_tenants db) tenant of Some r \<Rightarrow> tr_reject_unverified_pushes r | None \<Rightarrow> True)"

definition record_access_db :: "tenant_id \<Rightarrow> store_path \<Rightarrow> pg \<Rightarrow> pg" where
  "record_access_db tenant path db = on_db db db
     (db\<lparr>pg_path_access := pg_path_access db @ [(tenant, path, pg_now db)]\<rparr>)"

subsection \<open>Jobs\<close>

definition running_for :: "tenant_id \<Rightarrow> store_path \<Rightarrow> pg \<Rightarrow> (uuid \<times> job_row) option" where
  "running_for tenant drv db =
     find (\<lambda>(_, r). jb_tenant r = tenant \<and> jb_derivation_path r = drv \<and> jb_status r = ''running'') (pg_jobs db)"

text \<open>
  The \<open>INSERT .. ON CONFLICT .. DO UPDATE .. WHERE .. RETURNING id\<close> statement. A
  violation of the primary key is a database error; a conflict on the partial unique index is
  resolved by stealing the row when it is older than the retention, and otherwise returns no
  row.
\<close>

datatype insert_result = InsertError | InsertNone | InsertId uuid

definition reserve_insert ::
  "tenant_id \<Rightarrow> uuid \<Rightarrow> store_path \<Rightarrow> string \<Rightarrow> nat \<Rightarrow> pg \<Rightarrow> insert_result \<times> pg" where
  "reserve_insert tenant job_id drv system retention db =
     (case running_for tenant drv db of
        None \<Rightarrow>
          if map_of (pg_jobs db) job_id \<noteq> None then (InsertError, db)
          else (InsertId job_id, db\<lparr>pg_jobs := pg_jobs db @ [(job_id,
                 \<lparr>jb_tenant = tenant, jb_derivation_path = drv, jb_system = system, jb_status = ''running'',
                  jb_error_msg = None, jb_output_paths = [], jb_log_key = None, jb_created_at = pg_now db,
                  jb_finished_at = None, jb_failure_kind = None, jb_log_state = LogPresent\<rparr>)]\<rparr>)
      | Some (old, r) \<Rightarrow>
          if \<not> jb_created_at r + retention < pg_now db then (InsertNone, db)
          else if old \<noteq> job_id \<and> map_of (pg_jobs db) job_id \<noteq> None then (InsertError, db)
          else (InsertId job_id, db\<lparr>pg_jobs := map (\<lambda>(i, x). if i = old
                  then (job_id, x\<lparr>jb_system := system, jb_created_at := pg_now db, jb_error_msg := None,
                         jb_output_paths := [], jb_log_key := None, jb_failure_kind := None, jb_finished_at := None\<rparr>)
                  else (i, x)) (pg_jobs db)\<rparr>))"

text \<open>
  At most two attempts. The insert and the read that follows a conflict are separate statements. What other
  connections commit, and whether the database then still answers, is \<open>between n\<close>: before the insert of an
  attempt at an odd point, between the insert and the read at an even one, counting down to 0. A transaction
  that fails at any of its statements or at its commit leaves nothing behind, so that it counts as a fault at
  its first point.
\<close>

fun reserve_attempts ::
  "nat \<Rightarrow> (nat \<Rightarrow> pg \<Rightarrow> pg) \<Rightarrow> tenant_id \<Rightarrow> uuid \<Rightarrow> store_path \<Rightarrow> string \<Rightarrow> nat \<Rightarrow> pg \<Rightarrow> reservation \<times> pg" where
  "reserve_attempts 0 between tenant job_id drv system retention db = (Won, db)"
| "reserve_attempts (Suc left) between tenant job_id drv system retention db =
     (let db = between (Suc (2 * left)) db in
      if pg_fault db \<noteq> None then (Won, db)
      else case reserve_insert tenant job_id drv system retention db of
        (InsertError, db) \<Rightarrow> (Won, db)
      | (InsertId _, db) \<Rightarrow> (Won, db)
      | (InsertNone, db) \<Rightarrow>
          (let db = between (2 * left) db in
           if pg_fault db \<noteq> None then (Won, db)
           else case running_for tenant drv db of
             Some (existing, _) \<Rightarrow> (Lost existing, db)
           | None \<Rightarrow> reserve_attempts left between tenant job_id drv system retention db))"

definition reserve_job_db ::
  "(nat \<Rightarrow> pg \<Rightarrow> pg) \<Rightarrow> tenant_id \<Rightarrow> uuid \<Rightarrow> store_path \<Rightarrow> string \<Rightarrow> nat \<Rightarrow> pg \<Rightarrow> reservation \<times> pg" where
  "reserve_job_db between tenant job_id drv system retention db =
     (case ensure_tenant_id tenant db of
        (Ok _, db) \<Rightarrow> reserve_attempts 2 between tenant job_id drv system retention db
      | (_, db) \<Rightarrow> (Won, db))"

fun failure_kind_name :: "failure_kind \<Rightarrow> string" where
  "failure_kind_name OutOfMemory = ''out_of_memory''"
| "failure_kind_name DiskFull = ''disk_full''"
| "failure_kind_name GuestHang = ''guest_hang''"

definition complete_row :: "nat \<Rightarrow> job_outcome \<Rightarrow> job_row \<Rightarrow> job_row" where
  "complete_row now outcome r =
     (case outcome of
        Completed outputs _ lk \<Rightarrow>
          r\<lparr>jb_status := ''completed'', jb_error_msg := None, jb_output_paths := outputs, jb_log_key := Some lk,
            jb_failure_kind := None, jb_finished_at := Some now\<rparr>
      | Failed message lk kind \<Rightarrow>
          r\<lparr>jb_status := ''failed'', jb_error_msg := Some message, jb_output_paths := [], jb_log_key := Some lk,
            jb_failure_kind := map_option failure_kind_name kind, jb_finished_at := Some now\<rparr>)"

text \<open>
  The policy of the table hides the row of another tenant, so that the conflict with it is an error, which
  is only logged.
\<close>

definition record_job_outcome_db ::
  "tenant_id \<Rightarrow> uuid \<Rightarrow> store_path \<Rightarrow> string \<Rightarrow> job_outcome \<Rightarrow> pg \<Rightarrow> pg" where
  "record_job_outcome_db tenant job_id drv system outcome db =
     (case ensure_tenant_id tenant db of
        (Ok _, db) \<Rightarrow>
          let base = (case map_of (pg_jobs db) job_id of
                Some r \<Rightarrow> r
              | None \<Rightarrow> \<lparr>jb_tenant = tenant, jb_derivation_path = drv, jb_system = system, jb_status = [],
                  jb_error_msg = None, jb_output_paths = [], jb_log_key = None, jb_created_at = pg_now db,
                  jb_finished_at = None, jb_failure_kind = None, jb_log_state = LogPresent\<rparr>)
          in if jb_tenant base \<noteq> tenant then db
             else db\<lparr>pg_jobs := AList.update job_id (complete_row (pg_now db) outcome base) (pg_jobs db)\<rparr>
      | (_, db) \<Rightarrow> db)"

subsection \<open>Capability secrets and credentials\<close>

unbundle bit_operations_syntax

definition CAPABILITY_SECRET_CACHE_TTL :: nat where "CAPABILITY_SECRET_CACHE_TTL = 60"

text \<open>The row with the highest id, if its secret has the right length.\<close>

definition latest_secret :: "pg \<Rightarrow> (u64 \<times> bytes) option" where
  "latest_secret db =
     (case pg_capability_secrets db of
        [] \<Rightarrow> None
      | rows \<Rightarrow>
          (let kid = Max (set (map fst rows)) in
           Option.bind (map_of rows kid) (\<lambda>secret.
           if length secret = 32 then Some (of_nat kid, secret) else None)))"

definition remember_secret :: "u64 \<Rightarrow> bytes \<Rightarrow> pg \<Rightarrow> pg" where
  "remember_secret kid secret db =
     db\<lparr>pg_cache := \<lparr>sc_current = Some (pg_now db, kid, secret),
                     sc_by_kid = AList.update kid secret (sc_by_kid (pg_cache db))\<rparr>\<rparr>"

definition refresh_secret :: "bytes \<Rightarrow> u32 \<Rightarrow> pg \<Rightarrow> (u64 \<times> bytes) \<times> pg" where
  "refresh_secret fresh salt db =
     (case on_db db None (latest_secret db) of
        Some (kid, secret) \<Rightarrow> ((kid, secret), remember_secret kid secret db)
      | None \<Rightarrow>
          if pg_fault db = None
          then (let kid = Suc (pg_kid_seq db);
                    db = db\<lparr>pg_kid_seq := kid, pg_capability_secrets := pg_capability_secrets db @ [(kid, fresh)]\<rparr>
                in ((of_nat kid, fresh), remember_secret (of_nat kid) fresh db))
          else (let kid = 0x8000000000000000 OR ucast salt
                in ((kid, fresh), remember_secret kid fresh db)))"

definition current_capability_secret_db :: "bytes \<Rightarrow> u32 \<Rightarrow> pg \<Rightarrow> (u64 \<times> bytes) \<times> pg" where
  "current_capability_secret_db fresh salt db =
     (case sc_current (pg_cache db) of
        Some (fetched_at, kid, secret) \<Rightarrow>
          if pg_now db - fetched_at < CAPABILITY_SECRET_CACHE_TTL then ((kid, secret), db)
          else refresh_secret fresh salt db
      | None \<Rightarrow> refresh_secret fresh salt db)"

definition capability_secret_db :: "u64 \<Rightarrow> pg \<Rightarrow> bytes option \<times> pg" where
  "capability_secret_db kid db =
     (case map_of (sc_by_kid (pg_cache db)) kid of
        Some secret \<Rightarrow> (Some secret, db)
      | None \<Rightarrow>
          if unat kid \<ge> 2 ^ 63 then (None, db)
          else (case on_db db None (map_of (pg_capability_secrets db) (unat kid)) of
             None \<Rightarrow> (None, db)
           | Some secret \<Rightarrow>
               if length secret \<noteq> 32 then (None, db)
               else (Some secret, db\<lparr>pg_cache := (pg_cache db)\<lparr>sc_by_kid :=
                       AList.update kid secret (sc_by_kid (pg_cache db))\<rparr>\<rparr>)))"

definition trusted_client_roots_db :: "pg \<Rightarrow> (store_error, bytes list) res" where
  "trusted_client_roots_db db =
     (case pg_fault db of
        Some e \<Rightarrow> Err (db_err e)
      | None \<Rightarrow> Ok (List.map_filter (snd \<circ> snd)
           (sort_key (snd \<circ> fst) (filter (\<lambda>row. fst (fst row) = key_type_as_str Tls) (pg_bindings db)))))"

definition find_tenant_by_binding_db :: "key_type \<Rightarrow> string \<Rightarrow> pg \<Rightarrow> (store_error, tenant_id option) res" where
  "find_tenant_by_binding_db kt key_id db =
     (case pg_fault db of
        Some e \<Rightarrow> Err (db_err e)
      | None \<Rightarrow>
          (case map_of (pg_bindings db) (key_type_as_str kt, key_id) of
             None \<Rightarrow> Ok None
           | Some (t, _) \<Rightarrow> Ok (from_wire t)))"

subsection \<open>Integrity of the path tables\<close>

definition pg_inv :: "pg \<Rightarrow> bool" where
  "pg_inv db \<longleftrightarrow> distinct (map fst (pg_store_paths db)) \<and>
     (\<forall>k r. map_of (pg_objects db) k = Some r \<longrightarrow> object_of_row k r \<noteq> None) \<and>
     (\<forall>key r k. map_of (pg_store_paths db) key = Some r \<longrightarrow> pr_object_key r = Some k \<longrightarrow> map_of (pg_objects db) k \<noteq> None)"

lemma find_filter: "find P (filter Q xs) = find (\<lambda>x. Q x \<and> P x) xs"
  by (induction xs) auto

lemma find_key:
  "distinct (map fst xs) \<Longrightarrow> find (\<lambda>x. Q x \<and> fst x = k) xs =
   (case map_of xs k of None \<Rightarrow> None | Some v \<Rightarrow> if Q (k, v) then Some (k, v) else None)"
proof (induction xs)
  case (Cons x xs)
  show ?case
  proof (cases "fst x = k")
    case True
    then have "map_of xs k = None" using Cons.prems by (auto simp: map_of_eq_None_iff)
    with True Cons show ?thesis by (cases x) auto
  next
    case False
    with Cons show ?thesis by (cases x) auto
  qed
qed simp

lemma live_row_distinct:
  assumes "distinct (map fst (pg_store_paths db))"
  shows "live_row t p db =
   (case map_of (pg_store_paths db) (t, p) of
      None \<Rightarrow> None | Some r \<Rightarrow> if pr_state r = Live then Some ((t, p), r) else None)"
proof -
  have "live_row t p db =
      find (\<lambda>row. (visible (TenantScope t) row \<and> pr_state (snd row) = Live) \<and> fst row = (t, p)) (pg_store_paths db)"
    by (simp only: live_row_def store_paths_live_def find_filter)
  also have "\<dots> = (case map_of (pg_store_paths db) (t, p) of
      None \<Rightarrow> None | Some r \<Rightarrow> if visible (TenantScope t) ((t, p), r) \<and> pr_state (snd ((t, p), r)) = Live
        then Some ((t, p), r) else None)"
    by (rule find_key [OF assms])
  finally show ?thesis by (simp split: option.splits)
qed

lemma live_row_eq:
  "pg_inv db \<Longrightarrow> live_row t p db =
   (case map_of (pg_store_paths db) (t, p) of
      None \<Rightarrow> None | Some r \<Rightarrow> if pr_state r = Live then Some ((t, p), r) else None)"
  by (rule live_row_distinct) (simp add: pg_inv_def)

lemma algo_from_algo_name [simp]: "algo_from_name (algo_name a) = a"
  by (cases a) (simp_all add: algo_from_name_def)

lemma hash_part_of_hash_part: "hash_part p = Some h \<Longrightarrow> hash_part_of (sp_str p) = h"
  by (auto simp: hash_part_def hash_part_of_def base_name_def Let_def split: if_splits)

lemma ensure_tenant_id_frame [simp]:
  "pg_store_paths (snd (ensure_tenant_id t db)) = pg_store_paths db"
  "pg_objects (snd (ensure_tenant_id t db)) = pg_objects db"
  "pg_jobs (snd (ensure_tenant_id t db)) = pg_jobs db"
  "pg_fault (snd (ensure_tenant_id t db)) = pg_fault db"
  "pg_now (snd (ensure_tenant_id t db)) = pg_now db"
  "pg_actor_up (snd (ensure_tenant_id t db)) = pg_actor_up db"
  by (simp_all add: ensure_tenant_id_def split: option.splits)

lemma ensure_tenant_id_result:
  "fst (ensure_tenant_id t db) = (case pg_fault db of None \<Rightarrow> Ok () | Some e \<Rightarrow> Err (db_err e))"
  by (simp add: ensure_tenant_id_def split: option.splits)

text \<open>What one upsert leaves in the tables.\<close>

definition stored_row :: "path_info \<Rightarrow> remote_object \<Rightarrow> tier \<Rightarrow> (string \<times> string) option \<Rightarrow> nat \<Rightarrow> path_row" where
  "stored_row info ob ti src now =
     \<lparr>pr_hash_part = hash_part_of (sp_str (pi_path info)), pr_deriver = pi_deriver info,
      pr_nar_hash_algo = algo_name (h_type (pi_nar_hash info)), pr_nar_hash = h_bytes (pi_nar_hash info),
      pr_nar_size = pi_nar_size info, pr_registration_time = pi_registration_time info,
      pr_ultimate = pi_ultimate info, pr_refs = pi_references info, pr_sigs = pi_sigs info,
      pr_object_key = Some (ro_key ob), pr_tier = tier_as_str ti,
      pr_substituted_from_url = map_option fst src, pr_substituted_from_key = map_option snd src,
      pr_last_access = now, pr_state = Live, pr_marked_at = None\<rparr>"

lemma row_to_info_stored [simp]: "row_to_info ((t, pi_path info), stored_row info ob ti src now) = info"
  by (simp add: row_to_info_def stored_row_def)

lemma upsert_ok:
  assumes "pg_fault db = None" and "upsert_path_inner t info ob ti src db = (r, db')"
  shows "r = Ok () \<and>
    pg_store_paths db' = AList.update (t, pi_path info) (stored_row info ob ti src (pg_now db)) (pg_store_paths db) \<and>
    pg_objects db' = (if map_of (pg_objects db) (ro_key ob) = None
       then AList.update (ro_key ob) \<lparr>or_file_size = ro_file_size ob, or_file_hash = ro_file_hash ob,
              or_compression = compression_as_str (ro_compression ob)\<rparr> (pg_objects db)
       else pg_objects db) \<and>
    pg_fault db' = None \<and> pg_actor_up db' = pg_actor_up db \<and> pg_jobs db' = pg_jobs db \<and> pg_now db' = pg_now db"
  using assms ensure_tenant_id_result [of t db] ensure_tenant_id_frame [of t db]
  by (cases "ensure_tenant_id t db") (auto simp: upsert_path_inner_def Let_def stored_row_def)

lemma upsert_fault:
  assumes "pg_fault db = Some e" and "upsert_path_inner t info ob ti src db = (r, db')"
  shows "r = Err (db_err e) \<and> db' = db"
  using assms by (auto simp: upsert_path_inner_def ensure_tenant_id_def)

lemma object_of_row_stored:
  "wf_object ob \<Longrightarrow> object_of_row k \<lparr>or_file_size = a, or_file_hash = ro_file_hash ob, or_compression = compression_as_str c\<rparr> \<noteq> None"
  by (simp add: object_of_row_def wf_object_def)

lemma upsert_inv:
  assumes "pg_inv db" and "wf_object ob" and "upsert_path_inner t info ob ti src db = (r, db')"
  shows "pg_inv db'"
proof (cases "pg_fault db")
  case None
  note up = upsert_ok [OF None assms(3)]
  show ?thesis
    using assms(1,2) up object_of_row_stored [of ob]
    by (auto simp: pg_inv_def distinct_update update_conv' stored_row_def split: if_splits)
next
  case (Some e)
  show ?thesis using upsert_fault [OF Some assms(3)] assms(1) by simp
qed

lemma object_of_row_key: "object_of_row k r = Some ob \<Longrightarrow> ro_key ob = k \<and> wf_object ob"
  by (auto simp: object_of_row_def wf_object_def split: if_splits res.splits)

lemma upsert_query:
  assumes "pg_inv db" and "wf_object ob" and "upsert_path_inner t info ob ti src db = (Ok u, db')"
  shows "query_path_info_db t (pi_path info) db' = Some info \<and> tier_db t (pi_path info) db' = Some ti \<and>
    map_option ro_key (output_object_db t (pi_path info) db') = Some (ro_key ob)"
proof (cases "pg_fault db")
  case None
  note up = upsert_ok [OF None assms(3)]
  have inv: "pg_inv db'" by (rule upsert_inv [OF assms])
  have row: "live_row t (pi_path info) db' = Some ((t, pi_path info), stored_row info ob ti src (pg_now db))"
    using up by (simp add: live_row_eq [OF inv] update_conv' stored_row_def)
  obtain r where r: "map_of (pg_objects db') (ro_key ob) = Some r"
    using up by (cases "map_of (pg_objects db) (ro_key ob)") (auto simp: update_conv')
  then obtain ob' where ob': "object_of_row (ro_key ob) r = Some ob'" using inv unfolding pg_inv_def by blast
  have fault: "pg_fault db' = None" using up by simp
  have cols: "pr_object_key (stored_row info ob ti src (pg_now db)) = Some (ro_key ob)"
      "pr_tier (stored_row info ob ti src (pg_now db)) = tier_as_str ti"
    by (simp_all add: stored_row_def)
  show ?thesis
    using row r fault cols ob' object_of_row_key [OF ob']
    by (simp add: query_path_info_db_def tier_db_def output_object_db_def on_db_def joined_object_def)
qed (use upsert_fault [OF _ assms(3)] in auto)

lemma upsert_frame:
  assumes "pg_inv db" and "upsert_path_inner t info ob ti src db = (r, db')"
    and "(t', p) \<noteq> (t, pi_path info) \<or> r \<noteq> Ok ()"
  shows "query_path_info_db t' p db' = query_path_info_db t' p db \<and> tier_db t' p db' = tier_db t' p db"
proof (cases "pg_fault db")
  case None
  note up = upsert_ok [OF None assms(2)]
  have "distinct (map fst (pg_store_paths db'))" using assms(1) up by (simp add: pg_inv_def distinct_update)
  then have "live_row t' p db' = live_row t' p db"
    using assms(1,3) up
    by (auto simp: live_row_distinct pg_inv_def update_conv')
  then show ?thesis using up None by (simp add: query_path_info_db_def tier_db_def on_db_def)
next
  case (Some e)
  show ?thesis using upsert_fault [OF Some assms(2)] by simp
qed

lemma signer_db_frame [simp]:
  "pg_store_paths (snd (signer_db pub t seed db)) = pg_store_paths db"
  "pg_objects (snd (signer_db pub t seed db)) = pg_objects db"
  "pg_fault (snd (signer_db pub t seed db)) = pg_fault db"
  "pg_actor_up (snd (signer_db pub t seed db)) = pg_actor_up db"
  using ensure_tenant_id_frame [of t db]
  by (cases "ensure_tenant_id t db"; auto simp: signer_db_def Let_def split: res.splits option.splits)+

lemma live_row_cong:
  "pg_store_paths db' = pg_store_paths db \<Longrightarrow> live_row t p db' = live_row t p db"
  by (simp add: live_row_def store_paths_live_def)

lemma find_verified_db_Some:
  assumes "pg_inv db" and "find_verified_by_hash_part_db h db = Some (info, ob)"
  shows "\<exists>t. tier_db t (pi_path info) db = Some Verified \<and> query_path_info_db t (pi_path info) db = Some info \<and> wf_object ob"
proof -
  obtain t p r k x where f: "find (\<lambda>row. pr_tier (snd row) = ''verified'' \<and> pr_hash_part (snd row) = h \<and>
        joined_object db (snd row) \<noteq> None) (store_paths_live VerifiedRead db) = Some ((t, p), r)"
      and up: "pg_fault db = None" and info: "info = row_to_info ((t, p), r)"
      and ob: "object_of_row k x = Some ob"
    using assms(2) unfolding find_verified_by_hash_part_db_def on_db_def
    by (auto simp: Option.bind_eq_Some_conv split: option.splits)
  have "((t, p), r) \<in> set (store_paths_live VerifiedRead db)" and ti: "pr_tier r = ''verified''"
    using find_Some_mem [OF f] by simp_all
  then have "((t, p), r) \<in> set (pg_store_paths db)" and "pr_state r = Live"
    by (auto simp: store_paths_live_def)
  then have "live_row t p db = Some ((t, p), r)"
    using assms(1) by (simp add: live_row_eq) (simp add: pg_inv_def)
  then show ?thesis
    using ti up info object_of_row_key [OF ob]
    by (intro exI [of _ t]) (auto simp: tier_db_def query_path_info_db_def on_db_def row_to_info_def tier_from_str_def)
qed

subsection \<open>One key per tenant\<close>

text \<open>A stored key has a name and usable material.\<close>

definition keys_inv :: "pg \<Rightarrow> bool" where
  "keys_inv db \<longleftrightarrow> (\<forall>t r m. map_of (pg_tenants db) t = Some r \<longrightarrow> tr_signing_key_material r = Some m \<longrightarrow>
     length m = 32 \<and> tr_signing_key_name r \<noteq> None)"

lemma ensure_tenant_id_row:
  "pg_fault db = None \<Longrightarrow> \<exists>db1 r. ensure_tenant_id t db = (Ok (), db1) \<and> map_of (pg_tenants db1) t = Some r \<and>
     (map_of (pg_tenants db) t = Some r \<or> tr_signing_key_material r = None) \<and> pg_fault db1 = None"
  by (cases "map_of (pg_tenants db) t") (auto simp: ensure_tenant_id_def update_conv' new_tenant_row_def)

text \<open>
  a tenant has one signing key. When the database can be reached, asking for the signer
  always yields one, and a second frontend that asks afterwards with a key of its own gets the
  key of the first: the conditional update and the read-back make racing frontends agree.
\<close>

theorem signer_converges:
  assumes "pg_fault db = None" and "keys_inv db" and "length seed = 32"
  shows "\<exists>k db1. signer_db pub t seed db = (Some k, db1) \<and> length (ls_seed k) = 32 \<and>
     fst (signer_db pub t seed' db1) = Some k"
proof -
  obtain db1 r where e: "ensure_tenant_id t db = (Ok (), db1)" "map_of (pg_tenants db1) t = Some r"
      and r: "map_of (pg_tenants db) t = Some r \<or> tr_signing_key_material r = None" and f: "pg_fault db1 = None"
    using ensure_tenant_id_row [OF assms(1)] by blast
  define r' where "r' = (if tr_signing_key_material r = None
      then r\<lparr>tr_signing_key_kind := Some KIND_LOCAL_ED25519, tr_signing_key_name := Some (key_name_for t),
             tr_signing_key_material := Some seed, tr_signing_public_key := Some (pub seed)\<rparr> else r)"
  obtain n m where nm: "tr_signing_key_name r' = Some n" "tr_signing_key_material r' = Some m" "length m = 32"
  proof (cases "tr_signing_key_material r")
    case None
    then show ?thesis using that assms(3) by (simp add: r'_def)
  next
    case (Some m)
    then have "map_of (pg_tenants db) t = Some r" using r by simp
    then have "length m = 32 \<and> tr_signing_key_name r \<noteq> None" using Some assms(2) unfolding keys_inv_def by blast
    then show ?thesis using that Some by (auto simp: r'_def)
  qed
  let ?db2 = "db1\<lparr>pg_tenants := AList.update t r' (pg_tenants db1)\<rparr>" and ?k = "\<lparr>ls_name = n, ls_seed = m\<rparr>"
  have "signer_db pub t seed db = (Some ?k, ?db2)"
    using e nm by (simp add: signer_db_def Let_def from_material_def flip: r'_def)
  moreover have "ensure_tenant_id t ?db2 = (Ok (), ?db2)"
    using f by (simp add: ensure_tenant_id_def update_conv')
  then have "fst (signer_db pub t seed' ?db2) = Some ?k"
    using nm by (simp add: signer_db_def Let_def from_material_def update_conv')
  ultimately show ?thesis using nm(3) by auto
qed

theorem signer_converges_witness:
  "\<exists>k db1. signer_db (\<lambda>s. s) (TenantId ''a'') (replicate 32 7) pg_empty = (Some k, db1) \<and> length (ls_seed k) = 32 \<and>
     fst (signer_db (\<lambda>s. s) (TenantId ''a'') (replicate 32 9) db1) = Some k"
  by (rule signer_converges) (simp_all add: pg_empty_def keys_inv_def)

end
