(* ===== verification/PostgresActor.thy ===== *)
theory PostgresActor
  imports Postgres
begin

text \<open>
  The database actor of \<open>crates/server/src/postgres_store.rs\<close>: every trait method
  sends a \<open>DbRequest\<close> over a channel and awaits the reply of \<open>dispatch\<close>. When
  the actor is gone the method answers with a default of its own. The reply channels are not
  modelled; a request's answer is the value \<open>dispatch\<close> returns. The randomness a
  request draws on is an argument of \<open>dispatch\<close>.
\<close>

record randomness =
  rnd_seed :: bytes
  rnd_secret :: bytes
  rnd_salt :: u32

datatype db_request =
    IsValidPath tenant_id store_path
  | QueryValidPaths tenant_id "store_path list"
  | QueryAllValidPaths tenant_id
  | QueryPathInfo tenant_id store_path
  | QueryPathFromHashPart tenant_id string
  | QueryReferrers tenant_id store_path
  | RecordPath tenant_id path_info remote_object tier
  | OutputObject tenant_id store_path
  | ObjectKnown object_key
  | FindVerifiedByHashPart string
  | AddSignatures tenant_id store_path "string list"
  | QueryMissing tenant_id "store_path list"
  | RegisterTenant tenant
  | GetSigner tenant_id
  | GetTier tenant_id store_path
  | RejectUnverifiedPushes tenant_id
  | TrustedSubstituters tenant_id
  | RecordSubstitutedPath tenant_id path_info remote_object string string
  | FindSubstitutedByHashPart string
  | SubstitutedSource tenant_id store_path
  | SubstituterNegativeCacheHit tenant_id string
  | MarkSubstituterMiss tenant_id string
  | ReserveJob tenant_id uuid store_path string nat
  | RecordAccess tenant_id store_path
  | RecordJobOutcome tenant_id uuid store_path string job_outcome
  | CurrentCapabilitySecret
  | CapabilitySecret u64
  | FindTenantByBinding key_type string
  | TrustedClientRoots

datatype db_reply =
    RBool bool
  | RPaths "store_path list"
  | RInfo "path_info option"
  | RPath "store_path option"
  | RUnit "(store_error, unit) res"
  | RObject "remote_object option"
  | RFound "(path_info \<times> remote_object) option"
  | RSubstituted "(path_info \<times> remote_object \<times> string \<times> string) option"
  | RMissing missing_paths
  | RSigner "local_signer option"
  | RTier "tier option"
  | RPairs "(string \<times> string) list"
  | RSource "(string \<times> string) option"
  | RReservation reservation
  | RNothing
  | RCurrent "u64 \<times> bytes"
  | RSecret "bytes option"
  | RTenant "(store_error, tenant_id option) res"
  | RRoots "(store_error, bytes list) res"

fun dispatch :: "(bytes \<Rightarrow> bytes) \<Rightarrow> randomness \<Rightarrow> db_request \<Rightarrow> pg \<Rightarrow> db_reply \<times> pg" where
  "dispatch pub rnd (IsValidPath t p) db = (RBool (is_valid_path_db t p db), db)"
| "dispatch pub rnd (QueryValidPaths t ps) db = (RPaths (query_valid_paths_db t ps db), db)"
| "dispatch pub rnd (QueryAllValidPaths t) db = (RPaths (query_all_valid_paths_db t db), db)"
| "dispatch pub rnd (QueryPathInfo t p) db = (RInfo (query_path_info_db t p db), db)"
| "dispatch pub rnd (QueryPathFromHashPart t h) db = (RPath (query_path_from_hash_part_db t h db), db)"
| "dispatch pub rnd (QueryReferrers t p) db = (RPaths (query_referrers_db t p db), db)"
| "dispatch pub rnd (RecordPath t i ob ti) db = (let (r, db) = record_path_db t i ob ti db in (RUnit r, db))"
| "dispatch pub rnd (OutputObject t p) db = (RObject (output_object_db t p db), db)"
| "dispatch pub rnd (ObjectKnown k) db = (RBool (object_known_db k db), db)"
| "dispatch pub rnd (FindVerifiedByHashPart h) db = (RFound (find_verified_by_hash_part_db h db), db)"
| "dispatch pub rnd (AddSignatures t p sigs) db = (let (r, db) = add_signatures_db t p sigs db in (RUnit r, db))"
| "dispatch pub rnd (QueryMissing t ps) db = (RMissing (query_missing_db t ps db), db)"
| "dispatch pub rnd (RegisterTenant t) db = (let (r, db) = ensure_tenant t db in (RUnit r, db))"
| "dispatch pub rnd (GetSigner t) db = (let (r, db) = signer_db pub t (rnd_seed rnd) db in (RSigner r, db))"
| "dispatch pub rnd (GetTier t p) db = (RTier (tier_db t p db), db)"
| "dispatch pub rnd (RejectUnverifiedPushes t) db = (RBool (reject_unverified_pushes_db t db), db)"
| "dispatch pub rnd (TrustedSubstituters t) db = (RPairs (trusted_substituters_db t db), db)"
| "dispatch pub rnd (RecordSubstitutedPath t i ob url key) db =
     (let (r, db) = record_substituted_path_db t i ob url key db in (RUnit r, db))"
| "dispatch pub rnd (FindSubstitutedByHashPart h) db = (RSubstituted (find_substituted_by_hash_part_db h db), db)"
| "dispatch pub rnd (SubstitutedSource t p) db = (RSource (substituted_source_db t p db), db)"
| "dispatch pub rnd (SubstituterNegativeCacheHit t h) db = (RBool (substituter_negative_cache_hit_db t h db), db)"
| "dispatch pub rnd (MarkSubstituterMiss t h) db = (RNothing, mark_substituter_miss_db t h db)"
| "dispatch pub rnd (ReserveJob t j d sys ret) db =
     (let (r, db) = reserve_job_db (\<lambda>_ db. db) t j d sys ret db in (RReservation r, db))"
| "dispatch pub rnd (RecordAccess t p) db = (RNothing, record_access_db t p db)"
| "dispatch pub rnd (RecordJobOutcome t j d sys oc) db = (RNothing, record_job_outcome_db t j d sys oc db)"
| "dispatch pub rnd CurrentCapabilitySecret db =
     (let (r, db) = current_capability_secret_db (rnd_secret rnd) (rnd_salt rnd) db in (RCurrent r, db))"
| "dispatch pub rnd (CapabilitySecret kid) db = (let (r, db) = capability_secret_db kid db in (RSecret r, db))"
| "dispatch pub rnd (FindTenantByBinding kt k) db = (RTenant (find_tenant_by_binding_db kt k db), db)"
| "dispatch pub rnd TrustedClientRoots db = (RRoots (trusted_client_roots_db db), db)"

text \<open>\<open>call\<close>: the reply, or nothing when the actor cannot be reached.\<close>

definition pg_call :: "(bytes \<Rightarrow> bytes) \<Rightarrow> randomness \<Rightarrow> db_request \<Rightarrow> pg \<Rightarrow> db_reply option \<times> pg" where
  "pg_call pub rnd req db =
     (if \<not> pg_actor_up db then (None, db)
      else let (reply, db) = dispatch pub rnd req db in (Some reply, db))"

subsection \<open>The trait methods\<close>

definition no_rnd :: randomness where
  "no_rnd = \<lparr>rnd_seed = [], rnd_secret = [], rnd_salt = 0\<rparr>"

definition actor_unavailable :: store_error where
  "actor_unavailable = Other ''db request actor unavailable''"

fun reply_bool :: "bool \<Rightarrow> db_reply option \<Rightarrow> bool" where
  "reply_bool d (Some (RBool b)) = b"
| "reply_bool d _ = d"

fun reply_paths :: "db_reply option \<Rightarrow> store_path list" where
  "reply_paths (Some (RPaths ps)) = ps"
| "reply_paths _ = []"

fun reply_unit :: "db_reply option \<times> pg \<Rightarrow> (store_error, unit) res \<times> pg" where
  "reply_unit (Some (RUnit r), db) = (r, db)"
| "reply_unit (_, db) = (Err actor_unavailable, db)"

definition pg_is_valid_path :: "(bytes \<Rightarrow> bytes) \<Rightarrow> tenant_id \<Rightarrow> store_path \<Rightarrow> pg \<Rightarrow> bool" where
  "pg_is_valid_path pub t p db = reply_bool False (fst (pg_call pub no_rnd (IsValidPath t p) db))"

definition pg_query_valid_paths :: "(bytes \<Rightarrow> bytes) \<Rightarrow> tenant_id \<Rightarrow> store_path list \<Rightarrow> pg \<Rightarrow> store_path list" where
  "pg_query_valid_paths pub t ps db = reply_paths (fst (pg_call pub no_rnd (QueryValidPaths t ps) db))"

definition pg_query_all_valid_paths :: "(bytes \<Rightarrow> bytes) \<Rightarrow> tenant_id \<Rightarrow> pg \<Rightarrow> store_path list" where
  "pg_query_all_valid_paths pub t db = reply_paths (fst (pg_call pub no_rnd (QueryAllValidPaths t) db))"

definition pg_query_path_info :: "(bytes \<Rightarrow> bytes) \<Rightarrow> tenant_id \<Rightarrow> store_path \<Rightarrow> pg \<Rightarrow> path_info option" where
  "pg_query_path_info pub t p db =
     (case fst (pg_call pub no_rnd (QueryPathInfo t p) db) of Some (RInfo i) \<Rightarrow> i | _ \<Rightarrow> None)"

definition pg_query_path_from_hash_part :: "(bytes \<Rightarrow> bytes) \<Rightarrow> tenant_id \<Rightarrow> string \<Rightarrow> pg \<Rightarrow> store_path option" where
  "pg_query_path_from_hash_part pub t h db =
     (case fst (pg_call pub no_rnd (QueryPathFromHashPart t h) db) of Some (RPath p) \<Rightarrow> p | _ \<Rightarrow> None)"

definition pg_query_referrers :: "(bytes \<Rightarrow> bytes) \<Rightarrow> tenant_id \<Rightarrow> store_path \<Rightarrow> pg \<Rightarrow> store_path list" where
  "pg_query_referrers pub t p db = reply_paths (fst (pg_call pub no_rnd (QueryReferrers t p) db))"

definition pg_record_path ::
  "(bytes \<Rightarrow> bytes) \<Rightarrow> tenant_id \<Rightarrow> path_info \<Rightarrow> remote_object \<Rightarrow> tier \<Rightarrow> pg \<Rightarrow> (store_error, unit) res \<times> pg" where
  "pg_record_path pub t i ob ti db = reply_unit (pg_call pub no_rnd (RecordPath t i ob ti) db)"

definition pg_output_object :: "(bytes \<Rightarrow> bytes) \<Rightarrow> tenant_id \<Rightarrow> store_path \<Rightarrow> pg \<Rightarrow> remote_object option" where
  "pg_output_object pub t p db =
     (case fst (pg_call pub no_rnd (OutputObject t p) db) of Some (RObject x) \<Rightarrow> x | _ \<Rightarrow> None)"

definition pg_object_known :: "(bytes \<Rightarrow> bytes) \<Rightarrow> object_key \<Rightarrow> pg \<Rightarrow> bool" where
  "pg_object_known pub k db = reply_bool False (fst (pg_call pub no_rnd (ObjectKnown k) db))"

definition pg_find_verified_by_hash_part :: "(bytes \<Rightarrow> bytes) \<Rightarrow> string \<Rightarrow> pg \<Rightarrow> (path_info \<times> remote_object) option" where
  "pg_find_verified_by_hash_part pub h db =
     (case fst (pg_call pub no_rnd (FindVerifiedByHashPart h) db) of Some (RFound x) \<Rightarrow> x | _ \<Rightarrow> None)"

definition pg_add_signatures ::
  "(bytes \<Rightarrow> bytes) \<Rightarrow> tenant_id \<Rightarrow> store_path \<Rightarrow> string list \<Rightarrow> pg \<Rightarrow> (store_error, unit) res \<times> pg" where
  "pg_add_signatures pub t p sigs db = reply_unit (pg_call pub no_rnd (AddSignatures t p sigs) db)"

definition pg_query_missing :: "(bytes \<Rightarrow> bytes) \<Rightarrow> tenant_id \<Rightarrow> store_path list \<Rightarrow> pg \<Rightarrow> missing_paths" where
  "pg_query_missing pub t ps db =
     (case fst (pg_call pub no_rnd (QueryMissing t ps) db) of Some (RMissing x) \<Rightarrow> x | _ \<Rightarrow> no_missing)"

definition pg_register_tenant :: "(bytes \<Rightarrow> bytes) \<Rightarrow> tenant \<Rightarrow> pg \<Rightarrow> (store_error, unit) res \<times> pg" where
  "pg_register_tenant pub t db = reply_unit (pg_call pub no_rnd (RegisterTenant t) db)"

definition pg_signer :: "(bytes \<Rightarrow> bytes) \<Rightarrow> tenant_id \<Rightarrow> bytes \<Rightarrow> pg \<Rightarrow> local_signer option \<times> pg" where
  "pg_signer pub t seed db =
     (case pg_call pub (no_rnd\<lparr>rnd_seed := seed\<rparr>) (GetSigner t) db of
        (Some (RSigner x), db) \<Rightarrow> (x, db) | (_, db) \<Rightarrow> (None, db))"

definition pg_tier :: "(bytes \<Rightarrow> bytes) \<Rightarrow> tenant_id \<Rightarrow> store_path \<Rightarrow> pg \<Rightarrow> tier option" where
  "pg_tier pub t p db = (case fst (pg_call pub no_rnd (GetTier t p) db) of Some (RTier x) \<Rightarrow> x | _ \<Rightarrow> None)"

definition pg_reject_unverified_pushes :: "(bytes \<Rightarrow> bytes) \<Rightarrow> tenant_id \<Rightarrow> pg \<Rightarrow> bool" where
  "pg_reject_unverified_pushes pub t db = reply_bool True (fst (pg_call pub no_rnd (RejectUnverifiedPushes t) db))"

definition pg_trusted_substituters :: "(bytes \<Rightarrow> bytes) \<Rightarrow> tenant_id \<Rightarrow> pg \<Rightarrow> (string \<times> string) list" where
  "pg_trusted_substituters pub t db =
     (case fst (pg_call pub no_rnd (TrustedSubstituters t) db) of Some (RPairs x) \<Rightarrow> x | _ \<Rightarrow> [])"

definition pg_record_substituted_path ::
  "(bytes \<Rightarrow> bytes) \<Rightarrow> tenant_id \<Rightarrow> path_info \<Rightarrow> remote_object \<Rightarrow> string \<Rightarrow> string \<Rightarrow> pg \<Rightarrow> (store_error, unit) res \<times> pg" where
  "pg_record_substituted_path pub t i ob url key db =
     reply_unit (pg_call pub no_rnd (RecordSubstitutedPath t i ob url key) db)"

definition pg_find_substituted_by_hash_part ::
  "(bytes \<Rightarrow> bytes) \<Rightarrow> string \<Rightarrow> pg \<Rightarrow> (path_info \<times> remote_object \<times> string \<times> string) option" where
  "pg_find_substituted_by_hash_part pub h db =
     (case fst (pg_call pub no_rnd (FindSubstitutedByHashPart h) db) of Some (RSubstituted x) \<Rightarrow> x | _ \<Rightarrow> None)"

definition pg_substituted_source :: "(bytes \<Rightarrow> bytes) \<Rightarrow> tenant_id \<Rightarrow> store_path \<Rightarrow> pg \<Rightarrow> (string \<times> string) option" where
  "pg_substituted_source pub t p db =
     (case fst (pg_call pub no_rnd (SubstitutedSource t p) db) of Some (RSource x) \<Rightarrow> x | _ \<Rightarrow> None)"

definition pg_substituter_negative_cache_hit :: "(bytes \<Rightarrow> bytes) \<Rightarrow> tenant_id \<Rightarrow> string \<Rightarrow> pg \<Rightarrow> bool" where
  "pg_substituter_negative_cache_hit pub t h db =
     reply_bool False (fst (pg_call pub no_rnd (SubstituterNegativeCacheHit t h) db))"

definition pg_mark_substituter_miss :: "(bytes \<Rightarrow> bytes) \<Rightarrow> tenant_id \<Rightarrow> string \<Rightarrow> pg \<Rightarrow> pg" where
  "pg_mark_substituter_miss pub t h db = snd (pg_call pub no_rnd (MarkSubstituterMiss t h) db)"

definition pg_record_access :: "(bytes \<Rightarrow> bytes) \<Rightarrow> tenant_id \<Rightarrow> store_path \<Rightarrow> pg \<Rightarrow> pg" where
  "pg_record_access pub t p db = snd (pg_call pub no_rnd (RecordAccess t p) db)"

definition pg_reserve_job ::
  "(bytes \<Rightarrow> bytes) \<Rightarrow> tenant_id \<Rightarrow> uuid \<Rightarrow> store_path \<Rightarrow> string \<Rightarrow> nat \<Rightarrow> pg \<Rightarrow> reservation \<times> pg" where
  "pg_reserve_job pub t j d sys ret db =
     (case pg_call pub no_rnd (ReserveJob t j d sys ret) db of
        (Some (RReservation r), db) \<Rightarrow> (r, db) | (_, db) \<Rightarrow> (Won, db))"

definition pg_record_job_outcome ::
  "(bytes \<Rightarrow> bytes) \<Rightarrow> tenant_id \<Rightarrow> uuid \<Rightarrow> store_path \<Rightarrow> string \<Rightarrow> job_outcome \<Rightarrow> pg \<Rightarrow> pg" where
  "pg_record_job_outcome pub t j d sys oc db = snd (pg_call pub no_rnd (RecordJobOutcome t j d sys oc) db)"

definition pg_current_capability_secret :: "(bytes \<Rightarrow> bytes) \<Rightarrow> bytes \<Rightarrow> u32 \<Rightarrow> pg \<Rightarrow> (u64 \<times> bytes) \<times> pg" where
  "pg_current_capability_secret pub fresh salt db =
     (case pg_call pub (no_rnd\<lparr>rnd_secret := fresh, rnd_salt := salt\<rparr>) CurrentCapabilitySecret db of
        (Some (RCurrent r), db) \<Rightarrow> (r, db)
      | (_, db) \<Rightarrow> ((0x8000000000000000 OR ucast salt, fresh), db))"

definition pg_capability_secret :: "(bytes \<Rightarrow> bytes) \<Rightarrow> u64 \<Rightarrow> pg \<Rightarrow> bytes option \<times> pg" where
  "pg_capability_secret pub kid db =
     (case pg_call pub no_rnd (CapabilitySecret kid) db of (Some (RSecret r), db) \<Rightarrow> (r, db) | (_, db) \<Rightarrow> (None, db))"

definition pg_find_tenant_by_binding ::
  "(bytes \<Rightarrow> bytes) \<Rightarrow> key_type \<Rightarrow> string \<Rightarrow> pg \<Rightarrow> (store_error, tenant_id option) res" where
  "pg_find_tenant_by_binding pub kt k db =
     (case fst (pg_call pub no_rnd (FindTenantByBinding kt k) db) of Some (RTenant r) \<Rightarrow> r | _ \<Rightarrow> Err actor_unavailable)"

definition pg_trusted_client_roots :: "(bytes \<Rightarrow> bytes) \<Rightarrow> pg \<Rightarrow> (store_error, bytes list) res" where
  "pg_trusted_client_roots pub db =
     (case fst (pg_call pub no_rnd TrustedClientRoots db) of Some (RRoots r) \<Rightarrow> r | _ \<Rightarrow> Err actor_unavailable)"

definition postgres_ops :: "(bytes \<Rightarrow> bytes) \<Rightarrow> pg store_ops" where
  "postgres_ops pub = \<lparr>
     op_is_valid_path = pg_is_valid_path pub, op_query_valid_paths = pg_query_valid_paths pub,
     op_query_all_valid_paths = pg_query_all_valid_paths pub, op_query_path_info = pg_query_path_info pub,
     op_query_path_from_hash_part = pg_query_path_from_hash_part pub, op_query_referrers = pg_query_referrers pub,
     op_record_path = pg_record_path pub, op_output_object = pg_output_object pub,
     op_object_known = pg_object_known pub, op_find_verified_by_hash_part = pg_find_verified_by_hash_part pub,
     op_record_substituted_path = pg_record_substituted_path pub,
     op_find_substituted_by_hash_part = pg_find_substituted_by_hash_part pub,
     op_substituted_source = pg_substituted_source pub, op_add_signatures = pg_add_signatures pub,
     op_query_missing = pg_query_missing pub, op_tier = pg_tier pub, op_signer = pg_signer pub,
     op_reject_unverified_pushes = pg_reject_unverified_pushes pub,
     op_trusted_substituters = pg_trusted_substituters pub,
     op_substituter_negative_cache_hit = pg_substituter_negative_cache_hit pub,
     op_mark_substituter_miss = pg_mark_substituter_miss pub, op_record_access = pg_record_access pub,
     op_reserve_job = pg_reserve_job pub, op_record_job_outcome = pg_record_job_outcome pub,
     op_register_tenant = pg_register_tenant pub\<rparr>"

definition postgres_secret_ops :: "(bytes \<Rightarrow> bytes) \<Rightarrow> pg secret_ops" where
  "postgres_secret_ops pub = \<lparr>op_current_capability_secret = pg_current_capability_secret pub,
     op_capability_secret = pg_capability_secret pub\<rparr>"

subsection \<open>The contract\<close>

named_theorems pg_ops "the trait methods over the database functions"

lemma pg_reads [pg_ops]:
  "pg_is_valid_path pub t p db = (pg_actor_up db \<and> is_valid_path_db t p db)"
  "pg_query_path_info pub t p db = (if pg_actor_up db then query_path_info_db t p db else None)"
  "pg_query_path_from_hash_part pub t h db = (if pg_actor_up db then query_path_from_hash_part_db t h db else None)"
  "pg_output_object pub t p db = (if pg_actor_up db then output_object_db t p db else None)"
  "pg_find_verified_by_hash_part pub h db = (if pg_actor_up db then find_verified_by_hash_part_db h db else None)"
  "pg_tier pub t p db = (if pg_actor_up db then tier_db t p db else None)"
  "pg_reject_unverified_pushes pub t db = (pg_actor_up db \<longrightarrow> reject_unverified_pushes_db t db)"
  "pg_object_known pub k db = (pg_actor_up db \<and> object_known_db k db)"
  by (simp_all add: pg_is_valid_path_def pg_query_path_info_def pg_query_path_from_hash_part_def
      pg_output_object_def pg_find_verified_by_hash_part_def pg_tier_def pg_reject_unverified_pushes_def
      pg_object_known_def pg_call_def)

lemma pg_writes [pg_ops]:
  "pg_record_path pub t i ob ti db =
     (if pg_actor_up db then upsert_path_inner t i ob ti None db else (Err actor_unavailable, db))"
  "pg_signer pub t seed db = (if pg_actor_up db then signer_db pub t seed db else (None, db))"
  "pg_reserve_job pub t j d sys ret db =
     (if pg_actor_up db then reserve_job_db (\<lambda>_ db. db) t j d sys ret db else (Won, db))"
  "pg_record_job_outcome pub t j d sys oc db = (if pg_actor_up db then record_job_outcome_db t j d sys oc db else db)"
  "pg_current_capability_secret pub fresh salt db =
     (if pg_actor_up db then current_capability_secret_db fresh salt db
      else ((0x8000000000000000 OR ucast salt, fresh), db))"
  "pg_capability_secret pub kid db = (if pg_actor_up db then capability_secret_db kid db else (None, db))"
  by (simp_all add: pg_record_path_def pg_signer_def pg_reserve_job_def pg_record_job_outcome_def
      pg_current_capability_secret_def pg_capability_secret_def pg_call_def record_path_db_def no_rnd_def Let_def
      split: prod.splits)

lemma pg_substitution [pg_ops]:
  "pg_record_substituted_path pub t i ob url key db =
     (if pg_actor_up db then upsert_path_inner t i ob Substituted (Some (url, key)) db else (Err actor_unavailable, db))"
  "pg_find_substituted_by_hash_part pub h db = (if pg_actor_up db then find_substituted_by_hash_part_db h db else None)"
  "pg_trusted_substituters pub t db = (if pg_actor_up db then trusted_substituters_db t db else [])"
  "pg_substituter_negative_cache_hit pub t h db \<longleftrightarrow> pg_actor_up db \<and> substituter_negative_cache_hit_db t h db"
  by (simp_all add: pg_record_substituted_path_def pg_find_substituted_by_hash_part_def pg_trusted_substituters_def
      pg_substituter_negative_cache_hit_def pg_call_def record_substituted_path_db_def split: prod.splits)

lemma pg_view_calls [pg_ops]:
  "pg_query_valid_paths pub t ps db = (if pg_actor_up db then query_valid_paths_db t ps db else [])"
  "pg_query_all_valid_paths pub t db = (if pg_actor_up db then query_all_valid_paths_db t db else [])"
  "pg_query_referrers pub t p db = (if pg_actor_up db then query_referrers_db t p db else [])"
  "pg_query_missing pub t ps db = (if pg_actor_up db then query_missing_db t ps db else no_missing)"
  "pg_substituted_source pub t p db = (if pg_actor_up db then substituted_source_db t p db else None)"
  "pg_add_signatures pub t p sigs db = (if pg_actor_up db then add_signatures_db t p sigs db else (Err actor_unavailable, db))"
  "pg_register_tenant pub tn db = (if pg_actor_up db then ensure_tenant tn db else (Err actor_unavailable, db))"
  "pg_record_access pub t p db = (if pg_actor_up db then record_access_db t p db else db)"
  "pg_mark_substituter_miss pub t h db = (if pg_actor_up db then mark_substituter_miss_db t h db else db)"
  "pg_find_tenant_by_binding pub kt k db = (if pg_actor_up db then find_tenant_by_binding_db kt k db else Err actor_unavailable)"
  "pg_trusted_client_roots pub db = (if pg_actor_up db then trusted_client_roots_db db else Err actor_unavailable)"
  by (simp_all add: pg_query_valid_paths_def pg_query_all_valid_paths_def pg_query_referrers_def pg_query_missing_def
      pg_substituted_source_def pg_add_signatures_def pg_register_tenant_def pg_record_access_def pg_mark_substituter_miss_def
      pg_find_tenant_by_binding_def pg_trusted_client_roots_def pg_call_def split: prod.splits)

lemma valid_iff_db:
  "is_valid_path_db t p db \<longleftrightarrow> query_path_info_db t p db \<noteq> None"
  "is_valid_path_db t p db \<longleftrightarrow> tier_db t p db \<noteq> None"
  by (simp_all add: is_valid_path_db_def query_path_info_db_def tier_db_def on_db_def split: option.splits)

lemma from_hash_part_db:
  assumes "pg_inv db" and "query_path_from_hash_part_db t h db = Some p"
  shows "is_valid_path_db t p db"
proof -
  obtain row where up: "pg_fault db = None" and p: "p = snd (fst row)"
      and f: "find (\<lambda>row. fst (fst row) = t \<and> pr_hash_part (snd row) = h) (store_paths_live (TenantScope t) db) = Some row"
    using assms(2) by (auto simp: query_path_from_hash_part_db_def on_db_def split: option.splits)
  have mem: "row \<in> set (store_paths_live (TenantScope t) db)" and "fst (fst row) = t"
    using find_Some_mem [OF f] by simp_all
  then have "row = ((t, p), snd row)" using p by (simp add: prod_eq_iff)
  with mem have "((t, p), snd row) \<in> set (pg_store_paths db)" and "pr_state (snd row) = Live"
    unfolding store_paths_live_def by simp_all
  then have "live_row t p db = Some ((t, p), snd row)"
    using assms(1) by (simp add: live_row_eq) (simp add: pg_inv_def)
  then show ?thesis using up by (simp add: is_valid_path_db_def on_db_def)
qed

lemma query_path_info_db_path: "pg_inv db \<Longrightarrow> query_path_info_db t p db = Some info \<Longrightarrow> pi_path info = p"
  by (auto simp: query_path_info_db_def on_db_def live_row_eq row_to_info_def split: option.splits if_splits)

lemma upsert_actor: "upsert_path_inner t i ob ti src db = (r, db') \<Longrightarrow> pg_actor_up db' = pg_actor_up db"
  using upsert_ok [of db t i ob ti src r db'] upsert_fault [of db _ t i ob ti src r db']
  by (cases "pg_fault db") auto

interpretation postgres: path_store "postgres_ops pub" pg_inv for pub
proof
  fix s t info obj ti s' t' p r and u :: unit and seed sg h
  assume inv: "pg_inv s"
  show "op_is_valid_path (postgres_ops pub) t p s \<longleftrightarrow> op_query_path_info (postgres_ops pub) t p s \<noteq> None"
    and "op_is_valid_path (postgres_ops pub) t p s \<longleftrightarrow> op_tier (postgres_ops pub) t p s \<noteq> None"
    using valid_iff_db by (simp_all add: postgres_ops_def pg_ops)
  show "pg_inv (snd (op_signer (postgres_ops pub) t seed s))"
    using inv by (simp add: postgres_ops_def pg_ops pg_inv_def)
  { assume "wf_object obj"
    then show "pg_inv (snd (op_record_path (postgres_ops pub) t info obj ti s))"
      using inv upsert_inv by (cases "upsert_path_inner t info obj ti None s") (auto simp: postgres_ops_def pg_ops) }
  { assume "wf_object obj" and rec: "op_record_path (postgres_ops pub) t info obj ti s = (Ok u, s')"
    then have up: "pg_actor_up s" and "upsert_path_inner t info obj ti None s = (Ok u, s')"
      by (auto simp: postgres_ops_def pg_ops split: if_splits)
    then show "op_query_path_info (postgres_ops pub) t (pi_path info) s' = Some info \<and>
        op_tier (postgres_ops pub) t (pi_path info) s' = Some ti \<and>
        map_option ro_key (op_output_object (postgres_ops pub) t (pi_path info) s') = Some (ro_key obj)"
      using upsert_query [OF inv \<open>wf_object obj\<close>] upsert_actor by (fastforce simp: postgres_ops_def pg_ops) }
  { assume "op_record_path (postgres_ops pub) t info obj ti s = (r, s')" "(t', p) \<noteq> (t, pi_path info) \<or> r \<noteq> Ok ()"
    then show "op_query_path_info (postgres_ops pub) t' p s' = op_query_path_info (postgres_ops pub) t' p s \<and>
        op_tier (postgres_ops pub) t' p s' = op_tier (postgres_ops pub) t' p s"
      using upsert_frame [OF inv] upsert_actor
      by (cases "pg_actor_up s") (auto simp: postgres_ops_def pg_ops) }
  { assume "op_query_path_info (postgres_ops pub) t p s = Some info"
    then show "pi_path info = p"
      using query_path_info_db_path [OF inv] by (auto simp: postgres_ops_def pg_ops split: if_splits) }
  { assume "op_query_path_from_hash_part (postgres_ops pub) t h s = Some p"
    then show "op_is_valid_path (postgres_ops pub) t p s"
      using from_hash_part_db [OF inv] by (auto simp: postgres_ops_def pg_ops split: if_splits) }
  { assume "op_find_verified_by_hash_part (postgres_ops pub) h s = Some (info, obj)"
    then show "\<exists>t. op_tier (postgres_ops pub) t (pi_path info) s = Some Verified \<and>
        op_query_path_info (postgres_ops pub) t (pi_path info) s = Some info \<and> wf_object obj"
      using find_verified_db_Some [OF inv] by (auto simp: postgres_ops_def pg_ops split: if_splits) }
  { assume "op_signer (postgres_ops pub) t seed s = (sg, s')"
    then have "pg_store_paths s' = pg_store_paths s" "pg_fault s' = pg_fault s" "pg_actor_up s' = pg_actor_up s"
      using signer_db_frame [of pub t seed s]
      by (cases "signer_db pub t seed s"; auto simp: postgres_ops_def pg_ops split: if_splits)+
    then show "op_query_path_info (postgres_ops pub) t' p s' = op_query_path_info (postgres_ops pub) t' p s \<and>
        op_tier (postgres_ops pub) t' p s' = op_tier (postgres_ops pub) t' p s"
      using live_row_cong [of s' s]
      by (simp add: postgres_ops_def pg_ops query_path_info_db_def tier_db_def on_db_def) }
qed

lemma upsert_output_object:
  assumes "pg_inv db" and "wf_object ob" and "upsert_path_inner t info ob ti src db = (Ok u, db')"
  shows "map_of (pg_objects db) (ro_key ob) = None \<Longrightarrow> output_object_db t (pi_path info) db' = Some ob"
    and "object_known_db (ro_key ob) db'" and "map_option ro_key (output_object_db t (pi_path info) db') = Some (ro_key ob)"
proof -
  have "pg_fault db = None" using upsert_fault [OF _ assms(3)] by (cases "pg_fault db") auto
  note up = upsert_ok [OF this assms(3)]
  have inv: "pg_inv db'" by (rule upsert_inv [OF assms])
  have row: "live_row t (pi_path info) db' = Some ((t, pi_path info), stored_row info ob ti src (pg_now db))"
    using up by (simp add: live_row_eq [OF inv] update_conv' stored_row_def)
  have cols: "pr_object_key (stored_row info ob ti src (pg_now db)) = Some (ro_key ob)" by (simp add: stored_row_def)
  have fault: "pg_fault db' = None" using up by simp
  show "object_known_db (ro_key ob) db'"
    using up fault by (cases "map_of (pg_objects db) (ro_key ob)") (auto simp: update_conv' object_known_db_def on_db_def)
  then obtain r where r: "map_of (pg_objects db') (ro_key ob) = Some r" using fault by (auto simp: object_known_db_def on_db_def)
  then obtain ob' where "object_of_row (ro_key ob) r = Some ob'" using inv unfolding pg_inv_def by blast
  then show "map_option ro_key (output_object_db t (pi_path info) db') = Some (ro_key ob)"
    using row cols fault r
    by (auto simp: output_object_db_def on_db_def joined_object_def object_of_row_def split: if_splits res.splits)
  assume "map_of (pg_objects db) (ro_key ob) = None"
  then show "output_object_db t (pi_path info) db' = Some ob"
    using row cols fault up assms(2)
    by (simp add: output_object_db_def on_db_def joined_object_def update_conv' object_of_row_def wf_object_def)
qed

interpretation postgres_objects: object_catalog "postgres_ops pub" pg_inv for pub
proof
  fix s t info obj ti s' k seed sg and u :: unit
  assume inv: "pg_inv s"
  { assume wf: "wf_object obj" and "op_record_path (postgres_ops pub) t info obj ti s = (Ok u, s')"
    then have up: "pg_actor_up s" and rec: "upsert_path_inner t info obj ti None s = (Ok u, s')"
      by (auto simp: postgres_ops_def pg_ops split: if_splits)
    have ok: "pg_fault s = None" using upsert_fault [OF _ rec] by (cases "pg_fault s") auto
    show "op_object_known (postgres_ops pub) (ro_key obj) s'"
      using upsert_output_object(2) [OF inv wf rec] upsert_actor [OF rec] up by (simp add: postgres_ops_def pg_ops)
    show "map_option ro_key (op_output_object (postgres_ops pub) t (pi_path info) s') = Some (ro_key obj)"
      using upsert_output_object(3) [OF inv wf rec] upsert_actor [OF rec] up by (simp add: postgres_ops_def pg_ops)
    assume "\<not> op_object_known (postgres_ops pub) (ro_key obj) s"
    then show "op_output_object (postgres_ops pub) t (pi_path info) s' = Some obj"
      using upsert_output_object(1) [OF inv wf rec] upsert_actor [OF rec] up ok
      by (simp add: postgres_ops_def pg_ops object_known_db_def on_db_def) }
  { assume "op_signer (postgres_ops pub) t seed s = (sg, s')"
    then have "pg_objects s' = pg_objects s" "pg_fault s' = pg_fault s" "pg_actor_up s' = pg_actor_up s"
      using signer_db_frame [of pub t seed s]
      by (cases "signer_db pub t seed s"; auto simp: postgres_ops_def pg_ops split: if_splits)+
    then show "op_object_known (postgres_ops pub) k s' = op_object_known (postgres_ops pub) k s"
      by (simp add: postgres_ops_def pg_ops object_known_db_def on_db_def) }
qed

lemma outage_reads:
  assumes "pg_fault db \<noteq> None \<or> \<not> pg_actor_up db"
  shows "\<not> pg_is_valid_path pub t p db \<and> pg_query_valid_paths pub t ps db = [] \<and> pg_query_all_valid_paths pub t db = [] \<and>
      pg_query_path_info pub t p db = None \<and> pg_query_path_from_hash_part pub t h db = None \<and> pg_query_referrers pub t p db = []"
    and "pg_output_object pub t p db = None \<and> \<not> pg_object_known pub key db \<and> pg_find_verified_by_hash_part pub h db = None \<and>
      pg_find_substituted_by_hash_part pub h db = None \<and> pg_substituted_source pub t p db = None \<and> pg_tier pub t p db = None \<and>
      pg_trusted_substituters pub t db = [] \<and> \<not> pg_substituter_negative_cache_hit pub t h db"
    and "pg_query_missing pub t ps db = no_missing\<lparr>will_build := (if pg_actor_up db then ps else [])\<rparr>"
    and "pg_signer pub t seed db = (None, db) \<and> pg_reject_unverified_pushes pub t db"
  using assms
  by (auto simp: pg_ops on_db_def is_valid_path_db_def query_valid_paths_db_def query_all_valid_paths_db_def query_path_info_db_def
      query_path_from_hash_part_db_def query_referrers_db_def output_object_db_def object_known_db_def find_verified_by_hash_part_db_def
      find_substituted_by_hash_part_db_def substituted_source_db_def tier_db_def trusted_substituters_db_def
      substituter_negative_cache_hit_db_def query_missing_db_def no_missing_def signer_db_def ensure_tenant_id_def
      reject_unverified_pushes_db_def)

lemma outage_writes:
  assumes "pg_fault db \<noteq> None \<or> \<not> pg_actor_up db"
  shows "\<exists>e. pg_find_tenant_by_binding pub kt k db = Err e \<and> pg_trusted_client_roots pub db = Err e \<and>
      pg_record_path pub t info ob ti db = (Err e, db) \<and> pg_record_substituted_path pub t info ob url pk db = (Err e, db) \<and>
      pg_add_signatures pub t p sigs db = (Err e, db) \<and> pg_register_tenant pub tn db = (Err e, db)"
    and "pg_reserve_job pub t j d sys ret db = (Won, db) \<and> pg_record_access pub t p db = db \<and>
      pg_mark_substituter_miss pub t h db = db \<and> pg_record_job_outcome pub t j d sys oc db = db"
  using assms
  by (auto simp: pg_ops on_db_def find_tenant_by_binding_db_def trusted_client_roots_db_def upsert_path_inner_def add_signatures_db_def
      ensure_tenant_def ensure_tenant_id_def reserve_job_db_def record_access_db_def mark_substituter_miss_db_def record_job_outcome_db_def)

lemma outage_secrets:
  assumes "pg_fault db \<noteq> None \<or> \<not> pg_actor_up db"
  shows "pg_capability_secret pub kid db = (if pg_actor_up db then map_of (sc_by_kid (pg_cache db)) kid else None, db)"
    and "pg_current_capability_secret pub fresh salt db =
      (let made_up = 0x8000000000000000 OR ucast salt in
       if \<not> pg_actor_up db then ((made_up, fresh), db)
       else case sc_current (pg_cache db) of
              Some (at, kid, secret) \<Rightarrow> if pg_now db - at < CAPABILITY_SECRET_CACHE_TTL then ((kid, secret), db)
                else ((made_up, fresh), remember_secret made_up fresh db)
            | None \<Rightarrow> ((made_up, fresh), remember_secret made_up fresh db))"
  using assms
  by (auto simp: pg_ops on_db_def capability_secret_db_def current_capability_secret_db_def refresh_secret_def Let_def split: option.splits)

text \<open>
  C37: What every method of the store answers while the database cannot be reached or the actor is gone.
  A question is answered as if nothing were there; no signer is handed out and an unverifiable push is
  refused; a credential or the trusted roots resolve to an error; a write that reports reports an error; and
  no row changes. Not everything is denied: a reservation is answered with \<open>Won\<close>, so that builds go on
  unreserved; an access, a miss and a job outcome are lost without a word; a plan asks for every path to be
  built when the query fails, and for none when the actor is gone. Capability secrets already cached are
  still served, and a new one is made up when none is current: kept in the cache while the actor runs, used
  once when it is gone.
\<close>

theorem postgres_outage_answers:
  assumes "pg_fault db \<noteq> None \<or> \<not> pg_actor_up db"
  shows "(\<not> pg_is_valid_path pub t p db \<and> pg_query_valid_paths pub t ps db = [] \<and> pg_query_all_valid_paths pub t db = [] \<and>
      pg_query_path_info pub t p db = None \<and> pg_query_path_from_hash_part pub t h db = None \<and> pg_query_referrers pub t p db = []) \<and>
    (pg_output_object pub t p db = None \<and> \<not> pg_object_known pub key db \<and> pg_find_verified_by_hash_part pub h db = None \<and>
      pg_find_substituted_by_hash_part pub h db = None \<and> pg_substituted_source pub t p db = None \<and> pg_tier pub t p db = None \<and>
      pg_trusted_substituters pub t db = [] \<and> \<not> pg_substituter_negative_cache_hit pub t h db) \<and>
    pg_query_missing pub t ps db = no_missing\<lparr>will_build := (if pg_actor_up db then ps else [])\<rparr> \<and>
    (pg_signer pub t seed db = (None, db) \<and> pg_reject_unverified_pushes pub t db) \<and>
    (\<exists>e. pg_find_tenant_by_binding pub kt k db = Err e \<and> pg_trusted_client_roots pub db = Err e \<and>
      pg_record_path pub t info ob ti db = (Err e, db) \<and> pg_record_substituted_path pub t info ob url pk db = (Err e, db) \<and>
      pg_add_signatures pub t p sigs db = (Err e, db) \<and> pg_register_tenant pub tn db = (Err e, db)) \<and>
    (pg_reserve_job pub t j d sys ret db = (Won, db) \<and> pg_record_access pub t p db = db \<and>
      pg_mark_substituter_miss pub t h db = db \<and> pg_record_job_outcome pub t j d sys oc db = db) \<and>
    pg_capability_secret pub kid db = (if pg_actor_up db then map_of (sc_by_kid (pg_cache db)) kid else None, db) \<and>
    pg_current_capability_secret pub fresh salt db =
      (let made_up = 0x8000000000000000 OR ucast salt in
       if \<not> pg_actor_up db then ((made_up, fresh), db)
       else case sc_current (pg_cache db) of
              Some (at, kid, secret) \<Rightarrow> if pg_now db - at < CAPABILITY_SECRET_CACHE_TTL then ((kid, secret), db)
                else ((made_up, fresh), remember_secret made_up fresh db)
            | None \<Rightarrow> ((made_up, fresh), remember_secret made_up fresh db))"
  by (intro conjI outage_reads [OF assms] outage_writes [OF assms] outage_secrets [OF assms])

theorem postgres_outage_answers_witness:
  "(let db = pg_empty\<lparr>pg_fault := Some ''timeout''\<rparr>; t = TenantId ''a''; p = StorePath ''p'' in
    \<not> pg_is_valid_path id t p db \<and> fst (pg_signer id t [] db) = None \<and> pg_reject_unverified_pushes id t db \<and>
    pg_query_missing id t [p] db = no_missing\<lparr>will_build := [p]\<rparr> \<and> pg_reserve_job id t 1 p ''x'' 60 db = (Won, db))"
  unfolding Let_def using postgres_outage_answers [of "pg_empty\<lparr>pg_fault := Some ''timeout''\<rparr>" id "TenantId ''a''" "StorePath ''p''" "[StorePath ''p'']"]
  by (auto simp: pg_empty_def)

subsection \<open>Capability secrets\<close>

text \<open>What is cached as current is also cached under its id, and every secret has 32 bytes.\<close>

definition pg_secret_inv :: "pg \<Rightarrow> bool" where
  "pg_secret_inv db \<longleftrightarrow> pg_actor_up db \<and>
     (\<forall>kid s. map_of (sc_by_kid (pg_cache db)) kid = Some s \<longrightarrow> length s = 32) \<and>
     (\<forall>at kid s. sc_current (pg_cache db) = Some (at, kid, s) \<longrightarrow> map_of (sc_by_kid (pg_cache db)) kid = Some s)"

lemma remember_secret_inv: "pg_secret_inv db \<Longrightarrow> length s = 32 \<Longrightarrow> pg_secret_inv (remember_secret kid s db)"
  by (auto simp: pg_secret_inv_def remember_secret_def update_conv' split: if_splits)

lemma remember_secret_cached: "map_of (sc_by_kid (pg_cache (remember_secret kid s db))) kid = Some s"
  by (simp add: remember_secret_def update_conv')

lemma latest_secret_length: "latest_secret db = Some (kid, s) \<Longrightarrow> length s = 32"
  by (auto simp: latest_secret_def Let_def Option.bind_eq_Some_conv split: list.splits if_splits)

lemma current_secret_db:
  assumes "pg_secret_inv db" and "length fresh = 32" and "current_capability_secret_db fresh salt db = ((kid, s), db')"
  shows "pg_secret_inv db' \<and> map_of (sc_by_kid (pg_cache db')) kid = Some s"
proof -
  have seq: "pg_secret_inv (db\<lparr>pg_kid_seq := a, pg_capability_secrets := b\<rparr>)" for a b
    using assms(1) by (simp add: pg_secret_inv_def)
  have refresh: "pg_secret_inv x \<and> map_of (sc_by_kid (pg_cache x)) k = Some y"
    if "refresh_secret fresh salt db = ((k, y), x)" for k x y
    using that assms(1,2) seq latest_secret_length [of db]
    by (auto simp: refresh_secret_def Let_def on_db_def remember_secret_cached split: option.splits if_splits
        intro!: remember_secret_inv)
  show ?thesis
  proof (cases "sc_current (pg_cache db)")
    case None
    then show ?thesis using assms(3) refresh by (simp add: current_capability_secret_db_def)
  next
    case (Some c)
    then show ?thesis using assms(1,3) refresh
      by (cases c) (auto simp: current_capability_secret_db_def pg_secret_inv_def split: if_splits)
  qed
qed

interpretation postgres_secrets: secret_store "postgres_secret_ops pub" pg_secret_inv for pub
proof
  fix s s' :: pg and fresh secret :: bytes and salt kid
  assume inv: "pg_secret_inv s"
  then have up: "pg_actor_up s" by (simp add: pg_secret_inv_def)
  show "pg_secret_inv (snd (op_capability_secret (postgres_secret_ops pub) kid s))"
    using inv up by (auto simp: postgres_secret_ops_def pg_ops capability_secret_db_def pg_secret_inv_def update_conv'
        on_db_def split: option.splits if_splits)
  { assume "length fresh = 32"
    then show "pg_secret_inv (snd (op_current_capability_secret (postgres_secret_ops pub) fresh salt s))"
      using current_secret_db [OF inv] up
      by (cases "current_capability_secret_db fresh salt s") (auto simp: postgres_secret_ops_def pg_ops) }
  { assume "length fresh = 32" and "op_current_capability_secret (postgres_secret_ops pub) fresh salt s = ((kid, secret), s')"
    then have "pg_secret_inv s' \<and> map_of (sc_by_kid (pg_cache s')) kid = Some secret"
      using current_secret_db [OF inv] up by (auto simp: postgres_secret_ops_def pg_ops)
    then show "fst (op_capability_secret (postgres_secret_ops pub) kid s') = Some secret"
      by (simp add: postgres_secret_ops_def pg_ops pg_secret_inv_def capability_secret_db_def) }
  { assume "fst (op_capability_secret (postgres_secret_ops pub) kid s) = Some secret"
    then show "length secret = 32"
      using inv up by (auto simp: postgres_secret_ops_def pg_ops capability_secret_db_def pg_secret_inv_def
          split: option.splits if_splits) }
qed

end
