(* ===== verification/Reservations.thy ===== *)
theory Reservations
  imports PostgresActor
begin

text \<open>
  What the jobs table guarantees (\<open>reserve_job_db\<close> and \<open>record_job_outcome_db\<close>
  of \<open>crates/server/src/postgres_store.rs\<close>): a reservation that is won holds the one running row of its
  tenant and derivation, whatever other connections do in between and unless the database fails, the second
  request for a derivation attaches to the first, and the slot is freed by the outcome.
\<close>

definition runs :: "tenant_id \<Rightarrow> store_path \<Rightarrow> job_row \<Rightarrow> bool" where
  "runs t d r \<longleftrightarrow> jb_tenant r = t \<and> jb_derivation_path r = d \<and> jb_status r = ''running''"

definition jobs_inv :: "pg \<Rightarrow> bool" where
  "jobs_inv db \<longleftrightarrow> distinct (map fst (pg_jobs db)) \<and>
     (\<forall>t d i r j r'. (i, r) \<in> set (pg_jobs db) \<longrightarrow> runs t d r \<longrightarrow> (j, r') \<in> set (pg_jobs db) \<longrightarrow> runs t d r' \<longrightarrow> i = j)"

lemma running_for_eq: "running_for t d db = find (\<lambda>(_, r). runs t d r) (pg_jobs db)"
  by (simp add: running_for_def runs_def)

lemma running_for_None: "running_for t d db = None \<longleftrightarrow> (\<forall>(i, r) \<in> set (pg_jobs db). \<not> runs t d r)"
  by (auto simp: running_for_eq find_None_iff)

lemma running_for_SomeD:
  "running_for t d db = Some (i, r) \<Longrightarrow> (i, r) \<in> set (pg_jobs db) \<and> runs t d r"
  by (auto simp: running_for_eq dest: find_Some_mem)

lemma running_for_SomeI:
  assumes "jobs_inv db" and "(i, r) \<in> set (pg_jobs db)" and "runs t d r"
  shows "running_for t d db = Some (i, r)"
proof (cases "running_for t d db")
  case None
  then show ?thesis using assms(2,3) by (auto simp: running_for_None)
next
  case (Some x)
  obtain j r' where x: "x = (j, r')" by (cases x)
  then have j: "(j, r') \<in> set (pg_jobs db)" "runs t d r'" using running_for_SomeD Some by blast+
  then have "j = i" using assms unfolding jobs_inv_def by blast
  then have "r' = r" using assms(1,2) j(1) by (metis jobs_inv_def eq_key_imp_eq_value)
  then show ?thesis using Some x \<open>j = i\<close> by simp
qed


text \<open>Stealing renames one row's key and changes only columns that say nothing about who runs what.\<close>

definition rekey :: "uuid \<Rightarrow> uuid \<Rightarrow> (job_row \<Rightarrow> job_row) \<Rightarrow> (uuid \<times> job_row) list \<Rightarrow> (uuid \<times> job_row) list" where
  "rekey old new f jobs = map (\<lambda>(i, x). if i = old then (new, f x) else (i, x)) jobs"

lemma rekey_keys: "map fst (rekey old new f jobs) = map (\<lambda>i. if i = old then new else i) (map fst jobs)"
  by (induction jobs) (auto simp: rekey_def)

lemma rekey_distinct:
  assumes "distinct (map fst jobs)" and "new = old \<or> new \<notin> set (map fst jobs)"
  shows "distinct (map fst (rekey old new f jobs))"
proof -
  have "inj_on (\<lambda>i. if i = old then new else i) (set (map fst jobs))"
    using assms(2) by (auto simp: inj_on_def split: if_splits)
  then show ?thesis using assms(1) by (simp only: rekey_keys distinct_map simp_thms)
qed

lemma rekey_mem:
  "(j, r) \<in> set (rekey old new f jobs) \<Longrightarrow>
   \<exists>i x. (i, x) \<in> set jobs \<and> ((i = old \<and> j = new \<and> r = f x) \<or> (i \<noteq> old \<and> j = i \<and> r = x))"
  by (auto simp: rekey_def split: if_splits; blast)

lemma rekey_inv:
  assumes inv: "jobs_inv db" and new: "new = old \<or> map_of (pg_jobs db) new = None"
    and f: "\<And>x t d. runs t d (f x) = runs t d x"
  shows "jobs_inv (db\<lparr>pg_jobs := rekey old new f (pg_jobs db)\<rparr>)"
proof -
  have "distinct (map fst (rekey old new f (pg_jobs db)))"
    by (rule rekey_distinct) (use inv new in \<open>auto simp: jobs_inv_def map_of_eq_None_iff\<close>)
  moreover have "j = j'" if r: "(j, r) \<in> set (rekey old new f (pg_jobs db))" "runs t d r"
      "(j', r') \<in> set (rekey old new f (pg_jobs db))" "runs t d r'" for t d j r j' r'
  proof -
    obtain i x where i: "(i, x) \<in> set (pg_jobs db)" "runs t d x" "j = (if i = old then new else i)"
      using rekey_mem [OF r(1)] r(2) f by auto
    obtain i' x' where i': "(i', x') \<in> set (pg_jobs db)" "runs t d x'" "j' = (if i' = old then new else i')"
      using rekey_mem [OF r(3)] r(4) f by auto
    have "i = i'" using inv i(1,2) i'(1,2) unfolding jobs_inv_def by blast
    then show ?thesis using i(3) i'(3) by simp
  qed
  ultimately show ?thesis unfolding jobs_inv_def by auto
qed

lemma jobs_inv_append:
  assumes "jobs_inv db" and "map_of (pg_jobs db) j = None" and "running_for t d db = None" and "runs t d r"
  shows "jobs_inv (db\<lparr>pg_jobs := pg_jobs db @ [(j, r)]\<rparr>)"
proof -
  have none: "\<And>i x. (i, x) \<in> set (pg_jobs db) \<Longrightarrow> \<not> runs t d x"
    using assms(3) by (auto simp: running_for_None)
  have td: "t' = t \<and> d' = d" if "runs t' d' r" for t' d'
    using that assms(4) by (simp add: runs_def)
  have old: "\<And>t d i r j r'. (i, r) \<in> set (pg_jobs db) \<Longrightarrow> runs t d r \<Longrightarrow> (j, r') \<in> set (pg_jobs db) \<Longrightarrow> runs t d r' \<Longrightarrow> i = j"
    using assms(1) unfolding jobs_inv_def by blast
  have "i = k" if "(i, x) \<in> set (pg_jobs db @ [(j, r)])" "runs t' d' x"
      "(k, y) \<in> set (pg_jobs db @ [(j, r)])" "runs t' d' y" for t' d' i x k y
    using that none td old [of i x t' d' k y] by auto
  then show ?thesis using assms(1,2) by (auto simp: jobs_inv_def map_of_eq_None_iff)
qed

lemma reserve_insert_cases:
  assumes "jobs_inv db" and "reserve_insert t j d sys ret db = (res, db')"
  shows "jobs_inv db' \<and>
    (case res of
       InsertError \<Rightarrow> db' = db \<and> map_of (pg_jobs db) j \<noteq> None
     | InsertNone \<Rightarrow> db' = db \<and> (\<exists>i r. running_for t d db = Some (i, r) \<and> pg_now db \<le> jb_created_at r + ret)
     | InsertId k \<Rightarrow> k = j \<and> (\<exists>r. running_for t d db' = Some (j, r) \<and> jb_created_at r = pg_now db) \<and>
         pg_now db' = pg_now db \<and> pg_fault db' = pg_fault db)"
proof (cases "running_for t d db")
  case None
  let ?row = "\<lparr>jb_tenant = t, jb_derivation_path = d, jb_system = sys, jb_status = ''running'',
                  jb_error_msg = None, jb_output_paths = [], jb_log_key = None, jb_created_at = pg_now db,
                  jb_finished_at = None, jb_failure_kind = None, jb_log_state = LogPresent\<rparr>"
  show ?thesis
  proof (cases "map_of (pg_jobs db) j")
    case new: None
    then have db': "db' = db\<lparr>pg_jobs := pg_jobs db @ [(j, ?row)]\<rparr>" and res: "res = InsertId j"
      using assms(2) None by (auto simp: reserve_insert_def)
    have r: "runs t d ?row" by (simp add: runs_def)
    have inv: "jobs_inv db'" unfolding db' by (rule jobs_inv_append [OF assms(1) new None r])
    then have "running_for t d db' = Some (j, ?row)"
      by (rule running_for_SomeI) (simp_all add: db' r)
    then show ?thesis using inv res db' by simp
  qed (use assms None in \<open>auto simp: reserve_insert_def\<close>)
next
  case (Some x)
  obtain old r where x: "x = (old, r)" by (cases x)
  note run = running_for_SomeD [OF Some [unfolded x]]
  let ?f = "\<lambda>x. x\<lparr>jb_system := sys, jb_created_at := pg_now db, jb_error_msg := None,
                         jb_output_paths := [], jb_log_key := None, jb_failure_kind := None, jb_finished_at := None\<rparr>"
  show ?thesis
  proof (cases "jb_created_at r + ret < pg_now db \<and> (old = j \<or> map_of (pg_jobs db) j = None)")
    case True
    then have db': "db' = db\<lparr>pg_jobs := rekey old j ?f (pg_jobs db)\<rparr>" and res: "res = InsertId j"
      using assms(2) Some x by (auto simp: reserve_insert_def rekey_def)
    have inv: "jobs_inv db'" unfolding db' by (rule rekey_inv [OF assms(1)]) (use True in \<open>auto simp: runs_def\<close>)
    then have "running_for t d db' = Some (j, ?f r)"
      by (rule running_for_SomeI) (use run in \<open>force simp: db' rekey_def runs_def\<close>)+
    then show ?thesis using inv res db' by simp
  next
    case False
    then show ?thesis using assms Some x by (auto simp: reserve_insert_def split: if_splits)
  qed
qed

lemma reserve_insert_None: "reserve_insert t j d sys ret db = (InsertNone, db') \<Longrightarrow> db' = db \<and> running_for t d db \<noteq> None"
  by (auto simp: reserve_insert_def split: option.splits if_splits)

lemma reserve_attempts_inv:
  assumes "\<And>n db. jobs_inv db \<Longrightarrow> jobs_inv (between n db)"
  shows "jobs_inv db \<Longrightarrow> reserve_attempts n between t j d sys ret db = (res, db') \<Longrightarrow> jobs_inv db'"
proof (induction n arbitrary: db)
  case (Suc n)
  let ?db = "between (Suc (2 * n)) db"
  obtain ir db1 where ins: "reserve_insert t j d sys ret ?db = (ir, db1)" by (cases "reserve_insert t j d sys ret ?db")
  have inv: "jobs_inv ?db" using assms Suc.prems(1) by blast
  moreover have "jobs_inv db1" using reserve_insert_cases [OF inv ins] by blast
  moreover have "jobs_inv (between (2 * n) db1)" using assms \<open>jobs_inv db1\<close> by blast
  ultimately show ?case
    using Suc.prems(2) Suc.IH [of "between (2 * n) db1"] ins
    by (auto simp: Let_def split: if_splits insert_result.splits option.splits)
qed simp

text \<open>The slot is taken at every insert and free again at the read that follows.\<close>

fun raced :: "nat \<Rightarrow> (nat \<Rightarrow> pg \<Rightarrow> pg) \<Rightarrow> tenant_id \<Rightarrow> store_path \<Rightarrow> pg \<Rightarrow> bool" where
  "raced 0 between t d db = True"
| "raced (Suc left) between t d db =
     (let inserts = between (Suc (2 * left)) db; reads = between (2 * left) inserts in
      running_for t d inserts \<noteq> None \<and> running_for t d reads = None \<and> raced left between t d reads)"

lemma reserve_attempts_result:
  assumes "\<And>n db. jobs_inv db \<Longrightarrow> map_of (pg_jobs db) j = None \<Longrightarrow>
      jobs_inv (between n db) \<and> map_of (pg_jobs (between n db)) j = None"
  shows "jobs_inv db \<Longrightarrow> map_of (pg_jobs db) j = None \<Longrightarrow> reserve_attempts n between t j d sys ret db = (res, db') \<Longrightarrow>
    jobs_inv db' \<and>
    (case res of
       Lost k \<Rightarrow> k \<noteq> j \<and> map_of (pg_jobs db') j = None \<and> (\<exists>r. running_for t d db' = Some (k, r))
     | Won \<Rightarrow> (\<exists>r. running_for t d db' = Some (j, r)) \<or>
         map_of (pg_jobs db') j = None \<and> (pg_fault db' \<noteq> None \<or> raced n between t d db))"
proof (induction n arbitrary: db)
  case (Suc n)
  let ?ins = "between (Suc (2 * n)) db"
  let ?read = "between (2 * n) ?ins"
  have ins: "jobs_inv ?ins" "map_of (pg_jobs ?ins) j = None" using assms [OF Suc.prems(1,2)] by blast+
  have read: "jobs_inv ?read" "map_of (pg_jobs ?read) j = None" using assms [OF ins] by blast+
  show ?case
  proof (cases "pg_fault ?ins")
    case None
    obtain ir db1 where r: "reserve_insert t j d sys ret ?ins = (ir, db1)" by (cases "reserve_insert t j d sys ret ?ins")
    note c = reserve_insert_cases [OF ins(1) r]
    show ?thesis
    proof (cases ir)
      case InsertNone
      then have db1: "db1 = ?ins" "running_for t d ?ins \<noteq> None" using reserve_insert_None r by blast+
      have "k \<noteq> j" if "running_for t d ?read = Some (k, x)" for k x
        using running_for_SomeD [OF that] read(2) by (metis map_of_eq_None_iff fst_conv image_eqI)
      then show ?thesis
        using Suc.prems(3) Suc.IH [OF read] read None r InsertNone db1
        by (cases "running_for t d ?read") (auto simp: Let_def split: if_splits reservation.splits)
    qed (use c Suc.prems(3) None r ins in \<open>auto simp: Let_def\<close>)
  qed (use Suc.prems(3) ins in \<open>auto simp: Let_def\<close>)
qed simp

lemma jobs_inv_ensure: "jobs_inv db \<Longrightarrow> jobs_inv (snd (ensure_tenant_id t db))"
  by (simp add: jobs_inv_def)

text \<open>
  C33: A reservation is exclusive. Let other connections commit whatever they like between the statements, as
  long as they keep the table's keys and its unique index and do not use the new job's id. \<open>Lost\<close> names another
  job, which is running for exactly that tenant and derivation, and leaves no row for the new one. \<open>Won\<close> means
  that the new job now is the one that runs for that tenant and derivation, with two exceptions that the code
  documents, in which it leaves no row: the database failed on the way, or the slot was seen taken and then free
  again in both attempts.
\<close>

theorem reserve_job_exclusive:
  assumes "jobs_inv db" and "map_of (pg_jobs db) j = None"
    and "\<And>n db. jobs_inv db \<Longrightarrow> map_of (pg_jobs db) j = None \<Longrightarrow>
      jobs_inv (between n db) \<and> map_of (pg_jobs (between n db)) j = None"
    and "reserve_job_db between t j d sys ret db = (res, db')"
  shows "jobs_inv db' \<and>
    (case res of
       Lost k \<Rightarrow> k \<noteq> j \<and> map_of (pg_jobs db') j = None \<and> (\<exists>r. running_for t d db' = Some (k, r))
     | Won \<Rightarrow> (\<exists>r. running_for t d db' = Some (j, r)) \<or>
         map_of (pg_jobs db') j = None \<and> (pg_fault db' \<noteq> None \<or> raced 2 between t d (snd (ensure_tenant_id t db))))"
proof -
  obtain e db1 where e: "ensure_tenant_id t db = (e, db1)" by (cases "ensure_tenant_id t db")
  then have db1: "jobs_inv db1" "map_of (pg_jobs db1) j = None" "pg_fault db1 = pg_fault db"
    using jobs_inv_ensure [OF assms(1), of t] ensure_tenant_id_frame [of t db] assms(2) by simp_all
  show ?thesis
  proof (cases e)
    case (Ok u)
    then have att: "reserve_attempts 2 between t j d sys ret db1 = (res, db')"
      using assms(4) e by (simp add: reserve_job_db_def)
    show ?thesis unfolding e snd_conv by (rule reserve_attempts_result [where between = between and j = j, OF assms(3) db1(1,2) att])
  qed (use assms(4) e db1 ensure_tenant_id_result [of t db] in \<open>auto simp: reserve_job_db_def split: option.splits\<close>)
qed

lemma reserve_seq:
  "reserve_job_db (\<lambda>_ db. db) t j d sys ret db =
   (case ensure_tenant_id t db of
      (Ok _, db) \<Rightarrow>
        (case reserve_insert t j d sys ret db of
           (InsertNone, db) \<Rightarrow> (case running_for t d db of Some (k, _) \<Rightarrow> (Lost k, db) | None \<Rightarrow> (Won, db))
         | (_, db) \<Rightarrow> (Won, db))
    | (_, db) \<Rightarrow> (Won, db))"
proof -
  obtain e db1 where e: "ensure_tenant_id t db = (e, db1)" by (cases "ensure_tenant_id t db")
  obtain ir db2 where ir: "reserve_insert t j d sys ret db1 = (ir, db2)" by (cases "reserve_insert t j d sys ret db1")
  show ?thesis
  proof (cases e)
    case (Ok u)
    then have "pg_fault db1 = None"
      using e ensure_tenant_id_result [of t db] ensure_tenant_id_frame(4) [of t db] by (auto split: option.splits)
    then show ?thesis using e ir Ok reserve_insert_None [of t j d sys ret db1 db2]
      by (cases ir) (auto simp: reserve_job_db_def numeral_2_eq_2 Let_def split: option.splits)
  qed (simp_all add: e reserve_job_db_def)
qed

text \<open>The row a won reservation leaves behind.\<close>

lemma reserve_won:
  assumes "jobs_inv db" and "pg_fault db = None" and "map_of (pg_jobs db) j = None"
    and "reserve_job_db (\<lambda>_ db. db) t j d sys ret db = (Won, db')"
  shows "jobs_inv db' \<and> pg_fault db' = None \<and> pg_now db' = pg_now db \<and>
    (\<exists>r. running_for t d db' = Some (j, r) \<and> jb_created_at r = pg_now db)"
proof -
  obtain db1 where e: "ensure_tenant_id t db = (Ok (), db1)"
    using ensure_tenant_id_result [of t db] assms(2) by (cases "ensure_tenant_id t db") auto
  have db1: "jobs_inv db1" "pg_jobs db1 = pg_jobs db" "pg_fault db1 = None" "pg_now db1 = pg_now db"
    using e ensure_tenant_id_frame [of t db] jobs_inv_ensure [OF assms(1), of t] assms(2) by simp_all
  obtain ir db2 where ins: "reserve_insert t j d sys ret db1 = (ir, db2)" by (cases "reserve_insert t j d sys ret db1")
  note c = reserve_insert_cases [OF db1(1) ins]
  show ?thesis
  proof (cases ir)
    case InsertError
    then show ?thesis using c db1(2) assms(3) by simp
  next
    case InsertNone
    then show ?thesis using c assms(4) e ins by (auto simp: reserve_seq)
  next
    case (InsertId k)
    then show ?thesis using c db1 assms(4) e ins by (auto simp: reserve_seq)
  qed
qed

lemma update_mem:
  "distinct (map fst al) \<Longrightarrow> (i, x) \<in> set (AList.update k v al) \<Longrightarrow> (i = k \<and> x = v) \<or> (i \<noteq> k \<and> (i, x) \<in> set al)"
  by (metis distinct_update fun_upd_apply map_of_eq_Some_iff option.inject update_conv')

lemma complete_row_not_running [simp]: "\<not> runs t d (complete_row now oc r)"
  by (cases oc) (simp_all add: complete_row_def runs_def)

lemma record_outcome_jobs:
  assumes "pg_fault db = None"
  shows "(\<exists>r. pg_jobs (record_job_outcome_db t j d sys oc db) = AList.update j (complete_row (pg_now db) oc r) (pg_jobs db) \<and>
       (map_of (pg_jobs db) j \<noteq> None \<longrightarrow> map_of (pg_jobs db) j = Some r) \<and> jb_tenant r = t) \<or>
     (pg_jobs (record_job_outcome_db t j d sys oc db) = pg_jobs db \<and> (\<exists>r. map_of (pg_jobs db) j = Some r \<and> jb_tenant r \<noteq> t))"
proof -
  obtain db1 where e: "ensure_tenant_id t db = (Ok (), db1)"
    using ensure_tenant_id_result [of t db] assms by (cases "ensure_tenant_id t db") auto
  then have "pg_jobs db1 = pg_jobs db" "pg_now db1 = pg_now db" using ensure_tenant_id_frame [of t db] by simp_all
  then show ?thesis using e
    by (cases "map_of (pg_jobs db) j") (auto simp: record_job_outcome_db_def Let_def)
qed

lemma record_outcome_inv:
  assumes "jobs_inv db" and "pg_fault db = None"
  shows "jobs_inv (record_job_outcome_db t j d sys oc db)"
proof (cases "pg_jobs (record_job_outcome_db t j d sys oc db) = pg_jobs db")
  case True
  then show ?thesis using assms(1) by (simp add: jobs_inv_def)
next
  case False
  then obtain r where r: "pg_jobs (record_job_outcome_db t j d sys oc db) = AList.update j (complete_row (pg_now db) oc r) (pg_jobs db)"
    using record_outcome_jobs [OF assms(2), of t j d sys oc] by blast
  have d: "distinct (map fst (pg_jobs db))" using assms(1) by (simp add: jobs_inv_def)
  then have "distinct (map fst (AList.update j (complete_row (pg_now db) oc r) (pg_jobs db)))" by (rule distinct_update)
  moreover have "i = k" if "(i, x) \<in> set (AList.update j (complete_row (pg_now db) oc r) (pg_jobs db))" "runs t' d' x"
      "(k, y) \<in> set (AList.update j (complete_row (pg_now db) oc r) (pg_jobs db))" "runs t' d' y" for t' d' i x k y
    using update_mem [OF d that(1)] update_mem [OF d that(3)] that(2,4) assms(1)
    unfolding jobs_inv_def by auto
  ultimately show ?thesis unfolding jobs_inv_def r by blast
qed

lemma record_outcome_frees:
  assumes "jobs_inv db" and "pg_fault db = None" and "running_for t d db = Some (j, r)"
  shows "running_for t d (record_job_outcome_db t j d' sys oc db) = None"
proof -
  have d: "distinct (map fst (pg_jobs db))" using assms(1) by (simp add: jobs_inv_def)
  have "(j, r) \<in> set (pg_jobs db)" "runs t d r"
    using running_for_SomeD [OF assms(3)] by simp_all
  then have "map_of (pg_jobs db) j = Some r" "jb_tenant r = t" using d by (simp_all add: runs_def)
  then obtain r' where r': "pg_jobs (record_job_outcome_db t j d' sys oc db) = AList.update j (complete_row (pg_now db) oc r') (pg_jobs db)"
    using record_outcome_jobs [OF assms(2), of t j d' sys oc] by auto
  have "\<not> runs t d x" if "(i, x) \<in> set (AList.update j (complete_row (pg_now db) oc r') (pg_jobs db))" for i x
    using update_mem [OF d that] running_for_SomeI [OF assms(1), of i x t d] assms(3) by auto
  then show ?thesis unfolding running_for_None r' by blast
qed

lemma record_outcome_frame:
  "pg_fault (record_job_outcome_db t j d sys oc db) = pg_fault db"
  "pg_now (record_job_outcome_db t j d sys oc db) = pg_now db"
  using ensure_tenant_id_frame [of t db]
  by (cases "ensure_tenant_id t db"; auto simp: record_job_outcome_db_def Let_def split: res.splits)+

lemma reserve_lost:
  assumes "pg_fault db = None" and "running_for t d db = Some (j, r)" and "pg_now db \<le> jb_created_at r + ret"
  shows "fst (reserve_job_db (\<lambda>_ db. db) t j' d sys ret db) = Lost j"
proof -
  obtain db2 where e: "ensure_tenant_id t db = (Ok (), db2)"
    using ensure_tenant_id_result [of t db] assms(1) by (cases "ensure_tenant_id t db") auto
  then have "running_for t d db2 = Some (j, r)" "pg_now db2 = pg_now db"
    using ensure_tenant_id_frame [of t db] assms(2) by (simp_all add: running_for_def)
  then show ?thesis using e assms(3) by (simp add: reserve_seq reserve_insert_def)
qed

lemma reserve_free:
  assumes "pg_fault db = None" and "running_for t d db = None"
  obtains db' where "reserve_job_db (\<lambda>_ db. db) t j d sys ret db = (Won, db')"
proof -
  obtain db2 where e: "ensure_tenant_id t db = (Ok (), db2)"
    using ensure_tenant_id_result [of t db] assms(1) by (cases "ensure_tenant_id t db") auto
  then have "running_for t d db2 = None"
    using ensure_tenant_id_frame [of t db] assms(2) by (simp add: running_for_def)
  then have "fst (reserve_job_db (\<lambda>_ db. db) t j d sys ret db) = Won"
    using e by (simp add: reserve_seq reserve_insert_def)
  then show thesis using that by (cases "reserve_job_db (\<lambda>_ db. db) t j d sys ret db") simp
qed

text \<open>
  the second request for a derivation attaches to the first for as long as the reservation
  is fresh, and the slot is free again as soon as the first job's outcome is recorded: a later
  reservation then wins and is running under its own id. If the outcome is never recorded,
  every request within the retention is answered with the first job's id.
\<close>

theorem reserve_attach_complete:
  assumes "jobs_inv db" and "pg_fault db = None" and "map_of (pg_jobs db) j1 = None"
    and won: "reserve_job_db (\<lambda>_ db. db) t j1 d sys ret db = (Won, db1)"
    and later: "now \<le> pg_now db + ret"
    and fresh: "map_of (pg_jobs (record_job_outcome_db t j1 d sys oc (db1\<lparr>pg_now := now\<rparr>))) j2 = None"
  shows "fst (reserve_job_db (\<lambda>_ db. db) t j2 d sys ret (db1\<lparr>pg_now := now\<rparr>)) = Lost j1 \<and>
    (\<exists>db3 r. reserve_job_db (\<lambda>_ db. db) t j2 d sys ret
        (record_job_outcome_db t j1 d sys oc (db1\<lparr>pg_now := now\<rparr>)) = (Won, db3) \<and>
      running_for t d db3 = Some (j2, r))"
proof -
  let ?db1 = "db1\<lparr>pg_now := now\<rparr>" and ?done = "record_job_outcome_db t j1 d sys oc (db1\<lparr>pg_now := now\<rparr>)"
  obtain r where run: "running_for t d db1 = Some (j1, r)" "jb_created_at r = pg_now db"
      and db1: "jobs_inv db1" "pg_fault db1 = None"
    using reserve_won [OF assms(1-4)] by blast
  then have run1: "running_for t d ?db1 = Some (j1, r)" and inv1: "jobs_inv ?db1" and f1: "pg_fault ?db1 = None"
    by (simp_all add: running_for_def jobs_inv_def)
  have "fst (reserve_job_db (\<lambda>_ db. db) t j2 d sys ret ?db1) = Lost j1"
    by (rule reserve_lost [OF f1 run1]) (use run(2) later in simp)
  moreover have none: "running_for t d ?done = None" and fd: "pg_fault ?done = None" and invd: "jobs_inv ?done"
    using record_outcome_frees [OF inv1 f1 run1] record_outcome_frame [of t j1 d sys oc ?db1]
      record_outcome_inv [OF inv1 f1] f1 by simp_all
  moreover obtain db3 where won3: "reserve_job_db (\<lambda>_ db. db) t j2 d sys ret ?done = (Won, db3)"
    by (rule reserve_free [OF fd none])
  ultimately show ?thesis using reserve_won [OF invd fd fresh won3] by blast
qed

subsection \<open>Concrete runs\<close>

definition ex_drv :: store_path where "ex_drv = StorePath ''0-a.drv''"

definition ex_reserved :: pg where
  "ex_reserved = snd (reserve_job_db (\<lambda>_ db. db) (TenantId ''a'') 1 ex_drv ''x'' 60 pg_empty)"

lemma pg_empty_jobs_inv: "jobs_inv pg_empty"
  by (simp add: jobs_inv_def pg_empty_def)

lemma ex_reserved_won: "reserve_job_db (\<lambda>_ db. db) (TenantId ''a'') 1 ex_drv ''x'' 60 pg_empty = (Won, ex_reserved)"
  by (simp add: ex_reserved_def reserve_seq reserve_insert_def running_for_def ensure_tenant_id_def pg_empty_def)

theorem reserve_job_exclusive_witness:
  "\<exists>r. running_for (TenantId ''a'') ex_drv ex_reserved = Some (1, r)"
proof -
  have "pg_fault ex_reserved = None" "map_of (pg_jobs ex_reserved) 1 \<noteq> None"
    by (simp_all add: ex_reserved_def reserve_seq reserve_insert_def running_for_def ensure_tenant_id_def pg_empty_def)
  moreover have "map_of (pg_jobs pg_empty) 1 = None" by (simp add: pg_empty_def)
  ultimately show ?thesis using reserve_job_exclusive [OF pg_empty_jobs_inv _ _ ex_reserved_won] by auto
qed

theorem reserve_attach_complete_witness:
  "fst (reserve_job_db (\<lambda>_ db. db) (TenantId ''a'') 2 ex_drv ''x'' 60 (ex_reserved\<lparr>pg_now := 30\<rparr>)) = Lost 1 \<and>
    (\<exists>db3 r. reserve_job_db (\<lambda>_ db. db) (TenantId ''a'') 2 ex_drv ''x'' 60
        (record_job_outcome_db (TenantId ''a'') 1 ex_drv ''x'' (Completed [] [] ''k'') (ex_reserved\<lparr>pg_now := 30\<rparr>)) = (Won, db3) \<and>
      running_for (TenantId ''a'') ex_drv db3 = Some (2, r))"
  by (rule reserve_attach_complete [OF pg_empty_jobs_inv _ _ ex_reserved_won])
    (simp_all add: pg_empty_def ex_reserved_def reserve_seq reserve_insert_def running_for_def ensure_tenant_id_def
      record_job_outcome_db_def new_tenant_row_def complete_row_def)

end
