(* ===== verification/Gc.thy ===== *)
theory Gc
  imports Reservations
begin

text \<open>
  The garbage collector (\<open>crates/server/src/gc.rs\<close>): draining the access queue,
  marking expired paths, sweeping objects without a live referrer, and the retention of job
  logs and job rows. The state is the database together with the bucket, the list of object
  keys that have bytes. \<open>del_ok\<close> says for which keys the object store carries out a
  delete. A duration is a number of seconds and a cutoff compares against the database clock.
  Each statement is atomic; the interleaving of a sweep with the ingest path is studied at the
  end.
\<close>

record tier_cutoffs =
  tc_verified :: nat
  tc_built :: nat
  tc_quarantined :: nat

record job_retention =
  jr_log_after :: nat
  jr_row_after :: nat
  jr_stuck_running_after :: nat

definition default_cutoffs :: tier_cutoffs where
  "default_cutoffs = \<lparr>tc_verified = 30 * 24 * 3600, tc_built = 30 * 24 * 3600, tc_quarantined = 24 * 3600\<rparr>"

definition default_retention :: job_retention where
  "default_retention = \<lparr>jr_log_after = 7 * 24 * 3600, jr_row_after = 90 * 24 * 3600, jr_stuck_running_after = 24 * 3600\<rparr>"

record gc_stats =
  gs_ran :: bool
  gs_access_marks_drained :: nat
  gs_paths_marked :: nat
  gs_objects_deleted :: nat
  gs_paths_reaped :: nat
  gs_job_logs_marked :: nat
  gs_job_logs_purged :: nat
  gs_jobs_reaped :: nat
  gs_stuck_jobs_reclaimed :: nat

definition gc_stats_default :: gc_stats where
  "gc_stats_default = \<lparr>gs_ran = False, gs_access_marks_drained = 0, gs_paths_marked = 0, gs_objects_deleted = 0,
     gs_paths_reaped = 0, gs_job_logs_marked = 0, gs_job_logs_purged = 0, gs_jobs_reaped = 0, gs_stuck_jobs_reclaimed = 0\<rparr>"

datatype gc_error = Database string

type_synonym bucket = "object_key list"

subsection \<open>Draining the access queue\<close>

definition folded_at :: "(tenant_id \<times> store_path \<times> nat) list \<Rightarrow> tenant_id \<times> store_path \<Rightarrow> nat option" where
  "folded_at claimed key =
     (case map (snd \<circ> snd) (filter (\<lambda>(t, p, _). (t, p) = key) claimed) of
        [] \<Rightarrow> None | ats \<Rightarrow> Some (Max (set ats)))"

definition drain_row :: "(tenant_id \<times> store_path \<times> nat) list \<Rightarrow> (tenant_id \<times> store_path) \<times> path_row \<Rightarrow> (tenant_id \<times> store_path) \<times> path_row" where
  "drain_row claimed row =
     (case folded_at claimed (fst row) of
        None \<Rightarrow> row
      | Some at \<Rightarrow>
          (let r = snd row in
           (fst row, r\<lparr>pr_last_access := max (pr_last_access r) at,
                       pr_state := (if pr_state r = Marked then Live else pr_state r),
                       pr_marked_at := (if pr_state r = Marked then None else pr_marked_at r)\<rparr>)))"

definition drain_access_queue :: "nat \<Rightarrow> pg \<Rightarrow> nat \<times> pg" where
  "drain_access_queue batch_size db =
     (let queue = sort_key (snd \<circ> snd) (pg_path_access db);
          claimed = take batch_size queue
      in (length (filter (\<lambda>row. folded_at claimed (fst row) \<noteq> None) (pg_store_paths db)),
          db\<lparr>pg_path_access := drop batch_size queue,
             pg_store_paths := map (drain_row claimed) (pg_store_paths db)\<rparr>))"

subsection \<open>Marking\<close>

definition cutoff :: "tier_cutoffs \<Rightarrow> string \<Rightarrow> nat option" where
  "cutoff c ti =
     (if ti = ''quarantined'' then Some (tc_quarantined c)
      else if ti = ''built'' then Some (tc_built c)
      else if ti = ''verified'' then Some (tc_verified c)
      else None)"

definition within_cutoff :: "tier_cutoffs \<Rightarrow> nat \<Rightarrow> path_row \<Rightarrow> bool" where
  "within_cutoff c now r =
     (case cutoff c (pr_tier r) of None \<Rightarrow> False | Some secs \<Rightarrow> now \<le> pr_last_access r + secs)"

definition past_cutoff :: "tier_cutoffs \<Rightarrow> nat \<Rightarrow> path_row \<Rightarrow> bool" where
  "past_cutoff c now r =
     (case cutoff c (pr_tier r) of None \<Rightarrow> False | Some secs \<Rightarrow> pr_last_access r + secs < now)"

definition fresh_seeds :: "tier_cutoffs \<Rightarrow> pg \<Rightarrow> (tenant_id \<times> store_path) list" where
  "fresh_seeds c db =
     map fst (filter (\<lambda>(_, r). pr_state r = Live \<and> within_cutoff c (pg_now db) r) (pg_store_paths db))"

text \<open>The recursive step of the query: the references of a row, for the same tenant.\<close>

definition row_refs :: "((tenant_id \<times> store_path) \<times> path_row) list \<Rightarrow> tenant_id \<times> store_path \<Rightarrow> (tenant_id \<times> store_path) list" where
  "row_refs rows key =
     (case map_of rows key of None \<Rightarrow> [] | Some r \<Rightarrow> map (Pair (fst key)) (pr_refs r))"

text \<open>
  \<open>WITH RECURSIVE .. UNION\<close>: keep a working list, drop what was already produced. It
  ends because a key that has a row is expanded at most once.
\<close>

function fresh_loop ::
  "((tenant_id \<times> store_path) \<times> path_row) list \<Rightarrow> (tenant_id \<times> store_path) list \<Rightarrow> (tenant_id \<times> store_path) list \<Rightarrow>
   (tenant_id \<times> store_path) list" where
  "fresh_loop rows seen [] = seen"
| "fresh_loop rows seen (k # ks) =
     (if k \<in> set seen then fresh_loop rows seen ks
      else fresh_loop rows (k # seen) (row_refs rows k @ ks))"
  by pat_completeness auto
termination
proof (relation "inv_image (less_than <*lex*> less_than)
    (\<lambda>(rows, seen, ks). (card (set (map fst rows) - set seen), length ks))")
  fix rows :: "((tenant_id \<times> store_path) \<times> path_row) list"
    and seen ks :: "(tenant_id \<times> store_path) list" and k :: "tenant_id \<times> store_path"
  assume k: "k \<notin> set seen"
  show "((rows, k # seen, row_refs rows k @ ks), rows, seen, k # ks)
    \<in> inv_image (less_than <*lex*> less_than) (\<lambda>(rows, seen, ks). (card (set (map fst rows) - set seen), length ks))"
  proof (cases "k \<in> set (map fst rows)")
    case True
    then have "set (map fst rows) - set (k # seen) \<subset> set (map fst rows) - set seen" using k by auto
    then have "card (set (map fst rows) - set (k # seen)) < card (set (map fst rows) - set seen)"
      by (rule psubset_card_mono [rotated]) simp
    then show ?thesis by simp
  next
    case False
    then have "map_of rows k = None" by (simp add: map_of_eq_None_iff)
    then have "row_refs rows k = []" by (simp add: row_refs_def)
    moreover have "set (map fst rows) - set (k # seen) = set (map fst rows) - set seen" using False by auto
    ultimately show ?thesis by simp
  qed
qed auto

definition fresh :: "tier_cutoffs \<Rightarrow> pg \<Rightarrow> (tenant_id \<times> store_path) list" where
  "fresh c db = fresh_loop (pg_store_paths db) [] (fresh_seeds c db)"

definition expired :: "tier_cutoffs \<Rightarrow> pg \<Rightarrow> (tenant_id \<times> store_path) \<times> path_row \<Rightarrow> bool" where
  "expired c db row \<longleftrightarrow> pr_state (snd row) = Live \<and> past_cutoff c (pg_now db) (snd row) \<and> fst row \<notin> set (fresh c db)"

definition mark_expired :: "tier_cutoffs \<Rightarrow> pg \<Rightarrow> nat \<times> pg" where
  "mark_expired c db =
     (length (filter (expired c db) (pg_store_paths db)),
      db\<lparr>pg_store_paths := map (\<lambda>row. if expired c db row
           then (fst row, (snd row)\<lparr>pr_state := Marked, pr_marked_at := Some (pg_now db)\<rparr>) else row) (pg_store_paths db)\<rparr>)"

subsection \<open>Sweeping\<close>

definition sweep_candidates :: "pg \<Rightarrow> object_key list" where
  "sweep_candidates db =
     filter (\<lambda>k. \<not> list_ex (\<lambda>(_, r). pr_object_key r = Some k \<and> pr_state r = Live) (pg_store_paths db))
       (map fst (pg_objects db))"

definition tombstone :: "object_key \<Rightarrow> pg \<Rightarrow> pg" where
  "tombstone k db = db\<lparr>pg_store_paths := map (\<lambda>(key, r).
     (key, if pr_object_key r = Some k \<and> pr_state r = Marked then r\<lparr>pr_state := Purging\<rparr> else r)) (pg_store_paths db)\<rparr>"

text \<open>\<open>DELETE FROM objects\<close>; the foreign key of \<open>store_paths\<close> is \<open>ON DELETE SET NULL\<close>.\<close>

definition delete_object_row :: "object_key \<Rightarrow> pg \<Rightarrow> pg" where
  "delete_object_row k db = db\<lparr>pg_objects := filter (\<lambda>(key, _). key \<noteq> k) (pg_objects db),
     pg_store_paths := map (\<lambda>(key, r).
       (key, if pr_object_key r = Some k then r\<lparr>pr_object_key := None\<rparr> else r)) (pg_store_paths db)\<rparr>"

definition sweep_key :: "(object_key \<Rightarrow> bool) \<Rightarrow> object_key \<Rightarrow> nat \<times> pg \<times> bucket \<Rightarrow> nat \<times> pg \<times> bucket" where
  "sweep_key del_ok k st =
     (let (n, db, bucket) = st; db = tombstone k db in
      if \<not> del_ok k then (n, db, bucket)
      else (Suc n, delete_object_row k db, filter (\<lambda>x. x \<noteq> k) bucket))"

definition reapable :: "pg \<Rightarrow> (tenant_id \<times> store_path) \<times> path_row \<Rightarrow> bool" where
  "reapable db row \<longleftrightarrow> pr_state (snd row) = Purging \<and>
     (case pr_object_key (snd row) of None \<Rightarrow> True | Some k \<Rightarrow> map_of (pg_objects db) k = None)"

definition sweep_and_reap :: "(object_key \<Rightarrow> bool) \<Rightarrow> pg \<times> bucket \<Rightarrow> (nat \<times> nat) \<times> pg \<times> bucket" where
  "sweep_and_reap del_ok st =
     (let (db, bucket) = st;
          (deleted, db, bucket) = foldl (\<lambda>st k. sweep_key del_ok k st) (0, db, bucket) (sweep_candidates db)
      in ((deleted, length (filter (reapable db) (pg_store_paths db))),
          db\<lparr>pg_store_paths := filter (\<lambda>row. \<not> reapable db row) (pg_store_paths db)\<rparr>, bucket))"

subsection \<open>Job logs and job rows\<close>

definition finished_before :: "nat \<Rightarrow> nat \<Rightarrow> job_row \<Rightarrow> bool" where
  "finished_before secs now r = (case jb_finished_at r of None \<Rightarrow> False | Some at \<Rightarrow> at + secs < now)"

definition map_jobs :: "(uuid \<Rightarrow> job_row \<Rightarrow> job_row) \<Rightarrow> pg \<Rightarrow> pg" where
  "map_jobs f db = db\<lparr>pg_jobs := map (\<lambda>(i, r). (i, f i r)) (pg_jobs db)\<rparr>"

definition count_jobs :: "(job_row \<Rightarrow> bool) \<Rightarrow> pg \<Rightarrow> nat" where
  "count_jobs P db = length (filter (P \<circ> snd) (pg_jobs db))"

definition log_expired :: "nat \<Rightarrow> pg \<Rightarrow> job_row \<Rightarrow> bool" where
  "log_expired log_after db r \<longleftrightarrow> jb_log_state r = LogPresent \<and> finished_before log_after (pg_now db) r"

definition mark_expired_job_logs :: "nat \<Rightarrow> pg \<Rightarrow> nat \<times> pg" where
  "mark_expired_job_logs log_after db =
     (count_jobs (log_expired log_after db) db,
      map_jobs (\<lambda>_ r. if log_expired log_after db r then r\<lparr>jb_log_state := LogMarked\<rparr> else r) db)"

text \<open>
  Every marked row is fetched into \<open>(Uuid, String)\<close> first: a row whose \<open>log_key\<close>
  is null cannot be decoded and fails the whole query.
\<close>

fun fetch_marked :: "(uuid \<times> job_row) list \<Rightarrow> (gc_error, (uuid \<times> string) list) res" where
  "fetch_marked [] = Ok []"
| "fetch_marked ((i, r) # rest) =
     (if jb_log_state r \<noteq> LogMarked then fetch_marked rest
      else (case jb_log_key r of
              None \<Rightarrow> Err (Database ''unexpected null; try decoding as an Option'')
            | Some k \<Rightarrow> bind_res (fetch_marked rest) (\<lambda>xs. Ok ((i, k) # xs))))"

definition sweep_log :: "(object_key \<Rightarrow> bool) \<Rightarrow> uuid \<times> string \<Rightarrow> nat \<times> pg \<times> bucket \<Rightarrow> nat \<times> pg \<times> bucket" where
  "sweep_log del_ok job st =
     (let (n, db, bucket) = st; k = ObjectKey (snd job) in
      if \<not> del_ok k then (n, db, bucket)
      else (Suc n, map_jobs (\<lambda>i r. if i = fst job \<and> jb_log_state r = LogMarked
                then r\<lparr>jb_log_state := LogPurged, jb_log_key := None\<rparr> else r) db,
            filter (\<lambda>x. x \<noteq> k) bucket))"

definition sweep_job_logs :: "(object_key \<Rightarrow> bool) \<Rightarrow> pg \<times> bucket \<Rightarrow> (gc_error, nat) res \<times> pg \<times> bucket" where
  "sweep_job_logs del_ok st =
     (case fetch_marked (pg_jobs (fst st)) of
        Ok marked \<Rightarrow>
          (let (n, db, bucket) = foldl (\<lambda>st job. sweep_log del_ok job st) (0, fst st, snd st) marked
           in (Ok n, db, bucket))
      | Err e \<Rightarrow> (Err e, st)
      | Panic \<Rightarrow> (Panic, st))"

definition job_reapable :: "nat \<Rightarrow> pg \<Rightarrow> job_row \<Rightarrow> bool" where
  "job_reapable row_after db r \<longleftrightarrow> finished_before row_after (pg_now db) r \<and> jb_log_state r = LogPurged"

definition reap_jobs :: "nat \<Rightarrow> pg \<Rightarrow> nat \<times> pg" where
  "reap_jobs row_after db =
     (count_jobs (job_reapable row_after db) db,
      db\<lparr>pg_jobs := filter (\<lambda>(_, r). \<not> job_reapable row_after db r) (pg_jobs db)\<rparr>)"

definition stuck :: "nat \<Rightarrow> pg \<Rightarrow> job_row \<Rightarrow> bool" where
  "stuck after db r \<longleftrightarrow> jb_status r = ''running'' \<and> jb_created_at r + after < pg_now db"

definition orphan_msg :: string where
  "orphan_msg = ''kubernix: orphaned in-flight record reaped (no result observed within the retention window)''"

definition reclaim_stuck_running_jobs :: "nat \<Rightarrow> pg \<Rightarrow> nat \<times> pg" where
  "reclaim_stuck_running_jobs after db =
     (count_jobs (stuck after db) db,
      map_jobs (\<lambda>_ r. if stuck after db r
         then r\<lparr>jb_status := ''failed'', jb_error_msg := Some orphan_msg, jb_finished_at := Some (pg_now db)\<rparr> else r) db)"

definition run_locked ::
  "(object_key \<Rightarrow> bool) \<Rightarrow> tier_cutoffs \<Rightarrow> job_retention \<Rightarrow> nat \<Rightarrow> pg \<times> bucket \<Rightarrow> (gc_error, gc_stats) res \<times> pg \<times> bucket" where
  "run_locked del_ok cutoffs ret batch_size st =
     (case st of (db, bucket) \<Rightarrow>
      case pg_fault db of
        Some e \<Rightarrow> (Err (Database e), db, bucket)
      | None \<Rightarrow>
          (let (drained, db) = drain_access_queue batch_size db;
               (marked, db) = mark_expired cutoffs db;
               ((deleted, reaped), db, bucket) = sweep_and_reap del_ok (db, bucket);
               (logs_marked, db) = mark_expired_job_logs (jr_log_after ret) db
           in case sweep_job_logs del_ok (db, bucket) of
                (Ok purged, db, bucket) \<Rightarrow>
                  (let (jobs_reaped, db) = reap_jobs (jr_row_after ret) db;
                       (reclaimed, db) = reclaim_stuck_running_jobs (jr_stuck_running_after ret) db
                   in (Ok \<lparr>gs_ran = True, gs_access_marks_drained = drained, gs_paths_marked = marked,
                           gs_objects_deleted = deleted, gs_paths_reaped = reaped, gs_job_logs_marked = logs_marked,
                           gs_job_logs_purged = purged, gs_jobs_reaped = jobs_reaped,
                           gs_stuck_jobs_reclaimed = reclaimed\<rparr>, db, bucket))
              | (Err e, db, bucket) \<Rightarrow> (Err e, db, bucket)
              | (Panic, db, bucket) \<Rightarrow> (Panic, db, bucket)))"

text \<open>The pass runs only under the advisory lock; a collector that finds it taken does nothing.\<close>

definition run_gc_pass_on ::
  "bool \<Rightarrow> (object_key \<Rightarrow> bool) \<Rightarrow> tier_cutoffs \<Rightarrow> job_retention \<Rightarrow> nat \<Rightarrow> pg \<times> bucket \<Rightarrow> (gc_error, gc_stats) res \<times> pg \<times> bucket" where
  "run_gc_pass_on lock_free del_ok cutoffs ret batch_size st =
     (case pg_fault (fst st) of
        Some e \<Rightarrow> (Err (Database e), st)
      | None \<Rightarrow> if \<not> lock_free then (Ok gc_stats_default, st)
                else run_locked del_ok cutoffs ret batch_size st)"


subsection \<open>What the marking pass protects\<close>

text \<open>The specification of the recursive query: what a fresh row reaches along references.\<close>

inductive protected_key :: "((tenant_id \<times> store_path) \<times> path_row) list \<Rightarrow> (tenant_id \<times> store_path) set \<Rightarrow> tenant_id \<times> store_path \<Rightarrow> bool"
  for rows seeds where
  seed: "k \<in> seeds \<Longrightarrow> protected_key rows seeds k"
| ref: "protected_key rows seeds k \<Longrightarrow> k' \<in> set (row_refs rows k) \<Longrightarrow> protected_key rows seeds k'"

inductive_cases protected_keyE: "protected_key rows seeds k"

lemma fresh_loop_superset: "set seen \<union> set ks \<subseteq> set (fresh_loop rows seen ks)"
  by (induction rows seen ks rule: fresh_loop.induct) auto

lemma fresh_loop_closed:
  assumes "\<And>k. k \<in> set seen \<Longrightarrow> set (row_refs rows k) \<subseteq> set seen \<union> set ks"
    and "k \<in> set (fresh_loop rows seen ks)"
  shows "set (row_refs rows k) \<subseteq> set (fresh_loop rows seen ks)"
  using assms
proof (induction rows seen ks rule: fresh_loop.induct)
  case (1 rows seen)
  then show ?case by simp
next
  case (2 rows seen k0 ks)
  show ?case
  proof (cases "k0 \<in> set seen")
    case True
    then show ?thesis using 2 by (simp add: insert_absorb)
  next
    case False
    have "set (row_refs rows k) \<subseteq> set (fresh_loop rows (k0 # seen) (row_refs rows k0 @ ks))"
    proof (rule "2.IH"(2) [OF False])
      show "set (row_refs rows x) \<subseteq> set (k0 # seen) \<union> set (row_refs rows k0 @ ks)" if "x \<in> set (k0 # seen)" for x
        using that "2.prems"(1) [of x] by auto
    qed (use "2.prems"(2) False in simp)
    then show ?thesis using False by simp
  qed
qed

lemma fresh_loop_sound:
  "k \<in> set (fresh_loop rows seen ks) \<Longrightarrow> k \<in> set seen \<or> protected_key rows (set ks) k"
proof (induction rows seen ks rule: fresh_loop.induct)
  case (2 rows seen k0 ks)
  have mono: "protected_key rows (set ks) x \<Longrightarrow> protected_key rows (set (k0 # ks)) x" for x
    by (induction rule: protected_key.induct) (auto intro: protected_key.intros)
  have expand: "protected_key rows (set (row_refs rows k0 @ ks)) x \<Longrightarrow> protected_key rows (set (k0 # ks)) x" for x
    by (induction rule: protected_key.induct) (auto intro: protected_key.intros)
  show ?case
  proof (cases "k0 \<in> set seen")
    case True
    then show ?thesis using 2 mono [of k] by auto
  next
    case False
    then have "k \<in> set (k0 # seen) \<or> protected_key rows (set (row_refs rows k0 @ ks)) k" using 2 by simp
    then show ?thesis using expand [of k] by (auto intro: protected_key.seed)
  qed
qed simp

lemma fresh_eq: "set (fresh c db) = {k. protected_key (pg_store_paths db) (set (fresh_seeds c db)) k}"
proof -
  let ?R = "set (fresh_loop (pg_store_paths db) [] (fresh_seeds c db))"
  have "k \<in> ?R" if "protected_key (pg_store_paths db) (set (fresh_seeds c db)) k" for k
    using that
  proof (induction rule: protected_key.induct)
    case (seed k)
    then show ?case using fresh_loop_superset [of "[]"] by fastforce
  next
    case (ref k k')
    then show ?case using fresh_loop_closed [of "[]" "pg_store_paths db" "fresh_seeds c db" k] by auto
  qed
  then show ?thesis unfolding fresh_def using fresh_loop_sound by fastforce
qed

text \<open>
  The marking pass changes exactly the live rows that are past the cutoff of their tier and
  that no fresh row reaches along its references: such a row becomes marked with the current
  time, every other row is untouched. The worklist that evaluates the recursive query computes
  the inductively defined set of protected paths.
\<close>

theorem mark_expired_exact:
  "pg_store_paths (snd (mark_expired c db)) =
     map (\<lambda>(k, r). (k, if pr_state r = Live \<and> past_cutoff c (pg_now db) r \<and>
              \<not> protected_key (pg_store_paths db) (set (fresh_seeds c db)) k
            then r\<lparr>pr_state := Marked, pr_marked_at := Some (pg_now db)\<rparr> else r)) (pg_store_paths db)"
  unfolding mark_expired_def by (auto simp: expired_def fresh_eq)

subsection \<open>No live path loses its bytes to an undisturbed pass\<close>

definition row_has_bytes :: "(object_key \<times> object_row) list \<Rightarrow> bucket \<Rightarrow> path_row \<Rightarrow> bool" where
  "row_has_bytes objs b r \<longleftrightarrow> (pr_state r = Purging \<or>
     (pr_object_key r \<noteq> None \<and> map_of objs (the (pr_object_key r)) \<noteq> None \<and> the (pr_object_key r) \<in> set b))"

definition bytes_inv :: "pg \<times> bucket \<Rightarrow> bool" where
  "bytes_inv st \<longleftrightarrow> (\<forall>row \<in> set (pg_store_paths (fst st)). row_has_bytes (pg_objects (fst st)) (snd st) (snd row))"

definition refers :: "object_key \<Rightarrow> pg \<Rightarrow> row_state list \<Rightarrow> bool" where
  "refers k db states \<longleftrightarrow>
     (\<exists>row \<in> set (pg_store_paths db). pr_object_key (snd row) = Some k \<and> pr_state (snd row) \<in> set states)"

definition logs_apart :: "pg \<Rightarrow> bool" where
  "logs_apart db \<longleftrightarrow> (\<forall>job \<in> set (pg_jobs db). \<forall>row \<in> set (pg_store_paths db).
     pr_object_key (snd row) = None \<or> pr_object_key (snd row) \<noteq> map_option ObjectKey (jb_log_key (snd job)))"

lemma bytes_inv_map:
  assumes "bytes_inv (db, b)" and "pg_objects db' = pg_objects db"
    and "pg_store_paths db' = map f (pg_store_paths db)"
    and "\<And>row. pr_object_key (snd (f row)) = pr_object_key (snd row) \<and>
       (pr_state (snd row) = Purging \<longrightarrow> pr_state (snd (f row)) = Purging)"
  shows "bytes_inv (db', b)"
proof -
  have "row_has_bytes (pg_objects db') b (snd (f row))" if "row \<in> set (pg_store_paths db)" for row
    using that assms(1,2) assms(4) [of row] by (auto simp: bytes_inv_def row_has_bytes_def)
  then show ?thesis using assms(3) by (simp add: bytes_inv_def)
qed

lemma drain_row_keeps: "pr_object_key (snd (drain_row q row)) = pr_object_key (snd row) \<and>
   (pr_state (snd row) = Purging \<longrightarrow> pr_state (snd (drain_row q row)) = Purging) \<and> fst (drain_row q row) = fst row"
  by (cases "folded_at q (fst row)") (auto simp: drain_row_def Let_def)

lemma drain_access_queue_bytes: "bytes_inv (db, b) \<Longrightarrow> bytes_inv (snd (drain_access_queue n db), b)"
  by (erule bytes_inv_map [where f = "drain_row (take n (sort_key (snd \<circ> snd) (pg_path_access db)))"])
     (simp_all add: drain_access_queue_def Let_def drain_row_keeps)

lemma mark_expired_bytes: "bytes_inv (db, b) \<Longrightarrow> bytes_inv (snd (mark_expired c db), b)"
  by (erule bytes_inv_map [where f = "\<lambda>row. if expired c db row
        then (fst row, (snd row)\<lparr>pr_state := Marked, pr_marked_at := Some (pg_now db)\<rparr>) else row"])
     (simp_all add: mark_expired_def, simp add: expired_def)

definition tombstone_row :: "object_key \<Rightarrow> (tenant_id \<times> store_path) \<times> path_row \<Rightarrow> (tenant_id \<times> store_path) \<times> path_row" where
  "tombstone_row k row = (fst row, if pr_object_key (snd row) = Some k \<and> pr_state (snd row) = Marked
     then (snd row)\<lparr>pr_state := Purging\<rparr> else snd row)"

lemma tombstone_alt: "tombstone k db = db\<lparr>pg_store_paths := map (tombstone_row k) (pg_store_paths db)\<rparr>"
  by (simp add: tombstone_def tombstone_row_def case_prod_unfold)

lemma tombstone_row_fields [simp]:
  "pr_object_key (snd (tombstone_row k row)) = pr_object_key (snd row)"
  "pr_state (snd (tombstone_row k row)) =
     (if pr_object_key (snd row) = Some k \<and> pr_state (snd row) = Marked then Purging else pr_state (snd row))"
  by (simp_all add: tombstone_row_def)

lemma tombstone_bytes: "bytes_inv (db, b) \<Longrightarrow> bytes_inv (tombstone k db, b)"
  by (erule bytes_inv_map [where f = "tombstone_row k"]) (simp_all add: tombstone_alt)

lemma tombstone_refers: "\<not> refers k db [Live] \<Longrightarrow> \<not> refers k (tombstone k db) [Live, Marked]"
  by (auto simp: refers_def tombstone_alt split: if_splits)

lemma tombstone_not_live: "\<not> refers k db [Live] \<Longrightarrow> \<not> refers k (tombstone k' db) [Live]"
  by (auto simp: refers_def tombstone_alt split: if_splits)

lemma map_of_filter_key: "map_of (filter (\<lambda>(key, _). key \<noteq> k) xs) k' = (if k' = k then None else map_of xs k')"
  by (induction xs) auto

definition unlink_row :: "object_key \<Rightarrow> (tenant_id \<times> store_path) \<times> path_row \<Rightarrow> (tenant_id \<times> store_path) \<times> path_row" where
  "unlink_row k row = (fst row, if pr_object_key (snd row) = Some k then (snd row)\<lparr>pr_object_key := None\<rparr> else snd row)"

lemma delete_object_row_alt:
  "delete_object_row k db = db\<lparr>pg_objects := filter (\<lambda>(key, _). key \<noteq> k) (pg_objects db),
     pg_store_paths := map (unlink_row k) (pg_store_paths db)\<rparr>"
  by (simp add: delete_object_row_def unlink_row_def case_prod_unfold)

lemma unlink_row_fields [simp]:
  "pr_state (snd (unlink_row k row)) = pr_state (snd row)"
  "pr_object_key (snd (unlink_row k row)) = (if pr_object_key (snd row) = Some k then None else pr_object_key (snd row))"
  by (simp_all add: unlink_row_def)

lemma delete_object_row_bytes:
  assumes "bytes_inv (db, b)" and "\<not> refers k db [Live, Marked]"
  shows "bytes_inv (delete_object_row k db, filter (\<lambda>x. x \<noteq> k) b)"
proof -
  have "row_has_bytes (pg_objects (delete_object_row k db)) (filter (\<lambda>x. x \<noteq> k) b) (snd (unlink_row k row))"
    if "row \<in> set (pg_store_paths db)" for row
  proof (cases "pr_state (snd row)")
    case Purging
    then show ?thesis by (simp add: row_has_bytes_def)
  qed (use that assms in \<open>auto simp: bytes_inv_def row_has_bytes_def refers_def delete_object_row_alt map_of_filter_key
\<close>)
  then show ?thesis by (simp add: bytes_inv_def delete_object_row_alt)
qed

lemma delete_object_row_not_live: "\<not> refers k db [Live] \<Longrightarrow> \<not> refers k (delete_object_row k' db) [Live]"
  by (auto simp: refers_def delete_object_row_alt split: if_splits)

lemma sweep_fold_bytes:
  assumes "bytes_inv (db, b)" and "\<And>k. k \<in> set ks \<Longrightarrow> \<not> refers k db [Live]"
  shows "bytes_inv (snd (foldl (\<lambda>st k. sweep_key del_ok k st) (n, db, b) ks))"
  using assms
proof (induction ks arbitrary: n db b)
  case (Cons k ks)
  have t: "bytes_inv (tombstone k db, b)" using Cons.prems by (simp add: tombstone_bytes)
  show ?case
  proof (cases "del_ok k")
    case True
    have "bytes_inv (delete_object_row k (tombstone k db), filter (\<lambda>x. x \<noteq> k) b)"
      using t Cons.prems by (simp add: delete_object_row_bytes tombstone_refers)
    then show ?thesis using True Cons.IH Cons.prems(2)
      by (simp add: sweep_key_def Let_def tombstone_not_live delete_object_row_not_live)
  next
    case False
    then show ?thesis using t Cons.IH Cons.prems(2) by (simp add: sweep_key_def Let_def tombstone_not_live)
  qed
qed simp

lemma sweep_candidates_not_live: "k \<in> set (sweep_candidates db) \<Longrightarrow> \<not> refers k db [Live]"
  by (fastforce simp: sweep_candidates_def refers_def list_ex_iff)

lemma bytes_inv_filter: "bytes_inv (db, b) \<Longrightarrow> bytes_inv (db\<lparr>pg_store_paths := filter P (pg_store_paths db)\<rparr>, b)"
  by (simp add: bytes_inv_def)

lemma sweep_and_reap_bytes:
  assumes "bytes_inv (db, b)"
  shows "bytes_inv (snd (sweep_and_reap del_ok (db, b)))"
proof -
  obtain n db' b' where st: "foldl (\<lambda>st k. sweep_key del_ok k st) (0, db, b) (sweep_candidates db) = (n, db', b')"
    by (metis prod_cases3)
  have "bytes_inv (snd (foldl (\<lambda>st k. sweep_key del_ok k st) (0, db, b) (sweep_candidates db)))"
    using assms sweep_candidates_not_live by (rule sweep_fold_bytes)
  then show ?thesis by (simp add: sweep_and_reap_def Let_def st bytes_inv_filter)
qed

text \<open>The passes over paths leave the jobs alone and never invent an object key.\<close>

definition key_set :: "pg \<Rightarrow> object_key option set" where
  "key_set db = insert None (pr_object_key ` snd ` set (pg_store_paths db))"

lemma logs_apart_mono:
  "logs_apart db \<Longrightarrow> pg_jobs db' = pg_jobs db \<Longrightarrow> key_set db' \<subseteq> key_set db \<Longrightarrow> logs_apart db'"
  by (fastforce simp: logs_apart_def key_set_def image_def)

lemma key_set_map:
  assumes "pg_store_paths db' = map f (pg_store_paths db)"
    and "\<And>row. pr_object_key (snd (f row)) = None \<or> pr_object_key (snd (f row)) = pr_object_key (snd row)"
  shows "key_set db' \<subseteq> key_set db"
proof -
  have "pr_object_key (snd (f row)) \<in> key_set db" if "row \<in> set (pg_store_paths db)" for row
    using that assms(2) [of row] by (auto simp: key_set_def)
  moreover have "key_set db' = insert None ((\<lambda>row. pr_object_key (snd (f row))) ` set (pg_store_paths db))"
    using assms(1) by (simp add: key_set_def image_image)
  moreover have "None \<in> key_set db" by (simp add: key_set_def)
  ultimately show ?thesis by (simp only: insert_subset image_subset_iff) simp
qed

lemma drain_access_queue_frame:
  "pg_jobs (snd (drain_access_queue n db)) = pg_jobs db" "pg_now (snd (drain_access_queue n db)) = pg_now db"
  "key_set (snd (drain_access_queue n db)) \<subseteq> key_set db"
  by (simp_all add: drain_access_queue_def Let_def)
     (rule key_set_map [where f = "drain_row (take n (sort_key (snd \<circ> snd) (pg_path_access db)))"], simp_all add: drain_row_keeps)

lemma mark_expired_frame:
  "pg_jobs (snd (mark_expired c db)) = pg_jobs db" "pg_now (snd (mark_expired c db)) = pg_now db"
  "key_set (snd (mark_expired c db)) \<subseteq> key_set db"
  by (simp_all add: mark_expired_def)
     (rule key_set_map [where f = "\<lambda>row. if expired c db row
        then (fst row, (snd row)\<lparr>pr_state := Marked, pr_marked_at := Some (pg_now db)\<rparr>) else row"], simp_all)

lemma sweep_key_frame:
  "pg_jobs (fst (snd (sweep_key del_ok k st))) = pg_jobs (fst (snd st))"
  "pg_now (fst (snd (sweep_key del_ok k st))) = pg_now (fst (snd st))"
  "key_set (fst (snd (sweep_key del_ok k st))) \<subseteq> key_set (fst (snd st))"
proof -
  obtain n db b where st: "st = (n, db, b)" by (cases st)
  have "key_set (tombstone k db) \<subseteq> key_set db"
    by (rule key_set_map [where f = "tombstone_row k"]) (simp_all add: tombstone_alt)
  moreover have "key_set (delete_object_row k (tombstone k db)) \<subseteq> key_set (tombstone k db)"
    by (rule key_set_map [where f = "unlink_row k"]) (simp_all add: delete_object_row_alt)
  ultimately show "key_set (fst (snd (sweep_key del_ok k st))) \<subseteq> key_set (fst (snd st))"
    by (auto simp: st sweep_key_def Let_def)
qed (cases st, simp add: sweep_key_def Let_def tombstone_alt delete_object_row_alt)+

lemma sweep_fold_frame:
  "pg_jobs (fst (snd (foldl (\<lambda>st k. sweep_key del_ok k st) st ks))) = pg_jobs (fst (snd st)) \<and>
   pg_now (fst (snd (foldl (\<lambda>st k. sweep_key del_ok k st) st ks))) = pg_now (fst (snd st)) \<and>
   key_set (fst (snd (foldl (\<lambda>st k. sweep_key del_ok k st) st ks))) \<subseteq> key_set (fst (snd st))"
proof (induction ks arbitrary: st)
  case (Cons k ks)
  show ?case using Cons.IH [of "sweep_key del_ok k st"] sweep_key_frame [of del_ok k st] by auto
qed simp

lemma sweep_and_reap_frame:
  "pg_jobs (fst (snd (sweep_and_reap del_ok st))) = pg_jobs (fst st)"
  "pg_now (fst (snd (sweep_and_reap del_ok st))) = pg_now (fst st)"
  "key_set (fst (snd (sweep_and_reap del_ok st))) \<subseteq> key_set (fst st)"
proof -
  let ?st = "foldl (\<lambda>st k. sweep_key del_ok k st) (0, st) (sweep_candidates (fst st))"
  let ?db = "fst (snd ?st)"
  have res: "fst (snd (sweep_and_reap del_ok st)) = ?db\<lparr>pg_store_paths := filter (\<lambda>row. \<not> reapable ?db row) (pg_store_paths ?db)\<rparr>"
    by (simp add: sweep_and_reap_def Let_def case_prod_unfold)
  have f: "pg_jobs ?db = pg_jobs (fst st)" "pg_now ?db = pg_now (fst st)" "key_set ?db \<subseteq> key_set (fst st)"
    using sweep_fold_frame [of del_ok "(0, st)"] by simp_all
  show "pg_jobs (fst (snd (sweep_and_reap del_ok st))) = pg_jobs (fst st)"
    "pg_now (fst (snd (sweep_and_reap del_ok st))) = pg_now (fst st)" using res f by simp_all
  have "key_set (fst (snd (sweep_and_reap del_ok st))) \<subseteq> key_set ?db" unfolding res by (auto simp: key_set_def)
  then show "key_set (fst (snd (sweep_and_reap del_ok st))) \<subseteq> key_set (fst st)" using f(3) by blast
qed

text \<open>The passes over jobs leave the paths alone.\<close>

lemma map_jobs_frame [simp]:
  "pg_store_paths (map_jobs f db) = pg_store_paths db" "pg_objects (map_jobs f db) = pg_objects db"
  "pg_now (map_jobs f db) = pg_now db" "pg_fault (map_jobs f db) = pg_fault db"
  by (simp_all add: map_jobs_def)

lemma fetch_marked_mem:
  "fetch_marked jobs = Ok xs \<Longrightarrow> (i, l) \<in> set xs \<Longrightarrow> \<exists>r. (i, r) \<in> set jobs \<and> jb_log_key r = Some l \<and> jb_log_state r = LogMarked"
  by (induction jobs arbitrary: xs rule: fetch_marked.induct)
     (auto split: if_splits option.splits res.splits simp: bind_res_Ok_iff, blast+)

lemma sweep_logs_fold:
  assumes "bytes_inv (db, b)"
    and "\<And>i l row. (i, l) \<in> set marked \<Longrightarrow> row \<in> set (pg_store_paths db) \<Longrightarrow> pr_object_key (snd row) \<noteq> Some (ObjectKey l)"
  shows "bytes_inv (snd (foldl (\<lambda>st job. sweep_log del_ok job st) (n, db, b) marked)) \<and>
    pg_store_paths (fst (snd (foldl (\<lambda>st job. sweep_log del_ok job st) (n, db, b) marked))) = pg_store_paths db"
  using assms
proof (induction marked arbitrary: n db b)
  case (Cons job marked)
  obtain i l where job: "job = (i, l)" by (cases job)
  let ?f = "\<lambda>j r. if j = i \<and> jb_log_state r = LogMarked then r\<lparr>jb_log_state := LogPurged, jb_log_key := None\<rparr> else r"
  show ?case
  proof (cases "del_ok (ObjectKey l)")
    case True
    have "pr_object_key (snd row) \<noteq> Some (ObjectKey l)" if "row \<in> set (pg_store_paths db)" for row
      using Cons.prems(2) [of i l row] that by (simp add: job)
    then have "bytes_inv (map_jobs ?f db, filter (\<lambda>x. x \<noteq> ObjectKey l) b)"
      using Cons.prems(1) by (fastforce simp: bytes_inv_def row_has_bytes_def)
    then have "bytes_inv (snd (foldl (\<lambda>st job. sweep_log del_ok job st) (Suc n, map_jobs ?f db, filter (\<lambda>x. x \<noteq> ObjectKey l) b) marked)) \<and>
      pg_store_paths (fst (snd (foldl (\<lambda>st job. sweep_log del_ok job st) (Suc n, map_jobs ?f db, filter (\<lambda>x. x \<noteq> ObjectKey l) b) marked)))
        = pg_store_paths (map_jobs ?f db)"
      by (rule Cons.IH) (rule Cons.prems(2) [OF list.set_intros(2)], assumption, simp)
    then show ?thesis using True by (simp add: job sweep_log_def)
  next
    case False
    have "bytes_inv (snd (foldl (\<lambda>st job. sweep_log del_ok job st) (n, db, b) marked)) \<and>
      pg_store_paths (fst (snd (foldl (\<lambda>st job. sweep_log del_ok job st) (n, db, b) marked))) = pg_store_paths db"
      by (rule Cons.IH [OF Cons.prems(1)]) (rule Cons.prems(2) [OF list.set_intros(2)])
    then show ?thesis using False by (simp add: job sweep_log_def)
  qed
qed simp

lemma sweep_job_logs_bytes:
  assumes "bytes_inv (db, b)" and "logs_apart db"
  shows "bytes_inv (snd (sweep_job_logs del_ok (db, b)))"
    and "pg_store_paths (fst (snd (sweep_job_logs del_ok (db, b)))) = pg_store_paths db"
proof -
  have "pr_object_key (snd row) \<noteq> Some (ObjectKey l)"
    if "fetch_marked (pg_jobs db) = Ok marked" "(i, l) \<in> set marked" "row \<in> set (pg_store_paths db)" for marked i l row
    using fetch_marked_mem [OF that(1,2)] that(3) assms(2) by (fastforce simp: logs_apart_def)
  then have "bytes_inv (snd (foldl (\<lambda>st job. sweep_log del_ok job st) (0, db, b) marked)) \<and>
    pg_store_paths (fst (snd (foldl (\<lambda>st job. sweep_log del_ok job st) (0, db, b) marked))) = pg_store_paths db"
    if "fetch_marked (pg_jobs db) = Ok marked" for marked
    using that by (intro sweep_logs_fold [OF assms(1)]) blast
  then show "bytes_inv (snd (sweep_job_logs del_ok (db, b)))"
    "pg_store_paths (fst (snd (sweep_job_logs del_ok (db, b)))) = pg_store_paths db"
    using assms(1) by (simp_all add: sweep_job_logs_def Let_def case_prod_unfold split: res.splits)
qed

lemma bytes_inv_jobs:
  "pg_store_paths db' = pg_store_paths db \<Longrightarrow> pg_objects db' = pg_objects db \<Longrightarrow> bytes_inv (db', b) = bytes_inv (db, b)"
  by (simp add: bytes_inv_def)

lemma mark_expired_job_logs_frame:
  "pg_store_paths (snd (mark_expired_job_logs d db)) = pg_store_paths db"
  "pg_objects (snd (mark_expired_job_logs d db)) = pg_objects db"
  "pg_now (snd (mark_expired_job_logs d db)) = pg_now db"
  by (simp_all add: mark_expired_job_logs_def)

lemma mark_expired_job_logs_apart: "logs_apart db \<Longrightarrow> logs_apart (snd (mark_expired_job_logs d db))"
  by (fastforce simp: logs_apart_def mark_expired_job_logs_def map_jobs_def split: if_splits)

lemma reap_jobs_frame:
  "pg_store_paths (snd (reap_jobs d db)) = pg_store_paths db" "pg_objects (snd (reap_jobs d db)) = pg_objects db"
  by (simp_all add: reap_jobs_def)

lemma reclaim_frame:
  "pg_store_paths (snd (reclaim_stuck_running_jobs d db)) = pg_store_paths db"
  "pg_objects (snd (reclaim_stuck_running_jobs d db)) = pg_objects db"
  by (simp_all add: reclaim_stuck_running_jobs_def)

text \<open>The database after the part of a pass that deals with paths.\<close>

definition paths_pass :: "(object_key \<Rightarrow> bool) \<Rightarrow> tier_cutoffs \<Rightarrow> nat \<Rightarrow> pg \<times> bucket \<Rightarrow> pg \<times> bucket" where
  "paths_pass del_ok c n st =
     snd (sweep_and_reap del_ok (snd (mark_expired c (snd (drain_access_queue n (fst st)))), snd st))"

definition logs_pass :: "(object_key \<Rightarrow> bool) \<Rightarrow> job_retention \<Rightarrow> pg \<times> bucket \<Rightarrow> (gc_error, nat) res \<times> pg \<times> bucket" where
  "logs_pass del_ok ret st =
     sweep_job_logs del_ok (snd (mark_expired_job_logs (jr_log_after ret) (fst st)), snd st)"

lemma run_locked_state:
  assumes "pg_fault db = None"
  shows "snd (run_locked del_ok c ret n (db, b)) =
    (case logs_pass del_ok ret (paths_pass del_ok c n (db, b)) of
       (Ok _, db', b') \<Rightarrow> (snd (reclaim_stuck_running_jobs (jr_stuck_running_after ret) (snd (reap_jobs (jr_row_after ret) db'))), b')
     | (_, st') \<Rightarrow> st')"
  using assms
  by (simp add: run_locked_def logs_pass_def paths_pass_def Let_def case_prod_unfold split: res.splits)

lemma paths_pass_bytes: "bytes_inv st \<Longrightarrow> bytes_inv (paths_pass del_ok c n st)"
  unfolding paths_pass_def
  by (cases st) (simp add: sweep_and_reap_bytes mark_expired_bytes drain_access_queue_bytes)

lemma paths_pass_frame:
  "pg_jobs (fst (paths_pass del_ok c n st)) = pg_jobs (fst st)" "pg_now (fst (paths_pass del_ok c n st)) = pg_now (fst st)"
  "key_set (fst (paths_pass del_ok c n st)) \<subseteq> key_set (fst st)"
  unfolding paths_pass_def
  by (simp_all add: sweep_and_reap_frame mark_expired_frame drain_access_queue_frame)
     (rule order_trans [OF sweep_and_reap_frame(3)], simp,
      rule order_trans [OF mark_expired_frame(3) drain_access_queue_frame(3)])

lemma run_locked_bytes:
  assumes "pg_fault db = None" and inv: "bytes_inv (db, b)" and logs: "logs_apart db"
  shows "bytes_inv (snd (run_locked del_ok c ret n (db, b)))"
    and "pg_store_paths (fst (snd (run_locked del_ok c ret n (db, b)))) = pg_store_paths (fst (paths_pass del_ok c n (db, b)))"
proof -
  obtain db1 b1 where p: "paths_pass del_ok c n (db, b) = (db1, b1)" by fastforce
  have inv1: "bytes_inv (db1, b1)" using inv paths_pass_bytes p by metis
  have "pg_jobs db1 = pg_jobs db" "key_set db1 \<subseteq> key_set db" using paths_pass_frame [of del_ok c n "(db, b)"] p by simp_all
  then have logs1: "logs_apart db1" using logs logs_apart_mono by blast
  let ?db2 = "snd (mark_expired_job_logs (jr_log_after ret) db1)"
  have inv2: "bytes_inv (?db2, b1)" using inv1 by (simp add: bytes_inv_def mark_expired_job_logs_frame)
  have logs2: "logs_apart ?db2" using logs1 by (rule mark_expired_job_logs_apart)
  obtain res db3 b3 where s: "logs_pass del_ok ret (db1, b1) = (res, db3, b3)" by (metis prod_cases3)
  then have s': "sweep_job_logs del_ok (?db2, b1) = (res, db3, b3)" by (simp add: logs_pass_def)
  have inv3: "bytes_inv (db3, b3)" and sp3: "pg_store_paths db3 = pg_store_paths ?db2"
    using sweep_job_logs_bytes [OF inv2 logs2, of del_ok] s' by simp_all
  have state: "snd (run_locked del_ok c ret n (db, b)) = (case res of
      Ok _ \<Rightarrow> (snd (reclaim_stuck_running_jobs (jr_stuck_running_after ret) (snd (reap_jobs (jr_row_after ret) db3))), b3)
    | _ \<Rightarrow> (db3, b3))"
    using run_locked_state [OF assms(1), of del_ok c ret n b] by (simp add: p s split: res.splits)
  have "bytes_inv (snd (reclaim_stuck_running_jobs d (snd (reap_jobs d' db3))), b3)" for d d'
    using inv3 by (simp add: bytes_inv_def reclaim_frame reap_jobs_frame)
  then show "bytes_inv (snd (run_locked del_ok c ret n (db, b)))" using inv3 by (simp add: state split: res.splits)
  show "pg_store_paths (fst (snd (run_locked del_ok c ret n (db, b)))) = pg_store_paths (fst (paths_pass del_ok c n (db, b)))"
    by (simp add: state p sp3 mark_expired_job_logs_frame reclaim_frame reap_jobs_frame split: res.splits)
qed

subsection \<open>Protected paths survive\<close>

definition kept :: "path_row \<Rightarrow> path_row \<Rightarrow> bool" where
  "kept r r' \<longleftrightarrow> pr_state r' = Live \<and> pr_object_key r' = pr_object_key r \<and> pr_refs r' = pr_refs r"

lemma kept_trans: "kept r r' \<Longrightarrow> kept r' r'' \<Longrightarrow> kept r r''"
  by (simp add: kept_def)

lemma drain_row_pr:
  "pr_refs (snd (drain_row q row)) = pr_refs (snd row)" "pr_tier (snd (drain_row q row)) = pr_tier (snd row)"
  "pr_last_access (snd row) \<le> pr_last_access (snd (drain_row q row))"
  "pr_state (snd row) = Live \<Longrightarrow> pr_state (snd (drain_row q row)) = Live"
  by (cases "folded_at q (fst row)", simp_all add: drain_row_def Let_def)+

lemma drain_row_fresh:
  "within_cutoff c now (snd row) \<Longrightarrow> within_cutoff c now (snd (drain_row q row))"
  "past_cutoff c now (snd (drain_row q row)) \<Longrightarrow> past_cutoff c now (snd row)"
  using drain_row_pr(3) [where q = q and row = row]
  by (auto simp: within_cutoff_def past_cutoff_def drain_row_pr(2) split: option.splits)

lemma row_refs_drain: "row_refs (map (drain_row q) rows) k = row_refs rows k"
  by (induction rows) (auto simp: row_refs_def drain_row_keeps drain_row_pr split: option.splits)

lemma fresh_seeds_drain: "set (fresh_seeds c db) \<subseteq> set (fresh_seeds c (snd (drain_access_queue n db)))"
proof
  fix k assume "k \<in> set (fresh_seeds c db)"
  then obtain row where row: "row \<in> set (pg_store_paths db)" "pr_state (snd row) = Live"
      "within_cutoff c (pg_now db) (snd row)" "k = fst row"
    by (auto simp: fresh_seeds_def)
  let ?row = "drain_row (take n (sort_key (snd \<circ> snd) (pg_path_access db))) row"
  have "?row \<in> set (pg_store_paths (snd (drain_access_queue n db)))" "fst ?row = k" "pr_state (snd ?row) = Live"
    "within_cutoff c (pg_now db) (snd ?row)"
    using row by (simp_all add: drain_access_queue_def Let_def drain_row_keeps drain_row_pr drain_row_fresh)
  then show "k \<in> set (fresh_seeds c (snd (drain_access_queue n db)))"
    by (force simp: fresh_seeds_def drain_access_queue_frame(2) case_prod_unfold)
qed

lemma protected_key_drain:
  "protected_key (pg_store_paths db) (set (fresh_seeds c db)) k \<Longrightarrow>
   protected_key (pg_store_paths (snd (drain_access_queue n db))) (set (fresh_seeds c (snd (drain_access_queue n db)))) k"
proof (induction rule: protected_key.induct)
  case (ref k k')
  then show ?case
    by (auto simp: drain_access_queue_def Let_def row_refs_drain intro: protected_key.ref)
qed (use fresh_seeds_drain in \<open>blast intro: protected_key.seed\<close>)

lemma sweep_fold_keeps:
  assumes "(key, r) \<in> set (pg_store_paths db)" and "pr_state r = Live" and "\<And>k. k \<in> set ks \<Longrightarrow> pr_object_key r \<noteq> Some k"
  shows "(key, r) \<in> set (pg_store_paths (fst (snd (foldl (\<lambda>st k. sweep_key del_ok k st) (n, db, b) ks))))"
  using assms
proof (induction ks arbitrary: n db b)
  case (Cons k ks)
  have "(key, r) = tombstone_row k (key, r)" "(key, r) = unlink_row k (key, r)"
    using Cons.prems by (simp_all add: tombstone_row_def unlink_row_def)
  note same = this
  have t: "(key, r) \<in> set (pg_store_paths (tombstone k db))"
    using same(1) Cons.prems(1) by (simp add: tombstone_alt image_eqI)
  then have u: "(key, r) \<in> set (pg_store_paths (delete_object_row k (tombstone k db)))"
    using same(2) by (simp add: delete_object_row_alt image_eqI)
  show ?case using Cons.IH [OF t Cons.prems(2)] Cons.IH [OF u Cons.prems(2)] Cons.prems(3)
    by (simp add: sweep_key_def Let_def)
qed simp

lemma sweep_and_reap_keeps:
  assumes "(key, r) \<in> set (pg_store_paths (fst st))" and "pr_state r = Live"
  shows "(key, r) \<in> set (pg_store_paths (fst (snd (sweep_and_reap del_ok st))))"
proof -
  let ?db = "fst (snd (foldl (\<lambda>st k. sweep_key del_ok k st) (0, st) (sweep_candidates (fst st))))"
  have "pr_object_key r \<noteq> Some k" if "k \<in> set (sweep_candidates (fst st))" for k
    using sweep_candidates_not_live [OF that] assms by (fastforce simp: refers_def)
  then have "(key, r) \<in> set (pg_store_paths ?db)"
    using sweep_fold_keeps [of key r "fst st" _ del_ok 0 "snd st"] assms by simp
  then show ?thesis using assms(2) by (simp add: sweep_and_reap_def Let_def case_prod_unfold reapable_def)
qed

lemma paths_pass_keeps:
  assumes "(key, r) \<in> set (pg_store_paths (fst st))" and "pr_state r = Live"
    and "protected_key (pg_store_paths (fst st)) (set (fresh_seeds c (fst st))) key \<or> \<not> past_cutoff c (pg_now (fst st)) r"
  shows "\<exists>r'. (key, r') \<in> set (pg_store_paths (fst (paths_pass del_ok c n st))) \<and> kept r r'"
proof -
  let ?q = "take n (sort_key (snd \<circ> snd) (pg_path_access (fst st)))"
  let ?db1 = "snd (drain_access_queue n (fst st))"
  let ?db2 = "snd (mark_expired c ?db1)"
  define r1 where "r1 = snd (drain_row ?q (key, r))"
  have "drain_row ?q (key, r) = (key, r1)" using drain_row_keeps [of ?q "(key, r)"] by (simp add: r1_def prod_eq_iff)
  then have m1: "(key, r1) \<in> set (pg_store_paths ?db1)"
    using assms(1) by (force simp: drain_access_queue_def Let_def)
  have k1: "kept r r1" using assms(2) drain_row_keeps [of ?q "(key, r)"] drain_row_pr [where q = ?q and row = "(key, r)"]
    by (simp add: kept_def r1_def)
  have "\<not> expired c ?db1 (key, r1)"
    using assms(3) protected_key_drain [of "fst st" c key n] drain_row_fresh(2) [where q = ?q and row = "(key, r)" and c = c and now = "pg_now (fst st)"]
    by (auto simp: expired_def fresh_eq drain_access_queue_frame(2) r1_def)
  then have m2: "(key, r1) \<in> set (pg_store_paths ?db2)"
    using m1 by (force simp: mark_expired_def)
  have "pr_state r1 = Live" using k1 by (simp add: kept_def)
  then show ?thesis using sweep_and_reap_keeps [of key r1 "(?db2, snd st)" del_ok] m2 k1
    by (auto simp: paths_pass_def)
qed

text \<open>
  C32: A collector pass that no writer interferes with keeps every path it promises to keep: a
  live path that is within its cutoff, or that a fresh path of the tenant reaches along its
  references, is still live afterwards with the same references and the same object, the
  object's row is there and its bytes are in the bucket. This holds whether the pass succeeds or
  stops with an error, and whichever deletes the object store refuses, provided that before the
  pass every path not being purged had its bytes and no job log has the key of a path's object.
\<close>

theorem gc_keeps_protected_paths:
  assumes "bytes_inv (db, b)" and "logs_apart db"
    and "(key, r) \<in> set (pg_store_paths db)" and "pr_state r = Live"
    and "protected_key (pg_store_paths db) (set (fresh_seeds c db)) key \<or> \<not> past_cutoff c (pg_now db) r"
    and "snd (run_gc_pass_on lock_free del_ok c ret n (db, b)) = (db', b')"
  shows "\<exists>r' k. (key, r') \<in> set (pg_store_paths db') \<and> pr_state r' = Live \<and> pr_refs r' = pr_refs r \<and>
    pr_object_key r' = Some k \<and> pr_object_key r = Some k \<and> map_of (pg_objects db') k \<noteq> None \<and> k \<in> set b' \<and>
    bytes_inv (db', b')"
proof -
  have "bytes_inv (db', b') \<and> (\<exists>r'. (key, r') \<in> set (pg_store_paths db') \<and> kept r r')"
  proof (cases "pg_fault db = None \<and> lock_free")
    case True
    then have st: "snd (run_locked del_ok c ret n (db, b)) = (db', b')" using assms(6) by (simp add: run_gc_pass_on_def)
    have "bytes_inv (db', b')" "pg_store_paths db' = pg_store_paths (fst (paths_pass del_ok c n (db, b)))"
      using run_locked_bytes [OF _ assms(1,2), of del_ok c ret n] True by (simp_all add: st)
    then show ?thesis using paths_pass_keeps [of key r "(db, b)" c del_ok n] assms(3-5) by simp
  next
    case False
    then have "(db', b') = (db, b)" using assms(6) by (auto simp: run_gc_pass_on_def split: option.splits)
    then show ?thesis using assms(1,3,4) by (auto simp: kept_def)
  qed
  then obtain r' where inv: "bytes_inv (db', b')" and r': "(key, r') \<in> set (pg_store_paths db')" "kept r r'" by blast
  then have "row_has_bytes (pg_objects db') b' r'" unfolding bytes_inv_def by fastforce
  then show ?thesis using inv r' by (auto simp: row_has_bytes_def kept_def)
qed

definition gc_row :: "string \<Rightarrow> string list \<Rightarrow> string \<Rightarrow> nat \<Rightarrow> path_row" where
  "gc_row ti refs k at =
     \<lparr>pr_hash_part = ''h'', pr_deriver = None, pr_nar_hash_algo = ''sha256'', pr_nar_hash = [], pr_nar_size = 0,
      pr_registration_time = 0, pr_ultimate = False, pr_refs = map StorePath refs, pr_sigs = [],
      pr_object_key = Some (ObjectKey k), pr_tier = ti, pr_substituted_from_url = None,
      pr_substituted_from_key = None, pr_last_access = at, pr_state = Live, pr_marked_at = None\<rparr>"

definition gc_object :: "string \<Rightarrow> object_key \<times> object_row" where
  "gc_object k = (ObjectKey k, \<lparr>or_file_size = 0, or_file_hash = [], or_compression = ''none''\<rparr>)"

definition gc_key :: "string \<Rightarrow> tenant_id \<times> store_path" where
  "gc_key p = (TenantId ''t'', StorePath p)"

text \<open>
  An application read an hour ago, its library last read a year ago and an equally old path that
  nothing refers to.
\<close>

definition gc_db :: "string \<Rightarrow> pg" where
  "gc_db ti = pg_empty\<lparr>pg_now := 400 * 24 * 3600,
     pg_objects := [gc_object ''app'', gc_object ''lib'', gc_object ''old''],
     pg_store_paths := [(gc_key ''app'', gc_row ti [''lib''] ''app'' (400 * 24 * 3600 - 3600)),
        (gc_key ''lib'', gc_row ''built'' [] ''lib'' 0), (gc_key ''old'', gc_row ''built'' [] ''old'' 0)]\<rparr>"

definition gc_bucket :: bucket where
  "gc_bucket = [ObjectKey ''app'', ObjectKey ''lib'', ObjectKey ''old'']"

lemmas gc_example = gc_db_def gc_bucket_def gc_row_def gc_object_def gc_key_def pg_empty_def

abbreviation gc_after :: "string \<Rightarrow> pg \<times> bucket" where
  "gc_after ti \<equiv> snd (run_gc_pass_on True (\<lambda>_. True) default_cutoffs default_retention 100 (gc_db ti, gc_bucket))"

lemma gc_db_inv: "bytes_inv (gc_db ti, gc_bucket)" "logs_apart (gc_db ti)"
  by (simp_all add: bytes_inv_def row_has_bytes_def logs_apart_def gc_example)

lemmas gc_eval = fresh_def fresh_seeds_def within_cutoff_def past_cutoff_def cutoff_def row_refs_def expired_def
  default_cutoffs_def default_retention_def

lemma gc_lib_protected:
  "protected_key (pg_store_paths (gc_db ''built'')) (set (fresh_seeds default_cutoffs (gc_db ''built''))) (gc_key ''lib'')"
proof -
  have "gc_key ''lib'' \<in> set (fresh default_cutoffs (gc_db ''built''))" by (simp add: gc_eval gc_example)
  then show ?thesis by (simp add: fresh_eq)
qed

lemma gc_keeps_protected_paths_witness:
  "\<exists>r' k. (gc_key ''lib'', r') \<in> set (pg_store_paths (fst (gc_after ''built''))) \<and> pr_state r' = Live \<and>
     pr_refs r' = [] \<and> pr_object_key r' = Some k \<and> k = ObjectKey ''lib'' \<and>
     map_of (pg_objects (fst (gc_after ''built''))) k \<noteq> None \<and> k \<in> set (snd (gc_after ''built'')) \<and>
     bytes_inv (gc_after ''built'')"
  using gc_keeps_protected_paths [OF gc_db_inv, of "gc_key ''lib''" "gc_row ''built'' [] ''lib'' 0" "''built''"
      default_cutoffs True "\<lambda>_. True" default_retention 100 "fst (gc_after ''built'')" "snd (gc_after ''built'')"]
    gc_lib_protected
  by (simp add: gc_example)

lemmas gc_run = run_gc_pass_on_def run_locked_def drain_access_queue_def drain_row_def folded_at_def mark_expired_def
  sweep_and_reap_def sweep_candidates_def sweep_key_def tombstone_def delete_object_row_def reapable_def
  mark_expired_job_logs_def sweep_job_logs_def reap_jobs_def reclaim_stuck_running_jobs_def map_jobs_def

lemma gc_collects_old:
  "map fst (pg_store_paths (fst (gc_after ''built''))) = [gc_key ''app'', gc_key ''lib'']"
  "snd (gc_after ''built'') = [ObjectKey ''app'', ObjectKey ''lib'']"
  by (simp_all add: gc_run gc_eval gc_example)

subsection \<open>Logs are never lost track of\<close>

definition purged_inv :: "pg \<Rightarrow> bool" where
  "purged_inv db \<longleftrightarrow> (\<forall>job \<in> set (pg_jobs db). jb_log_state (snd job) \<noteq> LogPurged \<or> jb_log_key (snd job) = None)"

definition log_known :: "pg \<Rightarrow> string \<Rightarrow> bool" where
  "log_known db l \<longleftrightarrow> Some l \<in> (\<lambda>job. jb_log_key (snd job)) ` set (pg_jobs db)"

lemma map_jobs_mem: "(i, r') \<in> set (pg_jobs (map_jobs f db)) \<longleftrightarrow> (\<exists>r. (i, r) \<in> set (pg_jobs db) \<and> r' = f i r)"
  by (auto simp: map_jobs_def)

lemma log_known_iff: "log_known db l \<longleftrightarrow> (\<exists>i r. (i, r) \<in> set (pg_jobs db) \<and> jb_log_key r = Some l)"
  by (force simp: log_known_def)

lemma purged_inv_iff: "purged_inv db \<longleftrightarrow> (\<forall>i r. (i, r) \<in> set (pg_jobs db) \<longrightarrow> jb_log_state r = LogPurged \<longrightarrow> jb_log_key r = None)"
  by (auto simp: purged_inv_def)

text \<open>The log sweep forgets a key only together with its bytes.\<close>

definition log_step :: "pg \<times> bucket \<Rightarrow> pg \<times> bucket \<Rightarrow> bool" where
  "log_step st st' \<longleftrightarrow> (purged_inv (fst st) \<longrightarrow> purged_inv (fst st')) \<and> set (snd st') \<subseteq> set (snd st) \<and>
     (\<forall>l. log_known (fst st) l \<longrightarrow> ObjectKey l \<in> set (snd st') \<longrightarrow> purged_inv (fst st) \<longrightarrow> log_known (fst st') l)"

lemma log_step_refl: "log_step st st" by (simp add: log_step_def)

lemma log_step_trans: "log_step st st' \<Longrightarrow> log_step st' st'' \<Longrightarrow> log_step st st''"
  by (auto simp: log_step_def)

lemma log_step_jobs: "pg_jobs (fst st') = pg_jobs (fst st) \<Longrightarrow> set (snd st') \<subseteq> set (snd st) \<Longrightarrow> log_step st st'"
  by (simp add: log_step_def purged_inv_def log_known_def)

lemma sweep_log_step:
  assumes "\<And>r. (i, r) \<in> set (pg_jobs db) \<Longrightarrow> jb_log_key r = Some l \<or> jb_log_state r \<noteq> LogMarked"
  shows "log_step (db, b) (snd (sweep_log del_ok (i, l) (n, db, b)))"
proof (cases "del_ok (ObjectKey l)")
  case True
  let ?f = "\<lambda>j r. if j = i \<and> jb_log_state r = LogMarked then r\<lparr>jb_log_state := LogPurged, jb_log_key := None\<rparr> else r"
  have "log_known (map_jobs ?f db) l'" if known: "log_known db l'" and l': "l' \<noteq> l" for l'
  proof -
    obtain j r where r: "(j, r) \<in> set (pg_jobs db)" "jb_log_key r = Some l'" using known by (auto simp: log_known_iff)
    then have "?f j r = r" using assms [of r] l' by auto
    then have "(j, r) \<in> set (pg_jobs (map_jobs ?f db))" using r(1) unfolding map_jobs_mem by metis
    then show ?thesis using r(2) unfolding log_known_iff by blast
  qed
  then show ?thesis using True by (auto simp: log_step_def sweep_log_def purged_inv_iff map_jobs_mem)
qed (simp add: sweep_log_def log_step_refl)

lemma sweep_log_mem:
  assumes "(j, r) \<in> set (pg_jobs (fst (snd (sweep_log del_ok (i, l) (n, db, b)))))"
  shows "\<exists>r0. (j, r0) \<in> set (pg_jobs db) \<and> (r = r0 \<or> jb_log_state r = LogPurged)"
proof (cases "del_ok (ObjectKey l)")
  case True
  then obtain r0 where "(j, r0) \<in> set (pg_jobs db)"
      "r = (if j = i \<and> jb_log_state r0 = LogMarked then r0\<lparr>jb_log_state := LogPurged, jb_log_key := None\<rparr> else r0)"
    using assms unfolding sweep_log_def Let_def by (auto simp: map_jobs_mem simp del: if_split)
  then show ?thesis by (cases "j = i \<and> jb_log_state r0 = LogMarked") auto
qed (use assms in \<open>auto simp: sweep_log_def\<close>)

lemma distinct_marked:
  "fetch_marked jobs = Ok xs \<Longrightarrow> distinct (map fst jobs) \<Longrightarrow> (i, l) \<in> set xs \<Longrightarrow> (i, r) \<in> set jobs \<Longrightarrow> jb_log_key r = Some l"
  using fetch_marked_mem [of jobs xs i l] by (metis eq_key_imp_eq_value)

lemma sweep_logs_fold_step:
  assumes "\<And>i l r. (i, l) \<in> set marked \<Longrightarrow> (i, r) \<in> set (pg_jobs db) \<Longrightarrow> jb_log_key r = Some l \<or> jb_log_state r \<noteq> LogMarked"
  shows "log_step (db, b) (snd (foldl (\<lambda>st job. sweep_log del_ok job st) (n, db, b) marked))"
  using assms
proof (induction marked arbitrary: n db b)
  case (Cons job marked)
  obtain i l where job: "job = (i, l)" by (cases job)
  obtain n' db' b' where st: "sweep_log del_ok (i, l) (n, db, b) = (n', db', b')" by (metis prod_cases3)
  have step: "log_step (db, b) (db', b')"
    using sweep_log_step [of i db l b del_ok n] Cons.prems [of i l] by (simp add: st job)
  have "jb_log_key r = Some l' \<or> jb_log_state r \<noteq> LogMarked" if "(j, l') \<in> set marked" "(j, r) \<in> set (pg_jobs db')" for j l' r
  proof -
    have "\<exists>r0. (j, r0) \<in> set (pg_jobs db) \<and> (r = r0 \<or> jb_log_state r = LogPurged)"
      using sweep_log_mem [of j r del_ok i l n db b] that(2) by (simp add: st)
    then show ?thesis using Cons.prems [of j l'] that(1) by auto
  qed
  then show ?case using step Cons.IH [of db' b' n'] by (simp add: job st) (blast intro: log_step_trans)
qed (simp add: log_step_refl)

lemma sweep_job_logs_step:
  assumes "distinct (map fst (pg_jobs db))"
  shows "log_step (db, b) (snd (sweep_job_logs del_ok (db, b)))"
proof (cases "fetch_marked (pg_jobs db)")
  case (Ok marked)
  have "log_step (db, b) (snd (foldl (\<lambda>st job. sweep_log del_ok job st) (0, db, b) marked))"
    by (rule sweep_logs_fold_step) (use distinct_marked [OF Ok assms] in blast)
  then show ?thesis by (simp add: sweep_job_logs_def Ok case_prod_unfold Let_def)
qed (simp_all add: sweep_job_logs_def log_step_refl)

lemma log_step_map_jobs:
  assumes "\<And>i r. jb_log_key (f i r) = jb_log_key r \<and> (jb_log_state (f i r) = LogPurged \<longrightarrow> jb_log_state r = LogPurged)"
  shows "log_step (db, b) (map_jobs f db, b)"
proof -
  have "purged_inv (map_jobs f db)" if "purged_inv db"
    using that assms unfolding purged_inv_iff map_jobs_mem by metis
  moreover have "log_known (map_jobs f db) l" if "log_known db l" for l
    using that assms unfolding log_known_iff map_jobs_mem by metis
  ultimately show ?thesis by (simp add: log_step_def)
qed

lemma mark_expired_job_logs_step: "log_step (db, b) (snd (mark_expired_job_logs d db), b)"
  unfolding mark_expired_job_logs_def snd_conv by (rule log_step_map_jobs) simp

lemma reclaim_step: "log_step (db, b) (snd (reclaim_stuck_running_jobs d db), b)"
  unfolding reclaim_stuck_running_jobs_def snd_conv by (rule log_step_map_jobs) simp

lemma reap_jobs_step: "log_step (db, b) (snd (reap_jobs d db), b)"
proof -
  have "log_known (snd (reap_jobs d db)) l" if "log_known db l" "purged_inv db" for l
    using that unfolding log_known_iff purged_inv_iff reap_jobs_def job_reapable_def by fastforce
  moreover have "purged_inv (snd (reap_jobs d db))" if "purged_inv db"
    using that unfolding purged_inv_iff reap_jobs_def by auto
  ultimately show ?thesis by (simp add: log_step_def)
qed

lemma sweep_fold_bucket: "set (snd (snd (foldl (\<lambda>st k. sweep_key del_ok k st) st ks))) \<subseteq> set (snd (snd st))"
proof (induction ks arbitrary: st)
  case (Cons k ks)
  have "set (snd (snd (sweep_key del_ok k st))) \<subseteq> set (snd (snd st))"
    by (cases st) (auto simp: sweep_key_def Let_def)
  then show ?case using Cons.IH [of "sweep_key del_ok k st"] by auto
qed simp

lemma paths_pass_step: "log_step st (paths_pass del_ok c n st)"
proof (rule log_step_jobs)
  have "set (snd (snd (sweep_and_reap del_ok st))) \<subseteq> set (snd st)" for st
    using sweep_fold_bucket [of del_ok "(0, st)"] by (simp add: sweep_and_reap_def case_prod_unfold Let_def)
  from this [of "(snd (mark_expired c (snd (drain_access_queue n (fst st)))), snd st)"]
  show "set (snd (paths_pass del_ok c n st)) \<subseteq> set (snd st)" by (simp add: paths_pass_def)
qed (simp add: paths_pass_frame)

lemma mark_expired_job_logs_ids: "map fst (pg_jobs (snd (mark_expired_job_logs d db))) = map fst (pg_jobs db)"
  by (simp add: mark_expired_job_logs_def map_jobs_def case_prod_unfold)

lemma run_locked_step:
  assumes "pg_fault db = None" and "distinct (map fst (pg_jobs db))"
  shows "log_step (db, b) (snd (run_locked del_ok c ret n (db, b)))"
proof -
  obtain db1 b1 where p: "paths_pass del_ok c n (db, b) = (db1, b1)" by fastforce
  have s1: "log_step (db, b) (db1, b1)" using paths_pass_step p by metis
  let ?db2 = "snd (mark_expired_job_logs (jr_log_after ret) db1)"
  obtain res db3 b3 where s: "logs_pass del_ok ret (db1, b1) = (res, db3, b3)" by (metis prod_cases3)
  have "distinct (map fst (pg_jobs ?db2))"
    using assms(2) paths_pass_frame(1) [of del_ok c n "(db, b)"] by (simp add: p mark_expired_job_logs_ids)
  then have "log_step (?db2, b1) (db3, b3)" using sweep_job_logs_step [of ?db2 b1 del_ok] s by (simp add: logs_pass_def)
  then have s3: "log_step (db, b) (db3, b3)"
    by (rule log_step_trans [OF log_step_trans [OF s1 mark_expired_job_logs_step]])
  have "log_step (db, b) (snd (reclaim_stuck_running_jobs d (snd (reap_jobs d' db3))), b3)" for d d'
    by (rule log_step_trans [OF log_step_trans [OF s3 reap_jobs_step] reclaim_step])
  then show ?thesis using s3 by (simp add: run_locked_state [OF assms(1)] p s split: res.splits)
qed

text \<open>
  The collector never loses track of an archived build log: after a pass, every log that some
  job row named before and whose bytes are still in the bucket is still named by a job row, so a
  later pass can find and delete it. A row is reaped only once its log is purged, and a log is
  purged only together with its bytes, whichever deletes the object store refuses and whether or
  not the pass fails half-way. It needs that job ids are unique and that a purged row names no
  log, and the latter holds again afterwards.
\<close>

theorem gc_orphans_no_log:
  assumes "distinct (map fst (pg_jobs db))" and "purged_inv db"
    and "snd (run_gc_pass_on lock_free del_ok c ret n (db, b)) = (db', b')"
    and "log_known db l" and "ObjectKey l \<in> set b'"
  shows "log_known db' l \<and> purged_inv db'"
proof -
  have "log_step (db, b) (db', b')"
    using run_locked_step [OF _ assms(1), of b del_ok c ret n] assms(3)
    by (auto simp: run_gc_pass_on_def log_step_refl split: option.splits if_splits)
  then show ?thesis using assms(2,4,5) by (simp add: log_step_def)
qed

definition gc_job :: "string \<Rightarrow> nat \<Rightarrow> nat option \<Rightarrow> string option \<Rightarrow> job_row" where
  "gc_job status created finished lk =
     \<lparr>jb_tenant = TenantId ''t'', jb_derivation_path = StorePath ''d'', jb_system = ''x86_64-linux'', jb_status = status,
      jb_error_msg = None, jb_output_paths = [], jb_log_key = lk, jb_created_at = created, jb_finished_at = finished,
      jb_failure_kind = None, jb_log_state = LogPresent\<rparr>"

definition logs_db :: pg where
  "logs_db = pg_empty\<lparr>pg_now := 8 * 24 * 3600,
     pg_jobs := [(1, gc_job ''completed'' 0 (Some 60) (Some ''l1'')), (2, gc_job ''completed'' 0 (Some 60) (Some ''l2''))]\<rparr>"

lemmas logs_example = logs_db_def gc_job_def pg_empty_def default_retention_def

lemmas jobs_eval = run_gc_pass_on_def run_locked_def drain_access_queue_def mark_expired_def
  sweep_and_reap_def sweep_candidates_def mark_expired_job_logs_def log_expired_def finished_before_def sweep_job_logs_def
  sweep_log_def reap_jobs_def job_reapable_def reclaim_stuck_running_jobs_def stuck_def map_jobs_def count_jobs_def

lemma gc_orphans_no_log_witness:
  "log_known (fst (snd (run_gc_pass_on True (\<lambda>k. k = ObjectKey ''l1'') default_cutoffs default_retention 9
      (logs_db, [ObjectKey ''l1'', ObjectKey ''l2''])))) ''l2''"
proof -
  let ?st = "snd (run_gc_pass_on True (\<lambda>k. k = ObjectKey ''l1'') default_cutoffs default_retention 9
      (logs_db, [ObjectKey ''l1'', ObjectKey ''l2'']))"
  have "ObjectKey ''l2'' \<in> set (snd ?st)" by (simp add: jobs_eval logs_example)
  then show ?thesis
    using gc_orphans_no_log [of logs_db True "\<lambda>k. k = ObjectKey ''l1''" default_cutoffs default_retention 9
        "[ObjectKey ''l1'', ObjectKey ''l2'']" "fst ?st" "snd ?st" "''l2''"]
    by (simp add: logs_example purged_inv_def log_known_def)
qed

subsection \<open>Where the collector goes wrong\<close>

text \<open>A run of passes at the given times.\<close>

fun gc_passes ::
  "(object_key \<Rightarrow> bool) \<Rightarrow> tier_cutoffs \<Rightarrow> job_retention \<Rightarrow> nat \<Rightarrow> nat list \<Rightarrow> pg \<times> bucket \<Rightarrow> (gc_error, gc_stats) res list" where
  "gc_passes del_ok c ret n [] st = []"
| "gc_passes del_ok c ret n (t # ts) st =
     (let (res, st') = run_gc_pass_on True del_ok c ret n ((fst st)\<lparr>pg_now := t\<rparr>, snd st)
      in res # gc_passes del_ok c ret n ts st')"

text \<open>A finished job that never had a log: what is left of a reservation nobody completed.\<close>

definition unlogged :: "uuid \<Rightarrow> nat \<Rightarrow> pg \<Rightarrow> bool" where
  "unlogged i at db \<longleftrightarrow> (\<exists>r. (i, r) \<in> set (pg_jobs db) \<and> jb_log_key r = None \<and> jb_finished_at r = Some at \<and>
     jb_log_state r \<noteq> LogPurged)"

lemma fetch_marked_null:
  "(i, r) \<in> set jobs \<Longrightarrow> jb_log_state r = LogMarked \<Longrightarrow> jb_log_key r = None \<Longrightarrow>
   fetch_marked jobs = Err (Database ''unexpected null; try decoding as an Option'')"
  by (induction jobs rule: fetch_marked.induct) (auto split: option.splits)

lemma logs_pass_null:
  assumes "unlogged i at (fst st)" and "at + jr_log_after ret < pg_now (fst st)"
  shows "\<exists>e. fst (logs_pass del_ok ret st) = Err e" and "unlogged i at (fst (snd (logs_pass del_ok ret st)))"
proof -
  obtain r where r: "(i, r) \<in> set (pg_jobs (fst st))" "jb_log_key r = None" "jb_finished_at r = Some at" "jb_log_state r \<noteq> LogPurged"
    using assms(1) by (auto simp: unlogged_def)
  let ?db = "snd (mark_expired_job_logs (jr_log_after ret) (fst st))"
  have marked: "(i, r\<lparr>jb_log_state := LogMarked\<rparr>) \<in> set (pg_jobs ?db)"
  proof (cases "jb_log_state r")
    case LogPresent
    then have "log_expired (jr_log_after ret) (fst st) r" using r assms(2) by (simp add: log_expired_def finished_before_def)
    then show ?thesis using r by (auto simp: mark_expired_job_logs_def map_jobs_mem intro: exI [of _ r])
  next
    case LogMarked
    then have "\<not> log_expired (jr_log_after ret) (fst st) r" "r\<lparr>jb_log_state := LogMarked\<rparr> = r" by (simp_all add: log_expired_def)
    then show ?thesis using r by (auto simp: mark_expired_job_logs_def map_jobs_mem intro: exI [of _ r])
  qed (use r in simp)
  then have "fetch_marked (pg_jobs ?db) = Err (Database ''unexpected null; try decoding as an Option'')"
    by (rule fetch_marked_null) (simp_all add: r)
  then have eq: "logs_pass del_ok ret st = (Err (Database ''unexpected null; try decoding as an Option''), ?db, snd st)"
    by (simp add: logs_pass_def sweep_job_logs_def)
  show "\<exists>e. fst (logs_pass del_ok ret st) = Err e" by (simp add: eq)
  show "unlogged i at (fst (snd (logs_pass del_ok ret st)))"
    using marked r by (auto simp: eq unlogged_def intro!: exI [of _ "r\<lparr>jb_log_state := LogMarked\<rparr>"])
qed

lemma run_locked_result:
  assumes "pg_fault db = None" and "fst (logs_pass del_ok ret (paths_pass del_ok c n (db, b))) = Err e"
  shows "run_locked del_ok c ret n (db, b) = (Err e, snd (logs_pass del_ok ret (paths_pass del_ok c n (db, b))))"
  using assms
  by (cases "logs_pass del_ok ret (paths_pass del_ok c n (db, b))")
     (auto simp: run_locked_def logs_pass_def paths_pass_def Let_def case_prod_unfold)

lemma pass_null:
  assumes "unlogged i at db" and "at + jr_log_after ret < pg_now db"
  shows "(\<exists>e. fst (run_gc_pass_on True del_ok c ret n (db, b)) = Err e) \<and>
    unlogged i at (fst (snd (run_gc_pass_on True del_ok c ret n (db, b))))"
proof (cases "pg_fault db")
  case None
  let ?st = "paths_pass del_ok c n (db, b)"
  have "unlogged i at (fst ?st)" "at + jr_log_after ret < pg_now (fst ?st)"
    using assms by (simp_all add: unlogged_def paths_pass_frame)
  from logs_pass_null [OF this] obtain e where e: "fst (logs_pass del_ok ret ?st) = Err e"
    and u: "unlogged i at (fst (snd (logs_pass del_ok ret ?st)))" by blast
  show ?thesis using run_locked_result [OF None e] u None by (simp add: run_gc_pass_on_def)
qed (use assms in \<open>simp add: run_gc_pass_on_def\<close>)

lemma gc_passes_null:
  assumes "unlogged i at (fst st)" and "\<And>t. t \<in> set ts \<Longrightarrow> at + jr_log_after ret < t"
  shows "list_all (\<lambda>res. \<exists>e. res = Err e) (gc_passes del_ok c ret n ts st)"
  using assms
proof (induction ts arbitrary: st)
  case (Cons t ts)
  have u: "unlogged i at ((fst st)\<lparr>pg_now := t\<rparr>)" using Cons.prems by (simp add: unlogged_def)
  from pass_null [OF this, of ret del_ok c n "snd st"] show ?case
    using Cons by (auto simp: case_prod_unfold Let_def)
qed simp

lemma fetch_marked_no_panic: "fetch_marked jobs \<noteq> Panic"
  by (induction jobs rule: fetch_marked.induct) (auto simp: bind_res_Panic_iff split: option.splits)

lemma sweep_logs_fold_keeps:
  "(i, r) \<in> set (pg_jobs db) \<Longrightarrow> jb_log_state r \<noteq> LogMarked \<Longrightarrow>
   (i, r) \<in> set (pg_jobs (fst (snd (foldl (\<lambda>st job. sweep_log del_ok job st) (n, db, b) marked)))) \<and>
   pg_now (fst (snd (foldl (\<lambda>st job. sweep_log del_ok job st) (n, db, b) marked))) = pg_now db"
proof (induction marked arbitrary: n db b)
  case (Cons job marked)
  obtain n' db' b' where st: "sweep_log del_ok job (n, db, b) = (n', db', b')" by (metis prod_cases3)
  then have "(i, r) \<in> set (pg_jobs db') \<and> pg_now db' = pg_now db"
    using Cons.prems by (auto simp: sweep_log_def Let_def map_jobs_mem split: if_splits intro!: exI [of _ r])
  then show ?case using Cons.IH [of db' n' b'] Cons.prems(2) by (simp add: st)
qed simp

lemma logs_pass_running:
  assumes "(i, r) \<in> set (pg_jobs (fst st))" and "jb_finished_at r = None" and "jb_log_state r = LogPresent"
  shows "(i, r) \<in> set (pg_jobs (fst (snd (logs_pass del_ok ret st)))) \<and>
    pg_now (fst (snd (logs_pass del_ok ret st))) = pg_now (fst st)"
proof -
  let ?db = "snd (mark_expired_job_logs (jr_log_after ret) (fst st))"
  have "(i, r) \<in> set (pg_jobs ?db)"
    using assms by (auto simp: mark_expired_job_logs_def map_jobs_mem log_expired_def finished_before_def intro!: exI [of _ r])
  then show ?thesis
    using sweep_logs_fold_keeps [of i r ?db del_ok 0 "snd st"] assms(3)
    by (auto simp: logs_pass_def sweep_job_logs_def mark_expired_job_logs_frame case_prod_unfold Let_def split: res.splits)
qed

lemma reclaimed_unlogged:
  assumes "(i, r) \<in> set (pg_jobs db)" and "stuck d db r" and "jb_log_key r = None" and "jb_log_state r = LogPresent"
  shows "unlogged i (pg_now db) (snd (reclaim_stuck_running_jobs d db))"
proof -
  let ?r = "r\<lparr>jb_status := ''failed'', jb_error_msg := Some orphan_msg, jb_finished_at := Some (pg_now db)\<rparr>"
  have "(i, ?r) \<in> set (pg_jobs (snd (reclaim_stuck_running_jobs d db)))"
    unfolding reclaim_stuck_running_jobs_def snd_conv map_jobs_mem using assms by (intro exI [of _ r]) simp
  then show ?thesis unfolding unlogged_def by (intro exI [of _ ?r]) (use assms in simp)
qed

lemma pass_reclaims:
  assumes ok: "fst (run_gc_pass_on True del_ok c ret n (db, b)) = Ok stats"
    and r: "(i, r) \<in> set (pg_jobs db)" "stuck (jr_stuck_running_after ret) db r"
      "jb_finished_at r = None" "jb_log_key r = None" "jb_log_state r = LogPresent"
  shows "unlogged i (pg_now db) (fst (snd (run_gc_pass_on True del_ok c ret n (db, b))))"
proof -
  have f: "pg_fault db = None" using ok by (auto simp: run_gc_pass_on_def split: option.splits)
  let ?st = "paths_pass del_ok c n (db, b)"
  obtain res db3 b3 where s: "logs_pass del_ok ret ?st = (res, db3, b3)" by (metis prod_cases3)
  have "\<exists>k. res = Ok k"
  proof (cases res)
    case (Err e)
    then show ?thesis using run_locked_result [OF f, of del_ok ret c n b e] ok f s by (simp add: run_gc_pass_on_def)
  next
    case Panic
    then show ?thesis using s by (auto simp: logs_pass_def sweep_job_logs_def case_prod_unfold Let_def fetch_marked_no_panic split: res.splits)
  qed simp
  then have st: "fst (snd (run_gc_pass_on True del_ok c ret n (db, b))) =
      snd (reclaim_stuck_running_jobs (jr_stuck_running_after ret) (snd (reap_jobs (jr_row_after ret) db3)))"
    using run_locked_state [OF f, of del_ok c ret n b] f s by (auto simp: run_gc_pass_on_def)
  have m: "(i, r) \<in> set (pg_jobs db3)" "pg_now db3 = pg_now db"
    using logs_pass_running [of i r ?st del_ok ret] r by (simp_all add: s paths_pass_frame)
  have "(i, r) \<in> set (pg_jobs (snd (reap_jobs (jr_row_after ret) db3)))" "pg_now (snd (reap_jobs (jr_row_after ret) db3)) = pg_now db"
    using m r by (simp_all add: reap_jobs_def job_reapable_def finished_before_def)
  then show ?thesis
    using reclaimed_unlogged [of i r "snd (reap_jobs (jr_row_after ret) db3)" "jr_stuck_running_after ret"] r
    by (simp add: st stuck_def)
qed

text \<open>
  A reservation that is never completed (its process died, say) disables the collector. The
  first pass that succeeds after the reservation is overdue fails the job and gives it a finish
  time, but no log key; from the moment that job is older than the log retention, every later
  pass, at whatever times they run, returns an error when it reads the keys of the logs to
  delete, so job logs and job rows are never collected again and orphaned reservations are
  never reclaimed again.
\<close>

theorem orphan_blocks_gc:
  assumes "(i, r) \<in> set (pg_jobs (fst st))" and "jb_status r = ''running''" and "jb_finished_at r = None"
    and "jb_log_key r = None" and "jb_log_state r = LogPresent"
    and "jb_created_at r + jr_stuck_running_after ret < t0"
    and "gc_passes del_ok c ret n (t0 # ts) st = Ok stats # later"
    and "\<forall>t \<in> set ts. t0 + jr_log_after ret < t"
  shows "list_all (\<lambda>res. \<exists>e. res = Err e) later \<and> length later = length ts"
proof -
  let ?db = "(fst st)\<lparr>pg_now := t0\<rparr>"
  have ok: "fst (run_gc_pass_on True del_ok c ret n (?db, snd st)) = Ok stats"
    and later: "later = gc_passes del_ok c ret n ts (snd (run_gc_pass_on True del_ok c ret n (?db, snd st)))"
    using assms(7) by (simp_all add: case_prod_unfold Let_def)
  have "unlogged i t0 (fst (snd (run_gc_pass_on True del_ok c ret n (?db, snd st))))"
    using pass_reclaims [OF ok, of i r] assms(1-6) by (simp add: stuck_def)
  then have "list_all (\<lambda>res. \<exists>e. res = Err e) later"
    using gc_passes_null [of i t0 _ ts ret del_ok c n] assms(8) by (simp add: later)
  moreover have "length (gc_passes del_ok c ret n ts st') = length ts" for st'
    by (induction ts arbitrary: st') (simp_all add: case_prod_unfold Let_def)
  ultimately show ?thesis by (simp add: later)
qed

definition orphan_db :: pg where
  "orphan_db = pg_empty\<lparr>pg_jobs := [(1, gc_job ''running'' 0 None None)]\<rparr>"

lemma orphan_blocks_gc_witness:
  "list_all (\<lambda>res. \<exists>e. res = Err e)
     (tl (gc_passes (\<lambda>_. True) default_cutoffs default_retention 9 [86401, 691202, 700000, 100000000] (orphan_db, [])))"
proof -
  let ?ps = "gc_passes (\<lambda>_. True) default_cutoffs default_retention 9 [86401, 691202, 700000, 100000000] (orphan_db, [])"
  have "\<exists>stats. hd ?ps = Ok stats"
    by (simp add: orphan_db_def jobs_eval logs_example Let_def)
  moreover have "?ps \<noteq> []" by (simp add: case_prod_unfold Let_def)
  ultimately obtain stats where "?ps = Ok stats # tl ?ps" by (metis list.collapse)
  from orphan_blocks_gc [OF _ _ _ _ _ _ this, of 1 "gc_job ''running'' 0 None None"] show ?thesis
    by (simp add: orphan_db_def gc_job_def default_retention_def)
qed

text \<open>
  Two jobs that built the same derivation archive their logs under the same key, since the key
  is made of the tenant and the derivation's hash part. When the older job's log expires, the
  sweep deletes the newer job's log with it, and the newer row still says the log is present.
\<close>

theorem log_sweep_deletes_newer_log:
  assumes "fetch_marked (pg_jobs db) = Ok [(i, l)]" and "del_ok (ObjectKey l)"
    and "(j, r) \<in> set (pg_jobs db)" and "jb_log_key r = Some l" and "jb_log_state r = LogPresent"
    and "sweep_job_logs del_ok (db, b) = (res, db', b')"
  shows "ObjectKey l \<notin> set b' \<and> (j, r) \<in> set (pg_jobs db')"
proof -
  have "(j, r) \<in> set (pg_jobs (fst (snd (foldl (\<lambda>st job. sweep_log del_ok job st) (0, db, b) [(i, l)]))))"
    using sweep_logs_fold_keeps [OF assms(3)] assms(5) by (simp del: foldl_Cons)
  then show ?thesis using assms(1,2,6) by (auto simp: sweep_job_logs_def sweep_log_def Let_def)
qed

text \<open>The same derivation built twice, a year apart.\<close>

definition rebuilt_db :: pg where
  "rebuilt_db = pg_empty\<lparr>pg_now := 400 * 24 * 3600, pg_jobs :=
     [(1, (gc_job ''completed'' 0 (Some 60) (Some ''t/log/h''))\<lparr>jb_log_state := LogMarked\<rparr>),
      (2, gc_job ''completed'' (399 * 24 * 3600) (Some (399 * 24 * 3600 + 60)) (Some ''t/log/h''))]\<rparr>"

lemma log_sweep_deletes_newer_log_witness:
  "ObjectKey ''t/log/h'' \<notin> set (snd (snd (sweep_job_logs (\<lambda>_. True) (rebuilt_db, [ObjectKey ''t/log/h''])))) \<and>
   (2, gc_job ''completed'' (399 * 24 * 3600) (Some (399 * 24 * 3600 + 60)) (Some ''t/log/h''))
     \<in> set (pg_jobs (fst (snd (sweep_job_logs (\<lambda>_. True) (rebuilt_db, [ObjectKey ''t/log/h''])))))"
proof -
  let ?r = "gc_job ''completed'' (399 * 24 * 3600) (Some (399 * 24 * 3600 + 60)) (Some ''t/log/h'')"
  have fm: "fetch_marked (pg_jobs rebuilt_db) = Ok [(1, ''t/log/h'')]" by (simp add: rebuilt_db_def gc_job_def)
  have mem: "(2, ?r) \<in> set (pg_jobs rebuilt_db)" by (simp add: rebuilt_db_def)
  obtain res db' b' where st: "sweep_job_logs (\<lambda>_. True) (rebuilt_db, [ObjectKey ''t/log/h'']) = (res, db', b')"
    by (metis prod_cases3)
  have "jb_log_key ?r = Some ''t/log/h''" "jb_log_state ?r = LogPresent" by (simp_all add: gc_job_def)
  from log_sweep_deletes_newer_log [OF fm _ mem this st] show ?thesis by (simp add: st)
qed

lemma upsert_row_mem:
  assumes "upsert_path_inner t info object ti src db = (Ok (), db1)"
  shows "\<exists>r. ((t, pi_path info), r) \<in> set (pg_store_paths db1) \<and> pr_state r = Live \<and> pr_object_key r = Some (ro_key object)"
proof -
  have f: "pg_fault db = None" using upsert_fault [OF _ assms] by (cases "pg_fault db") auto
  let ?row = "stored_row info object ti src (pg_now db)"
  have "map_of (pg_store_paths db1) (t, pi_path info) = Some ?row" using upsert_ok [OF f assms] by (simp add: update_conv)
  then have "((t, pi_path info), ?row) \<in> set (pg_store_paths db1)" by (rule map_of_SomeD)
  then show ?thesis by (intro exI [of _ ?row]) (simp add: stored_row_def)
qed

text \<open>
  The sweep does not look again before it deletes. When a push or a build records a path for
  an object after the object was picked as unreferenced and before its turn comes, the path is
  live, and stays live after the sweep of that object, but its object key is null, the object's
  row is gone and so are the bytes: the store goes on answering that the path is valid.
\<close>

theorem sweep_race_loses_bytes:
  assumes "k \<in> set (sweep_candidates db)" and "upsert_path_inner t info object ti src db = (Ok (), db1)"
    and "ro_key object = k" and "del_ok k" and "pg_fault db1 = None"
    and "sweep_key del_ok k (n, db1, k # b) = (n', db2, b')"
  shows "is_valid_path_db t (pi_path info) db2 \<and> k \<notin> set b' \<and> map_of (pg_objects db2) k = None \<and>
    (\<exists>r. ((t, pi_path info), r) \<in> set (pg_store_paths db2) \<and> pr_state r = Live \<and> pr_object_key r = None)"
proof -
  have db2: "db2 = delete_object_row k (tombstone k db1)" and b': "b' = filter (\<lambda>x. x \<noteq> k) b"
    using assms(4,6) by (auto simp: sweep_key_def Let_def)
  obtain r where r: "((t, pi_path info), r) \<in> set (pg_store_paths db1)" "pr_state r = Live" "pr_object_key r = Some k"
    using upsert_row_mem [OF assms(2)] assms(3) by blast
  let ?row = "unlink_row k (tombstone_row k ((t, pi_path info), r))"
  have row: "?row \<in> set (pg_store_paths db2)" using r(1) by (simp add: db2 tombstone_alt delete_object_row_alt image_eqI)
  have eq: "?row = ((t, pi_path info), r\<lparr>pr_object_key := None\<rparr>)" using r(2,3) by (simp add: unlink_row_def tombstone_row_def)
  have "pg_fault db2 = None" using assms(5) by (simp add: db2 tombstone_alt delete_object_row_alt)
  then have "is_valid_path_db t (pi_path info) db2"
    using row r(2) unfolding eq
    by (force simp: is_valid_path_db_def live_row_def store_paths_live_def on_db_def find_None_iff)
  then show ?thesis using row r(2) unfolding eq
    by (auto simp: b' db2 delete_object_row_alt map_of_filter_key)
qed

definition race_info :: path_info where
  "race_info = \<lparr>pi_path = StorePath ''app'', pi_deriver = None, pi_nar_hash = \<lparr>h_type = Sha256, h_bytes = []\<rparr>,
     pi_nar_size = 0, pi_references = [], pi_registration_time = 0, pi_ultimate = False, pi_sigs = []\<rparr>"

definition race_object :: remote_object where
  "race_object = \<lparr>ro_key = ObjectKey ''nar'', ro_file_size = 0, ro_file_hash = [], ro_compression = Zstd\<rparr>"

definition race_db :: pg where
  "race_db = pg_empty\<lparr>pg_objects := [gc_object ''nar'']\<rparr>"

lemma sweep_race_loses_bytes_witness:
  "is_valid_path_db (TenantId ''t'') (StorePath ''app'')
     (fst (snd (sweep_key (\<lambda>_. True) (ObjectKey ''nar'')
       (0, snd (upsert_path_inner (TenantId ''t'') race_info race_object Quarantined None race_db), [ObjectKey ''nar'']))))"
proof -
  let ?up = "upsert_path_inner (TenantId ''t'') race_info race_object Quarantined None race_db"
  have "ObjectKey ''nar'' \<in> set (sweep_candidates race_db)"
    by (simp add: sweep_candidates_def race_db_def gc_object_def pg_empty_def)
  moreover have f: "pg_fault race_db = None" by (simp add: race_db_def pg_empty_def)
  moreover have "?up = (Ok (), snd ?up)" "pg_fault (snd ?up) = None"
    using upsert_ok [OF f, of "TenantId ''t''" race_info race_object Quarantined None "fst ?up" "snd ?up"] f
    by (simp_all add: prod_eq_iff)
  ultimately show ?thesis
    using sweep_race_loses_bytes [of "ObjectKey ''nar''" race_db "TenantId ''t''" race_info race_object Quarantined None
        "snd ?up" "\<lambda>_. True" 0 "[]" "fst (sweep_key (\<lambda>_. True) (ObjectKey ''nar'') (0, snd ?up, [ObjectKey ''nar'']))"
        "fst (snd (sweep_key (\<lambda>_. True) (ObjectKey ''nar'') (0, snd ?up, [ObjectKey ''nar''])))"
        "snd (snd (sweep_key (\<lambda>_. True) (ObjectKey ''nar'') (0, snd ?up, [ObjectKey ''nar''])))"]
    by (simp add: race_object_def race_info_def)
qed

text \<open>
  Substituted paths are outside the marking pass, in both directions: the cutoff table has no
  row for their tier, so a substituted path is never marked however long nobody reads it, and it
  never protects what it refers to. With an application read an hour ago whose library was last
  read a year ago, the library is collected when the application is substituted (its row and bytes are gone
  while the application still refers to it), and kept when it is built.
\<close>

theorem substituted_outside_marking:
  "(\<forall>c db key r. expired c db (key, r) \<longrightarrow> pr_tier r \<noteq> ''substituted'') \<and>
   (gc_key ''app'', gc_row ''substituted'' [''lib''] ''app'' (400 * 24 * 3600 - 3600))
      \<in> set (pg_store_paths (fst (gc_after ''substituted''))) \<and>
   gc_key ''lib'' \<notin> set (map fst (pg_store_paths (fst (gc_after ''substituted'')))) \<and>
   ObjectKey ''lib'' \<notin> set (snd (gc_after ''substituted'')) \<and>
   gc_key ''lib'' \<in> set (map fst (pg_store_paths (fst (gc_after ''built'')))) \<and>
   ObjectKey ''lib'' \<in> set (snd (gc_after ''built''))"
proof -
  have "\<not> expired c db (key, r)" if "pr_tier r = ''substituted''" for c db key r
    using that by (simp add: expired_def past_cutoff_def cutoff_def)
  moreover have "pg_store_paths (fst (gc_after ''substituted'')) =
      [(gc_key ''app'', gc_row ''substituted'' [''lib''] ''app'' (400 * 24 * 3600 - 3600))]"
    "snd (gc_after ''substituted'') = [ObjectKey ''app'']"
    by (simp_all add: gc_run gc_eval gc_example)
  moreover have "gc_key ''lib'' \<noteq> gc_key ''app''" by (simp add: gc_key_def)
  ultimately show ?thesis by (intro conjI allI impI notI) (simp_all only: gc_collects_old, auto)
qed

lemma substituted_outside_marking_witness:
  "\<not> expired default_cutoffs (gc_db ''substituted'') (gc_key ''app'', gc_row ''substituted'' [''lib''] ''app'' 0)"
  by (rule notI, drule substituted_outside_marking [THEN conjunct1, rule_format]) (simp add: gc_row_def)

end
