(* ===== verification/Utf8.thy ===== *)
theory Utf8
  imports Prelude
begin

text \<open>
  UTF-8 as the Rust standard library checks and repairs it: \<open>str::from_utf8\<close> and
  \<open>String::from_utf8_lossy\<close>. The decoder looks at one sequence at a time; a malformed
  one is replaced by U+FFFD and covers the lead byte and the continuation bytes that were
  still acceptable. Used by the wire reader, the NAR walker and the capability token.
\<close>

definition byte_at :: "bytes \<Rightarrow> nat \<Rightarrow> nat" where
  "byte_at bs i = (if i < length bs then unat (bs ! i) else 0)"

definition is_cont :: "nat \<Rightarrow> bool" where
  "is_cont n \<longleftrightarrow> 128 \<le> n \<and> n \<le> 191"

text \<open>The second byte of a three or four byte sequence, by its lead byte.\<close>

definition second3_ok :: "nat \<Rightarrow> nat \<Rightarrow> bool" where
  "second3_ok b c \<longleftrightarrow>
     (if b = 224 then 160 \<le> c \<and> c \<le> 191
      else if b = 237 then 128 \<le> c \<and> c \<le> 159
      else is_cont c)"

definition second4_ok :: "nat \<Rightarrow> nat \<Rightarrow> bool" where
  "second4_ok b c \<longleftrightarrow>
     (if b = 240 then 144 \<le> c \<and> c \<le> 191
      else if b = 244 then 128 \<le> c \<and> c \<le> 143
      else is_cont c)"

text \<open>The next sequence: whether it is well formed and how many bytes it covers.\<close>

fun utf8_step :: "bytes \<Rightarrow> bool \<times> nat" where
  "utf8_step [] = (True, 0)"
| "utf8_step (b # bs) =
     (let n = unat b; c0 = byte_at bs 0; c1 = byte_at bs 1; c2 = byte_at bs 2 in
      if n < 128 then (True, 1)
      else if 194 \<le> n \<and> n \<le> 223 then (if is_cont c0 then (True, 2) else (False, 1))
      else if 224 \<le> n \<and> n \<le> 239 then
        (if \<not> second3_ok n c0 then (False, 1)
         else if is_cont c1 then (True, 3) else (False, 2))
      else if 240 \<le> n \<and> n \<le> 244 then
        (if \<not> second4_ok n c0 then (False, 1)
         else if \<not> is_cont c1 then (False, 2)
         else if is_cont c2 then (True, 4) else (False, 3))
      else (False, 1))"

lemma utf8_step_pos: "bs \<noteq> [] \<Longrightarrow> 0 < snd (utf8_step bs)"
  by (cases bs) (auto simp: Let_def)

lemma utf8_step_shrinks: "bs \<noteq> [] \<Longrightarrow> length bs - snd (utf8_step bs) < length bs"
  using utf8_step_pos [of bs] by (cases bs) auto

function valid_utf8 :: "bytes \<Rightarrow> bool" where
  "valid_utf8 bs =
     (if bs = [] then True
      else fst (utf8_step bs) \<and> valid_utf8 (drop (snd (utf8_step bs)) bs))"
  by pat_completeness auto
termination
  by (relation "measure length") (auto simp: utf8_step_shrinks)

text \<open>U+FFFD in UTF-8.\<close>

definition replacement :: bytes where
  "replacement = [239, 191, 189]"

function utf8_lossy :: "bytes \<Rightarrow> bytes" where
  "utf8_lossy bs =
     (if bs = [] then []
      else (if fst (utf8_step bs) then take (snd (utf8_step bs)) bs else replacement)
           @ utf8_lossy (drop (snd (utf8_step bs)) bs))"
  by pat_completeness auto
termination
  by (relation "measure length") (auto simp: utf8_step_shrinks)

declare valid_utf8.simps [simp del] utf8_lossy.simps [simp del]

definition from_utf8_lossy :: "bytes \<Rightarrow> string" where
  "from_utf8_lossy bs = from_bytes (utf8_lossy bs)"

definition is_utf8 :: "string \<Rightarrow> bool" where
  "is_utf8 s \<longleftrightarrow> valid_utf8 (as_bytes s)"

lemma byte_at_pos: "byte_at bs i \<noteq> 0 \<Longrightarrow> i < length bs"
  by (simp add: byte_at_def split: if_splits)

lemma byte_at_ge: "0 < n \<Longrightarrow> n \<le> byte_at bs i \<Longrightarrow> i < length bs"
  by (simp add: byte_at_def split: if_splits)

lemma second_ok_pos: "second3_ok n c \<Longrightarrow> 0 < c" "second4_ok n c \<Longrightarrow> 0 < c" "is_cont c \<Longrightarrow> 0 < c"
  by (auto simp: second3_ok_def second4_ok_def is_cont_def split: if_splits)

lemma byte_at_take [simp]: "i < n \<Longrightarrow> byte_at (take n bs @ ys) i = byte_at bs i" if "n \<le> length bs"
  using that by (auto simp: byte_at_def nth_append)

text \<open>A well-formed sequence lies inside the input and does not depend on what follows it.\<close>

lemma utf8_step_len: "utf8_step bs = (True, n) \<Longrightarrow> n \<le> length bs"
proof (cases bs)
  case (Cons b cs)
  assume "utf8_step bs = (True, n)"
  then show ?thesis
    using Cons byte_at_ge [of 1 cs 0] byte_at_ge [of 1 cs 1] byte_at_ge [of 1 cs 2]
    by (auto simp: Let_def Suc_le_eq dest: second_ok_pos split: if_splits)
qed simp

lemma utf8_step_extend:
  assumes "utf8_step bs = (True, n)" and "bs \<noteq> []"
  shows "utf8_step (take n bs @ ys) = (True, n)"
proof -
  obtain b cs where bs: "bs = b # cs" using assms(2) by (cases bs) auto
  have n: "0 < n" using utf8_step_pos [OF assms(2)] assms(1) by simp
  have len: "n - 1 \<le> length cs" using utf8_step_len [OF assms(1)] bs by simp
  have step: "utf8_step (b # cs) = (True, n)" using assms(1) bs by simp
  have "utf8_step (b # (take (n - 1) cs @ ys)) = (True, n)"
    using step byte_at_take [OF len, of _ ys]
    by (auto simp: Let_def split: if_splits)
  then show ?thesis using bs n by (cases n) auto
qed

lemma utf8_lossy_valid_id: "valid_utf8 bs \<Longrightarrow> utf8_lossy bs = bs"
proof (induction bs rule: valid_utf8.induct)
  case (1 bs)
  show ?case
  proof (cases "bs = []")
    case True
    then show ?thesis by (simp add: utf8_lossy.simps)
  next
    case False
    with "1.prems" have "fst (utf8_step bs)" and "valid_utf8 (drop (snd (utf8_step bs)) bs)"
      by (simp_all add: valid_utf8.simps [of bs])
    with False "1.IH" show ?thesis by (simp add: utf8_lossy.simps [of bs])
  qed
qed

lemma valid_utf8_append_step:
  assumes "utf8_step bs = (True, n)" and "bs \<noteq> []" and "valid_utf8 ys"
  shows "valid_utf8 (take n bs @ ys)"
  using assms utf8_step_extend [OF assms(1,2), of ys] utf8_step_len [OF assms(1)]
  by (subst valid_utf8.simps) auto

lemma valid_utf8_replacement: "valid_utf8 ys \<Longrightarrow> valid_utf8 (replacement @ ys)"
  by (subst valid_utf8.simps)
    (simp add: replacement_def Let_def byte_at_def is_cont_def second3_ok_def)

lemma valid_utf8_lossy: "valid_utf8 (utf8_lossy bs)"
proof (induction bs rule: utf8_lossy.induct)
  case (1 bs)
  show ?case
  proof (cases "bs = []")
    case True
    then show ?thesis by (simp add: utf8_lossy.simps valid_utf8.simps)
  next
    case False
    then have rest: "valid_utf8 (utf8_lossy (drop (snd (utf8_step bs)) bs))"
      using "1.IH" by simp
    show ?thesis
    proof (cases "fst (utf8_step bs)")
      case True
      then have "utf8_step bs = (True, snd (utf8_step bs))" by (metis prod.collapse)
      from valid_utf8_append_step [OF this False rest] False True
      show ?thesis by (simp add: utf8_lossy.simps [of bs])
    next
      case False2: False
      from valid_utf8_replacement [OF rest] False False2
      show ?thesis by (simp add: utf8_lossy.simps [of bs])
    qed
  qed
qed

lemma valid_utf8_ascii: "(\<And>b. b \<in> set bs \<Longrightarrow> unat b < 128) \<Longrightarrow> valid_utf8 bs"
proof (induction bs)
  case Nil
  then show ?case by (simp add: valid_utf8.simps)
next
  case (Cons b bs)
  then show ?case by (subst valid_utf8.simps) (simp add: Let_def)
qed

lemma from_utf8_lossy_id [simp]: "is_utf8 s \<Longrightarrow> from_utf8_lossy (as_bytes s) = s"
  by (simp add: from_utf8_lossy_def is_utf8_def utf8_lossy_valid_id)

lemma is_utf8_from_lossy [simp]: "is_utf8 (from_utf8_lossy bs)"
  by (simp add: from_utf8_lossy_def is_utf8_def valid_utf8_lossy)

lemma is_utf8_ascii: "(\<And>c. c \<in> set s \<Longrightarrow> (of_char c :: nat) < 128) \<Longrightarrow> is_utf8 s"
  unfolding is_utf8_def as_bytes_def
  by (rule valid_utf8_ascii) (auto simp: unat_of_nat)

end
