(* ===== verification/Uploads.thy ===== *)
theory Uploads
  imports Store Utf8
begin

text \<open>
  Capability tokens (\<open>crates/server/src/capability.rs\<close>) and the service that hands
  out pre-signed URLs for them (\<open>crates/server/src/uploads.rs\<close>), the whole access
  control of the object store. JWT encoding is library code and enters as the record
  \<open>jwt\<close>; \<open>jwt_ok\<close> is what the code relies on: a token decodes under its own
  secret to its claims and its key id. Cap'n Proto decoding of a request and S3 pre-signing are
  arguments of \<open>handle\<close>.
\<close>

subsection \<open>Capabilities\<close>

record capability =
  cap_job_id :: uuid
  cap_tenant :: tenant_id
  cap_derivation_path :: store_path
  cap_expected_outputs :: "(string \<times> store_path) list"

record claims =
  cl_job_id :: uuid
  cl_tenant :: string
  cl_derivation_path :: string
  cl_expected_outputs :: "(string \<times> string) list"

record jwt =
  jwt_encode :: "string \<Rightarrow> claims \<Rightarrow> bytes \<Rightarrow> string"
  jwt_header_kid :: "string \<Rightarrow> string option"
  jwt_decode :: "string \<Rightarrow> bytes \<Rightarrow> claims option"

definition jwt_ok :: "jwt \<Rightarrow> bool" where
  "jwt_ok j \<longleftrightarrow> (\<forall>kid c s. is_utf8 (jwt_encode j kid c s) \<and>
     jwt_header_kid j (jwt_encode j kid c s) = Some kid \<and> jwt_decode j (jwt_encode j kid c s) s = Some c)"

definition claims_from :: "capability \<Rightarrow> claims" where
  "claims_from c =
     \<lparr>cl_job_id = cap_job_id c, cl_tenant = tid_str (cap_tenant c),
      cl_derivation_path = sp_str (cap_derivation_path c),
      cl_expected_outputs = map (\<lambda>(name, path). (name, sp_str path)) (cap_expected_outputs c)\<rparr>"

definition into_capability :: "claims \<Rightarrow> capability option" where
  "into_capability c =
     Option.bind (from_wire (cl_tenant c)) (\<lambda>tenant.
     Some \<lparr>cap_job_id = cl_job_id c, cap_tenant = tenant,
           cap_derivation_path = StorePath (cl_derivation_path c),
           cap_expected_outputs = map (\<lambda>(name, path). (name, StorePath path)) (cl_expected_outputs c)\<rparr>)"

definition cap_sign :: "jwt \<Rightarrow> capability \<Rightarrow> u64 \<Rightarrow> bytes \<Rightarrow> bytes" where
  "cap_sign j c kid secret = as_bytes (jwt_encode j (show_nat (unat kid)) (claims_from c) secret)"

definition cap_verify :: "jwt \<Rightarrow> 's secret_ops \<Rightarrow> bytes \<Rightarrow> 's \<Rightarrow> capability option \<times> 's" where
  "cap_verify j sops token s =
     (if \<not> valid_utf8 token then (None, s)
      else
        let text = from_bytes token in
        (case Option.bind (jwt_header_kid j text) parse_u64 of
           None \<Rightarrow> (None, s)
         | Some kid \<Rightarrow>
             (case op_capability_secret sops kid s of
                (None, s) \<Rightarrow> (None, s)
              | (Some secret, s) \<Rightarrow> (Option.bind (jwt_decode j text secret) into_capability, s))))"

subsection \<open>Permitted keys\<close>

definition is_shared_verified_key :: "object_key \<Rightarrow> bool" where
  "is_shared_verified_key key =
     (case Option.bind (strip_prefix ''nar/'' (key_str key)) (strip_suffix ''.nar.zst'') of
        None \<Rightarrow> False
      | Some hash \<Rightarrow> length hash = 32 \<and> is_valid hash)"

definition is_shared_substituted_key :: "object_key \<Rightarrow> bool" where
  "is_shared_substituted_key key =
     (case strip_prefix ''substituted/'' (key_str key) of
        None \<Rightarrow> False
      | Some rest \<Rightarrow>
          (case split_once (CHR ''/'') rest of
             None \<Rightarrow> False
           | Some (slug, rest) \<Rightarrow>
               if slug = [] then False
               else (case Option.bind (strip_prefix ''nar/'' rest) (strip_suffix ''.nar.zst'') of
                       None \<Rightarrow> False
                     | Some hash \<Rightarrow> length hash = 32 \<and> is_valid hash)))"

definition key_is_permitted :: "object_key \<Rightarrow> bool \<Rightarrow> tenant_id \<Rightarrow> bool" where
  "key_is_permitted key download tenant =
     (let k = key_str key in
      if contains_sub ''..'' k \<or> starts_with k ''/'' then False
      else if download \<and> (is_shared_verified_key key \<or> is_shared_substituted_key key) then True
      else (case strip_prefix (tid_str tenant @ ''/'') k of
              None \<Rightarrow> False
            | Some rest \<Rightarrow>
                if download
                then starts_with rest ''nar/'' \<or> starts_with rest ''untrusted/nar/'' \<or> starts_with rest ''log/''
                else starts_with rest ''nar/'' \<or> starts_with rest ''log/''))"

subsection \<open>Handling a request\<close>

datatype upload_error =
    UndecodableRequest string
  | UnverifiedToken
  | KeyNotPermitted object_key
  | Internal string

definition to_worker_error :: "report \<Rightarrow> string" where
  "to_worker_error r =
     (case public_message r of Some m \<Rightarrow> m | None \<Rightarrow> ''internal error; see server logs'')"

record url_request =
  rq_job_id :: string
  rq_keys :: "object_key list"
  rq_download :: bool
  rq_token :: bytes

text \<open>The upload keys a job's capability names.\<close>

definition allowed_uploads :: "capability \<Rightarrow> object_key list" where
  "allowed_uploads c =
     List.map_filter (\<lambda>(_, path). nar_key (cap_tenant c) Built path) (cap_expected_outputs c) @
     (case log_key (cap_tenant c) (cap_derivation_path c) of None \<Rightarrow> [] | Some k \<Rightarrow> [k])"

definition key_ok :: "capability \<Rightarrow> bool \<Rightarrow> object_key \<Rightarrow> bool" where
  "key_ok c download key \<longleftrightarrow>
     key_is_permitted key download (cap_tenant c) \<and> (download \<or> key \<in> set (allowed_uploads c))"

definition handle ::
  "jwt \<Rightarrow> 's secret_ops \<Rightarrow> (bool \<Rightarrow> object_key \<Rightarrow> (report, string) res) \<Rightarrow> (string, url_request) res \<Rightarrow> 's \<Rightarrow>
   (upload_error, string list) res \<times> 's" where
  "handle j sops presign decoded s =
     (case decoded of
        Panic \<Rightarrow> (Panic, s)
      | Err e \<Rightarrow> (Err (UndecodableRequest e), s)
      | Ok rq \<Rightarrow>
          (case cap_verify j sops (rq_token rq) s of
             (None, s) \<Rightarrow> (Err UnverifiedToken, s)
           | (Some c, s) \<Rightarrow>
               (case find (\<lambda>key. \<not> key_ok c (rq_download rq) key) (rq_keys rq) of
                  Some key \<Rightarrow> (Err (KeyNotPermitted key), s)
                | None \<Rightarrow>
                    (map_err (\<lambda>r. Internal (to_worker_error r))
                       (collect_res (map (presign (rq_download rq)) (rq_keys rq))), s))))"

lemma into_capability_claims_from: "wf_tenant (cap_tenant c) \<Longrightarrow> into_capability (claims_from c) = Some c"
  by (auto simp: into_capability_def claims_from_def wf_tenant_def comp_def split_def intro: capability.equality)

lemma valid_utf8_as_bytes: "is_utf8 s \<Longrightarrow> valid_utf8 (as_bytes s)"
  by (simp add: is_utf8_def)

context secret_store
begin

lemma verify_minted:
  assumes "jwt_ok j" and "wf_tenant (cap_tenant c)" and "sinv s" and "length fresh = 32"
    and "op_current_capability_secret sops fresh salt s = ((kid, secret), s')"
  shows "fst (cap_verify j sops (cap_sign j c kid secret) s') = Some c"
proof -
  have "fst (op_capability_secret sops kid s') = Some secret"
    by (rule current_lookup [OF assms(3,4,5)])
  then show ?thesis
    using assms(1,2) into_capability_claims_from [OF assms(2)]
    by (cases "op_capability_secret sops kid s'")
      (simp add: cap_verify_def cap_sign_def jwt_ok_def Let_def valid_utf8_as_bytes)
qed

end

lemma handle_Ok_iff:
  "fst (handle j sops presign (Ok rq) s) = Ok urls \<longleftrightarrow>
   (\<exists>c. fst (cap_verify j sops (rq_token rq) s) = Some c \<and>
      list_all (key_ok c (rq_download rq)) (rq_keys rq) \<and>
      map (presign (rq_download rq)) (rq_keys rq) = map Ok urls)"
  by (cases "cap_verify j sops (rq_token rq) s")
    (auto simp: handle_def res_simps collect_res_Ok_iff find_None_iff list_all_iff split: option.splits dest: find_Some_mem)

subsection \<open>Isolation between tenants\<close>

lemma is_valid_no_slash: "is_valid h \<Longrightarrow> CHR ''/'' \<notin> set h"
  by (auto simp: is_valid_def list_all_iff)

lemma shared_verified_iff:
  "is_shared_verified_key k \<longleftrightarrow> (\<exists>h. key_str k = ''nar/'' @ h @ ''.nar.zst'' \<and> length h = 32 \<and> is_valid h)"
  by (auto simp: is_shared_verified_key_def strip_prefix_iff strip_suffix_iff Option.bind_eq_Some_conv
      split: option.splits)

lemma shared_substituted_iff:
  "is_shared_substituted_key k \<longleftrightarrow>
   (\<exists>slug h. key_str k = ''substituted/'' @ slug @ ''/nar/'' @ h @ ''.nar.zst'' \<and> slug \<noteq> [] \<and> CHR ''/'' \<notin> set slug \<and>
      length h = 32 \<and> is_valid h)"
proof
  assume "is_shared_substituted_key k"
  then show "\<exists>slug h. key_str k = ''substituted/'' @ slug @ ''/nar/'' @ h @ ''.nar.zst'' \<and> slug \<noteq> [] \<and> CHR ''/'' \<notin> set slug \<and>
      length h = 32 \<and> is_valid h"
    by (auto simp: is_shared_substituted_key_def strip_prefix_iff strip_suffix_iff split_once_Some_iff
        Option.bind_eq_Some_conv split: option.splits if_splits; blast)
next
  assume "\<exists>slug h. key_str k = ''substituted/'' @ slug @ ''/nar/'' @ h @ ''.nar.zst'' \<and> slug \<noteq> [] \<and> CHR ''/'' \<notin> set slug \<and>
      length h = 32 \<and> is_valid h"
  then obtain slug h where k: "key_str k = ''substituted/'' @ slug @ CHR ''/'' # (''nar/'' @ h @ ''.nar.zst'')"
      and p: "slug \<noteq> []" "CHR ''/'' \<notin> set slug" "length h = 32" "is_valid h"
    by auto
  have s: "split_once (CHR ''/'') (slug @ CHR ''/'' # (''nar/'' @ h @ ''.nar.zst'')) = Some (slug, ''nar/'' @ h @ ''.nar.zst'')"
    using p(2) by (subst split_once_Some_iff) simp
  have "strip_suffix ''.nar.zst'' (h @ ''.nar.zst'') = Some h" by (rule strip_suffix_append)
  then show "is_shared_substituted_key k"
    using p s unfolding is_shared_substituted_key_def k strip_prefix_append by simp
qed

text \<open>A key in the namespace of one tenant that another tenant may touch.\<close>

lemma foreign_key_permitted:
  assumes "wf_tenant t" and "wf_tenant t'" and "t \<noteq> t'"
    and k: "key_str k = tid_str t' @ CHR ''/'' # rest" and "CHR ''/'' \<in> set rest"
    and "key_is_permitted k download t"
  shows "download \<and> tid_str t' = ''substituted'' \<and> is_shared_substituted_key k"
proof -
  have ns: "CHR ''/'' \<notin> set (tid_str t)" "CHR ''/'' \<notin> set (tid_str t')" using assms(1,2) by simp_all
  have "strip_prefix (tid_str t @ ''/'') (key_str k) = None"
  proof (rule ccontr)
    assume "strip_prefix (tid_str t @ ''/'') (key_str k) \<noteq> None"
    then obtain r where "tid_str t' @ CHR ''/'' # rest = tid_str t @ CHR ''/'' # r"
      using k by (auto simp: strip_prefix_iff)
    then have "tid_str t' = tid_str t" using append_sep_inject [OF ns(2,1)] by blast
    then show False using assms(3) tenant_id.expand by blast
  qed
  then have d: "download" and sh: "is_shared_verified_key k \<or> is_shared_substituted_key k"
    using assms(6) by (auto simp: key_is_permitted_def Let_def split: if_splits)
  have "\<not> is_shared_verified_key k"
  proof
    assume "is_shared_verified_key k"
    then obtain h where h: "tid_str t' @ CHR ''/'' # rest = ''nar'' @ CHR ''/'' # (h @ ''.nar.zst'')" "is_valid h"
      using k by (auto simp: shared_verified_iff)
    have "rest = h @ ''.nar.zst''"
      using h(1) append_sep_inject [OF ns(2), of "''nar''" rest "h @ ''.nar.zst''"] by simp
    then show False using assms(5) is_valid_no_slash [OF h(2)] by simp
  qed
  then have s: "is_shared_substituted_key k" using sh by blast
  then obtain r where "tid_str t' @ CHR ''/'' # rest = ''substituted'' @ CHR ''/'' # r"
    using k by (auto simp: shared_substituted_iff)
  then have "tid_str t' = ''substituted''"
    using append_sep_inject [OF ns(2), of "''substituted''" rest r] by simp
  then show ?thesis using d s by blast
qed

lemma tenant_key_form:
  assumes "(ti = Built \<or> ti = Quarantined) \<and> nar_key t ti p = Some k \<or> log_key t p = Some k"
  shows "\<exists>rest. key_str k = tid_str t @ CHR ''/'' # rest \<and> CHR ''/'' \<in> set rest"
  using assms by (auto simp: nar_key_def log_key_def Option.bind_eq_Some_conv)

text \<open>
  C36: When a tenant's key is open to another tenant. A key that holds a tenant's built or quarantined archive
  or its build log is refused to every other tenant, for upload always, and for download with one exception:
  the tenant is called \<open>substituted\<close> and the key has the shape of a shared substituted object. In particular a
  tenant whose name is a prefix of another's gains nothing.
\<close>

theorem key_isolation:
  assumes "wf_tenant t" and "wf_tenant t'" and "t \<noteq> t'"
    and "(ti = Built \<or> ti = Quarantined) \<and> nar_key t' ti p = Some k \<or> log_key t' p = Some k"
  shows "key_is_permitted k download t \<longleftrightarrow>
    download \<and> t' = TenantId ''substituted'' \<and> is_shared_substituted_key k \<and> \<not> contains_sub ''..'' (key_str k)"
proof
  assume perm: "key_is_permitted k download t"
  obtain rest where "key_str k = tid_str t' @ CHR ''/'' # rest" "CHR ''/'' \<in> set rest"
    using tenant_key_form [OF assms(4)] by blast
  then have "download \<and> tid_str t' = ''substituted'' \<and> is_shared_substituted_key k"
    using foreign_key_permitted [OF assms(1-3) _ _ perm] by blast
  moreover have "\<not> contains_sub ''..'' (key_str k)" using perm by (auto simp: key_is_permitted_def Let_def)
  ultimately show "download \<and> t' = TenantId ''substituted'' \<and> is_shared_substituted_key k \<and> \<not> contains_sub ''..'' (key_str k)"
    by (cases t') simp
next
  assume "download \<and> t' = TenantId ''substituted'' \<and> is_shared_substituted_key k \<and> \<not> contains_sub ''..'' (key_str k)"
  then show "key_is_permitted k download t" by (auto simp: key_is_permitted_def shared_substituted_iff)
qed

definition ex_out :: store_path where
  "ex_out = StorePath (replicate 32 (CHR ''0'') @ ''-hello'')"

lemma ex_out_hash [simp]: "hash_part ex_out = Some (replicate 32 (CHR ''0''))"
  unfolding ex_out_def using sp_name_bare [of "replicate 32 (CHR ''0'')" "''hello''"] by simp

theorem key_isolation_witness:
  "\<not> key_is_permitted (ObjectKey (''ab/nar/'' @ replicate 32 (CHR ''0'') @ ''.nar.zst'')) True (TenantId ''a'')"
  by (subst key_isolation [of _ "TenantId ''ab''" Built ex_out])
    (simp_all add: wf_tenant_def from_wire_def tenant_char_def is_lower_def nar_key_def)

text \<open>
  the one name that breaks the isolation. \<open>substituted\<close> is an acceptable tenant
  id, and the key of every quarantined archive of that tenant has the shape of a shared
  substituted object, so every other tenant is granted its download.
\<close>

theorem substituted_tenant_leaks:
  assumes "hash_part p = Some h" and "is_valid h"
  shows "from_wire ''substituted'' = Some (TenantId ''substituted'') \<and>
    (\<exists>k. nar_key (TenantId ''substituted'') Quarantined p = Some k \<and> key_is_permitted k True t)"
proof -
  let ?k = "ObjectKey (''substituted/'' @ ''untrusted'' @ ''/nar/'' @ h @ ''.nar.zst'')"
  have len: "length h = 32" by (rule hash_part_length [OF assms(1)])
  have "CHR ''.'' \<notin> set h" using assms(2) by (auto simp: is_valid_def list_all_iff)
  then have "\<not> contains_sub ''..'' (key_str ?k)"
  proof -
    assume nd: "CHR ''.'' \<notin> set h"
    have "\<not> contains_sub ''..'' (x @ ''.nar.zst'')" if "CHR ''.'' \<notin> set x" for x
      using that by (induction x) auto
    then show ?thesis using nd by simp
  qed
  moreover have "is_shared_substituted_key ?k"
    unfolding shared_substituted_iff using assms(2) len by (intro exI [of _ "''untrusted''"] exI [of _ h]) simp
  ultimately have "key_is_permitted ?k True t" by (simp add: key_is_permitted_def)
  moreover have "nar_key (TenantId ''substituted'') Quarantined p = Some ?k"
    using assms(1) by (simp add: nar_key_def)
  ultimately show ?thesis
    by (simp add: from_wire_def tenant_char_def is_lower_def)
qed

theorem substituted_tenant_leaks_witness:
  "\<exists>k. nar_key (TenantId ''substituted'') Quarantined ex_out = Some k \<and> key_is_permitted k True (TenantId ''mallory'')"
  using substituted_tenant_leaks [of ex_out "replicate 32 (CHR ''0'')" "TenantId ''mallory''"]
  by (simp add: is_valid_def BASE32_CHARS_def list_all_iff)


text \<open>A token service that knows one job, to evaluate a request.\<close>

definition ex_claims :: claims where
  "ex_claims = \<lparr>cl_job_id = 1, cl_tenant = ''a'', cl_derivation_path = ''x'',
     cl_expected_outputs = [(''out'', sp_str ex_out)]\<rparr>"

definition ex_jwt :: jwt where
  "ex_jwt = \<lparr>jwt_encode = (\<lambda>_ _ _. ''t''), jwt_header_kid = (\<lambda>_. Some ''0''), jwt_decode = (\<lambda>_ _. Some ex_claims)\<rparr>"

definition ex_secrets :: "unit secret_ops" where
  "ex_secrets = \<lparr>op_current_capability_secret = (\<lambda>f _ s. ((0, f), s)), op_capability_secret = (\<lambda>_ s. (Some (replicate 32 0), s))\<rparr>"


end
