(* ===== verification/Wire.thy ===== *)
theory Wire
  imports Utf8
begin

text \<open>
  The in-memory wire format of \<open>crates/types/src/wire.rs\<close>: little-endian 64-bit
  integers and byte strings that are length-prefixed and zero-padded to a multiple of eight.
  The cursor arithmetic is that of a 64-bit release build, where \<open>self.pos + len\<close>
  wraps, and a slice whose start lies past its end panics. The locale \<open>codec\<close>
  states what a reader of one kind of field promises about the bytes a writer produced; the
  lemma it carries lifts that to any number of fields in a row.
\<close>

subsection \<open>Little-endian integers\<close>

fun nat_le :: "nat \<Rightarrow> nat \<Rightarrow> bytes" where
  "nat_le 0 n = []"
| "nat_le (Suc k) n = of_nat (n mod 256) # nat_le k (n div 256)"

fun le_nat :: "bytes \<Rightarrow> nat" where
  "le_nat [] = 0"
| "le_nat (b # bs) = unat b + 256 * le_nat bs"

definition to_le_bytes :: "u64 \<Rightarrow> bytes" where
  "to_le_bytes v = nat_le 8 (unat v)"

definition from_le_bytes :: "bytes \<Rightarrow> u64" where
  "from_le_bytes bs = of_nat (le_nat bs)"

lemma length_nat_le [simp]: "length (nat_le k n) = k"
  by (induction k arbitrary: n) auto

lemma length_to_le_bytes [simp]: "length (to_le_bytes v) = 8"
  by (simp add: to_le_bytes_def)

lemma le_nat_nat_le: "le_nat (nat_le k n) = n mod 256 ^ k"
proof (induction k arbitrary: n)
  case 0
  then show ?case by simp
next
  case (Suc k)
  have "unat (of_nat (n mod 256) :: u8) = n mod 256"
    by (simp add: unat_of_nat)
  then have "le_nat (nat_le (Suc k) n) = n mod 256 + 256 * (n div 256 mod 256 ^ k)"
    by (simp add: Suc.IH)
  then show ?case by (simp add: mod_mult2_eq)
qed

lemma from_to_le_bytes [simp]: "from_le_bytes (to_le_bytes v) = v"
proof -
  have "unat v < 256 ^ 8" using unsigned_less [of v] by simp
  then show ?thesis
    by (simp add: from_le_bytes_def to_le_bytes_def le_nat_nat_le)
qed

subsection \<open>Writing\<close>

definition padding :: "nat \<Rightarrow> nat" where
  "padding len = (8 - len mod 8) mod 8"

definition write_u64 :: "bytes \<Rightarrow> u64 \<Rightarrow> bytes" where
  "write_u64 out value = out @ to_le_bytes value"

definition write_bytes :: "bytes \<Rightarrow> bytes \<Rightarrow> bytes" where
  "write_bytes out value =
     write_u64 out (of_nat (length value)) @ value @ replicate (padding (length value)) 0"

subsection \<open>Reading\<close>

datatype truncated = Truncated nat

record reader =
  rd_bytes :: bytes
  rd_pos :: nat

definition reader_new :: "bytes \<Rightarrow> reader" where
  "reader_new bs = \<lparr>rd_bytes = bs, rd_pos = 0\<rparr>"

definition reader_u64 :: "reader \<Rightarrow> (truncated, u64 \<times> reader) res" where
  "reader_u64 r =
     (let e = rd_pos r + 8 in
      if e > length (rd_bytes r) then Err (Truncated (rd_pos r))
      else Ok (from_le_bytes (take 8 (drop (rd_pos r) (rd_bytes r))), r\<lparr>rd_pos := e\<rparr>))"

definition reader_bytes :: "nat \<Rightarrow> reader \<Rightarrow> (truncated, bytes \<times> reader) res" where
  "reader_bytes len r =
     (let e = (rd_pos r + len) mod 2 ^ 64 in
      if e > length (rd_bytes r) then Err (Truncated (rd_pos r))
      else if e < rd_pos r then Panic
      else Ok (take (e - rd_pos r) (drop (rd_pos r) (rd_bytes r)),
               r\<lparr>rd_pos := e + padding len\<rparr>))"

definition reader_string :: "reader \<Rightarrow> (truncated, string \<times> reader) res" where
  "reader_string r =
     bind_res (reader_u64 r) (\<lambda>(len, r).
     bind_res (reader_bytes (unat len) r) (\<lambda>(bs, r).
     Ok (from_utf8_lossy bs, r)))"

text \<open>A loop of \<open>n\<close> reads that stops at the first failure.\<close>

fun read_n :: "(reader \<Rightarrow> ('e, 'a \<times> reader) res) \<Rightarrow> nat \<Rightarrow> reader \<Rightarrow> ('e, 'a list \<times> reader) res" where
  "read_n f 0 r = Ok ([], r)"
| "read_n f (Suc n) r =
     bind_res (f r) (\<lambda>(x, r). bind_res (read_n f n r) (\<lambda>(xs, r). Ok (x # xs, r)))"

definition reader_strings :: "reader \<Rightarrow> (truncated, string list \<times> reader) res" where
  "reader_strings r = bind_res (reader_u64 r) (\<lambda>(count, r). read_n reader_string (unat count) r)"

subsection \<open>Padding\<close>

lemma padding_less [simp]: "padding n < 8"
  by (simp add: padding_def)

lemma padding_aligns [simp]: "8 dvd n + padding n"
proof -
  have "(n + padding n) mod 8 = (n mod 8 + (8 - n mod 8)) mod 8"
    unfolding padding_def by presburger
  then show ?thesis by (simp add: dvd_eq_mod_eq_0)
qed

lemma padding_minimal:
  assumes "8 dvd n + k"
  shows "padding n \<le> k"
proof (cases "n mod 8 = 0")
  case False
  have "8 dvd n mod 8 + k"
    using assms by (simp add: dvd_eq_mod_eq_0 mod_simps)
  then have "8 \<le> n mod 8 + k"
    using False by (intro dvd_imp_le) auto
  then show ?thesis using False by (simp add: padding_def)
qed (simp add: padding_def)

subsection \<open>Reading back what was written\<close>

text \<open>A cursor that has consumed \<open>pre\<close> and has \<open>post\<close> left.\<close>

definition reader_at :: "bytes \<Rightarrow> bytes \<Rightarrow> reader" where
  "reader_at pre post = \<lparr>rd_bytes = pre @ post, rd_pos = length pre\<rparr>"

lemma reader_new_at: "reader_new bs = reader_at [] bs"
  by (simp add: reader_new_def reader_at_def)

definition enc_bytes :: "bytes \<Rightarrow> bytes" where
  "enc_bytes v = to_le_bytes (of_nat (length v)) @ v @ replicate (padding (length v)) 0"

definition enc_string :: "string \<Rightarrow> bytes" where
  "enc_string s = enc_bytes (as_bytes s)"

lemma write_u64_eq: "write_u64 out v = out @ to_le_bytes v"
  by (simp add: write_u64_def)

lemma write_bytes_eq: "write_bytes out v = out @ enc_bytes v"
  by (simp add: write_bytes_def write_u64_def enc_bytes_def)

lemma length_enc_bytes: "length (enc_bytes v) = 8 + length v + padding (length v)"
  by (simp add: enc_bytes_def)

lemma enc_bytes_aligned: "8 dvd length (enc_bytes v)"
  using padding_aligns [of "length v"] by (simp add: length_enc_bytes add.assoc dvd_add)

lemma reader_u64_at:
  "reader_u64 (reader_at pre (to_le_bytes v @ post)) = Ok (v, reader_at (pre @ to_le_bytes v) post)"
  by (simp add: reader_u64_def reader_at_def)

lemma reader_bytes_at:
  assumes "length pre + length v < 2 ^ 64"
  shows "reader_bytes (length v) (reader_at pre (v @ replicate (padding (length v)) 0 @ post)) =
         Ok (v, reader_at (pre @ v @ replicate (padding (length v)) 0) post)"
  using assms by (simp add: reader_bytes_def reader_at_def)

lemma unat_of_nat_u64: "n < 2 ^ 64 \<Longrightarrow> unat (of_nat n :: u64) = n"
  by (simp add: unat_of_nat)

locale codec =
  fixes enc :: "'a \<Rightarrow> bytes"
    and dec :: "reader \<Rightarrow> ('e, 'a \<times> reader) res"
    and wf :: "'a \<Rightarrow> bool"
  assumes dec_enc: "wf x \<Longrightarrow> length (pre @ enc x @ post) < 2 ^ 63 \<Longrightarrow>
    dec (reader_at pre (enc x @ post)) = Ok (x, reader_at (pre @ enc x) post)"
begin

lemma dec_many:
  "(\<And>x. x \<in> set xs \<Longrightarrow> wf x) \<Longrightarrow> length (pre @ concat (map enc xs) @ post) < 2 ^ 63 \<Longrightarrow>
   read_n dec (length xs) (reader_at pre (concat (map enc xs) @ post)) =
   Ok (xs, reader_at (pre @ concat (map enc xs)) post)"
proof (induction xs arbitrary: pre)
  case Nil
  then show ?case by simp
next
  case (Cons x xs)
  have "dec (reader_at pre (enc x @ (concat (map enc xs) @ post))) =
        Ok (x, reader_at (pre @ enc x) (concat (map enc xs) @ post))"
    by (rule dec_enc) (use Cons.prems in auto)
  moreover have "read_n dec (length xs) (reader_at (pre @ enc x) (concat (map enc xs) @ post)) =
        Ok (xs, reader_at ((pre @ enc x) @ concat (map enc xs)) post)"
    by (rule Cons.IH) (use Cons.prems in auto)
  ultimately show ?case by simp
qed

lemma dec_counted:
  assumes "\<And>x. x \<in> set xs \<Longrightarrow> wf x"
    and "length (pre @ to_le_bytes (of_nat (length xs)) @ concat (map enc xs) @ post) < 2 ^ 63"
    and "length xs < 2 ^ 63"
  shows "bind_res (map_err g (reader_u64 (reader_at pre
            (to_le_bytes (of_nat (length xs)) @ concat (map enc xs) @ post))))
           (\<lambda>(n, r). read_n dec (unat n) r) =
         Ok (xs, reader_at (pre @ to_le_bytes (of_nat (length xs)) @ concat (map enc xs)) post)"
proof -
  have "unat (of_nat (length xs) :: u64) = length xs"
    using assms(3) by (simp add: unat_of_nat_u64)
  then show ?thesis
    using assms(2)
      dec_many [of xs "pre @ to_le_bytes (of_nat (length xs))" post, OF assms(1)]
    by (simp add: reader_u64_at)
qed

end

lemma reader_string_at:
  assumes "is_utf8 s" and "length (pre @ enc_string s @ post) < 2 ^ 63"
  shows "reader_string (reader_at pre (enc_string s @ post)) =
         Ok (s, reader_at (pre @ enc_string s) post)"
proof -
  let ?v = "as_bytes s"
  let ?pre = "pre @ to_le_bytes (of_nat (length ?v))"
  have len: "length ?pre + length ?v < 2 ^ 64"
    using assms(2) by (simp add: enc_string_def enc_bytes_def)
  have n: "unat (of_nat (length ?v) :: u64) = length ?v"
    by (rule unat_of_nat_u64) (use len in simp)
  have "reader_u64 (reader_at pre (enc_string s @ post)) =
        Ok (of_nat (length ?v),
            reader_at ?pre (?v @ replicate (padding (length ?v)) 0 @ post))"
    using reader_u64_at [of pre "of_nat (length ?v)"]
    by (simp add: enc_string_def enc_bytes_def)
  then show ?thesis
    using reader_bytes_at [OF len, of post] n assms(1)
    by (simp add: reader_string_def enc_string_def enc_bytes_def)
qed

interpretation string_codec: codec enc_string reader_string is_utf8
  by unfold_locales (rule reader_string_at)

lemma reader_strings_at:
  assumes "\<And>s. s \<in> set ss \<Longrightarrow> is_utf8 s"
    and "length (pre @ to_le_bytes (of_nat (length ss)) @ concat (map enc_string ss) @ post) < 2 ^ 63"
    and "length ss < 2 ^ 63"
  shows "reader_strings (reader_at pre
            (to_le_bytes (of_nat (length ss)) @ concat (map enc_string ss) @ post)) =
         Ok (ss, reader_at (pre @ to_le_bytes (of_nat (length ss)) @ concat (map enc_string ss)) post)"
  unfolding reader_strings_def
  using string_codec.dec_counted [OF assms, of "\<lambda>e. e"] by (simp add: map_err_ident)

lemma length_enc_string_ge: "8 \<le> length (enc_string s)"
  by (simp add: enc_string_def length_enc_bytes)

lemma length_concat_enc_ge: "length ss \<le> length (concat (map enc_string ss))"
proof (induction ss)
  case (Cons s ss)
  then show ?case using length_enc_string_ge [of s] by simp
qed simp

subsection \<open>Arbitrary sequences of fields\<close>

text \<open>The two kinds of field a caller writes and the matching reads.\<close>

datatype field = FieldU64 u64 | FieldBytes bytes

fun write_field :: "bytes \<Rightarrow> field \<Rightarrow> bytes" where
  "write_field out (FieldU64 v) = write_u64 out v"
| "write_field out (FieldBytes b) = write_bytes out b"

fun read_field :: "field \<Rightarrow> reader \<Rightarrow> (truncated, field \<times> reader) res" where
  "read_field (FieldU64 _) r = bind_res (reader_u64 r) (\<lambda>(v, r). Ok (FieldU64 v, r))"
| "read_field (FieldBytes _) r =
     bind_res (reader_u64 r) (\<lambda>(len, r).
     bind_res (reader_bytes (unat len) r) (\<lambda>(b, r). Ok (FieldBytes b, r)))"

fun read_fields :: "field list \<Rightarrow> reader \<Rightarrow> (truncated, field list \<times> reader) res" where
  "read_fields [] r = Ok ([], r)"
| "read_fields (f # fs) r =
     bind_res (read_field f r) (\<lambda>(x, r). bind_res (read_fields fs r) (\<lambda>(xs, r). Ok (x # xs, r)))"

fun enc_field :: "field \<Rightarrow> bytes" where
  "enc_field (FieldU64 v) = to_le_bytes v"
| "enc_field (FieldBytes b) = enc_bytes b"

lemma write_field_eq: "write_field out f = out @ enc_field f"
  by (cases f) (simp_all add: write_u64_eq write_bytes_eq)

lemma foldl_write_field: "foldl write_field out fs = out @ concat (map enc_field fs)"
  by (induction fs arbitrary: out) (simp_all add: write_field_eq)

lemma read_field_at:
  assumes "length (pre @ enc_field f @ post) < 2 ^ 63"
  shows "read_field f (reader_at pre (enc_field f @ post)) = Ok (f, reader_at (pre @ enc_field f) post)"
proof (cases f)
  case (FieldU64 v)
  then show ?thesis by (simp add: reader_u64_at)
next
  case (FieldBytes b)
  let ?pre = "pre @ to_le_bytes (of_nat (length b))"
  have len: "length ?pre + length b < 2 ^ 64"
    using assms FieldBytes by (simp add: enc_bytes_def)
  have n: "unat (of_nat (length b) :: u64) = length b"
    by (rule unat_of_nat_u64) (use len in simp)
  show ?thesis
    using FieldBytes reader_bytes_at [OF len, of post] n
      reader_u64_at [of pre "of_nat (length b)" "b @ replicate (padding (length b)) 0 @ post"]
    by (simp add: enc_bytes_def)
qed

lemma read_fields_at:
  "length (pre @ concat (map enc_field fs) @ post) < 2 ^ 63 \<Longrightarrow>
   read_fields fs (reader_at pre (concat (map enc_field fs) @ post)) =
   Ok (fs, reader_at (pre @ concat (map enc_field fs)) post)"
proof (induction fs arbitrary: pre)
  case Nil
  then show ?case by simp
next
  case (Cons f fs)
  have "read_field f (reader_at pre (enc_field f @ (concat (map enc_field fs) @ post))) =
        Ok (f, reader_at (pre @ enc_field f) (concat (map enc_field fs) @ post))"
    by (rule read_field_at) (use Cons.prems in simp)
  then show ?case using Cons.IH [of "pre @ enc_field f"] Cons.prems by simp
qed

text \<open>
  whatever sequence of integers and byte strings is written with \<open>write_u64\<close> and
  \<open>write_bytes\<close>, a fresh \<open>Reader\<close> over the buffer reads back exactly those
  fields, in order, and ends at the end of the buffer. The bound is the largest size a Rust
  \<open>Vec\<close> can have.
\<close>

theorem wire_fields_roundtrip:
  assumes "length (foldl write_field [] fs) < 2 ^ 63"
  shows "read_fields fs (reader_new (foldl write_field [] fs)) =
         Ok (fs, \<lparr>rd_bytes = foldl write_field [] fs, rd_pos = length (foldl write_field [] fs)\<rparr>)"
  using read_fields_at [of "[]" fs "[]"] assms
  by (simp add: foldl_write_field reader_new_at reader_at_def)

theorem wire_fields_roundtrip_witness:
  "read_fields [FieldU64 42, FieldBytes [104, 105]]
     (reader_new (foldl write_field [] [FieldU64 42, FieldBytes [104, 105]])) =
   Ok ([FieldU64 42, FieldBytes [104, 105]],
       \<lparr>rd_bytes = foldl write_field [] [FieldU64 42, FieldBytes [104, 105]],
        rd_pos = length (foldl write_field [] [FieldU64 42, FieldBytes [104, 105]])\<rparr>)"
  by (rule wire_fields_roundtrip) (simp add: write_bytes_eq write_u64_eq enc_bytes_def padding_def)

subsection \<open>When a read panics\<close>

lemma reader_u64_not_Panic [simp]: "reader_u64 r \<noteq> Panic"
  by (simp add: reader_u64_def Let_def)

lemma reader_bytes_Panic_iff:
  "reader_bytes len r = Panic \<longleftrightarrow>
     (rd_pos r + len) mod 2 ^ 64 \<le> length (rd_bytes r) \<and>
     (rd_pos r + len) mod 2 ^ 64 < rd_pos r"
  by (auto simp: reader_bytes_def Let_def)

lemma reader_bytes_no_wrap_not_Panic:
  "rd_pos r + len < 2 ^ 64 \<Longrightarrow> reader_bytes len r \<noteq> Panic"
  by (simp add: reader_bytes_Panic_iff)

lemma reader_string_Panic_iff:
  "reader_string r = Panic \<longleftrightarrow>
     (\<exists>len r'. reader_u64 r = Ok (len, r') \<and> reader_bytes (unat len) r' = Panic)"
  by (auto simp: reader_string_def res_simps)

lemma replicate_8: "replicate 8 x = [x, x, x, x, x, x, x, x]"
  by (simp add: numeral_eq_Suc)

text \<open>
  a string read panics exactly when the eight-byte length it finds makes the cursor
  arithmetic wrap round to a position before the cursor that is still inside the buffer. It
  is not the case that a \<open>Reader\<close> over arbitrary bytes only ever returns
  \<open>Ok\<close> or \<open>Err\<close>: eight bytes \<open>0xff\<close> are enough.
\<close>

theorem reader_string_panics_iff:
  "(reader_string r = Panic \<longleftrightarrow>
      rd_pos r + 8 \<le> length (rd_bytes r) \<and>
      (let len = unat (from_le_bytes (take 8 (drop (rd_pos r) (rd_bytes r))));
           e = (rd_pos r + 8 + len) mod 2 ^ 64
       in e < rd_pos r + 8 \<and> e \<le> length (rd_bytes r))) \<and>
   reader_string (reader_new (replicate 8 255)) = Panic"
proof (intro conjI)
  show "reader_string r = Panic \<longleftrightarrow>
      rd_pos r + 8 \<le> length (rd_bytes r) \<and>
      (let len = unat (from_le_bytes (take 8 (drop (rd_pos r) (rd_bytes r))));
           e = (rd_pos r + 8 + len) mod 2 ^ 64
       in e < rd_pos r + 8 \<and> e \<le> length (rd_bytes r))"
    by (auto simp: reader_string_Panic_iff reader_u64_def reader_bytes_Panic_iff Let_def)
  have "from_le_bytes (replicate 8 255) = (2 ^ 64 - 1 :: u64)"
    by (simp add: from_le_bytes_def replicate_8)
  then have "unat (from_le_bytes (replicate 8 255)) = 2 ^ 64 - 1"
    by simp
  then show "reader_string (reader_new (replicate 8 255)) = Panic"
    by (simp add: reader_string_Panic_iff reader_u64_def reader_bytes_Panic_iff reader_new_def)
qed

end
