(* ===== verification/ContentAddress.thy ===== *)
theory ContentAddress
  imports Signing Wire
begin

text \<open>
  Deriving a store path from content (\<open>crates/server/src/store_path.rs\<close>): the
  compressed hash, the store path formula for the text, flat and recursive methods, the
  recomputation of a fixed output's path from its derivation, and \<open>verify\<close>, the check
  that gates the verified tier. SHA-256 is library code and enters as a function
  \<open>sha\<close> on bytes; that a digest has 32 bytes is the hypothesis \<open>digest_ok\<close>.
\<close>

unbundle bit_operations_syntax

definition digest_ok :: "(bytes \<Rightarrow> bytes) \<Rightarrow> bool" where
  "digest_ok sha \<longleftrightarrow> (\<forall>x. length (sha x) = 32)"

datatype ca_method = CaText | CaFlat | CaRecursive

subsection \<open>The store path formula\<close>

text \<open>
  \<open>out[i % new_size] ^= byte\<close> for every byte of the hash. The only caller passes 20;
  a size of zero would divide by zero on a non-empty hash.
\<close>

fun compress_loop :: "nat \<Rightarrow> nat \<Rightarrow> bytes \<Rightarrow> bytes \<Rightarrow> bytes" where
  "compress_loop new_size i [] out = out"
| "compress_loop new_size i (byte # rest) out =
     compress_loop new_size (Suc i) rest (out[i mod new_size := out ! (i mod new_size) XOR byte])"

definition compress_hash :: "bytes \<Rightarrow> nat \<Rightarrow> bytes" where
  "compress_hash hash new_size = compress_loop new_size 0 hash (replicate new_size 0)"

definition make_store_path :: "(bytes \<Rightarrow> bytes) \<Rightarrow> string \<Rightarrow> string \<Rightarrow> string \<Rightarrow> string \<Rightarrow> string" where
  "make_store_path sha dir ty hash_hex name =
     (let s = ty @ '':'' @ hash_hex @ '':'' @ dir @ '':'' @ name;
          compressed = compress_hash (sha (as_bytes s)) 20
      in encode compressed @ ''-'' @ name)"

definition make_type :: "string \<Rightarrow> string \<Rightarrow> store_path list \<Rightarrow> bool \<Rightarrow> string" where
  "make_type dir base references self_ref =
     (let ty = foldl (\<lambda>ty reference. ty @ '':'' @ to_full dir reference) base references
      in if self_ref then ty @ '':self'' else ty)"

definition store_path_for ::
  "(bytes \<Rightarrow> bytes) \<Rightarrow> string \<Rightarrow> string \<Rightarrow> ca_method \<Rightarrow> string \<Rightarrow> bytes \<Rightarrow> store_path list \<Rightarrow> store_path option" where
  "store_path_for sha dir name method hash_algo hash references =
     (let long_form = (\<lambda>_::unit.
        if references \<noteq> [] then None
        else
          let pre = (if method = CaRecursive then ''r:'' else '''');
              inner = ''fixed:out:'' @ pre @ hash_algo @ '':'' @ hex hash @ '':'';
              digest = sha (as_bytes inner)
          in Some (StorePath (make_store_path sha dir ''output:out'' (''sha256:'' @ hex digest) name)))
      in case method of
        CaText \<Rightarrow>
          if hash_algo \<noteq> ''sha256'' then None
          else Some (StorePath (make_store_path sha dir (make_type dir ''text'' references False)
                 (''sha256:'' @ hex hash) name))
      | CaRecursive \<Rightarrow>
          if hash_algo = ''sha256''
          then Some (StorePath (make_store_path sha dir (make_type dir ''source'' references False)
                 (''sha256:'' @ hex hash) name))
          else long_form ()
      | CaFlat \<Rightarrow> long_form ())"

subsection \<open>Fixed outputs\<close>

text \<open>\<open>char::to_digit(16)\<close>: both cases of the letters.\<close>

definition hex_val :: "char \<Rightarrow> nat option" where
  "hex_val c =
     (let n = (of_char c :: nat) in
      if 48 \<le> n \<and> n \<le> 57 then Some (n - 48)
      else if 97 \<le> n \<and> n \<le> 102 then Some (n - 87)
      else if 65 \<le> n \<and> n \<le> 70 then Some (n - 55)
      else None)"

text \<open>
  \<open>u8::from_str_radix(_, 16)\<close> on a string of two bytes: a leading plus sign is
  consumed when something follows it. A byte outside ASCII is never a digit, so a two-byte
  slice that is not on a character boundary (\<open>s.get\<close> is \<open>None\<close>) and one that is
  fail alike.
\<close>

definition u8_from_hex2 :: "char \<Rightarrow> char \<Rightarrow> u8 option" where
  "u8_from_hex2 a b =
     (if a = CHR ''+'' then map_option of_nat (hex_val b)
      else Option.bind (hex_val a) (\<lambda>x. Option.bind (hex_val b) (\<lambda>y. Some (of_nat (16 * x + y)))))"

fun unhex :: "string \<Rightarrow> bytes option" where
  "unhex [] = Some []"
| "unhex [_] = None"
| "unhex (a # b # rest) =
     Option.bind (u8_from_hex2 a b) (\<lambda>x. Option.bind (unhex rest) (\<lambda>xs. Some (x # xs)))"

definition verify_fixed_output ::
  "(bytes \<Rightarrow> bytes) \<Rightarrow> string \<Rightarrow> string \<Rightarrow> string \<Rightarrow> string \<Rightarrow> string \<Rightarrow> store_path option" where
  "verify_fixed_output sha dir drv_name output_name algo hash_hex =
     (let (method, hash_algo) =
            (case strip_prefix ''r:'' algo of Some rest \<Rightarrow> (CaRecursive, rest) | None \<Rightarrow> (CaFlat, algo));
          output_path_name =
            (if output_name = ''out'' then drv_name else drv_name @ ''-'' @ output_name)
      in Option.bind (unhex hash_hex) (\<lambda>h.
         store_path_for sha dir output_path_name method hash_algo h []))"

subsection \<open>Verification of a push\<close>

record content_address =
  ca_method :: ca_method
  ca_algo :: string
  ca_hash :: bytes

datatype rejection =
    HashMismatch string string
  | WrongPath string string
  | Unverifiable string

text \<open>One length-prefixed, eight-byte-padded string at a position: the string and the next position.\<close>

definition read_token :: "bytes \<Rightarrow> nat \<Rightarrow> (bytes \<times> nat) option" where
  "read_token nar at =
     (if at + 8 > length nar then None
      else
        let len = unat (from_le_bytes (take 8 (drop at nar))); start = at + 8 in
        if start + len \<ge> 2 ^ 64 then None
        else
          let e = start + len in
          if e > length nar then None
          else Some (take len (drop start nar), e + padding len))"

text \<open>\<open>read_token(..)? != t\<close> as a guard: the position behind the token when it is \<open>t\<close>.\<close>

definition expect_token :: "bytes \<Rightarrow> string \<Rightarrow> nat \<Rightarrow> nat option" where
  "expect_token nar t at =
     Option.bind (read_token nar at) (\<lambda>(x, at). if x = as_bytes t then Some at else None)"

definition regular_file_contents :: "bytes \<Rightarrow> bytes option" where
  "regular_file_contents nar =
     Option.bind (expect_token nar ''nix-archive-1'' 0) (\<lambda>at.
     Option.bind (expect_token nar ''('' at) (\<lambda>at.
     Option.bind (expect_token nar ''type'' at) (\<lambda>at.
     Option.bind (expect_token nar ''regular'' at) (\<lambda>at.
     Option.bind (read_token nar at) (\<lambda>(field, at).
     Option.bind
       (if field = as_bytes ''executable''
        then Option.bind (read_token nar at) (\<lambda>(_, at). read_token nar at)
        else Some (field, at)) (\<lambda>(field, at).
     if field \<noteq> as_bytes ''contents'' then None
     else
       Option.bind (read_token nar at) (\<lambda>(contents, at).
       Option.bind (expect_token nar '')'' at) (\<lambda>_. Some contents))))))))"

text \<open>What the method hashes: the archive, or the single file in it.\<close>

definition hashed_content :: "ca_method \<Rightarrow> bytes \<Rightarrow> bytes option" where
  "hashed_content m nar = (if m = CaRecursive then Some nar else regular_file_contents nar)"

definition verify ::
  "(bytes \<Rightarrow> bytes) \<Rightarrow> string \<Rightarrow> store_path \<Rightarrow> content_address \<Rightarrow> store_path list \<Rightarrow> bytes \<Rightarrow> (rejection, unit) res" where
  "verify sha dir path ca references nar =
     bind_res (ok_or (Unverifiable ''not a store path'') (sp_name path)) (\<lambda>name.
     if ca_algo ca \<noteq> ''sha256'' then Err (Unverifiable ''only sha256 is checked'')
     else
       bind_res (ok_or (Unverifiable ''not a single regular file'')
         (map_option sha (hashed_content (ca_method ca) nar))) (\<lambda>actual.
       if actual \<noteq> ca_hash ca then Err (HashMismatch (hex (ca_hash ca)) (hex actual))
       else
         bind_res (ok_or (Unverifiable ''no path for this address'')
           (store_path_for sha dir name (ca_method ca) (ca_algo ca) actual references)) (\<lambda>computed.
         if computed \<noteq> path then Err (WrongPath (sp_str path) (sp_str computed))
         else Ok ())))"

subsection \<open>Shape of a computed path\<close>

lemma length_compress_loop [simp]: "length (compress_loop n i hash out) = length out"
  by (induction n i hash out rule: compress_loop.induct) auto

lemma length_compress_hash [simp]: "length (compress_hash hash n) = n"
  by (simp add: compress_hash_def)

lemma length_path_hash: "length (encode (compress_hash h 20)) = 32"
proof -
  have "compress_hash h 20 \<noteq> []" by (metis length_compress_hash list.size(3) zero_neq_numeral)
  then show ?thesis by (simp add: length_encode b32_len_def)
qed

lemma path_hash_chars: "CHR ''/'' \<notin> set (encode x)" "CHR ''-'' \<notin> set (encode x)"
  using encode_alphabet base32_no_sep by blast+

text \<open>The path a preimage of the store path hash belongs at.\<close>

definition path_of_preimage :: "(bytes \<Rightarrow> bytes) \<Rightarrow> bytes \<Rightarrow> string \<Rightarrow> store_path" where
  "path_of_preimage sha s name = StorePath (encode (compress_hash (sha s) 20) @ CHR ''-'' # name)"

lemma path_of_preimage_parts:
  "name \<noteq> [] \<Longrightarrow> CHR ''/'' \<notin> set name \<Longrightarrow>
   sp_name (path_of_preimage sha s name) = Some name \<and>
   hash_part (path_of_preimage sha s name) = Some (encode (compress_hash (sha s) 20))"
  unfolding path_of_preimage_def
  by (intro sp_name_bare path_hash_chars length_path_hash)

lemma path_of_preimage_inject:
  "path_of_preimage sha s name = path_of_preimage sha s' name' \<longleftrightarrow>
   compress_hash (sha s) 20 = compress_hash (sha s') 20 \<and> name = name'"
  by (auto simp: path_of_preimage_def append_sep_inject path_hash_chars encode_inject)

lemma make_store_path_eq:
  "StorePath (make_store_path sha dir ty h name) =
   path_of_preimage sha (as_bytes (ty @ '':'' @ h @ '':'' @ dir @ '':'' @ name)) name"
  by (simp add: make_store_path_def path_of_preimage_def Let_def)

subsection \<open>Hexadecimal\<close>

lemma hex_val_hex_digit: "n < 16 \<Longrightarrow> hex_val (hex_digit n) = Some n \<and> hex_digit n \<noteq> CHR ''+''"
  by (auto simp: hex_val_def hex_digit_def Let_def of_char_of dest!: arg_cong [where f = "of_char :: char \<Rightarrow> nat"])

lemma unhex_hex [simp]: "unhex (hex bs) = Some bs"
proof (induction bs)
  case (Cons b bs)
  have "unat b div 16 < 16" using unat_u8_less [of b] by linarith
  moreover have "of_nat (16 * (unat b div 16) + unat b mod 16) = b"
    by (simp only: mult_div_mod_eq of_nat_unat ucast_id)
  ultimately show ?case
    using Cons hex_val_hex_digit [of "unat b div 16"] hex_val_hex_digit [of "unat b mod 16"]
    by (simp add: hex_def hex_byte_def u8_from_hex2_def del: of_nat_add of_nat_mult)
qed (simp add: hex_def)

lemma length_hex: "length (hex bs) = 2 * length bs"
  by (induction bs) (simp_all add: hex_def hex_byte_def)

lemma hex_inject [simp]: "hex a = hex b \<longleftrightarrow> a = b"
  by (metis option.inject unhex_hex)

lemma hex_digit_not_colon: "n < 16 \<Longrightarrow> hex_digit n \<noteq> CHR '':''"
  by (auto simp: hex_digit_def dest!: arg_cong [where f = "of_char :: char \<Rightarrow> nat"])

lemma hex_no_colon: "CHR '':'' \<notin> set (hex bs)"
proof (induction bs)
  case (Cons b bs)
  have "unat b div 16 < 16" using unat_u8_less [of b] by linarith
  then show ?case
    using Cons hex_digit_not_colon [of "unat b div 16"] hex_digit_not_colon [of "unat b mod 16"]
    by (auto simp: hex_def hex_byte_def)
qed (simp add: hex_def)

subsection \<open>Tokens\<close>

lemma read_token_at:
  assumes "length (pre @ enc_bytes v @ post) < 2 ^ 63"
  shows "read_token (pre @ enc_bytes v @ post) (length pre) = Some (v, length (pre @ enc_bytes v))"
proof -
  have "unat (of_nat (length v) :: u64) = length v"
    by (rule unat_of_nat_u64) (use assms in \<open>simp add: length_enc_bytes\<close>)
  then show ?thesis
    using assms by (simp add: read_token_def enc_bytes_def Let_def)
qed

lemma expect_token_at:
  assumes "length (pre @ enc_string t @ post) < 2 ^ 63"
  shows "expect_token (pre @ enc_string t @ post) t (length pre) = Some (length (pre @ enc_string t))"
  using read_token_at [of pre "as_bytes t" post] assms by (simp add: expect_token_def enc_string_def)

text \<open>A run that succeeded still succeeds, with the same value.\<close>

definition extends :: "'a option \<Rightarrow> 'a option \<Rightarrow> bool" where
  "extends x y \<longleftrightarrow> (\<forall>a. x = Some a \<longrightarrow> y = Some a)"

lemma extends_refl [simp]: "extends x x"
  by (simp add: extends_def)

lemma extends_bind: "extends x y \<Longrightarrow> (\<And>a. extends (f a) (g a)) \<Longrightarrow> extends (Option.bind x f) (Option.bind y g)"
  by (cases x) (auto simp: extends_def)

lemma extends_if:
  "extends x x' \<Longrightarrow> extends y y' \<Longrightarrow> extends (if b then x else y) (if b then x' else y')"
  by simp

lemma read_token_extends: "extends (read_token nar at) (read_token (nar @ junk) at)"
  by (auto simp: extends_def read_token_def Let_def split: if_splits)

lemma expect_token_extends: "extends (expect_token nar t at) (expect_token (nar @ junk) t at)"
  unfolding expect_token_def
  by (rule extends_bind [OF read_token_extends]) (auto split: prod.splits)

lemma regular_file_contents_extends:
  "extends (regular_file_contents nar) (regular_file_contents (nar @ junk))"
  unfolding regular_file_contents_def split_def
  by (intro extends_bind extends_if read_token_extends expect_token_extends extends_refl)

subsection \<open>What an accepted push was checked against\<close>

text \<open>The descriptions that are hashed on the way to a path, for the sha256 address of a content.\<close>

definition fixed_inner :: "bytes \<Rightarrow> bytes" where
  "fixed_inner h = as_bytes (''fixed:out:sha256:'' @ hex h @ '':'')"

definition path_type :: "string \<Rightarrow> ca_method \<Rightarrow> store_path list \<Rightarrow> string" where
  "path_type dir m refs =
     (case m of CaText \<Rightarrow> make_type dir ''text'' refs False
      | CaRecursive \<Rightarrow> make_type dir ''source'' refs False
      | CaFlat \<Rightarrow> ''output:out'')"

definition path_digest :: "(bytes \<Rightarrow> bytes) \<Rightarrow> ca_method \<Rightarrow> bytes \<Rightarrow> bytes" where
  "path_digest sha m h = (if m = CaFlat then sha (fixed_inner h) else h)"

definition path_preimage :: "(bytes \<Rightarrow> bytes) \<Rightarrow> string \<Rightarrow> string \<Rightarrow> ca_method \<Rightarrow> bytes \<Rightarrow> store_path list \<Rightarrow> bytes" where
  "path_preimage sha dir name m h refs =
     as_bytes (path_type dir m refs @ '':'' @ (''sha256:'' @ hex (path_digest sha m h)) @ '':'' @ dir @ '':'' @ name)"

lemma store_path_for_sha256:
  "store_path_for sha dir name m ''sha256'' h refs =
   (if m = CaFlat \<and> refs \<noteq> [] then None
    else Some (path_of_preimage sha (path_preimage sha dir name m h refs) name))"
  by (cases m)
    (simp_all add: store_path_for_def make_store_path_eq path_preimage_def path_type_def
      path_digest_def fixed_inner_def Let_def)

lemma verify_Ok_iff:
  "verify sha dir p ca refs nar = Ok u \<longleftrightarrow>
   (\<exists>name c. sp_name p = Some name \<and> ca_algo ca = ''sha256'' \<and>
      hashed_content (ca_method ca) nar = Some c \<and> ca_hash ca = sha c \<and>
      (ca_method ca = CaFlat \<longrightarrow> refs = []) \<and>
      p = path_of_preimage sha (path_preimage sha dir name (ca_method ca) (sha c) refs) name)"
  by (auto simp: verify_def res_simps store_path_for_sha256)

text \<open>Every string whose digest the check of one push relies on.\<close>

definition verify_inputs :: "(bytes \<Rightarrow> bytes) \<Rightarrow> string \<Rightarrow> store_path \<Rightarrow> content_address \<Rightarrow> store_path list \<Rightarrow> bytes \<Rightarrow> bytes list" where
  "verify_inputs sha dir p ca refs nar =
     (case (sp_name p, hashed_content (ca_method ca) nar) of
        (Some name, Some c) \<Rightarrow>
          [c, fixed_inner (sha c), path_preimage sha dir name (ca_method ca) (sha c) refs]
      | _ \<Rightarrow> [])"

lemma make_type_eq:
  "make_type dir base refs False = base @ concat (map (\<lambda>r. CHR '':'' # to_full dir r) refs)"
proof -
  have "foldl (\<lambda>ty r. ty @ '':'' @ to_full dir r) base refs =
        base @ concat (map (\<lambda>r. CHR '':'' # to_full dir r) refs)"
    by (induction refs arbitrary: base) simp_all
  then show ?thesis by (simp add: make_type_def)
qed

lemma split_on_concat_sep:
  "c \<notin> set a \<Longrightarrow> (\<And>x. x \<in> set xs \<Longrightarrow> c \<notin> set x) \<Longrightarrow>
   split_on c (a @ concat (map (\<lambda>x. c # x) xs)) = a # xs"
  by (induction xs arbitrary: a) (simp_all add: split_on_append_sep)

lemma concat_sep_inject:
  assumes "\<And>x. x \<in> set xs \<union> set ys \<Longrightarrow> c \<notin> set x"
    and "concat (map (\<lambda>x. c # x) xs) = concat (map (\<lambda>x. c # x) ys)"
  shows "xs = ys"
  using assms split_on_concat_sep [of c "[]" xs] split_on_concat_sep [of c "[]" ys] by auto

lemma path_type_method: "path_type dir m refs = path_type dir m' refs' \<Longrightarrow> m = m'"
  by (cases m; cases m') (simp_all add: path_type_def make_type_eq)

lemma path_type_refs:
  assumes "path_type dir m refs = path_type dir m refs'" and "m \<noteq> CaFlat"
    and "\<And>r. r \<in> set refs \<union> set refs' \<Longrightarrow> CHR '':'' \<notin> set (to_full dir r)"
  shows "refs = refs'"
proof -
  have "concat (map (\<lambda>x. CHR '':'' # x) (map (to_full dir) refs)) =
        concat (map (\<lambda>x. CHR '':'' # x) (map (to_full dir) refs'))"
    using assms(1,2) by (cases m) (simp_all add: path_type_def make_type_eq comp_def)
  then have "map (to_full dir) refs = map (to_full dir) refs'"
    by (rule concat_sep_inject [rotated]) (use assms(3) in auto)
  then show ?thesis by (simp add: inj_map_eq_map inj_def)
qed

lemma path_preimage_inject:
  assumes "path_preimage sha dir name m h refs = path_preimage sha dir name m' h' refs'"
    and "digest_ok sha" and "length h = 32" and "length h' = 32"
  shows "path_type dir m refs = path_type dir m' refs'" and "path_digest sha m h = path_digest sha m' h'"
proof -
  have len: "length (hex (path_digest sha m h)) = length (hex (path_digest sha m' h'))"
    using assms(2-4) by (simp add: length_hex path_digest_def digest_ok_def)
  let ?t = "'':'' @ dir @ '':'' @ name"
  have "(path_type dir m refs @ '':sha256:'' @ hex (path_digest sha m h)) @ ?t =
        (path_type dir m' refs' @ '':sha256:'' @ hex (path_digest sha m' h')) @ ?t"
    using assms(1) unfolding path_preimage_def as_bytes_inject by simp
  then have "path_type dir m refs @ ('':sha256:'' @ hex (path_digest sha m h)) =
        path_type dir m' refs' @ ('':sha256:'' @ hex (path_digest sha m' h'))"
    by (simp only: append_same_eq)
  then show "path_type dir m refs = path_type dir m' refs'" and "path_digest sha m h = path_digest sha m' h'"
    using len by (simp_all only: append_eq_append_conv length_append hex_inject simp_thms same_append_eq)
qed

text \<open>
  C35: two pushes accepted as verified at the same path carry the same content. Whenever no two
  of the at most six strings hashed while checking them collide in the 160 bits of a store
  path hash, they used the same method and declared the same digest, the hashed content (the
  whole archive, or the single file for the text and flat methods) is equal byte for byte,
  and so are the references, as long as no reference contains a colon.
\<close>

theorem verify_binds_content:
  assumes "digest_ok sha"
    and ok: "verify sha dir p ca refs nar = Ok ()" "verify sha dir p ca' refs' nar' = Ok ()"
    and no_collision: "inj_on (\<lambda>x. compress_hash (sha x) 20)
          (set (verify_inputs sha dir p ca refs nar) \<union> set (verify_inputs sha dir p ca' refs' nar'))"
  shows "ca = ca' \<and> hashed_content (ca_method ca) nar = hashed_content (ca_method ca') nar' \<and>
    ((\<forall>r \<in> set refs \<union> set refs'. CHR '':'' \<notin> set (to_full dir r)) \<longrightarrow> refs = refs')"
proof -
  obtain name c where p: "sp_name p = Some name" "ca_algo ca = ''sha256''"
      "hashed_content (ca_method ca) nar = Some c" "ca_hash ca = sha c"
      "ca_method ca = CaFlat \<longrightarrow> refs = []"
      "p = path_of_preimage sha (path_preimage sha dir name (ca_method ca) (sha c) refs) name"
    using ok(1) unfolding verify_Ok_iff by blast
  obtain c' where p': "ca_algo ca' = ''sha256''"
      "hashed_content (ca_method ca') nar' = Some c'" "ca_hash ca' = sha c'"
      "ca_method ca' = CaFlat \<longrightarrow> refs' = []"
      "p = path_of_preimage sha (path_preimage sha dir name (ca_method ca') (sha c') refs') name"
    using ok(2) p(1) unfolding verify_Ok_iff by auto
  have eqI: "x = y" if "sha x = sha y \<or> compress_hash (sha x) 20 = compress_hash (sha y) 20"
      "x \<in> set (verify_inputs sha dir p ca refs nar)" "y \<in> set (verify_inputs sha dir p ca' refs' nar')" for x y
    using inj_onD [OF no_collision] that by (metis UnI1 UnI2)
  have inputs: "set (verify_inputs sha dir p ca refs nar) =
        {c, fixed_inner (sha c), path_preimage sha dir name (ca_method ca) (sha c) refs}"
    and inputs': "set (verify_inputs sha dir p ca' refs' nar') =
        {c', fixed_inner (sha c'), path_preimage sha dir name (ca_method ca') (sha c') refs'}"
    using p(1,3) p'(2) by (simp_all add: verify_inputs_def)
  have "path_preimage sha dir name (ca_method ca) (sha c) refs =
        path_preimage sha dir name (ca_method ca') (sha c') refs'"
    by (rule eqI) (use p(6) p'(5) inputs inputs' in \<open>auto simp: path_of_preimage_inject\<close>)
  note inj = path_preimage_inject [OF this assms(1)]
  have types: "path_type dir (ca_method ca) refs = path_type dir (ca_method ca') refs'"
    and dig: "path_digest sha (ca_method ca) (sha c) = path_digest sha (ca_method ca') (sha c')"
    using inj assms(1) by (simp_all add: digest_ok_def)
  have m: "ca_method ca = ca_method ca'" by (rule path_type_method [OF types])
  have "sha c = sha c'"
  proof (cases "ca_method ca = CaFlat")
    case True
    then have "fixed_inner (sha c) = fixed_inner (sha c')"
      by (intro eqI) (use dig m inputs inputs' in \<open>auto simp: path_digest_def\<close>)
    then show ?thesis by (simp add: fixed_inner_def)
  qed (use dig m in \<open>simp add: path_digest_def\<close>)
  moreover have "c = c'"
    by (rule eqI) (use calculation inputs inputs' in auto)
  moreover have "refs = refs'" if "\<forall>r \<in> set refs \<union> set refs'. CHR '':'' \<notin> set (to_full dir r)"
    using p(5) p'(4) m types that path_type_refs [of dir "ca_method ca" refs refs']
    by (cases "ca_method ca = CaFlat") auto
  ultimately show ?thesis
    using m p p' by (auto intro: content_address.equality)
qed

subsection \<open>Archives of a single file\<close>

text \<open>
  The archive of a single file as the format describes it, with or without the executable
  flag: the specification the token reader is judged against.
\<close>

definition file_nar :: "bool \<Rightarrow> bytes \<Rightarrow> bytes" where
  "file_nar executable contents =
     concat (map enc_string
       ([''nix-archive-1'', ''('', ''type'', ''regular''] @
        (if executable then [''executable'', ''''] else []) @ [''contents''])) @
     enc_bytes contents @ enc_string '')''"

lemma expect_token_next:
  assumes "nar = pre @ enc_string t @ post" and "length nar < 2 ^ 63" and "n = length pre"
  shows "expect_token nar t n = Some (length (pre @ enc_string t))"
  using expect_token_at [of pre t post] assms by simp

lemma read_token_next:
  assumes "nar = pre @ enc_bytes v @ post" and "length nar < 2 ^ 63" and "n = length pre"
  shows "read_token nar n = Some (v, length (pre @ enc_bytes v))"
  using read_token_at [of pre v post] assms by simp

lemma regular_file_contents_file_nar:
  assumes "length (file_nar executable contents @ junk) < 2 ^ 63"
  shows "regular_file_contents (file_nar executable contents @ junk) = Some contents"
proof -
  let ?E = enc_string
  define p1 where "p1 = ?E ''nix-archive-1''"
  define p2 where "p2 = p1 @ ?E ''(''"
  define p3 where "p3 = p2 @ ?E ''type''"
  define p4 where "p4 = p3 @ ?E ''regular''"
  define p5 where "p5 = p4 @ (if executable then ?E ''executable'' @ ?E '''' else [])"
  define p6 where "p6 = p5 @ ?E ''contents''"
  define p7 where "p7 = p6 @ enc_bytes contents"
  define nar where "nar = p7 @ ?E '')'' @ junk"
  note ps = p7_def p6_def p5_def p4_def p3_def p2_def p1_def
  have nar: "file_nar executable contents @ junk = nar"
    by (simp add: file_nar_def nar_def ps)
  then have len: "length nar < 2 ^ 63" using assms by simp
  have head: "expect_token nar ''nix-archive-1'' 0 = Some (length p1)"
      "expect_token nar ''('' (length p1) = Some (length p2)"
      "expect_token nar ''type'' (length p2) = Some (length p3)"
      "expect_token nar ''regular'' (length p3) = Some (length p4)"
    using expect_token_next [OF _ len, of "[]" "''nix-archive-1''"]
      expect_token_next [OF _ len, of p1 "''(''"] expect_token_next [OF _ len, of p2 "''type''"]
      expect_token_next [OF _ len, of p3 "''regular''"]
    by (simp_all add: nar_def ps)
  have contents: "read_token nar (length p5) = Some (as_bytes ''contents'', length p6)"
    by (subst read_token_next [OF _ len, where pre = p5 and v = "as_bytes ''contents''"
          and post = "enc_bytes contents @ ?E '')'' @ junk"])
      (simp_all add: nar_def p7_def p6_def enc_string_def)
  have field: "Option.bind (read_token nar (length p4)) (\<lambda>(f, at).
      if f = as_bytes ''executable''
        then Option.bind (read_token nar at) (\<lambda>(_, at). read_token nar at) else Some (f, at)) =
      Some (as_bytes ''contents'', length p6)"
  proof (cases executable)
    case True
    have "read_token nar (length p4) = Some (as_bytes ''executable'', length (p4 @ ?E ''executable''))"
      by (subst read_token_next [OF _ len, where pre = p4 and v = "as_bytes ''executable''"
            and post = "?E '''' @ ?E ''contents'' @ enc_bytes contents @ ?E '')'' @ junk"])
        (simp_all add: nar_def p7_def p6_def p5_def enc_string_def True)
    moreover have "read_token nar (length (p4 @ ?E ''executable'')) = Some ([], length p5)"
      by (subst read_token_next [OF _ len, where pre = "p4 @ ?E ''executable''" and v = "[]"
            and post = "?E ''contents'' @ enc_bytes contents @ ?E '')'' @ junk"])
        (simp_all add: nar_def p7_def p6_def p5_def enc_string_def as_bytes_def True)
    ultimately show ?thesis using contents by simp
  next
    case False
    then have "p4 = p5" by (simp add: p5_def)
    then show ?thesis using contents by simp
  qed
  have body: "read_token nar (length p6) = Some (contents, length p7)"
    by (subst read_token_next [OF _ len, where pre = p6 and v = contents and post = "?E '')'' @ junk"])
      (simp_all add: nar_def p7_def)
  have close: "expect_token nar '')'' (length p7) = Some (length (p7 @ ?E '')''))"
    by (rule expect_token_next [OF _ len]) (simp_all add: nar_def)
  show ?thesis
    unfolding nar regular_file_contents_def
    using head field body close by (simp add: split_def flip: Option.bind_assoc)
qed

text \<open>
  the text and flat checks accept every archive that reads back to the same file, not only
  the canonical one. If the archive of a file is accepted, then the archive of the same file
  with the executable flag set or cleared, followed by arbitrary further bytes, is accepted at
  the same path. So the bytes stored for a verified path are not determined by the path, while
  \<open>regular_file_contents\<close> is documented as reading a NAR holding exactly one regular
  file.
\<close>

theorem verify_file_malleable:
  assumes "verify sha dir p ca refs (file_nar executable contents) = Ok ()"
    and "ca_method ca \<noteq> CaRecursive"
    and "length (file_nar executable' contents @ junk) < 2 ^ 63"
    and "length (file_nar executable contents) < 2 ^ 63"
  shows "verify sha dir p ca refs (file_nar executable' contents @ junk) = Ok ()"
proof -
  have "hashed_content (ca_method ca) (file_nar executable' contents @ junk) =
        hashed_content (ca_method ca) (file_nar executable contents)"
    using assms(2-4) regular_file_contents_file_nar [of executable contents "[]"]
      regular_file_contents_file_nar [of executable' contents junk]
    by (simp add: hashed_content_def)
  with assms(1) show ?thesis by (simp add: verify_Ok_iff)
qed

text \<open>
  The two ways a content-addressed path is computed agree. For a flat or recursive sha256
  address with no references, \<open>verify\<close> accepts an archive at a path exactly when
  \<open>verify_fixed_output\<close>, given the derivation name that is the path's own name and the
  hex of the content's digest, derives that path: a pushed path and the same path built as a
  fixed output cannot differ.
\<close>

theorem verify_agrees_with_fixed_output:
  assumes "sp_name p = Some name" and "hashed_content m nar = Some c" and "m \<noteq> CaText"
  shows "verify sha dir p \<lparr>ca_method = m, ca_algo = ''sha256'', ca_hash = sha c\<rparr> [] nar = Ok () \<longleftrightarrow>
         verify_fixed_output sha dir name ''out''
           ((if m = CaRecursive then ''r:'' else '''') @ ''sha256'') (hex (sha c)) = Some p"
proof -
  have "verify_fixed_output sha dir name ''out''
          ((if m = CaRecursive then ''r:'' else '''') @ ''sha256'') (hex (sha c)) =
        Some (path_of_preimage sha (path_preimage sha dir name m (sha c) []) name)"
    using assms(3) by (cases m) (simp_all add: verify_fixed_output_def store_path_for_sha256)
  then show ?thesis using assms(1,2) by (auto simp: verify_Ok_iff)
qed

text \<open>
  \<open>unhex\<close> inverts the hex printer, and it accepts more than its documentation says:
  a plus sign in place of the first digit of a byte, and upper-case digits.
\<close>

theorem unhex_roundtrip_and_leniency:
  "unhex (hex bs) = Some bs \<and> unhex (''+'' @ ''f'') = Some [15] \<and> unhex ''FF'' = unhex ''ff''"
  by (simp add: u8_from_hex2_def hex_val_def)

lemma verify_Ok_path:
  assumes "verify sha dir p ca refs nar = Ok u"
  shows "\<exists>h name. p = StorePath (h @ CHR ''-'' # name) \<and> hash_part p = Some h \<and>
           is_valid h \<and> length h = 32 \<and> name \<noteq> []"
proof -
  obtain name s where n: "sp_name p = Some name" and p: "p = path_of_preimage sha s name"
    using assms unfolding verify_Ok_iff by blast
  let ?h = "encode (compress_hash (sha s) 20)"
  obtain h' where h': "hash_part p = Some h'" "base_name p = h' @ CHR ''-'' # name" "name \<noteq> []"
    using sp_name_hash_part [OF n] by blast
  have "CHR ''/'' \<notin> set name" using base_name_no_slash [of p] h'(2) by simp
  then have "hash_part p = Some ?h" using path_of_preimage_parts p h'(3) by blast
  moreover have "is_valid ?h"
    using encode_alphabet length_path_hash [of "sha s"] by (auto simp: is_valid_def list_all_iff)
  ultimately show ?thesis using p length_path_hash h'(3) by (auto simp: path_of_preimage_def)
qed

subsection \<open>A concrete push\<close>

text \<open>A digest function short enough to evaluate, and a file pushed with a flat address.\<close>

definition toy_sha :: "bytes \<Rightarrow> bytes" where
  "toy_sha x = take 20 (x @ replicate 20 0) @ replicate 12 0"

definition ex_ca :: content_address where
  "ex_ca = \<lparr>ca_method = CaFlat, ca_algo = ''sha256'', ca_hash = toy_sha [1, 2]\<rparr>"

definition ex_path :: store_path where
  "ex_path = path_of_preimage toy_sha (path_preimage toy_sha ''/s'' ''n'' CaFlat (toy_sha [1, 2]) []) ''n''"

lemma toy_sha_ok: "digest_ok toy_sha"
  by (auto simp: digest_ok_def toy_sha_def min_def)

lemma ex_name: "sp_name ex_path = Some ''n''"
  unfolding ex_path_def by (rule path_of_preimage_parts [THEN conjunct1]) simp_all

lemma ex_contents:
  "regular_file_contents (file_nar False [1, 2]) = Some [1, 2]"
  "regular_file_contents (file_nar True [1, 2] @ [7]) = Some [1, 2]"
  using regular_file_contents_file_nar [of False "[1, 2]" "[]"]
    regular_file_contents_file_nar [of True "[1, 2]" "[7]"]
  by (simp_all add: file_nar_def enc_string_def enc_bytes_def padding_def)

lemma ex_verify:
  "verify toy_sha ''/s'' ex_path ex_ca [] (file_nar False [1, 2]) = Ok ()"
  "verify toy_sha ''/s'' ex_path ex_ca [] (file_nar True [1, 2] @ [7]) = Ok ()"
  using ex_name ex_contents by (auto simp: verify_Ok_iff hashed_content_def ex_ca_def ex_path_def)

lemma ex_inputs:
  "inj_on (\<lambda>x. compress_hash (toy_sha x) 20)
     (set (verify_inputs toy_sha ''/s'' ex_path ex_ca [] (file_nar False [1, 2])) \<union>
      set (verify_inputs toy_sha ''/s'' ex_path ex_ca [] (file_nar True [1, 2] @ [7])))"
proof -
  have *: "verify_inputs toy_sha ''/s'' ex_path ex_ca [] nar =
      [[1, 2], fixed_inner (toy_sha [1, 2]), path_preimage toy_sha ''/s'' ''n'' CaFlat (toy_sha [1, 2]) []]"
    if "regular_file_contents nar = Some [1, 2]" for nar
    using ex_name that by (simp add: verify_inputs_def hashed_content_def ex_ca_def)
  have "distinct (map (\<lambda>x. compress_hash (toy_sha x) 20)
      [[1, 2], fixed_inner (toy_sha [1, 2]), path_preimage toy_sha ''/s'' ''n'' CaFlat (toy_sha [1, 2]) []])"
    by code_simp
  then show ?thesis
    by (simp only: * ex_contents Un_absorb distinct_map)
qed

theorem verify_binds_content_witness:
  "digest_ok toy_sha \<and>
   verify toy_sha ''/s'' ex_path ex_ca [] (file_nar False [1, 2]) = Ok () \<and>
   verify toy_sha ''/s'' ex_path ex_ca [] (file_nar True [1, 2] @ [7]) = Ok () \<and>
   hashed_content (ca_method ex_ca) (file_nar False [1, 2]) =
     hashed_content (ca_method ex_ca) (file_nar True [1, 2] @ [7])"
  using verify_binds_content [OF toy_sha_ok ex_verify ex_inputs] toy_sha_ok ex_verify by simp

theorem verify_file_malleable_witness:
  "verify toy_sha ''/s'' ex_path ex_ca [] (file_nar True [1, 2] @ [0, 255]) = Ok ()"
  by (rule verify_file_malleable [OF ex_verify(1)])
    (simp_all add: ex_ca_def file_nar_def enc_string_def enc_bytes_def padding_def)

theorem verify_agrees_with_fixed_output_witness:
  "verify toy_sha ''/s'' ex_path \<lparr>ca_method = CaFlat, ca_algo = ''sha256'', ca_hash = toy_sha [1, 2]\<rparr> []
     (file_nar False [1, 2]) = Ok () \<longleftrightarrow>
   verify_fixed_output toy_sha ''/s'' ''n'' ''out''
     ((if CaFlat = CaRecursive then ''r:'' else '''') @ ''sha256'') (hex (toy_sha [1, 2])) = Some ex_path"
  by (rule verify_agrees_with_fixed_output [OF ex_name]) (simp_all add: hashed_content_def ex_contents)

end
