(* ===== verification/Narinfo.thy ===== *)
theory Narinfo
  imports Store Base32 Utf8
begin

text \<open>
  The narinfo format: the parser of \<open>crates/server/src/substitute.rs\<close>
  (\<open>ParsedNarinfo::parse\<close>) and the renderer of \<open>crates/server/src/http.rs\<close>
  (\<open>render_narinfo\<close>), with the string operations of the standard library they use, and
  the proof that what the cache serves is parsed back unchanged.
\<close>

subsection \<open>String operations\<close>

text \<open>The UTF-8 encodings of the characters with the Unicode property White\_Space.\<close>

definition ws_chars :: "string list" where
  "ws_chars = map (\<lambda>n. [char_of (n :: nat)]) [9, 10, 11, 12, 13, 32] @
     map (map (char_of :: nat \<Rightarrow> char))
       ([[194, 133], [194, 160], [225, 154, 128]] @ map (\<lambda>n. [226, 128, n]) ([128..<139] @ [168, 169, 175]) @
        [[226, 129, 159], [227, 128, 128]])"

definition ws_prefix :: "string \<Rightarrow> string option" where
  "ws_prefix s = find (\<lambda>w. prefix w s) ws_chars"

lemma ws_prefix_shrinks: "ws_prefix s = Some w \<Longrightarrow> length s - length w < length s \<and> 0 < length w \<and> prefix w s"
proof -
  assume "ws_prefix s = Some w"
  then have "w \<in> set ws_chars" and p: "prefix w s" by (auto simp: ws_prefix_def dest: find_Some_mem)
  then have "w \<noteq> []" by (auto simp: ws_chars_def)
  then show ?thesis using p by (auto simp: prefix_def)
qed

function trim_start :: "string \<Rightarrow> string" where
  "trim_start s = (case ws_prefix s of None \<Rightarrow> s | Some w \<Rightarrow> trim_start (drop (length w) s))"
  by pat_completeness auto
termination
  by (relation "measure length") (auto dest: ws_prefix_shrinks)

declare trim_start.simps [simp del]

definition ws_suffix :: "string \<Rightarrow> string option" where
  "ws_suffix s = find (\<lambda>w. suffix w s) ws_chars"

lemma ws_suffix_shrinks: "ws_suffix s = Some w \<Longrightarrow> length s - length w < length s \<and> suffix w s"
proof -
  assume "ws_suffix s = Some w"
  then have "w \<in> set ws_chars" and p: "suffix w s" by (auto simp: ws_suffix_def dest: find_Some_mem)
  then have "w \<noteq> []" by (auto simp: ws_chars_def)
  then show ?thesis using p by (auto simp: suffix_def)
qed

function trim_end :: "string \<Rightarrow> string" where
  "trim_end s = (case ws_suffix s of None \<Rightarrow> s | Some w \<Rightarrow> trim_end (take (length s - length w) s))"
  by pat_completeness auto
termination
  by (relation "measure length") (auto dest: ws_suffix_shrinks)

declare trim_end.simps [simp del]

definition trim :: "string \<Rightarrow> string" where
  "trim s = trim_end (trim_start s)"

text \<open>\<open>split_whitespace\<close>: the maximal non-empty pieces between whitespace characters.\<close>

function split_ws :: "string \<Rightarrow> string \<Rightarrow> string list" where
  "split_ws acc s =
     (case s of
        [] \<Rightarrow> (if acc = [] then [] else [acc])
      | c # cs \<Rightarrow>
          (case ws_prefix s of
             Some w \<Rightarrow> (if acc = [] then [] else [acc]) @ split_ws [] (drop (length w) s)
           | None \<Rightarrow> split_ws (acc @ [c]) cs))"
  by pat_completeness auto
termination
  by (relation "measure (\<lambda>(acc, s). length s)") (auto dest: ws_prefix_shrinks)

declare split_ws.simps [simp del]

definition split_whitespace :: "string \<Rightarrow> string list" where
  "split_whitespace s = split_ws [] s"

definition strip_cr :: "string \<Rightarrow> string" where
  "strip_cr s = (case strip_suffix [char_of (13 :: nat)] s of None \<Rightarrow> s | Some r \<Rightarrow> r)"

definition newline :: char where
  "newline = char_of (10 :: nat)"

definition str_lines :: "string \<Rightarrow> string list" where
  "str_lines s =
     (let ps = split_on newline s in map strip_cr (if last ps = [] then butlast ps else ps))"

definition trim_end_slashes :: "string \<Rightarrow> string" where
  "trim_end_slashes s = rev (dropWhile (\<lambda>c. c = CHR ''/'') (rev s))"

definition ascii_alnum :: "char \<Rightarrow> bool" where
  "ascii_alnum c \<longleftrightarrow> (let n = (of_char c :: nat) in
     (48 \<le> n \<and> n \<le> 57) \<or> (65 \<le> n \<and> n \<le> 90) \<or> (97 \<le> n \<and> n \<le> 122))"

text \<open>
  The map over the host's characters; a character of several bytes becomes one dash, so the
  continuation bytes of its encoding are dropped.
\<close>

definition slug_for :: "string \<Rightarrow> string" where
  "slug_for url =
     (let without_scheme =
            (case find (\<lambda>n. prefix ''://'' (drop n url)) [0..<Suc (length url)] of
               None \<Rightarrow> url | Some n \<Rightarrow> drop (n + 3) url);
          host = hd (split_on (CHR ''/'') without_scheme)
      in map (\<lambda>c. if ascii_alnum c \<or> c = CHR ''.'' \<or> c = CHR ''-'' then c else CHR ''-'')
           (filter (\<lambda>c. \<not> is_cont (of_char c)) host))"

subsection \<open>Narinfo\<close>

datatype fetch_error =
    HttpFailure
  | Malformed string
  | UnsupportedNarCompression string
  | NarHashMismatch
  | UploadFailure

record parsed_narinfo =
  pn_store_path :: string
  pn_url :: string
  pn_compression :: string
  pn_nar_hash :: bytes
  pn_nar_size :: u64
  pn_references :: "string list"
  pn_deriver :: "string option"
  pn_sigs :: "string list"

record narinfo_acc =
  na_store_path :: "string option"
  na_url :: "string option"
  na_compression :: string
  na_nar_hash :: "bytes option"
  na_nar_size :: "u64 option"
  na_references :: "string list"
  na_deriver :: "string option"
  na_sigs :: "string list"

definition narinfo_start :: narinfo_acc where
  "narinfo_start = \<lparr>na_store_path = None, na_url = None, na_compression = ''none'', na_nar_hash = None,
     na_nar_size = None, na_references = [], na_deriver = None, na_sigs = []\<rparr>"

definition narinfo_line :: "narinfo_acc \<Rightarrow> string \<Rightarrow> narinfo_acc" where
  "narinfo_line acc line =
     (case split_once (CHR '':'') line of
        None \<Rightarrow> acc
      | Some (key, value) \<Rightarrow>
          (let value = trim value in
           if key = ''StorePath'' then acc\<lparr>na_store_path := Some value\<rparr>
           else if key = ''URL'' then acc\<lparr>na_url := Some value\<rparr>
           else if key = ''Compression'' then acc\<lparr>na_compression := value\<rparr>
           else if key = ''NarHash'' then
             acc\<lparr>na_nar_hash := Option.bind (strip_prefix ''sha256:'' value) (\<lambda>h. decode h 32)\<rparr>
           else if key = ''NarSize'' then acc\<lparr>na_nar_size := parse_u64 value\<rparr>
           else if key = ''References'' \<and> value \<noteq> [] then acc\<lparr>na_references := split_whitespace value\<rparr>
           else if key = ''Deriver'' then acc\<lparr>na_deriver := Some value\<rparr>
           else if key = ''Sig'' then acc\<lparr>na_sigs := na_sigs acc @ [value]\<rparr>
           else acc))"

definition parse_narinfo :: "string \<Rightarrow> (fetch_error, parsed_narinfo) res" where
  "parse_narinfo text =
     (let acc = foldl narinfo_line narinfo_start (str_lines text) in
      bind_res (ok_or (Malformed ''missing StorePath'') (na_store_path acc)) (\<lambda>store_path.
      bind_res (ok_or (Malformed ''missing URL'') (na_url acc)) (\<lambda>url.
      bind_res (ok_or (Malformed ''missing or malformed NarHash'') (na_nar_hash acc)) (\<lambda>nar_hash.
      bind_res (ok_or (Malformed ''missing NarSize'') (na_nar_size acc)) (\<lambda>nar_size.
      Ok \<lparr>pn_store_path = store_path, pn_url = url, pn_compression = na_compression acc, pn_nar_hash = nar_hash,
          pn_nar_size = nar_size, pn_references = na_references acc, pn_deriver = na_deriver acc,
          pn_sigs = na_sigs acc\<rparr>)))))"

definition object_key_basename :: "string \<Rightarrow> string" where
  "object_key_basename key = last (split_on (CHR ''/'') key)"

definition info_line :: "string \<Rightarrow> string \<Rightarrow> string" where
  "info_line key value = key @ '': '' @ value @ [newline]"

definition render_narinfo :: "path_info \<Rightarrow> object_key \<Rightarrow> u64 \<Rightarrow> bytes \<Rightarrow> compression \<Rightarrow> string \<Rightarrow> string" where
  "render_narinfo info key file_size file_hash c store_dir =
     info_line ''StorePath'' (to_full store_dir (pi_path info)) @
     info_line ''URL'' (''nar/'' @ object_key_basename (key_str key)) @
     info_line ''Compression'' (compression_as_str c) @
     info_line ''FileHash'' (''sha256:'' @ encode file_hash) @
     info_line ''FileSize'' (show_nat (unat file_size)) @
     info_line ''NarHash'' (''sha256:'' @ encode (h_bytes (pi_nar_hash info))) @
     info_line ''NarSize'' (show_nat (unat (pi_nar_size info))) @
     info_line ''References'' (join_with '' '' (map sp_str (pi_references info))) @
     (case pi_deriver info of None \<Rightarrow> [] | Some d \<Rightarrow> info_line ''Deriver'' (sp_str d)) @
     concat (map (info_line ''Sig'') (pi_sigs info))"


subsection \<open>Round trip\<close>

text \<open>Printable characters other than the space: what store paths, keys and signatures are made of.\<close>

definition graphic :: "char \<Rightarrow> bool" where
  "graphic c \<longleftrightarrow> 33 \<le> (of_char c :: nat) \<and> (of_char c :: nat) \<le> 126"

lemma ws_char_bytes: "w \<in> set ws_chars \<Longrightarrow> c \<in> set w \<Longrightarrow> \<not> graphic c"
  by (auto simp: ws_chars_def graphic_def)

lemma ws_chars_not_Nil: "w \<in> set ws_chars \<Longrightarrow> w \<noteq> []"
  by (auto simp: ws_chars_def)

lemma ws_prefix_graphic: "s = [] \<or> graphic (hd s) \<Longrightarrow> ws_prefix s = None"
  unfolding ws_prefix_def find_None_iff
  by (auto simp: prefix_def dest: ws_chars_not_Nil ws_char_bytes)
     (metis append_Cons hd_append2 list.set_sel(1) ws_char_bytes ws_chars_not_Nil)

lemma ws_suffix_graphic: "s = [] \<or> graphic (last s) \<Longrightarrow> ws_suffix s = None"
  unfolding ws_suffix_def find_None_iff
  by (auto simp: suffix_def dest: ws_chars_not_Nil ws_char_bytes)
     (metis last_appendR last_in_set ws_char_bytes ws_chars_not_Nil)

lemma ws_chars_space: "list_all (\<lambda>w. hd w = CHR '' '' \<longrightarrow> w = '' '') ws_chars" "'' '' \<in> set ws_chars"
  by code_simp+

lemma ws_prefix_space: "ws_prefix (CHR '' '' # s) = Some '' ''"
proof (cases "ws_prefix (CHR '' '' # s)")
  case None
  then have "\<not> prefix '' '' (CHR '' '' # s)"
    using ws_chars_space(2) unfolding ws_prefix_def find_None_iff by auto
  then show ?thesis by simp
next
  case (Some w)
  then have w: "w \<in> set ws_chars" "prefix w (CHR '' '' # s)" by (auto simp: ws_prefix_def dest: find_Some_mem)
  then have "w \<noteq> []" by (simp add: ws_chars_not_Nil)
  then have "hd w = CHR '' ''" using w(2) by (auto simp: prefix_def Cons_eq_append_conv)
  then show ?thesis using Some w(1) ws_chars_space(1) by (auto simp: list_all_iff)
qed

definition tidy :: "string \<Rightarrow> bool" where
  "tidy s \<longleftrightarrow> (s = [] \<or> graphic (hd s) \<and> graphic (last s)) \<and> newline \<notin> set s"

lemma trim_space: "tidy s \<Longrightarrow> trim (CHR '' '' # s) = s"
proof -
  assume t: "tidy s"
  then have "trim_start s = s" by (subst trim_start.simps) (auto simp: tidy_def ws_prefix_graphic)
  moreover have "trim_end s = s" using t by (subst trim_end.simps) (auto simp: tidy_def ws_suffix_graphic)
  ultimately show ?thesis by (simp add: trim_def trim_start.simps [of "CHR '' '' # s"] ws_prefix_space)
qed

lemma graphic_tidy: "list_all graphic s \<Longrightarrow> tidy s"
  by (cases s) (auto simp: tidy_def list_all_iff graphic_def newline_def)

lemma split_ws_graphic: "list_all graphic s \<Longrightarrow> split_ws acc (s @ rest) = split_ws (acc @ s) rest"
proof (induction s arbitrary: acc)
  case (Cons c s)
  then show ?case by (subst split_ws.simps) (simp add: ws_prefix_graphic)
qed simp

lemma split_whitespace_join:
  assumes "\<forall>r \<in> set refs. r \<noteq> [] \<and> list_all graphic r"
  shows "split_whitespace (join_with '' '' refs) = refs"
proof -
  have "split_ws [] (join_with '' '' refs) = refs" using assms
  proof (induction refs)
    case (Cons r refs)
    have nil: "split_ws r [] = [r]" if "r \<noteq> []" for r using that by (subst split_ws.simps) simp
    have sp: "split_ws r (CHR '' '' # t) = r # split_ws [] t" if "r \<noteq> []" for r t
      using that by (subst split_ws.simps) (simp add: ws_prefix_space)
    show ?case
      using Cons split_ws_graphic [of r "[]"] nil [of r] sp [of r]
      by (cases refs) (auto, metis append.right_neutral split_ws_graphic append_Nil)
  qed (simp add: split_ws.simps)
  then show ?thesis by (simp add: split_whitespace_def)
qed

lemma split_on_line: "newline \<notin> set l \<Longrightarrow> split_on newline (l @ newline # rest) = l # split_on newline rest"
  by (rule split_on_append_sep)

lemma str_lines_concat:
  assumes "\<forall>l \<in> set ls. newline \<notin> set l \<and> strip_suffix [char_of (13 :: nat)] l = None"
  shows "str_lines (concat (map (\<lambda>l. l @ [newline]) ls)) = ls"
proof -
  have "split_on newline (concat (map (\<lambda>l. l @ [newline]) ls)) = ls @ [[]]"
    using assms by (induction ls) (simp_all add: split_on_line)
  moreover have "map strip_cr ls = ls" using assms by (induction ls) (auto simp: strip_cr_def)
  ultimately show ?thesis by (simp add: str_lines_def)
qed

text \<open>The lines of a rendered narinfo as key and value.\<close>

definition narinfo_fields :: "path_info \<Rightarrow> object_key \<Rightarrow> u64 \<Rightarrow> bytes \<Rightarrow> compression \<Rightarrow> string \<Rightarrow> (string \<times> string) list" where
  "narinfo_fields info key file_size file_hash c store_dir =
     [(''StorePath'', to_full store_dir (pi_path info)), (''URL'', ''nar/'' @ object_key_basename (key_str key)),
      (''Compression'', compression_as_str c), (''FileHash'', ''sha256:'' @ encode file_hash),
      (''FileSize'', show_nat (unat file_size)), (''NarHash'', ''sha256:'' @ encode (h_bytes (pi_nar_hash info))),
      (''NarSize'', show_nat (unat (pi_nar_size info))),
      (''References'', join_with '' '' (map sp_str (pi_references info)))] @
     (case pi_deriver info of None \<Rightarrow> [] | Some d \<Rightarrow> [(''Deriver'', sp_str d)]) @
     map (Pair ''Sig'') (pi_sigs info)"

lemma render_narinfo_fields:
  "render_narinfo info key n fh c dir =
     concat (map (\<lambda>l. l @ [newline]) (map (\<lambda>(k, v). k @ '': '' @ v) (narinfo_fields info key n fh c dir)))"
  by (simp add: render_narinfo_def narinfo_fields_def info_line_def [abs_def] comp_def split: option.splits)

definition wf_narinfo :: "path_info \<Rightarrow> object_key \<Rightarrow> string \<Rightarrow> bool" where
  "wf_narinfo info key dir \<longleftrightarrow>
     list_all graphic (to_full dir (pi_path info)) \<and> list_all graphic (key_str key) \<and> length (h_bytes (pi_nar_hash info)) = 32 \<and>
     list_all (\<lambda>r. sp_str r \<noteq> [] \<and> list_all graphic (sp_str r)) (pi_references info) \<and>
     (case pi_deriver info of None \<Rightarrow> True | Some d \<Rightarrow> list_all graphic (sp_str d)) \<and>
     list_all (list_all graphic) (pi_sigs info)"

lemma encode_graphic: "list_all graphic (encode bs)"
proof -
  have "list_all graphic BASE32_CHARS" by code_simp
  then show ?thesis using encode_alphabet by (auto simp: list_all_iff)
qed

lemma show_nat_graphic: "list_all graphic (show_nat n)"
  using show_nat_digits [of n] by (auto simp: list_all_iff is_dec_digit_def graphic_def)

lemma basename_graphic: "list_all graphic k \<Longrightarrow> list_all graphic (object_key_basename k)"
  using last_split_on_eq [of "CHR ''/''" k] by (auto simp: object_key_basename_def list_all_iff dest: set_takeWhileD)

lemma compression_graphic: "list_all graphic (compression_as_str c)"
  by (cases c) (simp_all add: graphic_def)

lemma newline_colon: "newline \<noteq> CHR '':''"
  by code_simp

lemma newline_code: "newline \<noteq> CHR '' ''" "\<not> graphic newline"
  by code_simp+

lemma join_tidy:
  assumes "\<forall>r \<in> set refs. r \<noteq> [] \<and> list_all graphic r"
  shows "tidy (join_with '' '' refs)"
proof -
  have ends: "join_with '' '' refs \<noteq> [] \<and> graphic (hd (join_with '' '' refs)) \<and> graphic (last (join_with '' '' refs))"
    if "refs \<noteq> []" using that assms
  proof (induction refs rule: list_nonempty_induct)
    case (single r)
    then show ?case by (auto simp: list_all_iff)
  next
    case (cons r refs)
    then show ?case by (cases refs) (auto simp: list_all_iff)
  qed
  have "newline \<notin> set (join_with '' '' refs)" using assms
    by (induction refs rule: join_with.induct [where P = "\<lambda>_ refs. _ refs"])
       (auto simp: list_all_iff newline_code)
  then show ?thesis using ends by (cases "refs = []") (auto simp: tidy_def)
qed

lemma fields_tidy:
  assumes "wf_narinfo info key dir" and "(k, v) \<in> set (narinfo_fields info key n fh c dir)"
  shows "tidy v \<and> newline \<notin> set k \<and> CHR '':'' \<notin> set k"
proof -
  have "tidy (join_with '' '' (map sp_str (pi_references info)))"
    using assms(1) by (intro join_tidy) (auto simp: wf_narinfo_def list_all_iff)
  moreover have "tidy (''nar/'' @ object_key_basename (key_str key))"
    using assms(1) by (intro graphic_tidy) (simp add: wf_narinfo_def basename_graphic graphic_def)
  moreover have "tidy (''sha256:'' @ encode x)" for x
    by (intro graphic_tidy) (simp add: encode_graphic graphic_def)
  moreover have "tidy (to_full dir (pi_path info))" "\<And>d. pi_deriver info = Some d \<Longrightarrow> tidy (sp_str d)"
    "\<And>x. x \<in> set (pi_sigs info) \<Longrightarrow> tidy x" "tidy (compression_as_str c)" "\<And>n. tidy (show_nat n)"
    using assms(1) by (auto simp: wf_narinfo_def list_all_iff [where P = "list_all graphic"] compression_graphic show_nat_graphic
        intro: graphic_tidy)
  moreover have "newline \<notin> set k \<and> CHR '':'' \<notin> set k"
  proof -
    have "k \<in> set [''StorePath'', ''URL'', ''Compression'', ''FileHash'', ''FileSize'', ''NarHash'', ''NarSize'', ''References'', ''Deriver'', ''Sig'']"
      using assms(2) by (auto simp: narinfo_fields_def split: option.splits)
    moreover have "list_all (\<lambda>k. newline \<notin> set k \<and> CHR '':'' \<notin> set k)
      [''StorePath'', ''URL'', ''Compression'', ''FileHash'', ''FileSize'', ''NarHash'', ''NarSize'', ''References'', ''Deriver'', ''Sig'']"
      by code_simp
    ultimately show ?thesis by (simp only: list_all_iff) blast
  qed
  ultimately show ?thesis using assms(2) by (auto simp: narinfo_fields_def split: option.splits)
qed

text \<open>What the parser does with one tidy line.\<close>

definition set_field :: "narinfo_acc \<Rightarrow> string \<times> string \<Rightarrow> narinfo_acc" where
  "set_field acc kv =
     (let (key, value) = kv in
      if key = ''StorePath'' then acc\<lparr>na_store_path := Some value\<rparr>
      else if key = ''URL'' then acc\<lparr>na_url := Some value\<rparr>
      else if key = ''Compression'' then acc\<lparr>na_compression := value\<rparr>
      else if key = ''NarHash'' then acc\<lparr>na_nar_hash := Option.bind (strip_prefix ''sha256:'' value) (\<lambda>h. decode h 32)\<rparr>
      else if key = ''NarSize'' then acc\<lparr>na_nar_size := parse_u64 value\<rparr>
      else if key = ''References'' \<and> value \<noteq> [] then acc\<lparr>na_references := split_whitespace value\<rparr>
      else if key = ''Deriver'' then acc\<lparr>na_deriver := Some value\<rparr>
      else if key = ''Sig'' then acc\<lparr>na_sigs := na_sigs acc @ [value]\<rparr>
      else acc)"

lemma narinfo_line_tidy:
  assumes "tidy v" and "CHR '':'' \<notin> set k"
  shows "narinfo_line acc (k @ '': '' @ v) = set_field acc (k, v)"
proof -
  have "split_once (CHR '':'') (k @ '': '' @ v) = Some (k, CHR '' '' # v)"
    using assms(2) by (simp add: split_once_Some_iff)
  then show ?thesis using assms(1) by (simp add: narinfo_line_def set_field_def trim_space)
qed

lemma foldl_fields:
  assumes "\<And>k v. (k, v) \<in> set kvs \<Longrightarrow> tidy v \<and> CHR '':'' \<notin> set k"
  shows "foldl narinfo_line acc (map (\<lambda>(k, v). k @ '': '' @ v) kvs) = foldl set_field acc kvs"
  using assms
proof (induction kvs arbitrary: acc)
  case (Cons kv kvs)
  obtain k v where kv: "kv = (k, v)" by (cases kv)
  have "narinfo_line acc (k @ '': '' @ v) = set_field acc (k, v)" using Cons.prems [of k v] by (simp add: kv narinfo_line_tidy del: append.simps)
  moreover have "foldl narinfo_line (set_field acc kv) (map (\<lambda>(k, v). k @ '': '' @ v) kvs) = foldl set_field (set_field acc kv) kvs"
    by (rule Cons.IH) (rule Cons.prems, simp)
  ultimately show ?case by (simp add: kv)
qed simp

lemma line_no_cr:
  assumes "tidy v"
  shows "strip_suffix [char_of (13 :: nat)] (k @ '': '' @ v) = None"
proof -
  have "\<not> graphic (char_of (13 :: nat))" "CHR '' '' \<noteq> char_of (13 :: nat)" by (simp add: graphic_def) code_simp
  then have "last (k @ '': '' @ v) \<noteq> char_of (13 :: nat)" using assms by (auto simp: tidy_def)
  then show ?thesis by (metis last_snoc not_Some_eq strip_suffix_iff)
qed

lemma foldl_sigs: "foldl set_field acc (map (Pair ''Sig'') sigs) = acc\<lparr>na_sigs := na_sigs acc @ sigs\<rparr>"
  by (induction sigs arbitrary: acc) (simp_all add: set_field_def)

lemma parse_render:
  assumes "wf_narinfo info key dir"
  shows "parse_narinfo (render_narinfo info key n fh c dir) =
    Ok \<lparr>pn_store_path = to_full dir (pi_path info), pn_url = ''nar/'' @ object_key_basename (key_str key),
        pn_compression = compression_as_str c, pn_nar_hash = h_bytes (pi_nar_hash info), pn_nar_size = pi_nar_size info,
        pn_references = map sp_str (pi_references info), pn_deriver = map_option sp_str (pi_deriver info),
        pn_sigs = pi_sigs info\<rparr>"
proof -
  let ?fs = "narinfo_fields info key n fh c dir"
  have tidy: "tidy v \<and> newline \<notin> set k \<and> CHR '':'' \<notin> set k" if "(k, v) \<in> set ?fs" for k v
    using fields_tidy [OF assms that] .
  have lines: "str_lines (render_narinfo info key n fh c dir) = map (\<lambda>(k, v). k @ '': '' @ v) ?fs"
    unfolding render_narinfo_fields
  proof (rule str_lines_concat, rule ballI)
    fix l assume "l \<in> set (map (\<lambda>(k, v). k @ '': '' @ v) ?fs)"
    then obtain k v where l: "l = k @ '': '' @ v" "(k, v) \<in> set ?fs" by auto
    show "newline \<notin> set l \<and> strip_suffix [char_of (13 :: nat)] l = None"
      using tidy [OF l(2)] line_no_cr [of v k] newline_code by (auto simp: l(1) tidy_def newline_colon)
  qed
  have acc: "foldl narinfo_line narinfo_start (str_lines (render_narinfo info key n fh c dir)) = foldl set_field narinfo_start ?fs"
    unfolding lines by (rule foldl_fields) (use tidy in blast)
  have hash: "decode (encode (h_bytes (pi_nar_hash info))) 32 = Some (h_bytes (pi_nar_hash info))"
    using decode_encode [of "h_bytes (pi_nar_hash info)"] assms by (simp add: wf_narinfo_def)
  have refs: "split_whitespace (join_with '' '' (map sp_str (pi_references info))) = map sp_str (pi_references info)"
    using assms by (intro split_whitespace_join) (auto simp: wf_narinfo_def list_all_iff)
  have "foldl set_field narinfo_start ?fs =
      \<lparr>na_store_path = Some (to_full dir (pi_path info)), na_url = Some (''nar/'' @ object_key_basename (key_str key)),
       na_compression = compression_as_str c, na_nar_hash = Some (h_bytes (pi_nar_hash info)),
       na_nar_size = Some (pi_nar_size info), na_references = map sp_str (pi_references info),
       na_deriver = map_option sp_str (pi_deriver info), na_sigs = pi_sigs info\<rparr>"
  proof -
    have empty: "map sp_str (pi_references info) = []" if "join_with '' '' (map sp_str (pi_references info)) = []"
      using refs that by (simp add: split_whitespace_def split_ws.simps)
    show ?thesis
      using empty by (cases "pi_deriver info")
        (auto simp: narinfo_fields_def foldl_sigs set_field_def narinfo_start_def hash refs)
  qed
  then show ?thesis by (simp add: parse_narinfo_def acc Let_def)
qed

text \<open>
  C30: What the binary cache serves is read back unchanged by the substituter client: parsing a
  rendered narinfo gives the full path, the relative URL of the object, its compression, the NAR
  hash and size, the references, the deriver and every signature in order. It holds for every
  path whose text fields consist of printable characters without spaces and whose NAR hash has 32 bytes.
\<close>

theorem narinfo_roundtrip:
  assumes "wf_narinfo info key dir"
  shows "parse_narinfo (render_narinfo info key n fh c dir) =
    Ok \<lparr>pn_store_path = to_full dir (pi_path info), pn_url = ''nar/'' @ object_key_basename (key_str key),
        pn_compression = compression_as_str c, pn_nar_hash = h_bytes (pi_nar_hash info), pn_nar_size = pi_nar_size info,
        pn_references = map sp_str (pi_references info), pn_deriver = map_option sp_str (pi_deriver info),
        pn_sigs = pi_sigs info\<rparr>"
  using assms by (rule parse_render)

definition ex_info :: path_info where
  "ex_info = \<lparr>pi_path = StorePath ''00000000000000000000000000000000-hello'', pi_deriver = None,
     pi_nar_hash = \<lparr>h_type = Sha256, h_bytes = replicate 32 7\<rparr>, pi_nar_size = 120,
     pi_references = [StorePath ''a-glibc'', StorePath ''b-bash''], pi_registration_time = 0, pi_ultimate = True,
     pi_sigs = [''kubernix-t-1:c2ln'']\<rparr>"

lemma ex_info_wf: "wf_narinfo ex_info (ObjectKey ''t/nar/0.nar.zst'') ''/nix/store''"
  by (simp add: wf_narinfo_def ex_info_def to_full_def graphic_def)

lemma narinfo_roundtrip_witness:
  "parse_narinfo (render_narinfo ex_info (ObjectKey ''t/nar/0.nar.zst'') 80 (replicate 32 1) Zstd ''/nix/store'') =
     Ok \<lparr>pn_store_path = ''/nix/store/00000000000000000000000000000000-hello'', pn_url = ''nar/0.nar.zst'',
         pn_compression = ''zstd'', pn_nar_hash = replicate 32 7, pn_nar_size = 120,
         pn_references = [''a-glibc'', ''b-bash''], pn_deriver = None, pn_sigs = [''kubernix-t-1:c2ln'']\<rparr>"
  using narinfo_roundtrip [OF ex_info_wf, of 80 "replicate 32 1" Zstd]
  by (simp add: ex_info_def to_full_def object_key_basename_def)

end
