(* ===== verification/Substitute.thy ===== *)
theory Substitute
  imports Uploads ContentAddress Narinfo
begin

text \<open>
  The pull-through cache (\<open>crates/server/src/substitute.rs\<close>): the existence
  check and the fetch that relays an archive
  from the upstream cache into the object store while it checks the claimed hash. The HTTP
  client, the decompressors and the object store are parameters: what a \<open>HEAD\<close> or
  \<open>GET\<close> of a URL gives, how far a decoder accepts its input and what it yields at
  the end, and for which keys the object store takes a \<open>PUT\<close>. A \<open>PUT\<close>
  of a streamed body with a declared length is carried out exactly when that many bytes arrive.
  The bytes themselves are the state \<open>objects\<close>.
\<close>

type_synonym objects = "object_key \<rightharpoonup> bytes"

record http_response =
  hr_status :: nat
  hr_text :: "string option"
  hr_content_length :: "u64 option"
  hr_chunks :: "bytes option list"

record web =
  web_head :: "string \<Rightarrow> nat option"
  web_get :: "string \<Rightarrow> http_response option"
  dec_accepts :: "compression \<Rightarrow> bytes \<Rightarrow> bool"
  dec_finish :: "compression \<Rightarrow> bytes \<Rightarrow> bytes option"
  web_put :: "object_key \<Rightarrow> bool"

definition is_success :: "nat \<Rightarrow> bool" where
  "is_success status \<longleftrightarrow> 200 \<le> status \<and> status < 300"

definition is_error_status :: "nat \<Rightarrow> bool" where
  "is_error_status status \<longleftrightarrow> 400 \<le> status \<and> status < 600"

subsection \<open>Fetching one path\<close>

definition put_object_stream :: "web \<Rightarrow> object_key \<Rightarrow> bytes list \<Rightarrow> u64 \<Rightarrow> objects \<Rightarrow> bool \<times> objects" where
  "put_object_stream w key body len objs =
     (if web_put w key \<and> length (concat body) = unat len then (True, objs(key \<mapsto> concat body)) else (False, objs))"

text \<open>
  The download loop: what has been fed to the decoder so far, the chunk held back, and the
  chunks already forwarded to the upload. It ends with an error, or with all input consumed.
\<close>

fun relay :: "web \<Rightarrow> compression \<Rightarrow> bytes \<Rightarrow> bytes option \<Rightarrow> bytes list \<Rightarrow> bytes option list \<Rightarrow>
  (fetch_error, bytes \<times> bytes option) res \<times> bytes list" where
  "relay w c seen pending fwd [] = (Ok (seen, pending), fwd)"
| "relay w c seen pending fwd (None # rest) = (Err HttpFailure, fwd)"
| "relay w c seen pending fwd (Some chunk # rest) =
     (if \<not> dec_accepts w c (seen @ chunk) then (Err (Malformed ''nar body did not decode''), fwd)
      else relay w c (seen @ chunk) (Some chunk) (fwd @ (case pending of None \<Rightarrow> [] | Some p \<Rightarrow> [p])) rest)"

definition verify_and_forward ::
  "web \<Rightarrow> (bytes \<Rightarrow> bytes) \<Rightarrow> compression \<Rightarrow> bytes \<Rightarrow> bytes option list \<Rightarrow> (fetch_error, bytes) res \<times> bytes list" where
  "verify_and_forward w sha c nar_hash chunks =
     (case relay w c [] None [] chunks of
        (Ok (seen, pending), fwd) \<Rightarrow>
          (case dec_finish w c seen of
             None \<Rightarrow> (Err (Malformed ''nar body did not decode''), fwd)
           | Some nar \<Rightarrow>
               if sha nar \<noteq> nar_hash then (Err NarHashMismatch, fwd)
               else (Ok (sha seen), fwd @ (case pending of None \<Rightarrow> [] | Some p \<Rightarrow> [p])))
      | (Err e, fwd) \<Rightarrow> (Err e, fwd)
      | (Panic, fwd) \<Rightarrow> (Panic, fwd))"

definition get_ok :: "web \<Rightarrow> string \<Rightarrow> (fetch_error, http_response) res" where
  "get_ok w url =
     (case web_get w url of
        None \<Rightarrow> Err HttpFailure
      | Some resp \<Rightarrow> if is_error_status (hr_status resp) then Err HttpFailure else Ok resp)"

text \<open>Where the archive is and what it is stored as: everything \<open>fetch_one\<close> settles before the transfer.\<close>

definition plan_fetch ::
  "web \<Rightarrow> string \<Rightarrow> string \<Rightarrow> http_response \<Rightarrow>
   (fetch_error, parsed_narinfo \<times> store_path \<times> compression \<times> http_response \<times> u64 \<times> object_key) res" where
  "plan_fetch w url store_dir resp =
     bind_res (if is_error_status (hr_status resp) then Err HttpFailure else Ok resp) (\<lambda>resp.
     bind_res (ok_or HttpFailure (hr_text resp)) (\<lambda>text.
     bind_res (parse_narinfo text) (\<lambda>narinfo.
     bind_res (ok_or (Malformed ''StorePath'') (from_full store_dir (pn_store_path narinfo))) (\<lambda>path.
     bind_res (map_err (\<lambda>_. UnsupportedNarCompression (pn_compression narinfo)) (compression_from_str (pn_compression narinfo))) (\<lambda>c.
     bind_res (get_ok w (if contains_sub ''://'' (pn_url narinfo) then pn_url narinfo
                         else trim_end_slashes url @ ''/'' @ pn_url narinfo)) (\<lambda>body.
     bind_res (ok_or (Malformed ''missing Content-Length'') (hr_content_length body)) (\<lambda>len.
     bind_res (ok_or (Malformed ''path'') (substituted_nar_key (slug_for url) path)) (\<lambda>key.
     if c = Lzip then Err (UnsupportedNarCompression ''lzip'')
     else Ok (narinfo, path, c, body, len, key)))))))))"

definition fetch_one ::
  "web \<Rightarrow> (bytes \<Rightarrow> bytes) \<Rightarrow> string \<Rightarrow> string \<Rightarrow> string \<Rightarrow> objects \<Rightarrow>
   (fetch_error, (path_info \<times> remote_object) option) res \<times> objects" where
  "fetch_one w sha url hp store_dir objs =
     (case web_get w (trim_end_slashes url @ ''/'' @ hp @ ''.narinfo'') of
        None \<Rightarrow> (Err HttpFailure, objs)
      | Some resp \<Rightarrow>
          if hr_status resp = 404 then (Ok None, objs)
          else
            (case plan_fetch w url store_dir resp of
               Err e \<Rightarrow> (Err e, objs)
             | Panic \<Rightarrow> (Panic, objs)
             | Ok (narinfo, path, c, body, len, key) \<Rightarrow>
                 (let (verified, fwd) = verify_and_forward w sha c (pn_nar_hash narinfo) (hr_chunks body);
                      (uploaded, objs) = put_object_stream w key fwd len objs
                  in (bind_res verified (\<lambda>file_hash.
                      if \<not> uploaded then Err UploadFailure
                      else Ok (Some
                        (\<lparr>pi_path = path, pi_deriver = map_option StorePath (pn_deriver narinfo),
                          pi_nar_hash = \<lparr>h_type = Sha256, h_bytes = pn_nar_hash narinfo\<rparr>,
                          pi_nar_size = pn_nar_size narinfo, pi_references = map StorePath (pn_references narinfo),
                          pi_registration_time = 0, pi_ultimate = False, pi_sigs = pn_sigs narinfo\<rparr>,
                         \<lparr>ro_key = key, ro_file_size = len, ro_file_hash = file_hash, ro_compression = c\<rparr>))), objs))))"

definition resolve_from_one ::
  "'s store_ops \<Rightarrow> web \<Rightarrow> (bytes \<Rightarrow> bytes) \<Rightarrow> tenant_id \<Rightarrow> string \<Rightarrow> string \<Rightarrow> string \<Rightarrow> string \<Rightarrow> 's \<times> objects \<Rightarrow>
   (path_info \<times> remote_object) option \<times> 's \<times> objects" where
  "resolve_from_one ops w sha tenant hp store_dir url pk st =
     (let (s, objs) = st;
          shared = (case op_find_substituted_by_hash_part ops hp s of
              Some (info, object, found_url, found_key) \<Rightarrow>
                if found_url = url \<and> found_key = pk then
                  (case op_record_substituted_path ops tenant info object url pk s of
                     (Ok _, s') \<Rightarrow> (Some (info, object), s')
                   | (_, s') \<Rightarrow> (None, s'))
                else (None, s)
            | None \<Rightarrow> (None, s))
      in case shared of
           (Some hit, s) \<Rightarrow> (Some hit, s, objs)
         | (None, s) \<Rightarrow>
             (case fetch_one w sha url hp store_dir objs of
                (Ok (Some (info, object)), objs) \<Rightarrow>
                  (case op_record_substituted_path ops tenant info object url pk s of
                     (Ok _, s) \<Rightarrow> (Some (info, object), s, objs)
                   | (_, s) \<Rightarrow> (None, s, objs))
              | (_, objs) \<Rightarrow> (None, s, objs)))"

fun resolve_loop ::
  "'s store_ops \<Rightarrow> web \<Rightarrow> (bytes \<Rightarrow> bytes) \<Rightarrow> tenant_id \<Rightarrow> string \<Rightarrow> string \<Rightarrow> (string \<times> string) list \<Rightarrow> 's \<times> objects \<Rightarrow>
   (path_info \<times> remote_object) option \<times> 's \<times> objects" where
  "resolve_loop ops w sha tenant hp store_dir [] st = (None, st)"
| "resolve_loop ops w sha tenant hp store_dir ((url, pk) # rest) st =
     (case resolve_from_one ops w sha tenant hp store_dir url pk st of
        (Some hit, st) \<Rightarrow> (Some hit, st)
      | (None, st) \<Rightarrow> resolve_loop ops w sha tenant hp store_dir rest st)"

definition resolve ::
  "'s store_ops \<Rightarrow> web \<Rightarrow> (bytes \<Rightarrow> bytes) \<Rightarrow> tenant_id \<Rightarrow> string \<Rightarrow> string \<Rightarrow> 's \<times> objects \<Rightarrow>
   (path_info \<times> remote_object) option \<times> 's \<times> objects" where
  "resolve ops w sha tenant hp store_dir st =
     (if op_substituter_negative_cache_hit ops tenant hp (fst st) then (None, st)
      else case resolve_loop ops w sha tenant hp store_dir (op_trusted_substituters ops tenant (fst st)) st of
             (Some hit, st) \<Rightarrow> (Some hit, st)
           | (None, s, objs) \<Rightarrow> (None, op_mark_substituter_miss ops tenant hp s, objs))"

definition head_ok :: "web \<Rightarrow> string \<Rightarrow> string \<times> string \<Rightarrow> bool" where
  "head_ok w hp sub =
     (case web_head w (trim_end_slashes (fst sub) @ ''/'' @ hp @ ''.narinfo'') of
        None \<Rightarrow> False | Some status \<Rightarrow> is_success status)"

definition sub_exists :: "'s store_ops \<Rightarrow> web \<Rightarrow> tenant_id \<Rightarrow> string \<Rightarrow> 's \<Rightarrow> bool \<times> 's" where
  "sub_exists ops w tenant hp s =
     (if op_substituter_negative_cache_hit ops tenant hp s then (False, s)
      else if (case op_find_substituted_by_hash_part ops hp s of
                 Some (_, _, url, key) \<Rightarrow> (url, key) \<in> set (op_trusted_substituters ops tenant s)
               | None \<Rightarrow> False) then (True, s)
      else
        (let substituters = op_trusted_substituters ops tenant s in
         if substituters = [] then (False, s)
         else if list_ex (head_ok w hp) substituters then (True, s)
         else (False, op_mark_substituter_miss ops tenant hp s)))"

subsection \<open>What a fetch guarantees\<close>

lemma relay_Ok:
  assumes "relay w c seen pending fwd chunks = (Ok (seen', pending'), fwd')"
    and "seen = concat fwd @ (case pending of None \<Rightarrow> [] | Some p \<Rightarrow> p)"
  shows "seen' = concat fwd' @ (case pending' of None \<Rightarrow> [] | Some p \<Rightarrow> p) \<and>
    seen' = seen @ concat (List.map_filter id chunks)"
  using assms
  by (induction w c seen pending fwd chunks rule: relay.induct)
     (auto split: if_splits option.splits simp: map_filter_simps)

lemma verify_and_forward_Ok:
  assumes "verify_and_forward w sha c nar_hash chunks = (Ok file_hash, fwd)"
  shows "file_hash = sha (concat fwd) \<and> (\<exists>nar. dec_finish w c (concat fwd) = Some nar \<and> sha nar = nar_hash)"
  using assms relay_Ok [of w c "[]" None "[]" chunks]
  by (auto simp: verify_and_forward_def split: prod.splits res.splits option.splits if_splits)

lemma put_object_stream_Ok:
  "put_object_stream w key body len objs = (True, objs') \<Longrightarrow> objs' = objs(key \<mapsto> concat body) \<and> length (concat body) = unat len"
  by (auto simp: put_object_stream_def split: if_splits)

lemma plan_fetch_Ok:
  assumes "plan_fetch w url dir resp = Ok (narinfo, path, c, body, len, key)"
  shows "substituted_nar_key (slug_for url) path = Some key \<and> hr_content_length body = Some len \<and>
    from_full dir (pn_store_path narinfo) = Some path \<and> (\<exists>u. web_get w u = Some body) \<and> c \<noteq> Lzip"
  using assms by (auto simp: plan_fetch_def get_ok_def res_simps split: if_splits option.splits)

lemma fetch_one_Ok:
  assumes "fetch_one w sha url hp dir objs = (Ok (Some (info, object)), objs')"
  shows "\<exists>bs nar. objs' = objs(ro_key object \<mapsto> bs) \<and> length bs = unat (ro_file_size object) \<and>
    ro_file_hash object = sha bs \<and> dec_finish w (ro_compression object) bs = Some nar \<and>
    pi_nar_hash info = \<lparr>h_type = Sha256, h_bytes = sha nar\<rparr> \<and>
    substituted_nar_key (slug_for url) (pi_path info) = Some (ro_key object)"
proof -
  obtain resp where resp: "web_get w (trim_end_slashes url @ ''/'' @ hp @ ''.narinfo'') = Some resp" "hr_status resp \<noteq> 404"
    using assms by (auto simp: fetch_one_def split: option.splits if_splits)
  obtain narinfo path c body len key where plan: "plan_fetch w url dir resp = Ok (narinfo, path, c, body, len, key)"
    using assms resp by (auto simp: fetch_one_def split: res.splits)
  obtain verified fwd where v: "verify_and_forward w sha c (pn_nar_hash narinfo) (hr_chunks body) = (verified, fwd)" by fastforce
  obtain uploaded objs1 where u: "put_object_stream w key fwd len objs = (uploaded, objs1)" by fastforce
  obtain file_hash where ok: "verified = Ok file_hash" "uploaded" "objs1 = objs'"
      and info: "pi_path info = path" "pi_nar_hash info = \<lparr>h_type = Sha256, h_bytes = pn_nar_hash narinfo\<rparr>"
      and ob: "object = \<lparr>ro_key = key, ro_file_size = len, ro_file_hash = file_hash, ro_compression = c\<rparr>"
    using assms resp by (auto simp: fetch_one_def plan v u res_simps split: if_splits)
  note vf = verify_and_forward_Ok [OF v [unfolded ok(1)]]
  show ?thesis using vf u ok info ob plan_fetch_Ok [OF plan] put_object_stream_Ok [of w key fwd len objs objs']
    by auto
qed

text \<open>
  C28: A fetch that succeeds has stored exactly what it reports: the object's bytes are in the
  object store under the shared key of the substituter and the path, their length and SHA-256 are
  the recorded file size and file hash, they decompress to an archive whose SHA-256 is the
  recorded NAR hash, and no other object changed.
\<close>

theorem fetch_one_integrity:
  assumes "fetch_one w sha url hp dir objs = (Ok (Some (info, object)), objs')"
  shows "\<exists>bs nar. objs' = objs(ro_key object \<mapsto> bs) \<and> length bs = unat (ro_file_size object) \<and>
    ro_file_hash object = sha bs \<and> dec_finish w (ro_compression object) bs = Some nar \<and>
    pi_nar_hash info = \<lparr>h_type = Sha256, h_bytes = sha nar\<rparr> \<and>
    substituted_nar_key (slug_for url) (pi_path info) = Some (ro_key object)"
  using assms by (rule fetch_one_Ok)

text \<open>
  What the HTTP client promises of a response with a declared length: no empty chunk, and no
  more bytes than declared, exactly that many when the body ends without an error.
\<close>

definition framed :: "http_response \<Rightarrow> bool" where
  "framed resp \<longleftrightarrow> [] \<notin> set (List.map_filter id (hr_chunks resp)) \<and>
     (case hr_content_length resp of
        None \<Rightarrow> True
      | Some len \<Rightarrow> length (concat (List.map_filter id (hr_chunks resp))) \<le> unat len)"

abbreviation body_length :: "bytes option list \<Rightarrow> nat" where
  "body_length chunks \<equiv> length (concat (List.map_filter id chunks))"

lemma relay_short:
  assumes "relay w c seen pending fwd chunks = (res, fwd')"
    and "pending = None \<Longrightarrow> fwd = []" and "pending \<noteq> Some []" and "[] \<notin> set (List.map_filter id chunks)"
  shows "fwd' = [] \<or> length (concat fwd') <
    length (concat fwd) + (case pending of None \<Rightarrow> 0 | Some p \<Rightarrow> length p) + body_length chunks"
  using assms
proof (induction w c seen pending fwd chunks rule: relay.induct)
  case (3 w c seen pending fwd chunk rest)
  have pend: "fwd = [] \<or> (\<exists>p. pending = Some p \<and> p \<noteq> [])" using 3 by (cases pending) auto
  show ?case
  proof (cases "dec_accepts w c (seen @ chunk)")
    case True
    then show ?thesis using 3 by (auto simp: map_filter_simps split: option.splits)
  next
    case False
    then show ?thesis using "3.prems"(1) pend by (auto simp: map_filter_simps)
  qed
qed (auto simp: map_filter_simps split: option.splits)

lemma verify_and_forward_Err:
  assumes "verify_and_forward w sha c h chunks = (v, fwd)" and "\<not> (\<exists>x. v = Ok x)" and "[] \<notin> set (List.map_filter id chunks)"
  shows "fwd = [] \<or> length (concat fwd) < body_length chunks"
proof -
  obtain res fwd' where r: "relay w c [] None [] chunks = (res, fwd')" by fastforce
  then have "fwd = fwd'"
    using assms(1,2) by (auto simp: verify_and_forward_def split: res.splits option.splits if_splits)
  then show ?thesis using relay_short [OF r _ _ assms(3)] by simp
qed

text \<open>
  A fetch that fails, because the body does not decode, does not have the claimed hash, the
  connection breaks, or for any other reason, leaves the object store as it was, with one
  exception: when the declared length is zero the upload of the withheld, empty rest succeeds
  and an empty object is stored.
\<close>

theorem failed_fetch_stores_nothing:
  assumes "fetch_one w sha url hp dir objs = (Err e, objs')" and "\<forall>u resp. web_get w u = Some resp \<longrightarrow> framed resp"
  shows "objs' = objs \<or> (\<exists>key. objs' = objs(key \<mapsto> []))"
proof (cases "web_get w (trim_end_slashes url @ ''/'' @ hp @ ''.narinfo'')")
  case (Some resp)
  show ?thesis
  proof (cases "plan_fetch w url dir resp")
    case (Ok plan)
    obtain narinfo path c body len key where plan: "plan = (narinfo, path, c, body, len, key)" by (metis prod_cases6)
    note p = plan_fetch_Ok [OF Ok [unfolded plan]]
    obtain verified fwd where v: "verify_and_forward w sha c (pn_nar_hash narinfo) (hr_chunks body) = (verified, fwd)" by fastforce
    obtain uploaded objs1 where u: "put_object_stream w key fwd len objs = (uploaded, objs1)" by fastforce
    have res: "objs' = objs1 \<or> objs' = objs"
        and err: "objs' = objs1 \<Longrightarrow> bind_res verified (\<lambda>_. if \<not> uploaded then Err UploadFailure else Ok ()) \<noteq> Ok () \<or> objs' = objs"
      using assms(1) Some by (auto simp: fetch_one_def Ok plan v u res_simps split: if_splits)
    have "framed body" using p assms(2) by blast
    then have short: "fwd = [] \<or> length (concat fwd) < unat len" if "\<not> (\<exists>x. verified = Ok x)"
      using verify_and_forward_Err [OF v that] p by (auto simp: framed_def)
    show ?thesis
      using res err u short by (cases verified) (auto simp: put_object_stream_def split: if_splits)
  qed (use assms(1) Some in \<open>auto simp: fetch_one_def split: if_splits\<close>)
qed (use assms(1) in \<open>simp add: fetch_one_def\<close>)

text \<open>
  A toy upstream for the concrete cases: it serves the rendered narinfo of one path and one
  uncompressed body, in one chunk.
\<close>

definition ex_narinfo :: "path_info \<Rightarrow> http_response" where
  "ex_narinfo info = \<lparr>hr_status = 200, hr_text = Some (render_narinfo info (ObjectKey ''x.nar'') 0 [] CompNone ''/s''),
     hr_content_length = None, hr_chunks = []\<rparr>"

definition ex_body :: "bytes \<Rightarrow> http_response" where
  "ex_body body = \<lparr>hr_status = 200, hr_text = None, hr_content_length = Some (of_nat (length body)),
     hr_chunks = (if body = [] then [] else [Some body])\<rparr>"

definition ex_web :: "path_info \<Rightarrow> bytes \<Rightarrow> web" where
  "ex_web info body =
     \<lparr>web_head = (\<lambda>_. Some 200), web_get = (\<lambda>u. Some (if suffix ''.narinfo'' u then ex_narinfo info else ex_body body)),
      dec_accepts = (\<lambda>_ _. True), dec_finish = (\<lambda>_ bs. Some bs), web_put = (\<lambda>_. True)\<rparr>"

definition ex_upstream :: "bytes \<Rightarrow> path_info" where
  "ex_upstream nar = ex_info\<lparr>pi_nar_hash := \<lparr>h_type = Sha256, h_bytes = toy_sha nar\<rparr>\<rparr>"

definition ex_hash :: string where
  "ex_hash = ''00000000000000000000000000000000''"

definition ex_key :: object_key where
  "ex_key = ObjectKey (''substituted/h/nar/'' @ ex_hash @ ''.nar.zst'')"

lemma ex_slug: "slug_for ''https://h/a'' = ''h''" "slug_for ''https://h/b'' = ''h''"
  by code_simp+

lemma ex_subst_key: "substituted_nar_key ''h'' (pi_path (ex_upstream nar)) = Some ex_key"
  by (simp add: substituted_nar_key_def ex_upstream_def ex_info_def hash_part_def base_name_def ex_key_def ex_hash_def)

lemma ex_upstream_wf: "wf_narinfo (ex_upstream nar) (ObjectKey ''x.nar'') ''/s''"
  by (simp add: wf_narinfo_def ex_upstream_def ex_info_def to_full_def graphic_def toy_sha_def)

lemma ex_plan:
  assumes "slug_for url = ''h''"
  shows "plan_fetch (ex_web (ex_upstream nar) body) url ''/s'' (ex_narinfo (ex_upstream nar)) =
    Ok (\<lparr>pn_store_path = to_full ''/s'' (pi_path (ex_upstream nar)), pn_url = ''nar/x.nar'', pn_compression = ''none'',
         pn_nar_hash = toy_sha nar, pn_nar_size = 120, pn_references = [''a-glibc'', ''b-bash''], pn_deriver = None,
         pn_sigs = [''kubernix-t-1:c2ln'']\<rparr>, pi_path (ex_upstream nar), CompNone, ex_body body, of_nat (length body), ex_key)"
proof -
  have parsed: "parse_narinfo (render_narinfo (ex_upstream nar) (ObjectKey ''x.nar'') 0 [] CompNone ''/s'') =
      Ok \<lparr>pn_store_path = to_full ''/s'' (pi_path (ex_upstream nar)), pn_url = ''nar/x.nar'', pn_compression = ''none'',
         pn_nar_hash = toy_sha nar, pn_nar_size = 120, pn_references = [''a-glibc'', ''b-bash''], pn_deriver = None,
         pn_sigs = [''kubernix-t-1:c2ln'']\<rparr>"
    using parse_render [OF ex_upstream_wf, of nar 0 "[]" CompNone]
    by (simp add: object_key_basename_def, simp add: ex_upstream_def ex_info_def)
  have "\<not> suffix ''.narinfo'' (trim_end_slashes url @ ''/'' @ ''nar/x.nar'')"
    by (simp add: suffix_def)
  moreover have "from_full ''/s'' (to_full ''/s'' p) = Some p" for p by (simp add: from_full_iff to_full_def)
  moreover have "compression_from_str ''none'' = Ok CompNone" by (simp add: compression_from_str_def)
  moreover have "\<not> contains_sub ''://'' ''nar/x.nar''" by code_simp
  ultimately show ?thesis using assms ex_subst_key
    by (simp add: plan_fetch_def ex_narinfo_def parsed get_ok_def ex_web_def is_error_status_def ex_body_def)
qed

lemma ex_get: "web_get (ex_web info body) (base @ ''/'' @ hp @ ''.narinfo'') = Some (ex_narinfo info)"
  by (simp add: ex_web_def suffix_def)

lemma ex_fetch_ok:
  assumes "slug_for url = ''h''" and "body \<noteq> []" and "length body < 2 ^ 64"
  shows "fetch_one (ex_web (ex_upstream body) body) toy_sha url hp ''/s'' objs =
    (Ok (Some (ex_upstream body\<lparr>pi_ultimate := False\<rparr>,
       \<lparr>ro_key = ex_key, ro_file_size = of_nat (length body), ro_file_hash = toy_sha body, ro_compression = CompNone\<rparr>)),
     objs(ex_key \<mapsto> body))"
proof -
  have "verify_and_forward (ex_web (ex_upstream body) body) toy_sha CompNone (toy_sha body) [Some body] = (Ok (toy_sha body), [body])"
    by (simp add: verify_and_forward_def ex_web_def)
  moreover have "put_object_stream (ex_web (ex_upstream body) body) ex_key [body] (of_nat (length body)) objs =
      (True, objs(ex_key \<mapsto> body))"
    using assms(3) by (simp add: put_object_stream_def ex_web_def unat_of_nat)
  ultimately show ?thesis
    using assms(1,2) ex_plan [OF assms(1), of body body]
    unfolding fetch_one_def ex_get by (simp, simp add: ex_narinfo_def ex_body_def ex_upstream_def ex_info_def)
qed

lemma fetch_one_integrity_witness:
  "\<exists>bs. snd (fetch_one (ex_web (ex_upstream [1, 2, 3]) [1, 2, 3]) toy_sha ''https://h/a'' ex_hash ''/s'' Map.empty) = [ex_key \<mapsto> bs] \<and>
     length bs = 3 \<and> toy_sha [1, 2, 3] = toy_sha bs \<and>
     substituted_nar_key (slug_for ''https://h/a'') (pi_path (ex_upstream [1, 2, 3])) = Some ex_key"
proof -
  have len: "length ([1, 2, 3] :: bytes) < 2 ^ 64" by simp
  note f = ex_fetch_ok [OF ex_slug(1), of "[1, 2, 3]" ex_hash Map.empty, OF _ len, simplified]
  obtain bs where "Map.empty(ex_key \<mapsto> [1, 2, 3]) = Map.empty(ex_key \<mapsto> bs)" "length bs = 3" "toy_sha [1, 2, 3] = toy_sha bs"
    using fetch_one_integrity [OF f] by auto
  then show ?thesis using ex_subst_key by (intro exI [of _ bs]) (simp add: f ex_slug)
qed

lemma ex_fetch_empty:
  assumes "slug_for url = ''h''" and "toy_sha [] \<noteq> toy_sha nar"
  shows "fetch_one (ex_web (ex_upstream nar) []) toy_sha url hp ''/s'' objs = (Err NarHashMismatch, objs(ex_key \<mapsto> []))"
proof -
  have "verify_and_forward (ex_web (ex_upstream nar) []) toy_sha CompNone (toy_sha nar) [] = (Err NarHashMismatch, [])"
    using assms(2) by (simp add: verify_and_forward_def ex_web_def)
  moreover have "put_object_stream (ex_web (ex_upstream nar) []) ex_key [] 0 objs = (True, objs(ex_key \<mapsto> []))"
    by (simp add: put_object_stream_def ex_web_def)
  ultimately show ?thesis
    using assms(1) ex_plan [OF assms(1), of nar "[]"]
    unfolding fetch_one_def ex_get by (simp, simp add: ex_narinfo_def ex_body_def)
qed

lemma ex_framed: "web_get (ex_web info body) u = Some resp \<Longrightarrow> length body < 2 ^ 64 \<Longrightarrow> framed resp"
  by (auto simp: ex_web_def framed_def ex_narinfo_def ex_body_def map_filter_simps unat_of_nat split: if_splits)

lemma failed_fetch_stores_nothing_witness:
  "\<exists>objs. snd (fetch_one (ex_web (ex_upstream [1]) []) toy_sha ''https://h/a'' ex_hash ''/s'' objs) = objs \<or>
     (\<exists>key. snd (fetch_one (ex_web (ex_upstream [1]) []) toy_sha ''https://h/a'' ex_hash ''/s'' objs) = objs(key \<mapsto> []))"
proof -
  have "toy_sha [] \<noteq> toy_sha [1]" by code_simp
  note f = ex_fetch_empty [OF ex_slug(1) this, of ex_hash Map.empty]
  from failed_fetch_stores_nothing [OF f] ex_framed show ?thesis by (intro exI [of _ Map.empty]) (auto simp: f)
qed

text \<open>
  The exception is real and it destroys data: a substituter that answers with an empty body for
  a path whose hash it claims to be another makes the fetch fail, and by then the object that an
  earlier fetch stored under the shared key has been replaced by an empty one.
\<close>

theorem empty_body_overwrites_object:
  "fetch_one (ex_web (ex_upstream [1]) [1]) toy_sha ''https://h/a'' ex_hash ''/s'' Map.empty =
     (Ok (Some (ex_upstream [1]\<lparr>pi_ultimate := False\<rparr>,
       \<lparr>ro_key = ex_key, ro_file_size = 1, ro_file_hash = toy_sha [1], ro_compression = CompNone\<rparr>)), [ex_key \<mapsto> [1]]) \<and>
   fetch_one (ex_web (ex_upstream [1]) []) toy_sha ''https://h/a'' ex_hash ''/s'' [ex_key \<mapsto> [1]] =
     (Err NarHashMismatch, [ex_key \<mapsto> []])"
proof -
  have "toy_sha [] \<noteq> toy_sha [1]" by code_simp
  then show ?thesis using ex_fetch_ok [OF ex_slug(1), of "[1]"] ex_fetch_empty [OF ex_slug(1)] by simp
qed

text \<open>
  Two substituters on the same host share their objects' keys, since the slug keeps only the
  host of a URL. When a path is fetched from one of them and later from the other, the second
  fetch replaces the bytes the first recorded, so whenever the two files differ the first
  record's file hash no longer describes the object it names.
\<close>

theorem same_host_overwrites:
  assumes "fetch_one w1 sha u1 h1 dir objs = (Ok (Some (i1, o1)), objs1)"
    and "fetch_one w2 sha u2 h2 dir objs1 = (Ok (Some (i2, o2)), objs2)"
    and "slug_for u1 = slug_for u2" and "hash_part (pi_path i1) = hash_part (pi_path i2)"
    and "ro_file_hash o1 \<noteq> ro_file_hash o2"
  shows "\<exists>bs. objs2 (ro_key o1) = Some bs \<and> sha bs \<noteq> ro_file_hash o1 \<and> sha bs = ro_file_hash o2"
proof -
  obtain bs where bs: "objs2 = objs1(ro_key o2 \<mapsto> bs)" "ro_file_hash o2 = sha bs"
      "substituted_nar_key (slug_for u2) (pi_path i2) = Some (ro_key o2)"
    using fetch_one_Ok [OF assms(2)] by blast
  have "substituted_nar_key (slug_for u1) (pi_path i1) = Some (ro_key o1)" using fetch_one_Ok [OF assms(1)] by blast
  then have "ro_key o1 = ro_key o2" using bs(3) assms(3,4) by (simp add: substituted_nar_key_def)
  then show ?thesis using bs assms(5) by auto
qed

lemma same_host_overwrites_witness:
  "\<exists>bs. [ex_key \<mapsto> [2 :: u8]] ex_key = Some bs \<and> toy_sha bs \<noteq> toy_sha [1] \<and> toy_sha bs = toy_sha [2]"
proof -
  have ne: "toy_sha [1] \<noteq> toy_sha [2]" by code_simp
  have f1: "fetch_one (ex_web (ex_upstream [1]) [1]) toy_sha ''https://h/a'' ex_hash ''/s'' Map.empty =
    (Ok (Some (ex_upstream [1]\<lparr>pi_ultimate := False\<rparr>,
       \<lparr>ro_key = ex_key, ro_file_size = 1, ro_file_hash = toy_sha [1], ro_compression = CompNone\<rparr>)), [ex_key \<mapsto> [1]])"
    using ex_fetch_ok [OF ex_slug(1), of "[1]"] by simp
  have f2: "fetch_one (ex_web (ex_upstream [2]) [2]) toy_sha ''https://h/b'' ex_hash ''/s'' [ex_key \<mapsto> [1]] =
    (Ok (Some (ex_upstream [2]\<lparr>pi_ultimate := False\<rparr>,
       \<lparr>ro_key = ex_key, ro_file_size = 1, ro_file_hash = toy_sha [2], ro_compression = CompNone\<rparr>)), [ex_key \<mapsto> [2]])"
    using ex_fetch_ok [OF ex_slug(2), of "[2]"] by simp
  show ?thesis using same_host_overwrites [OF f1 f2] ne by (simp add: ex_slug ex_upstream_def)
qed

end
