(* ===== verification/CapnpExt.thy ===== *)
theory CapnpExt
  imports Jobs Store ContentAddress Utf8
begin

text \<open>
  The conversions between the daemon protocol's messages and the frontend's own types
  (\<open>crates/server/src/capnp_ext.rs\<close>) and the errors a client sees
  (\<open>crates/server/src/rpc_error.rs\<close>). A message is what the Cap'n Proto reader
  yields: its fields, with byte strings for text. A text field read with
  \<open>from_utf8_lossy\<close> goes through the model of that function.
\<close>

subsection \<open>Errors\<close>

datatype rpc_error = RpcFailed (re_message: string) (re_traces: "string list") | RpcUnimplemented (re_message: string)

definition MAX_PLAINTEXT :: nat where "MAX_PLAINTEXT = 128"

definition ERROR_HEADER :: string where
  "ERROR_HEADER = ''{error:ODZmMTlmNjgtMjNiMy00MWE3LTgxYzUtMjY5YWUwN2ZkNDY1Cg:''"

definition ERROR_TRAILER :: string where
  "ERROR_TRAILER = '':v1}''"

text \<open>
  The description of an error: the message in the clear unless it is long, then the packed
  message in base64. Packing is library code and may fail, in which case the text is all there is.
\<close>

definition encode_error :: "(string \<Rightarrow> string list \<Rightarrow> bytes option) \<Rightarrow> (bytes \<Rightarrow> string) \<Rightarrow> string \<Rightarrow> string list \<Rightarrow> string" where
  "encode_error pack b64 message traces =
     (case pack message traces of
        None \<Rightarrow> message
      | Some packed \<Rightarrow>
          (if length message > MAX_PLAINTEXT then ''(oversize message)'' else message) @ '' '' @
          ERROR_HEADER @ b64 packed @ ERROR_TRAILER)"

definition rpc_failed :: "string \<Rightarrow> rpc_error" where
  "rpc_failed message = RpcFailed message []"

fun store_error_display :: "store_error \<Rightarrow> string" where
  "store_error_display (NotFound p) = ''path not in store: '' @ p"
| "store_error_display (Elsewhere p) = ''path is in the object store: '' @ p"
| "store_error_display (Unsupported op) = ''operation not supported: '' @ op"
| "store_error_display (Other e) = e"

fun from_store_error :: "store_error \<Rightarrow> rpc_error" where
  "from_store_error (Unsupported op) = RpcUnimplemented op"
| "from_store_error e = rpc_failed (store_error_display e)"

text \<open>
  A report whose outermost error is one of the known kinds keeps its text; otherwise a public
  message in its chain is shown, and anything else is replaced.
\<close>

datatype report_head = IsStoreError store_error | IsSignError string | IsOther

definition into_capnp_error :: "report_head \<Rightarrow> report \<Rightarrow> string \<Rightarrow> rpc_error" where
  "into_capnp_error head report context =
     (case head of
        IsStoreError e \<Rightarrow> from_store_error e
      | IsSignError m \<Rightarrow> rpc_failed m
      | IsOther \<Rightarrow>
          (case public_message report of
             Some m \<Rightarrow> rpc_failed m
           | None \<Rightarrow> rpc_failed (''kubernix: '' @ context @ '' failed; see server logs'')))"

definition report_error :: "report \<Rightarrow> string \<Rightarrow> rpc_error" where
  "report_error = into_capnp_error IsOther"

subsection \<open>Paths\<close>

definition derivation_name :: "store_path \<Rightarrow> string" where
  "derivation_name p =
     (let name = (case sp_name p of None \<Rightarrow> [] | Some n \<Rightarrow> n)
      in case strip_suffix ''.drv'' name of None \<Rightarrow> name | Some n \<Rightarrow> n)"

definition to_store_path :: "string \<Rightarrow> bytes \<Rightarrow> (rpc_error, store_path) res" where
  "to_store_path store_dir raw =
     (let raw = from_utf8_lossy raw in
      ok_or (rpc_failed (''kubernix: '' @ raw @ '' is not rooted at this server's store directory ('' @ store_dir @
          ''); the client and the frontend must use the same store dir''))
        (from_full store_dir raw))"

definition to_store_paths :: "string \<Rightarrow> bytes list \<Rightarrow> (rpc_error, store_path list) res" where
  "to_store_paths store_dir raws = collect_res (map (to_store_path store_dir) raws)"

definition write_store_path :: "string \<Rightarrow> store_path \<Rightarrow> bytes" where
  "write_store_path store_dir p = as_bytes (to_full store_dir p)"

definition write_store_paths :: "string \<Rightarrow> store_path list \<Rightarrow> bytes list" where
  "write_store_paths store_dir ps = map (write_store_path store_dir) ps"

datatype derived_path = Opaque bytes | BuiltDrv bytes

fun resolve_target :: "string \<Rightarrow> derived_path \<Rightarrow> (rpc_error, store_path \<times> bool) res" where
  "resolve_target store_dir (Opaque raw) = bind_res (to_store_path store_dir raw) (\<lambda>p. Ok (p, False))"
| "resolve_target store_dir (BuiltDrv raw) = bind_res (to_store_path store_dir raw) (\<lambda>p. Ok (p, True))"

subsection \<open>Path info\<close>

record wire_path_info =
  wi_path :: bytes
  wi_deriver :: "bytes option"
  wi_hash_type :: hash_type
  wi_hash :: bytes
  wi_nar_size :: u64
  wi_registration_time :: int
  wi_ultimate :: bool
  wi_references :: "bytes list"
  wi_sigs :: "bytes list"
  wi_ca :: "(ca_method \<times> hash_type \<times> bytes) option"

fun read_opt_path :: "string \<Rightarrow> bytes option \<Rightarrow> (rpc_error, store_path option) res" where
  "read_opt_path store_dir None = Ok None"
| "read_opt_path store_dir (Some raw) = bind_res (to_store_path store_dir raw) (\<lambda>p. Ok (Some p))"

definition to_path_info :: "string \<Rightarrow> wire_path_info \<Rightarrow> (rpc_error, path_info) res" where
  "to_path_info store_dir w =
     bind_res (to_store_path store_dir (wi_path w)) (\<lambda>path.
     bind_res (read_opt_path store_dir (wi_deriver w)) (\<lambda>deriver.
     bind_res (to_store_paths store_dir (wi_references w)) (\<lambda>references.
     Ok \<lparr>pi_path = path, pi_deriver = deriver, pi_nar_hash = \<lparr>h_type = wi_hash_type w, h_bytes = wi_hash w\<rparr>,
         pi_nar_size = wi_nar_size w, pi_references = references, pi_registration_time = wi_registration_time w,
         pi_ultimate = wi_ultimate w, pi_sigs = map from_utf8_lossy (wi_sigs w)\<rparr>)))"

fun ca_algo_name :: "hash_type \<Rightarrow> string" where
  "ca_algo_name Md5 = ''md5''"
| "ca_algo_name Sha1 = ''sha1''"
| "ca_algo_name Sha256 = ''sha256''"
| "ca_algo_name Sha512 = ''sha512''"

definition to_content_address :: "wire_path_info \<Rightarrow> content_address option" where
  "to_content_address w = map_option (\<lambda>(m, ty, h). \<lparr>ca_method = m, ca_algo = ca_algo_name ty, ca_hash = h\<rparr>) (wi_ca w)"

definition write_path_info :: "string \<Rightarrow> path_info \<Rightarrow> wire_path_info" where
  "write_path_info store_dir info =
     \<lparr>wi_path = write_store_path store_dir (pi_path info),
      wi_deriver = map_option (write_store_path store_dir) (pi_deriver info),
      wi_hash_type = h_type (pi_nar_hash info), wi_hash = h_bytes (pi_nar_hash info),
      wi_nar_size = pi_nar_size info, wi_registration_time = pi_registration_time info,
      wi_ultimate = pi_ultimate info, wi_references = write_store_paths store_dir (pi_references info),
      wi_sigs = map as_bytes (pi_sigs info), wi_ca = None\<rparr>"

subsection \<open>Round trip\<close>

text \<open>Rust strings are UTF-8; so is a path printed under the store directory.\<close>

definition utf8_info :: "string \<Rightarrow> path_info \<Rightarrow> bool" where
  "utf8_info store_dir info \<longleftrightarrow> is_utf8 (to_full store_dir (pi_path info)) \<and>
     (case pi_deriver info of None \<Rightarrow> True | Some d \<Rightarrow> is_utf8 (to_full store_dir d)) \<and>
     list_all (\<lambda>r. is_utf8 (to_full store_dir r)) (pi_references info) \<and> list_all is_utf8 (pi_sigs info)"

lemma lossy_utf8: "is_utf8 s \<Longrightarrow> from_utf8_lossy (as_bytes s) = s"
  by (simp add: from_utf8_lossy_def is_utf8_def utf8_lossy_valid_id)

lemma from_full_printed [simp]: "from_full dir (to_full dir p) = Some p"
  by (simp add: from_full_iff to_full_def)

lemma to_store_path_write:
  assumes "is_utf8 (to_full dir p)"
  shows "to_store_path dir (write_store_path dir p) = Ok p"
  unfolding to_store_path_def write_store_path_def Let_def lossy_utf8 [OF assms] from_full_printed by simp

lemma to_store_path_Ok: "to_store_path dir raw = Ok p \<longleftrightarrow> from_utf8_lossy raw = to_full dir p"
  by (auto simp: to_store_path_def Let_def res_simps from_full_iff to_full_def)

text \<open>
  A client that sends back the metadata it was given sends the same metadata: reading a
  written \<open>ValidPathInfo\<close> yields the path info it was written from, with every field,
  reference and signature unchanged, and it carries no content address.
\<close>

theorem path_info_wire_roundtrip:
  assumes "utf8_info dir info"
  shows "to_path_info dir (write_path_info dir info) = Ok info \<and> to_content_address (write_path_info dir info) = None"
proof -
  have "to_store_paths dir (write_store_paths dir (pi_references info)) = Ok (map id (pi_references info))"
    unfolding to_store_paths_def write_store_paths_def map_map comp_def
    by (rule collect_res_map_Ok) (use assms in \<open>auto simp: utf8_info_def list_all_iff to_store_path_write\<close>)
  moreover have "map (\<lambda>x. from_utf8_lossy (as_bytes x)) (pi_sigs info) = pi_sigs info"
    using assms by (auto simp: utf8_info_def list_all_iff lossy_utf8 intro!: map_idI)
  moreover have "read_opt_path dir (map_option (write_store_path dir) (pi_deriver info)) = Ok (pi_deriver info)"
    using assms by (cases "pi_deriver info") (simp_all add: utf8_info_def to_store_path_write)
  ultimately show ?thesis
    using assms by (simp add: to_path_info_def write_path_info_def to_content_address_def utf8_info_def to_store_path_write comp_def)
qed

lemma path_info_wire_roundtrip_witness:
  "to_path_info ''/s'' (write_path_info ''/s'' \<lparr>pi_path = StorePath ''a'', pi_deriver = Some (StorePath ''d''),
      pi_nar_hash = \<lparr>h_type = Sha512, h_bytes = [1, 2]\<rparr>, pi_nar_size = 3, pi_references = [StorePath ''b''],
      pi_registration_time = 4, pi_ultimate = True, pi_sigs = [''k:s'']\<rparr>) =
   Ok \<lparr>pi_path = StorePath ''a'', pi_deriver = Some (StorePath ''d''),
      pi_nar_hash = \<lparr>h_type = Sha512, h_bytes = [1, 2]\<rparr>, pi_nar_size = 3, pi_references = [StorePath ''b''],
      pi_registration_time = 4, pi_ultimate = True, pi_sigs = [''k:s'']\<rparr>"
proof -
  have "is_utf8 ''/s/a''" "is_utf8 ''/s/d''" "is_utf8 ''/s/b''" "is_utf8 ''k:s''" by code_simp+
  then show ?thesis by (intro path_info_wire_roundtrip [THEN conjunct1]) (simp add: utf8_info_def to_full_def)
qed

end
