(* ===== verification/Derivation.thy ===== *)
theory Derivation
  imports Wire Types
begin

text \<open>
  The derivation a build request carries, read from its wire form
  (\<open>crates/types/src/derivation.rs\<close>). The writer on the other side is Lix's
  \<open>serializeDerivation\<close>, which is not part of this repository; \<open>serialize\<close>
  below is the format its documentation and the repository's tests describe, and serves as the
  specification the parser is proved against.
\<close>

record drv_output =
  o_name :: string
  o_path :: store_path
  o_algo :: string
  o_hash :: string

text \<open>\<open>env\<close> is a \<open>BTreeMap\<close>: a finite map; its iteration order is not used.\<close>

record basic_derivation =
  outputs :: "drv_output list"
  input_srcs :: "store_path list"
  platform :: system_triple
  builder :: string
  args :: "string list"
  env :: "string \<rightharpoonup> string"

datatype parse_error = TruncatedAt truncated | Unrooted not_rooted

definition rooted :: "string \<Rightarrow> string \<Rightarrow> (parse_error, store_path) res" where
  "rooted store_dir s = map_err Unrooted (from_full_or_err store_dir s)"

definition p_u64 :: "reader \<Rightarrow> (parse_error, u64 \<times> reader) res" where
  "p_u64 r = map_err TruncatedAt (reader_u64 r)"

definition p_string :: "reader \<Rightarrow> (parse_error, string \<times> reader) res" where
  "p_string r = map_err TruncatedAt (reader_string r)"

definition p_strings :: "reader \<Rightarrow> (parse_error, string list \<times> reader) res" where
  "p_strings r = map_err TruncatedAt (reader_strings r)"

text \<open>
  \<open>Vec::with_capacity(n)\<close> for the four-string \<open>Output\<close> (96 bytes on a
  64-bit target) panics when the allocation would pass \<open>isize::MAX\<close> bytes.
\<close>

definition output_capacity :: "nat \<Rightarrow> (parse_error, unit) res" where
  "output_capacity n = (if n * 96 > 2 ^ 63 - 1 then Panic else Ok ())"

definition parse_output :: "string \<Rightarrow> reader \<Rightarrow> (parse_error, drv_output \<times> reader) res" where
  "parse_output store_dir r =
     bind_res (p_string r) (\<lambda>(name, r).
     bind_res (p_string r) (\<lambda>(raw, r).
     bind_res (rooted store_dir raw) (\<lambda>path.
     bind_res (p_string r) (\<lambda>(algo, r).
     bind_res (p_string r) (\<lambda>(hash, r).
     Ok (\<lparr>o_name = name, o_path = path, o_algo = algo, o_hash = hash\<rparr>, r))))))"

definition parse_env_entry :: "reader \<Rightarrow> (parse_error, (string \<times> string) \<times> reader) res" where
  "parse_env_entry r =
     bind_res (p_string r) (\<lambda>(key, r).
     bind_res (p_string r) (\<lambda>(value, r). Ok ((key, value), r)))"

text \<open>Later entries overwrite earlier ones, as \<open>BTreeMap::insert\<close> does.\<close>

definition env_of :: "(string \<times> string) list \<Rightarrow> string \<rightharpoonup> string" where
  "env_of kvs = foldl (\<lambda>m (k, v). m(k \<mapsto> v)) Map.empty kvs"

definition parse :: "bytes \<Rightarrow> string \<Rightarrow> (parse_error, basic_derivation) res" where
  "parse bs store_dir =
     bind_res (p_u64 (reader_new bs)) (\<lambda>(output_count, r).
     bind_res (output_capacity (unat output_count)) (\<lambda>_.
     bind_res (read_n (parse_output store_dir) (unat output_count) r) (\<lambda>(outs, r).
     bind_res (p_strings r) (\<lambda>(raw_srcs, r).
     bind_res (collect_res (map (rooted store_dir) raw_srcs)) (\<lambda>srcs.
     bind_res (p_string r) (\<lambda>(plat, r).
     bind_res (p_string r) (\<lambda>(bld, r).
     bind_res (p_strings r) (\<lambda>(as, r).
     bind_res (p_u64 r) (\<lambda>(env_count, r).
     bind_res (read_n parse_env_entry (unat env_count) r) (\<lambda>(kvs, r).
     Ok \<lparr>outputs = outs, input_srcs = srcs, platform = System plat, builder = bld,
         args = as, env = env_of kvs\<rparr>))))))))))"

subsection \<open>The wire form\<close>

definition enc_output :: "string \<Rightarrow> drv_output \<Rightarrow> bytes" where
  "enc_output store_dir o' =
     enc_string (o_name o') @ enc_string (to_full store_dir (o_path o')) @
     enc_string (o_algo o') @ enc_string (o_hash o')"

definition enc_env_entry :: "string \<times> string \<Rightarrow> bytes" where
  "enc_env_entry kv = enc_string (fst kv) @ enc_string (snd kv)"

definition enc_list :: "('a \<Rightarrow> bytes) \<Rightarrow> 'a list \<Rightarrow> bytes" where
  "enc_list f xs = to_le_bytes (of_nat (length xs)) @ concat (map f xs)"

definition serialize :: "string \<Rightarrow> basic_derivation \<Rightarrow> (string \<times> string) list \<Rightarrow> bytes" where
  "serialize store_dir d kvs =
     enc_list (enc_output store_dir) (outputs d) @
     enc_list enc_string (map (to_full store_dir) (input_srcs d)) @
     enc_string (sys_str (platform d)) @ enc_string (builder d) @
     enc_list enc_string (args d) @ enc_list enc_env_entry kvs"

definition wf_output :: "string \<Rightarrow> drv_output \<Rightarrow> bool" where
  "wf_output store_dir o' \<longleftrightarrow>
     is_utf8 (o_name o') \<and> is_utf8 (to_full store_dir (o_path o')) \<and>
     is_utf8 (o_algo o') \<and> is_utf8 (o_hash o')"

definition wf_entry :: "string \<times> string \<Rightarrow> bool" where
  "wf_entry kv \<longleftrightarrow> is_utf8 (fst kv) \<and> is_utf8 (snd kv)"

definition wf_derivation :: "string \<Rightarrow> basic_derivation \<Rightarrow> (string \<times> string) list \<Rightarrow> bool" where
  "wf_derivation store_dir d kvs \<longleftrightarrow>
     list_all (wf_output store_dir) (outputs d) \<and>
     list_all (\<lambda>p. is_utf8 (to_full store_dir p)) (input_srcs d) \<and>
     is_utf8 (sys_str (platform d)) \<and> is_utf8 (builder d) \<and>
     list_all is_utf8 (args d) \<and> list_all wf_entry kvs \<and> env d = env_of kvs"

subsection \<open>The parser reads the wire form back\<close>

lemma rooted_to_full [simp]: "rooted d (to_full d p) = Ok p"
  by (simp add: rooted_def from_full_or_err_def from_full_iff to_full_def res_simps)

lemma p_string_at:
  "is_utf8 s \<Longrightarrow> length (pre @ enc_string s @ post) < 2 ^ 63 \<Longrightarrow>
   p_string (reader_at pre (enc_string s @ post)) = Ok (s, reader_at (pre @ enc_string s) post)"
  using reader_string_at [of s pre post] by (simp add: p_string_def)

lemma parse_output_at:
  assumes "wf_output d o'" and "length (pre @ enc_output d o' @ post) < 2 ^ 63"
  shows "parse_output d (reader_at pre (enc_output d o' @ post)) =
         Ok (o', reader_at (pre @ enc_output d o') post)"
  using assms
  by (simp add: parse_output_def enc_output_def wf_output_def p_string_at)

interpretation output_codec: codec "enc_output d" "parse_output d" "wf_output d" for d
  by unfold_locales (rule parse_output_at)

lemma parse_env_entry_at:
  assumes "wf_entry kv" and "length (pre @ enc_env_entry kv @ post) < 2 ^ 63"
  shows "parse_env_entry (reader_at pre (enc_env_entry kv @ post)) =
         Ok (kv, reader_at (pre @ enc_env_entry kv) post)"
  using assms
  by (simp add: parse_env_entry_def enc_env_entry_def wf_entry_def p_string_at)

interpretation env_codec: codec enc_env_entry parse_env_entry wf_entry
  by unfold_locales (rule parse_env_entry_at)

lemma length_concat_ge:
  "(\<And>x. x \<in> set xs \<Longrightarrow> k \<le> length (f x)) \<Longrightarrow> k * length xs \<le> length (concat (map f xs))"
  by (induction xs) (auto simp: add_mono)

lemma length_enc_output_ge: "32 \<le> length (enc_output d o')"
  using length_enc_string_ge [of "o_name o'"] length_enc_string_ge [of "to_full d (o_path o')"]
    length_enc_string_ge [of "o_algo o'"] length_enc_string_ge [of "o_hash o'"]
  by (simp add: enc_output_def)

lemma length_enc_env_entry_ge: "8 \<le> length (enc_env_entry kv)"
  using length_enc_string_ge [of "fst kv"] by (simp add: enc_env_entry_def)

lemma enc_list_count:
  assumes "\<And>x. x \<in> set xs \<Longrightarrow> 1 \<le> length (f x)" and "length (pre @ enc_list f xs @ post) < 2 ^ 63"
  shows "length xs < 2 ^ 63"
  using length_concat_ge [of xs 1 f, OF assms(1)] assms(2) by (simp add: enc_list_def)

lemma p_u64_at:
  "p_u64 (reader_at pre (to_le_bytes v @ post)) = Ok (v, reader_at (pre @ to_le_bytes v) post)"
  by (simp add: p_u64_def reader_u64_at)

lemma p_strings_at:
  assumes "list_all is_utf8 ss" and "length (pre @ enc_list enc_string ss @ post) < 2 ^ 63"
  shows "p_strings (reader_at pre (enc_list enc_string ss @ post)) =
         Ok (ss, reader_at (pre @ enc_list enc_string ss) post)"
proof -
  have "length ss < 2 ^ 63"
    by (rule enc_list_count [OF _ assms(2)]) (rule order_trans [OF _ length_enc_string_ge], simp)
  then show ?thesis
    using assms reader_strings_at [of ss pre post]
    by (simp add: p_strings_def enc_list_def list_all_iff)
qed

lemma outputs_at:
  assumes "list_all (wf_output d) os" and "length (pre @ enc_list (enc_output d) os @ post) < 2 ^ 61"
  shows "bind_res (p_u64 (reader_at pre (enc_list (enc_output d) os @ post))) (\<lambda>(n, r).
         bind_res (output_capacity (unat n)) (\<lambda>_. read_n (parse_output d) (unat n) r)) =
         Ok (os, reader_at (pre @ enc_list (enc_output d) os) post)"
proof -
  have ge: "32 * length os \<le> length (concat (map (enc_output d) os))"
    by (rule length_concat_ge) (rule length_enc_output_ge)
  have small: "length os * 32 < 2 ^ 61"
    using assms(2) ge by (simp add: enc_list_def)
  then have n: "unat (of_nat (length os) :: u64) = length os"
    by (intro unat_of_nat_u64) simp
  have cap: "output_capacity (length os) = Ok ()"
    using small by (simp add: output_capacity_def)
  show ?thesis
    using output_codec.dec_many [of os d "pre @ to_le_bytes (of_nat (length os))" post] assms n cap
    by (simp add: enc_list_def p_u64_at list_all_iff)
qed

lemma env_at:
  assumes "list_all wf_entry kvs" and "length (pre @ enc_list enc_env_entry kvs @ post) < 2 ^ 63"
  shows "bind_res (p_u64 (reader_at pre (enc_list enc_env_entry kvs @ post)))
           (\<lambda>(n, r). read_n parse_env_entry (unat n) r) =
         Ok (kvs, reader_at (pre @ enc_list enc_env_entry kvs) post)"
proof -
  have "length kvs < 2 ^ 63"
    by (rule enc_list_count [OF _ assms(2)]) (rule order_trans [OF _ length_enc_env_entry_ge], simp)
  then show ?thesis
    using env_codec.dec_counted [of kvs pre post TruncatedAt] assms
    by (simp add: enc_list_def p_u64_def list_all_iff)
qed

lemma collect_rooted [simp]:
  "collect_res (map (rooted d) (map (to_full d) ps)) = Ok ps"
  using collect_res_map_Ok [of ps "rooted d \<circ> to_full d" "\<lambda>p. p"] by simp

lemma bind_res_assoc:
  "bind_res (bind_res r f) g = bind_res r (\<lambda>a. bind_res (f a) g)"
  by (cases r) auto

lemma parse_of_serialize:
  assumes "wf_derivation dir d kvs" and "length (serialize dir d kvs) < 2 ^ 61"
  shows "parse (serialize dir d kvs) dir = Ok d"
proof -
  let ?o = "enc_list (enc_output dir) (outputs d)"
  let ?i = "enc_list enc_string (map (to_full dir) (input_srcs d))"
  let ?p = "enc_string (sys_str (platform d))"
  let ?b = "enc_string (builder d)"
  let ?a = "enc_list enc_string (args d)"
  let ?e = "enc_list enc_env_entry kvs"
  note wf = assms(1) [unfolded wf_derivation_def]
  have len: "length ?o + length ?i + length ?p + length ?b + length ?a + length ?e < 2 ^ 61"
    using assms(2) by (simp add: serialize_def)
  have o: "bind_res (p_u64 (reader_at [] (?o @ ?i @ ?p @ ?b @ ?a @ ?e))) (\<lambda>(n, r).
         bind_res (output_capacity (unat n)) (\<lambda>_. read_n (parse_output dir) (unat n) r)) =
         Ok (outputs d, reader_at ?o (?i @ ?p @ ?b @ ?a @ ?e))"
    using outputs_at [of dir "outputs d" "[]" "?i @ ?p @ ?b @ ?a @ ?e"] wf len by simp
  have i: "p_strings (reader_at ?o (?i @ ?p @ ?b @ ?a @ ?e)) =
         Ok (map (to_full dir) (input_srcs d), reader_at (?o @ ?i) (?p @ ?b @ ?a @ ?e))"
    using wf len by (intro p_strings_at) (auto simp: list_all_iff)
  have p: "p_string (reader_at (?o @ ?i) (?p @ ?b @ ?a @ ?e)) =
         Ok (sys_str (platform d), reader_at ((?o @ ?i) @ ?p) (?b @ ?a @ ?e))"
    using wf len by (intro p_string_at) auto
  have b: "p_string (reader_at ((?o @ ?i) @ ?p) (?b @ ?a @ ?e)) =
         Ok (builder d, reader_at (((?o @ ?i) @ ?p) @ ?b) (?a @ ?e))"
    using wf len by (intro p_string_at) auto
  have a: "p_strings (reader_at (((?o @ ?i) @ ?p) @ ?b) (?a @ ?e)) =
         Ok (args d, reader_at ((((?o @ ?i) @ ?p) @ ?b) @ ?a) ?e)"
    using wf len by (intro p_strings_at) auto
  have e: "bind_res (p_u64 (reader_at ((((?o @ ?i) @ ?p) @ ?b) @ ?a) ?e))
           (\<lambda>(n, r). read_n parse_env_entry (unat n) r) =
         Ok (kvs, reader_at (((((?o @ ?i) @ ?p) @ ?b) @ ?a) @ ?e) [])"
    using env_at [of kvs "(((?o @ ?i) @ ?p) @ ?b) @ ?a" "[]"] wf len by simp
  have "parse (serialize dir d kvs) dir =
     bind_res (bind_res (p_u64 (reader_at [] (?o @ ?i @ ?p @ ?b @ ?a @ ?e))) (\<lambda>(n, r).
         bind_res (output_capacity (unat n)) (\<lambda>_. read_n (parse_output dir) (unat n) r)))
       (\<lambda>(outs, r).
     bind_res (p_strings r) (\<lambda>(raw_srcs, r).
     bind_res (collect_res (map (rooted dir) raw_srcs)) (\<lambda>srcs.
     bind_res (p_string r) (\<lambda>(plat, r).
     bind_res (p_string r) (\<lambda>(bld, r).
     bind_res (p_strings r) (\<lambda>(as, r).
     bind_res (bind_res (p_u64 r) (\<lambda>(n, r). read_n parse_env_entry (unat n) r)) (\<lambda>(kvs, r).
     Ok \<lparr>outputs = outs, input_srcs = srcs, platform = System plat, builder = bld,
         args = as, env = env_of kvs\<rparr>)))))))"
    by (simp add: parse_def serialize_def reader_new_at bind_res_assoc split_def)
  also have "\<dots> = Ok \<lparr>outputs = outputs d, input_srcs = input_srcs d,
      platform = System (sys_str (platform d)), builder = builder d, args = args d, env = env_of kvs\<rparr>"
    by (simp only: o i p b a e bind_res.simps prod.case collect_rooted)
  also have "\<dots> = Ok d" using wf by simp
  finally show ?thesis .
qed

text \<open>
  C39: parsing the wire form of a derivation gives the derivation back, every field of it, for
  any store directory, any number of outputs, inputs, arguments and environment entries and
  any UTF-8 strings. The size bound is far above what a process can allocate.
\<close>

theorem parse_serialize:
  assumes "wf_derivation dir d kvs" and "length (serialize dir d kvs) < 2 ^ 61"
  shows "parse (serialize dir d kvs) dir = Ok d"
  by (rule parse_of_serialize [OF assms])

theorem parse_serialize_witness:
  "parse (serialize ''/nix/store''
      \<lparr>outputs = [\<lparr>o_name = ''out'', o_path = StorePath ''0-thing'', o_algo = [], o_hash = []\<rparr>],
       input_srcs = [StorePath ''1-dep''], platform = System ''x86_64-linux'', builder = ''/bin/sh'',
       args = [''-c''], env = env_of [(''name'', ''thing'')]\<rparr> [(''name'', ''thing'')]) ''/nix/store'' =
   Ok \<lparr>outputs = [\<lparr>o_name = ''out'', o_path = StorePath ''0-thing'', o_algo = [], o_hash = []\<rparr>],
       input_srcs = [StorePath ''1-dep''], platform = System ''x86_64-linux'', builder = ''/bin/sh'',
       args = [''-c''], env = env_of [(''name'', ''thing'')]\<rparr>"
  by (rule parse_serialize)
    (auto simp: wf_derivation_def wf_output_def wf_entry_def to_full_def serialize_def enc_list_def
      enc_output_def enc_env_entry_def enc_string_def length_enc_bytes padding_def
      intro!: is_utf8_ascii)

text \<open>
  the parser trusts the declared number of outputs before it has read any of them: a
  count whose reservation passes \<open>isize::MAX\<close> bytes panics, whatever follows, so the
  eight leading bytes of a client's derivation decide.
\<close>

theorem parse_panics_on_output_count:
  "unat n * 96 \<ge> 2 ^ 63 \<Longrightarrow> parse (to_le_bytes n @ rest) dir = Panic"
  by (simp add: parse_def reader_new_at p_u64_at [of "[]", simplified] output_capacity_def)

theorem parse_panics_on_output_count_witness:
  "parse (to_le_bytes (2 ^ 60) @ []) ''/nix/store'' = Panic"
  by (rule parse_panics_on_output_count) simp

end
