(* ===== verification/MemoryStore.thy ===== *)
theory MemoryStore
  imports Store
begin

text \<open>
  The in-memory store (\<open>MemoryStore\<close> in \<open>crates/server/src/store.rs\<close>): one
  partition per tenant, the shared object table and the process-local capability secret. A
  \<open>HashMap\<close> is an association list with distinct keys, whose order stands for the
  unspecified iteration order; no lemma below depends on which of several matching entries a
  search returns. The mutexes are not modelled: every operation runs under its lock from start
  to end, except \<open>record_path\<close> and \<open>record_substituted_path\<close>, which take it
  twice.
\<close>

record inner =
  in_paths :: "(store_path \<times> path_info) list"
  in_remote :: "(store_path \<times> remote_object) list"
  in_signer :: "local_signer option"
  in_tiers :: "(store_path \<times> tier) list"
  in_reject_unverified_pushes :: "bool option"
  in_substituters :: "(string \<times> string) list"
  in_substituted_from :: "(store_path \<times> string \<times> string) list"
  in_negative_cache :: "(string \<times> nat) list"

record memory_store =
  ms_inner :: "(tenant_id \<times> inner) list"
  ms_objects :: "(object_key \<times> remote_object) list"
  ms_capability_secret :: "bytes option"
  ms_now :: nat

definition inner_default :: inner where
  "inner_default = \<lparr>in_paths = [], in_remote = [], in_signer = None, in_tiers = [],
     in_reject_unverified_pushes = None, in_substituters = [], in_substituted_from = [], in_negative_cache = []\<rparr>"

definition NEGATIVE_CACHE_TTL :: nat where "NEGATIVE_CACHE_TTL = 600"

definition ms_new :: memory_store where
  "ms_new = \<lparr>ms_inner = [], ms_objects = [], ms_capability_secret = None, ms_now = 0\<rparr>"

definition ms_read :: "memory_store \<Rightarrow> tenant_id \<Rightarrow> inner" where
  "ms_read s tenant = (case map_of (ms_inner s) tenant of Some part \<Rightarrow> part | None \<Rightarrow> inner_default)"

definition ms_write :: "memory_store \<Rightarrow> tenant_id \<Rightarrow> (inner \<Rightarrow> inner) \<Rightarrow> memory_store" where
  "ms_write s tenant f = s\<lparr>ms_inner := AList.update tenant (f (ms_read s tenant)) (ms_inner s)\<rparr>"

definition ms_is_valid_path :: "tenant_id \<Rightarrow> store_path \<Rightarrow> memory_store \<Rightarrow> bool" where
  "ms_is_valid_path tenant path s \<longleftrightarrow> map_of (in_paths (ms_read s tenant)) path \<noteq> None"

definition ms_query_valid_paths :: "tenant_id \<Rightarrow> store_path list \<Rightarrow> memory_store \<Rightarrow> store_path list" where
  "ms_query_valid_paths tenant paths s = filter (\<lambda>p. map_of (in_paths (ms_read s tenant)) p \<noteq> None) paths"

definition ms_query_all_valid_paths :: "tenant_id \<Rightarrow> memory_store \<Rightarrow> store_path list" where
  "ms_query_all_valid_paths tenant s = map fst (in_paths (ms_read s tenant))"

definition ms_query_path_info :: "tenant_id \<Rightarrow> store_path \<Rightarrow> memory_store \<Rightarrow> path_info option" where
  "ms_query_path_info tenant path s = map_of (in_paths (ms_read s tenant)) path"

definition ms_query_path_from_hash_part :: "tenant_id \<Rightarrow> string \<Rightarrow> memory_store \<Rightarrow> store_path option" where
  "ms_query_path_from_hash_part tenant h s =
     find (\<lambda>p. hash_part p = Some h) (map fst (in_paths (ms_read s tenant)))"

definition ms_query_referrers :: "tenant_id \<Rightarrow> store_path \<Rightarrow> memory_store \<Rightarrow> store_path list" where
  "ms_query_referrers tenant path s =
     map pi_path (filter (\<lambda>info. path \<in> set (pi_references info)) (map snd (in_paths (ms_read s tenant))))"

text \<open>\<open>entry(key).or_insert_with(..)\<close>: the first object recorded under a key stays.\<close>

definition or_insert :: "object_key \<Rightarrow> remote_object \<Rightarrow> (object_key \<times> remote_object) list \<Rightarrow> (object_key \<times> remote_object) list" where
  "or_insert k v m = (if map_of m k = None then AList.update k v m else m)"

definition ms_record_path ::
  "tenant_id \<Rightarrow> path_info \<Rightarrow> remote_object \<Rightarrow> tier \<Rightarrow> memory_store \<Rightarrow> (store_error, unit) res \<times> memory_store" where
  "ms_record_path tenant info object ti s =
     (let s = s\<lparr>ms_objects := or_insert (ro_key object) object (ms_objects s)\<rparr>;
          s = ms_write s tenant (\<lambda>i. i\<lparr>
                in_remote := AList.update (pi_path info) object (in_remote i),
                in_tiers := AList.update (pi_path info) ti (in_tiers i),
                in_paths := AList.update (pi_path info) info (in_paths i)\<rparr>)
      in (Ok (), s))"

definition ms_output_object :: "tenant_id \<Rightarrow> store_path \<Rightarrow> memory_store \<Rightarrow> remote_object option" where
  "ms_output_object tenant path s = map_of (in_remote (ms_read s tenant)) path"

definition ms_object_known :: "object_key \<Rightarrow> memory_store \<Rightarrow> bool" where
  "ms_object_known key s \<longleftrightarrow> map_of (ms_objects s) key \<noteq> None"

text \<open>
  The cross-tenant searches look at one partition at a time: the first entry with the hash
  part, skipped when it is of another tier or has no object.
\<close>

definition find_in_partition :: "tier \<Rightarrow> string \<Rightarrow> inner \<Rightarrow> (path_info \<times> remote_object) option" where
  "find_in_partition ti h part =
     Option.bind (find (\<lambda>(p, _). hash_part p = Some h) (in_paths part)) (\<lambda>(path, info).
     if map_of (in_tiers part) path \<noteq> Some ti then None
     else Option.bind (map_of (in_remote part) path) (\<lambda>object. Some (info, object)))"

fun first_some :: "('a \<Rightarrow> 'b option) \<Rightarrow> 'a list \<Rightarrow> 'b option" where
  "first_some f [] = None"
| "first_some f (x # xs) = (case f x of Some y \<Rightarrow> Some y | None \<Rightarrow> first_some f xs)"

definition ms_find_verified_by_hash_part :: "string \<Rightarrow> memory_store \<Rightarrow> (path_info \<times> remote_object) option" where
  "ms_find_verified_by_hash_part h s = first_some (find_in_partition Verified h) (map snd (ms_inner s))"

definition ms_find_substituted_by_hash_part ::
  "string \<Rightarrow> memory_store \<Rightarrow> (path_info \<times> remote_object \<times> string \<times> string) option" where
  "ms_find_substituted_by_hash_part h s =
     first_some (\<lambda>part.
       Option.bind (find_in_partition Substituted h part) (\<lambda>(info, object).
       Option.bind (map_of (in_substituted_from part) (pi_path info)) (\<lambda>(url, key).
       Some (info, object, url, key)))) (map snd (ms_inner s))"

definition push_new :: "string list \<Rightarrow> string list \<Rightarrow> string list" where
  "push_new sigs new = foldl (\<lambda>acc sig. if sig \<in> set acc then acc else acc @ [sig]) sigs new"

definition ms_add_signatures ::
  "tenant_id \<Rightarrow> store_path \<Rightarrow> string list \<Rightarrow> memory_store \<Rightarrow> (store_error, unit) res \<times> memory_store" where
  "ms_add_signatures tenant path sigs s =
     (case map_of (in_paths (ms_read s tenant)) path of
        None \<Rightarrow> (Err (NotFound (sp_str path)), ms_write s tenant id)
      | Some info \<Rightarrow>
          (Ok (), ms_write s tenant (\<lambda>i. i\<lparr>in_paths :=
             AList.update path (info\<lparr>pi_sigs := push_new (pi_sigs info) sigs\<rparr>) (in_paths i)\<rparr>)))"

definition ms_query_missing :: "tenant_id \<Rightarrow> store_path list \<Rightarrow> memory_store \<Rightarrow> missing_paths" where
  "ms_query_missing tenant targets s =
     no_missing\<lparr>will_build := filter (\<lambda>t. map_of (in_paths (ms_read s tenant)) t = None) targets\<rparr>"

definition ms_tier :: "tenant_id \<Rightarrow> store_path \<Rightarrow> memory_store \<Rightarrow> tier option" where
  "ms_tier tenant path s = map_of (in_tiers (ms_read s tenant)) path"

definition ms_signer :: "tenant_id \<Rightarrow> bytes \<Rightarrow> memory_store \<Rightarrow> local_signer option \<times> memory_store" where
  "ms_signer tenant seed s =
     (case in_signer (ms_read s tenant) of
        Some signer \<Rightarrow> (Some signer, ms_write s tenant id)
      | None \<Rightarrow>
          (let signer = \<lparr>ls_name = key_name_for tenant, ls_seed = seed\<rparr>
           in (Some signer, ms_write s tenant (\<lambda>i. i\<lparr>in_signer := Some signer\<rparr>))))"

definition ms_reject_unverified_pushes :: "tenant_id \<Rightarrow> memory_store \<Rightarrow> bool" where
  "ms_reject_unverified_pushes tenant s =
     (case in_reject_unverified_pushes (ms_read s tenant) of Some b \<Rightarrow> b | None \<Rightarrow> True)"

definition ms_trusted_substituters :: "tenant_id \<Rightarrow> memory_store \<Rightarrow> (string \<times> string) list" where
  "ms_trusted_substituters tenant s = in_substituters (ms_read s tenant)"

definition ms_record_substituted_path ::
  "tenant_id \<Rightarrow> path_info \<Rightarrow> remote_object \<Rightarrow> string \<Rightarrow> string \<Rightarrow> memory_store \<Rightarrow> (store_error, unit) res \<times> memory_store" where
  "ms_record_substituted_path tenant info object source_url source_key s =
     (case ms_record_path tenant info object Substituted s of
        (Ok _, s) \<Rightarrow> (Ok (), ms_write s tenant (\<lambda>i. i\<lparr>in_substituted_from :=
           AList.update (pi_path info) (source_url, source_key) (in_substituted_from i)\<rparr>))
      | (e, s) \<Rightarrow> (e, s))"

definition ms_substituted_source :: "tenant_id \<Rightarrow> store_path \<Rightarrow> memory_store \<Rightarrow> (string \<times> string) option" where
  "ms_substituted_source tenant path s = map_of (in_substituted_from (ms_read s tenant)) path"

definition ms_substituter_negative_cache_hit :: "tenant_id \<Rightarrow> string \<Rightarrow> memory_store \<Rightarrow> bool" where
  "ms_substituter_negative_cache_hit tenant h s =
     (case map_of (in_negative_cache (ms_read s tenant)) h of
        None \<Rightarrow> False | Some at \<Rightarrow> ms_now s - at < NEGATIVE_CACHE_TTL)"

definition ms_mark_substituter_miss :: "tenant_id \<Rightarrow> string \<Rightarrow> memory_store \<Rightarrow> memory_store" where
  "ms_mark_substituter_miss tenant h s =
     ms_write s tenant (\<lambda>i. i\<lparr>in_negative_cache := AList.update h (ms_now s) (in_negative_cache i)\<rparr>)"

definition ms_current_capability_secret :: "bytes \<Rightarrow> memory_store \<Rightarrow> (u64 \<times> bytes) \<times> memory_store" where
  "ms_current_capability_secret fresh s =
     (case ms_capability_secret s of
        Some secret \<Rightarrow> ((0, secret), s)
      | None \<Rightarrow> ((0, fresh), s\<lparr>ms_capability_secret := Some fresh\<rparr>))"

definition ms_capability_secret_for :: "u64 \<Rightarrow> memory_store \<Rightarrow> bytes option \<times> memory_store" where
  "ms_capability_secret_for kid s = (if kid \<noteq> 0 then (None, s) else (ms_capability_secret s, s))"

text \<open>
  The trait object: \<open>record_access\<close>, \<open>reserve_job\<close>,
  \<open>record_job_outcome\<close> and \<open>register_tenant\<close> are the trait's defaults.
\<close>

definition memory_ops :: "memory_store store_ops" where
  "memory_ops = \<lparr>
     op_is_valid_path = ms_is_valid_path, op_query_valid_paths = ms_query_valid_paths,
     op_query_all_valid_paths = ms_query_all_valid_paths, op_query_path_info = ms_query_path_info,
     op_query_path_from_hash_part = ms_query_path_from_hash_part, op_query_referrers = ms_query_referrers,
     op_record_path = ms_record_path, op_output_object = ms_output_object, op_object_known = ms_object_known,
     op_find_verified_by_hash_part = ms_find_verified_by_hash_part,
     op_record_substituted_path = ms_record_substituted_path,
     op_find_substituted_by_hash_part = ms_find_substituted_by_hash_part,
     op_substituted_source = ms_substituted_source, op_add_signatures = ms_add_signatures,
     op_query_missing = ms_query_missing, op_tier = ms_tier, op_signer = ms_signer,
     op_reject_unverified_pushes = ms_reject_unverified_pushes,
     op_trusted_substituters = ms_trusted_substituters,
     op_substituter_negative_cache_hit = ms_substituter_negative_cache_hit,
     op_mark_substituter_miss = ms_mark_substituter_miss,
     op_record_access = (\<lambda>_ _ s. s), op_reserve_job = (\<lambda>_ _ _ _ _ s. (Won, s)),
     op_record_job_outcome = (\<lambda>_ _ _ _ _ s. s), op_register_tenant = (\<lambda>_ s. (Ok (), s))\<rparr>"

definition memory_secret_ops :: "memory_store secret_ops" where
  "memory_secret_ops = \<lparr>op_current_capability_secret = (\<lambda>fresh _. ms_current_capability_secret fresh),
     op_capability_secret = ms_capability_secret_for\<rparr>"

subsection \<open>The partition discipline\<close>

definition part_inv :: "inner \<Rightarrow> bool" where
  "part_inv i \<longleftrightarrow> distinct (map fst (in_paths i)) \<and>
     (\<forall>p info. map_of (in_paths i) p = Some info \<longrightarrow> pi_path info = p) \<and>
     (\<forall>p. map_of (in_paths i) p = None \<longleftrightarrow> map_of (in_tiers i) p = None) \<and>
     (\<forall>p ob. map_of (in_remote i) p = Some ob \<longrightarrow> wf_object ob)"

definition ms_inv :: "memory_store \<Rightarrow> bool" where
  "ms_inv s \<longleftrightarrow> distinct (map fst (ms_inner s)) \<and> (\<forall>t. part_inv (ms_read s t))"

lemma part_inv_default [simp]: "part_inv inner_default"
  by (simp add: part_inv_def inner_default_def)

lemma ms_new_inv: "ms_inv ms_new"
  by (simp add: ms_inv_def ms_new_def ms_read_def)

lemma ms_read_write: "ms_read (ms_write s t f) t' = (if t' = t then f (ms_read s t) else ms_read s t')"
  by (simp add: ms_read_def ms_write_def update_conv')

lemma ms_read_objects [simp]: "ms_read (s\<lparr>ms_objects := x\<rparr>) t = ms_read s t"
  by (simp add: ms_read_def)

lemma ms_write_inv: "ms_inv s \<Longrightarrow> (part_inv (ms_read s t) \<Longrightarrow> part_inv (f (ms_read s t))) \<Longrightarrow> ms_inv (ms_write s t f)"
  by (auto simp: ms_inv_def ms_read_write) (simp add: ms_write_def distinct_update)

lemma first_some_Some: "first_some f xs = Some y \<Longrightarrow> \<exists>x \<in> set xs. f x = Some y"
  by (induction xs) (auto split: option.splits)

lemma ms_partition_read:
  "ms_inv s \<Longrightarrow> i \<in> set (map snd (ms_inner s)) \<Longrightarrow> \<exists>t. ms_read s t = i"
proof -
  assume inv: "ms_inv s" and "i \<in> set (map snd (ms_inner s))"
  then obtain t where "(t, i) \<in> set (ms_inner s)" by auto
  then have "map_of (ms_inner s) t = Some i" using inv by (simp add: ms_inv_def)
  then show ?thesis by (auto simp: ms_read_def intro!: exI [of _ t])
qed

lemma find_in_partition_Some:
  assumes "find_in_partition ti h i = Some (info, obj)" and "part_inv i"
  shows "map_of (in_paths i) (pi_path info) = Some info \<and> map_of (in_tiers i) (pi_path info) = Some ti \<and>
    map_of (in_remote i) (pi_path info) = Some obj \<and> hash_part (pi_path info) = Some h"
proof -
  obtain p where p: "find (\<lambda>(p, _). hash_part p = Some h) (in_paths i) = Some (p, info)"
      "map_of (in_tiers i) p = Some ti" "map_of (in_remote i) p = Some obj"
    using assms(1) by (auto simp: find_in_partition_def Option.bind_eq_Some_conv split: if_splits)
  have "(p, info) \<in> set (in_paths i)" and h: "hash_part p = Some h"
    using find_Some_mem [OF p(1)] by auto
  then have "map_of (in_paths i) p = Some info" using assms(2) by (simp add: part_inv_def)
  moreover have "pi_path info = p" using calculation assms(2) by (simp add: part_inv_def)
  ultimately show ?thesis using p h by simp
qed

lemmas ms_simps = ms_is_valid_path_def ms_query_path_info_def ms_tier_def ms_output_object_def ms_read_write

lemma ms_record_inv: "ms_inv s \<Longrightarrow> wf_object obj \<Longrightarrow> ms_inv (snd (ms_record_path t info obj ti s))"
proof -
  assume ob: "wf_object obj" and "ms_inv s"
  from this(2) have "ms_inv (s\<lparr>ms_objects := or_insert (ro_key obj) obj (ms_objects s)\<rparr>)"
    by (simp add: ms_inv_def)
  then show ?thesis
    unfolding ms_record_path_def Let_def snd_conv
    by (rule ms_write_inv) (use ob in \<open>auto simp: part_inv_def distinct_update update_conv' split: if_splits\<close>)
qed

lemma ms_signer_frame: "ms_signer t seed s = (r, s') \<Longrightarrow>
   in_paths (ms_read s' t') = in_paths (ms_read s t') \<and> in_tiers (ms_read s' t') = in_tiers (ms_read s t')"
  by (auto simp: ms_signer_def ms_read_write Let_def split: option.splits)

lemma ms_signer_inv: "ms_inv s \<Longrightarrow> ms_inv (snd (ms_signer t seed s))"
  by (auto simp: ms_signer_def Let_def part_inv_def split: option.splits intro!: ms_write_inv)

interpretation memory: path_store memory_ops ms_inv
proof
  fix s t info obj ti s' t' p r and u :: unit and seed sg h
  assume inv: "ms_inv s"
  { assume "wf_object obj"
    then show "ms_inv (snd (op_record_path memory_ops t info obj ti s))"
      using ms_record_inv inv by (simp add: memory_ops_def) }
  show "op_is_valid_path memory_ops t p s \<longleftrightarrow> op_query_path_info memory_ops t p s \<noteq> None"
    by (simp add: memory_ops_def ms_simps)
  show "op_is_valid_path memory_ops t p s \<longleftrightarrow> op_tier memory_ops t p s \<noteq> None"
    using inv by (simp add: memory_ops_def ms_simps ms_inv_def part_inv_def)
  show "ms_inv (snd (op_signer memory_ops t seed s))"
    using ms_signer_inv inv by (simp add: memory_ops_def)
  { assume "op_record_path memory_ops t info obj ti s = (Ok u, s')"
    then show "op_query_path_info memory_ops t (pi_path info) s' = Some info \<and>
        op_tier memory_ops t (pi_path info) s' = Some ti \<and>
        map_option ro_key (op_output_object memory_ops t (pi_path info) s') = Some (ro_key obj)"
      by (auto simp: memory_ops_def ms_record_path_def Let_def ms_simps update_conv') }
  { assume "op_record_path memory_ops t info obj ti s = (r, s')" "(t', p) \<noteq> (t, pi_path info) \<or> r \<noteq> Ok ()"
    then show "op_query_path_info memory_ops t' p s' = op_query_path_info memory_ops t' p s \<and>
        op_tier memory_ops t' p s' = op_tier memory_ops t' p s"
      by (auto simp: memory_ops_def ms_record_path_def Let_def ms_simps update_conv') }
  { assume "op_query_path_info memory_ops t p s = Some info"
    then show "pi_path info = p"
      using inv by (auto simp: memory_ops_def ms_simps ms_inv_def part_inv_def) }
  { assume "op_query_path_from_hash_part memory_ops t h s = Some p"
    then show "op_is_valid_path memory_ops t p s"
      by (auto simp: memory_ops_def ms_simps ms_query_path_from_hash_part_def map_of_eq_None_iff
          dest!: find_Some_mem) }
  { assume "op_find_verified_by_hash_part memory_ops h s = Some (info, obj)"
    then obtain i where "i \<in> set (map snd (ms_inner s))" and f: "find_in_partition Verified h i = Some (info, obj)"
      using first_some_Some by (fastforce simp: memory_ops_def ms_find_verified_by_hash_part_def)
    then obtain t where t: "ms_read s t = i" using ms_partition_read inv by blast
    then have pi: "part_inv i" using inv by (auto simp: ms_inv_def)
    note found = find_in_partition_Some [OF f pi]
    then have "wf_object obj" using pi unfolding part_inv_def by blast
    with found t show "\<exists>t. op_tier memory_ops t (pi_path info) s = Some Verified \<and>
        op_query_path_info memory_ops t (pi_path info) s = Some info \<and> wf_object obj"
      by (intro exI [of _ t]) (simp add: memory_ops_def ms_simps) }
  { assume "op_signer memory_ops t seed s = (sg, s')"
    then show "op_query_path_info memory_ops t' p s' = op_query_path_info memory_ops t' p s \<and>
        op_tier memory_ops t' p s' = op_tier memory_ops t' p s"
      using ms_signer_frame by (fastforce simp: memory_ops_def ms_simps) }
qed

definition ms_secret_inv :: "memory_store \<Rightarrow> bool" where
  "ms_secret_inv s \<longleftrightarrow> (case ms_capability_secret s of None \<Rightarrow> True | Some x \<Rightarrow> length x = 32)"

interpretation memory_objects: object_catalog memory_ops ms_inv
proof
  fix s t info obj ti s' k seed sg and u :: unit
  { assume "op_record_path memory_ops t info obj ti s = (Ok u, s')"
    then show "op_output_object memory_ops t (pi_path info) s' = Some obj" "op_object_known memory_ops (ro_key obj) s'"
      "map_option ro_key (op_output_object memory_ops t (pi_path info) s') = Some (ro_key obj)"
      by (auto simp: memory_ops_def ms_record_path_def Let_def ms_output_object_def ms_read_def ms_write_def
          update_conv' ms_object_known_def or_insert_def) }
  { assume "op_signer memory_ops t seed s = (sg, s')"
    then show "op_object_known memory_ops k s' = op_object_known memory_ops k s"
      by (auto simp: memory_ops_def ms_signer_def ms_object_known_def ms_write_def Let_def split: option.splits) }
qed

interpretation memory_secrets: secret_store memory_secret_ops ms_secret_inv
  by unfold_locales
    (auto simp: memory_secret_ops_def ms_secret_inv_def ms_current_capability_secret_def
      ms_capability_secret_for_def split: option.splits if_splits)

end
