(* ===== verification/Daemon.thy ===== *)
theory Daemon
  imports Substitute CapnpExt Derivation PostgresActor MemoryStore
begin

text \<open>
  One client connection of the daemon protocol (\<open>daemon_rpc.rs\<close>, \<open>tenant_view.rs\<close>,
  \<open>JobQueue::dispatch\<close> of \<open>capnp_ext.rs\<close>): the fixed fields of \<open>LegacyProtocolImpl\<close> and
  what it calls outside the crate are the record \<open>daemon\<close>; what changes is the record
  \<open>conn\<close>, the store, the stored objects, the staged inputs and the client's options.
  \<open>TenantView\<close> is the partial application of a store operation to \<open>dm_tenant\<close>.

  Parameters of the record stand for the network, the decoders, the compressor, the job queue,
  SHA-256, Ed25519, JWT, the random bytes and the clock-derived job id of one request. While a
  job is awaited the store and the objects may change; that change is part of the queue's answer.
\<close>

subsection \<open>State\<close>

record 's queue =
  q_results_retention :: nat
  q_subscribe_logs :: "uuid \<Rightarrow> (string, unit) res"
  q_result_consumer :: "uuid \<Rightarrow> (report, unit) res"
  q_submit :: "build_job \<Rightarrow> (report, unit) res"
  q_watch :: "uuid \<Rightarrow> store_path \<Rightarrow> string option \<Rightarrow> 's \<times> objects \<Rightarrow> (report, job_outcome) res \<times> 's \<times> objects"

record 's daemon =
  dm_ops :: "'s store_ops"
  dm_secrets :: "'s secret_ops"
  dm_queue :: "'s queue option"
  dm_system :: system_triple
  dm_has_uploader :: bool
  dm_tenant :: tenant_id
  dm_store_dir :: string
  dm_web :: web
  dm_read_all :: "compression \<Rightarrow> bytes \<Rightarrow> bytes list \<times> bool"
  dm_zstd :: "bytes \<Rightarrow> bytes option"
  dm_sha :: "bytes \<Rightarrow> bytes"
  dm_crypto :: crypto
  dm_jwt :: jwt
  dm_seed :: bytes
  dm_fresh_secret :: bytes
  dm_salt :: u32
  dm_job_id :: uuid
  dm_http_host :: "string option"

record 's conn =
  cs_store :: 's
  cs_objects :: objects
  cs_staged :: "input_ref list"
  cs_options :: client_options

definition client_options_default :: client_options where
  "client_options_default = \<lparr>co_verbosity = 0, co_use_substitutes = False, co_overrides = []\<rparr>"

definition rpc_init :: "'s daemon \<Rightarrow> tenant \<Rightarrow> 's \<Rightarrow> objects \<Rightarrow> 's daemon \<times> 's conn" where
  "rpc_init d tn s objs =
     (d\<lparr>dm_tenant := t_id tn\<rparr>,
      \<lparr>cs_store = snd (op_register_tenant (dm_ops d) tn s), cs_objects = objs, cs_staged = [],
       cs_options = client_options_default\<rparr>)"

subsection \<open>Signing\<close>

definition sign_if_vouchable :: "'s daemon \<Rightarrow> path_info \<Rightarrow> tier \<Rightarrow> 's \<Rightarrow> path_info \<times> 's" where
  "sign_if_vouchable d info ti s =
     (if \<not> is_vouchable ti then (info, s)
      else case op_signer (dm_ops d) (dm_tenant d) (dm_seed d) s of
             (None, s) \<Rightarrow> (info, s)
           | (Some signer, s) \<Rightarrow>
               (case sign_path (dm_crypto d) signer
                       \<lparr>fp_path = to_full (dm_store_dir d) (pi_path info), fp_nar_hash = h_bytes (pi_nar_hash info),
                        fp_nar_size = pi_nar_size info, fp_references = pi_references info,
                        fp_store_dir = dm_store_dir d\<rparr> of
                  Ok signature \<Rightarrow>
                    (if signature \<in> set (pi_sigs info) then info else info\<lparr>pi_sigs := pi_sigs info @ [signature]\<rparr>, s)
                | _ \<Rightarrow> (info, s)))"

subsection \<open>Looking beyond the tenant's own rows\<close>

definition resolve_verified :: "'s daemon \<Rightarrow> string \<Rightarrow> 's \<Rightarrow> store_path option \<times> 's" where
  "resolve_verified d hp s =
     (case op_query_path_from_hash_part (dm_ops d) (dm_tenant d) hp s of
        Some path \<Rightarrow> (Some path, s)
      | None \<Rightarrow>
          (case op_find_verified_by_hash_part (dm_ops d) hp s of
             None \<Rightarrow> (None, s)
           | Some (info, object) \<Rightarrow>
               let path = pi_path info;
                   (info, s) = sign_if_vouchable d (info\<lparr>pi_sigs := []\<rparr>) Verified s
               in case op_record_path (dm_ops d) (dm_tenant d) info object Verified s of
                    (Ok _, s) \<Rightarrow> (Some path, s)
                  | (_, s) \<Rightarrow> (None, s)))"

definition is_valid_path_anywhere :: "'s daemon \<Rightarrow> store_path \<Rightarrow> 's \<Rightarrow> bool \<times> 's" where
  "is_valid_path_anywhere d path s =
     (if op_is_valid_path (dm_ops d) (dm_tenant d) path s then (True, s)
      else case hash_part path of
             None \<Rightarrow> (False, s)
           | Some hp \<Rightarrow>
               let (found, s) = resolve_verified d hp s
               in if found = Some path then (True, s) else sub_exists (dm_ops d) (dm_web d) (dm_tenant d) hp s)"

definition resolve_substituted :: "'s daemon \<Rightarrow> string \<Rightarrow> 's \<times> objects \<Rightarrow> store_path option \<times> 's \<times> objects" where
  "resolve_substituted d hp st =
     (if \<not> dm_has_uploader d then (None, st)
      else let (hit, st) = resolve (dm_ops d) (dm_web d) (dm_sha d) (dm_tenant d) hp (dm_store_dir d) st
           in (map_option (\<lambda>(info, _). pi_path info) hit, st))"

text \<open>The two passes of \<open>all_outputs_available\<close>: what is missing, if an upstream has all of it, and the fetches.\<close>

fun missing_hash_parts :: "'s daemon \<Rightarrow> (string \<times> store_path) list \<Rightarrow> 's \<Rightarrow> string list option \<times> 's" where
  "missing_hash_parts d [] s = (Some [], s)"
| "missing_hash_parts d ((_, path) # rest) s =
     (if op_is_valid_path (dm_ops d) (dm_tenant d) path s then missing_hash_parts d rest s
      else case hash_part path of
             None \<Rightarrow> (None, s)
           | Some hp \<Rightarrow>
               (case sub_exists (dm_ops d) (dm_web d) (dm_tenant d) hp s of
                  (False, s) \<Rightarrow> (None, s)
                | (True, s) \<Rightarrow>
                    let (hps, s) = missing_hash_parts d rest s in (map_option (\<lambda>hps. hp # hps) hps, s)))"

fun resolve_all :: "'s daemon \<Rightarrow> string list \<Rightarrow> 's \<times> objects \<Rightarrow> bool \<times> 's \<times> objects" where
  "resolve_all d [] st = (True, st)"
| "resolve_all d (hp # hps) st =
     (case resolve_substituted d hp st of
        (None, st) \<Rightarrow> (False, st)
      | (Some _, st) \<Rightarrow> resolve_all d hps st)"

definition all_outputs_available ::
  "'s daemon \<Rightarrow> client_options \<Rightarrow> (string \<times> store_path) list \<Rightarrow> 's \<times> objects \<Rightarrow> bool \<times> 's \<times> objects" where
  "all_outputs_available d opts expected st =
     (if \<not> co_use_substitutes opts then (False, st)
      else case missing_hash_parts d expected (fst st) of
             (None, s) \<Rightarrow> (False, s, snd st)
           | (Some hps, s) \<Rightarrow> resolve_all d hps (s, snd st))"

text \<open>The horizontal ellipsis of the message, in UTF-8.\<close>

definition ellipsis :: string where
  "ellipsis = [CHR 0xE2, CHR 0x80, CHR 0xA6]"

definition realise :: "'s daemon \<Rightarrow> store_path \<Rightarrow> bool \<Rightarrow> 's \<Rightarrow> (rpc_error, unit) res \<times> 's" where
  "realise d path built s =
     (if built then
        (Err (RpcFailed (''kubernix: cannot realise the derivation '' @ sp_str path)
           [''the kubernix frontend builds resolved derivations, not derivation graphs'',
            ''use it as a remote builder (--builders '' @ [CHR 0x27] @ ''kubernix://'' @ ellipsis @ [CHR 0x27] @
            '') rather than as a store (--store kubernix://'' @ ellipsis @ '')'']), s)
      else
        let (valid, s) = is_valid_path_anywhere d path s
        in if valid then (Ok (), s)
           else (Err (rpc_failed (''kubernix: path not in store and cannot be substituted: '' @ sp_str path)), s))"

subsection \<open>Queries\<close>

text \<open>
  A handler takes the arguments as they arrive on the wire and answers with wire values. All
  of them go through \<open>to_store_path\<close> first, so a path under another store directory is refused
  before the store is asked anything.
\<close>

definition with_path ::
  "'s daemon \<Rightarrow> bytes \<Rightarrow> (store_path \<Rightarrow> 's conn \<Rightarrow> (rpc_error, 'a) res \<times> 's conn) \<Rightarrow> 's conn \<Rightarrow> (rpc_error, 'a) res \<times> 's conn" where
  "with_path d raw f c =
     (case to_store_path (dm_store_dir d) raw of Ok p \<Rightarrow> f p c | Err e \<Rightarrow> (Err e, c) | Panic \<Rightarrow> (Panic, c))"

definition on_store :: "('s \<Rightarrow> 'a \<times> 's) \<Rightarrow> 's conn \<Rightarrow> 'a \<times> 's conn" where
  "on_store f c = (let (r, s) = f (cs_store c) in (r, c\<lparr>cs_store := s\<rparr>))"

definition on_objects :: "('s \<times> objects \<Rightarrow> 'a \<times> 's \<times> objects) \<Rightarrow> 's conn \<Rightarrow> 'a \<times> 's conn" where
  "on_objects f c = (let (r, s, objs) = f (cs_store c, cs_objects c) in (r, c\<lparr>cs_store := s, cs_objects := objs\<rparr>))"

definition set_options :: "nat \<Rightarrow> (bytes \<times> bytes) list \<Rightarrow> 's conn \<Rightarrow> 's conn" where
  "set_options verbosity settings c =
     (let overrides = map (\<lambda>(n, v). (from_utf8_lossy n, from_utf8_lossy v)) settings
      in c\<lparr>cs_options := \<lparr>co_verbosity = verbosity,
              co_use_substitutes = (''substitute'', ''false'') \<notin> set overrides, co_overrides = overrides\<rparr>\<rparr>)"

definition rpc_is_valid_path :: "'s daemon \<Rightarrow> bytes \<Rightarrow> 's conn \<Rightarrow> (rpc_error, bool) res \<times> 's conn" where
  "rpc_is_valid_path d raw = with_path d raw (\<lambda>path c.
     let (valid, c) = on_store (is_valid_path_anywhere d path) c in (Ok valid, c))"

fun add_shared :: "'s daemon \<Rightarrow> store_path list \<Rightarrow> store_path list \<Rightarrow> 's \<Rightarrow> store_path list \<times> 's" where
  "add_shared d valid [] s = (valid, s)"
| "add_shared d valid (path # rest) s =
     (if path \<in> set valid then add_shared d valid rest s
      else case hash_part path of
             None \<Rightarrow> add_shared d valid rest s
           | Some hp \<Rightarrow>
               let (found, s) = resolve_verified d hp s
               in add_shared d (if found = Some path then valid @ [path] else valid) rest s)"

definition rpc_query_valid_paths :: "'s daemon \<Rightarrow> bytes list \<Rightarrow> 's conn \<Rightarrow> (rpc_error, bytes list) res \<times> 's conn" where
  "rpc_query_valid_paths d raws c =
     (case to_store_paths (dm_store_dir d) raws of
        Ok paths \<Rightarrow>
          let (valid, c) = on_store (\<lambda>s. add_shared d (op_query_valid_paths (dm_ops d) (dm_tenant d) paths s) paths s) c
          in (Ok (write_store_paths (dm_store_dir d) valid), c)
      | Err e \<Rightarrow> (Err e, c)
      | Panic \<Rightarrow> (Panic, c))"

definition rpc_query_all_valid_paths :: "'s daemon \<Rightarrow> 's conn \<Rightarrow> bytes list" where
  "rpc_query_all_valid_paths d c =
     write_store_paths (dm_store_dir d) (op_query_all_valid_paths (dm_ops d) (dm_tenant d) (cs_store c))"

definition path_info_fallback :: "'s daemon \<Rightarrow> store_path \<Rightarrow> 's \<times> objects \<Rightarrow> path_info option \<times> 's \<times> objects" where
  "path_info_fallback d path st =
     (let look = (\<lambda>(s, objs). op_query_path_info (dm_ops d) (dm_tenant d) path s)
      in case (look st, hash_part path) of
           (None, Some hp) \<Rightarrow>
             (let (found, s) = resolve_verified d hp (fst st); st = (s, snd st);
                  info = (if found = None then None else look st)
              in if info \<noteq> None then (info, st)
                 else let (found, st) = resolve_substituted d hp st
                      in (if found = None then None else look st, st))
         | (info, _) \<Rightarrow> (info, st))"

definition rpc_query_path_info :: "'s daemon \<Rightarrow> bytes \<Rightarrow> 's conn \<Rightarrow> (rpc_error, wire_path_info option) res \<times> 's conn" where
  "rpc_query_path_info d raw = with_path d raw (\<lambda>path c.
     case on_objects (path_info_fallback d path) c of
       (Some info, c) \<Rightarrow>
         (Ok (Some (write_path_info (dm_store_dir d) info)),
          c\<lparr>cs_store := op_record_access (dm_ops d) (dm_tenant d) path (cs_store c)\<rparr>)
     | (None, c) \<Rightarrow> (Ok None, c))"

definition rpc_query_path_from_hash_part :: "'s daemon \<Rightarrow> bytes \<Rightarrow> 's conn \<Rightarrow> (rpc_error, bytes option) res \<times> 's conn" where
  "rpc_query_path_from_hash_part d raw c =
     (let (found, c) = on_store (resolve_verified d (from_utf8_lossy raw)) c
      in (Ok (map_option (write_store_path (dm_store_dir d)) found), c))"

definition rpc_query_referrers :: "'s daemon \<Rightarrow> bytes \<Rightarrow> 's conn \<Rightarrow> (rpc_error, bytes list) res \<times> 's conn" where
  "rpc_query_referrers d raw = with_path d raw (\<lambda>path c.
     (Ok (write_store_paths (dm_store_dir d) (op_query_referrers (dm_ops d) (dm_tenant d) path (cs_store c))), c))"

text \<open>The trait's default answer is empty and neither store overrides it.\<close>

definition rpc_query_substitutable_paths :: "'s daemon \<Rightarrow> bytes list \<Rightarrow> (rpc_error, bytes list) res" where
  "rpc_query_substitutable_paths d raws =
     bind_res (to_store_paths (dm_store_dir d) raws) (\<lambda>paths. Ok (write_store_paths (dm_store_dir d) []))"

fun reclassify :: "'s daemon \<Rightarrow> store_path list \<Rightarrow> 's \<Rightarrow> (store_path list \<times> store_path list) \<times> 's" where
  "reclassify d [] s = (([], []), s)"
| "reclassify d (target # rest) s =
     (let (found, s) = (case hash_part target of
              None \<Rightarrow> (False, s)
            | Some hp \<Rightarrow> sub_exists (dm_ops d) (dm_web d) (dm_tenant d) hp s);
          ((build, subst), s) = reclassify d rest s
      in (if found then (build, target # subst) else (target # build, subst), s))"

definition target_path :: "string \<Rightarrow> derived_path \<Rightarrow> (rpc_error, store_path) res" where
  "target_path store_dir t = bind_res (resolve_target store_dir t) (\<lambda>(p, _). Ok p)"

definition rpc_query_missing :: "'s daemon \<Rightarrow> derived_path list \<Rightarrow> 's conn \<Rightarrow> (rpc_error, missing_paths) res \<times> 's conn" where
  "rpc_query_missing d targets c =
     (case collect_res (map (target_path (dm_store_dir d)) targets) of
        Ok targets \<Rightarrow>
          let missing = op_query_missing (dm_ops d) (dm_tenant d) targets (cs_store c);
              ((build, subst), c) = on_store (reclassify d (will_build missing)) c
          in (Ok (missing\<lparr>will_build := build, will_substitute := will_substitute missing @ subst\<rparr>), c)
      | Err e \<Rightarrow> (Err e, c)
      | Panic \<Rightarrow> (Panic, c))"

definition rpc_add_signatures :: "'s daemon \<Rightarrow> bytes \<Rightarrow> bytes list \<Rightarrow> 's conn \<Rightarrow> (rpc_error, unit) res \<times> 's conn" where
  "rpc_add_signatures d raw sigs = with_path d raw (\<lambda>path c.
     let (r, c) = on_store (op_add_signatures (dm_ops d) (dm_tenant d) path (map from_utf8_lossy sigs)) c
     in (map_err from_store_error r, c))"

fun build_paths :: "'s daemon \<Rightarrow> derived_path list \<Rightarrow> 's conn \<Rightarrow> (rpc_error, store_path list) res \<times> 's conn" where
  "build_paths d [] c = (Ok [], c)"
| "build_paths d (t # ts) c =
     (case resolve_target (dm_store_dir d) t of
        Ok (path, built) \<Rightarrow>
          (case on_store (realise d path built) c of
             (Ok _, c) \<Rightarrow> (let (r, c) = build_paths d ts c in (bind_res r (\<lambda>ps. Ok (path # ps)), c))
           | (Err e, c) \<Rightarrow> (Err e, c)
           | (Panic, c) \<Rightarrow> (Panic, c))
      | Err e \<Rightarrow> (Err e, c)
      | Panic \<Rightarrow> (Panic, c))"

subsection \<open>Serving bytes\<close>

text \<open>
  The reader of an object hands out chunks and may fail after some of them; the client's stream
  may refuse a chunk, given what it has taken so far. An empty read is the end.
\<close>

fun send_chunks ::
  "(bytes list \<Rightarrow> (rpc_error, unit) res) \<Rightarrow> bool \<Rightarrow> bytes list \<Rightarrow> bytes list \<Rightarrow> (rpc_error, unit) res \<times> bytes list" where
  "send_chunks into clean sent [] =
     (if clean then Ok () else Err (report_error [] ''decompressing a store path''), sent)"
| "send_chunks into clean sent (chunk # rest) =
     (if chunk = [] then (Ok (), sent)
      else case into (sent @ [chunk]) of
             Ok _ \<Rightarrow> send_chunks into clean (sent @ [chunk]) rest
           | Err e \<Rightarrow> (Err e, sent @ [chunk])
           | Panic \<Rightarrow> (Panic, sent @ [chunk]))"

definition nar_from_path ::
  "'s daemon \<Rightarrow> bytes \<Rightarrow> (bytes list \<Rightarrow> (rpc_error, unit) res) \<Rightarrow> 's conn \<Rightarrow> (rpc_error, bytes list) res \<times> 's conn" where
  "nar_from_path d raw into = with_path d raw (\<lambda>path c.
     case op_output_object (dm_ops d) (dm_tenant d) path (cs_store c) of
       None \<Rightarrow> (Err (from_store_error (NotFound (sp_str path))), c)
     | Some remote \<Rightarrow>
         let c = c\<lparr>cs_store := op_record_access (dm_ops d) (dm_tenant d) path (cs_store c)\<rparr>
         in if \<not> dm_has_uploader d
            then (Err (rpc_failed (''kubernix: '' @ sp_str path @ '' is in the object store but no S3 client is configured'')), c)
            else case cs_objects c (ro_key remote) of
                   None \<Rightarrow> (Err (report_error [OpaqueCause (''fetching '' @ key_str (ro_key remote))] ''fetching a store path''), c)
                 | Some object \<Rightarrow>
                     if ro_compression remote = Lzip
                     then (Err (rpc_failed (''kubernix: '' @ sp_str path @ '' is stored as lzip, which kubernix cannot decode'')), c)
                     else let (chunks, clean) = dm_read_all d (ro_compression remote) object;
                              (r, sent) = send_chunks into clean [] chunks
                          in (bind_res r (\<lambda>_. Ok sent), c))"

end
