(* ===== verification/Push.thy ===== *)
theory Push
  imports Daemon
begin

text \<open>
  Pushing a path: \<open>add_to_store_nar\<close> and the \<open>NarSink\<close> of \<open>daemon_rpc.rs\<close>. The sink
  collects the archive and \<open>finalize\<close> decides the tier, uploads the bytes, signs what the
  frontend vouches for and records the row. The lemmas show what a push can and cannot change,
  over any store that keeps the contract of \<open>object_catalog\<close>; the properties are their
  instances for the PostgreSQL store.
\<close>

subsection \<open>The sink\<close>

record nar_sink =
  ns_info :: path_info
  ns_ca :: "content_address option"
  ns_buffer :: bytes

definition add_to_store_nar :: "'s daemon \<Rightarrow> wire_path_info \<Rightarrow> (rpc_error, nar_sink) res" where
  "add_to_store_nar d w =
     bind_res (to_path_info (dm_store_dir d) w) (\<lambda>info.
     Ok \<lparr>ns_info = info, ns_ca = to_content_address w, ns_buffer = []\<rparr>)"

definition feed :: "bytes \<Rightarrow> nar_sink \<Rightarrow> nar_sink" where
  "feed raw k = k\<lparr>ns_buffer := ns_buffer k @ raw\<rparr>"

fun rejection_display :: "rejection \<Rightarrow> string" where
  "rejection_display (HashMismatch declared actual) =
     ''content hash mismatch: declared '' @ declared @ '', computed '' @ actual"
| "rejection_display (WrongPath claimed computed) = ''content belongs at '' @ computed @ '', not '' @ claimed"
| "rejection_display (Unverifiable why) = ''cannot verify: '' @ why"

definition refuse_push :: "path_info \<Rightarrow> string \<Rightarrow> string \<Rightarrow> rpc_error" where
  "refuse_push info why trace = RpcFailed (''kubernix: refusing '' @ sp_str (pi_path info) @ '': '' @ why) [trace]"

definition push_tier :: "'s daemon \<Rightarrow> nar_sink \<Rightarrow> 's \<Rightarrow> (rpc_error, tier) res" where
  "push_tier d k s =
     (case ns_ca k of
        Some ca \<Rightarrow>
          (case verify (dm_sha d) (dm_store_dir d) (pi_path (ns_info k)) ca (pi_references (ns_info k)) (ns_buffer k) of
             Ok _ \<Rightarrow> Ok Verified
           | Err rejection \<Rightarrow> Err (refuse_push (ns_info k) (rejection_display rejection)
               ''the frontend verifies content-addressed paths against their bytes'')
           | Panic \<Rightarrow> Panic)
      | None \<Rightarrow>
          if op_reject_unverified_pushes (dm_ops d) (dm_tenant d) s
          then Err (refuse_push (ns_info k) ''no content address, and this tenant rejects unverified pushes''
             (''the frontend can only verify content-addressed paths; this '' @
              ''tenant has not opted into accepting anything else''))
          else Ok Quarantined)"

definition staged_input :: "path_info \<Rightarrow> object_key \<Rightarrow> compression \<Rightarrow> input_ref" where
  "staged_input info key compression =
     \<lparr>in_store_path = pi_path info, in_key = key, in_references = pi_references info,
      in_deriver = (case pi_deriver info of None \<Rightarrow> StorePath [] | Some p \<Rightarrow> p),
      in_compression = compression, in_nar_hash = to_wire_string (pi_nar_hash info), in_nar_size = pi_nar_size info\<rparr>"

definition stage :: "input_ref \<Rightarrow> 's conn \<Rightarrow> 's conn" where
  "stage i c = c\<lparr>cs_staged := cs_staged c @ [i]\<rparr>"

definition put_object :: "web \<Rightarrow> object_key \<Rightarrow> bytes \<Rightarrow> objects \<Rightarrow> bool \<times> objects" where
  "put_object w key body objs = (if web_put w key then (True, objs(key \<mapsto> body)) else (False, objs))"

text \<open>From the settled tier on: compress, upload unless shared bytes are there, sign, record, stage.\<close>

definition store_push :: "'s daemon \<Rightarrow> path_info \<Rightarrow> bytes \<Rightarrow> tier \<Rightarrow> 's conn \<Rightarrow> (rpc_error, unit) res \<times> 's conn" where
  "store_push d given nar ti c =
     (if \<not> dm_has_uploader d
      then (Err (rpc_failed ''kubernix: no object store configured; cannot accept a path''), c)
      else case nar_key (dm_tenant d) ti (pi_path given) of
             None \<Rightarrow> (Err (rpc_failed (''kubernix: not a store path: '' @ sp_str (pi_path given))), c)
           | Some key \<Rightarrow>
               (case dm_zstd d nar of
                  None \<Rightarrow> (Err (report_error [] ''compressing a pushed path''), c)
                | Some compressed \<Rightarrow>
                    let object = \<lparr>ro_key = key, ro_file_size = of_nat (length compressed),
                                  ro_file_hash = dm_sha d compressed, ro_compression = Zstd\<rparr>;
                        already_there = (ti = Verified \<and> op_object_known (dm_ops d) key (cs_store c));
                        (uploaded, objs) = (if already_there then (True, cs_objects c)
                                            else put_object (dm_web d) key compressed (cs_objects c));
                        c = c\<lparr>cs_objects := objs\<rparr>
                    in if \<not> uploaded
                       then (Err (report_error [OpaqueCause (''uploading '' @ key_str key)] ''uploading a pushed path''), c)
                       else let (info, c) = on_store (sign_if_vouchable d given ti) c
                            in case on_store (op_record_path (dm_ops d) (dm_tenant d) info object ti) c of
                                 (Ok _, c) \<Rightarrow> (Ok (), stage (staged_input info key Zstd) c)
                               | (Err e, c) \<Rightarrow> (Err (from_store_error e), c)
                               | (Panic, c) \<Rightarrow> (Panic, c)))"

definition vouched :: "'s daemon \<Rightarrow> store_path \<Rightarrow> 's \<Rightarrow> bool" where
  "vouched d path s = (case op_tier (dm_ops d) (dm_tenant d) path s of None \<Rightarrow> False | Some ti \<Rightarrow> is_vouchable ti)"

definition finalize :: "'s daemon \<Rightarrow> nar_sink \<Rightarrow> 's conn \<Rightarrow> (rpc_error, unit) res \<times> nar_sink \<times> 's conn" where
  "finalize d k c =
     (let info = ns_info k; emptied = k\<lparr>ns_buffer := []\<rparr>
      in case push_tier d k (cs_store c) of
           Err e \<Rightarrow> (Err e, emptied, c)
         | Panic \<Rightarrow> (Panic, emptied, c)
         | Ok ti \<Rightarrow>
             if vouched d (pi_path info) (cs_store c) \<and> ti \<noteq> Verified
             then let (key, compression) =
                        (case op_output_object (dm_ops d) (dm_tenant d) (pi_path info) (cs_store c) of
                           Some ob \<Rightarrow> (ro_key ob, ro_compression ob) | None \<Rightarrow> (ObjectKey [], Zstd))
                  in (Ok (), emptied, stage (staged_input info key compression) c)
             else let (r, c) = store_push d info (ns_buffer k) ti c in (r, emptied, c))"

subsection \<open>What signing does\<close>

definition own_signature :: "'s daemon \<Rightarrow> path_info \<Rightarrow> 's \<Rightarrow> string option" where
  "own_signature d info s =
     (case fst (op_signer (dm_ops d) (dm_tenant d) (dm_seed d) s) of
        None \<Rightarrow> None
      | Some signer \<Rightarrow>
          (case sign_path (dm_crypto d) signer
                  \<lparr>fp_path = to_full (dm_store_dir d) (pi_path info), fp_nar_hash = h_bytes (pi_nar_hash info),
                   fp_nar_size = pi_nar_size info, fp_references = pi_references info,
                   fp_store_dir = dm_store_dir d\<rparr> of
             Ok sig \<Rightarrow> Some sig | _ \<Rightarrow> None))"

definition add_sig :: "string option \<Rightarrow> string list \<Rightarrow> string list" where
  "add_sig sig sigs = (case sig of None \<Rightarrow> sigs | Some x \<Rightarrow> if x \<in> set sigs then sigs else sigs @ [x])"

lemma sign_if_vouchable_fst:
  "fst (sign_if_vouchable d info ti s) =
     (if is_vouchable ti then info\<lparr>pi_sigs := add_sig (own_signature d info s) (pi_sigs info)\<rparr> else info)"
  by (auto simp: sign_if_vouchable_def own_signature_def add_sig_def split: option.splits res.splits prod.splits)

lemma sign_if_vouchable_snd:
  "snd (sign_if_vouchable d info ti s) =
     (if is_vouchable ti then snd (op_signer (dm_ops d) (dm_tenant d) (dm_seed d) s) else s)"
  by (auto simp: sign_if_vouchable_def split: option.splits res.splits prod.splits)

lemma sign_if_vouchable_path [simp]: "pi_path (fst (sign_if_vouchable d info ti s)) = pi_path info"
  by (simp add: sign_if_vouchable_fst)

lemma staged_input_sign [simp]: "staged_input (fst (sign_if_vouchable d info ti s)) key z = staged_input info key z"
  by (simp add: staged_input_def sign_if_vouchable_fst)

lemma on_store_fst_snd: "on_store f c = (fst (f (cs_store c)), c\<lparr>cs_store := snd (f (cs_store c))\<rparr>)"
  by (simp add: on_store_def Let_def split_beta)

lemma stage_simps [simp]:
  "cs_store (stage i c) = cs_store c" "cs_objects (stage i c) = cs_objects c" "cs_staged (stage i c) = cs_staged c @ [i]"
  by (simp_all add: stage_def)

subsection \<open>What a push changes, over any store\<close>

text \<open>The object a push is recorded with, and the two ways \<open>store_push\<close> ends.\<close>

definition push_object :: "'s daemon \<Rightarrow> object_key \<Rightarrow> bytes \<Rightarrow> remote_object" where
  "push_object d key compressed =
     \<lparr>ro_key = key, ro_file_size = of_nat (length compressed), ro_file_hash = dm_sha d compressed, ro_compression = Zstd\<rparr>"

lemma store_push_cases:
  assumes "store_push d given nar ti c = (r, c')"
  obtains (refused) e where "r = Err e" "c' = c"
  | (recorded) key compressed rr where
      "dm_has_uploader d" "nar_key (dm_tenant d) ti (pi_path given) = Some key" "dm_zstd d nar = Some compressed"
      "if ti = Verified \<and> op_object_known (dm_ops d) key (cs_store c) then cs_objects c' = cs_objects c
       else web_put (dm_web d) key \<and> cs_objects c' = (cs_objects c)(key \<mapsto> compressed)"
      "op_record_path (dm_ops d) (dm_tenant d) (fst (sign_if_vouchable d given ti (cs_store c))) (push_object d key compressed) ti
         (snd (sign_if_vouchable d given ti (cs_store c))) = (rr, cs_store c')"
      "r = map_err from_store_error rr"
      "cs_staged c' = (if r = Ok () then cs_staged c @ [staged_input given key Zstd] else cs_staged c)"
proof (cases "\<exists>e. r = Err e \<and> c' = c")
  case False
  obtain key where u: "dm_has_uploader d" and key: "nar_key (dm_tenant d) ti (pi_path given) = Some key"
    using assms False by (auto simp: store_push_def split: if_splits option.splits)
  obtain compressed where z: "dm_zstd d nar = Some compressed"
    using assms False u key by (auto simp: store_push_def split: option.splits)
  let ?s1 = "snd (sign_if_vouchable d given ti (cs_store c))"
  let ?info = "fst (sign_if_vouchable d given ti (cs_store c))"
  obtain rr s' where rr: "op_record_path (dm_ops d) (dm_tenant d) ?info (push_object d key compressed) ti ?s1 = (rr, s')"
    by fastforce
  have put: "ti = Verified \<and> op_object_known (dm_ops d) key (cs_store c) \<or> web_put (dm_web d) key"
    using assms False u key z by (auto simp: store_push_def Let_def put_object_def split: if_splits)
  show thesis
    by (rule recorded [OF u key z, where rr = rr])
      (use assms rr put in \<open>auto simp: store_push_def u key z Let_def put_object_def on_store_fst_snd
         push_object_def [symmetric] split: if_splits res.splits\<close>)
qed (use refused in auto)

context object_catalog
begin

lemma sign_inv: "dm_ops d = ops \<Longrightarrow> inv s \<Longrightarrow> inv (snd (sign_if_vouchable d info ti s))"
  by (simp add: sign_if_vouchable_snd signer_inv)

lemma sign_frame:
  assumes "dm_ops d = ops" and "inv s"
  shows "op_query_path_info ops t' p (snd (sign_if_vouchable d info ti s)) = op_query_path_info ops t' p s"
    and "op_tier ops t' p (snd (sign_if_vouchable d info ti s)) = op_tier ops t' p s"
    and "op_object_known ops k (snd (sign_if_vouchable d info ti s)) = op_object_known ops k s"
  using signer_frame [OF assms(2) prod.collapse [symmetric]] signer_objects [OF assms(2) prod.collapse [symmetric]] assms(1)
  by (simp_all add: sign_if_vouchable_snd)

lemma store_push_inv:
  assumes "dm_ops d = ops" and "inv (cs_store c)" and "\<And>x. length (dm_sha d x) = 32"
    and "store_push d given nar ti c = (r, c')"
  shows "inv (cs_store c')"
  using assms(4)
proof (cases rule: store_push_cases)
  case (recorded key compressed rr)
  then show ?thesis
    using record_inv [OF sign_inv [OF assms(1,2)], of "push_object d key compressed"] assms(1,3)
    by (simp add: wf_object_def push_object_def) (metis snd_conv)
qed (use assms in simp)

lemma store_push_frame:
  assumes "dm_ops d = ops" and "inv (cs_store c)" and "store_push d given nar ti c = (r, c')"
    and "(t', p) \<noteq> (dm_tenant d, pi_path given) \<or> r \<noteq> Ok ()"
  shows "op_query_path_info ops t' p (cs_store c') = op_query_path_info ops t' p (cs_store c) \<and>
         op_tier ops t' p (cs_store c') = op_tier ops t' p (cs_store c)"
  using assms(3)
proof (cases rule: store_push_cases)
  case (recorded key compressed rr)
  have "(t', p) \<noteq> (dm_tenant d, pi_path given) \<or> rr \<noteq> Ok ()" using assms(4) recorded(6) by auto
  then show ?thesis
    using record_frame [OF sign_inv [OF assms(1,2)], of "dm_tenant d" _ "push_object d key compressed" ti] recorded(5)
      sign_frame [OF assms(1,2)] assms(1) sign_if_vouchable_path by metis
qed simp

lemma store_push_Ok:
  assumes "dm_ops d = ops" and "inv (cs_store c)" and "\<And>x. length (dm_sha d x) = 32"
    and "store_push d given nar ti c = (Ok u, c')"
  shows "op_query_path_info ops (dm_tenant d) (pi_path given) (cs_store c') = Some (fst (sign_if_vouchable d given ti (cs_store c))) \<and>
         op_tier ops (dm_tenant d) (pi_path given) (cs_store c') = Some ti"
  using assms(4)
proof (cases rule: store_push_cases)
  case (recorded key compressed rr)
  then have "rr = Ok ()" by (cases rr) simp_all
  moreover have "wf_object (push_object d key compressed)" by (simp add: wf_object_def push_object_def assms(3))
  ultimately show ?thesis
    using record_query [OF sign_inv [OF assms(1,2)]] recorded(5) assms(1) by (metis sign_if_vouchable_path)
qed simp

end

subsection \<open>What \<open>finalize\<close> does\<close>

lemma push_tier_Ok: "push_tier d k s = Ok ti \<Longrightarrow> ti = (if ns_ca k = None then Quarantined else Verified)"
  by (auto simp: push_tier_def split: option.splits res.splits if_splits)

lemma finalize_cases:
  assumes "finalize d k c = (r, k', c')"
  obtains (refused) "r \<noteq> Ok ()" "c' = c"
  | (kept) i where "ns_ca k = None" "vouched d (pi_path (ns_info k)) (cs_store c)" "r = Ok ()" "c' = stage i c"
  | (stored) ti where "push_tier d k (cs_store c) = Ok ti" "ti = (if ns_ca k = None then Quarantined else Verified)"
      "ns_ca k = None \<longrightarrow> \<not> vouched d (pi_path (ns_info k)) (cs_store c)"
      "store_push d (ns_info k) (ns_buffer k) ti c = (r, c')"
proof (cases "push_tier d k (cs_store c)")
  case (Ok ti)
  note ti = push_tier_Ok [OF Ok]
  show thesis
  proof (cases "vouched d (pi_path (ns_info k)) (cs_store c) \<and> ti \<noteq> Verified")
    case True
    then have "ns_ca k = None" using ti by (auto split: if_splits)
    moreover have "\<exists>i. r = Ok () \<and> c' = stage i c"
      using assms True by (auto simp: finalize_def Ok Let_def split: option.splits)
    ultimately show thesis using True kept by blast
  next
    case False
    then show thesis
      using assms ti Ok by (intro stored [OF Ok ti]) (auto simp: finalize_def Let_def split: prod.splits if_splits)
  qed
next
  case (Err e)
  then show thesis using assms by (intro refused) (auto simp: finalize_def Let_def)
next
  case Panic
  then show thesis using assms by (intro refused) (auto simp: finalize_def Let_def)
qed

context object_catalog
begin

lemma finalize_inv:
  assumes "dm_ops d = ops" and "inv (cs_store c)" and "\<And>x. length (dm_sha d x) = 32" and "finalize d k c = (r, k', c')"
  shows "inv (cs_store c')"
  using assms(4) by (cases rule: finalize_cases) (use store_push_inv [OF assms(1-3)] assms(2) in auto)

lemma finalize_frame:
  assumes "dm_ops d = ops" and "inv (cs_store c)" and "finalize d k c = (r, k', c')"
    and "(t', p) \<noteq> (dm_tenant d, pi_path (ns_info k)) \<or> r \<noteq> Ok ()"
  shows "op_query_path_info ops t' p (cs_store c') = op_query_path_info ops t' p (cs_store c) \<and>
         op_tier ops t' p (cs_store c') = op_tier ops t' p (cs_store c)"
  using assms(3) by (cases rule: finalize_cases) (use store_push_frame [OF assms(1,2) _ assms(4)] in auto)

lemma finalize_Ok:
  assumes "dm_ops d = ops" and "inv (cs_store c)" and "\<And>x. length (dm_sha d x) = 32" and "finalize d k c = (Ok (), k', c')"
  shows "if ns_ca k = None \<and> vouched d (pi_path (ns_info k)) (cs_store c) then cs_store c' = cs_store c \<and> cs_objects c' = cs_objects c
         else op_tier ops (dm_tenant d) (pi_path (ns_info k)) (cs_store c') = Some (if ns_ca k = None then Quarantined else Verified) \<and>
              op_query_path_info ops (dm_tenant d) (pi_path (ns_info k)) (cs_store c') =
                Some (fst (sign_if_vouchable d (ns_info k) (if ns_ca k = None then Quarantined else Verified) (cs_store c)))"
  using assms(4) by (cases rule: finalize_cases) (use store_push_Ok [OF assms(1-3)] in auto)

lemma finalize_vouched:
  assumes "dm_ops d = ops" and "inv (cs_store c)" and "\<And>x. length (dm_sha d x) = 32" and "finalize d k c = (r, k', c')"
    and "vouched d p (cs_store c)"
  shows "vouched d p (cs_store c')"
proof (cases "p = pi_path (ns_info k) \<and> r = Ok ()")
  case True
  then show ?thesis
    using finalize_Ok [OF assms(1-3)] assms(1,4,5) by (cases "ns_ca k") (auto simp: vouched_def)
next
  case False
  then show ?thesis
    using finalize_frame [OF assms(1,2,4), of "dm_tenant d" p] assms(1,5) by (auto simp: vouched_def)
qed

end

text \<open>A session of pushes: each sink is finalized in turn, whatever the outcome of the one before.\<close>

fun push_all :: "'s daemon \<Rightarrow> nar_sink list \<Rightarrow> 's conn \<Rightarrow> 's conn" where
  "push_all d [] c = c"
| "push_all d (k # ks) c = push_all d ks (snd (snd (finalize d k c)))"

context object_catalog
begin

lemma push_all_vouched:
  assumes "dm_ops d = ops" and "\<And>x. length (dm_sha d x) = 32"
  shows "inv (cs_store c) \<Longrightarrow> vouched d p (cs_store c) \<Longrightarrow> inv (cs_store (push_all d ks c)) \<and> vouched d p (cs_store (push_all d ks c))"
proof (induction ks arbitrary: c)
  case (Cons k ks)
  obtain r k' c' where f: "finalize d k c = (r, k', c')" by (cases "finalize d k c")
  show ?case
    using Cons.IH [of c'] finalize_inv [OF assms(1) Cons.prems(1) assms(2) f]
      finalize_vouched [OF assms(1) Cons.prems(1) assms(2) f Cons.prems(2)] f by simp
qed simp

lemma push_all_frame:
  assumes "dm_ops d = ops" and "\<And>x. length (dm_sha d x) = 32"
  shows "inv (cs_store c) \<Longrightarrow> t' \<noteq> dm_tenant d \<or> p \<notin> pi_path ` ns_info ` set ks \<Longrightarrow>
     op_query_path_info ops t' p (cs_store (push_all d ks c)) = op_query_path_info ops t' p (cs_store c) \<and>
     op_tier ops t' p (cs_store (push_all d ks c)) = op_tier ops t' p (cs_store c)"
proof (induction ks arbitrary: c)
  case (Cons k ks)
  obtain r k' c' where f: "finalize d k c = (r, k', c')" by (cases "finalize d k c")
  have "(t', p) \<noteq> (dm_tenant d, pi_path (ns_info k))" using Cons.prems(2) by auto
  then show ?case
    using Cons.IH [of c'] finalize_inv [OF assms(1) Cons.prems(1) assms(2) f]
      finalize_frame [OF assms(1) Cons.prems(1) f, of t' p] Cons.prems(2) f by auto
qed simp

end

subsection \<open>What was pushed is what is served\<close>

text \<open>
  The contract of the compressor and the decoding reader: reading back a compressed archive
  hands out its bytes in non-empty chunks and ends cleanly.
\<close>

definition zstd_ok :: "'s daemon \<Rightarrow> bool" where
  "zstd_ok d \<longleftrightarrow> (\<forall>x y. dm_zstd d x = Some y \<longrightarrow>
     (\<exists>chunks. dm_read_all d Zstd y = (chunks, True) \<and> concat chunks = x \<and> [] \<notin> set chunks))"

lemma send_chunks_all:
  "(\<And>xs. into xs = Ok ()) \<Longrightarrow> [] \<notin> set chunks \<Longrightarrow> send_chunks into True sent chunks = (Ok (), sent @ chunks)"
  by (induction chunks arbitrary: sent) auto

context object_catalog
begin

text \<open>
  What an accepted push leaves under the object key of its row. Shared bytes that a row already names are
  not uploaded again; a push of the tenant's own tier always replaces them.
\<close>

lemma push_object_left:
  assumes "dm_ops d = ops" and "inv (cs_store c)" and "\<And>x. length (dm_sha d x) = 32"
    and fin: "finalize d k c = (Ok (), k', c')"
    and new: "ns_ca k = None \<longrightarrow> \<not> vouched d (pi_path (ns_info k)) (cs_store c)"
  shows "\<exists>key compressed ob. dm_has_uploader d \<and> dm_zstd d (ns_buffer k) = Some compressed \<and>
    nar_key (dm_tenant d) (if ns_ca k = None then Quarantined else Verified) (pi_path (ns_info k)) = Some key \<and>
    op_output_object ops (dm_tenant d) (pi_path (ns_info k)) (cs_store c') = Some ob \<and> ro_key ob = key \<and>
    (\<not> op_object_known ops key (cs_store c) \<longrightarrow> ob = push_object d key compressed) \<and>
    cs_objects c' = (if ns_ca k \<noteq> None \<and> op_object_known ops key (cs_store c) then cs_objects c else (cs_objects c)(key \<mapsto> compressed))"
  using fin
proof (cases rule: finalize_cases)
  case (stored ti)
  from stored(4) show ?thesis
  proof (cases rule: store_push_cases)
    case (recorded key compressed rr)
    let ?ob = "push_object d key compressed" and ?s = "snd (sign_if_vouchable d (ns_info k) ti (cs_store c))"
    have rr: "rr = Ok ()" using recorded(6) by (cases rr) simp_all
    have wf: "wf_object ?ob" by (simp add: wf_object_def push_object_def assms(3))
    have rec: "op_record_path ops (dm_tenant d) (fst (sign_if_vouchable d (ns_info k) ti (cs_store c))) ?ob ti ?s = (Ok (), cs_store c')"
      using recorded(5) assms(1) rr by simp
    obtain ob where ob: "op_output_object ops (dm_tenant d) (pi_path (ns_info k)) (cs_store c') = Some ob" "ro_key ob = key"
      using record_object_key [OF sign_inv [OF assms(1,2)] wf rec] by (auto simp: push_object_def)
    have "ob = ?ob" if "\<not> op_object_known ops key (cs_store c)"
      using record_object [OF sign_inv [OF assms(1,2)] wf _ rec] ob(1) that sign_frame(3) [OF assms(1,2)]
      by (simp add: push_object_def)
    moreover have "cs_objects c' = (if ns_ca k \<noteq> None \<and> op_object_known ops key (cs_store c) then cs_objects c else (cs_objects c)(key \<mapsto> compressed))"
      using recorded(4) stored(2) assms(1) by (auto split: if_splits)
    ultimately show ?thesis using recorded(1-3) stored(2) ob by blast
  qed simp
qed (use new in simp_all)

end

lemma fetch_compressed:
  assumes "zstd_ok d" and "dm_has_uploader d" and "op_output_object (dm_ops d) (dm_tenant d) p (cs_store c) = Some ob"
    and "cs_objects c (ro_key ob) = dm_zstd d nar" and "dm_zstd d nar = Some compressed" and "ro_compression ob = Zstd"
    and raw: "to_store_path (dm_store_dir d) raw = Ok p" and into: "\<And>xs. into xs = Ok ()"
  shows "\<exists>sent. fst (nar_from_path d raw into c) = Ok sent \<and> concat sent = nar"
proof -
  obtain chunks where "dm_read_all d Zstd compressed = (chunks, True)" "concat chunks = nar" "[] \<notin> set chunks"
    using assms(1,5) unfolding zstd_ok_def by blast
  then show ?thesis using assms(2-6) raw send_chunks_all [OF into] by (simp add: nar_from_path_def with_path_def)
qed

lemma stage_fetch: "fst (nar_from_path d raw into (stage i c)) = fst (nar_from_path d raw into c)"
  by (simp add: nar_from_path_def with_path_def Let_def stage_def split: res.splits option.splits prod.splits)

subsection \<open>Pushes to the PostgreSQL store\<close>

lemma postgres_record_accepts:
  assumes "pg_fault s = None" and "pg_actor_up s"
  shows "fst (op_record_path (postgres_ops pub) t info ob ti s) = Ok ()"
  using upsert_ok [OF assms(1), of t info ob ti None] assms(2)
  by (cases "upsert_path_inner t info ob ti None s") (auto simp: postgres_ops_def pg_ops)

lemma postgres_signer_up:
  assumes "pg_fault s = None" and "pg_actor_up s"
  shows "pg_fault (snd (op_signer (postgres_ops pub) t seed s)) = None \<and> pg_actor_up (snd (op_signer (postgres_ops pub) t seed s))"
  using assms by (simp add: postgres_ops_def pg_ops)

lemma store_push_accepts:
  assumes "dm_ops d = postgres_ops pub" and "pg_fault (cs_store c) = None" and "pg_actor_up (cs_store c)"
    and "dm_has_uploader d" and "nar_key (dm_tenant d) ti (pi_path given) = Some key"
    and "dm_zstd d nar = Some compressed" and "web_put (dm_web d) key"
  shows "fst (store_push d given nar ti c) = Ok ()"
proof -
  let ?s = "snd (sign_if_vouchable d given ti (cs_store c))"
  have "pg_fault ?s = None \<and> pg_actor_up ?s"
    using postgres_signer_up [OF assms(2,3)] assms(1-3) by (simp add: sign_if_vouchable_snd)
  then have "fst (op_record_path (dm_ops d) t info ob ti ?s) = Ok ()" for t info ob
    using postgres_record_accepts assms(1) by simp
  then show ?thesis
    using assms(4-7) by (auto simp: store_push_def Let_def put_object_def on_store_fst_snd split: res.splits)
qed

lemma finalize_accepts_verified:
  assumes "dm_ops d = postgres_ops pub" and "pg_fault (cs_store c) = None" and "pg_actor_up (cs_store c)"
    and "dm_has_uploader d" and "dm_zstd d (ns_buffer k) \<noteq> None" and "\<And>key. web_put (dm_web d) key"
    and "ns_ca k = Some ca"
    and "verify (dm_sha d) (dm_store_dir d) (pi_path (ns_info k)) ca (pi_references (ns_info k)) (ns_buffer k) = Ok ()"
  shows "fst (finalize d k c) = Ok ()"
proof -
  obtain key where "nar_key (dm_tenant d) Verified (pi_path (ns_info k)) = Some key"
    using verify_Ok_path [OF assms(8)] by (auto simp: nar_key_def)
  then have "fst (store_push d (ns_info k) (ns_buffer k) Verified c) = Ok ()"
    using store_push_accepts [OF assms(1-4)] assms(5,6) by blast
  then show ?thesis using assms(7,8) by (auto simp: finalize_def push_tier_def Let_def split: prod.splits)
qed

text \<open>
  C1: The exact effect of a push on the database. If it is accepted, a content-addressed path is
  stored as verified, with the pushed metadata and the tenant's own signature added; a path
  without a content address leaves a row the frontend already vouches for untouched, and is
  otherwise quarantined with exactly the pushed metadata, never signed. A refused push changes no
  path at all, and no push changes another path or another tenant's view of the same path.
\<close>

theorem push_effect:
  assumes "dm_ops d = postgres_ops pub" and "pg_inv (cs_store c)" and "\<forall>x. length (dm_sha d x) = 32"
    and "finalize d k c = (r, k', c')"
  shows "pg_inv (cs_store c') \<and>
    (r = Ok () \<longrightarrow>
      (if ns_ca k \<noteq> None
       then op_tier (dm_ops d) (dm_tenant d) (pi_path (ns_info k)) (cs_store c') = Some Verified \<and>
            op_query_path_info (dm_ops d) (dm_tenant d) (pi_path (ns_info k)) (cs_store c') =
              Some ((ns_info k)\<lparr>pi_sigs := add_sig (own_signature d (ns_info k) (cs_store c)) (pi_sigs (ns_info k))\<rparr>)
       else if vouched d (pi_path (ns_info k)) (cs_store c) then cs_store c' = cs_store c \<and> cs_objects c' = cs_objects c
       else op_tier (dm_ops d) (dm_tenant d) (pi_path (ns_info k)) (cs_store c') = Some Quarantined \<and>
            op_query_path_info (dm_ops d) (dm_tenant d) (pi_path (ns_info k)) (cs_store c') = Some (ns_info k))) \<and>
    (\<forall>t p. (t, p) \<noteq> (dm_tenant d, pi_path (ns_info k)) \<or> r \<noteq> Ok () \<longrightarrow>
      op_query_path_info (dm_ops d) t p (cs_store c') = op_query_path_info (dm_ops d) t p (cs_store c) \<and>
      op_tier (dm_ops d) t p (cs_store c') = op_tier (dm_ops d) t p (cs_store c))"
proof (intro conjI impI allI)
  show "pg_inv (cs_store c')" using postgres_objects.finalize_inv [OF assms(1,2) _ assms(4)] assms(3) by blast
  show "op_query_path_info (dm_ops d) t p (cs_store c') = op_query_path_info (dm_ops d) t p (cs_store c)"
    and "op_tier (dm_ops d) t p (cs_store c') = op_tier (dm_ops d) t p (cs_store c)"
    if "(t, p) \<noteq> (dm_tenant d, pi_path (ns_info k)) \<or> r \<noteq> Ok ()" for t p
    using postgres_objects.finalize_frame [OF assms(1,2,4) that] assms(1) by simp_all
  assume "r = Ok ()"
  then show "if ns_ca k \<noteq> None
       then op_tier (dm_ops d) (dm_tenant d) (pi_path (ns_info k)) (cs_store c') = Some Verified \<and>
            op_query_path_info (dm_ops d) (dm_tenant d) (pi_path (ns_info k)) (cs_store c') =
              Some ((ns_info k)\<lparr>pi_sigs := add_sig (own_signature d (ns_info k) (cs_store c)) (pi_sigs (ns_info k))\<rparr>)
       else if vouched d (pi_path (ns_info k)) (cs_store c) then cs_store c' = cs_store c \<and> cs_objects c' = cs_objects c
       else op_tier (dm_ops d) (dm_tenant d) (pi_path (ns_info k)) (cs_store c') = Some Quarantined \<and>
            op_query_path_info (dm_ops d) (dm_tenant d) (pi_path (ns_info k)) (cs_store c') = Some (ns_info k)"
    using postgres_objects.finalize_Ok [OF assms(1,2), of k k' c'] assms(1,3,4)
    by (cases "ns_ca k") (simp_all add: sign_if_vouchable_fst split: if_splits)
qed

text \<open>
  C26: No sequence of pushes, accepted or refused, ever takes away what the frontend vouches for:
  a path that is built or verified for the tenant stays so, and every path of another tenant and
  every path that was not pushed keeps its metadata and tier.
\<close>

theorem pushes_never_demote:
  assumes "dm_ops d = postgres_ops pub" and "pg_inv (cs_store c)" and "\<forall>x. length (dm_sha d x) = 32"
  shows "(vouched d p (cs_store c) \<longrightarrow> vouched d p (cs_store (push_all d ks c))) \<and>
    (t \<noteq> dm_tenant d \<or> q \<notin> pi_path ` ns_info ` set ks \<longrightarrow>
      op_query_path_info (dm_ops d) t q (cs_store (push_all d ks c)) = op_query_path_info (dm_ops d) t q (cs_store c) \<and>
      op_tier (dm_ops d) t q (cs_store (push_all d ks c)) = op_tier (dm_ops d) t q (cs_store c))"
  using postgres_objects.push_all_vouched [OF assms(1), of c p ks] postgres_objects.push_all_frame [OF assms(1), of c t q ks]
    assms by simp

text \<open>
  C3: What \<open>narFromPath\<close> streams after an accepted push. A push of a path the frontend already vouches for,
  without a content address, is answered with success and changes nothing that is streamed. Any other accepted
  push leaves the row with the object key of its tier, and the compressed archive under that key, except that
  a content-addressed push leaves the bytes alone when a row already names the shared key. If no row named
  the key, or if the bytes under it are those of the pushed archive and its row says zstd, exactly the pushed
  archive is streamed, given a compressor and a reader that fit together and a client that accepts the chunks.
\<close>

theorem push_fetch_roundtrip:
  assumes "dm_ops d = postgres_ops pub" and "pg_inv (cs_store c)" and "\<forall>x. length (dm_sha d x) = 32" and "zstd_ok d"
    and "finalize d k c = (Ok (), k', c')" and "is_utf8 (to_full (dm_store_dir d) (pi_path (ns_info k)))"
  shows "let fetch = \<lambda>c. fst (nar_from_path d (write_store_path (dm_store_dir d) (pi_path (ns_info k))) (\<lambda>_. Ok ()) c) in
    if ns_ca k = None \<and> vouched d (pi_path (ns_info k)) (cs_store c) then fetch c' = fetch c
    else \<exists>key compressed ob. dm_zstd d (ns_buffer k) = Some compressed \<and>
      nar_key (dm_tenant d) (if ns_ca k = None then Quarantined else Verified) (pi_path (ns_info k)) = Some key \<and>
      op_output_object (dm_ops d) (dm_tenant d) (pi_path (ns_info k)) (cs_store c') = Some ob \<and> ro_key ob = key \<and>
      cs_objects c' = (if ns_ca k \<noteq> None \<and> op_object_known (dm_ops d) key (cs_store c) then cs_objects c
                       else (cs_objects c)(key \<mapsto> compressed)) \<and>
      (\<not> op_object_known (dm_ops d) key (cs_store c) \<or> cs_objects c' key = Some compressed \<and> ro_compression ob = Zstd \<longrightarrow>
        (\<exists>sent. fetch c' = Ok sent \<and> concat sent = ns_buffer k))"
proof (cases "ns_ca k = None \<and> vouched d (pi_path (ns_info k)) (cs_store c)")
  case True
  from assms(5) have "\<exists>i. c' = stage i c" by (cases rule: finalize_cases) (use True in auto)
  then show ?thesis using True stage_fetch by (auto simp: Let_def)
next
  case False
  obtain key compressed ob where left: "dm_has_uploader d" "dm_zstd d (ns_buffer k) = Some compressed"
      "nar_key (dm_tenant d) (if ns_ca k = None then Quarantined else Verified) (pi_path (ns_info k)) = Some key"
      "op_output_object (dm_ops d) (dm_tenant d) (pi_path (ns_info k)) (cs_store c') = Some ob" "ro_key ob = key"
      "\<not> op_object_known (dm_ops d) key (cs_store c) \<longrightarrow> ob = push_object d key compressed"
      "cs_objects c' = (if ns_ca k \<noteq> None \<and> op_object_known (dm_ops d) key (cs_store c) then cs_objects c
                       else (cs_objects c)(key \<mapsto> compressed))"
    using postgres_objects.push_object_left [OF assms(1,2) spec [OF assms(3)] assms(5)] False unfolding assms(1) by blast
  have raw: "to_store_path (dm_store_dir d) (write_store_path (dm_store_dir d) (pi_path (ns_info k))) = Ok (pi_path (ns_info k))"
    by (rule to_store_path_write [OF assms(6)])
  have "cs_objects c' key = Some compressed \<and> ro_compression ob = Zstd" if "\<not> op_object_known (dm_ops d) key (cs_store c)"
    using that left(6,7) by (simp add: push_object_def)
  then show ?thesis
    using False left fetch_compressed [OF assms(4) left(1,4) _ left(2) _ raw] unfolding Let_def if_not_P [OF False] by auto
qed

text \<open>
  The NAR hash and size of a verified push are never compared with the archive: whenever a
  content-addressed push is accepted, the same push with any other hash and size is accepted too,
  and the row then carries that false claim together with the tenant's own signature over it.
\<close>

theorem verified_push_signs_any_hash:
  assumes "dm_ops d = postgres_ops pub" and "pg_inv (cs_store c)" and "\<forall>x. length (dm_sha d x) = 32"
    and "pg_fault (cs_store c) = None" and "pg_actor_up (cs_store c)" and "\<forall>key. web_put (dm_web d) key"
    and "ns_ca k \<noteq> None" and "finalize d k c = (Ok (), k', c')"
    and "own_signature d ((ns_info k)\<lparr>pi_nar_hash := h, pi_nar_size := n\<rparr>) (cs_store c) = Some sig"
  shows "\<exists>k'' c'' row. finalize d (k\<lparr>ns_info := (ns_info k)\<lparr>pi_nar_hash := h, pi_nar_size := n\<rparr>\<rparr>) c = (Ok (), k'', c'') \<and>
    op_query_path_info (dm_ops d) (dm_tenant d) (pi_path (ns_info k)) (cs_store c'') = Some row \<and>
    op_tier (dm_ops d) (dm_tenant d) (pi_path (ns_info k)) (cs_store c'') = Some Verified \<and>
    pi_nar_hash row = h \<and> pi_nar_size row = n \<and> sig \<in> set (pi_sigs row)"
proof -
  let ?k = "k\<lparr>ns_info := (ns_info k)\<lparr>pi_nar_hash := h, pi_nar_size := n\<rparr>\<rparr>"
  obtain ca where ca: "ns_ca k = Some ca" using assms(7) by blast
  from assms(8) have acc: "dm_has_uploader d \<and> dm_zstd d (ns_buffer k) \<noteq> None \<and>
      verify (dm_sha d) (dm_store_dir d) (pi_path (ns_info k)) ca (pi_references (ns_info k)) (ns_buffer k) = Ok ()"
  proof (cases rule: finalize_cases)
    case (stored ti)
    from stored(4) have "dm_has_uploader d \<and> dm_zstd d (ns_buffer k) \<noteq> None"
      by (cases rule: store_push_cases) simp_all
    then show ?thesis using stored(1) ca by (auto simp: push_tier_def split: res.splits)
  qed (use ca in simp_all)
  have "fst (finalize d ?k c) = Ok ()"
    by (rule finalize_accepts_verified [OF assms(1,4,5), of _ ca]) (use acc ca assms(6) in simp_all)
  then obtain k'' c'' where f: "finalize d ?k c = (Ok (), k'', c'')" by (cases "finalize d ?k c") auto
  have "sig \<in> set (add_sig (Some sig) sigs)" for sigs by (simp add: add_sig_def)
  then show ?thesis
    using postgres_objects.finalize_Ok [OF assms(1,2) _ f] f assms(1,3,9) ca
    by (auto simp: sign_if_vouchable_fst)
qed

subsection \<open>A concrete push\<close>

definition ex_daemon :: "pg daemon" where
  "ex_daemon = \<lparr>dm_ops = postgres_ops id, dm_secrets = postgres_secret_ops id, dm_queue = None,
     dm_system = System ''x86_64-linux'', dm_has_uploader = True, dm_tenant = TenantId ''alice'', dm_store_dir = ''/s'',
     dm_web = \<lparr>web_head = \<lambda>_. None, web_get = \<lambda>_. None, dec_accepts = \<lambda>_ _. True, dec_finish = \<lambda>_. Some, web_put = \<lambda>_. True\<rparr>,
     dm_read_all = \<lambda>_ y. (if y = [] then [] else [y], True), dm_zstd = Some, dm_sha = toy_sha,
     dm_crypto = example_crypto, dm_jwt = ex_jwt, dm_seed = replicate 32 7, dm_fresh_secret = replicate 32 1,
     dm_salt = 0, dm_job_id = 1, dm_http_host = None\<rparr>"

definition ex_conn :: "pg conn" where
  "ex_conn = \<lparr>cs_store = pg_empty, cs_objects = Map.empty, cs_staged = [], cs_options = client_options_default\<rparr>"

definition ex_sink :: nar_sink where
  "ex_sink = \<lparr>ns_info = \<lparr>pi_path = ex_path, pi_deriver = None, pi_nar_hash = \<lparr>h_type = Sha256, h_bytes = replicate 32 9\<rparr>,
       pi_nar_size = 5, pi_references = [], pi_registration_time = 0, pi_ultimate = False, pi_sigs = []\<rparr>,
     ns_ca = Some ex_ca, ns_buffer = file_nar False [1, 2]\<rparr>"

lemma ex_daemon_simps [simp]:
  "dm_ops ex_daemon = postgres_ops id" "dm_has_uploader ex_daemon" "dm_tenant ex_daemon = TenantId ''alice''"
  "dm_store_dir ex_daemon = ''/s''" "dm_zstd ex_daemon = Some" "dm_sha ex_daemon = toy_sha"
  "web_put (dm_web ex_daemon) key" "dm_crypto ex_daemon = example_crypto" "dm_seed ex_daemon = replicate 32 7"
  by (simp_all add: ex_daemon_def)

lemma ex_conn_simps [simp]:
  "cs_store ex_conn = pg_empty" "pg_inv pg_empty" "pg_fault pg_empty = None" "pg_actor_up pg_empty"
  by (simp_all add: ex_conn_def pg_empty_def pg_inv_def)

lemma ex_sink_simps [simp]:
  "pi_path (ns_info ex_sink) = ex_path" "ns_ca ex_sink = Some ex_ca" "ns_buffer ex_sink = file_nar False [1, 2]"
  "pi_references (ns_info ex_sink) = []"
  by (simp_all add: ex_sink_def)

lemma toy_sha_length [simp]: "length (toy_sha x) = 32"
  by (simp add: toy_sha_def min_def)

lemma ex_push: obtains k' c' where "finalize ex_daemon ex_sink ex_conn = (Ok (), k', c')"
proof -
  have "fst (finalize ex_daemon ex_sink ex_conn) = Ok ()"
    by (rule finalize_accepts_verified [where ca = ex_ca]) (simp_all add: ex_verify)
  then show thesis using that by (cases "finalize ex_daemon ex_sink ex_conn") auto
qed

lemma push_effect_witness:
  "\<exists>k' c'. finalize ex_daemon ex_sink ex_conn = (Ok (), k', c') \<and>
     op_tier (postgres_ops id) (TenantId ''alice'') ex_path (cs_store c') = Some Verified \<and>
     op_tier (postgres_ops id) (TenantId ''bob'') ex_path (cs_store c') = op_tier (postgres_ops id) (TenantId ''bob'') ex_path pg_empty"
proof -
  obtain k' c' where f: "finalize ex_daemon ex_sink ex_conn = (Ok (), k', c')" by (rule ex_push)
  from push_effect [OF _ _ _ f] f show ?thesis by auto
qed

lemma pushes_never_demote_witness:
  "vouched ex_daemon ex_path (cs_store (push_all ex_daemon [ex_sink, ex_sink\<lparr>ns_ca := None\<rparr>] ex_conn))"
proof -
  obtain k' c' where f: "finalize ex_daemon ex_sink ex_conn = (Ok (), k', c')" by (rule ex_push)
  have e: "push_all ex_daemon [ex_sink, ex_sink\<lparr>ns_ca := None\<rparr>] ex_conn = push_all ex_daemon [ex_sink\<lparr>ns_ca := None\<rparr>] c'"
    using f by simp
  have "pg_inv (cs_store c')" using postgres_objects.finalize_inv [OF _ _ _ f] by simp
  moreover have "vouched ex_daemon ex_path (cs_store c')"
    using postgres_objects.finalize_Ok [OF _ _ _ f] by (simp add: vouched_def)
  ultimately show ?thesis
    unfolding e using pushes_never_demote [of ex_daemon id c' ex_path "[ex_sink\<lparr>ns_ca := None\<rparr>]"] by (simp del: push_all.simps)
qed

lemma ex_zstd: "zstd_ok ex_daemon"
  by (auto simp: zstd_ok_def ex_daemon_def)

lemma push_fetch_roundtrip_witness:
  "\<exists>k' c' sent. finalize ex_daemon ex_sink ex_conn = (Ok (), k', c') \<and>
     fst (nar_from_path ex_daemon (write_store_path ''/s'' ex_path) (\<lambda>_. Ok ()) c') = Ok sent \<and> concat sent = file_nar False [1, 2]"
proof -
  obtain k' c' where f: "finalize ex_daemon ex_sink ex_conn = (Ok (), k', c')" by (rule ex_push)
  have "is_utf8 (to_full ''/s'' ex_path)" by code_simp
  moreover have "\<not> op_object_known (postgres_ops id) key pg_empty" for key
    by (simp add: postgres_ops_def pg_ops object_known_db_def on_db_def pg_empty_def)
  ultimately show ?thesis
    using push_fetch_roundtrip [where pub = id, OF _ _ _ ex_zstd f] f by (auto simp: Let_def)
qed

lemma verified_push_signs_any_hash_witness:
  "\<exists>k'' c'' row sig. finalize ex_daemon (ex_sink\<lparr>ns_info := (ns_info ex_sink)\<lparr>pi_nar_hash := \<lparr>h_type = Sha256, h_bytes = []\<rparr>, pi_nar_size := 0\<rparr>\<rparr>) ex_conn =
      (Ok (), k'', c'') \<and>
    op_query_path_info (postgres_ops id) (TenantId ''alice'') ex_path (cs_store c'') = Some row \<and>
    pi_nar_size row = 0 \<and> sig \<in> set (pi_sigs row)"
proof -
  let ?bad = "(ns_info ex_sink)\<lparr>pi_nar_hash := \<lparr>h_type = Sha256, h_bytes = []\<rparr>, pi_nar_size := 0\<rparr>"
  obtain k' c' where f: "finalize ex_daemon ex_sink ex_conn = (Ok (), k', c')" by (rule ex_push)
  have "fst (op_signer (postgres_ops id) (TenantId ''alice'') (replicate 32 7) pg_empty) \<noteq> None"
    by (simp add: postgres_ops_def pg_ops signer_db_def ensure_tenant_id_def pg_empty_def new_tenant_row_def from_material_def)
  then obtain sig where "own_signature ex_daemon ?bad (cs_store ex_conn) = Some sig"
    by (auto simp: own_signature_def sign_path_def sign_def)
  then show ?thesis
    using verified_push_signs_any_hash [OF _ _ _ _ _ _ _ f, of id 0 "\<lparr>h_type = Sha256, h_bytes = []\<rparr>" sig] by auto
qed

end
