(* ===== verification/Build.thy ===== *)
theory Build
  imports Push Reservations "HOL-Library.Countable"
begin

text \<open>
  Building through the daemon protocol (\<open>daemon_rpc.rs\<close>: \<open>record_outputs\<close>,
  \<open>substituters_for_guest\<close>, \<open>required_system_features\<close>, \<open>build_derivation\<close>; \<open>capnp_ext.rs\<close>:
  \<open>JobQueue::dispatch\<close>). The lemmas show what a build may record, what the token handed to the
  worker authorizes, how a row shared across tenants is materialized, and two ways the reported
  status can be wrong.
\<close>

subsection \<open>Recording what a worker reports\<close>

definition output_path_info :: "output_info \<Rightarrow> path_info" where
  "output_path_info o1 =
     \<lparr>pi_path = oi_store_path o1, pi_deriver = oi_deriver o1,
      pi_nar_hash = \<lparr>h_type = Sha256, h_bytes = oi_nar_hash o1\<rparr>, pi_nar_size = oi_nar_size o1,
      pi_references = oi_references o1, pi_registration_time = 0, pi_ultimate = True, pi_sigs = []\<rparr>"

definition output_remote :: "output_info \<Rightarrow> remote_object" where
  "output_remote o1 =
     \<lparr>ro_key = oi_key o1, ro_file_size = oi_file_size o1, ro_file_hash = oi_file_hash o1, ro_compression = oi_compression o1\<rparr>"

definition record_output :: "'s daemon \<Rightarrow> output_info \<Rightarrow> 's \<Rightarrow> 's" where
  "record_output d o1 s =
     (let (info, s) = sign_if_vouchable d (output_path_info o1) Built s
      in snd (op_record_path (dm_ops d) (dm_tenant d) info (output_remote o1) Built s))"

definition record_outputs ::
  "'s daemon \<Rightarrow> output_info list \<Rightarrow> (string \<times> store_path) list \<Rightarrow> 's \<Rightarrow> (store_path list, unit) res \<times> 's" where
  "record_outputs d infos expected s =
     (let bogus = map oi_store_path (filter (\<lambda>o1. oi_store_path o1 \<notin> snd ` set expected) infos)
      in if bogus \<noteq> [] then (Err bogus, s) else (Ok (), foldl (\<lambda>s o1. record_output d o1 s) s infos))"

subsection \<open>Dispatching a job\<close>

definition substituters_for_guest :: "'s daemon \<Rightarrow> string \<Rightarrow> 's \<Rightarrow> (string \<times> string) list \<times> 's" where
  "substituters_for_guest d host s =
     (let base = ''https://'' @ host @ ''/'' @ tid_str (dm_tenant d);
          (signer, s) = op_signer (dm_ops d) (dm_tenant d) (dm_seed d) s
      in ((case signer of None \<Rightarrow> [] | Some sg \<Rightarrow> [(base, public_key_string (dm_crypto d) sg)]) @
          map (\<lambda>(url, pk). (base @ ''/upstream/'' @ slug_for url, pk)) (op_trusted_substituters (dm_ops d) (dm_tenant d) s), s))"

definition required_system_features :: "(string \<rightharpoonup> string) \<Rightarrow> string list" where
  "required_system_features e = (case e ''requiredSystemFeatures'' of None \<Rightarrow> [] | Some x \<Rightarrow> split_whitespace x)"

definition dispatch :: "'s queue \<Rightarrow> build_job \<Rightarrow> 's \<times> objects \<Rightarrow> (report, job_outcome) res \<times> 's \<times> objects" where
  "dispatch q job st =
     (case bind_res (map_err (\<lambda>e. wrap_err ''subscribing to the job's logs'' [OpaqueCause e]) (q_subscribe_logs q (bj_job_id job))) (\<lambda>_.
           bind_res (map_err (wrap_err ''creating a result consumer'') (q_result_consumer q (bj_job_id job))) (\<lambda>_.
           map_err (wrap_err ''submitting the job'') (q_submit q job))) of
        Ok _ \<Rightarrow> q_watch q (bj_job_id job) (bj_derivation_path job) None st
      | Err e \<Rightarrow> (Err e, st)
      | Panic \<Rightarrow> (Panic, st))"

definition backfill_input :: "'s daemon \<Rightarrow> 's \<Rightarrow> store_path \<Rightarrow> input_ref option" where
  "backfill_input d s src =
     Option.bind (op_output_object (dm_ops d) (dm_tenant d) src s) (\<lambda>object.
     Option.bind (op_query_path_info (dm_ops d) (dm_tenant d) src s) (\<lambda>info.
     Some \<lparr>in_store_path = src, in_key = ro_key object, in_references = pi_references info,
           in_deriver = (case pi_deriver info of None \<Rightarrow> StorePath [] | Some p \<Rightarrow> p),
           in_compression = ro_compression object, in_nar_hash = to_wire_string (pi_nar_hash info),
           in_nar_size = pi_nar_size info\<rparr>))"

fun backfill :: "'s daemon \<Rightarrow> 's \<Rightarrow> store_path set \<Rightarrow> store_path list \<Rightarrow> input_ref list" where
  "backfill d s known [] = []"
| "backfill d s known (src # rest) =
     (if src \<in> known then backfill d s known rest
      else (case backfill_input d s src of None \<Rightarrow> [] | Some i \<Rightarrow> [i]) @ backfill d s (insert src known) rest)"

text \<open>What a won reservation submits: the token, the mirrors for the guest and the inputs.\<close>

definition prepare_job ::
  "'s daemon \<Rightarrow> store_path \<Rightarrow> bytes \<Rightarrow> basic_derivation \<Rightarrow> (string \<times> store_path) list \<Rightarrow> input_ref list \<Rightarrow> 's \<Rightarrow> build_job \<times> 's" where
  "prepare_job d path drv parsed expected staged s =
     (let capability = \<lparr>cap_job_id = dm_job_id d, cap_tenant = dm_tenant d, cap_derivation_path = path,
                        cap_expected_outputs = expected\<rparr>;
          ((kid, secret), s) = op_current_capability_secret (dm_secrets d) (dm_fresh_secret d) (dm_salt d) s;
          token = cap_sign (dm_jwt d) capability kid secret;
          (subs, s) = (case dm_http_host d of None \<Rightarrow> ([], s) | Some host \<Rightarrow> substituters_for_guest d host s);
          inputs = staged @ backfill d s (in_store_path ` set staged) (input_srcs parsed)
      in (\<lparr>bj_job_id = dm_job_id d, bj_derivation_path = path, bj_system = dm_system d, bj_drv = drv,
           bj_inputs = inputs, bj_tenant = dm_tenant d, bj_token = token,
           bj_required_features = required_system_features (env parsed), bj_trusted_substituters = subs\<rparr>, s))"

subsection \<open>The build request\<close>

datatype build_status = StatusBuilt | PermanentFailure | TransientFailure

record build_result =
  br_status :: build_status
  br_error_msg :: string
  br_times_built :: nat

fun truncated_display :: "truncated \<Rightarrow> string" where
  "truncated_display (Truncated n) = ''truncated wire data at byte '' @ show_nat n"

fun parse_error_display :: "parse_error \<Rightarrow> string" where
  "parse_error_display (TruncatedAt t) = ''malformed derivation: '' @ truncated_display t"
| "parse_error_display (Unrooted (NotRooted dir full)) = ''malformed derivation: '' @ full @ '' is not rooted at '' @ dir"

definition expected_output :: "'s daemon \<Rightarrow> store_path \<Rightarrow> drv_output \<Rightarrow> (rpc_error, string \<times> store_path) res" where
  "expected_output d path out =
     (if o_algo out = [] then Ok (o_name out, o_path out)
      else bind_res (ok_or (rpc_failed (''kubernix: fixed output '' @ [CHR 0x27] @ o_name out @ [CHR 0x27] @ '' of '' @ sp_str path @
                         '' does not match its declared content address''))
             (verify_fixed_output (dm_sha d) (dm_store_dir d) (derivation_name path) (o_name out) (o_algo out) (o_hash out)))
           (\<lambda>p. Ok (o_name out, p)))"

fun failure_status :: "failure_kind option \<Rightarrow> string \<Rightarrow> build_status \<times> string" where
  "failure_status (Some OutOfMemory) m = (TransientFailure, ''kubernix: build failed (out of memory): '' @ m)"
| "failure_status (Some DiskFull) m = (TransientFailure, ''kubernix: build failed (disk full): '' @ m)"
| "failure_status (Some GuestHang) m = (TransientFailure, ''kubernix: build failed (guest unresponsive): '' @ m)"
| "failure_status None m = (PermanentFailure, m)"

fun report_outcome :: "'s daemon \<Rightarrow> (string \<times> store_path) list \<Rightarrow> job_outcome \<Rightarrow> 's \<Rightarrow> build_result \<times> 's" where
  "report_outcome d expected (Completed outs infos log) s =
     (case record_outputs d infos expected s of
        (Err bogus, s) \<Rightarrow>
          (\<lparr>br_status = PermanentFailure, br_error_msg =
              ''kubernix: worker reported output(s) outside this job's verified set: '' @ join_with '', '' (map sp_str bogus),
            br_times_built = 1\<rparr>, s)
      | (_, s) \<Rightarrow> (\<lparr>br_status = StatusBuilt, br_error_msg = [], br_times_built = 1\<rparr>, s))"
| "report_outcome d expected (Failed m log kind) s =
     (\<lparr>br_status = fst (failure_status kind m), br_error_msg = snd (failure_status kind m), br_times_built = 1\<rparr>, s)"

definition ATTACHED :: string where
  "ATTACHED = ''kubernix: this derivation is already building -- attached to an in-progress build; earlier output was not captured''"

definition run_job ::
  "'s daemon \<Rightarrow> 's queue \<Rightarrow> store_path \<Rightarrow> bytes \<Rightarrow> basic_derivation \<Rightarrow> (string \<times> store_path) list \<Rightarrow> input_ref list \<Rightarrow>
   's \<times> objects \<Rightarrow> (rpc_error, uuid \<times> job_outcome) res \<times> 's \<times> objects" where
  "run_job d q path drv parsed expected staged st =
     (case op_reserve_job (dm_ops d) (dm_tenant d) (dm_job_id d) path (sys_str (dm_system d)) (q_results_retention q) (fst st) of
        (Won, s) \<Rightarrow>
          let (job, s) = prepare_job d path drv parsed expected staged s;
              (r, st) = dispatch q job (s, snd st)
          in (bind_res (map_err (\<lambda>e. report_error e ''dispatching the build'') r) (\<lambda>oc. Ok (dm_job_id d, oc)), st)
      | (Lost existing, s) \<Rightarrow>
          (case bind_res (map_err (\<lambda>e. rpc_failed (''kubernix: subscribing to the in-progress build's logs: '' @ e)) (q_subscribe_logs q existing)) (\<lambda>_.
                map_err (\<lambda>e. report_error e ''attaching to the in-progress build'') (q_result_consumer q existing)) of
             Ok _ \<Rightarrow>
               let (r, st) = q_watch q existing path (Some ATTACHED) (s, snd st)
               in (bind_res (map_err (\<lambda>e. report_error e ''watching the in-progress build'') r) (\<lambda>oc. Ok (existing, oc)), st)
           | Err e \<Rightarrow> (Err e, s, snd st)
           | Panic \<Rightarrow> (Panic, s, snd st)))"

definition check_derivation :: "'s daemon \<Rightarrow> bytes \<Rightarrow> bytes \<Rightarrow> (rpc_error, store_path \<times> basic_derivation \<times> (string \<times> store_path) list) res" where
  "check_derivation d raw drv =
     bind_res (to_store_path (dm_store_dir d) raw) (\<lambda>path.
     bind_res (map_err (\<lambda>e. rpc_failed (''kubernix: malformed derivation: '' @ parse_error_display e)) (parse drv (dm_store_dir d))) (\<lambda>parsed.
     bind_res (collect_res (map (expected_output d path) (outputs parsed))) (\<lambda>expected.
     Ok (path, parsed, expected))))"

definition build_derivation :: "'s daemon \<Rightarrow> bytes \<Rightarrow> bytes \<Rightarrow> 's conn \<Rightarrow> (rpc_error, build_result) res \<times> 's conn" where
  "build_derivation d raw drv c =
     (case check_derivation d raw drv of
        Err e \<Rightarrow> (Err e, c)
      | Panic \<Rightarrow> (Panic, c)
      | Ok (path, parsed, expected) \<Rightarrow>
          (case on_objects (all_outputs_available d (cs_options c) expected) c of
             (True, c) \<Rightarrow> (Ok \<lparr>br_status = StatusBuilt, br_error_msg = [], br_times_built = 0\<rparr>, c)
           | (False, c) \<Rightarrow>
               (case dm_queue d of
                  None \<Rightarrow> (Err (RpcUnimplemented (''kubernix: build of '' @ sp_str path @ '' not dispatched - no NATS job queue configured'')), c)
                | Some q \<Rightarrow>
                    (case on_objects (run_job d q path drv parsed expected (cs_staged c)) c of
                       (Err e, c) \<Rightarrow> (Err e, c)
                     | (Panic, c) \<Rightarrow> (Panic, c)
                     | (Ok (job, outcome), c) \<Rightarrow>
                         let s = op_record_job_outcome (dm_ops d) (dm_tenant d) job path (sys_str (dm_system d)) outcome (cs_store c);
                             (result, s) = report_outcome d expected outcome s
                         in (Ok result, c\<lparr>cs_store := s\<rparr>)))))"

subsection \<open>What recording the outputs changes\<close>

lemma record_output_eq:
  "record_output d o1 s =
     snd (op_record_path (dm_ops d) (dm_tenant d) (fst (sign_if_vouchable d (output_path_info o1) Built s)) (output_remote o1) Built
       (snd (sign_if_vouchable d (output_path_info o1) Built s)))"
  by (simp add: record_output_def split_beta)

lemma output_remote_wf: "length (oi_file_hash o1) = 32 \<Longrightarrow> wf_object (output_remote o1)"
  by (simp add: wf_object_def output_remote_def)

lemma output_path_info_path [simp]: "pi_path (output_path_info o1) = oi_store_path o1"
  by (simp add: output_path_info_def)

context object_catalog
begin

lemma record_output_inv:
  "dm_ops d = ops \<Longrightarrow> inv s \<Longrightarrow> length (oi_file_hash o1) = 32 \<Longrightarrow> inv (record_output d o1 s)"
  by (simp add: record_output_eq record_inv sign_inv output_remote_wf)

lemma record_output_frame:
  assumes "dm_ops d = ops" and "inv s" and "(t, p) \<noteq> (dm_tenant d, oi_store_path o1)"
  shows "op_query_path_info ops t p (record_output d o1 s) = op_query_path_info ops t p s \<and>
         op_tier ops t p (record_output d o1 s) = op_tier ops t p s"
  using record_frame [OF sign_inv [OF assms(1,2)] prod.collapse [symmetric], of t p "dm_tenant d"] sign_frame [OF assms(1,2)] assms(1,3)
  by (simp add: record_output_eq)

lemma record_all_inv:
  "dm_ops d = ops \<Longrightarrow> inv s \<Longrightarrow> \<forall>o1\<in>set os. length (oi_file_hash o1) = 32 \<Longrightarrow> inv (foldl (\<lambda>s o1. record_output d o1 s) s os)"
  by (induction os arbitrary: s) (simp_all add: record_output_inv)

lemma record_all_frame:
  assumes "dm_ops d = ops"
  shows "inv s \<Longrightarrow> \<forall>o1\<in>set os. length (oi_file_hash o1) = 32 \<Longrightarrow> t \<noteq> dm_tenant d \<or> p \<notin> oi_store_path ` set os \<Longrightarrow>
     op_query_path_info ops t p (foldl (\<lambda>s o1. record_output d o1 s) s os) = op_query_path_info ops t p s \<and>
     op_tier ops t p (foldl (\<lambda>s o1. record_output d o1 s) s os) = op_tier ops t p s"
proof (induction os arbitrary: s)
  case (Cons o1 os)
  then show ?case
    using record_output_frame [OF assms Cons.prems(1), of t p o1] Cons.IH [OF record_output_inv [OF assms Cons.prems(1), of o1]] by auto
qed simp

end

subsection \<open>Sharing a verified row\<close>

lemma resolve_verified_cases:
  assumes "resolve_verified d hp s = (r, s')"
  obtains (found) p where "op_query_path_from_hash_part (dm_ops d) (dm_tenant d) hp s = Some p" "r = Some p" "s' = s"
  | (missing) "r = None" "s' = s"
  | (copied) info object rr where "op_find_verified_by_hash_part (dm_ops d) hp s = Some (info, object)"
      "op_record_path (dm_ops d) (dm_tenant d) (fst (sign_if_vouchable d (info\<lparr>pi_sigs := []\<rparr>) Verified s)) object Verified
         (snd (sign_if_vouchable d (info\<lparr>pi_sigs := []\<rparr>) Verified s)) = (rr, s')"
      "r = (if rr = Ok () then Some (pi_path info) else None)"
proof (cases "op_query_path_from_hash_part (dm_ops d) (dm_tenant d) hp s")
  case (Some p)
  then show thesis using assms by (intro found [of p]) (auto simp: resolve_verified_def)
next
  case none: None
  show thesis
  proof (cases "op_find_verified_by_hash_part (dm_ops d) hp s")
    case None
    then show thesis using assms none by (intro missing) (auto simp: resolve_verified_def)
  next
    case (Some x)
    obtain info object where x: "x = (info, object)" by (cases x)
    obtain rr s2 where rec: "op_record_path (dm_ops d) (dm_tenant d)
        (fst (sign_if_vouchable d (info\<lparr>pi_sigs := []\<rparr>) Verified s)) object Verified
        (snd (sign_if_vouchable d (info\<lparr>pi_sigs := []\<rparr>) Verified s)) = (rr, s2)" by fastforce
    show thesis
      by (rule copied [of info object rr])
        (use assms none Some x rec in \<open>auto simp: resolve_verified_def Let_def split_beta split: res.splits\<close>)
  qed
qed

context object_catalog
begin

lemma resolve_verified_inv:
  assumes "dm_ops d = ops" and "inv s" and "resolve_verified d hp s = (r, s')"
  shows "inv s'"
  using assms(3)
proof (cases rule: resolve_verified_cases)
  case (copied info object rr)
  then have "wf_object object" using find_verified [OF assms(2)] assms(1) by blast
  then show ?thesis
    using record_inv [OF sign_inv [OF assms(1,2)], of object] copied(2) assms(1) by (metis snd_conv)
qed (use assms(2) in simp_all)

lemma resolve_verified_frame:
  assumes "dm_ops d = ops" and "inv s" and "resolve_verified d hp s = (r, s')" and "t \<noteq> dm_tenant d \<or> r \<noteq> Some p"
  shows "op_query_path_info ops t p s' = op_query_path_info ops t p s \<and> op_tier ops t p s' = op_tier ops t p s"
  using assms(3)
proof (cases rule: resolve_verified_cases)
  case (copied info object rr)
  have "(t, p) \<noteq> (dm_tenant d, pi_path info) \<or> rr \<noteq> Ok ()" using assms(4) copied(3) by auto
  then show ?thesis
    using record_frame [OF sign_inv [OF assms(1,2)] copied(2) [unfolded assms(1)], of t p] sign_frame [OF assms(1,2)] by simp
qed simp_all

lemma resolve_verified_Some:
  assumes "dm_ops d = ops" and "inv s" and "resolve_verified d hp s = (Some p, s')"
  shows "op_is_valid_path ops (dm_tenant d) p s' \<and>
    (s' = s \<or> (\<exists>t info. op_tier ops t p s = Some Verified \<and> op_query_path_info ops t p s = Some info \<and>
         op_tier ops (dm_tenant d) p s' = Some Verified \<and>
         op_query_path_info ops (dm_tenant d) p s' =
           Some (info\<lparr>pi_sigs := add_sig (own_signature d (info\<lparr>pi_sigs := []\<rparr>) s) []\<rparr>)))"
  using assms(3)
proof (cases rule: resolve_verified_cases)
  case (found q)
  then show ?thesis using from_hash_part [OF assms(2)] assms(1) by simp
next
  case (copied info object rr)
  obtain t where t: "op_tier ops t (pi_path info) s = Some Verified" "op_query_path_info ops t (pi_path info) s = Some info"
      and wf: "wf_object object"
    using find_verified [OF assms(2)] copied(1) assms(1) by blast
  have p: "p = pi_path info" and rr: "rr = Ok ()" using copied(3) by (auto split: if_splits)
  note rec = copied(2) [unfolded assms(1) rr]
  show ?thesis
    using valid_after_record [OF sign_inv [OF assms(1,2)] wf rec] record_query [OF sign_inv [OF assms(1,2)] wf rec] t p
    by (auto simp: sign_if_vouchable_fst)
qed simp

end

subsection \<open>Properties over the PostgreSQL store\<close>

text \<open>
  C27: How \<open>resolve_verified\<close> shares a path between tenants (it answers \<open>queryPathFromHashPart\<close>, and is what
  the other queries try first). When a hash part resolves, the path is valid for the tenant; the database
  changed only if some tenant held that path as verified, and then the tenant's new row is that metadata with no
  signature but the tenant's own. No other path and no other tenant is affected. Paths that came from an
  upstream cache are shared elsewhere, by \<open>resolve_from_one\<close>, with the signatures of the upstream.
\<close>

theorem shared_row_resigned:
  assumes "dm_ops d = postgres_ops pub" and "pg_inv s" and "resolve_verified d hp s = (r, s')"
  shows "pg_inv s' \<and>
    (\<forall>p. r = Some p \<longrightarrow> op_is_valid_path (dm_ops d) (dm_tenant d) p s' \<and>
      (s' = s \<or> (\<exists>t info. op_tier (dm_ops d) t p s = Some Verified \<and> op_query_path_info (dm_ops d) t p s = Some info \<and>
         op_tier (dm_ops d) (dm_tenant d) p s' = Some Verified \<and>
         op_query_path_info (dm_ops d) (dm_tenant d) p s' =
           Some (info\<lparr>pi_sigs := add_sig (own_signature d (info\<lparr>pi_sigs := []\<rparr>) s) []\<rparr>)))) \<and>
    (\<forall>t p. t \<noteq> dm_tenant d \<or> r \<noteq> Some p \<longrightarrow>
      op_query_path_info (dm_ops d) t p s' = op_query_path_info (dm_ops d) t p s \<and> op_tier (dm_ops d) t p s' = op_tier (dm_ops d) t p s)"
  using postgres_objects.resolve_verified_inv [OF assms] postgres_objects.resolve_verified_Some [OF assms(1,2), of hp _ s']
    postgres_objects.resolve_verified_frame [OF assms] assms(1,3) by (cases r) simp_all

lemma postgres_record_output:
  assumes "dm_ops d = postgres_ops pub" and "pg_inv s" and "pg_fault s = None" and "pg_actor_up s" and "length (oi_file_hash o1) = 32"
  shows "pg_fault (record_output d o1 s) = None \<and> pg_actor_up (record_output d o1 s) \<and>
    op_tier (postgres_ops pub) (dm_tenant d) (oi_store_path o1) (record_output d o1 s) = Some Built"
proof -
  let ?s = "snd (sign_if_vouchable d (output_path_info o1) Built s)" and ?i = "fst (sign_if_vouchable d (output_path_info o1) Built s)"
  have up: "pg_fault ?s = None" "pg_actor_up ?s"
    using postgres_signer_up [OF assms(3,4)] assms(1) by (simp_all add: sign_if_vouchable_snd)
  obtain s' where rec: "op_record_path (postgres_ops pub) (dm_tenant d) ?i (output_remote o1) Built ?s = (Ok (), s')"
    using postgres_record_accepts [OF up] by (metis prod.collapse)
  then have u: "upsert_path_inner (dm_tenant d) ?i (output_remote o1) Built None ?s = (Ok (), s')"
    using up by (simp add: postgres_ops_def pg_ops)
  have "record_output d o1 s = s'" using rec assms(1) by (simp add: record_output_eq)
  then show ?thesis
    using upsert_ok [OF up(1) u] up(2)
      postgres.record_query [OF postgres_objects.sign_inv [OF assms(1,2)] output_remote_wf [OF assms(5)] rec] by simp
qed

lemma postgres_record_all:
  assumes "dm_ops d = postgres_ops pub"
  shows "pg_inv s \<Longrightarrow> pg_fault s = None \<Longrightarrow> pg_actor_up s \<Longrightarrow> \<forall>o1\<in>set os. length (oi_file_hash o1) = 32 \<Longrightarrow> p \<in> oi_store_path ` set os \<Longrightarrow>
    op_tier (postgres_ops pub) (dm_tenant d) p (foldl (\<lambda>s o1. record_output d o1 s) s os) = Some Built"
proof (induction os arbitrary: s)
  case (Cons o1 os)
  let ?s = "record_output d o1 s"
  have i: "pg_inv ?s" using postgres_objects.record_output_inv [OF assms Cons.prems(1)] Cons.prems(4) by simp
  note r = postgres_record_output [OF assms Cons.prems(1-3), of o1]
  show ?case
  proof (cases "p \<in> oi_store_path ` set os")
    case True
    then show ?thesis using Cons.IH [OF i] r Cons.prems(4) by simp
  next
    case False
    then have "p = oi_store_path o1" using Cons.prems(5) by auto
    then show ?thesis
      using postgres_objects.record_all_frame [OF assms i, of os "dm_tenant d" p] False r Cons.prems(4) by simp
  qed
qed simp

text \<open>
  C2: A finished job can only touch the outputs it was dispatched for. If the worker reports a
  single path outside that set, nothing is recorded and the client is told the build failed; a
  failed job records nothing either. Otherwise every reported path is valid afterwards as built,
  and nothing but expected outputs of this tenant changes. The status is \<open>Built\<close> exactly when the
  job completed and reported nothing unexpected.
\<close>

theorem build_records_only_expected:
  assumes "dm_ops d = postgres_ops pub" and "pg_inv s" and "pg_fault s = None" and "pg_actor_up s"
    and "\<forall>outs infos log. oc = Completed outs infos log \<longrightarrow> (\<forall>o1\<in>set infos. length (oi_file_hash o1) = 32)"
    and "report_outcome d expected oc s = (result, s')"
  shows "pg_inv s' \<and>
    (br_status result = StatusBuilt \<longleftrightarrow>
      (\<exists>outs infos log. oc = Completed outs infos log \<and> oi_store_path ` set infos \<subseteq> snd ` set expected)) \<and>
    (if br_status result = StatusBuilt
     then \<forall>p \<in> oi_store_path ` set (oc_infos oc). op_tier (dm_ops d) (dm_tenant d) p s' = Some Built
     else s' = s) \<and>
    (\<forall>t p. t \<noteq> dm_tenant d \<or> p \<notin> snd ` set expected \<longrightarrow>
      op_query_path_info (dm_ops d) t p s' = op_query_path_info (dm_ops d) t p s \<and> op_tier (dm_ops d) t p s' = op_tier (dm_ops d) t p s)"
proof (cases oc)
  case (Failed m log kind)
  have "fst (failure_status kind m) \<noteq> StatusBuilt" by (cases "(kind, m)" rule: failure_status.cases) simp_all
  then show ?thesis using assms(2,6) Failed by auto
next
  case (Completed outs infos log)
  let ?s = "foldl (\<lambda>s o1. record_output d o1 s) s infos"
  have wf: "\<forall>o1\<in>set infos. length (oi_file_hash o1) = 32" using assms(5) Completed by blast
  show ?thesis
  proof (cases "oi_store_path ` set infos \<subseteq> snd ` set expected")
    case True
    then have "filter (\<lambda>o1. oi_store_path o1 \<notin> snd ` set expected) infos = []" by (auto simp: filter_empty_conv)
    then have s': "s' = ?s" "br_status result = StatusBuilt"
      using assms(6) Completed by (auto simp: record_outputs_def Let_def)
    moreover have "\<forall>t p. t \<noteq> dm_tenant d \<or> p \<notin> snd ` set expected \<longrightarrow>
        op_query_path_info (dm_ops d) t p ?s = op_query_path_info (dm_ops d) t p s \<and> op_tier (dm_ops d) t p ?s = op_tier (dm_ops d) t p s"
      using postgres_objects.record_all_frame [OF assms(1,2) wf] True assms(1) by (simp add: subset_iff) blast
    ultimately show ?thesis
      using True Completed postgres_objects.record_all_inv [OF assms(1,2) wf] postgres_record_all [OF assms(1-4) wf] assms(1) by simp
  next
    case False
    then have "filter (\<lambda>o1. oi_store_path o1 \<notin> snd ` set expected) infos \<noteq> []" by (auto simp: filter_empty_conv)
    then show ?thesis using assms(2,6) Completed False by (auto simp: record_outputs_def Let_def)
  qed
qed

subsection \<open>The token of a dispatched job\<close>

lemma cap_verify_signed:
  assumes "jwt_ok j" and "wf_tenant (cap_tenant cap)" and "fst (op_capability_secret sops kid s) = Some secret"
  shows "fst (cap_verify j sops (cap_sign j cap kid secret) s) = Some cap"
  using assms into_capability_claims_from [OF assms(2)]
  by (cases "op_capability_secret sops kid s") (simp add: cap_verify_def cap_sign_def jwt_ok_def Let_def valid_utf8_as_bytes)

lemma ensure_tenant_id_tenants: "\<exists>ts. snd (ensure_tenant_id t db) = db\<lparr>pg_tenants := ts\<rparr>"
proof -
  have "\<exists>ts. db = db\<lparr>pg_tenants := ts\<rparr>" by (rule exI [of _ "pg_tenants db"]) simp
  then show ?thesis unfolding ensure_tenant_id_def by (auto split: option.split)
qed

lemma signer_db_tenants: "\<exists>ts. snd (signer_db pub t seed db) = db\<lparr>pg_tenants := ts\<rparr>"
proof -
  obtain r db1 where e: "ensure_tenant_id t db = (r, db1)" by fastforce
  obtain ts where "db1 = db\<lparr>pg_tenants := ts\<rparr>" using ensure_tenant_id_tenants [of t db] e by auto
  then show ?thesis by (auto simp: signer_db_def e Let_def split: res.split option.split)
qed

lemma signer_keeps_secrets:
  "fst (op_capability_secret (postgres_secret_ops pub) kid (snd (op_signer (postgres_ops pub') t seed s))) =
   fst (op_capability_secret (postgres_secret_ops pub) kid s)"
proof -
  obtain ts where "snd (op_signer (postgres_ops pub') t seed s) = s\<lparr>pg_tenants := ts\<rparr>"
    using signer_db_tenants [of pub' t seed s] by (cases "pg_actor_up s") (auto simp: postgres_ops_def pg_ops intro: that [of "pg_tenants s"])
  moreover have "fst (capability_secret_db kid (s\<lparr>pg_tenants := ts\<rparr>)) = fst (capability_secret_db kid s)"
    by (simp add: capability_secret_db_def on_db_def split: option.split)
  ultimately show ?thesis by (simp add: postgres_secret_ops_def pg_ops)
qed

text \<open>The state after the token is minted differs from the state the job is submitted in only by what a signer changes.\<close>

lemma prepare_job_eq:
  assumes "op_current_capability_secret (dm_secrets d) (dm_fresh_secret d) (dm_salt d) s = ((kid, secret), s1)"
  shows "bj_token (fst (prepare_job d path drv parsed expected staged s)) =
      cap_sign (dm_jwt d) \<lparr>cap_job_id = dm_job_id d, cap_tenant = dm_tenant d, cap_derivation_path = path,
                           cap_expected_outputs = expected\<rparr> kid secret"
    and "snd (prepare_job d path drv parsed expected staged s) =
      (case dm_http_host d of None \<Rightarrow> s1 | Some host \<Rightarrow> snd (op_signer (dm_ops d) (dm_tenant d) (dm_seed d) s1))"
  using assms by (auto simp: prepare_job_def Let_def substituters_for_guest_def split_beta split: option.split)

lemma token_authorizes_iff:
  assumes "dm_ops d = postgres_ops pub" and "dm_secrets d = postgres_secret_ops pub" and "pg_secret_inv s"
    and "length (dm_fresh_secret d) = 32" and "jwt_ok (dm_jwt d)" and "wf_tenant (dm_tenant d)"
    and "prepare_job d path drv parsed expected staged s = (job, s')" and "rq_token rq = bj_token job"
  shows "fst (handle (dm_jwt d) (dm_secrets d) presign (Ok rq) s') = Ok urls \<longleftrightarrow>
    list_all (\<lambda>key. key_is_permitted key (rq_download rq) (dm_tenant d) \<and>
       (rq_download rq \<or> (\<exists>out \<in> set expected. nar_key (dm_tenant d) Built (snd out) = Some key) \<or>
        log_key (dm_tenant d) path = Some key)) (rq_keys rq) \<and>
    map (presign (rq_download rq)) (rq_keys rq) = map Ok urls"
proof -
  obtain kid secret s1 where cur: "op_current_capability_secret (dm_secrets d) (dm_fresh_secret d) (dm_salt d) s = ((kid, secret), s1)"
    by (metis surj_pair)
  let ?cap = "\<lparr>cap_job_id = dm_job_id d, cap_tenant = dm_tenant d, cap_derivation_path = path, cap_expected_outputs = expected\<rparr>"
  have "fst (op_capability_secret (dm_secrets d) kid s1) = Some secret"
    using postgres_secrets.current_lookup [OF assms(3,4)] cur assms(2) by simp
  then have "fst (op_capability_secret (dm_secrets d) kid s') = Some secret"
    using prepare_job_eq(2) [OF cur, of path drv parsed expected staged] assms(1,2,7) signer_keeps_secrets
    by (simp split: option.splits)
  then have "fst (cap_verify (dm_jwt d) (dm_secrets d) (rq_token rq) s') = Some ?cap"
    using cap_verify_signed [OF assms(5), of ?cap "dm_secrets d" kid s' secret] prepare_job_eq(1) [OF cur, of path drv parsed expected staged]
      assms(6-8) by simp
  moreover have "key_ok ?cap down key \<longleftrightarrow> key_is_permitted key down (dm_tenant d) \<and>
      (down \<or> (\<exists>out \<in> set expected. nar_key (dm_tenant d) Built (snd out) = Some key) \<or> log_key (dm_tenant d) path = Some key)" for down key
    by (auto simp: key_ok_def allowed_uploads_def List.map_filter_def image_iff split: option.splits; force)
  ultimately show ?thesis by (simp add: handle_Ok_iff list_all_iff)
qed

text \<open>
  C4: The token a worker receives with its job is honoured by the upload service for exactly that
  job: whatever the service is asked with it, it answers with URLs if and only if every requested
  key is permitted to the job's tenant and, for an upload, is the object of one of the outputs
  recomputed for this derivation or the log of this derivation.
\<close>

theorem dispatched_token_authorizes:
  assumes "dm_ops d = postgres_ops pub" and "dm_secrets d = postgres_secret_ops pub" and "pg_secret_inv s"
    and "length (dm_fresh_secret d) = 32" and "jwt_ok (dm_jwt d)" and "wf_tenant (dm_tenant d)"
    and "prepare_job d path drv parsed expected staged s = (job, s')" and "rq_token rq = bj_token job"
  shows "fst (handle (dm_jwt d) (dm_secrets d) presign (Ok rq) s') = Ok urls \<longleftrightarrow>
    list_all (\<lambda>key. key_is_permitted key (rq_download rq) (dm_tenant d) \<and>
       (rq_download rq \<or> (\<exists>out \<in> set expected. nar_key (dm_tenant d) Built (snd out) = Some key) \<or>
        log_key (dm_tenant d) path = Some key)) (rq_keys rq) \<and>
    map (presign (rq_download rq)) (rq_keys rq) = map Ok urls"
  by (rule token_authorizes_iff [OF assms])

subsection \<open>A job that was never submitted\<close>

lemma current_secret_frame:
  "pg_jobs (snd (current_capability_secret_db fresh salt db)) = pg_jobs db"
  "pg_now (snd (current_capability_secret_db fresh salt db)) = pg_now db"
  "pg_fault (snd (current_capability_secret_db fresh salt db)) = pg_fault db"
  "pg_actor_up (snd (current_capability_secret_db fresh salt db)) = pg_actor_up db"
  by (auto simp: current_capability_secret_db_def refresh_secret_def remember_secret_def Let_def split: option.split)

lemma prepare_job_frame:
  assumes "dm_ops d = postgres_ops pub" and "dm_secrets d = postgres_secret_ops pub"
    and "prepare_job d path drv parsed expected staged s = (job, s')"
  shows "pg_jobs s' = pg_jobs s \<and> pg_now s' = pg_now s \<and> pg_fault s' = pg_fault s \<and> pg_actor_up s' = pg_actor_up s \<and>
    bj_job_id job = dm_job_id d"
proof -
  let ?s1 = "snd (op_current_capability_secret (dm_secrets d) (dm_fresh_secret d) (dm_salt d) s)"
  have s1: "pg_jobs ?s1 = pg_jobs s" "pg_now ?s1 = pg_now s" "pg_fault ?s1 = pg_fault s" "pg_actor_up ?s1 = pg_actor_up s"
    using assms(2) by (simp_all add: postgres_secret_ops_def pg_ops current_secret_frame)
  obtain ts where sg: "snd (op_signer (dm_ops d) (dm_tenant d) (dm_seed d) ?s1) = ?s1\<lparr>pg_tenants := ts\<rparr>"
    using signer_db_tenants [of pub "dm_tenant d" "dm_seed d" ?s1] assms(1)
    by (cases "pg_actor_up ?s1") (auto simp: postgres_ops_def pg_ops intro: that [of "pg_tenants ?s1"])
  obtain kid secret where cur: "op_current_capability_secret (dm_secrets d) (dm_fresh_secret d) (dm_salt d) s = ((kid, secret), ?s1)"
    by (metis prod.collapse)
  have "s' = ?s1 \<or> s' = ?s1\<lparr>pg_tenants := ts\<rparr>"
    using prepare_job_eq(2) [OF cur, of path drv parsed expected staged] assms(3) sg by (auto split: option.splits)
  then show ?thesis using s1 assms(3) by (auto simp: prepare_job_def Let_def split: prod.splits)
qed

lemma reserve_actor: "pg_actor_up (snd (reserve_job_db (\<lambda>_ db. db) t j p sys ret db)) = pg_actor_up db"
proof -
  obtain r db1 where e: "ensure_tenant_id t db = (r, db1)" by fastforce
  then have "pg_actor_up db1 = pg_actor_up db" using ensure_tenant_id_frame(6) [of t db] by simp
  moreover have "pg_actor_up (snd (reserve_insert t j p sys ret db1)) = pg_actor_up db1"
    by (simp add: reserve_insert_def split: option.split prod.split)
  ultimately show ?thesis
    by (auto simp: reserve_seq e split: res.split prod.split insert_result.split option.split)
qed

text \<open>
  A job that could not be submitted still blocks its derivation. When the queue refuses the
  submission of a won job, the build request fails without recording an outcome, and until the
  retention of results has passed every further request of the tenant for this derivation is told
  to attach to the job that no worker will ever see.
\<close>

theorem failed_dispatch_blocks_retries:
  assumes "dm_ops d = postgres_ops pub" and "dm_secrets d = postgres_secret_ops pub"
    and "jobs_inv (cs_store c)" and "pg_fault (cs_store c) = None" and "pg_actor_up (cs_store c)"
    and "check_derivation d raw drv = Ok (path, parsed, expected)" and "\<not> co_use_substitutes (cs_options c)"
    and "dm_queue d = Some q" and "running_for (dm_tenant d) path (cs_store c) = None" and "map_of (pg_jobs (cs_store c)) (dm_job_id d) = None"
    and "\<forall>job. \<exists>e. q_submit q job = Err e" and "q_subscribe_logs q (dm_job_id d) = Ok ()" and "q_result_consumer q (dm_job_id d) = Ok ()"
    and "now \<le> pg_now (cs_store c) + q_results_retention q"
  shows "\<exists>e c'. build_derivation d raw drv c = (Err e, c') \<and>
    fst (op_reserve_job (dm_ops d) (dm_tenant d) later path sys (q_results_retention q) (cs_store c'\<lparr>pg_now := now\<rparr>)) = Lost (dm_job_id d)"
proof -
  let ?s = "cs_store c" and ?sys = "sys_str (dm_system d)"
  obtain s1 where won: "reserve_job_db (\<lambda>_ db. db) (dm_tenant d) (dm_job_id d) path ?sys (q_results_retention q) ?s = (Won, s1)"
    by (rule reserve_free [OF assms(4,9)])
  obtain r where s1: "pg_fault s1 = None" "pg_now s1 = pg_now ?s"
      "running_for (dm_tenant d) path s1 = Some (dm_job_id d, r)" "jb_created_at r = pg_now ?s"
    using reserve_won [OF assms(3,4,10) won] by blast
  obtain job s2 where prep: "prepare_job d path drv parsed expected (cs_staged c) s1 = (job, s2)" by fastforce
  note s2 = prepare_job_frame [OF assms(1,2) prep]
  obtain e where e: "q_submit q job = Err e" using assms(11) by blast
  have disp: "\<exists>e. dispatch q job st = (Err e, st)" for st
    using assms(12,13) e s2 by (simp add: dispatch_def)
  have op: "op_reserve_job (dm_ops d) (dm_tenant d) (dm_job_id d) path ?sys (q_results_retention q) ?s = (Won, s1)"
    using assms(1,5) won by (simp add: postgres_ops_def pg_ops)
  obtain e' where run: "run_job d q path drv parsed expected (cs_staged c) (?s, cs_objects c) = (Err e', s2, cs_objects c)"
    using op prep disp [of "(s2, cs_objects c)"] by (auto simp: run_job_def)
  have "on_objects (all_outputs_available d (cs_options c) expected) c = (False, c)"
    using assms(7) by (simp add: on_objects_def all_outputs_available_def)
  moreover have "on_objects (run_job d q path drv parsed expected (cs_staged c)) c = (Err e', c\<lparr>cs_store := s2\<rparr>)"
    using run by (simp add: on_objects_def)
  ultimately have "build_derivation d raw drv c = (Err e', c\<lparr>cs_store := s2\<rparr>)"
    using assms(6,8) by (simp add: build_derivation_def)
  moreover have "fst (reserve_job_db (\<lambda>_ db. db) (dm_tenant d) later path sys (q_results_retention q) (s2\<lparr>pg_now := now\<rparr>)) = Lost (dm_job_id d)"
    by (rule reserve_lost [where r = r]) (use s1 s2 assms(14) in \<open>simp_all add: running_for_def\<close>)
  moreover have "pg_actor_up s2"
    using s2 won assms(5) reserve_actor [of "dm_tenant d" "dm_job_id d" path ?sys "q_results_retention q" ?s] by simp
  ultimately show ?thesis using assms(1) by (auto simp: postgres_ops_def pg_ops)
qed

subsection \<open>An upstream that answers with another path\<close>

lemma resolve_first:
  assumes "\<not> op_substituter_negative_cache_hit ops t hp s" and "op_trusted_substituters ops t s = [(url, pk)]"
    and "op_find_substituted_by_hash_part ops hp s = None"
    and "fetch_one w sha url hp dir objs = (Ok (Some (info, object)), objs')"
    and "op_record_substituted_path ops t info object url pk s = (Ok u, s')"
  shows "resolve ops w sha t hp dir (s, objs) = (Some (info, object), s', objs')"
  using assms by (simp add: resolve_def resolve_from_one_def)

text \<open>
  What an upstream returns is not compared with what was asked for. If the one trusted
  substituter answers the request for an output's hash part with a well-formed archive of another
  path, that other path is recorded, the build is reported as done without any job, and the
  output the client asked for is still not valid.
\<close>

theorem wrong_upstream_path_counts_as_built:
  assumes "dm_ops d = postgres_ops pub" and "pg_inv (cs_store c)" and "pg_fault (cs_store c) = None" and "pg_actor_up (cs_store c)"
    and "check_derivation d raw drv = Ok (path, parsed, [(name, p)])" and "co_use_substitutes (cs_options c)" and "dm_has_uploader d"
    and "\<not> op_is_valid_path (dm_ops d) (dm_tenant d) p (cs_store c)" and "hash_part p = Some hp"
    and "\<not> op_substituter_negative_cache_hit (dm_ops d) (dm_tenant d) hp (cs_store c)"
    and "op_trusted_substituters (dm_ops d) (dm_tenant d) (cs_store c) = [(url, pk)]"
    and "op_find_substituted_by_hash_part (dm_ops d) hp (cs_store c) = None" and "head_ok (dm_web d) hp (url, pk)"
    and "fetch_one (dm_web d) (dm_sha d) url hp (dm_store_dir d) (cs_objects c) = (Ok (Some (info, object)), objs')"
    and "pi_path info \<noteq> p"
  shows "\<exists>result c'. build_derivation d raw drv c = (Ok result, c') \<and> br_status result = StatusBuilt \<and>
    op_is_valid_path (dm_ops d) (dm_tenant d) p (cs_store c') = False"
proof -
  let ?s = "cs_store c"
  obtain r s' where up: "upsert_path_inner (dm_tenant d) info object Substituted (Some (url, pk)) ?s = (r, s')" by fastforce
  note ok = upsert_ok [OF assms(3) up]
  have rec: "op_record_substituted_path (dm_ops d) (dm_tenant d) info object url pk ?s = (Ok (), s')"
    using up ok assms(1,4) by (simp add: postgres_ops_def pg_ops)
  have ex: "sub_exists (dm_ops d) (dm_web d) (dm_tenant d) hp ?s = (True, ?s)"
    using assms(10-13) by (simp add: sub_exists_def)
  have "all_outputs_available d (cs_options c) [(name, p)] (?s, cs_objects c) = (True, s', objs')"
    using assms(6-9) ex resolve_first [OF assms(10-12,14) rec] by (simp add: all_outputs_available_def resolve_substituted_def)
  then have "build_derivation d raw drv c =
      (Ok \<lparr>br_status = StatusBuilt, br_error_msg = [], br_times_built = 0\<rparr>, c\<lparr>cs_store := s', cs_objects := objs'\<rparr>)"
    using assms(5) by (simp add: build_derivation_def on_objects_def)
  moreover have "\<not> op_is_valid_path (dm_ops d) (dm_tenant d) p s'"
    using upsert_frame [OF assms(2) up, of "dm_tenant d" p] assms(1,4,8,15) ok
    by (simp add: postgres_ops_def pg_ops valid_iff_db)
  ultimately show ?thesis by simp
qed

subsection \<open>Concrete runs\<close>

definition ex_out_path :: store_path where
  "ex_out_path = StorePath (replicate 32 (CHR ''1'') @ ''-x'')"

definition ex_parsed :: basic_derivation where
  "ex_parsed = \<lparr>outputs = [\<lparr>o_name = ''out'', o_path = ex_out_path, o_algo = [], o_hash = []\<rparr>], input_srcs = [],
     platform = System ''x86_64-linux'', builder = ''/bin/sh'', args = [], env = env_of []\<rparr>"

definition ex_drv_path :: store_path where
  "ex_drv_path = StorePath (replicate 32 (CHR ''2'') @ ''-x.drv'')"

definition ex_drv_bytes :: bytes where
  "ex_drv_bytes = serialize ''/s'' ex_parsed []"

lemma ex_out_path_hash: "hash_part ex_out_path = Some (replicate 32 (CHR ''1''))"
  by code_simp

lemma ex_parse: "parse ex_drv_bytes ''/s'' = Ok ex_parsed"
  unfolding ex_drv_bytes_def
  by (rule parse_of_serialize)
    (auto simp: wf_derivation_def wf_output_def to_full_def serialize_def enc_list_def ex_parsed_def ex_out_path_def
      enc_output_def enc_string_def length_enc_bytes padding_def intro!: is_utf8_ascii)

lemma ex_check:
  assumes "dm_store_dir d = ''/s''"
  shows "check_derivation d (write_store_path ''/s'' ex_drv_path) ex_drv_bytes = Ok (ex_drv_path, ex_parsed, [(''out'', ex_out_path)])"
proof -
  have "is_utf8 (to_full ''/s'' ex_drv_path)" by code_simp
  then show ?thesis
    using assms ex_parse by (simp add: check_derivation_def to_store_path_write expected_output_def) (simp add: ex_parsed_def expected_output_def)
qed

definition ex_output :: output_info where
  "ex_output = \<lparr>oi_store_path = ex_out_path, oi_nar_hash = replicate 32 1, oi_nar_size = 7, oi_file_hash = replicate 32 2,
     oi_file_size = 5, oi_key = ObjectKey ''k'', oi_compression = Zstd, oi_references = [], oi_deriver = None\<rparr>"

lemma build_records_only_expected_witness:
  "\<exists>result s'. report_outcome ex_daemon [(''out'', ex_out_path)] (Completed [ex_out_path] [ex_output] ''log'') pg_empty = (result, s') \<and>
     br_status result = StatusBuilt \<and> op_tier (postgres_ops id) (TenantId ''alice'') ex_out_path s' = Some Built"
proof -
  obtain result s' where r: "report_outcome ex_daemon [(''out'', ex_out_path)] (Completed [ex_out_path] [ex_output] ''log'') pg_empty = (result, s')"
    by fastforce
  have o: "oi_store_path ex_output = ex_out_path" "length (oi_file_hash ex_output) = 32" by (simp_all add: ex_output_def)
  from build_records_only_expected [OF ex_daemon_simps(1) _ _ _ _ r] have "op_tier (dm_ops ex_daemon) (dm_tenant ex_daemon) (oi_store_path ex_output) s' = Some Built" and "br_status result = StatusBuilt"
    using o by (simp_all del: report_outcome.simps split: if_splits)
  then show ?thesis using r o by (simp del: report_outcome.simps)
qed

text \<open>A token that can be read back: the claims numbered, printed in decimal.\<close>

definition claims_code :: "string \<Rightarrow> claims \<Rightarrow> nat" where
  "claims_code kid c = to_nat (kid, unat (cl_job_id c), cl_tenant c, cl_derivation_path c, cl_expected_outputs c)"

definition ex_tokens :: jwt where
  "ex_tokens = \<lparr>jwt_encode = \<lambda>kid c _. show_nat (claims_code kid c),
     jwt_header_kid = \<lambda>t. Some (fst (from_nat (digits_val t) :: string \<times> nat \<times> string \<times> string \<times> (string \<times> string) list)),
     jwt_decode = \<lambda>t _. (case from_nat (digits_val t) :: string \<times> nat \<times> string \<times> string \<times> (string \<times> string) list of
        (_, j, tn, p, os) \<Rightarrow> Some \<lparr>cl_job_id = of_nat j, cl_tenant = tn, cl_derivation_path = p, cl_expected_outputs = os\<rparr>)\<rparr>"

lemma ex_tokens_ok: "jwt_ok ex_tokens"
proof -
  have "is_utf8 (show_nat n)" for n
    by (rule is_utf8_ascii) (use show_nat_digits [of n] in \<open>force simp: list_all_iff is_dec_digit_def\<close>)
  then show ?thesis by (simp add: jwt_ok_def ex_tokens_def claims_code_def digits_val_show_nat)
qed

lemma dispatched_token_authorizes_witness:
  "\<exists>job s'. prepare_job (ex_daemon\<lparr>dm_jwt := ex_tokens\<rparr>) ex_drv_path ex_drv_bytes ex_parsed [(''out'', ex_out_path)] [] pg_empty = (job, s') \<and>
     fst (handle ex_tokens (postgres_secret_ops id) (\<lambda>_ k. Ok (key_str k))
       (Ok \<lparr>rq_job_id = [], rq_keys = [ObjectKey (''alice/nar/'' @ replicate 32 (CHR ''1'') @ ''.nar.zst'')], rq_download = False, rq_token = bj_token job\<rparr>) s') =
     Ok [''alice/nar/'' @ replicate 32 (CHR ''1'') @ ''.nar.zst'']"
proof -
  obtain job s' where p: "prepare_job (ex_daemon\<lparr>dm_jwt := ex_tokens\<rparr>) ex_drv_path ex_drv_bytes ex_parsed [(''out'', ex_out_path)] [] pg_empty = (job, s')"
    by fastforce
  let ?rq = "\<lparr>rq_job_id = [], rq_keys = [ObjectKey (''alice/nar/'' @ replicate 32 (CHR ''1'') @ ''.nar.zst'')], rq_download = False, rq_token = bj_token job\<rparr>"
  let ?d = "ex_daemon\<lparr>dm_jwt := ex_tokens\<rparr>"
  have d: "dm_ops ?d = postgres_ops id" "dm_secrets ?d = postgres_secret_ops id" "length (dm_fresh_secret ?d) = 32" "dm_jwt ?d = ex_tokens"
      "dm_tenant ?d = TenantId ''alice''"
    by (simp_all add: ex_daemon_def)
  have "pg_secret_inv pg_empty" by (simp add: pg_secret_inv_def pg_empty_def)
  moreover have "wf_tenant (TenantId ''alice'')" by code_simp
  moreover have "key_is_permitted (ObjectKey (''alice/nar/'' @ replicate 32 (CHR ''1'') @ ''.nar.zst'')) False (TenantId ''alice'')" by code_simp
  moreover have "nar_key (TenantId ''alice'') Built ex_out_path = Some (ObjectKey (''alice/nar/'' @ replicate 32 (CHR ''1'') @ ''.nar.zst''))"
    by (simp add: nar_key_def ex_out_path_hash)
  ultimately show ?thesis
    using dispatched_token_authorizes [OF d(1,2) _ d(3) _ _ p, where rq = ?rq and presign = "\<lambda>_ k. Ok (key_str k)"] p d ex_tokens_ok by auto
qed

definition ex_queue :: "pg queue" where
  "ex_queue = \<lparr>q_results_retention = 60, q_subscribe_logs = \<lambda>_. Ok (), q_result_consumer = \<lambda>_. Ok (),
     q_submit = \<lambda>_. Err [OpaqueCause ''no responders''], q_watch = \<lambda>_ _ _ st. (Err [], st)\<rparr>"

lemma failed_dispatch_blocks_retries_witness:
  "\<exists>e c'. build_derivation (ex_daemon\<lparr>dm_queue := Some ex_queue\<rparr>) (write_store_path ''/s'' ex_drv_path) ex_drv_bytes ex_conn = (Err e, c') \<and>
     fst (op_reserve_job (postgres_ops id) (TenantId ''alice'') 2 ex_drv_path ''x86_64-linux'' 60 (cs_store c'\<lparr>pg_now := 30\<rparr>)) = Lost 1"
proof -
  let ?d = "ex_daemon\<lparr>dm_queue := Some ex_queue\<rparr>"
  have d: "dm_ops ?d = postgres_ops id" "dm_secrets ?d = postgres_secret_ops id" "dm_queue ?d = Some ex_queue" "dm_job_id ?d = 1"
      "dm_tenant ?d = TenantId ''alice''" "q_results_retention ex_queue = 60"
    by (simp_all add: ex_daemon_def ex_queue_def)
  have "running_for (TenantId ''alice'') ex_drv_path pg_empty = None" "\<not> co_use_substitutes (cs_options ex_conn)"
      "pg_jobs pg_empty = []" "pg_now pg_empty = 0"
    by (simp_all add: running_for_def pg_empty_def ex_conn_def client_options_default_def)
  then show ?thesis
    using failed_dispatch_blocks_retries [OF d(1,2) _ _ _ ex_check _ d(3), of ex_conn 30 2 "''x86_64-linux''"] pg_empty_jobs_inv d
    by (simp add: ex_queue_def)
qed

definition ex_shared :: pg where
  "ex_shared = snd (upsert_path_inner (TenantId ''bob'') ex_info
     \<lparr>ro_key = ObjectKey ''k'', ro_file_size = 1, ro_file_hash = replicate 32 0, ro_compression = Zstd\<rparr> Verified None pg_empty)"

lemma ex_shared_inv: "pg_inv ex_shared"
  unfolding ex_shared_def
  by (rule upsert_inv [OF ex_conn_simps(2) _ prod.collapse [symmetric]]) (simp add: wf_object_def)

lemma shared_row_resigned_witness:
  "\<exists>s'. resolve_verified ex_daemon ex_hash ex_shared = (Some (pi_path ex_info), s') \<and>
     op_is_valid_path (postgres_ops id) (TenantId ''alice'') (pi_path ex_info) s'"
proof -
  have "fst (resolve_verified ex_daemon ex_hash ex_shared) = Some (pi_path ex_info)" by code_simp
  then obtain s' where r: "resolve_verified ex_daemon ex_hash ex_shared = (Some (pi_path ex_info), s')"
    by (cases "resolve_verified ex_daemon ex_hash ex_shared") auto
  from shared_row_resigned [OF ex_daemon_simps(1) ex_shared_inv r] r show ?thesis by simp
qed

definition ex_trusting :: pg where
  "ex_trusting = pg_empty\<lparr>pg_tenant_substituters := [(TenantId ''alice'', ''https://h/a'', ''k'')]\<rparr>"

lemma wrong_upstream_path_counts_as_built_witness:
  "\<exists>result c'. build_derivation (ex_daemon\<lparr>dm_web := ex_web (ex_upstream [1]) [1]\<rparr>) (write_store_path ''/s'' ex_drv_path) ex_drv_bytes
       (set_options 0 [] (ex_conn\<lparr>cs_store := ex_trusting\<rparr>)) = (Ok result, c') \<and>
     br_status result = StatusBuilt \<and> op_is_valid_path (postgres_ops id) (TenantId ''alice'') ex_out_path (cs_store c') = False"
proof -
  let ?d = "ex_daemon\<lparr>dm_web := ex_web (ex_upstream [1]) [1]\<rparr>" and ?c = "set_options 0 [] (ex_conn\<lparr>cs_store := ex_trusting\<rparr>)"
  have c: "cs_store ?c = ex_trusting" "co_use_substitutes (cs_options ?c)" by (simp_all add: set_options_def)
  have s: "pg_inv ex_trusting" "pg_fault ex_trusting = None" "pg_actor_up ex_trusting"
    by (simp_all add: ex_trusting_def pg_empty_def pg_inv_def)
  have o: "\<not> op_is_valid_path (postgres_ops id) (TenantId ''alice'') ex_out_path ex_trusting"
      "\<not> op_substituter_negative_cache_hit (postgres_ops id) (TenantId ''alice'') hp ex_trusting"
      "op_trusted_substituters (postgres_ops id) (TenantId ''alice'') ex_trusting = [(''https://h/a'', ''k'')]"
      "op_find_substituted_by_hash_part (postgres_ops id) hp ex_trusting = None" for hp
    by (simp_all add: postgres_ops_def pg_ops ex_trusting_def pg_empty_def on_db_def is_valid_path_db_def live_row_def store_paths_live_def
        substituter_negative_cache_hit_db_def trusted_substituters_db_def find_substituted_by_hash_part_db_def)
  have "head_ok (ex_web (ex_upstream [1]) [1]) hp sub" for hp sub by (simp add: head_ok_def ex_web_def is_success_def)
  moreover have "pi_path (ex_upstream [1]\<lparr>pi_ultimate := False\<rparr>) \<noteq> ex_out_path" by (simp add: ex_upstream_def ex_info_def ex_out_path_def)
  ultimately show ?thesis
    using wrong_upstream_path_counts_as_built [OF _ _ _ _ ex_check _ _ _ ex_out_path_hash, of ?d id ?c "''https://h/a''" "''k''"]
      ex_fetch_ok [OF ex_slug(1), of "[1]" "replicate 32 (CHR ''1'')" "cs_objects ?c"] c s o
    by (simp del: replicate.simps)
qed

end
