(* ===== verification/Admin.thy ===== *)
theory Admin
  imports Build
begin

text \<open>
  What operators run against the database: the provisioning of tenants, credentials and substituters
  (\<open>server/src/admin.rs\<close>) and the rotation of the secrets that sign capability tokens
  (\<open>server/src/rotate.rs\<close>). The parsers of keys and certificates are parameters. The lemmas show that
  a credential, once bound, leads to its tenant and to no other until it is deleted, and that a token
  stays valid for the whole retention after the secret that signed it was retired.
\<close>

subsection \<open>Tenants, substituters and credentials\<close>

datatype admin_error =
    Database string
  | TenantExists tenant_id
  | NoSuchTenant tenant_id
  | CredentialExists key_type string
  | InvalidSshKey string
  | InvalidCertificate string
  | SubstituterExists tenant_id string

record tenant_summary =
  ts_id :: tenant_id
  ts_identity :: string
  ts_verified :: bool

text \<open>The tables keep their rows in the order of insertion, which is the order of the timestamps.\<close>

definition list_tenants :: "pg \<Rightarrow> (admin_error, tenant_summary list) res" where
  "list_tenants db =
     (case pg_fault db of
        Some e \<Rightarrow> Err (Database e)
      | None \<Rightarrow>
          Ok (List.map_filter (\<lambda>(t, row). map_option (\<lambda>t. \<lparr>ts_id = t, ts_identity = tr_identity row, ts_verified = tr_verified row\<rparr>)
                (from_wire (tid_str t))) (pg_tenants db)))"

definition add_tenant :: "(bytes \<Rightarrow> bytes) \<Rightarrow> string \<Rightarrow> pg \<Rightarrow> (admin_error, tenant_id) res \<times> pg" where
  "add_tenant sha name db =
     (let id = derive_id sha (''name:'' @ name) in
      case pg_fault db of
        Some e \<Rightarrow> (Err (Database e), db)
      | None \<Rightarrow>
          if map_of (pg_tenants db) id \<noteq> None then (Err (TenantExists id), db)
          else (Ok id, seed_default_substituter id (db\<lparr>pg_tenants := pg_tenants db @ [(id, new_tenant_row name True)]\<rparr>)))"

definition list_substituters :: "tenant_id \<Rightarrow> pg \<Rightarrow> (admin_error, (string \<times> string) list) res" where
  "list_substituters t db =
     (case pg_fault db of
        Some e \<Rightarrow> Err (Database e)
      | None \<Rightarrow> Ok (map snd (filter (\<lambda>row. fst row = t) (pg_tenant_substituters db))))"

definition has_substituter :: "tenant_id \<Rightarrow> string \<Rightarrow> pg \<Rightarrow> bool" where
  "has_substituter t url db \<longleftrightarrow> list_ex (\<lambda>row. fst row = t \<and> fst (snd row) = url) (pg_tenant_substituters db)"

definition add_substituter :: "tenant_id \<Rightarrow> string \<Rightarrow> string \<Rightarrow> pg \<Rightarrow> (admin_error, unit) res \<times> pg" where
  "add_substituter t url pk db =
     (case pg_fault db of
        Some e \<Rightarrow> (Err (Database e), db)
      | None \<Rightarrow>
          if has_substituter t url db then (Err (SubstituterExists t url), db)
          else if map_of (pg_tenants db) t = None then (Err (NoSuchTenant t), db)
          else (Ok (), db\<lparr>pg_tenant_substituters := pg_tenant_substituters db @ [(t, url, pk)]\<rparr>))"

definition remove_substituter :: "tenant_id \<Rightarrow> string \<Rightarrow> pg \<Rightarrow> (admin_error, bool) res \<times> pg" where
  "remove_substituter t url db =
     (case pg_fault db of
        Some e \<Rightarrow> (Err (Database e), db)
      | None \<Rightarrow>
          (Ok (has_substituter t url db),
           db\<lparr>pg_tenant_substituters := filter (\<lambda>row. \<not> (fst row = t \<and> fst (snd row) = url)) (pg_tenant_substituters db)\<rparr>))"

definition list_credentials :: "tenant_id \<Rightarrow> pg \<Rightarrow> (admin_error, (string \<times> string) list) res" where
  "list_credentials t db =
     (case pg_fault db of
        Some e \<Rightarrow> Err (Database e)
      | None \<Rightarrow> Ok (map fst (filter (\<lambda>row. fst (snd row) = tid_str t) (pg_bindings db))))"

record credential_parsers =
  cp_ssh :: "string \<Rightarrow> (string, string \<times> bytes) res"
  cp_tls :: "string \<Rightarrow> (string, string \<times> bytes) res"

fun credential_of :: "credential_parsers \<Rightarrow> key_type \<Rightarrow> string \<Rightarrow> (admin_error, string \<times> bytes) res" where
  "credential_of ps Ssh given = map_err InvalidSshKey (cp_ssh ps given)"
| "credential_of ps Tls given = map_err InvalidCertificate (cp_tls ps given)"

definition add_credential :: "credential_parsers \<Rightarrow> tenant_id \<Rightarrow> key_type \<Rightarrow> string \<Rightarrow> pg \<Rightarrow> (admin_error, unit) res \<times> pg" where
  "add_credential ps t kt given db =
     (case credential_of ps kt given of
        Err e \<Rightarrow> (Err e, db)
      | Panic \<Rightarrow> (Panic, db)
      | Ok (key_id, key_value) \<Rightarrow>
          (case pg_fault db of
             Some e \<Rightarrow> (Err (Database e), db)
           | None \<Rightarrow>
               if map_of (pg_bindings db) (key_type_as_str kt, key_id) \<noteq> None then (Err (CredentialExists kt key_id), db)
               else if map_of (pg_tenants db) t = None then (Err (NoSuchTenant t), db)
               else (Ok (), db\<lparr>pg_bindings := pg_bindings db @ [((key_type_as_str kt, key_id), (tid_str t, Some key_value))]\<rparr>)))"

definition delete_credential :: "key_type \<Rightarrow> string \<Rightarrow> pg \<Rightarrow> (admin_error, bool) res \<times> pg" where
  "delete_credential kt key_id db =
     (case pg_fault db of
        Some e \<Rightarrow> (Err (Database e), db)
      | None \<Rightarrow>
          (Ok (map_of (pg_bindings db) (key_type_as_str kt, key_id) \<noteq> None),
           db\<lparr>pg_bindings := filter (\<lambda>row. fst row \<noteq> (key_type_as_str kt, key_id)) (pg_bindings db)\<rparr>))"

subsection \<open>Rotating the capability secrets\<close>

record rotate_stats =
  rs_ran :: bool
  rs_inserted :: bool
  rs_retired :: nat
  rs_pruned :: nat

text \<open>The database with the time each secret was retired at; a secret that is not listed is current.\<close>

record vault =
  va_db :: pg
  va_rotated_out_at :: "(nat \<times> nat) list"

definition current_kids :: "vault \<Rightarrow> nat list" where
  "current_kids v = filter (\<lambda>kid. map_of (va_rotated_out_at v) kid = None) (map fst (pg_capability_secrets (va_db v)))"

definition retire_current :: "vault \<Rightarrow> vault" where
  "retire_current v = v\<lparr>va_rotated_out_at := va_rotated_out_at v @ map (\<lambda>kid. (kid, pg_now (va_db v))) (current_kids v)\<rparr>"

definition mint_secret :: "bytes \<Rightarrow> vault \<Rightarrow> vault" where
  "mint_secret fresh v =
     (let db = va_db v; kid = Suc (pg_kid_seq db)
      in v\<lparr>va_db := db\<lparr>pg_kid_seq := kid, pg_capability_secrets := pg_capability_secrets db @ [(kid, fresh)]\<rparr>\<rparr>)"

definition past_retention :: "nat \<Rightarrow> vault \<Rightarrow> nat \<Rightarrow> bool" where
  "past_retention retention v kid \<longleftrightarrow>
     (case map_of (va_rotated_out_at v) kid of None \<Rightarrow> False | Some at \<Rightarrow> at + retention < pg_now (va_db v))"

definition prune_retired :: "nat \<Rightarrow> vault \<Rightarrow> vault" where
  "prune_retired retention v =
     v\<lparr>va_db := (va_db v)\<lparr>pg_capability_secrets :=
          filter (\<lambda>row. \<not> past_retention retention v (fst row)) (pg_capability_secrets (va_db v))\<rparr>\<rparr>"

definition rotate_locked :: "bytes \<Rightarrow> nat \<Rightarrow> vault \<Rightarrow> (string, rotate_stats) res \<times> vault" where
  "rotate_locked fresh retention v =
     (case pg_fault (va_db v) of
        Some e \<Rightarrow> (Err e, v)
      | None \<Rightarrow>
          (let minted = mint_secret fresh (retire_current v);
               pruned = prune_retired retention minted
           in (Ok \<lparr>rs_ran = True, rs_inserted = True, rs_retired = length (current_kids v),
                   rs_pruned = length (pg_capability_secrets (va_db minted)) - length (pg_capability_secrets (va_db pruned))\<rparr>, pruned)))"

definition rotate_secrets :: "bool \<Rightarrow> bytes \<Rightarrow> nat \<Rightarrow> vault \<Rightarrow> (string, rotate_stats) res \<times> vault" where
  "rotate_secrets lock_free fresh retention v =
     (case pg_fault (va_db v) of
        Some e \<Rightarrow> (Err e, v)
      | None \<Rightarrow>
          if \<not> lock_free then (Ok \<lparr>rs_ran = False, rs_inserted = False, rs_retired = 0, rs_pruned = 0\<rparr>, v)
          else rotate_locked fresh retention v)"

subsection \<open>Credentials lead to their tenant\<close>

lemma map_of_drop_key: "map_of (filter (\<lambda>row. fst row \<noteq> k) xs) k' = (if k' = k then None else map_of xs k')"
  by (induction xs) auto

text \<open>
  A credential that was added leads to its tenant, and every other credential to where it led before;
  a deleted one leads nowhere.
\<close>

lemma add_credential_binds:
  assumes "wf_tenant t" and "credential_of ps kt given = Ok (key_id, key_value)" and "add_credential ps t kt given db = (Ok (), db')"
  shows "find_tenant_by_binding_db kt' key' db' =
    (if key_type_as_str kt' = key_type_as_str kt \<and> key' = key_id then Ok (Some t) else find_tenant_by_binding_db kt' key' db)"
proof -
  have "pg_fault db = None" and "map_of (pg_bindings db) (key_type_as_str kt, key_id) = None"
    and "db' = db\<lparr>pg_bindings := pg_bindings db @ [((key_type_as_str kt, key_id), (tid_str t, Some key_value))]\<rparr>"
    using assms(2,3) by (cases "map_of (pg_bindings db) (key_type_as_str kt, key_id)"; auto simp: add_credential_def split: option.splits if_splits)+
  moreover have "from_wire (tid_str t) = Some t" using assms(1) by (simp add: wf_tenant_def)
  ultimately show ?thesis
    by (cases "map_of (pg_bindings db) (key_type_as_str kt', key')") (auto simp: find_tenant_by_binding_db_def map_add_def)
qed

lemma delete_credential_unbinds:
  assumes "delete_credential kt key_id db = (Ok found, db')"
  shows "find_tenant_by_binding_db kt' key' db' =
    (if key_type_as_str kt' = key_type_as_str kt \<and> key' = key_id then Ok None else find_tenant_by_binding_db kt' key' db)"
proof -
  have "pg_fault db = None" "db' = db\<lparr>pg_bindings := filter (\<lambda>row. fst row \<noteq> (key_type_as_str kt, key_id)) (pg_bindings db)\<rparr>"
    using assms by (auto simp: delete_credential_def split: option.splits)
  then show ?thesis by (simp add: find_tenant_by_binding_db_def map_of_drop_key)
qed

lemma substituters_roundtrip:
  assumes "add_substituter t url pk db = (Ok (), db')" and "list_substituters t db = Ok subs"
  shows "list_substituters t db' = Ok (subs @ [(url, pk)])"
    and "snd (remove_substituter t url db') = db"
  using assms
  by (auto simp: add_substituter_def list_substituters_def remove_substituter_def has_substituter_def list_ex_iff filter_id_conv
      split: option.splits if_splits)

subsection \<open>Tokens survive rotations\<close>

definition vault_inv :: "vault \<Rightarrow> bool" where
  "vault_inv v \<longleftrightarrow> distinct (map fst (pg_capability_secrets (va_db v))) \<and>
     (\<forall>kid \<in> fst ` set (pg_capability_secrets (va_db v)). kid \<le> pg_kid_seq (va_db v)) \<and>
     (\<forall>kid \<in> fst ` set (va_rotated_out_at v). kid \<le> pg_kid_seq (va_db v))"

lemmas rotate_defs = rotate_secrets_def rotate_locked_def retire_current_def mint_secret_def prune_retired_def Let_def

text \<open>When a secret is retired from now on: when it was, or at this rotation.\<close>

definition retired_at :: "vault \<Rightarrow> nat \<Rightarrow> nat" where
  "retired_at v kid = (case map_of (va_rotated_out_at v) kid of None \<Rightarrow> pg_now (va_db v) | Some at \<Rightarrow> at)"

lemma retire_current_at:
  "kid \<in> fst ` set (pg_capability_secrets (va_db v)) \<Longrightarrow> map_of (va_rotated_out_at (retire_current v)) kid = Some (retired_at v kid)"
proof -
  have "map_of (map (\<lambda>k. (k, n)) ks) kid = (if kid \<in> set ks then Some n else None)" for ks :: "nat list" and n :: nat
    by (induction ks) auto
  then show "kid \<in> fst ` set (pg_capability_secrets (va_db v)) \<Longrightarrow> ?thesis"
    by (auto simp: retire_current_def current_kids_def retired_at_def map_add_def split: option.split)
qed

lemma map_of_mint:
  "map_of xs kid = Some s \<Longrightarrow> map_of (xs @ [(k, f)]) kid = Some s"
  by (simp add: map_add_def)

lemma rotate_keeps:
  assumes "vault_inv v" and "map_of (pg_capability_secrets (va_db v)) kid = Some s" and "pg_now (va_db v) \<le> retired_at v kid + retention"
    and "rotate_secrets lock_free fresh retention v = (r, v')"
  shows "vault_inv v' \<and> map_of (pg_capability_secrets (va_db v')) kid = Some s \<and> retired_at v kid \<le> retired_at v' kid"
proof (cases "pg_fault (va_db v) = None \<and> lock_free")
  case False
  then show ?thesis using assms by (auto simp: rotate_secrets_def split: if_splits option.splits)
next
  case True
  let ?m = "mint_secret fresh (retire_current v)"
  have v': "v' = prune_retired retention ?m" using assms(4) True by (auto simp: rotate_secrets_def rotate_locked_def Let_def)
  have kid: "kid \<in> fst ` set (pg_capability_secrets (va_db v))" using assms(2) by (force dest: map_of_SomeD)
  have at: "map_of (va_rotated_out_at ?m) kid = Some (retired_at v kid)"
    using retire_current_at [OF kid] by (simp add: mint_secret_def Let_def)
  have now: "pg_now (va_db ?m) = pg_now (va_db v)" by (simp add: mint_secret_def retire_current_def Let_def)
  have "\<not> past_retention retention ?m kid" using at now assms(3) by (simp add: past_retention_def)
  moreover have "map_of (pg_capability_secrets (va_db ?m)) kid = Some s"
    using assms(2) by (simp add: mint_secret_def retire_current_def Let_def map_add_def)
  ultimately have "map_of (pg_capability_secrets (va_db v')) kid = Some s"
    by (simp add: v' prune_retired_def map_of_filter_fst [where P = "\<lambda>k. \<not> past_retention retention ?m k"])
  moreover have "vault_inv ?m"
    using assms(1) by (fastforce simp: vault_inv_def mint_secret_def retire_current_def current_kids_def Let_def)
  then have "vault_inv v'" by (auto simp: v' prune_retired_def vault_inv_def distinct_map_filter)
  moreover have "retired_at v' kid = retired_at v kid"
    using at by (simp add: v' prune_retired_def retired_at_def)
  ultimately show ?thesis by simp
qed

text \<open>A rotation leaves exactly the secret it minted as the current one.\<close>

lemma rotate_mints:
  assumes "vault_inv v" and "rotate_secrets True fresh retention v = (Ok stats, v')"
  shows "current_kids v' = [Suc (pg_kid_seq (va_db v))]"
proof -
  let ?k = "Suc (pg_kid_seq (va_db v))" and ?r = "retire_current v"
  let ?m = "mint_secret fresh ?r"
  have v': "v' = prune_retired retention ?m"
    using assms(2) by (auto simp: rotate_secrets_def rotate_locked_def Let_def split: option.splits)
  have sec: "pg_capability_secrets (va_db ?m) = pg_capability_secrets (va_db v) @ [(?k, fresh)]" "va_rotated_out_at ?m = va_rotated_out_at ?r"
    by (simp_all add: mint_secret_def retire_current_def Let_def)
  have old: "map_of (va_rotated_out_at ?r) kid \<noteq> None" if "kid \<in> fst ` set (pg_capability_secrets (va_db v))" for kid
    using retire_current_at [OF that] by simp
  have "?k \<notin> fst ` set (va_rotated_out_at ?r)"
    using assms(1) by (force simp: vault_inv_def retire_current_def current_kids_def)
  then have new: "map_of (va_rotated_out_at ?r) ?k = None" by (simp add: map_of_eq_None_iff)
  then have keep: "\<not> past_retention retention ?m ?k" using sec(2) by (simp add: past_retention_def)
  have "filter (\<lambda>kid. map_of (va_rotated_out_at ?r) kid = None) (map fst (filter P (pg_capability_secrets (va_db v)))) = []" for P
    using old by (auto simp: filter_empty_conv)
  then show ?thesis
    using new keep sec by (simp add: v' current_kids_def prune_retired_def)
qed

text \<open>Time passes, then a replica tries to rotate.\<close>

definition rotation :: "nat \<Rightarrow> vault \<Rightarrow> nat \<times> bool \<times> bytes \<Rightarrow> vault" where
  "rotation retention v step =
     (case step of (dt, lock_free, fresh) \<Rightarrow>
        snd (rotate_secrets lock_free fresh retention (v\<lparr>va_db := (va_db v)\<lparr>pg_now := pg_now (va_db v) + dt\<rparr>\<rparr>)))"

lemma rotate_frame:
  "pg_now (va_db (snd (rotate_secrets lock_free fresh retention v))) = pg_now (va_db v)"
  "pg_cache (va_db (snd (rotate_secrets lock_free fresh retention v))) = pg_cache (va_db v)"
  "pg_fault (va_db (snd (rotate_secrets lock_free fresh retention v))) = pg_fault (va_db v)"
  "pg_actor_up (va_db (snd (rotate_secrets lock_free fresh retention v))) = pg_actor_up (va_db v)"
  by (auto simp: rotate_defs split: option.split)

lemma rotation_frame:
  "pg_now (va_db (rotation retention v step)) = pg_now (va_db v) + fst step"
  "pg_cache (va_db (rotation retention v step)) = pg_cache (va_db v)"
  "pg_fault (va_db (rotation retention v step)) = pg_fault (va_db v)"
  "pg_actor_up (va_db (rotation retention v step)) = pg_actor_up (va_db v)"
  by (auto simp: rotation_def rotate_frame split: prod.split)

lemma rotations_frame:
  "pg_now (va_db (foldl (rotation retention) v steps)) = pg_now (va_db v) + sum_list (map fst steps)"
  "pg_cache (va_db (foldl (rotation retention) v steps)) = pg_cache (va_db v)"
  "pg_fault (va_db (foldl (rotation retention) v steps)) = pg_fault (va_db v)"
  "pg_actor_up (va_db (foldl (rotation retention) v steps)) = pg_actor_up (va_db v)"
  by (induction steps arbitrary: v) (simp_all add: rotation_frame)

lemma rotations_keep:
  "vault_inv v \<Longrightarrow> map_of (pg_capability_secrets (va_db v)) kid = Some s \<Longrightarrow>
   pg_now (va_db v) + sum_list (map fst steps) \<le> retired_at v kid + retention \<Longrightarrow>
   map_of (pg_capability_secrets (va_db (foldl (rotation retention) v steps))) kid = Some s"
proof (induction steps arbitrary: v)
  case (Cons step steps)
  obtain dt lock_free fresh where step: "step = (dt, lock_free, fresh)" by (metis prod_cases3)
  let ?w = "v\<lparr>va_db := (va_db v)\<lparr>pg_now := pg_now (va_db v) + dt\<rparr>\<rparr>"
  obtain r v' where rot: "rotate_secrets lock_free fresh retention ?w = (r, v')" by fastforce
  have le: "retired_at v kid \<le> retired_at ?w kid" by (simp add: retired_at_def split: option.split)
  have "vault_inv ?w" using Cons.prems(1) by (simp add: vault_inv_def)
  moreover have "map_of (pg_capability_secrets (va_db ?w)) kid = Some s" using Cons.prems(2) by simp
  moreover have "pg_now (va_db ?w) \<le> retired_at ?w kid + retention" using Cons.prems(3) le step by simp
  ultimately have keep: "vault_inv v'" "map_of (pg_capability_secrets (va_db v')) kid = Some s" "retired_at ?w kid \<le> retired_at v' kid"
    using rotate_keeps rot by blast+
  have v': "rotation retention v step = v'" using rot by (simp add: rotation_def step)
  have "pg_now (va_db v') = pg_now (va_db v) + dt" using rotation_frame(1) [of retention v step] v' step by simp
  then show ?case using Cons.IH [OF keep(1,2)] Cons.prems(3) keep(3) le step v' by simp
qed simp

text \<open>
  C18: A token outlives the secret that signed it by the whole retention. Whatever rotations replicas run
  in between, as long as no more than the retention has passed since the secret stopped being current,
  a frontend that has never seen the secret verifies the token to the capability it was minted for.
\<close>

theorem tokens_survive_rotation:
  assumes "vault_inv v" and "map_of (pg_capability_secrets (va_db v)) kid = Some secret" and "length secret = 32" and "kid < 2 ^ 63"
    and "pg_now (va_db v) + sum_list (map fst steps) \<le> retired_at v kid + retention"
    and "pg_fault (va_db v) = None" and "pg_actor_up (va_db v)" and "map_of (sc_by_kid (pg_cache (va_db v))) (of_nat kid) = None"
    and "jwt_ok j" and "wf_tenant (cap_tenant c)"
  shows "fst (cap_verify j (postgres_secret_ops pub) (cap_sign j c (of_nat kid) secret) (va_db (foldl (rotation retention) v steps))) = Some c"
proof (rule cap_verify_signed [OF assms(9,10)])
  let ?db = "va_db (foldl (rotation retention) v steps)"
  have "unat (of_nat kid :: u64) = kid" using assms(4) by (simp add: unat_of_nat)
  moreover have "map_of (pg_capability_secrets ?db) kid = Some secret" using rotations_keep [OF assms(1,2,5)] .
  ultimately have "fst (capability_secret_db (of_nat kid) ?db) = Some secret"
    using assms(3,4,6,8) by (simp add: capability_secret_db_def rotations_frame on_db_def)
  then show "fst (op_capability_secret (postgres_secret_ops pub) (of_nat kid) ?db) = Some secret"
    using assms(7) by (simp add: postgres_secret_ops_def pg_ops rotations_frame)
qed

subsection \<open>One rotation\<close>

definition ex_vault :: vault where
  "ex_vault = \<lparr>va_db = pg_empty\<lparr>pg_capability_secrets := [(1, replicate 32 7)], pg_kid_seq := 1\<rparr>, va_rotated_out_at = []\<rparr>"

theorem tokens_survive_rotation_witness:
  "fst (cap_verify ex_tokens (postgres_secret_ops id)
      (cap_sign ex_tokens \<lparr>cap_job_id = 1, cap_tenant = TenantId ''alice'', cap_derivation_path = ex_drv_path, cap_expected_outputs = []\<rparr> (of_nat 1) (replicate 32 7))
      (va_db (foldl (rotation 3600) ex_vault [(10, True, replicate 32 8), (3000, True, replicate 32 9)]))) =
   Some \<lparr>cap_job_id = 1, cap_tenant = TenantId ''alice'', cap_derivation_path = ex_drv_path, cap_expected_outputs = []\<rparr>"
proof (rule tokens_survive_rotation)
  show "jwt_ok ex_tokens" by (rule ex_tokens_ok)
  show "wf_tenant (cap_tenant \<lparr>cap_job_id = 1, cap_tenant = TenantId ''alice'', cap_derivation_path = ex_drv_path, cap_expected_outputs = []\<rparr>)"
    by (simp add: wf_tenant_def from_wire_def tenant_char_def is_lower_def)
qed (simp_all add: ex_vault_def vault_inv_def pg_empty_def retired_at_def)

end
