(* ===== verification/Lock.thy ===== *)
theory Lock
  imports Gc Admin "HOL-Library.Multiset"
begin

text \<open>
  The advisory lock of \<open>server/src/advisory_lock.rs\<close>, under which the replicas of the collector
  (\<open>gc.rs\<close>) and of the rotation (\<open>rotate.rs\<close>) run their passes. The state is a cluster: what the database
  has granted to its sessions, and where every session is, idle in the pool of a replica, inside of a
  guard, or adrift because its client is gone and the server has not noticed. Statements can be refused
  or break the connection, replicas can crash, the server can end a session whose guard lives on, and the
  guard is released or only dropped. Shown here: in every interleaving at most one guard of a key has its
  session, which the pass runs its statements on; only the end of that session takes the lock from a guard;
  a pooled connection never holds a lock, and the only thing that keeps a key without such a guard from
  being granted is a session adrift. That a lost session lets two guards exist at once is shown, too.
\<close>

subsection \<open>Sessions, guards and the pool\<close>

record pool_conn =
  pc_session :: nat
  pc_close :: bool

record advisory_lock =
  al_conn :: pool_conn
  al_key :: int
  al_released :: bool

text \<open>
  Grants are pairs of a session and a key, one for each time the lock was taken. Idle connections and
  guards carry the replica they belong to.
\<close>

record cluster =
  cl_held :: "(nat \<times> int) list"
  cl_idle :: "(nat \<times> nat) list"
  cl_guards :: "(nat \<times> advisory_lock) list"
  cl_adrift :: "nat list"
  cl_next :: nat

definition cluster_empty :: cluster where
  "cluster_empty = \<lparr>cl_held = [], cl_idle = [], cl_guards = [], cl_adrift = [], cl_next = 0\<rparr>"

text \<open>
  How a statement ends: with its answer, with an error before it ran, or with the connection gone,
  before or after the server ran it.
\<close>

datatype answer = Answered | Refused | Broken bool

text \<open>The lock is reentrant: only another session's grant is in the way.\<close>

definition pg_try_advisory_lock :: "nat \<Rightarrow> int \<Rightarrow> cluster \<Rightarrow> bool \<times> cluster" where
  "pg_try_advisory_lock s k cl =
     (if \<exists>(s', k') \<in> set (cl_held cl). k' = k \<and> s' \<noteq> s then (False, cl)
      else (True, cl\<lparr>cl_held := (s, k) # cl_held cl\<rparr>))"

definition pg_advisory_unlock :: "nat \<Rightarrow> int \<Rightarrow> cluster \<Rightarrow> cluster" where
  "pg_advisory_unlock s k cl = cl\<lparr>cl_held := remove1 (s, k) (cl_held cl)\<rparr>"

definition end_session :: "nat \<Rightarrow> cluster \<Rightarrow> cluster" where
  "end_session s cl = cl\<lparr>cl_held := filter (\<lambda>(s', _). s' \<noteq> s) (cl_held cl), cl_adrift := removeAll s (cl_adrift cl)\<rparr>"

definition set_adrift :: "nat \<Rightarrow> cluster \<Rightarrow> cluster" where
  "set_adrift s cl = cl\<lparr>cl_adrift := s # cl_adrift cl\<rparr>"

text \<open>An idle connection of the replica, or a new one.\<close>

definition pool_acquire :: "nat \<Rightarrow> cluster \<Rightarrow> pool_conn \<times> cluster" where
  "pool_acquire r cl =
     (case find (\<lambda>(r', _). r' = r) (cl_idle cl) of
        Some (_, s) \<Rightarrow> (\<lparr>pc_session = s, pc_close = False\<rparr>, cl\<lparr>cl_idle := remove1 (r, s) (cl_idle cl)\<rparr>)
      | None \<Rightarrow> (\<lparr>pc_session = cl_next cl, pc_close = False\<rparr>, cl\<lparr>cl_next := Suc (cl_next cl)\<rparr>))"

definition close_on_drop :: "pool_conn \<Rightarrow> pool_conn" where
  "close_on_drop c = c\<lparr>pc_close := True\<rparr>"

definition drop_conn :: "nat \<Rightarrow> pool_conn \<Rightarrow> cluster \<Rightarrow> cluster" where
  "drop_conn r c cl =
     (if pc_session c \<in> set (cl_adrift cl) then cl
      else if pc_close c then end_session (pc_session c) cl
      else cl\<lparr>cl_idle := (r, pc_session c) # cl_idle cl\<rparr>)"

subsection \<open>The guard\<close>

definition try_acquire :: "nat \<Rightarrow> int \<Rightarrow> bool \<Rightarrow> answer \<Rightarrow> cluster \<Rightarrow> (string, advisory_lock option) res \<times> cluster" where
  "try_acquire r key pool_ok ans cl =
     (if \<not> pool_ok then (Err ''pool'', cl)
      else case pool_acquire r cl of
        (conn, cl) \<Rightarrow>
          (case ans of
             Answered \<Rightarrow>
               (case pg_try_advisory_lock (pc_session conn) key cl of
                  (locked, cl) \<Rightarrow>
                    if \<not> locked then (Ok None, drop_conn r conn cl)
                    else (Ok (Some \<lparr>al_conn = conn, al_key = key, al_released = False\<rparr>), cl))
           | Refused \<Rightarrow> (Err ''refused'', drop_conn r conn cl)
           | Broken executed \<Rightarrow>
               (let cl = (if executed then snd (pg_try_advisory_lock (pc_session conn) key cl) else cl)
                in (Err ''broken'', drop_conn r conn (set_adrift (pc_session conn) cl)))))"

definition drop_lock :: "nat \<Rightarrow> advisory_lock \<Rightarrow> cluster \<Rightarrow> cluster" where
  "drop_lock r l cl = drop_conn r (if \<not> al_released l then close_on_drop (al_conn l) else al_conn l) cl"

definition release :: "nat \<Rightarrow> answer \<Rightarrow> advisory_lock \<Rightarrow> cluster \<Rightarrow> (string, unit) res \<times> cluster" where
  "release r ans l cl =
     (let s = pc_session (al_conn l);
          (result, cl) =
            (case ans of
               Answered \<Rightarrow> (Ok (), pg_advisory_unlock s (al_key l) cl)
             | Refused \<Rightarrow> (Err ''refused'', cl)
             | Broken executed \<Rightarrow> (Err ''broken'', set_adrift s (if executed then pg_advisory_unlock s (al_key l) cl else cl)));
          l = l\<lparr>al_released := True\<rparr>;
          l = (case result of Ok _ \<Rightarrow> l | _ \<Rightarrow> l\<lparr>al_conn := close_on_drop (al_conn l)\<rparr>)
      in (result, drop_lock r l cl))"

subsection \<open>The passes\<close>

definition GC_LOCK_KEY :: int where "GC_LOCK_KEY = 0x6b756e67630001"

definition ROTATE_LOCK_KEY :: int where "ROTATE_LOCK_KEY = 0x6b756e67720001"

definition gc_pass ::
  "nat \<Rightarrow> bool \<Rightarrow> answer \<Rightarrow> answer \<Rightarrow> (object_key \<Rightarrow> bool) \<Rightarrow> tier_cutoffs \<Rightarrow> job_retention \<Rightarrow> nat \<Rightarrow>
   cluster \<times> pg \<times> bucket \<Rightarrow> (gc_error, gc_stats) res \<times> cluster \<times> pg \<times> bucket" where
  "gc_pass r pool_ok locking unlocking del_ok cutoffs ret batch_size st =
     (case st of (cl, db) \<Rightarrow>
      case try_acquire r GC_LOCK_KEY pool_ok locking cl of
        (Ok (Some l), cl) \<Rightarrow>
          (case run_locked del_ok cutoffs ret batch_size db of
             (result, db) \<Rightarrow> (result, snd (release r unlocking l cl), db))
      | (Ok None, cl) \<Rightarrow> (Ok gc_stats_default, cl, db)
      | (Err e, cl) \<Rightarrow> (Err (gc_error.Database e), cl, db)
      | (Panic, cl) \<Rightarrow> (Panic, cl, db))"

definition rotation_pass ::
  "nat \<Rightarrow> bool \<Rightarrow> answer \<Rightarrow> answer \<Rightarrow> bytes \<Rightarrow> nat \<Rightarrow> cluster \<times> vault \<Rightarrow> (string, rotate_stats) res \<times> cluster \<times> vault" where
  "rotation_pass r pool_ok locking unlocking secret retention st =
     (case st of (cl, v) \<Rightarrow>
      case try_acquire r ROTATE_LOCK_KEY pool_ok locking cl of
        (Ok (Some l), cl) \<Rightarrow>
          (case rotate_locked secret retention v of (result, v) \<Rightarrow> (result, snd (release r unlocking l cl), v))
      | (Ok None, cl) \<Rightarrow> (Ok \<lparr>rs_ran = False, rs_inserted = False, rs_retired = 0, rs_pruned = 0\<rparr>, cl, v)
      | (Err e, cl) \<Rightarrow> (Err e, cl, v)
      | (Panic, cl) \<Rightarrow> (Panic, cl, v))"

subsection \<open>Every interleaving\<close>

text \<open>
  What can happen next: a replica asks for a lock, releases or merely drops the guard it has, the
  server ends a session whose client is gone, a pool lets go of an idle connection, a replica dies with
  all of its connections. The server, or the network, may also end the session of a guard that lives on:
  the lock is gone then, and so is the connection, which every later statement on it finds out.
\<close>

definition crash :: "nat \<Rightarrow> cluster \<Rightarrow> cluster" where
  "crash r cl = cl\<lparr>cl_idle := filter (\<lambda>(r', _). r' \<noteq> r) (cl_idle cl), cl_guards := filter (\<lambda>(r', _). r' \<noteq> r) (cl_guards cl),
     cl_adrift := map snd (filter (\<lambda>(r', _). r' = r) (cl_idle cl)) @
       map (pc_session \<circ> al_conn \<circ> snd) (filter (\<lambda>(r', _). r' = r) (cl_guards cl)) @ cl_adrift cl\<rparr>"

definition give_guard :: "nat \<Rightarrow> (string, advisory_lock option) res \<times> cluster \<Rightarrow> cluster" where
  "give_guard r result =
     (case result of (Ok (Some l), cl) \<Rightarrow> cl\<lparr>cl_guards := (r, l) # cl_guards cl\<rparr> | (_, cl) \<Rightarrow> cl)"

definition take_guard :: "nat \<Rightarrow> advisory_lock \<Rightarrow> cluster \<Rightarrow> cluster" where
  "take_guard r l cl = cl\<lparr>cl_guards := remove1 (r, l) (cl_guards cl)\<rparr>"

definition guard_live :: "cluster \<Rightarrow> nat \<times> advisory_lock \<Rightarrow> bool" where
  "guard_live cl g \<longleftrightarrow> (pc_session (al_conn (snd g)), al_key (snd g)) \<in> set (cl_held cl)"

inductive cluster_step :: "cluster \<Rightarrow> cluster \<Rightarrow> bool" where
  asks: "cluster_step cl (give_guard r (try_acquire r k pool_ok ans cl))"
| releases: "(r, l) \<in> set (cl_guards cl) \<Longrightarrow> guard_live cl (r, l) \<or> ans = Broken False \<Longrightarrow> cluster_step cl (snd (release r ans l (take_guard r l cl)))"
| drops: "(r, l) \<in> set (cl_guards cl) \<Longrightarrow> cluster_step cl (drop_lock r l (take_guard r l cl))"
| notices: "s \<in> set (cl_adrift cl) \<Longrightarrow> cluster_step cl (end_session s cl)"
| reaps: "(r, s) \<in> set (cl_idle cl) \<Longrightarrow> cluster_step cl (end_session s (cl\<lparr>cl_idle := remove1 (r, s) (cl_idle cl)\<rparr>))"
| crashes: "cluster_step cl (crash r cl)"
| severs: "(r, l) \<in> set (cl_guards cl) \<Longrightarrow> cluster_step cl (end_session (pc_session (al_conn l)) cl)"

abbreviation cluster_reachable :: "cluster \<Rightarrow> bool" where
  "cluster_reachable \<equiv> cluster_step\<^sup>*\<^sup>* cluster_empty"

subsection \<open>The invariant\<close>

definition lock_session :: "nat \<times> advisory_lock \<Rightarrow> nat" where
  "lock_session g = pc_session (al_conn (snd g))"

definition cl_sessions :: "cluster \<Rightarrow> nat list" where
  "cl_sessions cl = map snd (cl_idle cl) @ map lock_session (cl_guards cl) @ cl_adrift cl"

text \<open>
  The invariant while the session \<open>out\<close> is in nobody's hands, and without such a session. Every grant
  belongs to it, to a session adrift or to a guard for that key, and every key is granted once.
\<close>

definition accounted :: "nat option \<Rightarrow> cluster \<Rightarrow> nat \<Rightarrow> int \<Rightarrow> bool" where
  "accounted out cl s k \<longleftrightarrow> out = Some s \<or> s \<in> set (cl_adrift cl) \<or>
     (\<exists>g \<in> set (cl_guards cl). lock_session g = s \<and> al_key (snd g) = k)"

definition lock_inv_but :: "nat option \<Rightarrow> cluster \<Rightarrow> bool" where
  "lock_inv_but out cl \<longleftrightarrow>
     distinct (cl_sessions cl) \<and> (\<forall>s \<in> set (cl_sessions cl). s < cl_next cl) \<and>
     (\<forall>s. out = Some s \<longrightarrow> s \<notin> set (cl_sessions cl) \<and> s < cl_next cl) \<and>
     distinct (map snd (cl_held cl)) \<and> (\<forall>s k. (s, k) \<in> set (cl_held cl) \<longrightarrow> accounted out cl s k) \<and>
     (\<forall>g \<in> set (cl_guards cl). \<not> pc_close (al_conn (snd g)) \<and> \<not> al_released (snd g))"

abbreviation lock_inv :: "cluster \<Rightarrow> bool" where
  "lock_inv \<equiv> lock_inv_but None"

definition holds_nothing :: "nat \<Rightarrow> cluster \<Rightarrow> bool" where
  "holds_nothing s cl \<longleftrightarrow> (\<forall>k. (s, k) \<notin> set (cl_held cl))"

lemma accounted_known: "accounted None cl s k \<Longrightarrow> s \<in> set (map lock_session (cl_guards cl)) \<union> set (cl_adrift cl)"
  by (auto simp: accounted_def)

lemma idle_holds_nothing:
  assumes "lock_inv cl" and "(r, s) \<in> set (cl_idle cl)"
  shows "holds_nothing s cl"
proof -
  have "s \<in> set (map snd (cl_idle cl))" using assms(2) by force
  then have "s \<notin> set (map lock_session (cl_guards cl)) \<union> set (cl_adrift cl)"
    using assms(1) unfolding lock_inv_but_def cl_sessions_def distinct_append set_append by blast
  then show ?thesis using assms(1) accounted_known unfolding lock_inv_but_def holds_nothing_def by blast
qed

lemma fresh_holds_nothing:
  assumes "lock_inv cl"
  shows "holds_nothing (cl_next cl) cl"
proof -
  have "cl_next cl \<notin> set (cl_sessions cl)" using assms unfolding lock_inv_but_def by blast
  then have "cl_next cl \<notin> set (map lock_session (cl_guards cl)) \<union> set (cl_adrift cl)" by (simp add: cl_sessions_def)
  then show ?thesis using assms accounted_known unfolding lock_inv_but_def holds_nothing_def by blast
qed

lemma remove1_distinct_key:
  "distinct (map f xs) \<Longrightarrow> x \<in> set xs \<Longrightarrow> distinct (map f (remove1 x xs)) \<and> f ` set (remove1 x xs) = f ` set xs - {f x}"
  by (induction xs) auto

lemma distinct_inner: "distinct (xs @ ys @ zs) \<Longrightarrow> distinct ys' \<Longrightarrow> set ys' \<subseteq> set ys \<Longrightarrow> distinct (xs @ ys' @ zs)"
  by auto

lemma lock_inv_pool_acquire:
  assumes "lock_inv cl" and "pool_acquire r cl = (conn, cl')"
  shows "lock_inv_but (Some (pc_session conn)) cl' \<and> holds_nothing (pc_session conn) cl' \<and> \<not> pc_close conn \<and>
    cl_held cl' = cl_held cl \<and> cl_adrift cl' = cl_adrift cl \<and> cl_guards cl' = cl_guards cl"
proof (cases "find (\<lambda>(r', _). r' = r) (cl_idle cl)")
  case None
  then have conn: "conn = \<lparr>pc_session = cl_next cl, pc_close = False\<rparr>" "cl' = cl\<lparr>cl_next := Suc (cl_next cl)\<rparr>"
    using assms(2) by (simp_all add: pool_acquire_def)
  have "cl_next cl \<notin> set (cl_sessions cl)" using assms(1) unfolding lock_inv_but_def by blast
  moreover have "accounted None cl s k \<Longrightarrow> accounted (Some (cl_next cl)) cl' s k" for s k by (auto simp: accounted_def conn)
  ultimately show ?thesis using assms(1) fresh_holds_nothing [OF assms(1)]
    by (simp add: conn lock_inv_but_def cl_sessions_def holds_nothing_def less_Suc_eq)
next
  case (Some x)
  then obtain s where x: "x = (r, s)" and mem: "(r, s) \<in> set (cl_idle cl)" by (auto dest: find_Some_mem)
  then have conn: "conn = \<lparr>pc_session = s, pc_close = False\<rparr>" "cl' = cl\<lparr>cl_idle := remove1 (r, s) (cl_idle cl)\<rparr>"
    using assms(2) Some by (simp_all add: pool_acquire_def)
  have d: "distinct (map snd (cl_idle cl))" using assms(1) by (simp add: lock_inv_but_def cl_sessions_def)
  have s: "s \<in> snd ` set (cl_idle cl)" using mem by force
  note rest = remove1_distinct_key [OF d mem]
  have sub: "set (cl_sessions cl') \<subseteq> set (cl_sessions cl)" and dist: "distinct (cl_sessions cl')" and s_out: "s \<notin> set (cl_sessions cl')"
    using assms(1) rest s by (auto simp: conn lock_inv_but_def cl_sessions_def)
  have "s \<in> set (cl_sessions cl)" using s by (simp add: cl_sessions_def)
  then have next_ok: "\<forall>s \<in> set (cl_sessions cl'). s < cl_next cl'" "s < cl_next cl'" using assms(1) sub by (auto simp: lock_inv_but_def conn)
  have "accounted None cl s' k \<Longrightarrow> accounted (Some s) cl' s' k" for s' k by (auto simp: accounted_def conn)
  then show ?thesis using assms(1) idle_holds_nothing [OF assms(1) mem] dist s_out next_ok
    by (simp add: conn lock_inv_but_def holds_nothing_def)
qed

lemma lock_inv_end:
  assumes "lock_inv_but (Some s) cl"
  shows "lock_inv (end_session s cl)"
proof -
  have s: "s \<notin> set (cl_sessions cl)" using assms by (simp add: lock_inv_but_def)
  then have guards: "lock_session g \<noteq> s" if "g \<in> set (cl_guards cl)" for g using that by (auto simp: cl_sessions_def)
  have sessions: "cl_sessions (end_session s cl) = cl_sessions cl"
    using s by (simp add: cl_sessions_def end_session_def removeAll_id)
  have "distinct (map snd (filter (\<lambda>(s', _). s' \<noteq> s) (cl_held cl)))"
    using assms by (simp add: lock_inv_but_def distinct_map_filter)
  moreover have "accounted (Some s) cl s' k \<Longrightarrow> s' \<noteq> s \<Longrightarrow> accounted None (end_session s cl) s' k" for s' k
    by (auto simp: accounted_def end_session_def)
  ultimately show ?thesis using assms guards by (simp add: lock_inv_but_def sessions) (simp add: end_session_def)
qed

lemma lock_inv_adrift:
  assumes "lock_inv_but (Some s) cl"
  shows "lock_inv (set_adrift s cl)"
proof -
  have "accounted (Some s) cl s' k \<Longrightarrow> accounted None (set_adrift s cl) s' k" for s' k
    by (auto simp: accounted_def set_adrift_def)
  moreover have "distinct (cl_sessions (set_adrift s cl))" "set (cl_sessions (set_adrift s cl)) = insert s (set (cl_sessions cl))"
    using assms by (auto simp: lock_inv_but_def cl_sessions_def set_adrift_def)
  ultimately show ?thesis using assms by (simp add: lock_inv_but_def) (simp add: set_adrift_def)
qed

lemma lock_inv_idle:
  assumes "lock_inv_but (Some s) cl" and "holds_nothing s cl"
  shows "lock_inv (cl\<lparr>cl_idle := (r, s) # cl_idle cl\<rparr>)"
proof -
  let ?cl = "cl\<lparr>cl_idle := (r, s) # cl_idle cl\<rparr>"
  have "(s', k) \<in> set (cl_held cl) \<Longrightarrow> accounted None ?cl s' k" for s' k
    using assms by (auto simp: lock_inv_but_def holds_nothing_def accounted_def)
  moreover have "cl_sessions ?cl = s # cl_sessions cl" by (simp add: cl_sessions_def)
  ultimately show ?thesis using assms(1) by (simp add: lock_inv_but_def)
qed

lemma try_lock:
  assumes "lock_inv_but (Some s) cl" and "holds_nothing s cl"
  shows "pg_try_advisory_lock s k cl =
    (if k \<in> snd ` set (cl_held cl) then (False, cl) else (True, cl\<lparr>cl_held := (s, k) # cl_held cl\<rparr>))"
  using assms(2) by (force simp: pg_try_advisory_lock_def holds_nothing_def)

lemma lock_inv_granted:
  assumes "lock_inv_but (Some s) cl" and "k \<notin> snd ` set (cl_held cl)"
  shows "lock_inv_but (Some s) (cl\<lparr>cl_held := (s, k) # cl_held cl\<rparr>)"
proof -
  let ?cl = "cl\<lparr>cl_held := (s, k) # cl_held cl\<rparr>"
  have "accounted (Some s) ?cl s' k' = accounted (Some s) cl s' k'" for s' k' by (simp add: accounted_def)
  moreover have "accounted (Some s) cl s k" by (simp add: accounted_def)
  moreover have "cl_sessions ?cl = cl_sessions cl" by (simp add: cl_sessions_def)
  ultimately show ?thesis using assms by (simp add: lock_inv_but_def)
qed

lemma lock_inv_guard:
  assumes "lock_inv_but (Some s) cl" and "holds_nothing s cl" and "k \<notin> snd ` set (cl_held cl)"
    and "pc_session (al_conn l) = s" and "al_key l = k" and "\<not> pc_close (al_conn l)" and "\<not> al_released l"
  shows "lock_inv (cl\<lparr>cl_held := (s, k) # cl_held cl, cl_guards := (r, l) # cl_guards cl\<rparr>)"
proof -
  let ?cl = "cl\<lparr>cl_held := (s, k) # cl_held cl, cl_guards := (r, l) # cl_guards cl\<rparr>"
  have g: "lock_session (r, l) = s" using assms(4) by (simp add: lock_session_def)
  have "(s', k') \<in> set (cl_held cl) \<Longrightarrow> accounted None ?cl s' k'" for s' k'
    using assms(1,2) by (auto simp: lock_inv_but_def holds_nothing_def accounted_def)
  moreover have "accounted None ?cl s k" using g assms(5) by (auto simp: accounted_def)
  moreover have "distinct (cl_sessions ?cl)" "set (cl_sessions ?cl) = insert s (set (cl_sessions cl))"
    using assms(1) g by (auto simp: lock_inv_but_def cl_sessions_def)
  ultimately show ?thesis using assms g by (simp add: lock_inv_but_def)
qed

lemma guard_holds_key:
  assumes "lock_inv cl" and "(r, l) \<in> set (cl_guards cl)" and "(pc_session (al_conn l), k) \<in> set (cl_held cl)"
  shows "k = al_key l"
proof -
  have d: "distinct (map lock_session (cl_guards cl))" "set (map lock_session (cl_guards cl)) \<inter> set (cl_adrift cl) = {}"
    using assms(1) by (auto simp: lock_inv_but_def cl_sessions_def)
  have s: "lock_session (r, l) = pc_session (al_conn l)" by (simp add: lock_session_def)
  have "g = (r, l)" if "g \<in> set (cl_guards cl)" "lock_session g = lock_session (r, l)" for g
    using d(1) that assms(2) by (simp add: distinct_map inj_on_def)
  moreover have "lock_session (r, l) \<notin> set (cl_adrift cl)" using d(2) assms(2) by auto
  ultimately have "accounted None cl (lock_session (r, l)) k \<Longrightarrow> k = al_key l"
    unfolding accounted_def by (metis option.distinct(1) snd_conv)
  then show ?thesis using assms s by (auto simp: lock_inv_but_def)
qed

lemma lock_inv_take:
  assumes "lock_inv cl" and "(r, l) \<in> set (cl_guards cl)"
  shows "lock_inv_but (Some (pc_session (al_conn l))) (take_guard r l cl)"
proof -
  let ?s = "pc_session (al_conn l)" and ?cl = "take_guard r l cl"
  have s: "lock_session (r, l) = ?s" by (simp add: lock_session_def)
  have d: "distinct (map lock_session (cl_guards cl))" using assms(1) by (simp add: lock_inv_but_def cl_sessions_def)
  note rest = remove1_distinct_key [OF d assms(2)]
  have D: "distinct (cl_sessions cl)" using assms(1) by (simp add: lock_inv_but_def)
  have mem: "?s \<in> lock_session ` set (cl_guards cl)" using assms(2) s by force
  have sessions: "cl_sessions ?cl = map snd (cl_idle cl) @ map lock_session (remove1 (r, l) (cl_guards cl)) @ cl_adrift cl"
    by (simp add: cl_sessions_def take_guard_def)
  have fewer: "set (map lock_session (remove1 (r, l) (cl_guards cl))) = set (map lock_session (cl_guards cl)) - {?s}"
    and "distinct (map lock_session (remove1 (r, l) (cl_guards cl)))" using rest s by simp_all
  note part = distinct_inner [OF D [unfolded cl_sessions_def] this(2)]
  have sub: "set (cl_sessions ?cl) \<subseteq> set (cl_sessions cl)" unfolding sessions unfolding cl_sessions_def set_append fewer by blast
  have dist: "distinct (cl_sessions ?cl)" unfolding sessions by (rule part) (use fewer in blast)
  have out: "?s \<notin> set (cl_sessions ?cl)"
  proof -
    have "?s \<notin> set (map snd (cl_idle cl))" "?s \<notin> set (cl_adrift cl)"
      using D mem by (auto simp: cl_sessions_def)
    then show ?thesis unfolding sessions set_append fewer by blast
  qed
  have "?s \<in> set (cl_sessions cl)" using mem by (simp add: cl_sessions_def)
  then have "\<forall>s \<in> set (cl_sessions ?cl). s < cl_next cl" "?s < cl_next cl" using assms(1) sub by (auto simp: lock_inv_but_def)
  moreover have "accounted None cl s' k \<Longrightarrow> accounted (Some ?s) ?cl s' k" for s' k
  proof (cases "s' = ?s")
    case False
    assume "accounted None cl s' k"
    moreover have "g \<in> set (remove1 (r, l) (cl_guards cl))" if "g \<in> set (cl_guards cl)" "lock_session g = s'" for g
      using that s False by (metis in_set_remove1)
    ultimately show ?thesis by (auto simp: accounted_def take_guard_def)
  qed (simp add: accounted_def)
  moreover have "set (remove1 (r, l) (cl_guards cl)) \<subseteq> set (cl_guards cl)" by (rule set_remove1_subset)
  ultimately show ?thesis using assms(1) dist out by (auto simp: lock_inv_but_def take_guard_def)
qed

lemma lock_inv_drop_conn:
  assumes "lock_inv_but (Some (pc_session c)) cl" and "\<not> pc_close c \<Longrightarrow> holds_nothing (pc_session c) cl"
  shows "lock_inv (drop_conn r c cl)"
proof -
  have "pc_session c \<notin> set (cl_adrift cl)" using assms(1) by (auto simp: lock_inv_but_def cl_sessions_def)
  then show ?thesis using assms lock_inv_end lock_inv_idle by (simp add: drop_conn_def)
qed

lemma drop_conn_adrift: "drop_conn r c (set_adrift (pc_session c) cl) = set_adrift (pc_session c) cl"
  by (simp add: drop_conn_def set_adrift_def)

lemma lock_inv_asks:
  assumes "lock_inv cl"
  shows "lock_inv (give_guard r (try_acquire r k pool_ok ans cl))"
proof (cases pool_ok)
  case True
  obtain conn cl1 where p: "pool_acquire r cl = (conn, cl1)" by (cases "pool_acquire r cl")
  note inv = lock_inv_pool_acquire [OF assms p]
  then have but: "lock_inv_but (Some (pc_session conn)) cl1" and unheld: "holds_nothing (pc_session conn) cl1" by simp_all
  have returned: "lock_inv (drop_conn r conn cl1)" using lock_inv_drop_conn [OF but, of r] unheld by blast
  note grant = try_lock [OF but unheld, of k]
  show ?thesis
  proof (cases ans)
    case Answered
    then show ?thesis using True p returned inv lock_inv_guard [OF but unheld, of k _ r] grant
      by (simp add: try_acquire_def give_guard_def)
  next
    case Refused
    then show ?thesis using True p returned by (simp add: try_acquire_def give_guard_def)
  next
    case (Broken executed)
    let ?cl = "if executed then snd (pg_try_advisory_lock (pc_session conn) k cl1) else cl1"
    have "lock_inv_but (Some (pc_session conn)) ?cl" using but grant lock_inv_granted [OF but, of k] by simp
    then have "lock_inv (set_adrift (pc_session conn) ?cl)" by (rule lock_inv_adrift)
    then show ?thesis using True p Broken by (simp add: try_acquire_def give_guard_def drop_conn_adrift Let_def)
  qed
qed (simp add: assms try_acquire_def give_guard_def)

lemma take_guard_fields [simp]:
  "cl_held (take_guard r l cl) = cl_held cl" "cl_idle (take_guard r l cl) = cl_idle cl"
  "cl_adrift (take_guard r l cl) = cl_adrift cl" "cl_next (take_guard r l cl) = cl_next cl"
  by (simp_all add: take_guard_def)

lemma lock_inv_unlocked:
  assumes "lock_inv cl" and "(r, l) \<in> set (cl_guards cl)"
  defines "s \<equiv> pc_session (al_conn l)"
  shows "lock_inv_but (Some s) (pg_advisory_unlock s (al_key l) (take_guard r l cl))"
    and "holds_nothing s (pg_advisory_unlock s (al_key l) (take_guard r l cl))"
proof -
  let ?cl = "take_guard r l cl" and ?cl' = "pg_advisory_unlock s (al_key l) (take_guard r l cl)"
  have but: "lock_inv_but (Some s) ?cl" unfolding s_def by (rule lock_inv_take [OF assms(1,2)])
  then have d: "distinct (map snd (cl_held cl))" by (simp add: lock_inv_but_def)
  have d': "distinct (cl_held cl)" using d by (simp add: distinct_map)
  have held: "cl_held ?cl' = remove1 (s, al_key l) (cl_held cl)" by (simp add: pg_advisory_unlock_def)
  show "holds_nothing s ?cl'" 
    using guard_holds_key [OF assms(1,2)] d' by (auto simp: holds_nothing_def pg_advisory_unlock_def s_def)
  have "accounted (Some s) ?cl' s' k = accounted (Some s) ?cl s' k" for s' k by (simp add: accounted_def pg_advisory_unlock_def)
  moreover have "cl_sessions ?cl' = cl_sessions ?cl" by (simp add: cl_sessions_def pg_advisory_unlock_def)
  moreover have "lock_session g \<noteq> s" if "g \<in> set (cl_guards ?cl)" for g
    using but that by (auto simp: lock_inv_but_def cl_sessions_def)
  moreover have "set (cl_held ?cl') \<subseteq> set (cl_held cl)" unfolding held by (rule set_remove1_subset)
  moreover have "(s', k) \<in> set (cl_held ?cl')" if "(s', k) \<in> set (cl_held cl)" "s' \<noteq> s" for s' k
    using that unfolding held by (simp add: in_set_remove1)
  moreover have "distinct (map snd (cl_held ?cl'))"
    using d held remove1_distinct_key [OF d] remove1_idem [of "(s, al_key l)" "cl_held cl"] by metis
  ultimately show "lock_inv_but (Some s) ?cl'" using but held
    by (auto simp: lock_inv_but_def) (auto simp: pg_advisory_unlock_def)
qed

lemma lock_inv_releases:
  assumes "lock_inv cl" and "(r, l) \<in> set (cl_guards cl)"
  shows "lock_inv (snd (release r ans l (take_guard r l cl)))"
proof -
  let ?s = "pc_session (al_conn l)" and ?cl = "take_guard r l cl"
  note but = lock_inv_take [OF assms] and unlocked = lock_inv_unlocked [OF assms]
  show ?thesis
  proof (cases ans)
    case Answered
    then show ?thesis using lock_inv_drop_conn [of "al_conn l"] unlocked
      by (simp add: release_def drop_lock_def Let_def)
  next
    case Refused
    then show ?thesis using lock_inv_drop_conn [of "close_on_drop (al_conn l)"] but
      by (simp add: release_def drop_lock_def close_on_drop_def Let_def)
  next
    case (Broken executed)
    then show ?thesis using lock_inv_adrift but unlocked(1)
      by (simp add: release_def drop_lock_def close_on_drop_def Let_def drop_conn_def set_adrift_def)
  qed
qed

lemma lock_inv_drops:
  assumes "lock_inv cl" and "(r, l) \<in> set (cl_guards cl)"
  shows "lock_inv (drop_lock r l (take_guard r l cl))"
proof -
  have "\<not> al_released l" using assms by (auto simp: lock_inv_but_def)
  then show ?thesis using lock_inv_drop_conn [of "close_on_drop (al_conn l)"] lock_inv_take [OF assms]
    by (simp add: drop_lock_def close_on_drop_def)
qed

lemma lock_inv_notices:
  assumes "lock_inv cl" and "s \<in> set (cl_adrift cl)"
  shows "lock_inv (end_session s cl)"
proof -
  have D: "distinct (cl_sessions cl)" using assms(1) by (simp add: lock_inv_but_def)
  let ?cl = "cl\<lparr>cl_adrift := removeAll s (cl_adrift cl)\<rparr>"
  have sessions: "cl_sessions ?cl = map snd (cl_idle cl) @ map lock_session (cl_guards cl) @ removeAll s (cl_adrift cl)" by (simp add: cl_sessions_def)
  have "distinct (cl_sessions ?cl)" "set (cl_sessions ?cl) = set (cl_sessions cl) - {s}" "s \<in> set (cl_sessions cl)"
    using D assms(2) by (auto simp: sessions cl_sessions_def distinct_removeAll)
  moreover have "accounted None cl s' k \<Longrightarrow> accounted (Some s) ?cl s' k" for s' k by (auto simp: accounted_def)
  ultimately have "lock_inv_but (Some s) ?cl" using assms(1) by (simp add: lock_inv_but_def)
  then show ?thesis using lock_inv_end [of s ?cl] by (simp add: end_session_def)
qed

lemma lock_inv_reaps:
  assumes "lock_inv cl" and "(r, s) \<in> set (cl_idle cl)"
  shows "lock_inv (end_session s (cl\<lparr>cl_idle := remove1 (r, s) (cl_idle cl)\<rparr>))"
proof -
  have d: "distinct (map snd (cl_idle cl))" and D: "distinct (cl_sessions cl)" using assms(1) by (simp_all add: lock_inv_but_def cl_sessions_def)
  let ?cl = "cl\<lparr>cl_idle := remove1 (r, s) (cl_idle cl)\<rparr>"
  note rest = remove1_distinct_key [OF d assms(2)]
  have s: "s \<in> snd ` set (cl_idle cl)" using assms(2) by force
  have "distinct (cl_sessions ?cl)" "set (cl_sessions ?cl) = set (cl_sessions cl) - {s}" "s \<in> set (cl_sessions cl)"
    using D rest s by (auto simp: cl_sessions_def)
  moreover have "accounted None cl s' k \<Longrightarrow> accounted (Some s) ?cl s' k" for s' k by (auto simp: accounted_def)
  ultimately have "lock_inv_but (Some s) ?cl" using assms(1) by (simp add: lock_inv_but_def)
  then show ?thesis by (rule lock_inv_end)
qed

lemma mset_map_split: "mset (map f (filter P xs)) + mset (map f (filter (\<lambda>x. \<not> P x) xs)) = mset (map f xs)"
  by (induction xs) auto

lemma crash_fields:
  "cl_idle (crash r cl) = filter (\<lambda>x. \<not> fst x = r) (cl_idle cl)" "cl_guards (crash r cl) = filter (\<lambda>g. \<not> fst g = r) (cl_guards cl)"
  "cl_adrift (crash r cl) = map snd (filter (\<lambda>x. fst x = r) (cl_idle cl)) @ map lock_session (filter (\<lambda>g. fst g = r) (cl_guards cl)) @ cl_adrift cl"
  "cl_held (crash r cl) = cl_held cl" "cl_next (crash r cl) = cl_next cl"
  by (simp_all add: crash_def case_prod_unfold comp_def lock_session_def [abs_def])

lemma lock_inv_crashes:
  assumes "lock_inv cl"
  shows "lock_inv (crash r cl)"
proof -
  have same: "mset (cl_sessions (crash r cl)) = mset (cl_sessions cl)"
    unfolding cl_sessions_def crash_fields mset_append
      mset_map_split [of snd "\<lambda>x. fst x = r" "cl_idle cl", symmetric] mset_map_split [of lock_session "\<lambda>g. fst g = r" "cl_guards cl", symmetric]
    by (simp add: ac_simps)
  have "distinct (cl_sessions (crash r cl))" "set (cl_sessions (crash r cl)) = set (cl_sessions cl)"
    using same assms mset_eq_imp_distinct_iff [OF same] mset_eq_setD [OF same] by (simp_all add: lock_inv_but_def)
  moreover have "accounted None cl s k \<Longrightarrow> accounted None (crash r cl) s k" for s k
  proof -
    assume "accounted None cl s k"
    then consider "s \<in> set (cl_adrift cl)" | g where "g \<in> set (cl_guards cl)" "lock_session g = s" "al_key (snd g) = k"
      by (auto simp: accounted_def)
    then show ?thesis by cases (cases "fst g = r"; force simp: accounted_def crash_fields)+
  qed
  ultimately show ?thesis using assms by (simp add: lock_inv_but_def crash_fields)
qed

lemma lock_inv_severs:
  assumes "lock_inv cl" and "(r, l) \<in> set (cl_guards cl)"
  shows "lock_inv (end_session (pc_session (al_conn l)) cl)"
proof -
  let ?s = "pc_session (al_conn l)" and ?cl = "end_session (pc_session (al_conn l)) cl"
  have "lock_session (r, l) \<in> set (map lock_session (cl_guards cl))" using assms(2) by force
  then have "?s \<notin> set (cl_adrift cl)" using assms(1) by (auto simp: lock_inv_but_def cl_sessions_def lock_session_def)
  then have adrift: "cl_adrift ?cl = cl_adrift cl" by (simp add: end_session_def removeAll_id)
  have "distinct (map snd (cl_held ?cl))" using assms(1) by (simp add: lock_inv_but_def end_session_def distinct_map_filter)
  moreover have "accounted None ?cl s k = accounted None cl s k" for s k by (simp add: accounted_def adrift) (simp add: end_session_def)
  moreover have "cl_sessions ?cl = cl_sessions cl" by (simp add: cl_sessions_def adrift) (simp add: end_session_def)
  ultimately show ?thesis using assms(1) by (simp add: lock_inv_but_def) (auto simp: end_session_def)
qed

lemma lock_inv_reachable: "cluster_reachable cl \<Longrightarrow> lock_inv cl"
proof (induction rule: rtranclp_induct)
  case base
  show ?case by (simp add: lock_inv_but_def cluster_empty_def cl_sessions_def)
next
  case (step cl cl')
  from step(2) show ?case using step(3)
    by cases (simp_all add: lock_inv_asks lock_inv_releases lock_inv_drops lock_inv_notices lock_inv_reaps lock_inv_crashes lock_inv_severs)
qed

subsection \<open>What a pass can rely on\<close>

definition lock_free :: "int \<Rightarrow> cluster \<Rightarrow> bool" where
  "lock_free k cl \<longleftrightarrow> k \<notin> set (map snd (cl_held cl))"

lemma try_acquire_answered:
  assumes "lock_inv cl"
  shows "if lock_free k cl
    then \<exists>l cl'. try_acquire r k True Answered cl = (Ok (Some l), cl'\<lparr>cl_held := (pc_session (al_conn l), k) # cl_held cl\<rparr>) \<and>
      al_key l = k \<and> \<not> al_released l \<and> \<not> pc_close (al_conn l) \<and> cl_held cl' = cl_held cl \<and> cl_adrift cl' = cl_adrift cl \<and>
      holds_nothing (pc_session (al_conn l)) cl \<and> pc_session (al_conn l) \<notin> set (cl_adrift cl)
    else \<exists>cl'. try_acquire r k True Answered cl = (Ok None, cl') \<and> cl_held cl' = cl_held cl"
proof -
  obtain conn cl1 where p: "pool_acquire r cl = (conn, cl1)" by (cases "pool_acquire r cl")
  note inv = lock_inv_pool_acquire [OF assms p]
  then have but: "lock_inv_but (Some (pc_session conn)) cl1" and unheld: "holds_nothing (pc_session conn) cl1" by simp_all
  have afloat: "pc_session conn \<notin> set (cl_adrift cl1)" using but by (auto simp: lock_inv_but_def cl_sessions_def)
  show ?thesis
  proof (cases "lock_free k cl")
    case True
    then have "try_acquire r k True Answered cl =
        (Ok (Some \<lparr>al_conn = conn, al_key = k, al_released = False\<rparr>), cl1\<lparr>cl_held := (pc_session conn, k) # cl_held cl\<rparr>)"
      using inv try_lock [OF but unheld, of k] p by (simp add: try_acquire_def lock_free_def)
    then show ?thesis using inv unheld afloat True by (fastforce simp: holds_nothing_def)
  next
    case False
    then have "try_acquire r k True Answered cl = (Ok None, drop_conn r conn cl1)"
      using inv try_lock [OF but unheld, of k] p by (simp add: try_acquire_def lock_free_def)
    moreover have "cl_held (drop_conn r conn cl1) = cl_held cl" using inv by (simp add: drop_conn_def)
    ultimately show ?thesis using False by simp
  qed
qed

lemma lock_taken_iff:
  assumes "lock_inv cl"
  shows "\<not> lock_free k cl \<longleftrightarrow>
    (\<exists>g \<in> set (cl_guards cl). guard_live cl g \<and> al_key (snd g) = k) \<or> (\<exists>s \<in> set (cl_adrift cl). (s, k) \<in> set (cl_held cl))"
proof
  assume "\<not> lock_free k cl"
  then obtain s where s: "(s, k) \<in> set (cl_held cl)" by (auto simp: lock_free_def)
  then have "accounted None cl s k" using assms by (simp add: lock_inv_but_def)
  then show "(\<exists>g \<in> set (cl_guards cl). guard_live cl g \<and> al_key (snd g) = k) \<or> (\<exists>s \<in> set (cl_adrift cl). (s, k) \<in> set (cl_held cl))"
    using s by (auto simp: accounted_def guard_live_def lock_session_def)
qed (force simp: lock_free_def guard_live_def)

subsection \<open>How a guard can lose its lock\<close>

lemma asks_keeps_grants:
  assumes "lock_inv cl"
  shows "set (cl_held cl) \<subseteq> set (cl_held (give_guard r (try_acquire r k pool_ok ans cl)))"
proof (cases pool_ok)
  case True
  obtain conn cl1 where p: "pool_acquire r cl = (conn, cl1)" by (cases "pool_acquire r cl")
  have "cl_held cl1 = cl_held cl" "\<not> pc_close conn" using lock_inv_pool_acquire [OF assms p] by simp_all
  then show ?thesis using True p
    by (cases ans)
      (auto simp: try_acquire_def give_guard_def pg_try_advisory_lock_def drop_conn_def set_adrift_def Let_def split: if_splits)
qed (simp add: try_acquire_def give_guard_def)

lemma release_keeps_others:
  "cl_guards (snd (release r ans l cl)) = cl_guards cl"
  "(s, k) \<in> set (cl_held cl) \<Longrightarrow> s \<noteq> pc_session (al_conn l) \<Longrightarrow> (s, k) \<in> set (cl_held (snd (release r ans l cl)))"
  by (cases ans; auto simp: release_def drop_lock_def drop_conn_def close_on_drop_def set_adrift_def pg_advisory_unlock_def
      end_session_def Let_def in_set_remove1)+

lemma drop_keeps_others:
  "cl_guards (drop_lock r l cl) = cl_guards cl"
  "(s, k) \<in> set (cl_held cl) \<Longrightarrow> s \<noteq> pc_session (al_conn l) \<Longrightarrow> (s, k) \<in> set (cl_held (drop_lock r l cl))"
  by (auto simp: drop_lock_def drop_conn_def close_on_drop_def end_session_def)

lemma guard_sessions_apart:
  assumes "lock_inv cl" and "g \<in> set (cl_guards cl)"
  shows "lock_session g \<notin> set (cl_adrift cl)" "(r, s) \<in> set (cl_idle cl) \<Longrightarrow> lock_session g \<noteq> s"
    "(r, l) \<in> set (cl_guards cl) \<Longrightarrow> g \<in> set (cl_guards (take_guard r l cl)) \<Longrightarrow> lock_session g \<noteq> pc_session (al_conn l)"
proof -
  have d: "distinct (map snd (cl_idle cl) @ map lock_session (cl_guards cl) @ cl_adrift cl)"
    using assms(1) by (simp add: lock_inv_but_def cl_sessions_def)
  have g: "lock_session g \<in> set (map lock_session (cl_guards cl))" using assms(2) by simp
  show "lock_session g \<notin> set (cl_adrift cl)" using d g by auto
  show "(r, s) \<in> set (cl_idle cl) \<Longrightarrow> lock_session g \<noteq> s" using d g by force
  assume l: "(r, l) \<in> set (cl_guards cl)" "g \<in> set (cl_guards (take_guard r l cl))"
  have "lock_session ` set (remove1 (r, l) (cl_guards cl)) = lock_session ` set (cl_guards cl) - {lock_session (r, l)}"
    using remove1_distinct_key [OF _ l(1), of lock_session] d by simp
  then show "lock_session g \<noteq> pc_session (al_conn l)" using l(2) by (auto simp: take_guard_def lock_session_def)
qed

lemma lock_lost_only_severed:
  assumes "lock_inv cl" and "cluster_step cl cl'" and "g \<in> set (cl_guards cl)" and "g \<in> set (cl_guards cl')"
    and "guard_live cl g" and "\<not> guard_live cl' g"
  shows "cl' = end_session (lock_session g) cl"
proof -
  have held: "(lock_session g, al_key (snd g)) \<in> set (cl_held cl)" and lost: "(lock_session g, al_key (snd g)) \<notin> set (cl_held cl')"
    using assms(5,6) by (simp_all add: guard_live_def lock_session_def)
  note apart = guard_sessions_apart [OF assms(1,3)]
  from assms(2) show ?thesis
  proof cases
    case (asks r k pool_ok ans)
    then show ?thesis using asks_keeps_grants [OF assms(1), of r k pool_ok ans] held lost by blast
  next
    case (releases r l ans)
    then have "lock_session g \<noteq> pc_session (al_conn l)" using apart(3) assms(4) release_keeps_others(1) by metis
    then show ?thesis using releases(1) release_keeps_others(2) [of _ _ "take_guard r l cl" l r ans] held lost by simp
  next
    case (drops r l)
    then have "lock_session g \<noteq> pc_session (al_conn l)" using apart(3) assms(4) drop_keeps_others(1) by metis
    then show ?thesis using drops(1) drop_keeps_others(2) [of _ _ "take_guard r l cl" l r] held lost by simp
  next
    case (notices s)
    then show ?thesis using apart(1) held lost by (auto simp: end_session_def)
  next
    case (reaps r s)
    then show ?thesis using apart(2) [of r s] held lost by (auto simp: end_session_def)
  next
    case (crashes r)
    then show ?thesis using held lost by (simp add: crash_def)
  next
    case (severs r l)
    then show ?thesis using held lost by (auto simp: end_session_def)
  qed
qed

lemma live_guards_distinct:
  assumes "lock_inv cl"
  shows "distinct (map (al_key \<circ> snd) (filter (guard_live cl) (cl_guards cl)))"
proof -
  have keys: "distinct (map snd (cl_held cl))" and guards: "distinct (map lock_session (cl_guards cl))"
    using assms by (simp_all add: lock_inv_but_def cl_sessions_def)
  have "lock_session g = lock_session h" if "guard_live cl g" "guard_live cl h" "al_key (snd g) = al_key (snd h)" for g h
    using that keys unfolding guard_live_def lock_session_def by (metis distinct_map inj_on_def fst_conv snd_conv)
  then have "inj_on (al_key \<circ> snd) (set (filter (guard_live cl) (cl_guards cl)))"
    using guards unfolding distinct_map by (intro inj_onI) (simp, metis inj_onD)
  then show ?thesis using guards unfolding distinct_map by simp
qed

text \<open>
  C9: Whatever the replicas, the pools, the network and the server do, in any order and with any statement
  failing, at most one guard of a key has a session that is alive, and a pass can run its statements only
  on that. A guard is given out with its lock, and nothing but the end of its session takes the lock from
  it. A connection that is back in a pool holds no lock; and a replica that asks is turned away exactly
  when a guard with a living session, or a session whose client is gone, has the key.
\<close>

theorem one_guard_per_key:
  assumes "cluster_reachable cl"
  shows "distinct (map (al_key \<circ> snd) (filter (guard_live cl) (cl_guards cl))) \<and>
    (\<forall>r k l cl'. try_acquire r k True Answered cl = (Ok (Some l), cl') \<longrightarrow> al_key l = k \<and> guard_live cl' (r, l)) \<and>
    (\<forall>cl' g. cluster_step cl cl' \<and> g \<in> set (cl_guards cl) \<inter> set (cl_guards cl') \<and> guard_live cl g \<and> \<not> guard_live cl' g \<longrightarrow>
      cl' = end_session (lock_session g) cl) \<and>
    (\<forall>(r, s) \<in> set (cl_idle cl). holds_nothing s cl) \<and>
    (fst (try_acquire r k True Answered cl) = Ok None \<longleftrightarrow>
      (\<exists>g \<in> set (cl_guards cl). guard_live cl g \<and> al_key (snd g) = k) \<or> (\<exists>s \<in> set (cl_adrift cl). (s, k) \<in> set (cl_held cl)))"
proof (intro conjI)
  have inv: "lock_inv cl" by (rule lock_inv_reachable [OF assms])
  show "distinct (map (al_key \<circ> snd) (filter (guard_live cl) (cl_guards cl)))" by (rule live_guards_distinct [OF inv])
  show "\<forall>r k l cl'. try_acquire r k True Answered cl = (Ok (Some l), cl') \<longrightarrow> al_key l = k \<and> guard_live cl' (r, l)"
  proof (intro allI impI)
    fix r k l cl' assume "try_acquire r k True Answered cl = (Ok (Some l), cl')"
    then show "al_key l = k \<and> guard_live cl' (r, l)"
      using try_acquire_answered [OF inv, of k r] by (auto simp: guard_live_def split: if_splits)
  qed
  show "\<forall>cl' g. cluster_step cl cl' \<and> g \<in> set (cl_guards cl) \<inter> set (cl_guards cl') \<and> guard_live cl g \<and> \<not> guard_live cl' g \<longrightarrow>
      cl' = end_session (lock_session g) cl"
    using lock_lost_only_severed [OF inv] by blast
  show "\<forall>(r, s) \<in> set (cl_idle cl). holds_nothing s cl" using idle_holds_nothing [OF inv] by blast
  show "fst (try_acquire r k True Answered cl) = Ok None \<longleftrightarrow>
      (\<exists>g \<in> set (cl_guards cl). guard_live cl g \<and> al_key (snd g) = k) \<or> (\<exists>s \<in> set (cl_adrift cl). (s, k) \<in> set (cl_held cl))"
    using lock_taken_iff [OF inv, of k] try_acquire_answered [OF inv, of k r] by (auto split: if_splits)
qed

definition ex_cluster :: cluster where
  "ex_cluster = give_guard 0 (try_acquire 0 GC_LOCK_KEY True Answered cluster_empty)"

lemma ex_cluster_reachable: "cluster_reachable ex_cluster"
  unfolding ex_cluster_def by (rule r_into_rtranclp) (rule asks)

lemmas lock_eval = ex_cluster_def give_guard_def try_acquire_def pool_acquire_def cluster_empty_def pg_try_advisory_lock_def drop_conn_def
  GC_LOCK_KEY_def ROTATE_LOCK_KEY_def

theorem one_guard_per_key_witness:
  "cl_guards ex_cluster = [(0, \<lparr>al_conn = \<lparr>pc_session = 0, pc_close = False\<rparr>, al_key = GC_LOCK_KEY, al_released = False\<rparr>)] \<and>
    fst (try_acquire 1 GC_LOCK_KEY True Answered ex_cluster) = Ok None \<and>
    fst (try_acquire 1 ROTATE_LOCK_KEY True Answered ex_cluster) \<noteq> Ok None"
  using one_guard_per_key [OF ex_cluster_reachable, of 1 GC_LOCK_KEY] one_guard_per_key [OF ex_cluster_reachable, of 1 ROTATE_LOCK_KEY]
  by (simp add: lock_eval)

text \<open>
  A lost session is enough for two guards of one key: the first guard's replica does not learn of it until
  its next statement, while the server grants the key again.
\<close>

definition ex_severed :: cluster where
  "ex_severed = give_guard 1 (try_acquire 1 GC_LOCK_KEY True Answered (end_session 0 ex_cluster))"

theorem severed_session_two_guards:
  "cluster_reachable ex_severed \<and> map (\<lambda>(r, l). (r, al_key l)) (cl_guards ex_severed) = [(1, GC_LOCK_KEY), (0, GC_LOCK_KEY)] \<and>
    map (guard_live ex_severed) (cl_guards ex_severed) = [True, False]"
proof (intro conjI)
  have "cluster_step ex_cluster (end_session 0 ex_cluster)"
    using severs [of 0 "\<lparr>al_conn = \<lparr>pc_session = 0, pc_close = False\<rparr>, al_key = GC_LOCK_KEY, al_released = False\<rparr>" ex_cluster]
    by (simp add: lock_eval)
  moreover have "cluster_step (end_session 0 ex_cluster) ex_severed" unfolding ex_severed_def by (rule asks)
  ultimately show "cluster_reachable ex_severed" using ex_cluster_reachable by (meson rtranclp.rtrancl_into_rtrancl)
qed (simp_all add: ex_severed_def lock_eval end_session_def guard_live_def)

lemma pass_steps:
  assumes "try_acquire r k pool_ok ans cl = (Ok (Some l), cl1)"
  shows "cluster_step\<^sup>*\<^sup>* cl (snd (release r unlocking l cl1))"
proof -
  have live: "(pc_session (al_conn l), al_key l) \<in> set (cl_held cl1)"
    using assms by (auto simp: try_acquire_def pg_try_advisory_lock_def split: if_splits prod.splits answer.splits)
  let ?cl1 = "cl1\<lparr>cl_guards := (r, l) # cl_guards cl1\<rparr>"
  have "cluster_step cl ?cl1" using asks [of cl r k pool_ok ans] assms by (simp add: give_guard_def)
  moreover have "cluster_step ?cl1 (snd (release r unlocking l (take_guard r l ?cl1)))"
    by (rule releases) (simp_all add: live guard_live_def)
  moreover have "take_guard r l ?cl1 = cl1" by (simp add: take_guard_def)
  ultimately show ?thesis by (metis converse_rtranclp_into_rtranclp r_into_rtranclp)
qed

lemma turned_away_step: "try_acquire r k pool_ok ans cl = (Ok None, cl1) \<Longrightarrow> cluster_step\<^sup>*\<^sup>* cl cl1"
  using asks [of cl r k pool_ok ans] by (simp add: give_guard_def r_into_rtranclp)

lemma release_frees:
  assumes "lock_inv cl" and "lock_free k cl" and "try_acquire r k True Answered cl = (Ok (Some l), cl1)" and "unlocking \<noteq> Broken False"
  shows "lock_free k (snd (release r unlocking l cl1))"
proof -
  obtain cl' where cl1: "cl1 = cl'\<lparr>cl_held := (pc_session (al_conn l), k) # cl_held cl\<rparr>" and l: "al_key l = k" "\<not> pc_close (al_conn l)"
      and cl': "cl_adrift cl' = cl_adrift cl" "holds_nothing (pc_session (al_conn l)) cl" "pc_session (al_conn l) \<notin> set (cl_adrift cl)"
    using try_acquire_answered [OF assms(1), of k r] assms(2,3) by auto
  have "filter (\<lambda>(s', _). s' \<noteq> pc_session (al_conn l)) (cl_held cl) = cl_held cl"
    using cl'(2) by (auto simp: filter_id_conv holds_nothing_def)
  then show ?thesis using assms(2,4) cl' l
    by (cases unlocking) (auto simp: cl1 release_def drop_lock_def drop_conn_def close_on_drop_def set_adrift_def
        pg_advisory_unlock_def end_session_def lock_free_def Let_def)
qed

lemma pass_cases:
  assumes "cluster_reachable cl"
  obtains (turned_away) cl' where "\<not> lock_free k cl" "try_acquire r k True Answered cl = (Ok None, cl')" "cluster_reachable cl'"
  | (granted) l cl' where "lock_free k cl" "try_acquire r k True Answered cl = (Ok (Some l), cl')"
      "cluster_reachable (snd (release r unlocking l cl'))"
      "unlocking \<noteq> Broken False \<Longrightarrow> lock_free k (snd (release r unlocking l cl'))"
proof (cases "lock_free k cl")
  case True
  note inv = lock_inv_reachable [OF assms]
  obtain l cl1 where t: "try_acquire r k True Answered cl = (Ok (Some l), cl1)"
    using try_acquire_answered [OF inv, of k r] True by auto
  show ?thesis by (rule granted [OF True t rtranclp_trans [OF assms pass_steps [OF t]] release_frees [OF inv True t]])
next
  case False
  obtain cl1 where t: "try_acquire r k True Answered cl = (Ok None, cl1)"
    using try_acquire_answered [OF lock_inv_reachable [OF assms], of k r] False by auto
  show ?thesis by (rule turned_away [OF False t rtranclp_trans [OF assms turned_away_step [OF t]]])
qed

text \<open>
  A pass of the collector is the pass of \<open>Gc\<close>, run if and only if its key is free in the cluster. It
  leaves the cluster in a state the steps reach, and the key free, unless the connection broke on it. The
  same holds of a rotation.
\<close>

theorem gc_pass_refines:
  assumes "cluster_reachable cl" and "pg_fault db = None"
  shows "\<exists>cl'. gc_pass r True Answered unlocking del_ok cutoffs ret n (cl, db, b) =
      (let (result, st) = run_gc_pass_on (lock_free GC_LOCK_KEY cl) del_ok cutoffs ret n (db, b) in (result, cl', st)) \<and>
    cluster_reachable cl' \<and> (lock_free GC_LOCK_KEY cl \<and> unlocking \<noteq> Broken False \<longrightarrow> lock_free GC_LOCK_KEY cl')"
  using assms(2)
  by (cases rule: pass_cases [OF assms(1), where k = GC_LOCK_KEY and r = r and unlocking = unlocking])
    (auto simp: gc_pass_def run_gc_pass_on_def split: prod.splits)

theorem rotation_pass_refines:
  assumes "cluster_reachable cl" and "pg_fault (va_db v) = None"
  shows "\<exists>cl'. rotation_pass r True Answered unlocking secret retention (cl, v) =
      (let (result, v') = rotate_secrets (lock_free ROTATE_LOCK_KEY cl) secret retention v in (result, cl', v')) \<and>
    cluster_reachable cl' \<and> (lock_free ROTATE_LOCK_KEY cl \<and> unlocking \<noteq> Broken False \<longrightarrow> lock_free ROTATE_LOCK_KEY cl')"
  using assms(2)
  by (cases rule: pass_cases [OF assms(1), where k = ROTATE_LOCK_KEY and r = r and unlocking = unlocking])
    (auto simp: rotation_pass_def rotate_secrets_def split: prod.splits)

end
