(* ===== verification/Inputs.thy ===== *)
theory Inputs
  imports Jobs "HOL-Library.Multiset"
begin

text \<open>
  Inputs of a job on the worker (\<open>worker/src/main.rs\<close>: \<open>topo_sort_inputs\<close>,
  \<open>skip_already_valid\<close>, \<open>fetch_inputs\<close>). The order of registration is computed with Kahn's
  algorithm over the references of the staged inputs; downloads run in parallel and may arrive
  in any order. The lemmas show that the sort ends, that it fails exactly on a reference cycle,
  and that the guest never sees an input before a staged path it refers to.
\<close>

subsection \<open>Kahn's algorithm\<close>

text \<open>Collecting into a \<open>HashMap\<close> keeps the last index of a repeated path.\<close>

definition by_path :: "input_ref list \<Rightarrow> store_path \<rightharpoonup> nat" where
  "by_path inputs = map_of (rev (map (\<lambda>(i, x). (in_store_path x, i)) (enumerate 0 inputs)))"

definition add_reference :: "input_ref list \<Rightarrow> nat list \<times> nat list list \<Rightarrow> nat \<times> store_path \<Rightarrow> nat list \<times> nat list list" where
  "add_reference inputs st ir =
     (case by_path inputs (snd ir) of
        Some dep \<Rightarrow>
          if dep \<noteq> fst ir
          then ((fst st)[fst ir := fst st ! fst ir + 1], (snd st)[dep := snd st ! dep @ [fst ir]])
          else st
      | None \<Rightarrow> st)"

definition all_references :: "input_ref list \<Rightarrow> (nat \<times> store_path) list" where
  "all_references inputs = concat (map (\<lambda>(i, x). map (Pair i) (in_references x)) (enumerate 0 inputs))"

definition build_graph :: "input_ref list \<Rightarrow> nat list \<times> nat list list" where
  "build_graph inputs =
     foldl (add_reference inputs) (replicate (length inputs) 0, replicate (length inputs) []) (all_references inputs)"

text \<open>\<open>indegree -= 1\<close> on a \<open>usize\<close> wraps at zero in a release build.\<close>

definition usize_dec :: "nat \<Rightarrow> nat" where
  "usize_dec x = (if x = 0 then 2 ^ 64 - 1 else x - 1)"

fun release :: "nat list \<Rightarrow> nat list \<times> nat list \<Rightarrow> nat list \<times> nat list" where
  "release [] st = st"
| "release (j # js) (indegree, queue) =
     (let v = usize_dec (indegree ! j)
      in release js (indegree[j := v], if v = 0 then queue @ [j] else queue))"

partial_function (option) kahn :: "nat list list \<Rightarrow> nat list \<Rightarrow> nat list \<Rightarrow> nat list \<Rightarrow> nat list option" where
  "kahn dependents indegree queue order =
     (case queue of
        [] \<Rightarrow> Some order
      | i # q \<Rightarrow> (case release (dependents ! i) (indegree, q) of
                   (indegree, q) \<Rightarrow> kahn dependents indegree q (order @ [i])))"

definition topo_sort_inputs :: "input_ref list \<Rightarrow> (report, nat list) res option" where
  "topo_sort_inputs inputs =
     (let (indegree, dependents) = build_graph inputs
      in map_option (\<lambda>order. if length order \<noteq> length inputs
                             then Err [OpaqueCause ''reference cycle among staged inputs''] else Ok order)
           (kahn dependents indegree (filter (\<lambda>i. indegree ! i = 0) [0..<length inputs]) []))"

subsection \<open>The graph\<close>

text \<open>Input \<open>i\<close> needs input \<open>d\<close> before it.\<close>

definition needs :: "input_ref list \<Rightarrow> nat \<Rightarrow> nat \<Rightarrow> bool" where
  "needs inputs i d \<longleftrightarrow> i < length inputs \<and> d \<noteq> i \<and> (\<exists>r \<in> set (in_references (inputs ! i)). by_path inputs r = Some d)"

lemma by_path_bound: "by_path inputs r = Some d \<Longrightarrow> d < length inputs \<and> in_store_path (inputs ! d) = r"
  unfolding by_path_def by (drule map_of_SomeD) (auto simp: in_set_enumerate_eq)

lemma by_path_total: "i < length inputs \<Longrightarrow> \<exists>d. by_path inputs (in_store_path (inputs ! i)) = Some d"
proof -
  assume i: "i < length inputs"
  then have "(i, inputs ! i) \<in> set (enumerate 0 inputs)" by (simp add: in_set_enumerate_eq)
  then have "in_store_path (inputs ! i) \<in> dom (by_path inputs)"
    unfolding by_path_def dom_map_of_conv_image_fst by (force intro: image_eqI)
  then show ?thesis by blast
qed

text \<open>The counts the two arrays keep: \<open>indegree\<close> counts the edges into an input.\<close>

definition edges_into :: "nat set \<Rightarrow> nat list list \<Rightarrow> nat \<Rightarrow> nat" where
  "edges_into ds deps j = (\<Sum>d \<in> ds. count_list (deps ! d) j)"

definition graph_ok :: "nat \<Rightarrow> nat list \<times> nat list list \<Rightarrow> bool" where
  "graph_ok n st \<longleftrightarrow> length (fst st) = n \<and> length (snd st) = n \<and>
     (\<forall>j < n. fst st ! j = edges_into {..<n} (snd st) j) \<and> (\<forall>d < n. set (snd st ! d) \<subseteq> {..<n})"

lemma edges_into_append:
  assumes "finite ds" "d \<in> ds" "ds \<subseteq> {..<length deps}"
  shows "edges_into ds (deps[d := deps ! d @ [i]]) j = edges_into ds deps j + (if j = i then 1 else 0)"
proof -
  have d: "d < length deps" using assms by auto
  have "edges_into (ds - {d}) (deps[d := deps ! d @ [i]]) j = edges_into (ds - {d}) deps j"
    unfolding edges_into_def by (rule sum.cong) auto
  then show ?thesis
    using assms(1,2) d by (simp add: edges_into_def sum.remove [of ds d])
qed

lemma add_reference_step:
  assumes ok: "graph_ok (length inputs) st" and i: "i < length inputs"
  shows "graph_ok (length inputs) (add_reference inputs st (i, r))"
    and "d < length inputs \<Longrightarrow> set (snd (add_reference inputs st (i, r)) ! d) =
           set (snd st ! d) \<union> (if by_path inputs r = Some d \<and> d \<noteq> i then {i} else {})"
proof -
  have len: "length (fst st) = length inputs" "length (snd st) = length inputs"
    and cnt: "\<And>j. j < length inputs \<Longrightarrow> fst st ! j = edges_into {..<length inputs} (snd st) j"
    and sub: "\<And>d. d < length inputs \<Longrightarrow> set (snd st ! d) \<subseteq> {..<length inputs}"
    using ok by (auto simp: graph_ok_def)
  show "graph_ok (length inputs) (add_reference inputs st (i, r))"
  proof (cases "\<exists>d. by_path inputs r = Some d \<and> d \<noteq> i")
    case True
    then obtain d where d: "by_path inputs r = Some d" "d \<noteq> i" by blast
    have dn: "d < length inputs" using by_path_bound [OF d(1)] by simp
    have e: "edges_into {..<length inputs} ((snd st)[d := snd st ! d @ [i]]) j =
        edges_into {..<length inputs} (snd st) j + (if j = i then 1 else 0)" for j
      using dn len by (intro edges_into_append) auto
    have "set ((snd st)[d := snd st ! d @ [i]] ! d') \<subseteq> {..<length inputs}" if "d' < length inputs" for d'
      using sub [OF that] i len that by (cases "d' = d") auto
    then show ?thesis
      using d len i by (simp add: add_reference_def graph_ok_def e cnt nth_list_update)
  next
    case False
    then have "add_reference inputs st (i, r) = st"
      by (auto simp: add_reference_def split: option.split)
    then show ?thesis using ok by simp
  qed
  show "set (snd (add_reference inputs st (i, r)) ! d) =
      set (snd st ! d) \<union> (if by_path inputs r = Some d \<and> d \<noteq> i then {i} else {})" if "d < length inputs"
    using that len by (auto simp: add_reference_def nth_list_update split: option.split)
qed

lemma add_reference_fold:
  assumes "\<And>i r. (i, r) \<in> set rs \<Longrightarrow> i < length inputs" "graph_ok (length inputs) st"
  shows "graph_ok (length inputs) (foldl (add_reference inputs) st rs) \<and>
    (\<forall>d < length inputs. set (snd (foldl (add_reference inputs) st rs) ! d) =
           set (snd st ! d) \<union> {i. \<exists>r. (i, r) \<in> set rs \<and> by_path inputs r = Some d \<and> d \<noteq> i})"
  using assms
proof (induction rs arbitrary: st)
  case (Cons ir rs)
  obtain i r where ir: "ir = (i, r)" by (cases ir)
  have i: "i < length inputs" using Cons.prems ir by auto
  note step = add_reference_step [OF Cons.prems(2) i, where r = r, folded ir]
  have "graph_ok (length inputs) (foldl (add_reference inputs) (add_reference inputs st ir) rs) \<and>
    (\<forall>d < length inputs. set (snd (foldl (add_reference inputs) (add_reference inputs st ir) rs) ! d) =
      set (snd (add_reference inputs st ir) ! d) \<union> {i. \<exists>r. (i, r) \<in> set rs \<and> by_path inputs r = Some d \<and> d \<noteq> i})"
    by (rule Cons.IH) (use Cons.prems step in auto)
  then show ?case using step(2) by (auto simp: ir)
qed auto

lemma in_all_references: "(i, r) \<in> set (all_references inputs) \<longleftrightarrow> i < length inputs \<and> r \<in> set (in_references (inputs ! i))"
  by (force simp: all_references_def in_set_enumerate_eq split: prod.splits)

lemma build_graph_correct:
  "graph_ok (length inputs) (build_graph inputs) \<and>
   (\<forall>d < length inputs. set (snd (build_graph inputs) ! d) = {i. needs inputs i d})"
proof -
  have "graph_ok (length inputs) (replicate (length inputs) 0, replicate (length inputs) [])"
    by (simp add: graph_ok_def edges_into_def)
  from add_reference_fold [OF _ this, of "all_references inputs"] show ?thesis
    by (auto simp: build_graph_def in_all_references needs_def)
qed

subsection \<open>Releasing dependents\<close>

lemma release_spec:
  assumes "\<And>j. j \<in> set js \<Longrightarrow> j < length ind \<and> count_list js j \<le> ind ! j"
  shows "\<exists>ind' new. release js (ind, q) = (ind', q @ new) \<and> length ind' = length ind \<and>
    (\<forall>j < length ind. ind' ! j = ind ! j - count_list js j) \<and>
    distinct new \<and> set new = {j \<in> set js. ind ! j = count_list js j}"
  using assms
proof (induction js arbitrary: ind q)
  case (Cons j js)
  have j: "j < length ind" "0 < ind ! j" using Cons.prems [of j] by auto
  let ?ind = "ind[j := ind ! j - 1]" and ?q = "if ind ! j = 1 then q @ [j] else q"
  have step: "release (j # js) (ind, q) = release js (?ind, ?q)"
    using j by (auto simp: usize_dec_def Let_def)
  have pre: "k < length ?ind \<and> count_list js k \<le> ?ind ! k" if "k \<in> set js" for k
    using Cons.prems [of k] that j by (auto simp: nth_list_update split: if_splits)
  from Cons.IH [of ?ind ?q, OF pre] obtain ind' new where r: "release js (?ind, ?q) = (ind', ?q @ new)" "length ind' = length ind"
    "\<forall>k < length ind. ind' ! k = ?ind ! k - count_list js k" "distinct new"
    "set new = {k \<in> set js. ?ind ! k = count_list js k}" unfolding length_list_update by blast
  let ?new = "if ind ! j = 1 then j # new else new"
  have last: "j \<notin> set js" if "ind ! j = 1"
    using Cons.prems [of j] that count_list_0_iff [of js j] by auto
  have zero: "count_list js j = 0 \<longleftrightarrow> j \<notin> set js" by (rule count_list_0_iff)
  have "k \<in> set ?new \<longleftrightarrow> k \<in> set (j # js) \<and> ind ! k = count_list (j # js) k" for k
  proof (cases "k = j")
    case True
    have "j \<in> set new \<longleftrightarrow> j \<in> set js \<and> ind ! j = count_list js j + 1" using r(5) j by auto
    then show ?thesis using True zero last j by (cases "j \<in> set js") auto
  next
    case False
    then show ?thesis using r(5) by auto
  qed
  then have "set ?new = {k \<in> set (j # js). ind ! k = count_list (j # js) k}" by blast
  moreover have "distinct ?new" using r(4,5) last by auto
  moreover have "\<forall>k < length ind. ind' ! k = ind ! k - count_list (j # js) k"
    using r(3) j by (auto simp: nth_list_update)
  moreover have "release (j # js) (ind, q) = (ind', q @ ?new)"
    unfolding step r(1) by simp
  ultimately show ?case using r(2) by blast
qed auto

subsection \<open>The loop\<close>

text \<open>
  What holds at the head of the loop: the indegree of an input counts its edges from inputs not
  yet ordered, the inputs without such edges are the ones ordered or queued, and an ordered
  input stands behind everything it needs.
\<close>

definition kahn_inv :: "nat list list \<Rightarrow> nat list \<Rightarrow> nat list \<Rightarrow> nat list \<Rightarrow> bool" where
  "kahn_inv deps ind q ord \<longleftrightarrow>
     (let n = length deps in
        length ind = n \<and> (\<forall>d < n. set (deps ! d) \<subseteq> {..<n}) \<and>
        distinct (ord @ q) \<and> set (ord @ q) = {j. j < n \<and> ind ! j = 0} \<and>
        (\<forall>j < n. ind ! j = edges_into ({..<n} - set ord) deps j) \<and>
        (\<forall>k < length ord. \<forall>d < n. ord ! k \<in> set (deps ! d) \<longrightarrow> d \<in> set (take k ord)))"

lemma edges_into_remove: "finite ds \<Longrightarrow> i \<in> ds \<Longrightarrow> edges_into ds deps j = count_list (deps ! i) j + edges_into (ds - {i}) deps j"
  by (simp add: edges_into_def sum.remove)

lemma edges_into_0_iff: "finite ds \<Longrightarrow> edges_into ds deps j = 0 \<longleftrightarrow> (\<forall>d \<in> ds. j \<notin> set (deps ! d))"
  by (simp add: edges_into_def count_list_0_iff)

lemma kahn_step:
  assumes inv: "kahn_inv deps ind (i # q) ord"
  shows "\<exists>ind' q'. release (deps ! i) (ind, q) = (ind', q') \<and> kahn_inv deps ind' q' (ord @ [i])"
proof -
  let ?n = "length deps" and ?ds = "{..<length deps} - set ord"
  have len: "length ind = ?n" and sub: "\<And>d. d < ?n \<Longrightarrow> set (deps ! d) \<subseteq> {..<?n}"
    and dist: "distinct (ord @ i # q)" and zero: "set (ord @ i # q) = {j. j < ?n \<and> ind ! j = 0}"
    and cnt: "\<And>j. j < ?n \<Longrightarrow> ind ! j = edges_into ?ds deps j"
    and early: "\<And>k d. k < length ord \<Longrightarrow> d < ?n \<Longrightarrow> ord ! k \<in> set (deps ! d) \<Longrightarrow> d \<in> set (take k ord)"
    using inv unfolding kahn_inv_def Let_def by auto
  have i: "i \<in> ?ds" "i < ?n" "ind ! i = 0" using dist zero by auto
  have split: "ind ! j = count_list (deps ! i) j + edges_into (?ds - {i}) deps j" if "j < ?n" for j
    using cnt [OF that] edges_into_remove [OF _ i(1)] by simp
  have rest: "?ds - {i} = {..<?n} - set (ord @ [i])" by auto
  have pre: "j < length ind \<and> count_list (deps ! i) j \<le> ind ! j" if "j \<in> set (deps ! i)" for j
    using that sub [OF i(2)] len split [of j] by auto
  from release_spec [OF pre, of q] obtain ind' new where
    r: "release (deps ! i) (ind, q) = (ind', q @ new)" "length ind' = ?n"
      "\<And>j. j < ?n \<Longrightarrow> ind' ! j = ind ! j - count_list (deps ! i) j" "distinct new"
      "set new = {j \<in> set (deps ! i). ind ! j = count_list (deps ! i) j}" unfolding len by blast
  have cnt': "ind' ! j = edges_into ({..<?n} - set (ord @ [i])) deps j" if "j < ?n" for j
    using r(3) [OF that] split [OF that] unfolding rest by simp
  have new_pos: "0 < ind ! j" if "j \<in> set new" for j
  proof -
    from that have "count_list (deps ! i) j \<noteq> 0" "ind ! j = count_list (deps ! i) j"
      using r(5) by (auto simp: count_list_0_iff)
    then show ?thesis by simp
  qed
  have "distinct ((ord @ [i]) @ q @ new)"
  proof -
    have "set (ord @ i # q) \<inter> set new = {}" using zero new_pos by fastforce
    then show ?thesis using dist r(4) by auto
  qed
  moreover have "set ((ord @ [i]) @ q @ new) = {j. j < ?n \<and> ind' ! j = 0}"
  proof -
    have "j \<in> set (ord @ i # q) \<or> j \<in> set new \<longleftrightarrow> ind' ! j = 0" if "j < ?n" for j
      using r(3) [OF that] r(5) split [OF that] zero that count_list_0_iff [of "deps ! i" j] by auto
    moreover have "j < ?n" if "j \<in> set (ord @ i # q) \<or> j \<in> set new" for j
      using that zero r(5) sub [OF i(2)] by blast
    ultimately show ?thesis by auto
  qed
  moreover have "d \<in> set (take k (ord @ [i]))"
    if "k < length (ord @ [i])" "d < ?n" "(ord @ [i]) ! k \<in> set (deps ! d)" for k d
  proof (cases "k < length ord")
    case True
    then show ?thesis using early [of k d] that by (simp add: nth_append)
  next
    case False
    then have k: "k = length ord" using that(1) by simp
    then have "i \<in> set (deps ! d)" using that(3) by simp
    then have "d \<in> set ord" using cnt [OF i(2)] i(3) that(2) edges_into_0_iff [of ?ds deps i] by auto
    then show ?thesis using k by simp
  qed
  ultimately have "kahn_inv deps ind' (q @ new) (ord @ [i])"
    using r(2) sub cnt' unfolding kahn_inv_def Let_def by blast
  then show ?thesis using r(1) by blast
qed

lemma kahn_bound: "kahn_inv deps ind q ord \<Longrightarrow> length ord + length q \<le> length deps"
proof -
  assume "kahn_inv deps ind q ord"
  then have "distinct (ord @ q)" "set (ord @ q) \<subseteq> {..<length deps}" by (auto simp: kahn_inv_def Let_def)
  then have "card (set (ord @ q)) \<le> length deps" using card_mono [of "{..<length deps}"] by fastforce
  then show ?thesis using distinct_card [OF \<open>distinct (ord @ q)\<close>] by simp
qed

lemma kahn_ends: "kahn_inv deps ind q ord \<Longrightarrow> \<exists>ind' ord'. kahn deps ind q ord = Some ord' \<and> kahn_inv deps ind' [] ord'"
proof (induction "length deps - length ord" arbitrary: ind q ord rule: less_induct)
  case less
  show ?case
  proof (cases q)
    case Nil
    then show ?thesis using less.prems kahn.simps [of deps ind q ord] by auto
  next
    case (Cons i q')
    obtain ind' q'' where s: "release (deps ! i) (ind, q') = (ind', q'')" "kahn_inv deps ind' q'' (ord @ [i])"
      using kahn_step [of deps ind i q' ord] less.prems Cons by blast
    have "length deps - length (ord @ [i]) < length deps - length ord"
      using kahn_bound [OF less.prems] Cons by simp
    from less.hyps [OF this s(2)] show ?thesis
      using s(1) Cons kahn.simps [of deps ind q ord] by simp
  qed
qed

lemma kahn_start:
  assumes "graph_ok n (ind, deps)"
  shows "kahn_inv deps ind (filter (\<lambda>i. ind ! i = 0) [0..<n]) []"
  using assms by (auto simp: graph_ok_def kahn_inv_def Let_def)

definition input_graph :: "input_ref list \<Rightarrow> (nat \<times> nat) set" where
  "input_graph inputs = {(d, i). needs inputs i d}"

lemma input_graph_bound: "input_graph inputs \<subseteq> {..<length inputs} \<times> {..<length inputs}"
  by (auto simp: input_graph_def needs_def dest: by_path_bound)

lemma finite_input_graph: "finite (input_graph inputs)"
  using input_graph_bound by (rule finite_subset) simp

lemma ordered_acyclic:
  assumes "set ord = {..<length inputs}" "distinct ord"
    and early: "\<forall>k < length ord. \<forall>d. needs inputs (ord ! k) d \<longrightarrow> d \<in> set (take k ord)"
  shows "acyclic (input_graph inputs)"
proof -
  define pos where "pos x = (THE k. k < length ord \<and> ord ! k = x)" for x
  have pos: "pos (ord ! k) = k" if "k < length ord" for k
    unfolding pos_def using that assms(2) nth_eq_iff_index_eq by (intro the_equality) auto
  have "pos d < pos i" if n: "needs inputs i d" for d i
  proof -
    have "i \<in> set ord" using n assms(1) by (auto simp: needs_def)
    then obtain k where k: "k < length ord" "ord ! k = i" by (auto simp: in_set_conv_nth)
    then have "d \<in> set (take k ord)" using early n by blast
    then obtain l where "l < k" "ord ! l = d" by (auto simp: in_set_conv_nth)
    then show ?thesis using k pos [of l] pos [of k] by auto
  qed
  then have "input_graph inputs \<subseteq> measure pos" by (auto simp: input_graph_def)
  then show ?thesis by (meson acyclic_subset wf_acyclic wf_measure)
qed

lemma stuck_cyclic:
  assumes "s \<subseteq> {..<length inputs}" "s \<noteq> {}" "\<And>i. i \<in> s \<Longrightarrow> \<exists>d \<in> s. needs inputs i d"
  shows "\<not> acyclic (input_graph inputs)"
proof
  assume "acyclic (input_graph inputs)"
  then have "wf (input_graph inputs)" by (rule finite_acyclic_wf [OF finite_input_graph])
  moreover obtain x where "x \<in> s" using assms(2) by blast
  ultimately obtain z where "z \<in> s" "\<And>y. (y, z) \<in> input_graph inputs \<Longrightarrow> y \<notin> s" by (rule wfE_min) blast
  then show False using assms(3) by (auto simp: input_graph_def)
qed

definition cycle_report :: report where
  "cycle_report = [OpaqueCause ''reference cycle among staged inputs'']"

lemma topo_sort_correct:
  "if acyclic (input_graph inputs)
   then \<exists>order. topo_sort_inputs inputs = Some (Ok order) \<and> distinct order \<and> set order = {..<length inputs} \<and>
          (\<forall>k < length order. \<forall>d. needs inputs (order ! k) d \<longrightarrow> d \<in> set (take k order))
   else topo_sort_inputs inputs = Some (Err cycle_report)"
proof -
  let ?n = "length inputs"
  obtain ind deps where g: "build_graph inputs = (ind, deps)" by (cases "build_graph inputs")
  have ok: "graph_ok ?n (ind, deps)" and edges: "\<And>d. d < ?n \<Longrightarrow> set (deps ! d) = {i. needs inputs i d}"
    using build_graph_correct [of inputs] by (auto simp: g)
  have n: "length deps = ?n" using ok by (simp add: graph_ok_def)
  obtain ind' ord where k: "kahn deps ind (filter (\<lambda>i. ind ! i = 0) [0..<?n]) [] = Some ord" "kahn_inv deps ind' [] ord"
    using kahn_ends [OF kahn_start [OF ok]] by blast
  have inv: "distinct ord" "set ord = {j. j < ?n \<and> ind' ! j = 0}"
    "\<And>j. j < ?n \<Longrightarrow> ind' ! j = edges_into ({..<?n} - set ord) deps j"
    "\<And>k d. k < length ord \<Longrightarrow> d < ?n \<Longrightarrow> needs inputs (ord ! k) d \<Longrightarrow> d \<in> set (take k ord)"
    using k(2) edges unfolding kahn_inv_def Let_def n by auto
  have early: "\<forall>k < length ord. \<forall>d. needs inputs (ord ! k) d \<longrightarrow> d \<in> set (take k ord)"
    using inv(4) by (auto simp: needs_def dest: by_path_bound)
  have res: "topo_sort_inputs inputs = Some (if length ord \<noteq> ?n then Err cycle_report else Ok ord)"
    by (simp add: topo_sort_inputs_def g k(1) cycle_report_def)
  have len: "length ord = ?n \<longleftrightarrow> set ord = {..<?n}"
  proof
    assume "length ord = ?n"
    then have "card (set ord) = card {..<?n}" using distinct_card [OF inv(1)] by simp
    then show "set ord = {..<?n}" using inv(2) by (intro card_subset_eq) auto
  next
    assume "set ord = {..<?n}"
    then show "length ord = ?n" using distinct_card [OF inv(1)] by simp
  qed
  show ?thesis
  proof (cases "set ord = {..<?n}")
    case True
    then show ?thesis using res len early inv(1) ordered_acyclic [OF True inv(1) early] by simp
  next
    case False
    have "\<exists>d \<in> {..<?n} - set ord. needs inputs i d" if "i \<in> {..<?n} - set ord" for i
    proof -
      have "edges_into ({..<?n} - set ord) deps i \<noteq> 0" using that inv(2,3) by auto
      then show ?thesis using edges edges_into_0_iff [of "{..<?n} - set ord" deps i] by auto
    qed
    then have "\<not> acyclic (input_graph inputs)"
      using False inv(2) by (intro stuck_cyclic [of "{..<?n} - set ord"]) auto
    then show ?thesis using res len False by simp
  qed
qed

text \<open>C13: The sort always ends. Without a reference cycle among the inputs it returns every
  index exactly once, each behind all inputs it refers to; with one it reports the cycle.\<close>

theorem topo_sort_inputs_correct:
  "if acyclic (input_graph inputs)
   then \<exists>order. topo_sort_inputs inputs = Some (Ok order) \<and> distinct order \<and> set order = {..<length inputs} \<and>
          (\<forall>k < length order. \<forall>d. needs inputs (order ! k) d \<longrightarrow> d \<in> set (take k order))
   else topo_sort_inputs inputs = Some (Err cycle_report)"
  by (rule topo_sort_correct)

text \<open>A library and a program that refers to it, staged the wrong way round.\<close>

definition ex_input :: "string \<Rightarrow> string list \<Rightarrow> input_ref" where
  "ex_input p refs = \<lparr>in_store_path = StorePath p, in_key = ObjectKey (''t/nar/'' @ p), in_references = map StorePath refs,
     in_deriver = StorePath [], in_compression = CompNone, in_nar_hash = ''sha256:'', in_nar_size = 0\<rparr>"

definition ex_inputs :: "input_ref list" where
  "ex_inputs = [ex_input ''prog'' [''prog'', ''lib'', ''glibc''], ex_input ''lib'' [''glibc'']]"

lemma ex_inputs_acyclic: "acyclic (input_graph ex_inputs)"
proof (rule acyclic_subset)
  show "input_graph ex_inputs \<subseteq> {(1, 0)}"
  proof (rule subrelI)
    fix d i assume "(d, i) \<in> input_graph ex_inputs"
    then have n: "i < 2" "d \<noteq> i" "d < 2" and r: "in_store_path (ex_inputs ! d) \<in> set (in_references (ex_inputs ! i))"
      by (auto simp: input_graph_def needs_def ex_inputs_def dest: by_path_bound)
    then show "(d, i) \<in> {(1, 0)}"
      by (auto simp: ex_inputs_def ex_input_def less_2_cases_iff)
  qed
qed (simp add: acyclic_insert wf_acyclic)

theorem topo_sort_inputs_correct_witness:
  "\<exists>order. topo_sort_inputs ex_inputs = Some (Ok order) \<and> distinct order \<and> set order = {..<2}"
  using topo_sort_inputs_correct [of ex_inputs] ex_inputs_acyclic by (auto simp: ex_inputs_def)

end
