(* ===== verification/Fetch.thy ===== *)
theory Fetch
  imports Inputs Substitute Uploads
begin

text \<open>
  How a worker obtains a job's inputs (\<open>worker/src/input_fetch.rs\<close>, \<open>decompress.rs\<close>,
  \<open>nar_export.rs\<close>, the input half of \<open>vm_ops.rs\<close> and \<open>upload.rs\<close>, and
  \<open>Job::fetch_inputs\<close> of \<open>main.rs\<close>). The store a worker registers into, the frontend it
  asks for URLs and the order in which parallel downloads finish are parameters. The lemmas show
  that every arrival order gives the same result, that the loop never waits for a message that
  cannot come, and that a store which insists on valid references and on the declared hash
  accepts the whole closure.
\<close>

subsection \<open>Outside of the worker\<close>

record add_nar =
  an_path :: string
  an_deriver :: "string option"
  an_nar_hash :: string
  an_references :: "string list"
  an_time :: int
  an_nar_size :: u64
  an_ultimate :: bool
  an_sigs :: "string list"
  an_ca :: "string option"

record daemon_info =
  dm_deriver :: "string option"
  dm_references :: "string list"

record url_response =
  rp_error_msg :: string
  rp_urls :: "string list"

record 'g outside =
  og_web :: web
  og_sha :: "bytes \<Rightarrow> bytes"
  og_store_dir :: string
  og_now :: int
  og_ask :: "url_request \<Rightarrow> 'g \<Rightarrow> (report, url_response) res \<times> 'g"
  og_query :: "string \<Rightarrow> 'g \<Rightarrow> (report, daemon_info option) res \<times> 'g"
  og_add :: "add_nar \<Rightarrow> bytes \<Rightarrow> 'g \<Rightarrow> (report, unit) res \<times> 'g"
  og_import :: "bytes \<Rightarrow> 'g \<Rightarrow> (report, unit) res \<times> 'g"

subsection \<open>Downloading\<close>

datatype decoder = Passthrough | Codec compression

definition decoder_for :: "compression \<Rightarrow> (report, decoder) res" where
  "decoder_for c =
     (case c of
        CompNone \<Rightarrow> Ok Passthrough
      | Lzip \<Rightarrow> Err [OpaqueCause ''lzip decoding is not supported'']
      | _ \<Rightarrow> Ok (Codec c))"

fun accepts :: "web \<Rightarrow> decoder \<Rightarrow> bytes \<Rightarrow> bool" where
  "accepts w Passthrough seen = True"
| "accepts w (Codec c) seen = dec_accepts w c seen"

fun finish :: "web \<Rightarrow> decoder \<Rightarrow> bytes \<Rightarrow> bytes option" where
  "finish w Passthrough seen = Some seen"
| "finish w (Codec c) seen = dec_finish w c seen"

text \<open>The body is written to the decoder a chunk at a time; a chunk may be a transport error.\<close>

fun decode_body :: "web \<Rightarrow> decoder \<Rightarrow> bytes \<Rightarrow> bytes option list \<Rightarrow> (report, bytes) res" where
  "decode_body w d seen [] = ok_or [OpaqueCause ''decompressing input''] (finish w d seen)"
| "decode_body w d seen (None # rest) = Err [OpaqueCause ''fetching input'']"
| "decode_body w d seen (Some chunk # rest) =
     (if accepts w d (seen @ chunk) then decode_body w d (seen @ chunk) rest else Err [OpaqueCause ''decompressing input''])"

definition nar_hash_of :: "(bytes \<Rightarrow> bytes) \<Rightarrow> bytes \<Rightarrow> string" where
  "nar_hash_of sha nar = ''sha256:'' @ hex (sha nar)"

definition download_to_spool :: "web \<Rightarrow> (bytes \<Rightarrow> bytes) \<Rightarrow> string \<Rightarrow> compression \<Rightarrow> string \<Rightarrow> u64 \<Rightarrow> (report, bytes) res" where
  "download_to_spool w sha url c expected_hash expected_size =
     (if \<not> starts_with expected_hash ''sha256:'' then Err [OpaqueCause ''unsupported nar_hash algorithm'']
      else case web_get w url of
        None \<Rightarrow> Err [OpaqueCause ''fetching input'']
      | Some resp \<Rightarrow>
          if \<not> is_success (hr_status resp) then Err [OpaqueCause ''fetching input: HTTP'']
          else bind_res (map_err (wrap_err ''starting decompression'') (decoder_for c)) (\<lambda>d.
               bind_res (decode_body w d [] (hr_chunks resp)) (\<lambda>nar.
               if nar_hash_of sha nar \<noteq> expected_hash \<or> of_nat (length nar) \<noteq> expected_size
               then Err [OpaqueCause ''downloaded NAR does not match the record of the server''] else Ok nar)))"

subsection \<open>Asking for URLs\<close>

definition request_urls :: "'g outside \<Rightarrow> string \<Rightarrow> bytes \<Rightarrow> object_key list \<Rightarrow> bool \<Rightarrow> 'g \<Rightarrow> (report, string list) res \<times> 'g" where
  "request_urls e job_id token keys download g =
     (case og_ask e \<lparr>rq_job_id = job_id, rq_keys = keys, rq_download = download, rq_token = token\<rparr> g of
        (r, g) \<Rightarrow>
          (bind_res (map_err (wrap_err ''requesting urls'') r) (\<lambda>resp.
             if rp_error_msg resp \<noteq> []
             then Err [OpaqueCause (''frontend refused '' @ (if download then ''download'' else ''upload'') @ '': '' @ rp_error_msg resp)]
             else if length (rp_urls resp) \<noteq> length keys then Err [OpaqueCause ''unexpected number of urls'']
             else Ok (rp_urls resp)), g))"

definition upload_error_text :: "upload_error \<Rightarrow> string" where
  "upload_error_text x =
     (case x of
        UndecodableRequest m \<Rightarrow> ''undecodable request: '' @ m
      | UnverifiedToken \<Rightarrow> ''invalid or missing capability token''
      | KeyNotPermitted k \<Rightarrow> ''key not permitted: '' @ key_str k
      | Internal m \<Rightarrow> m)"

text \<open>Unset fields of a fresh message read as empty.\<close>

definition encode_response :: "(upload_error, string list) res \<Rightarrow> url_response" where
  "encode_response r =
     (case r of
        Ok urls \<Rightarrow> \<lparr>rp_error_msg = [], rp_urls = urls\<rparr>
      | Err x \<Rightarrow> \<lparr>rp_error_msg = upload_error_text x, rp_urls = []\<rparr>
      | Panic \<Rightarrow> \<lparr>rp_error_msg = [], rp_urls = []\<rparr>)"

subsection \<open>Registering an input\<close>

definition full_or_none :: "store_path \<Rightarrow> string \<Rightarrow> string option" where
  "full_or_none path dir = (if sp_str path = [] then None else Some (to_full dir path))"

definition path_is_valid :: "'g outside \<Rightarrow> store_path \<Rightarrow> 'g \<Rightarrow> (report, bool) res \<times> 'g" where
  "path_is_valid e path g =
     (case og_query e (to_full (og_store_dir e) path) g of
        (r, g) \<Rightarrow> (bind_res (map_err (wrap_err ''checking whether a path is already valid'') r) (\<lambda>info. Ok (info \<noteq> None)), g))"

definition register_args :: "'g outside \<Rightarrow> input_ref \<Rightarrow> add_nar" where
  "register_args e x =
     \<lparr>an_path = to_full (og_store_dir e) (in_store_path x), an_deriver = full_or_none (in_deriver x) (og_store_dir e),
      an_nar_hash = in_nar_hash x, an_references = map (to_full (og_store_dir e)) (in_references x), an_time = og_now e,
      an_nar_size = in_nar_size x, an_ultimate = False, an_sigs = [], an_ca = None\<rparr>"

definition register_input :: "'g outside \<Rightarrow> bytes \<Rightarrow> input_ref \<Rightarrow> 'g \<Rightarrow> (report, unit) res \<times> 'g" where
  "register_input e nar x g =
     (case og_add e (register_args e x) nar g of
        (r, g) \<Rightarrow> (map_err (wrap_err ''registering a path in the VM's store'') r, g))"

definition EXPORT_MAGIC :: u64 where
  "EXPORT_MAGIC = 0x4558494e"

definition export_header :: bytes where
  "export_header = write_u64 [] 1"

definition export_trailer :: "store_path \<Rightarrow> store_path list \<Rightarrow> store_path \<Rightarrow> string \<Rightarrow> bytes" where
  "export_trailer path references deriver dir =
     (let out = write_u64 [] EXPORT_MAGIC;
          out = write_bytes out (as_bytes (to_full dir path));
          out = write_u64 out (of_nat (length references));
          out = foldl (\<lambda>out r. write_bytes out (as_bytes (to_full dir r))) out references;
          out = write_bytes out (as_bytes (to_full dir deriver));
          out = write_u64 out 0
      in write_u64 out 0)"

definition import_spooled :: "'g outside \<Rightarrow> bytes \<Rightarrow> input_ref \<Rightarrow> 'g \<Rightarrow> (report, unit) res \<times> 'g" where
  "import_spooled e nar x g =
     og_import e (export_header @ nar @ export_trailer (in_store_path x) (in_references x) (in_deriver x) (og_store_dir e)) g"

subsection \<open>Fetching all inputs\<close>

fun skip_valid :: "'g outside \<Rightarrow> input_ref list \<Rightarrow> nat list \<Rightarrow> 'g \<Rightarrow> (report, nat list) res \<times> 'g" where
  "skip_valid e inputs [] g = (Ok [], g)"
| "skip_valid e inputs (i # order) g =
     (case path_is_valid e (in_store_path (inputs ! i)) g of
        (Ok v, g) \<Rightarrow> (case skip_valid e inputs order g of
                       (r, g) \<Rightarrow> (bind_res r (\<lambda>pending. Ok (if v then pending else i # pending)), g))
      | (Err x, g) \<Rightarrow> (Err x, g)
      | (Panic, g) \<Rightarrow> (Panic, g))"

definition skip_already_valid :: "'g outside \<Rightarrow> input_ref list \<Rightarrow> nat list \<Rightarrow> bool \<Rightarrow> bool \<Rightarrow> 'g \<Rightarrow> (report, nat list) res \<times> 'g" where
  "skip_already_valid e inputs order vm fresh g =
     (if fresh \<or> \<not> vm then (Ok order, g) else skip_valid e inputs order g)"

text \<open>
  One download task per pending input; \<open>sched\<close> is the order in which the tasks send
  their results. The loop takes results off the channel until the next input in line has arrived
  and keeps the others aside; an empty channel whose senders are gone is a panic.
\<close>

fun await_input :: "(nat \<Rightarrow> (report, bytes) res) \<Rightarrow> nat \<Rightarrow> nat list \<Rightarrow> (nat \<rightharpoonup> bytes) \<Rightarrow>
  (report, bytes \<times> nat list \<times> (nat \<rightharpoonup> bytes)) res" where
  "await_input dl i [] ready = Panic"
| "await_input dl i (j # rx) ready =
     bind_res (dl j) (\<lambda>s. if j = i then Ok (s, rx, ready) else await_input dl i rx (ready(j \<mapsto> s)))"

definition take_input :: "(nat \<Rightarrow> (report, bytes) res) \<Rightarrow> nat \<Rightarrow> nat list \<Rightarrow> (nat \<rightharpoonup> bytes) \<Rightarrow>
  (report, bytes \<times> nat list \<times> (nat \<rightharpoonup> bytes)) res" where
  "take_input dl i rx ready =
     (case ready i of Some s \<Rightarrow> Ok (s, rx, ready(i := None)) | None \<Rightarrow> await_input dl i rx ready)"

definition import_one :: "'g outside \<Rightarrow> bool \<Rightarrow> bytes \<Rightarrow> input_ref \<Rightarrow> 'g \<Rightarrow> (report, unit) res \<times> 'g" where
  "import_one e vm nar x g =
     (case (if vm then register_input e nar x g else import_spooled e nar x g) of
        (r, g) \<Rightarrow> (map_err (wrap_err (''importing '' @ sp_str (in_store_path x))) r, g))"

fun import_all :: "'g outside \<Rightarrow> bool \<Rightarrow> input_ref list \<Rightarrow> (nat \<Rightarrow> (report, bytes) res) \<Rightarrow> nat list \<Rightarrow> nat list \<Rightarrow>
  (nat \<rightharpoonup> bytes) \<Rightarrow> 'g \<Rightarrow> (report, unit) res \<times> 'g" where
  "import_all e vm inputs dl [] rx ready g = (Ok (), g)"
| "import_all e vm inputs dl (i # order) rx ready g =
     (case take_input dl i rx ready of
        Ok (s, rx, ready) \<Rightarrow>
          (case import_one e vm s (inputs ! i) g of
             (Ok u, g) \<Rightarrow> import_all e vm inputs dl order rx ready g
           | (Err x, g) \<Rightarrow> (Err x, g)
           | (Panic, g) \<Rightarrow> (Panic, g))
      | Err x \<Rightarrow> (Err x, g)
      | Panic \<Rightarrow> (Panic, g))"

definition spawned :: "'g outside \<Rightarrow> input_ref list \<Rightarrow> (nat \<times> string) list \<Rightarrow> nat \<Rightarrow> (report, bytes) res" where
  "spawned e inputs tasks j =
     (case map_of tasks j of
        None \<Rightarrow> Panic
      | Some url \<Rightarrow>
          map_err (wrap_err (''fetching '' @ sp_str (in_store_path (inputs ! j))))
            (download_to_spool (og_web e) (og_sha e) url (in_compression (inputs ! j)) (in_nar_hash (inputs ! j)) (in_nar_size (inputs ! j))))"

definition fetch_inputs :: "'g outside \<Rightarrow> (nat list \<Rightarrow> nat list) \<Rightarrow> string \<Rightarrow> bytes \<Rightarrow> input_ref list \<Rightarrow> bool \<Rightarrow> bool \<Rightarrow> 'g \<Rightarrow>
  ((report, unit) res \<times> 'g) option" where
  "fetch_inputs e sched job_id token inputs vm fresh g =
     (if inputs = [] then Some (Ok (), g)
      else map_option (\<lambda>sorted.
        case map_err (wrap_err ''ordering inputs'') sorted of
          Err x \<Rightarrow> (Err x, g)
        | Panic \<Rightarrow> (Panic, g)
        | Ok order \<Rightarrow>
            (case skip_already_valid e inputs order vm fresh g of
               (Err x, g) \<Rightarrow> (Err (wrap_err ''checking which inputs are already valid'' x), g)
             | (Panic, g) \<Rightarrow> (Panic, g)
             | (Ok order, g) \<Rightarrow>
                 if order = [] then (Ok (), g)
                 else (case request_urls e job_id token (map (\<lambda>i. in_key (inputs ! i)) order) True g of
                         (Err x, g) \<Rightarrow> (Err (wrap_err ''requesting download urls'' x), g)
                       | (Panic, g) \<Rightarrow> (Panic, g)
                       | (Ok urls, g) \<Rightarrow>
                           import_all e vm inputs (spawned e inputs (zip order urls)) order (sched order) Map.empty g)))
        (topo_sort_inputs inputs))"

subsection \<open>The export format\<close>

text \<open>Reading a trailer back, field by field, as its documentation describes it.\<close>

definition read_trailer :: "bytes \<Rightarrow> (truncated, (string \<times> string list \<times> string) option) res" where
  "read_trailer bs =
     bind_res (reader_u64 (reader_new bs)) (\<lambda>(magic, r).
     bind_res (reader_string r) (\<lambda>(path, r).
     bind_res (reader_strings r) (\<lambda>(refs, r).
     bind_res (reader_string r) (\<lambda>(deriver, r).
     bind_res (reader_u64 r) (\<lambda>(sig, r).
     bind_res (reader_u64 r) (\<lambda>(next, r).
     Ok (if magic = EXPORT_MAGIC \<and> sig = 0 \<and> next = 0 then Some (path, refs, deriver) else None)))))))"

lemma export_trailer_form:
  "export_trailer path refs deriver dir =
     to_le_bytes EXPORT_MAGIC @ enc_string (to_full dir path) @
     (to_le_bytes (of_nat (length (map (to_full dir) refs))) @ concat (map enc_string (map (to_full dir) refs))) @
     enc_string (to_full dir deriver) @ to_le_bytes 0 @ to_le_bytes 0"
proof -
  have "foldl (\<lambda>out r. write_bytes out (as_bytes (to_full dir r))) out refs = out @ concat (map enc_string (map (to_full dir) refs))" for out
    by (induction refs arbitrary: out) (auto simp: write_bytes_eq enc_string_def)
  then show ?thesis by (simp add: export_trailer_def Let_def write_u64_eq write_bytes_eq enc_string_def)
qed

lemma read_trailer_export:
  assumes "is_utf8 (to_full dir path)" "\<And>r. r \<in> set refs \<Longrightarrow> is_utf8 (to_full dir r)" "is_utf8 (to_full dir deriver)"
    and len: "length (export_trailer path refs deriver dir) < 2 ^ 63"
  shows "read_trailer (export_trailer path refs deriver dir) = Ok (Some (to_full dir path, map (to_full dir) refs, to_full dir deriver))"
proof -
  let ?m = "to_le_bytes EXPORT_MAGIC" and ?p = "enc_string (to_full dir path)" and ?d = "enc_string (to_full dir deriver)"
    and ?c = "to_le_bytes (of_nat (length (map (to_full dir) refs)) :: u64)" and ?rs = "concat (map enc_string (map (to_full dir) refs))"
    and ?z = "to_le_bytes (0 :: u64)"
  have l: "length (?m @ ?p @ (?c @ ?rs) @ ?d @ ?z @ ?z) < 2 ^ 63" using len export_trailer_form by simp
  have n: "length (map (to_full dir) refs) < 2 ^ 63"
    using length_concat_enc_ge [of "map (to_full dir) refs"] l by simp
  have "reader_string (reader_at ?m (?p @ (?c @ ?rs) @ ?d @ ?z @ ?z)) =
      Ok (to_full dir path, reader_at (?m @ ?p) ((?c @ ?rs) @ ?d @ ?z @ ?z))"
    using assms(1) l by (intro reader_string_at) auto
  moreover have "reader_strings (reader_at (?m @ ?p) (?c @ ?rs @ (?d @ ?z @ ?z))) =
      Ok (map (to_full dir) refs, reader_at ((?m @ ?p) @ ?c @ ?rs) (?d @ ?z @ ?z))"
    using assms(2) l n by (intro reader_strings_at) auto
  moreover have "reader_string (reader_at ((?m @ ?p) @ ?c @ ?rs) (?d @ ?z @ ?z)) =
      Ok (to_full dir deriver, reader_at (((?m @ ?p) @ ?c @ ?rs) @ ?d) (?z @ ?z))"
    using assms(3) l by (intro reader_string_at) auto
  moreover note reader_u64_at [of "[]" EXPORT_MAGIC "?p @ (?c @ ?rs) @ ?d @ ?z @ ?z"]
    reader_u64_at [of "((?m @ ?p) @ ?c @ ?rs) @ ?d" 0 ?z] reader_u64_at [of "(((?m @ ?p) @ ?c @ ?rs) @ ?d) @ ?z" 0 "[]"]
  ultimately show ?thesis
    by (simp add: read_trailer_def export_trailer_form reader_new_at)
qed

text \<open>
  What a worker without a virtual machine pipes into \<open>nix-store --import\<close> after the archive
  carries the path, its references and its deriver. But where the server knows no deriver the
  field is not left empty: it reads as the store directory with a trailing slash, while the
  virtual machine path sends no deriver at all.
\<close>

theorem export_trailer_roundtrip:
  assumes "is_utf8 (to_full dir path)" "\<forall>r \<in> set refs. is_utf8 (to_full dir r)" "is_utf8 (to_full dir deriver)"
    and "length (export_trailer path refs deriver dir) < 2 ^ 63"
  shows "read_trailer (export_trailer path refs deriver dir) = Ok (Some (to_full dir path, map (to_full dir) refs, to_full dir deriver)) \<and>
    (deriver = StorePath [] \<longrightarrow> to_full dir deriver = dir @ ''/'' \<and> full_or_none deriver dir = None)"
  using assms by (simp add: read_trailer_export full_or_none_def to_full_def)

theorem export_trailer_roundtrip_witness:
  "read_trailer (export_trailer (StorePath ''a-b'') [StorePath ''c-d''] (StorePath []) ''/s'') =
   Ok (Some (''/s/a-b'', [''/s/c-d''], ''/s/''))"
proof -
  have u: "is_utf8 ''/s/a-b''" "is_utf8 ''/s/c-d''" "is_utf8 ''/s/''" by code_simp+
  show ?thesis
    using export_trailer_roundtrip [of "''/s''" "StorePath ''a-b''" "[StorePath ''c-d'']" "StorePath []"] u
    by (simp add: to_full_def export_trailer_form enc_string_def length_enc_bytes as_bytes_def padding_def)
qed

subsection \<open>Any order of arrival\<close>

text \<open>Every input still in line has arrived or is on its way, and what is kept aside is what was downloaded.\<close>

definition arriving :: "(nat \<Rightarrow> (report, bytes) res) \<Rightarrow> nat list \<Rightarrow> nat list \<Rightarrow> (nat \<rightharpoonup> bytes) \<Rightarrow> bool" where
  "arriving dl order rx ready \<longleftrightarrow>
     distinct order \<and> (\<forall>i \<in> set order. i \<in> set rx \<or> ready i \<noteq> None) \<and> (\<forall>j s. ready j = Some s \<longrightarrow> dl j = Ok s)"

lemma await_input_arrives:
  assumes "i \<in> set rx" "\<forall>j \<in> set rx. dl j \<noteq> Panic" "\<forall>j s. ready j = Some s \<longrightarrow> dl j = Ok s"
  shows "(\<exists>s rx' ready'. await_input dl i rx ready = Ok (s, rx', ready') \<and> dl i = Ok s \<and> set rx' \<subseteq> set rx \<and>
            (\<forall>j. j \<noteq> i \<longrightarrow> j \<in> set rx \<or> ready j \<noteq> None \<longrightarrow> j \<in> set rx' \<or> ready' j \<noteq> None) \<and>
            (\<forall>j s. ready' j = Some s \<longrightarrow> dl j = Ok s)) \<or>
         (\<exists>j x. j \<in> set rx \<and> dl j = Err x \<and> await_input dl i rx ready = Err x)"
  using assms
proof (induction dl i rx ready rule: await_input.induct)
  case (2 dl i j rx ready)
  show ?case
  proof (cases "dl j")
    case (Ok s)
    show ?thesis
    proof (cases "j = i")
      case True
      then show ?thesis using Ok 2(4) by (auto intro!: exI [of _ s])
    next
      case False
      have "(\<exists>s' rx' ready'. await_input dl i rx (ready(j \<mapsto> s)) = Ok (s', rx', ready') \<and> dl i = Ok s' \<and> set rx' \<subseteq> set rx \<and>
            (\<forall>k. k \<noteq> i \<longrightarrow> k \<in> set rx \<or> (ready(j \<mapsto> s)) k \<noteq> None \<longrightarrow> k \<in> set rx' \<or> ready' k \<noteq> None) \<and>
            (\<forall>k s. ready' k = Some s \<longrightarrow> dl k = Ok s)) \<or>
         (\<exists>k x. k \<in> set rx \<and> dl k = Err x \<and> await_input dl i rx (ready(j \<mapsto> s)) = Err x)"
        by (rule "2.IH" [OF False]) (use 2(2-4) False Ok in auto)
      then show ?thesis
      proof (elim disjE exE conjE)
        fix s' rx' ready'
        assume a: "await_input dl i rx (ready(j \<mapsto> s)) = Ok (s', rx', ready')" "dl i = Ok s'" "set rx' \<subseteq> set rx"
          "\<forall>k. k \<noteq> i \<longrightarrow> k \<in> set rx \<or> (ready(j \<mapsto> s)) k \<noteq> None \<longrightarrow> k \<in> set rx' \<or> ready' k \<noteq> None"
          "\<forall>k s. ready' k = Some s \<longrightarrow> dl k = Ok s"
        have "\<forall>k. k \<noteq> i \<longrightarrow> k \<in> set (j # rx) \<or> ready k \<noteq> None \<longrightarrow> k \<in> set rx' \<or> ready' k \<noteq> None"
          using a(4) by simp
        moreover have "await_input dl i (j # rx) ready = Ok (s', rx', ready')" using Ok False a(1) by simp
        ultimately show ?thesis using a(2,3,5) by (intro disjI1 exI [of _ s'] exI [of _ rx'] exI [of _ ready']) auto
      next
        fix k x assume "k \<in> set rx" "dl k = Err x" "await_input dl i rx (ready(j \<mapsto> s)) = Err x"
        then show ?thesis using Ok False by (intro disjI2 exI [of _ k] exI [of _ x]) simp
      qed
    qed
  qed (use 2(3) in auto)
qed simp

lemma take_input_arrives:
  assumes "arriving dl (i # order) rx ready" "\<forall>j \<in> set rx. dl j \<noteq> Panic"
  shows "(\<exists>s rx' ready'. take_input dl i rx ready = Ok (s, rx', ready') \<and> dl i = Ok s \<and> set rx' \<subseteq> set rx \<and>
            arriving dl order rx' ready') \<or>
         (\<exists>j x. j \<in> set rx \<and> dl j = Err x \<and> take_input dl i rx ready = Err x)"
proof (cases "ready i")
  case (Some s)
  then have "arriving dl order rx (ready(i := None))" "dl i = Ok s" using assms(1) by (auto simp: arriving_def)
  then show ?thesis using Some by (auto simp: take_input_def)
next
  case None
  have ar: "i \<in> set rx" "\<forall>j s. ready j = Some s \<longrightarrow> dl j = Ok s" "distinct (i # order)"
    "\<forall>j \<in> set order. j \<in> set rx \<or> ready j \<noteq> None" using assms(1) None by (auto simp: arriving_def)
  from await_input_arrives [OF ar(1) assms(2) ar(2)] show ?thesis
  proof (elim disjE exE conjE)
    fix s rx' ready'
    assume a: "await_input dl i rx ready = Ok (s, rx', ready')" "dl i = Ok s" "set rx' \<subseteq> set rx"
      "\<forall>j. j \<noteq> i \<longrightarrow> j \<in> set rx \<or> ready j \<noteq> None \<longrightarrow> j \<in> set rx' \<or> ready' j \<noteq> None"
      "\<forall>j s. ready' j = Some s \<longrightarrow> dl j = Ok s"
    then have "arriving dl order rx' ready'" using ar(3,4) unfolding arriving_def by force
    then show ?thesis using a None by (simp add: take_input_def)
  next
    fix j x assume "j \<in> set rx" "dl j = Err x" "await_input dl i rx ready = Err x"
    then show ?thesis using None by (auto simp: take_input_def)
  qed
qed

text \<open>What the loop does when the downloads are in hand beforehand.\<close>

fun import_seq :: "'g outside \<Rightarrow> bool \<Rightarrow> input_ref list \<Rightarrow> (nat \<Rightarrow> bytes) \<Rightarrow> nat list \<Rightarrow> 'g \<Rightarrow> (report, unit) res \<times> 'g" where
  "import_seq e vm inputs nar [] g = (Ok (), g)"
| "import_seq e vm inputs nar (i # order) g =
     (case import_one e vm (nar i) (inputs ! i) g of
        (Ok u, g) \<Rightarrow> import_seq e vm inputs nar order g
      | (Err x, g) \<Rightarrow> (Err x, g)
      | (Panic, g) \<Rightarrow> (Panic, g))"

lemma import_all_any_order:
  assumes "arriving dl order rx ready" "\<forall>j \<in> set rx. dl j = Ok (nar j)" "\<forall>i \<in> set order. dl i = Ok (nar i)"
  shows "import_all e vm inputs dl order rx ready g = import_seq e vm inputs nar order g"
  using assms
proof (induction order arbitrary: rx ready g)
  case (Cons i order)
  have np: "\<forall>j \<in> set rx. dl j \<noteq> Panic" "\<not> (\<exists>j x. j \<in> set rx \<and> dl j = Err x)" using Cons.prems(2) by auto
  with take_input_arrives [OF Cons.prems(1)] obtain s rx' ready' where
    t: "take_input dl i rx ready = Ok (s, rx', ready')" "dl i = Ok s" "set rx' \<subseteq> set rx" "arriving dl order rx' ready'"
    by metis
  have s: "s = nar i" using t(2) Cons.prems(3) by simp
  have "import_all e vm inputs dl order rx' ready' h = import_seq e vm inputs nar order h" for h
    using Cons.prems(2,3) t(3) by (intro Cons.IH [OF t(4)]) auto
  then show ?case using t(1) s by (auto split: prod.split res.split)
qed simp

lemma import_all_no_panic:
  assumes "arriving dl order rx ready" "\<forall>j \<in> set rx. dl j \<noteq> Panic" "\<And>nar x h. fst (import_one e vm nar x h) \<noteq> Panic"
  shows "fst (import_all e vm inputs dl order rx ready g) \<noteq> Panic"
  using assms(1,2)
proof (induction order arbitrary: rx ready g)
  case (Cons i order)
  from take_input_arrives [OF Cons.prems] show ?case
  proof (elim disjE exE conjE)
    fix s rx' ready'
    assume t: "take_input dl i rx ready = Ok (s, rx', ready')" "set rx' \<subseteq> set rx" "arriving dl order rx' ready'"
    have "fst (import_all e vm inputs dl order rx' ready' h) \<noteq> Panic" for h
      using Cons.prems(2) t(2) by (intro Cons.IH [OF t(3)]) auto
    then show ?thesis using t(1) assms(3) [of s "inputs ! i" g]
      by (auto split: prod.splits res.splits)
  qed simp
qed simp

subsection \<open>The fetch ends\<close>

text \<open>A subset of the inputs is spawned once each and every task reports once.\<close>

definition fair :: "(nat list \<Rightarrow> nat list) \<Rightarrow> bool" where
  "fair sched \<longleftrightarrow> (\<forall>xs. mset (sched xs) = mset xs)"

definition reports :: "'g outside \<Rightarrow> bool" where
  "reports e \<longleftrightarrow> (\<forall>rq g. fst (og_ask e rq g) \<noteq> Panic) \<and> (\<forall>p g. fst (og_query e p g) \<noteq> Panic) \<and>
     (\<forall>a nar g. fst (og_add e a nar g) \<noteq> Panic) \<and> (\<forall>bs g. fst (og_import e bs g) \<noteq> Panic)"

lemma fair_set: "fair sched \<Longrightarrow> set (sched xs) = set xs"
  unfolding fair_def by (metis set_mset_mset)

lemma decode_body_no_panic: "decode_body w d seen chunks \<noteq> Panic"
  by (induction w d seen chunks rule: decode_body.induct) auto

lemma download_no_panic: "download_to_spool w sha url c h n \<noteq> Panic"
  by (auto simp: download_to_spool_def decoder_for_def res_simps decode_body_no_panic split: option.splits compression.splits)

lemma import_one_no_panic: "reports e \<Longrightarrow> fst (import_one e vm nar x g) \<noteq> Panic"
  unfolding reports_def import_one_def register_input_def import_spooled_def
  by (auto simp: res_simps split: prod.splits) (metis fst_conv)+

lemma spawned_no_panic: "j \<in> set order \<Longrightarrow> length urls = length order \<Longrightarrow> spawned e inputs (zip order urls) j \<noteq> Panic"
  by (auto simp: spawned_def res_simps download_no_panic split: option.split)

lemma skip_valid_no_panic: "reports e \<Longrightarrow> fst (skip_valid e inputs order g) \<noteq> Panic"
proof (induction e inputs order g rule: skip_valid.induct)
  case (2 e inputs i order g)
  have q: "fst (path_is_valid e p h) \<noteq> Panic" for p h
    using 2(2) unfolding reports_def path_is_valid_def by (auto simp: res_simps split: prod.splits) (metis fst_conv)
  show ?case using q [of "in_store_path (inputs ! i)" g] 2
    by (auto simp: res_simps split: prod.splits res.splits)
qed simp

lemma skip_valid_sub:
  "skip_valid e inputs order g = (Ok pending, g') \<Longrightarrow> set pending \<subseteq> set order \<and> (distinct order \<longrightarrow> distinct pending)"
proof (induction e inputs order g arbitrary: pending rule: skip_valid.induct)
  case (2 e inputs i order g)
  from "2.prems" obtain v h r where q: "path_is_valid e (in_store_path (inputs ! i)) g = (Ok v, h)"
    and r: "skip_valid e inputs order h = (Ok r, g')" and p: "pending = (if v then r else i # r)"
    by (auto simp: res_simps split: prod.splits res.splits)
  show ?case using "2.IH" [OF q [symmetric] refl r] p by auto
qed simp

lemma skip_already_valid_sub:
  "skip_already_valid e inputs order vm fresh g = (Ok pending, g') \<Longrightarrow> distinct order \<Longrightarrow> set pending \<subseteq> set order \<and> distinct pending"
  using skip_valid_sub [of e inputs order g pending g'] by (auto simp: skip_already_valid_def split: if_splits)

lemma request_urls_Ok: "request_urls e job_id token keys download g = (Ok urls, g') \<Longrightarrow> length urls = length keys"
  by (auto simp: request_urls_def res_simps split: prod.splits if_splits)

lemma request_urls_no_panic: "reports e \<Longrightarrow> fst (request_urls e job_id token keys download g) \<noteq> Panic"
proof -
  assume rep: "reports e"
  obtain r g' where a: "og_ask e \<lparr>rq_job_id = job_id, rq_keys = keys, rq_download = download, rq_token = token\<rparr> g = (r, g')" by fastforce
  then have "r \<noteq> Panic" using rep unfolding reports_def by (metis fst_conv)
  then show ?thesis by (simp add: request_urls_def a res_simps)
qed

lemma topo_sort_Ok: "topo_sort_inputs inputs = Some (Ok order) \<Longrightarrow>
  distinct order \<and> set order = {..<length inputs} \<and> acyclic (input_graph inputs) \<and>
  (\<forall>k < length order. \<forall>d. needs inputs (order ! k) d \<longrightarrow> d \<in> set (take k order))"
  using topo_sort_correct [of inputs] by (auto split: if_splits)

lemma arriving_start:
  assumes "fair sched" "distinct order"
  shows "arriving dl order (sched order) Map.empty"
  using assms by (simp add: arriving_def fair_set)

text \<open>
  Fetching always ends, with success or an error, whatever the inputs and in whatever order
  the downloads finish: the sort ends, and the loop that waits for downloads never finds the
  channel closed on an input it still needs.
\<close>

theorem fetch_inputs_ends:
  assumes fair: "fair sched" and rep: "reports e"
  shows "\<exists>r g'. fetch_inputs e sched job_id token inputs vm fresh g = Some (r, g') \<and> r \<noteq> Panic"
proof (cases "inputs = [] \<or> (\<exists>x. topo_sort_inputs inputs = Some (Err x))")
  case True
  then show ?thesis by (auto simp: fetch_inputs_def)
next
  case False
  then obtain order where o: "topo_sort_inputs inputs = Some (Ok order)"
    using topo_sort_correct [of inputs] by (auto split: if_splits)
  have d: "distinct order" using topo_sort_Ok [OF o] by simp
  obtain r1 g1 where s: "skip_already_valid e inputs order vm fresh g = (r1, g1)" by fastforce
  have "r1 \<noteq> Panic" using s skip_valid_no_panic [OF rep, of inputs order g]
    by (auto simp: skip_already_valid_def split: if_splits)
  then consider x where "r1 = Err x" | pending where "r1 = Ok pending" by (cases r1) auto
  then show ?thesis
  proof cases
    case (2 pending)
    obtain r2 g2 where u: "request_urls e job_id token (map (\<lambda>i. in_key (inputs ! i)) pending) True g1 = (r2, g2)" by fastforce
    have "r2 \<noteq> Panic" using request_urls_no_panic [OF rep] u by (metis fst_conv)
    moreover have "fst (import_all e vm inputs (spawned e inputs (zip pending urls)) pending (sched pending) Map.empty h) \<noteq> Panic"
      if "r2 = Ok urls" for urls h
    proof (rule import_all_no_panic)
      show "arriving (spawned e inputs (zip pending urls)) pending (sched pending) Map.empty"
        using skip_already_valid_sub [OF s [unfolded 2] d] by (intro arriving_start [OF fair]) simp
      show "\<forall>j \<in> set (sched pending). spawned e inputs (zip pending urls) j \<noteq> Panic"
        using request_urls_Ok [OF u [unfolded that]] by (simp add: fair_set [OF fair] spawned_no_panic)
    qed (rule import_one_no_panic [OF rep])
    ultimately have "fst (the (fetch_inputs e sched job_id token inputs vm fresh g)) \<noteq> Panic \<and>
        fetch_inputs e sched job_id token inputs vm fresh g \<noteq> None"
      using False o s 2 u by (cases r2) (auto simp: fetch_inputs_def)
    then show ?thesis by (metis option.collapse prod.collapse)
  qed (use False o s in \<open>auto simp: fetch_inputs_def\<close>)
qed

subsection \<open>The closure is registered\<close>

text \<open>
  A store that keeps a set of valid paths, answers queries from it, and accepts an archive whose
  references are valid (or the path itself) and whose bytes have the declared hash and size.
\<close>

definition daemon_ok :: "'g outside \<Rightarrow> ('g \<Rightarrow> string set) \<Rightarrow> bool" where
  "daemon_ok e valid \<longleftrightarrow>
     (\<forall>p g. \<exists>x. og_query e p g = (Ok x, g) \<and> (x \<noteq> None \<longleftrightarrow> p \<in> valid g)) \<and>
     (\<forall>a nar g. set (an_references a) \<subseteq> insert (an_path a) (valid g) \<and>
        an_nar_hash a = nar_hash_of (og_sha e) nar \<and> an_nar_size a = of_nat (length nar) \<longrightarrow>
        (\<exists>g'. og_add e a nar g = (Ok (), g') \<and> valid g' = insert (an_path a) (valid g)))"

text \<open>A frontend that signs every download it is asked for, without touching the store.\<close>

definition frontend_ok :: "'g outside \<Rightarrow> ('g \<Rightarrow> string set) \<Rightarrow> (object_key \<Rightarrow> string) \<Rightarrow> bool" where
  "frontend_ok e valid url_of \<longleftrightarrow>
     (\<forall>rq g. rq_download rq \<longrightarrow>
        (\<exists>g'. og_ask e rq g = (Ok \<lparr>rp_error_msg = [], rp_urls = map url_of (rq_keys rq)\<rparr>, g') \<and> valid g' = valid g))"

definition downloadable :: "'g outside \<Rightarrow> (object_key \<Rightarrow> string) \<Rightarrow> input_ref \<Rightarrow> bool" where
  "downloadable e url_of x \<longleftrightarrow>
     (\<exists>nar. download_to_spool (og_web e) (og_sha e) (url_of (in_key x)) (in_compression x) (in_nar_hash x) (in_nar_size x) = Ok nar)"

definition full_path :: "'g outside \<Rightarrow> input_ref \<Rightarrow> string" where
  "full_path e x = to_full (og_store_dir e) (in_store_path x)"

lemma download_verified:
  "download_to_spool w sha url c h n = Ok nar \<Longrightarrow> h = nar_hash_of sha nar \<and> n = of_nat (length nar)"
  by (auto simp: download_to_spool_def res_simps split: option.splits if_splits)

lemma skip_valid_filters:
  assumes "daemon_ok e valid"
  shows "skip_valid e inputs order g = (Ok (filter (\<lambda>i. full_path e (inputs ! i) \<notin> valid g) order), g)"
proof (induction order)
  case (Cons i order)
  obtain x where "og_query e (full_path e (inputs ! i)) g = (Ok x, g)" "x \<noteq> None \<longleftrightarrow> full_path e (inputs ! i) \<in> valid g"
    using assms unfolding daemon_ok_def by blast
  then have "path_is_valid e (in_store_path (inputs ! i)) g = (Ok (full_path e (inputs ! i) \<in> valid g), g)"
    by (simp add: path_is_valid_def full_path_def)
  then show ?case using Cons by simp
qed simp

lemma import_seq_registers:
  assumes dm: "daemon_ok e valid"
    and nar: "\<And>i. i < length inputs \<Longrightarrow> in_nar_hash (inputs ! i) = nar_hash_of (og_sha e) (nar i) \<and> in_nar_size (inputs ! i) = of_nat (length (nar i))"
    and ext: "\<And>i r. i < length inputs \<Longrightarrow> r \<in> set (in_references (inputs ! i)) \<Longrightarrow> by_path inputs r = None \<Longrightarrow> to_full (og_store_dir e) r \<in> base"
    and early: "\<forall>k < length (xs @ ys). \<forall>d. needs inputs ((xs @ ys) ! k) d \<longrightarrow> d \<in> set (take k (xs @ ys))"
    and n: "set ys \<subseteq> {..<length inputs}"
    and v: "base \<subseteq> valid g" "full_path e ` (!) inputs ` set xs \<subseteq> valid g"
    and skip: "\<And>i. i \<in> set ys \<Longrightarrow> \<not> P i \<Longrightarrow> full_path e (inputs ! i) \<in> base"
  shows "\<exists>g'. import_seq e True inputs nar (filter P ys) g = (Ok (), g') \<and>
    valid g' = valid g \<union> full_path e ` (!) inputs ` set (filter P ys)"
  using early n v skip
proof (induction ys arbitrary: xs g)
  case (Cons i ys)
  have i: "i < length inputs" using Cons.prems(2) by simp
  have later: "\<exists>g'. import_seq e True inputs nar (filter P ys) h = (Ok (), g') \<and>
      valid g' = valid h \<union> full_path e ` (!) inputs ` set (filter P ys)"
    if "base \<subseteq> valid h" "full_path e ` (!) inputs ` set (xs @ [i]) \<subseteq> valid h" for h
    using Cons.prems that by (intro Cons.IH [of "xs @ [i]" h]) auto
  show ?case
  proof (cases "P i")
    case False
    then have "full_path e (inputs ! i) \<in> base" using Cons.prems(5) by simp
    then show ?thesis using later [of g] False Cons.prems(3,4) by auto
  next
    case True
    have "to_full (og_store_dir e) r \<in> insert (full_path e (inputs ! i)) (valid g)" if r: "r \<in> set (in_references (inputs ! i))" for r
    proof (cases "by_path inputs r")
      case None
      then show ?thesis using ext [OF i r] Cons.prems(3) by auto
    next
      case (Some d)
      then have p: "in_store_path (inputs ! d) = r" using by_path_bound by blast
      show ?thesis
      proof (cases "d = i")
        case False
        then have "needs inputs i d" using i r Some by (auto simp: needs_def)
        then have "d \<in> set xs" using Cons.prems(1) [rule_format, of "length xs" d] by simp
        then show ?thesis using Cons.prems(4) p by (auto simp: full_path_def)
      qed (use p in \<open>simp add: full_path_def\<close>)
    qed
    then have "set (an_references (register_args e (inputs ! i))) \<subseteq> insert (an_path (register_args e (inputs ! i))) (valid g)"
      by (auto simp: register_args_def full_path_def)
    moreover have "an_nar_hash (register_args e (inputs ! i)) = nar_hash_of (og_sha e) (nar i)"
      "an_nar_size (register_args e (inputs ! i)) = of_nat (length (nar i))" using nar [OF i] by (simp_all add: register_args_def)
    ultimately obtain g1 where a: "og_add e (register_args e (inputs ! i)) (nar i) g = (Ok (), g1)"
      "valid g1 = insert (an_path (register_args e (inputs ! i))) (valid g)"
      using dm unfolding daemon_ok_def by blast
    then have v1: "valid g1 = insert (full_path e (inputs ! i)) (valid g)" by (simp add: register_args_def full_path_def)
    have "import_one e True (nar i) (inputs ! i) g = (Ok (), g1)"
      using a(1) by (simp add: import_one_def register_input_def)
    moreover have "base \<subseteq> valid g1" "full_path e ` (!) inputs ` set (xs @ [i]) \<subseteq> valid g1"
      using Cons.prems(3,4) v1 by auto
    ultimately show ?thesis using later [of g1] True v1 by auto
  qed
qed simp

text \<open>
  C12: A staged closure is registered in full. When every staged object can be downloaded and every
  reference that is not itself staged is already valid in the guest, the fetch succeeds whatever
  the order of arrival and whatever the order in which the server listed the inputs: the guest
  never refuses an input for a reference it does not know, and afterwards it holds what it held
  before and every staged path.
\<close>

theorem fetch_inputs_registers_closure:
  assumes "fair sched" "daemon_ok e valid" "frontend_ok e valid url_of" "acyclic (input_graph inputs)"
    and "\<forall>x \<in> set inputs. downloadable e url_of x"
    and "\<forall>x \<in> set inputs. \<forall>r \<in> set (in_references x). r \<in> in_store_path ` set inputs \<or> to_full (og_store_dir e) r \<in> valid g"
  shows "\<exists>g'. fetch_inputs e sched job_id token inputs True fresh g = Some (Ok (), g') \<and>
    valid g' = valid g \<union> full_path e ` set inputs"
proof (cases "inputs = []")
  case True
  then show ?thesis by (simp add: fetch_inputs_def)
next
  case False
  obtain order where o: "topo_sort_inputs inputs = Some (Ok order)" using topo_sort_correct [of inputs] assms(4) by auto
  note ord = topo_sort_Ok [OF o]
  define P where "P i = (fresh \<or> full_path e (inputs ! i) \<notin> valid g)" for i
  let ?pending = "filter P order"
  have "\<forall>i. \<exists>nar. i < length inputs \<longrightarrow> download_to_spool (og_web e) (og_sha e) (url_of (in_key (inputs ! i)))
      (in_compression (inputs ! i)) (in_nar_hash (inputs ! i)) (in_nar_size (inputs ! i)) = Ok nar"
    using assms(5) by (simp add: downloadable_def)
  from choice [OF this] obtain nar where nar: "\<And>i. i < length inputs \<Longrightarrow> download_to_spool (og_web e) (og_sha e) (url_of (in_key (inputs ! i)))
      (in_compression (inputs ! i)) (in_nar_hash (inputs ! i)) (in_nar_size (inputs ! i)) = Ok (nar i)" by blast
  have skip: "skip_already_valid e inputs order True fresh g = (Ok ?pending, g)"
    using skip_valid_filters [OF assms(2), of inputs order g] by (simp add: skip_already_valid_def P_def [abs_def])
  have covered: "full_path e ` (!) inputs ` set ?pending \<union> valid g = full_path e ` set inputs \<union> valid g"
  proof -
    have "set inputs = (!) inputs ` set order" using ord by (simp add: set_conv_nth lessThan_def image_def) blast
    then show ?thesis by (auto simp: P_def)
  qed
  obtain g1 where ask: "og_ask e \<lparr>rq_job_id = job_id, rq_keys = map (\<lambda>i. in_key (inputs ! i)) ?pending, rq_download = True, rq_token = token\<rparr> g =
      (Ok \<lparr>rp_error_msg = [], rp_urls = map url_of (map (\<lambda>i. in_key (inputs ! i)) ?pending)\<rparr>, g1)" "valid g1 = valid g"
    using assms(3) unfolding frontend_ok_def by (metis url_request.select_convs(2,3))
  let ?urls = "map (\<lambda>i. url_of (in_key (inputs ! i))) ?pending"
  have urls: "request_urls e job_id token (map (\<lambda>i. in_key (inputs ! i)) ?pending) True g = (Ok ?urls, g1)"
    by (simp add: request_urls_def ask(1) comp_def)
  have dl: "spawned e inputs (zip ?pending ?urls) i = Ok (nar i)" if "i \<in> set ?pending" for i
    using that ord nar [of i] by (auto simp: spawned_def map_of_zip_map)
  have "import_all e True inputs (spawned e inputs (zip ?pending ?urls)) ?pending (sched ?pending) Map.empty g1 =
      import_seq e True inputs nar ?pending g1"
    using dl ord by (intro import_all_any_order arriving_start [OF assms(1)]) (simp_all add: fair_set [OF assms(1)])
  moreover have "\<exists>g'. import_seq e True inputs nar ?pending g1 = (Ok (), g') \<and>
      valid g' = valid g1 \<union> full_path e ` (!) inputs ` set ?pending"
  proof (rule import_seq_registers [OF assms(2), where xs = "[]" and base = "valid g"])
    fix i assume "i < length inputs"
    then show "in_nar_hash (inputs ! i) = nar_hash_of (og_sha e) (nar i) \<and> in_nar_size (inputs ! i) = of_nat (length (nar i))"
      using download_verified nar by blast
  next
    fix i r assume i: "i < length inputs" "r \<in> set (in_references (inputs ! i))" "by_path inputs r = None"
    have "r \<notin> in_store_path ` set inputs"
      using by_path_total [of _ inputs] i(3) by (fastforce simp: in_set_conv_nth)
    then show "to_full (og_store_dir e) r \<in> valid g" using assms(6) i by auto
  qed (use ord ask(2) in \<open>auto simp: P_def\<close>)
  ultimately obtain g' where g': "import_all e True inputs (spawned e inputs (zip ?pending ?urls)) ?pending (sched ?pending) Map.empty g1 = (Ok (), g')"
      "valid g' = valid g \<union> full_path e ` set inputs"
    using covered ask(2) by (metis Un_commute)
  show ?thesis
  proof (cases "?pending = []")
    case True
    then have "fetch_inputs e sched job_id token inputs True fresh g = Some (Ok (), g)"
      using False o skip by (simp add: fetch_inputs_def)
    then show ?thesis using covered True by auto
  next
    case False
    then show ?thesis using \<open>inputs \<noteq> []\<close> o skip urls g' by (simp add: fetch_inputs_def)
  qed
qed

text \<open>A guest that refuses any path whose references it does not hold.\<close>

definition ex_outside :: "string set outside" where
  "ex_outside =
     \<lparr>og_web = \<lparr>web_head = \<lambda>_. None, web_get = \<lambda>_. Some \<lparr>hr_status = 200, hr_text = None, hr_content_length = None, hr_chunks = []\<rparr>,
        dec_accepts = \<lambda>_ _. False, dec_finish = \<lambda>_ _. None, web_put = \<lambda>_. False\<rparr>,
      og_sha = \<lambda>_. [], og_store_dir = ''/s'', og_now = 0,
      og_ask = \<lambda>rq g. (Ok \<lparr>rp_error_msg = [], rp_urls = map key_str (rq_keys rq)\<rparr>, g),
      og_query = \<lambda>p g. (Ok (if p \<in> g then Some \<lparr>dm_deriver = None, dm_references = []\<rparr> else None), g),
      og_add = \<lambda>a nar g. if set (an_references a) \<subseteq> insert (an_path a) g \<and> an_nar_hash a = nar_hash_of (\<lambda>_. []) nar \<and>
                             an_nar_size a = of_nat (length nar)
                          then (Ok (), insert (an_path a) g) else (Err [OpaqueCause ''path is not valid''], g),
      og_import = \<lambda>_ g. (Err [OpaqueCause ''not used''], g)\<rparr>"

lemma ex_outside_ok: "daemon_ok ex_outside (\<lambda>g. g)" "frontend_ok ex_outside (\<lambda>g. g) key_str"
  by (simp_all add: daemon_ok_def frontend_ok_def ex_outside_def)

lemma ex_downloadable: "downloadable ex_outside key_str (ex_input p refs)"
  by (simp add: downloadable_def download_to_spool_def ex_outside_def ex_input_def is_success_def decoder_for_def nar_hash_of_def hex_def)

theorem fetch_inputs_ends_witness:
  "\<exists>r g'. fetch_inputs ex_outside rev ''j'' [] ex_inputs True False {} = Some (r, g') \<and> r \<noteq> Panic"
  by (rule fetch_inputs_ends) (simp_all add: fair_def reports_def ex_outside_def)

theorem fetch_inputs_registers_closure_witness:
  "\<exists>g'. fetch_inputs ex_outside rev ''j'' [] ex_inputs True False {''/s/glibc''} = Some (Ok (), g') \<and>
     g' = {''/s/glibc''} \<union> full_path ex_outside ` set ex_inputs"
proof (rule fetch_inputs_registers_closure [OF _ ex_outside_ok ex_inputs_acyclic])
  show "fair rev" by (simp add: fair_def)
  show "\<forall>x \<in> set ex_inputs. downloadable ex_outside key_str x" by (simp add: ex_inputs_def ex_downloadable)
  show "\<forall>x \<in> set ex_inputs. \<forall>r \<in> set (in_references x).
      r \<in> in_store_path ` set ex_inputs \<or> to_full (og_store_dir ex_outside) r \<in> {''/s/glibc''}"
    by (simp add: ex_inputs_def ex_input_def ex_outside_def to_full_def)
qed

end
