(* ===== verification/WorkerJob.thy ===== *)
theory WorkerJob
  imports Fetch Derivation
begin

text \<open>
  The messages between frontend and worker and the transfer of a job's results
  (\<open>JobQueue::submit\<close> of \<open>server/src/jobs.rs\<close>; \<open>decode_job\<close>, \<open>run_build\<close>, \<open>upload_artifacts\<close> and
  \<open>publish_result\<close> of \<open>worker/src/main.rs\<close>; the upload half of \<open>worker/src/upload.rs\<close> and
  \<open>vm_ops.rs\<close>). A Cap'n Proto message is the record of its fields. The lemmas show that both
  messages arrive as they were sent, that the keys a worker asks for are the ones the frontend
  authorized, and that what is reported of an output describes the bytes that were uploaded.
\<close>

subsection \<open>The build request\<close>

record wire_input =
  wi_store_path :: string
  wi_key :: string
  wi_references :: "string list"
  wi_deriver :: string
  wi_compression :: string
  wi_nar_hash :: string
  wi_nar_size :: u64

record build_request =
  br_job_id :: string
  br_derivation_path :: string
  br_system :: string
  br_drv :: bytes
  br_tenant :: string
  br_token :: bytes
  br_required_features :: "string list"
  br_trusted_substituters :: "(string \<times> string) list"
  br_inputs :: "wire_input list"

definition encode_input :: "input_ref \<Rightarrow> wire_input" where
  "encode_input x =
     \<lparr>wi_store_path = sp_str (in_store_path x), wi_key = key_str (in_key x), wi_references = map sp_str (in_references x),
      wi_deriver = sp_str (in_deriver x), wi_compression = compression_as_str (in_compression x),
      wi_nar_hash = in_nar_hash x, wi_nar_size = in_nar_size x\<rparr>"

definition encode_request :: "build_job \<Rightarrow> build_request" where
  "encode_request j =
     \<lparr>br_job_id = show_uuid (bj_job_id j), br_derivation_path = sp_str (bj_derivation_path j), br_system = sys_str (bj_system j),
      br_drv = bj_drv j, br_tenant = tid_str (bj_tenant j), br_token = bj_token j, br_required_features = bj_required_features j,
      br_trusted_substituters = bj_trusted_substituters j, br_inputs = map encode_input (bj_inputs j)\<rparr>"

record job =
  wj_job_id :: string
  wj_derivation_path :: store_path
  wj_tenant :: tenant_id
  wj_inputs :: "input_ref list"
  wj_drv :: bytes
  wj_token :: bytes
  wj_required_features :: "string list"
  wj_trusted_substituters :: "(string \<times> string) list"

definition decode_input :: "wire_input \<Rightarrow> (report, input_ref) res" where
  "decode_input w =
     bind_res (if wi_compression w = [] then Ok Zstd
               else map_err (\<lambda>_. [OpaqueCause ''build request carries an unrecognised input compression'']) (compression_from_str (wi_compression w)))
       (\<lambda>c. Ok \<lparr>in_store_path = StorePath (wi_store_path w), in_key = ObjectKey (wi_key w),
                in_references = map StorePath (wi_references w), in_deriver = StorePath (wi_deriver w),
                in_compression = c, in_nar_hash = wi_nar_hash w, in_nar_size = wi_nar_size w\<rparr>)"

definition decode_job :: "build_request \<Rightarrow> (report, job) res" where
  "decode_job r =
     bind_res (collect_res (map decode_input (br_inputs r))) (\<lambda>inputs.
     bind_res (ok_or [OpaqueCause ''build request carries no tenant''] (from_wire (br_tenant r))) (\<lambda>tenant.
     Ok \<lparr>wj_job_id = br_job_id r, wj_derivation_path = StorePath (br_derivation_path r), wj_tenant = tenant,
         wj_inputs = inputs, wj_drv = br_drv r, wj_token = br_token r, wj_required_features = br_required_features r,
         wj_trusted_substituters = br_trusted_substituters r\<rparr>))"

definition declared_outputs :: "job \<Rightarrow> string \<Rightarrow> (parse_error, store_path list) res" where
  "declared_outputs j dir = bind_res (parse (wj_drv j) dir) (\<lambda>drv. Ok (map o_path (outputs drv)))"

subsection \<open>Running the builder\<close>

record build_outcome =
  bo_status :: u64
  bo_error_msg :: string

definition succeeded :: "build_outcome \<Rightarrow> bool" where
  "succeeded o1 \<longleftrightarrow> bo_status o1 = 0 \<or> bo_status o1 = 1 \<or> bo_status o1 = 2 \<or> bo_status o1 = 13"

definition describe :: "build_outcome \<Rightarrow> string" where
  "describe o1 = (if bo_error_msg o1 = [] then ''build reported status '' @ show_nat (unat (bo_status o1)) else bo_error_msg o1)"

datatype outcome = OCompleted "store_path list" | OFailed string "failure_kind option"

definition outcome_failed :: "string \<Rightarrow> outcome" where
  "outcome_failed message = OFailed message None"

definition infra_failure_message :: "string \<Rightarrow> string \<Rightarrow> string" where
  "infra_failure_message job_id ctx = ctx @ '' (job '' @ job_id @ ''); see worker logs''"

text \<open>The relay of the log keeps the whole of it and its last twenty lines.\<close>

definition pump_line :: "bytes \<times> string list \<Rightarrow> string \<Rightarrow> bytes \<times> string list" where
  "pump_line st line =
     (fst st @ as_bytes line @ [10], (if length (snd st) = 20 then tl (snd st) else snd st) @ [line])"

definition pump :: "string list \<Rightarrow> bytes \<times> string list" where
  "pump lines = foldl pump_line ([], []) lines"

text \<open>Without a machine the lines come from the standard error of the child, up to its end or a read that fails.\<close>

fun pump_reads :: "(string, string) res list \<Rightarrow> bytes \<times> string list \<Rightarrow> bytes \<times> string list" where
  "pump_reads (Ok line # reads) st = pump_reads reads (pump_line st line)"
| "pump_reads _ st = st"

definition pump_log :: "(string, string) res list option \<Rightarrow> bytes \<times> string list" where
  "pump_log stderr = (case stderr of None \<Rightarrow> ([], []) | Some reads \<Rightarrow> pump_reads reads ([], []))"

definition finished_outcome :: "store_path list \<Rightarrow> build_outcome \<Rightarrow> string list \<Rightarrow> outcome" where
  "finished_outcome outs o1 tail =
     (if succeeded o1 then OCompleted outs
      else outcome_failed (describe o1 @ (if tail = [] then [] else newline # join_with [newline] tail)))"

text \<open>Over the machine's daemon: what the daemon answered and the lines it relayed.\<close>

definition run_build_vm :: "job \<Rightarrow> store_path list \<Rightarrow> (report, build_outcome) res \<Rightarrow> string list \<Rightarrow> outcome \<times> bytes" where
  "run_build_vm j outs result lines =
     (case pump lines of
        (archive, tail) \<Rightarrow>
          (case result of
             Ok o1 \<Rightarrow> (finished_outcome outs o1 tail, archive)
           | _ \<Rightarrow> (let message = infra_failure_message (wj_job_id j) ''running the builder failed''
                   in (outcome_failed message, as_bytes message))))"

text \<open>Over \<open>nix-store --serve\<close>: whether it could be started, too.\<close>

definition run_build_serve :: "job \<Rightarrow> store_path list \<Rightarrow> bool \<Rightarrow> (report, build_outcome) res \<Rightarrow> string list \<Rightarrow> outcome \<times> bytes" where
  "run_build_serve j outs opened result lines =
     (if \<not> opened then
        (let message = infra_failure_message (wj_job_id j) ''starting the builder failed''
         in (outcome_failed message, as_bytes message))
      else (case pump lines of
        (archive, tail) \<Rightarrow>
          (case result of
             Ok o1 \<Rightarrow> (finished_outcome outs o1 tail, archive)
           | _ \<Rightarrow> (outcome_failed (infra_failure_message (wj_job_id j) ''running the builder failed''), archive))))"

subsection \<open>Uploading\<close>

record 'g worker = "'g outside" +
  wk_nar :: "bool \<Rightarrow> string \<Rightarrow> 'g \<Rightarrow> (report, bytes) res \<times> 'g"
  wk_zstd :: "bytes \<Rightarrow> bytes"
  wk_put :: "string \<Rightarrow> bytes \<Rightarrow> 'g \<Rightarrow> (report, nat) res \<times> 'g"
  wk_query_references :: "string \<Rightarrow> 'g \<Rightarrow> (report, string) res \<times> 'g"
  wk_query_deriver :: "string \<Rightarrow> 'g \<Rightarrow> (report, string) res \<times> 'g"

record output_artifact =
  oa_store_path :: store_path
  oa_nar_hash :: bytes
  oa_nar_size :: u64
  oa_file_hash :: bytes
  oa_file_size :: u64
  oa_key :: object_key
  oa_references :: "store_path list"
  oa_deriver :: "store_path option"

definition wk_nar_key :: "tenant_id \<Rightarrow> store_path \<Rightarrow> object_key option" where
  "wk_nar_key t p = Option.bind (hash_part p) (\<lambda>h. Some (ObjectKey (tid_str t @ ''/nar/'' @ h @ ''.nar.zst'')))"

definition wk_log_key :: "tenant_id \<Rightarrow> store_path \<Rightarrow> object_key option" where
  "wk_log_key t p = Option.bind (hash_part p) (\<lambda>h. Some (ObjectKey (tid_str t @ ''/log/'' @ h)))"

definition dump_hash_and_compress :: "'g worker \<Rightarrow> bytes \<Rightarrow> (bytes \<times> u64 \<times> bytes \<times> u64) \<times> bytes" where
  "dump_hash_and_compress e nar =
     (let sink = wk_zstd e nar
      in ((og_sha e nar, of_nat (length nar), og_sha e sink, of_nat (length sink)), sink))"

definition misconfigured :: "(not_rooted, 'a) res \<Rightarrow> (report, 'a) res" where
  "misconfigured r = map_err (\<lambda>_. [OpaqueCause ''KUBERNIX_STORE_DIR does not match the idea of the store'']) r"

definition path_metadata :: "'g worker \<Rightarrow> store_path \<Rightarrow> 'g \<Rightarrow> (report, store_path list \<times> store_path option) res \<times> 'g" where
  "path_metadata e p g =
     (case og_query (outside.truncate e) (to_full (og_store_dir e) p) g of
        (r, g) \<Rightarrow>
          (bind_res (map_err (wrap_err ''querying path info'') r) (\<lambda>info.
           bind_res (ok_or [OpaqueCause ''daemon reports the path we just built/imported as invalid''] info) (\<lambda>info.
           bind_res (misconfigured (collect_res (map (from_full_or_err (og_store_dir e)) (dm_references info)))) (\<lambda>references.
           bind_res (case dm_deriver info of
                       None \<Rightarrow> Ok None
                     | Some d \<Rightarrow> bind_res (misconfigured (from_full_or_err (og_store_dir e) d)) (\<lambda>d. Ok (Some d))) (\<lambda>deriver.
           Ok (references, deriver))))), g))"

definition query_path_metadata :: "'g worker \<Rightarrow> store_path \<Rightarrow> 'g \<Rightarrow> (report, store_path list \<times> store_path option) res \<times> 'g" where
  "query_path_metadata e p g =
     (case wk_query_references e (to_full (og_store_dir e) p) g of
        (r, g) \<Rightarrow>
          (case bind_res r (\<lambda>text. misconfigured (collect_res (map (from_full_or_err (og_store_dir e)) (str_lines text)))) of
             Ok references \<Rightarrow>
               (case wk_query_deriver e (to_full (og_store_dir e) p) g of
                  (r, g) \<Rightarrow>
                    (bind_res r (\<lambda>text.
                       let deriver = trim text in
                       if deriver = ''unknown-deriver'' then Ok (references, None)
                       else bind_res (misconfigured (from_full_or_err (og_store_dir e) deriver)) (\<lambda>d. Ok (references, Some d))), g))
           | Err x \<Rightarrow> (Err x, g)
           | Panic \<Rightarrow> (Panic, g)))"

definition put_ok :: "(report, nat) res \<Rightarrow> (report, unit) res" where
  "put_ok r = bind_res r (\<lambda>status. if is_success status then Ok () else Err [OpaqueCause ''uploading: HTTP''])"

definition upload_output :: "'g worker \<Rightarrow> bool \<Rightarrow> string \<Rightarrow> object_key \<Rightarrow> store_path \<Rightarrow> 'g \<Rightarrow> (report, output_artifact) res \<times> 'g" where
  "upload_output e vm url key p g =
     (case wk_nar e vm (to_full (og_store_dir e) p) g of
        (Ok nar, g) \<Rightarrow>
          (case dump_hash_and_compress e nar of
             ((nar_hash, nar_size, file_hash, file_size), file) \<Rightarrow>
               (case wk_put e url file g of
                  (r, g) \<Rightarrow>
                    (case put_ok r of
                       Ok _ \<Rightarrow>
                         (case (if vm then path_metadata e p g else query_path_metadata e p g) of
                            (r, g) \<Rightarrow>
                              (bind_res r (\<lambda>(references, deriver).
                                 Ok \<lparr>oa_store_path = p, oa_nar_hash = nar_hash, oa_nar_size = nar_size, oa_file_hash = file_hash,
                                     oa_file_size = file_size, oa_key = key, oa_references = references, oa_deriver = deriver\<rparr>), g))
                     | Err x \<Rightarrow> (Err x, g)
                     | Panic \<Rightarrow> (Panic, g))))
      | (Err x, g) \<Rightarrow> (Err x, g)
      | (Panic, g) \<Rightarrow> (Panic, g))"

definition upload_log :: "'g worker \<Rightarrow> string \<Rightarrow> object_key \<Rightarrow> bytes \<Rightarrow> 'g \<Rightarrow> (report, unit) res \<times> 'g" where
  "upload_log e url key log g = (case wk_put e url log g of (r, g) \<Rightarrow> (put_ok r, g))"

fun upload_all :: "'g worker \<Rightarrow> bool \<Rightarrow> (store_path \<times> object_key \<times> string) list \<Rightarrow> 'g \<Rightarrow> (report, output_artifact list) res \<times> 'g" where
  "upload_all e vm [] g = (Ok [], g)"
| "upload_all e vm ((p, key, url) # rest) g =
     (case upload_output e vm url key p g of
        (Ok a, g) \<Rightarrow> (case upload_all e vm rest g of (r, g) \<Rightarrow> (bind_res r (\<lambda>as. Ok (a # as)), g))
      | (Err x, g) \<Rightarrow> (Err (wrap_err (''uploading '' @ sp_str p) x), g)
      | (Panic, g) \<Rightarrow> (Panic, g))"

definition artifact_keys :: "job \<Rightarrow> outcome \<Rightarrow> (report, object_key \<times> (store_path \<times> object_key) list) res" where
  "artifact_keys j out =
     (let outs = (case out of OCompleted paths \<Rightarrow> paths | OFailed _ _ \<Rightarrow> []) in
      bind_res (ok_or [OpaqueCause ''cannot derive a log key''] (wk_log_key (wj_tenant j) (wj_derivation_path j))) (\<lambda>lk.
      bind_res (collect_res (map (\<lambda>p. bind_res (ok_or [OpaqueCause ''cannot derive a nar key''] (wk_nar_key (wj_tenant j) p)) (\<lambda>k. Ok (p, k))) outs)) (\<lambda>keys.
      Ok (lk, keys))))"

definition upload_artifacts :: "'g worker \<Rightarrow> bool \<Rightarrow> job \<Rightarrow> outcome \<Rightarrow> bytes \<Rightarrow> 'g \<Rightarrow>
  (report, output_artifact list \<times> object_key option) res \<times> 'g" where
  "upload_artifacts e vm j out log g =
     (case artifact_keys j out of
        Err x \<Rightarrow> (Err x, g)
      | Panic \<Rightarrow> (Panic, g)
      | Ok (lk, keys) \<Rightarrow>
          (case request_urls (outside.truncate e) (wj_job_id j) (wj_token j) (lk # map snd keys) False g of
             (Err x, g) \<Rightarrow> (Err (wrap_err ''requesting upload urls'' x), g)
           | (Panic, g) \<Rightarrow> (Panic, g)
           | (Ok urls, g) \<Rightarrow>
               (case (if log = [] then (Ok None, g)
                      else case upload_log e (hd urls) lk log g of (r, g) \<Rightarrow> (bind_res r (\<lambda>_. Ok (Some lk)), g)) of
                  (Err x, g) \<Rightarrow> (Err (wrap_err ''uploading the build log'' x), g)
                | (Panic, g) \<Rightarrow> (Panic, g)
                | (Ok logged, g) \<Rightarrow>
                    (case upload_all e vm (map (\<lambda>((p, k), url). (p, k, url)) (zip keys (tl urls))) g of
                       (r, g) \<Rightarrow> (bind_res r (\<lambda>artifacts. Ok (artifacts, logged)), g)))))"

subsection \<open>Reporting\<close>

definition encode_output :: "output_artifact \<Rightarrow> wire_output" where
  "encode_output a =
     \<lparr>wo_store_path = sp_str (oa_store_path a), wo_nar_hash = oa_nar_hash a, wo_nar_size = oa_nar_size a,
      wo_file_hash = oa_file_hash a, wo_file_size = oa_file_size a, wo_key = key_str (oa_key a),
      wo_compression = compression_as_str Zstd, wo_references = map sp_str (oa_references a),
      wo_deriver = (case oa_deriver a of None \<Rightarrow> [] | Some d \<Rightarrow> sp_str d)\<rparr>"

definition encode_result :: "outcome \<Rightarrow> output_artifact list \<Rightarrow> object_key option \<Rightarrow> job_result" where
  "encode_result out artifacts lk =
     (let logged = (case lk of None \<Rightarrow> [] | Some k \<Rightarrow> key_str k) in
      case out of
        OCompleted outs \<Rightarrow>
          \<lparr>jr_status = StatusCompleted, jr_log_key = logged, jr_output_paths = map sp_str outs,
           jr_outputs = map encode_output artifacts, jr_error_msg = [], jr_failure_kind = None\<rparr>
      | OFailed message kind \<Rightarrow>
          \<lparr>jr_status = StatusOther ''Failed'', jr_log_key = logged, jr_output_paths = [],
           jr_outputs = map encode_output artifacts, jr_error_msg = message, jr_failure_kind = kind\<rparr>)"

subsection \<open>Messages arrive as they were sent\<close>

lemma decode_encode_input: "decode_input (encode_input x) = Ok x"
proof -
  have "compression_as_str (in_compression x) \<noteq> []" by (cases "in_compression x") simp_all
  then show ?thesis
    by (simp add: decode_input_def encode_input_def compression_from_as_str comp_def)
qed

definition worker_job :: "build_job \<Rightarrow> job" where
  "worker_job j =
     \<lparr>wj_job_id = show_uuid (bj_job_id j), wj_derivation_path = bj_derivation_path j, wj_tenant = bj_tenant j,
      wj_inputs = bj_inputs j, wj_drv = bj_drv j, wj_token = bj_token j, wj_required_features = bj_required_features j,
      wj_trusted_substituters = bj_trusted_substituters j\<rparr>"

lemma decode_encode_request:
  assumes "wf_tenant (bj_tenant j)"
  shows "decode_job (encode_request j) = Ok (worker_job j)"
proof -
  have "collect_res (map decode_input (map encode_input xs)) = Ok xs" for xs
    by (induction xs) (simp_all add: decode_encode_input)
  then show ?thesis using assms
    by (simp add: decode_job_def encode_request_def worker_job_def wf_tenant_def)
qed

text \<open>A worker decodes a submitted job into exactly the job that was submitted.\<close>

theorem build_request_roundtrip:
  assumes "wf_tenant (bj_tenant j)"
  shows "decode_job (encode_request j) =
    Ok \<lparr>wj_job_id = show_uuid (bj_job_id j), wj_derivation_path = bj_derivation_path j, wj_tenant = bj_tenant j,
        wj_inputs = bj_inputs j, wj_drv = bj_drv j, wj_token = bj_token j, wj_required_features = bj_required_features j,
        wj_trusted_substituters = bj_trusted_substituters j\<rparr>"
  using decode_encode_request [OF assms] by (simp add: worker_job_def)

definition wf_artifact :: "output_artifact \<Rightarrow> bool" where
  "wf_artifact a \<longleftrightarrow> length (oa_nar_hash a) = 32 \<and> length (oa_file_hash a) = 32 \<and> oa_deriver a \<noteq> Some (StorePath [])"

definition artifact_info :: "output_artifact \<Rightarrow> output_info" where
  "artifact_info a =
     \<lparr>oi_store_path = oa_store_path a, oi_nar_hash = oa_nar_hash a, oi_nar_size = oa_nar_size a,
      oi_file_hash = oa_file_hash a, oi_file_size = oa_file_size a, oi_key = oa_key a, oi_compression = Zstd,
      oi_references = oa_references a, oi_deriver = oa_deriver a\<rparr>"

lemma decode_encode_output: "wf_artifact a \<Longrightarrow> decode_output (encode_output a) = Ok (artifact_info a)"
proof -
  assume a: "wf_artifact a"
  have "(if (case oa_deriver a of None \<Rightarrow> [] | Some d \<Rightarrow> sp_str d) = [] then None
         else Some (StorePath (case oa_deriver a of None \<Rightarrow> [] | Some d \<Rightarrow> sp_str d))) = oa_deriver a"
  proof (cases "oa_deriver a")
    case (Some d)
    then have "sp_str d \<noteq> []" using a by (cases d) (simp add: wf_artifact_def)
    then show ?thesis using Some by simp
  qed simp
  then show ?thesis using a
    by (simp add: decode_output_def encode_output_def artifact_info_def wf_artifact_def digest_from_def compression_from_as_str comp_def
        del: compression_as_str.simps split: if_split_asm)
qed

text \<open>
  What a worker publishes is what the frontend decodes: a completed job with the outputs and the
  description of every artifact, a failed one with its message and kind, and in both cases the key of
  the log. Only an empty failure message is replaced.
\<close>

theorem job_result_roundtrip:
  assumes "\<forall>a \<in> set artifacts. wf_artifact a"
  shows "decode_outcome (encode_result out artifacts lk) =
    Ok (case out of
          OCompleted outs \<Rightarrow> Completed outs (map artifact_info artifacts) (case lk of None \<Rightarrow> [] | Some k \<Rightarrow> key_str k)
        | OFailed message kind \<Rightarrow>
            Failed (if message = [] then ''build reported status Failed'' else message)
              (case lk of None \<Rightarrow> [] | Some k \<Rightarrow> key_str k) kind)"
proof -
  have "collect_res (map decode_output (map encode_output artifacts)) = Ok (map artifact_info artifacts)"
    using assms by (induction artifacts) (simp_all add: decode_encode_output)
  then show ?thesis
    by (cases out) (simp_all add: decode_outcome_def encode_result_def Let_def comp_def)
qed

subsection \<open>The log\<close>

lemma pump_log_lines: "pump_log (Some (map Ok lines @ rest)) = pump lines" if "rest = [] \<or> hd rest \<notin> range Ok"
proof -
  have "pump_reads (map Ok lines @ rest) st = foldl pump_line st lines" for st
    using that by (induction lines arbitrary: st; cases rest; cases "hd rest") auto
  then show ?thesis by (simp add: pump_log_def pump_def)
qed

lemma pump_append: "foldl pump_line (a, drop (length pre - 20) pre) lines =
  (a @ concat (map (\<lambda>l. as_bytes l @ [10]) lines), drop (length (pre @ lines) - 20) (pre @ lines))"
proof (induction lines arbitrary: a pre)
  case (Cons l ls)
  have "pump_line (a, drop (length pre - 20) pre) l = (a @ as_bytes l @ [10], drop (length (pre @ [l]) - 20) (pre @ [l]))"
  proof (cases "length pre < 20")
    case True
    then show ?thesis by (simp add: pump_line_def)
  next
    case False
    then have "Suc (length pre) - 20 = Suc (length pre - 20)" by simp
    then have "tl (drop (length pre - 20) pre) = drop (Suc (length pre) - 20) pre" by (simp only: drop_Suc tl_drop)
    then show ?thesis using False by (simp add: pump_line_def)
  qed
  then show ?case using Cons.IH [of "a @ as_bytes l @ [10]" "pre @ [l]"] by simp
qed simp

text \<open>
  C40: The relay of a build's log, line by line in constant extra memory, archives every line and keeps
  exactly the last twenty of them for the failure message.
\<close>

theorem pump_keeps_last_lines:
  "pump lines = (concat (map (\<lambda>l. as_bytes l @ [10]) lines), drop (length lines - 20) lines)"
  using pump_append [of "[]" "[]" lines] by (simp add: pump_def)

subsection \<open>What is uploaded\<close>

lemma wk_keys: "wk_nar_key t p = nar_key t Built p" "wk_log_key t p = log_key t p"
  by (simp_all add: wk_nar_key_def wk_log_key_def nar_key_def log_key_def)

lemma collect_nar_keys:
  "collect_res (map (\<lambda>p. bind_res (ok_or x (nar_key t Built p)) (\<lambda>k. Ok (p, k))) outs) = Ok keys \<Longrightarrow>
   (\<forall>(p, k) \<in> set keys. nar_key t Built p = Some k) \<and> map fst keys = outs"
  by (induction outs arbitrary: keys) (auto simp: res_simps)

lemma artifact_keys_Ok:
  assumes "artifact_keys j out = Ok (lk, keys)"
  shows "log_key (wj_tenant j) (wj_derivation_path j) = Some lk"
    and "\<forall>(p, k) \<in> set keys. nar_key (wj_tenant j) Built p = Some k"
    and "map fst keys = (case out of OCompleted paths \<Rightarrow> paths | OFailed _ _ \<Rightarrow> [])"
proof -
  have c: "collect_res (map (\<lambda>p. bind_res (ok_or [OpaqueCause ''cannot derive a nar key''] (nar_key (wj_tenant j) Built p)) (\<lambda>k. Ok (p, k)))
      (case out of OCompleted paths \<Rightarrow> paths | OFailed _ _ \<Rightarrow> [])) = Ok keys"
    and l: "log_key (wj_tenant j) (wj_derivation_path j) = Some lk"
    using assms by (auto simp: artifact_keys_def Let_def res_simps wk_keys)
  show "log_key (wj_tenant j) (wj_derivation_path j) = Some lk" by (rule l)
  show "\<forall>(p, k) \<in> set keys. nar_key (wj_tenant j) Built p = Some k"
    "map fst keys = (case out of OCompleted paths \<Rightarrow> paths | OFailed _ _ \<Rightarrow> [])"
    using collect_nar_keys [OF c] by blast+
qed

lemma upload_output_Ok:
  assumes "upload_output e vm url key p g = (Ok a, g')"
  shows "\<exists>nar g1 g2 status. wk_nar e vm (to_full (og_store_dir e) p) g = (Ok nar, g1) \<and>
    wk_put e url (wk_zstd e nar) g1 = (Ok status, g2) \<and> is_success status \<and>
    oa_store_path a = p \<and> oa_key a = key \<and> oa_nar_hash a = og_sha e nar \<and> oa_nar_size a = of_nat (length nar) \<and>
    oa_file_hash a = og_sha e (wk_zstd e nar) \<and> oa_file_size a = of_nat (length (wk_zstd e nar))"
proof -
  obtain r g1 where n: "wk_nar e vm (to_full (og_store_dir e) p) g = (r, g1)" by fastforce
  then obtain nar where r: "r = Ok nar" using assms by (cases r) (auto simp: upload_output_def)
  obtain r2 g2 where p: "wk_put e url (wk_zstd e nar) g1 = (r2, g2)" by fastforce
  have "\<exists>u. put_ok r2 = Ok u"
    using assms n r p by (cases "put_ok r2") (auto simp: upload_output_def dump_hash_and_compress_def Let_def)
  then obtain status where "r2 = Ok status" "is_success status" by (auto simp: put_ok_def res_simps split: if_splits)
  then show ?thesis
    using assms n r p by (auto simp: upload_output_def dump_hash_and_compress_def Let_def put_ok_def res_simps split: prod.splits)
qed

text \<open>
  The object store as both workers see it. What it holds is part of the first worker's surroundings: a write
  that is answered with success leaves the body under the key its URL was signed for, and asking the daemon
  about a path does not touch it. A cache serves an object in chunks of any size, and a decoder accepts every
  beginning of a compressed archive and inverts the compressor.
\<close>

definition stores_puts :: "'g worker \<Rightarrow> ('g \<Rightarrow> object_key \<Rightarrow> bytes option) \<Rightarrow> (string \<Rightarrow> object_key) \<Rightarrow> bool" where
  "stores_puts e bucket signed_for \<longleftrightarrow>
     (\<forall>url body g status g'. wk_put e url body g = (Ok status, g') \<longrightarrow> is_success status \<longrightarrow> bucket g' (signed_for url) = Some body)"

definition queries_keep :: "'g worker \<Rightarrow> ('g \<Rightarrow> object_key \<Rightarrow> bytes option) \<Rightarrow> bool" where
  "queries_keep e bucket \<longleftrightarrow>
     (\<forall>p g. bucket (snd (og_query (outside.truncate e) p g)) = bucket g \<and> bucket (snd (wk_query_references e p g)) = bucket g \<and>
        bucket (snd (wk_query_deriver e p g)) = bucket g)"

definition serves :: "web \<Rightarrow> string \<Rightarrow> bytes \<Rightarrow> bool" where
  "serves w url body \<longleftrightarrow>
     (\<exists>resp chunks. web_get w url = Some resp \<and> is_success (hr_status resp) \<and> hr_chunks resp = map Some chunks \<and> concat chunks = body)"

definition inverts :: "web \<Rightarrow> (bytes \<Rightarrow> bytes) \<Rightarrow> bool" where
  "inverts w zstd \<longleftrightarrow> (\<forall>nar. (\<forall>seen rest. zstd nar = seen @ rest \<longrightarrow> dec_accepts w Zstd seen) \<and> dec_finish w Zstd (zstd nar) = Some nar)"

lemma decode_chunks:
  "(\<And>before rest. seen @ concat chunks = before @ rest \<Longrightarrow> accepts w d before) \<Longrightarrow>
   decode_body w d seen (map Some chunks) = ok_or [OpaqueCause ''decompressing input''] (finish w d (seen @ concat chunks))"
proof (induction chunks arbitrary: seen)
  case (Cons chunk chunks)
  have "accepts w d (seen @ chunk)" by (rule Cons.prems [of _ "concat chunks"]) simp
  moreover have "accepts w d before" if "(seen @ chunk) @ concat chunks = before @ rest" for before rest
    by (rule Cons.prems [of _ rest]) (use that in simp)
  ultimately show ?case using Cons.IH [of "seen @ chunk"] by simp
qed simp

lemma served_archive_verifies:
  assumes "inverts w zstd" and "serves w url (zstd nar)"
  shows "download_to_spool w sha url Zstd (nar_hash_of sha nar) (of_nat (length nar)) = Ok nar"
proof -
  obtain resp chunks where "web_get w url = Some resp" "is_success (hr_status resp)" "hr_chunks resp = map Some chunks" "concat chunks = zstd nar"
    using assms(2) unfolding serves_def by blast
  moreover have "decode_body w (Codec Zstd) [] (map Some chunks) = Ok nar"
    using assms(1) calculation(4) unfolding inverts_def by (subst decode_chunks) (simp_all, metis)
  ultimately show ?thesis by (simp add: download_to_spool_def nar_hash_of_def decoder_for_def)
qed

lemma metadata_keeps:
  "queries_keep e bucket \<Longrightarrow> bucket (snd (path_metadata e p g)) = bucket g \<and> bucket (snd (query_path_metadata e p g)) = bucket g"
  by (auto simp: queries_keep_def path_metadata_def query_path_metadata_def Let_def split: prod.splits res.splits) (metis snd_conv)+

lemma upload_output_stores:
  assumes "upload_output e vm url key p g = (Ok a, g')" and "stores_puts e bucket signed_for" and "queries_keep e bucket"
  shows "\<exists>nar g1. wk_nar e vm (to_full (og_store_dir e) p) g = (Ok nar, g1) \<and> bucket g' (signed_for url) = Some (wk_zstd e nar)"
proof -
  obtain nar g1 g2 status where up: "wk_nar e vm (to_full (og_store_dir e) p) g = (Ok nar, g1)"
      "wk_put e url (wk_zstd e nar) g1 = (Ok status, g2)" "is_success status"
    using upload_output_Ok [OF assms(1)] by blast
  have "bucket g2 (signed_for url) = Some (wk_zstd e nar)" using assms(2) up(2,3) unfolding stores_puts_def by blast
  moreover have "g' = snd (if vm then path_metadata e p g2 else query_path_metadata e p g2)"
    using assms(1) up by (auto simp: upload_output_def dump_hash_and_compress_def Let_def put_ok_def res_simps split: prod.splits if_splits)
  ultimately show ?thesis using up(1) metadata_keeps [OF assms(3)] by (cases vm) auto
qed

text \<open>
  C31: What one worker uploads another can fetch. After an output was uploaded to a URL signed for its key, the
  store holds under that key the compressed archive the output was dumped to, of the size and hash the
  worker reports for the file; and when a cache serves what the store holds there, in chunks of any size, the
  second worker's download passes the check against the reported archive hash and size and yields that archive.
\<close>

theorem uploaded_output_verifies:
  assumes "upload_output e vm url key p g = (Ok a, g')" and "signed_for url = key"
    and "stores_puts e bucket signed_for" and "queries_keep e bucket" and "inverts w (wk_zstd e)"
    and "\<forall>body. bucket g' key = Some body \<longrightarrow> serves w url' body"
  shows "\<exists>nar body g1. wk_nar e vm (to_full (og_store_dir e) p) g = (Ok nar, g1) \<and> bucket g' (oa_key a) = Some body \<and>
    body = wk_zstd e nar \<and> oa_file_hash a = og_sha e body \<and> oa_file_size a = of_nat (length body) \<and>
    download_to_spool w (og_sha e) url' Zstd (to_wire_string \<lparr>h_type = Sha256, h_bytes = oa_nar_hash a\<rparr>) (oa_nar_size a) = Ok nar"
proof -
  obtain nar g1 where up: "wk_nar e vm (to_full (og_store_dir e) p) g = (Ok nar, g1)" "oa_key a = key"
      "oa_nar_hash a = og_sha e nar" "oa_nar_size a = of_nat (length nar)"
      "oa_file_hash a = og_sha e (wk_zstd e nar)" "oa_file_size a = of_nat (length (wk_zstd e nar))"
    using upload_output_Ok [OF assms(1)] by blast
  have stored: "bucket g' key = Some (wk_zstd e nar)"
    using upload_output_stores [OF assms(1,3,4)] up(1) assms(2) by auto
  then have "download_to_spool w (og_sha e) url' Zstd (nar_hash_of (og_sha e) nar) (of_nat (length nar)) = Ok nar"
    using served_archive_verifies [OF assms(5)] assms(6) by blast
  then show ?thesis using up stored by (auto simp: to_wire_string_def nar_hash_of_def)
qed

subsection \<open>One job\<close>

definition ex_bjob :: build_job where
  "ex_bjob = \<lparr>bj_job_id = 7, bj_derivation_path = StorePath ''x.drv'', bj_system = System ''s'', bj_drv = [1], bj_inputs = ex_inputs,
     bj_tenant = TenantId ''t'', bj_token = [2], bj_required_features = [''kvm''], bj_trusted_substituters = [(''u'', ''k'')]\<rparr>"

theorem build_request_roundtrip_witness:
  "\<exists>j. decode_job (encode_request ex_bjob) = Ok j \<and> wj_tenant j = TenantId ''t'' \<and> wj_inputs j = ex_inputs"
  using build_request_roundtrip [of ex_bjob]
  by (simp add: ex_bjob_def wf_tenant_def from_wire_def tenant_char_def is_lower_def)

definition ex_worker :: "unit worker" where
  "ex_worker =
     \<lparr>og_web = \<lparr>web_head = \<lambda>_. None, web_get = \<lambda>_. Some \<lparr>hr_status = 200, hr_text = None, hr_content_length = None, hr_chunks = [Some [9, 1, 2]]\<rparr>,
        dec_accepts = \<lambda>_ _. True, dec_finish = \<lambda>_ bs. Some (tl bs), web_put = \<lambda>_. True\<rparr>,
      og_sha = \<lambda>bs. replicate 32 (of_nat (length bs)), og_store_dir = ''/s'', og_now = 0,
      og_ask = \<lambda>rq g. (Ok \<lparr>rp_error_msg = [], rp_urls = map key_str (rq_keys rq)\<rparr>, g),
      og_query = \<lambda>p g. (Ok (Some \<lparr>dm_deriver = None, dm_references = []\<rparr>), g),
      og_add = \<lambda>_ _ g. (Ok (), g), og_import = \<lambda>_ g. (Ok (), g),
      wk_nar = \<lambda>_ _ g. (Ok [1, 2], g), wk_zstd = Cons 9, wk_put = \<lambda>_ _ g. (Ok 200, g),
      wk_query_references = \<lambda>_ g. (Ok [], g), wk_query_deriver = \<lambda>_ g. (Ok ''unknown-deriver'', g)\<rparr>"

definition ex_artifact :: output_artifact where
  "ex_artifact = \<lparr>oa_store_path = StorePath ''o'', oa_nar_hash = replicate 32 2, oa_nar_size = 2, oa_file_hash = replicate 32 3,
     oa_file_size = 3, oa_key = ObjectKey ''k'', oa_references = [], oa_deriver = None\<rparr>"

lemma ex_upload: "upload_output ex_worker True ''u'' (ObjectKey ''k'') (StorePath ''o'') () = (Ok ex_artifact, ())"
  by (simp add: upload_output_def ex_worker_def ex_artifact_def dump_hash_and_compress_def put_ok_def is_success_def
      path_metadata_def outside.truncate_def misconfigured_def Let_def)

theorem job_result_roundtrip_witness:
  "decode_outcome (encode_result (OCompleted [StorePath ''o'']) [ex_artifact] None) =
   Ok (Completed [StorePath ''o''] [artifact_info ex_artifact] [])"
  using job_result_roundtrip [of "[ex_artifact]" "OCompleted [StorePath ''o'']" None]
  by (simp add: wf_artifact_def ex_artifact_def)

text \<open>A worker whose surroundings are the one object of its bucket, and a cache that serves it byte by byte.\<close>

definition ex_uploader :: "bytes option worker" where
  "ex_uploader =
     \<lparr>og_web = og_web ex_worker, og_sha = og_sha ex_worker, og_store_dir = ''/s'', og_now = 0,
      og_ask = \<lambda>rq g. (Ok \<lparr>rp_error_msg = [], rp_urls = map key_str (rq_keys rq)\<rparr>, g),
      og_query = \<lambda>p g. (Ok (Some \<lparr>dm_deriver = None, dm_references = []\<rparr>), g),
      og_add = \<lambda>_ _ g. (Ok (), g), og_import = \<lambda>_ g. (Ok (), g),
      wk_nar = \<lambda>_ _ g. (Ok [1, 2], g), wk_zstd = Cons 9, wk_put = \<lambda>_ body _. (Ok 200, Some body),
      wk_query_references = \<lambda>_ g. (Ok [], g), wk_query_deriver = \<lambda>_ g. (Ok ''unknown-deriver'', g)\<rparr>"

definition ex_cache :: "bytes \<Rightarrow> web" where
  "ex_cache body = (og_web ex_worker)\<lparr>web_get :=
     \<lambda>_. Some \<lparr>hr_status = 200, hr_text = None, hr_content_length = None, hr_chunks = map (\<lambda>b. Some [b]) body\<rparr>\<rparr>"

lemma ex_uploaded: "upload_output ex_uploader True ''u'' (ObjectKey ''k'') (StorePath ''o'') None = (Ok ex_artifact, Some [9, 1, 2])"
  by (simp add: upload_output_def ex_uploader_def ex_worker_def ex_artifact_def dump_hash_and_compress_def put_ok_def is_success_def
      path_metadata_def outside.truncate_def misconfigured_def Let_def)

theorem uploaded_output_verifies_witness:
  "download_to_spool (ex_cache [9, 1, 2]) (og_sha ex_uploader) ''v'' Zstd
     (to_wire_string \<lparr>h_type = Sha256, h_bytes = oa_nar_hash ex_artifact\<rparr>) (oa_nar_size ex_artifact) = Ok [1, 2]"
proof -
  have "stores_puts ex_uploader (\<lambda>g _. g) (\<lambda>_. ObjectKey ''k'')" "queries_keep ex_uploader (\<lambda>g _. g)"
      "inverts (ex_cache [9, 1, 2]) (wk_zstd ex_uploader)"
    by (simp_all add: stores_puts_def queries_keep_def inverts_def ex_uploader_def ex_cache_def ex_worker_def outside.truncate_def)
  moreover have "\<forall>body. Some [9, 1, 2] = Some body \<longrightarrow> serves (ex_cache [9, 1, 2]) ''v'' body"
    by (auto simp: serves_def ex_cache_def is_success_def intro!: exI [of _ "map (\<lambda>b. [b]) [9, 1, 2]"])
  ultimately show ?thesis
    using uploaded_output_verifies [OF ex_uploaded, where signed_for = "\<lambda>_. ObjectKey ''k''" and bucket = "\<lambda>g _. g" and w = "ex_cache [9, 1, 2]" and url' = "''v''"]
    by (auto simp: ex_uploader_def)
qed

end
