(* ===== verification/Uid.thy ===== *)
theory Uid
  imports Narinfo
begin

text \<open>
  The per-tenant uid allocator of a worker (\<open>worker/src/uid.rs\<close>). The lemmas show that two
  tenants never hold one uid, that every uid lies in the range the process may switch to, and
  that an allocation fails only when the whole range is in use.
\<close>

definition UID_BASE :: u32 where
  "UID_BASE = 2000"

definition UID_SOFT_CAP :: u32 where
  "UID_SOFT_CAP = 65536"

record uid_allocator =
  ua_ceiling :: u32
  ua_next :: u32
  ua_free :: "u32 list"
  ua_assigned :: "tenant_id \<rightharpoonup> u32"

text \<open>
  Each line of \<open>/proc/self/uid_map\<close> gives a first uid and a count; their sum is computed in
  64 bits.
\<close>

definition uid_map_line :: "string \<Rightarrow> u64 option" where
  "uid_map_line line =
     (case split_whitespace line of
        inside # outside # count # _ \<Rightarrow>
          Option.bind (parse_u64 inside) (\<lambda>inside_start.
          Option.bind (parse_u64 outside) (\<lambda>_.
          Option.bind (parse_u64 count) (\<lambda>count. Some (inside_start + count))))
      | _ \<Rightarrow> None)"

definition parse_uid_map_bound :: "string \<Rightarrow> u32 option" where
  "parse_uid_map_bound contents =
     (case List.map_filter uid_map_line (str_lines contents) of
        [] \<Rightarrow> None
      | x # xs \<Rightarrow> Some (ucast (min (foldl max x xs) 4294967295)))"

definition uid_new :: "string \<Rightarrow> (report, uid_allocator) res" where
  "uid_new contents =
     bind_res (ok_or [OpaqueCause ''could not parse /proc/self/uid_map''] (parse_uid_map_bound contents)) (\<lambda>namespace_bound.
       let ceiling = min UID_SOFT_CAP namespace_bound in
       if ceiling \<le> UID_BASE then Err [OpaqueCause ''no room above UID_BASE'']
       else Ok \<lparr>ua_ceiling = ceiling, ua_next = UID_BASE, ua_free = [], ua_assigned = Map.empty\<rparr>)"

definition allocate :: "tenant_id \<Rightarrow> uid_allocator \<Rightarrow> (report, u32) res \<times> uid_allocator" where
  "allocate t a =
     (case ua_assigned a t of
        Some raw \<Rightarrow> (Ok raw, a)
      | None \<Rightarrow>
          if ua_free a \<noteq> [] then
            (let raw = last (ua_free a)
             in (Ok raw, a\<lparr>ua_free := butlast (ua_free a), ua_assigned := (ua_assigned a)(t \<mapsto> raw)\<rparr>))
          else if ua_next a \<ge> ua_ceiling a then (Err [OpaqueCause ''uid allocator exhausted its range''], a)
          else (Ok (ua_next a), a\<lparr>ua_next := ua_next a + 1, ua_assigned := (ua_assigned a)(t \<mapsto> ua_next a)\<rparr>))"

definition release_uid :: "tenant_id \<Rightarrow> uid_allocator \<Rightarrow> uid_allocator" where
  "release_uid t a =
     (case ua_assigned a t of
        None \<Rightarrow> a
      | Some raw \<Rightarrow> a\<lparr>ua_free := ua_free a @ [raw], ua_assigned := (ua_assigned a)(t := None)\<rparr>)"

subsection \<open>The invariant\<close>

text \<open>
  Every uid handed out so far is held by exactly one tenant or is free, exactly once.
\<close>

definition uid_inv :: "uid_allocator \<Rightarrow> bool" where
  "uid_inv a \<longleftrightarrow>
     UID_BASE \<le> ua_next a \<and> ua_next a \<le> ua_ceiling a \<and> distinct (ua_free a) \<and>
     inj_on (ua_assigned a) (dom (ua_assigned a)) \<and> ran (ua_assigned a) \<inter> set (ua_free a) = {} \<and>
     ran (ua_assigned a) \<union> set (ua_free a) = {UID_BASE..<ua_next a}"

lemma uid_new_inv: "uid_new contents = Ok a \<Longrightarrow> uid_inv a"
  unfolding uid_new_def uid_inv_def by (auto simp add: res_simps Let_def simp del: min_le_iff_disj min.bounded_iff split: if_splits)

lemma assigned_inj: "uid_inv a \<Longrightarrow> ua_assigned a t = Some u \<Longrightarrow> ua_assigned a t' = Some u \<Longrightarrow> t = t'"
  unfolding uid_inv_def inj_on_def by (metis domI)

lemma inj_on_map_upd: "inj_on m (dom m) \<Longrightarrow> u \<notin> ran m \<Longrightarrow> inj_on (m(t \<mapsto> u)) (dom (m(t \<mapsto> u)))"
  by (auto simp: inj_on_def ran_def)

lemma word_atLeastLessThan_Suc: "(l::u32) \<le> n \<Longrightarrow> n < c \<Longrightarrow> {l..<n + 1} = insert n {l..<n}"
proof -
  assume l: "l \<le> n" and n: "n < c"
  have eq: "x < n + 1 \<longleftrightarrow> x \<le> n" for x using n by unat_arith
  show ?thesis unfolding set_eq_iff atLeastLessThan_iff insert_iff eq using l by (auto simp: le_less)
qed

lemma allocate_inv:
  assumes inv: "uid_inv a" and al: "allocate t a = (r, a')"
  shows "uid_inv a'"
proof (cases "ua_assigned a t")
  case None
  note ran = ran_map_upd [of "ua_assigned a" t, OF None]
  have inj: "inj_on (ua_assigned a) (dom (ua_assigned a))" using inv by (simp add: uid_inv_def)
  show ?thesis
  proof (cases "ua_free a" rule: rev_cases)
    case (snoc xs u)
    have "u \<notin> ran (ua_assigned a)" using snoc inv by (auto simp: uid_inv_def)
    from inj_on_map_upd [OF inj this, of t] show ?thesis
      using inv al None snoc ran [of u] by (auto simp: allocate_def uid_inv_def Let_def)
  next
    case Nil
    show ?thesis
    proof (cases "ua_next a \<ge> ua_ceiling a")
      case False
      then have lt: "ua_next a < ua_ceiling a" by simp
      have nr: "ua_next a \<notin> ran (ua_assigned a)" using inv by (auto simp: uid_inv_def)
      have base: "UID_BASE \<le> ua_next a" using inv by (simp add: uid_inv_def)
      have "ua_next a \<in> {UID_BASE..<ua_next a + 1}" using word_atLeastLessThan_Suc [OF base lt] by simp
      then have "UID_BASE \<le> ua_next a + 1" by (auto intro: order.trans less_imp_le)
      moreover have "a' = a\<lparr>ua_next := ua_next a + 1, ua_assigned := (ua_assigned a)(t \<mapsto> ua_next a)\<rparr>"
        using al None Nil lt by (simp add: allocate_def leD split: if_splits)
      ultimately show ?thesis
        using inv Nil inj_on_map_upd [OF inj nr, of t] ran [of "ua_next a"] inc_le [OF lt]
          word_atLeastLessThan_Suc [OF base lt]
        unfolding uid_inv_def by (simp del: fun_upd_apply dom_fun_upd atLeastLessThan_iff)
    qed (use inv al None Nil in \<open>simp add: allocate_def\<close>)
  qed
qed (use inv al in \<open>simp add: allocate_def\<close>)

lemma release_inv:
  assumes inv: "uid_inv a"
  shows "uid_inv (release_uid t a)"
proof (cases "ua_assigned a t")
  case (Some u)
  let ?m = "(ua_assigned a)(t := None)"
  have "u \<in> ran (ua_assigned a)" using Some by (auto simp: ran_def)
  moreover have "ran ?m = ran (ua_assigned a) - {u}"
  proof -
    have "ua_assigned a t' \<noteq> Some u" if "t' \<noteq> t" for t' using assigned_inj [OF inv _ Some] that by blast
    then have "v \<in> ran ?m \<longleftrightarrow> v \<in> ran (ua_assigned a) \<and> v \<noteq> u" for v
      using Some unfolding ran_def by simp (metis option.inject)
    then show ?thesis by blast
  qed
  moreover have "inj_on ?m (dom ?m)" using inv by (auto simp: uid_inv_def inj_on_def)
  ultimately show ?thesis using inv Some by (auto simp: release_uid_def uid_inv_def)
qed (use inv in \<open>simp add: release_uid_def\<close>)

lemma allocate_assigned: "allocate t a = (Ok u, a') \<Longrightarrow> ua_assigned a' t = Some u \<and> (\<forall>t'. t' \<noteq> t \<longrightarrow> ua_assigned a' t' = ua_assigned a t')"
  by (auto simp: allocate_def Let_def split: option.splits if_splits)

lemma allocate_stable: "allocate t a = (r, a') \<Longrightarrow> ua_assigned a t' = Some u \<Longrightarrow> ua_assigned a' t' = Some u"
  by (auto simp: allocate_def Let_def split: option.splits if_splits)

text \<open>Any sequence of allocations and releases.\<close>

datatype uid_op = Allocate tenant_id | Release tenant_id

fun uid_step :: "uid_allocator \<Rightarrow> uid_op \<Rightarrow> uid_allocator" where
  "uid_step a (Allocate t) = snd (allocate t a)"
| "uid_step a (Release t) = release_uid t a"

lemma uid_run_inv: "uid_inv a \<Longrightarrow> uid_inv (foldl uid_step a ops)"
proof (induction ops arbitrary: a)
  case (Cons op ops)
  have "uid_inv (uid_step a op)"
    using Cons.prems allocate_inv release_inv by (cases op) (auto simp: prod_eq_iff)
  then show ?case using Cons.IH by simp
qed simp

text \<open>
  Whatever the order of allocations and releases, an allocation gives a uid of the range that
  no other tenant holds, and it fails only when every uid of the range is held by some other
  tenant.
\<close>

theorem uid_allocation_exclusive:
  assumes "uid_new contents = Ok a0" "a = foldl uid_step a0 ops"
  shows "case allocate t a of
      (Ok u, a') \<Rightarrow> UID_BASE \<le> u \<and> u < ua_ceiling a \<and> ua_assigned a' t = Some u \<and> (\<forall>t'. t' \<noteq> t \<longrightarrow> ua_assigned a' t' \<noteq> Some u)
    | (Err x, a') \<Rightarrow> a' = a \<and> (\<forall>u. UID_BASE \<le> u \<and> u < ua_ceiling a \<longrightarrow> (\<exists>t'. t' \<noteq> t \<and> ua_assigned a t' = Some u))
    | (Panic, a') \<Rightarrow> False"
proof -
  have inv: "uid_inv a" using uid_run_inv [OF uid_new_inv [OF assms(1)]] assms(2) by simp
  obtain r a' where al: "allocate t a = (r, a')" by fastforce
  have inv': "uid_inv a'" by (rule allocate_inv [OF inv al])
  have c: "ua_ceiling a' = ua_ceiling a" using al by (auto simp: allocate_def Let_def split: option.splits if_splits)
  show ?thesis
  proof (cases r)
    case (Ok u)
    have as: "ua_assigned a' t = Some u" using allocate_assigned al Ok by blast
    then have "u \<in> {UID_BASE..<ua_next a'}" using inv' unfolding uid_inv_def by (metis UnI1 ranI)
    then have "UID_BASE \<le> u" "u < ua_ceiling a" using inv' c by (auto simp: uid_inv_def)
    moreover have "ua_assigned a' t' \<noteq> Some u" if "t' \<noteq> t" for t' using assigned_inj [OF inv' _ as] that by blast
    ultimately show ?thesis using al Ok as by simp
  next
    case (Err x)
    then have e: "ua_assigned a t = None" "ua_free a = []" "ua_next a \<ge> ua_ceiling a" "a' = a"
      using al by (auto simp: allocate_def Let_def split: option.splits if_splits)
    have "\<exists>t'. t' \<noteq> t \<and> ua_assigned a t' = Some u" if "UID_BASE \<le> u \<and> u < ua_ceiling a" for u
    proof -
      have "u \<in> ran (ua_assigned a)" using that e(2,3) inv by (auto simp: uid_inv_def)
      then obtain t' where "ua_assigned a t' = Some u" by (auto simp: ran_def)
      then show ?thesis using e(1) by (intro exI [of _ t']) auto
    qed
    then show ?thesis using al Err e(4) by simp
  next
    case Panic
    then show ?thesis using al by (auto simp: allocate_def Let_def split: option.splits if_splits)
  qed
qed

lemma ex_uid_new: "uid_new ''0 0 2001'' = Ok \<lparr>ua_ceiling = 2001, ua_next = 2000, ua_free = [], ua_assigned = Map.empty\<rparr>"
proof -
  have "str_lines ''0 0 2001'' = [''0 0 2001'']" by code_simp
  moreover have "split_whitespace ''0 0 2001'' = [''0'', ''0'', ''2001'']"
    using split_whitespace_join [of "[''0'', ''0'', ''2001'']"] by (simp add: graphic_def)
  moreover have "parse_u64 ''0'' = Some 0" "parse_u64 ''2001'' = Some 2001"
    by (simp_all add: parse_u64_def is_dec_digit_def digits_val_def Let_def)
  ultimately have "parse_uid_map_bound ''0 0 2001'' = Some 2001"
    by (simp add: parse_uid_map_bound_def uid_map_line_def map_filter_simps)
  then show ?thesis by (simp add: uid_new_def UID_SOFT_CAP_def UID_BASE_def Let_def)
qed

theorem uid_allocation_exclusive_witness:
  "\<exists>a0. uid_new ''0 0 2001'' = Ok a0 \<and>
     (case allocate (TenantId ''bob'') (foldl uid_step a0 [Allocate (TenantId ''alice'')]) of
        (Err x, a') \<Rightarrow> \<exists>t'. t' \<noteq> TenantId ''bob'' \<and> ua_assigned a' t' = Some 2000
      | _ \<Rightarrow> False)"
proof -
  let ?a0 = "\<lparr>ua_ceiling = 2001, ua_next = 2000, ua_free = [], ua_assigned = Map.empty\<rparr>"
  have e: "allocate (TenantId ''bob'') (foldl uid_step ?a0 [Allocate (TenantId ''alice'')]) =
      (Err [OpaqueCause ''uid allocator exhausted its range''], foldl uid_step ?a0 [Allocate (TenantId ''alice'')])"
    by (simp add: allocate_def)
  show ?thesis
    using uid_allocation_exclusive [OF ex_uid_new refl, where t = "TenantId ''bob''" and ops = "[Allocate (TenantId ''alice'')]"] ex_uid_new e
    by (auto simp: UID_BASE_def allocate_def)
qed

end
