(* ===== verification/Vm.thy ===== *)
theory Vm
  imports Uid
begin

text \<open>
  The virtual machine pool of a worker (\<open>worker/src/vm.rs\<close>) with the part of the guest that
  unlocks the tenant's disk (\<open>guest-agent/src/main.rs\<close>). A pool keeps at most one running
  machine; a tenant's disk image survives the machine, encrypted under a key that only the
  worker's memory holds and owned by the tenant's own uid. How far a boot gets, which helper
  programs of the guest work and whether the control connection answers are parameters of each
  call. The lemmas show that images, keys and uids never mix, that a machine reported as fresh
  holds no registered path, and what a boot that fails half way leaves behind.
\<close>

subsection \<open>Pure helpers\<close>

definition store_img_path :: "string \<Rightarrow> tenant_id \<Rightarrow> string" where
  "store_img_path state_dir t = state_dir @ ''/tenants/'' @ tid_str t @ ''/store.img''"

text \<open>Different tenants have different images, so that the images can be told apart by tenant.\<close>

lemma store_img_path_inject: "store_img_path state_dir t = store_img_path state_dir t' \<longleftrightarrow> t = t'"
  by (cases t; cases t') (simp add: store_img_path_def)

definition NET_GUEST_ADDR :: string where
  "NET_GUEST_ADDR = ''10.42.100.2''"

definition NET_PREFIX :: string where
  "NET_PREFIX = ''24''"

definition NET_GATEWAY :: string where
  "NET_GATEWAY = ''10.42.100.1''"

definition passt_args :: "string \<Rightarrow> string option \<Rightarrow> string list" where
  "passt_args net_socket dns_host =
     [''--foreground'', ''--vhost-user'', ''--socket'', net_socket, ''--address'', NET_GUEST_ADDR,
      ''--netmask'', NET_PREFIX, ''--gateway'', NET_GATEWAY, ''--dns'', NET_GATEWAY] @
     (case dns_host of None \<Rightarrow> [] | Some host \<Rightarrow> [''--dns-forward'', NET_GATEWAY, ''--dns-host'', host])"

definition nameserver_line :: "string \<Rightarrow> string option" where
  "nameserver_line line =
     Option.bind (strip_prefix ''nameserver'' line) (\<lambda>rest. case split_whitespace rest of [] \<Rightarrow> None | addr # _ \<Rightarrow> Some addr)"

definition host_nameserver :: "string option \<Rightarrow> string option" where
  "host_nameserver resolv_conf =
     Option.bind resolv_conf (\<lambda>contents.
       case List.map_filter nameserver_line (str_lines contents) of [] \<Rightarrow> None | a # _ \<Rightarrow> Some a)"

definition net_arg :: "string \<Rightarrow> string" where
  "net_arg net_socket = ''vhost_user=true,socket='' @ net_socket @ '',num_queues=2,vhost_mode=client''"

definition console_log_tail :: "(string, string) res \<Rightarrow> string \<Rightarrow> string" where
  "console_log_tail contents path =
     (case contents of
        Ok text \<Rightarrow> join_with [newline] (rev (take 40 (rev (str_lines text))))
      | Err e \<Rightarrow> ''(could not read '' @ path @ '': '' @ e @ '')''
      | Panic \<Rightarrow> [])"

subsection \<open>Waiting for the guest\<close>

datatype io_kind = NotFound | ConnectionRefused | PermissionDenied | OtherKind string

definition is_transient_connect_error :: "io_kind \<Rightarrow> bool" where
  "is_transient_connect_error k \<longleftrightarrow> k = NotFound \<or> k = ConnectionRefused"

datatype handshake_attempt = Ready | NotYet | HardError io_kind

text \<open>One dial: the connection, whether the request could be written, and what was read.\<close>

definition handshake_once :: "(io_kind, bool \<times> bytes option) res \<Rightarrow> handshake_attempt" where
  "handshake_once dial =
     (case dial of
        Err k \<Rightarrow> if is_transient_connect_error k then NotYet else HardError k
      | Panic \<Rightarrow> NotYet
      | Ok (written, reply) \<Rightarrow>
          if \<not> written then NotYet
          else case reply of
            None \<Rightarrow> NotYet
          | Some buf \<Rightarrow> if starts_with buf (as_bytes ''OK'') then Ready else NotYet)"

text \<open>The dials that fit before the deadline; the empty list is the timeout.\<close>

fun wait_for_vsock_ready :: "(io_kind, bool \<times> bytes option) res list \<Rightarrow> (io_kind option, unit) res" where
  "wait_for_vsock_ready [] = Err None"
| "wait_for_vsock_ready (d # ds) =
     (case handshake_once d of
        Ready \<Rightarrow> Ok ()
      | NotYet \<Rightarrow> wait_for_vsock_ready ds
      | HardError k \<Rightarrow> Err (Some k))"

subsection \<open>Disk images\<close>

datatype image =
    Blank (im_owner: u32)
  | Formatted (im_owner: u32) (im_key: bytes) (im_paths: "string list")

text \<open>
  How far \<open>boot\<close> gets. The image is created in the forked child after it dropped its
  privileges and before it becomes the hypervisor.
\<close>

datatype boot_result = EarlyFailure | DropFailed | ExecFailed | NotReady | Booted

definition image_created :: "boot_result \<Rightarrow> bool" where
  "image_created r \<longleftrightarrow> r = ExecFailed \<or> r = NotReady \<or> r = Booted"

definition launcher_boot :: "boot_result \<Rightarrow> u32 \<Rightarrow> bool \<Rightarrow> image option \<Rightarrow> (report, unit) res \<times> image option" where
  "launcher_boot r uid fresh im =
     (if r = Booted then Ok () else Err [OpaqueCause ''booting the VM failed''],
      if fresh \<and> image_created r then Some (Blank uid) else im)"

record guest_tools =
  gt_modprobe :: bool
  gt_cryptsetup :: bool
  gt_mkfs :: bool
  gt_mount :: bool

text \<open>
  Plain dm-crypt opens any device with any key; a file system is found only under the key it was
  made with.
\<close>

fun mountable :: "bytes \<Rightarrow> image \<Rightarrow> bool" where
  "mountable key (Blank u) = False"
| "mountable key (Formatted u k ps) = (k = key)"

definition unlock_and_mount :: "guest_tools \<Rightarrow> bytes \<Rightarrow> bool \<Rightarrow> image \<Rightarrow> (string, unit) res \<times> image" where
  "unlock_and_mount tools key fresh im =
     (if \<not> gt_modprobe tools then (Err ''modprobe'', im)
      else if \<not> gt_cryptsetup tools then (Err ''cryptsetup open'', im)
      else if fresh \<and> \<not> gt_mkfs tools then (Err ''mkfs.ext4'', im)
      else let im = (if fresh then Formatted (im_owner im) key [] else im)
           in if gt_mount tools \<and> mountable key im then (Ok (), im) else (Err ''mounting the decrypted device'', im))"

datatype control = Unreachable | ReplyLost | Answered

definition push_key :: "control \<Rightarrow> guest_tools \<Rightarrow> bytes \<Rightarrow> bool \<Rightarrow> image \<Rightarrow> (report, unit) res \<times> image" where
  "push_key ctl tools key fresh im =
     (case ctl of
        Unreachable \<Rightarrow> (Err [OpaqueCause ''connecting for the control channel''], im)
      | ReplyLost \<Rightarrow> (Err [OpaqueCause ''control RPC failed pushing the store key''], snd (unlock_and_mount tools key fresh im))
      | Answered \<Rightarrow>
          (case unlock_and_mount tools key fresh im of
             (r, im) \<Rightarrow> (map_err (\<lambda>msg. [OpaqueCause (''guest-agent rejected the store key: '' @ msg)]) r, im)))"

subsection \<open>The pool\<close>

record vm_handle =
  vh_tenant :: tenant_id
  vh_store_img :: string
  vh_fresh :: bool

record vm_pool =
  vp_state_dir :: string
  vp_warm :: "tenant_id option"
  vp_keys :: "tenant_id \<rightharpoonup> bytes"
  vp_uids :: uid_allocator
  vp_images :: "tenant_id \<rightharpoonup> image"

record boot_env =
  be_alive :: bool
  be_dir_ok :: bool
  be_boot :: boot_result
  be_control :: control
  be_tools :: guest_tools
  be_random :: bytes
  be_removed :: bool

text \<open>Start-up: every image a previous process left behind is deleted.\<close>

definition pool_new :: "string \<Rightarrow> string \<Rightarrow> (report, vm_pool) res" where
  "pool_new state_dir uid_map =
     bind_res (map_err (wrap_err ''setting up the per-tenant uid allocator'') (uid_new uid_map)) (\<lambda>uids.
       Ok \<lparr>vp_state_dir = state_dir, vp_warm = None, vp_keys = Map.empty, vp_uids = uids, vp_images = Map.empty\<rparr>)"

definition evict :: "vm_pool \<Rightarrow> vm_pool" where
  "evict p = p\<lparr>vp_warm := None\<rparr>"

definition boot_vm :: "boot_env \<Rightarrow> tenant_id \<Rightarrow> vm_pool \<Rightarrow> (report, vm_handle) res \<times> vm_pool" where
  "boot_vm e t p =
     (if \<not> be_dir_ok e then (Err [OpaqueCause ''creating the tenant directory''], p)
      else let fresh = (vp_images p t = None) in
       case allocate t (vp_uids p) of
         (Err x, uids) \<Rightarrow> (Err x, p\<lparr>vp_uids := uids\<rparr>)
       | (Panic, uids) \<Rightarrow> (Panic, p\<lparr>vp_uids := uids\<rparr>)
       | (Ok uid, uids) \<Rightarrow>
           (case launcher_boot (be_boot e) uid fresh (vp_images p t) of
              (Ok _, Some im) \<Rightarrow>
                (let key = (case vp_keys p t of Some k \<Rightarrow> k | None \<Rightarrow> be_random e) in
                 case push_key (be_control e) (be_tools e) key fresh im of
                   (r, im) \<Rightarrow>
                     (let p = p\<lparr>vp_uids := uids, vp_keys := (vp_keys p)(t \<mapsto> key), vp_images := (vp_images p)(t \<mapsto> im)\<rparr> in
                      case r of
                        Ok _ \<Rightarrow> (Ok \<lparr>vh_tenant = t, vh_store_img = store_img_path (vp_state_dir p) t, vh_fresh = fresh\<rparr>, p\<lparr>vp_warm := Some t\<rparr>)
                      | Err x \<Rightarrow> (Err (wrap_err ''pushing store key'' x), p)
                      | Panic \<Rightarrow> (Panic, p)))
            | (Err x, im) \<Rightarrow> (Err x, p\<lparr>vp_uids := uids, vp_images := (vp_images p)(t := im)\<rparr>)
            | (_, im) \<Rightarrow> (Panic, p\<lparr>vp_uids := uids, vp_images := (vp_images p)(t := im)\<rparr>)))"

definition ensure_vm_for :: "boot_env \<Rightarrow> tenant_id \<Rightarrow> vm_pool \<Rightarrow> (report, vm_handle) res \<times> vm_pool" where
  "ensure_vm_for e t p =
     (case vp_warm p of
        Some w \<Rightarrow>
          if w = t \<and> be_alive e
          then (Ok \<lparr>vh_tenant = t, vh_store_img = store_img_path (vp_state_dir p) t, vh_fresh = False\<rparr>, p)
          else boot_vm e t (evict p)
      | None \<Rightarrow> boot_vm e t p)"

definition wipe_and_reboot :: "boot_env \<Rightarrow> tenant_id \<Rightarrow> vm_pool \<Rightarrow> (report, vm_handle) res \<times> vm_pool" where
  "wipe_and_reboot e t p =
     (let p = evict p in
      if vp_images p t = None \<or> \<not> be_removed e then (Err [OpaqueCause ''removing the store image''], p)
      else ensure_vm_for e t (p\<lparr>vp_images := (vp_images p)(t := None)\<rparr>))"

text \<open>What the running guest's daemon does to its disk: it registers a path.\<close>

definition guest_registers :: "string \<Rightarrow> vm_pool \<Rightarrow> vm_pool" where
  "guest_registers path p =
     (case vp_warm p of
        None \<Rightarrow> p
      | Some t \<Rightarrow>
          (case vp_images p t of
             Some (Formatted u k ps) \<Rightarrow> p\<lparr>vp_images := (vp_images p)(t \<mapsto> Formatted u k (path # ps))\<rparr>
           | _ \<Rightarrow> p))"

subsection \<open>What a pool keeps apart\<close>

definition pool_inv :: "vm_pool \<Rightarrow> bool" where
  "pool_inv p \<longleftrightarrow>
     uid_inv (vp_uids p) \<and>
     (\<forall>t im. vp_images p t = Some im \<longrightarrow> ua_assigned (vp_uids p) t = Some (im_owner im)) \<and>
     (\<forall>t u k ps. vp_images p t = Some (Formatted u k ps) \<longrightarrow> vp_keys p t = Some k) \<and>
     (\<forall>t. vp_warm p = Some t \<longrightarrow> (\<exists>u k ps. vp_images p t = Some (Formatted u k ps)))"

lemma pool_invI:
  assumes "uid_inv (vp_uids p)" "\<And>t im. vp_images p t = Some im \<Longrightarrow> ua_assigned (vp_uids p) t = Some (im_owner im)"
    "\<And>t u k ps. vp_images p t = Some (Formatted u k ps) \<Longrightarrow> vp_keys p t = Some k"
    "\<And>t. vp_warm p = Some t \<Longrightarrow> \<exists>u k ps. vp_images p t = Some (Formatted u k ps)"
  shows "pool_inv p"
  using assms unfolding pool_inv_def by blast

lemma pool_invD:
  assumes "pool_inv p"
  shows "uid_inv (vp_uids p)" "vp_images p t = Some im \<Longrightarrow> ua_assigned (vp_uids p) t = Some (im_owner im)"
    "vp_images p t = Some (Formatted u k ps) \<Longrightarrow> vp_keys p t = Some k"
    "vp_warm p = Some t \<Longrightarrow> \<exists>u k ps. vp_images p t = Some (Formatted u k ps)"
  using assms unfolding pool_inv_def by blast+

lemma pool_new_inv: "pool_new d m = Ok p \<Longrightarrow> pool_inv p"
  by (auto simp: pool_new_def pool_inv_def res_simps dest: uid_new_inv)

lemma evict_inv: "pool_inv p \<Longrightarrow> pool_inv (evict p)"
  by (simp add: pool_inv_def evict_def)

lemma unlock_owner: "unlock_and_mount tools key fresh im = (r, im') \<Longrightarrow> im_owner im' = im_owner im"
  by (auto simp: unlock_and_mount_def Let_def split: if_splits)

lemma unlock_form: "unlock_and_mount tools key fresh im = (r, im') \<Longrightarrow> im' = im \<or> (fresh \<and> im' = Formatted (im_owner im) key [])"
  by (auto simp: unlock_and_mount_def Let_def split: if_splits)

lemma mountable_iff: "mountable key im \<longleftrightarrow> (\<exists>u ps. im = Formatted u key ps)"
  by (cases im) auto

lemma unlock_Ok: "unlock_and_mount tools key fresh im = (Ok u, im') \<Longrightarrow> mountable key im' \<and> (fresh \<longrightarrow> im_paths im' = [])"
  by (auto simp: unlock_and_mount_def Let_def split: if_splits)

lemma push_key_form:
  "push_key ctl tools key fresh im = (r, im') \<Longrightarrow>
     im_owner im' = im_owner im \<and> (im' = im \<or> (fresh \<and> im' = Formatted (im_owner im) key []))"
  by (cases "unlock_and_mount tools key fresh im")
    (auto simp: push_key_def split: control.splits dest: unlock_owner unlock_form)

lemma push_key_Ok: "push_key ctl tools key fresh im = (Ok u, im') \<Longrightarrow> mountable key im' \<and> (fresh \<longrightarrow> im_paths im' = [])"
  by (cases "unlock_and_mount tools key fresh im")
    (auto simp: push_key_def res_simps split: control.splits dest: unlock_Ok)

text \<open>
  The outcomes of a boot. \<open>im'\<close> is the tenant's image afterwards: what it was, a blank one, or a
  newly made file system.
\<close>

lemma boot_vm_cases:
  assumes "boot_vm e t p = (r, p')"
  obtains (unchanged) "p' = p" "\<not> (\<exists>h. r = Ok h)"
  | (exhausted) uids x where "allocate t (vp_uids p) = (Err x, uids)" "p' = p\<lparr>vp_uids := uids\<rparr>" "r = Err x"
  | (failed) uid uids im' where "allocate t (vp_uids p) = (Ok uid, uids)" "\<not> (\<exists>h. r = Ok h)"
      "p' = p\<lparr>vp_uids := uids, vp_images := (vp_images p)(t := im')\<rparr>"
      "im' = (if vp_images p t = None \<and> image_created (be_boot e) then Some (Blank uid) else vp_images p t)"
  | (locked) uid uids key im im' where "allocate t (vp_uids p) = (Ok uid, uids)" "\<not> (\<exists>h. r = Ok h)"
      "key = (case vp_keys p t of Some k \<Rightarrow> k | None \<Rightarrow> be_random e)"
      "im = (case vp_images p t of None \<Rightarrow> Blank uid | Some im \<Rightarrow> im)"
      "im_owner im' = im_owner im" "im' = im \<or> (vp_images p t = None \<and> im' = Formatted uid key [])"
      "p' = p\<lparr>vp_uids := uids, vp_keys := (vp_keys p)(t \<mapsto> key), vp_images := (vp_images p)(t \<mapsto> im')\<rparr>"
  | (ready) uid uids key im im' where "allocate t (vp_uids p) = (Ok uid, uids)"
      "key = (case vp_keys p t of Some k \<Rightarrow> k | None \<Rightarrow> be_random e)"
      "im = (case vp_images p t of None \<Rightarrow> Blank uid | Some im \<Rightarrow> im)"
      "im_owner im' = im_owner im" "im' = im \<or> (vp_images p t = None \<and> im' = Formatted uid key [])"
      "mountable key im'" "vp_images p t = None \<longrightarrow> im_paths im' = []"
      "r = Ok \<lparr>vh_tenant = t, vh_store_img = store_img_path (vp_state_dir p) t, vh_fresh = (vp_images p t = None)\<rparr>"
      "p' = p\<lparr>vp_uids := uids, vp_keys := (vp_keys p)(t \<mapsto> key), vp_images := (vp_images p)(t \<mapsto> im'), vp_warm := Some t\<rparr>"
proof (cases "be_dir_ok e")
  case False
  then show thesis using assms by (intro unchanged) (auto simp: boot_vm_def)
next
  case dir: True
  obtain ar uids where al: "allocate t (vp_uids p) = (ar, uids)" by fastforce
  let ?fresh = "vp_images p t = None"
  show thesis
  proof (cases ar)
    case (Err x)
    then show thesis using assms dir al by (intro exhausted) (auto simp: boot_vm_def)
  next
    case Panic
    then show thesis using al by (auto simp: allocate_def Let_def split: option.splits if_splits)
  next
    case (Ok uid)
    show thesis
    proof (cases "be_boot e = Booted")
      case False
      then show thesis using assms dir al Ok
        by (intro failed [of uid uids]) (auto simp: boot_vm_def launcher_boot_def)
    next
      case True
      define im where "im = (case vp_images p t of None \<Rightarrow> Blank uid | Some im \<Rightarrow> im)"
      define key where "key = (case vp_keys p t of Some k \<Rightarrow> k | None \<Rightarrow> be_random e)"
      have boot: "launcher_boot (be_boot e) uid ?fresh (vp_images p t) = (Ok (), Some im)"
        using True by (auto simp: launcher_boot_def image_created_def im_def split: option.splits)
      obtain pr im' where push: "push_key (be_control e) (be_tools e) key ?fresh im = (pr, im')" by fastforce
      note form = push_key_form [OF push]
      have form': "im_owner im' = im_owner im" "im' = im \<or> (?fresh \<and> im' = Formatted uid key [])"
        using form by (auto simp: im_def)
      have res: "boot_vm e t p = (let p = p\<lparr>vp_uids := uids, vp_keys := (vp_keys p)(t \<mapsto> key), vp_images := (vp_images p)(t \<mapsto> im')\<rparr> in
          case pr of
            Ok _ \<Rightarrow> (Ok \<lparr>vh_tenant = t, vh_store_img = store_img_path (vp_state_dir p) t, vh_fresh = ?fresh\<rparr>, p\<lparr>vp_warm := Some t\<rparr>)
          | Err x \<Rightarrow> (Err (wrap_err ''pushing store key'' x), p)
          | Panic \<Rightarrow> (Panic, p))"
        using dir al Ok boot push by (simp add: boot_vm_def key_def)
      show thesis
      proof (cases pr)
        case pOk: (Ok u)
        show thesis
          using assms res pOk al Ok form' push_key_Ok [OF push [unfolded pOk]]
          by (intro ready [of uid uids key im im']) (simp_all add: key_def im_def)
      qed (use assms res al Ok form' in \<open>auto intro!: locked [of uid uids key im im'] simp: key_def im_def\<close>)
    qed
  qed
qed

lemma image_upd_inv:
  assumes inv: "pool_inv p" and al: "allocate t (vp_uids p) = (Ok uid, uids)"
    and owner: "im_owner im = uid"
    and key: "\<And>u k ps. im = Formatted u k ps \<Longrightarrow> keys t = Some k"
    and others: "\<And>t'. t' \<noteq> t \<Longrightarrow> keys t' = vp_keys p t'"
    and warm: "w = None \<or> (w = Some t \<and> (\<exists>u k ps. im = Formatted u k ps))"
  shows "pool_inv (p\<lparr>vp_uids := uids, vp_keys := keys, vp_images := (vp_images p)(t \<mapsto> im), vp_warm := w\<rparr>)"
proof (rule pool_invI)
  note D = pool_invD [OF inv]
  show "uid_inv (vp_uids (p\<lparr>vp_uids := uids, vp_keys := keys, vp_images := (vp_images p)(t \<mapsto> im), vp_warm := w\<rparr>))"
    using allocate_inv [OF D(1) al] by simp
  fix t' im'
  assume "vp_images (p\<lparr>vp_uids := uids, vp_keys := keys, vp_images := (vp_images p)(t \<mapsto> im), vp_warm := w\<rparr>) t' = Some im'"
  then show "ua_assigned (vp_uids (p\<lparr>vp_uids := uids, vp_keys := keys, vp_images := (vp_images p)(t \<mapsto> im), vp_warm := w\<rparr>)) t' = Some (im_owner im')"
    using allocate_assigned [OF al] D(2) [of t' im'] owner by (auto split: if_splits)
qed (use assms pool_invD(3) [OF inv] in \<open>auto split: if_splits\<close>)

lemma owner_now: "pool_inv p \<Longrightarrow> allocate t (vp_uids p) = (Ok uid, uids) \<Longrightarrow> vp_images p t = Some im \<Longrightarrow> im_owner im = uid"
  using pool_invD(2) [of p t im] allocate_stable [of t "vp_uids p" "Ok uid" uids t "im_owner im"] allocate_assigned [of t "vp_uids p" uid uids]
  by fastforce

lemma boot_vm_inv:
  assumes inv: "pool_inv p" and cold: "vp_warm p = None" and b: "boot_vm e t p = (r, p')"
  shows "pool_inv p'"
  using b
proof (cases rule: boot_vm_cases)
  case unchanged
  then show ?thesis using inv by simp
next
  case (exhausted uids x)
  then have "uids = vp_uids p" by (auto simp: allocate_def Let_def split: option.splits if_splits)
  then show ?thesis using exhausted inv by simp
next
  case (failed uid uids im')
  show ?thesis
  proof (cases im')
    case None
    then have "(vp_images p)(t := im') = vp_images p" using failed(4) by (auto split: if_splits)
    then show ?thesis
      using failed(3) inv cold allocate_inv [OF pool_invD(1) [OF inv] failed(1)] pool_invD(2) [OF inv] allocate_stable [OF failed(1)]
      by (auto simp: pool_inv_def)
  next
    case (Some im)
    have "im_owner im = uid" using Some failed(4) owner_now [OF inv failed(1)] by (auto split: if_splits)
    moreover have "vp_keys p t = Some k" if "im = Formatted u k ps" for u k ps
      using that Some failed(4) pool_invD(3) [OF inv] by (auto split: if_splits)
    ultimately have "pool_inv (p\<lparr>vp_uids := uids, vp_keys := vp_keys p, vp_images := (vp_images p)(t \<mapsto> im), vp_warm := None\<rparr>)"
      by (intro image_upd_inv [OF inv failed(1)]) auto
    then show ?thesis using failed(3) Some cold by (simp add: pool_inv_def)
  qed
next
  case (locked uid uids key im im')
  have o: "im_owner im' = uid" using locked(4,5) owner_now [OF inv locked(1)] by (auto split: option.splits)
  have k: "k = key" if "im' = Formatted u k ps" for u k ps
    using that locked(3,4,6) pool_invD(3) [OF inv] by (auto split: option.splits)
  have "pool_inv (p\<lparr>vp_uids := uids, vp_keys := (vp_keys p)(t \<mapsto> key), vp_images := (vp_images p)(t \<mapsto> im'), vp_warm := None\<rparr>)"
    using k by (intro image_upd_inv [OF inv locked(1) o]) auto
  then show ?thesis using locked(7) cold by (simp add: pool_inv_def)
next
  case (ready uid uids key im im')
  have o: "im_owner im' = uid" using ready(3,4) owner_now [OF inv ready(1)] by (auto split: option.splits)
  have "pool_inv (p\<lparr>vp_uids := uids, vp_keys := (vp_keys p)(t \<mapsto> key), vp_images := (vp_images p)(t \<mapsto> im'), vp_warm := Some t\<rparr>)"
    using ready(6) by (intro image_upd_inv [OF inv ready(1) o]) (auto simp: mountable_iff)
  then show ?thesis using ready(9) by simp
qed

lemma evict_simps [simp]: "vp_warm (evict p) = None" "vp_images (evict p) = vp_images p" "vp_keys (evict p) = vp_keys p"
  "vp_uids (evict p) = vp_uids p" "vp_state_dir (evict p) = vp_state_dir p"
  by (simp_all add: evict_def)

lemma ensure_eq:
  "ensure_vm_for e t p =
     (if vp_warm p = Some t \<and> be_alive e
      then (Ok \<lparr>vh_tenant = t, vh_store_img = store_img_path (vp_state_dir p) t, vh_fresh = False\<rparr>, p)
      else boot_vm e t (evict p))"
proof -
  have same: "evict p = p" if "vp_warm p = None" using that by (cases p) (simp add: evict_def)
  show ?thesis
  proof (cases "vp_warm p")
    case None
    then show ?thesis by (simp add: ensure_vm_for_def same [OF None])
  qed (auto simp: ensure_vm_for_def)
qed

lemma ensure_inv: "pool_inv p \<Longrightarrow> ensure_vm_for e t p = (r, p') \<Longrightarrow> pool_inv p'"
  using boot_vm_inv [OF evict_inv, of p e t r p'] by (auto simp: ensure_eq split: if_splits)

lemma wipe_inv: "pool_inv p \<Longrightarrow> wipe_and_reboot e t p = (r, p') \<Longrightarrow> pool_inv p'"
proof -
  assume inv: "pool_inv p" and w: "wipe_and_reboot e t p = (r, p')"
  have "pool_inv ((evict p)\<lparr>vp_images := (vp_images p)(t := None)\<rparr>)"
    using inv by (auto simp: pool_inv_def evict_def)
  then show ?thesis using w ensure_inv evict_inv [OF inv] by (auto simp: wipe_and_reboot_def Let_def evict_def split: if_splits)
qed

lemma guest_registers_inv: "pool_inv p \<Longrightarrow> pool_inv (guest_registers path p)"
proof (cases "vp_warm p")
  case (Some t)
  assume inv: "pool_inv p"
  obtain u k ps where im: "vp_images p t = Some (Formatted u k ps)" using pool_invD(4) [OF inv Some] by blast
  show ?thesis
  proof (rule pool_invI)
    fix t' im' assume "vp_images (guest_registers path p) t' = Some im'"
    then show "ua_assigned (vp_uids (guest_registers path p)) t' = Some (im_owner im')"
      using Some im pool_invD(2) [OF inv, of t' "if t' = t then Formatted u k ps else im'"] by (auto simp: guest_registers_def split: if_splits)
  next
    fix t' u' k' ps' assume "vp_images (guest_registers path p) t' = Some (Formatted u' k' ps')"
    then show "vp_keys (guest_registers path p) t' = Some k'"
      using Some im pool_invD(3) [OF inv] by (auto simp: guest_registers_def split: if_splits)
  qed (use Some im inv in \<open>auto simp: guest_registers_def pool_inv_def\<close>)
qed (simp add: guest_registers_def)

subsection \<open>Everything that happens to a pool\<close>

datatype pool_op = Ensure boot_env tenant_id | Wipe boot_env tenant_id | Registers string

fun pool_step :: "vm_pool \<Rightarrow> pool_op \<Rightarrow> vm_pool" where
  "pool_step p (Ensure e t) = snd (ensure_vm_for e t p)"
| "pool_step p (Wipe e t) = snd (wipe_and_reboot e t p)"
| "pool_step p (Registers path) = guest_registers path p"

lemma pool_run_inv: "pool_inv p \<Longrightarrow> pool_inv (foldl pool_step p ops)"
proof (induction ops arbitrary: p)
  case (Cons op ops)
  have "pool_inv (pool_step p op)"
    using Cons.prems ensure_inv [OF _ prod.collapse [symmetric]] wipe_inv [OF _ prod.collapse [symmetric]] guest_registers_inv
    by (cases op) simp_all
  then show ?case using Cons.IH by simp
qed simp

text \<open>Another tenant's image and key are never touched.\<close>

lemma boot_vm_frame: "boot_vm e t p = (r, p') \<Longrightarrow> t' \<noteq> t \<Longrightarrow> vp_images p' t' = vp_images p t' \<and> vp_keys p' t' = vp_keys p t'"
  by (erule boot_vm_cases) auto

lemma ensure_frame: "ensure_vm_for e t p = (r, p') \<Longrightarrow> t' \<noteq> t \<Longrightarrow> vp_images p' t' = vp_images p t' \<and> vp_keys p' t' = vp_keys p t'"
  using boot_vm_frame [of e t "evict p" r p' t'] by (auto simp: ensure_eq split: if_splits)

lemma boot_vm_Ok:
  assumes "boot_vm e t p = (Ok h, p')"
  shows "vh_tenant h = t \<and> vp_warm p' = Some t \<and> vh_fresh h = (vp_images p t = None) \<and>
    (\<exists>u k ps. vp_images p' t = Some (Formatted u k ps) \<and> vp_keys p' t = Some k \<and> (vh_fresh h \<longrightarrow> ps = []))"
  using assms
proof (cases rule: boot_vm_cases)
  case (ready uid uids key im im')
  obtain u ps where im': "im' = Formatted u key ps" using ready(6) by (auto simp: mountable_iff)
  then have "vp_images p t = None \<longrightarrow> ps = []" using ready(7) by simp
  then show ?thesis using ready(8,9) im' by simp
qed auto

text \<open>
  C14: The tenants of a worker are kept apart. Whatever machines were booted, failed, wiped or used
  before, a machine handed out for a tenant runs on that tenant's image: owned by a uid that owns
  no other image, holding a file system under the tenant's key, and empty if the machine is
  reported as fresh. No other tenant's image or key changes.
\<close>

theorem vm_pool_isolates_tenants:
  assumes "pool_new d m = Ok p0" "p = foldl pool_step p0 ops" "ensure_vm_for e t p = (Ok h, p')"
  shows "vh_tenant h = t \<and> vp_warm p' = Some t \<and>
    (\<exists>u k ps. vp_images p' t = Some (Formatted u k ps) \<and> vp_keys p' t = Some k \<and> (vh_fresh h \<longrightarrow> ps = []) \<and>
       (\<forall>t' im. t' \<noteq> t \<longrightarrow> vp_images p' t' = Some im \<longrightarrow> im_owner im \<noteq> u)) \<and>
    (\<forall>t'. t' \<noteq> t \<longrightarrow> vp_images p' t' = vp_images p t' \<and> vp_keys p' t' = vp_keys p t')"
proof -
  have inv: "pool_inv p" using pool_run_inv [OF pool_new_inv [OF assms(1)]] assms(2) by simp
  note inv' = ensure_inv [OF inv assms(3)]
  have "vh_tenant h = t \<and> vp_warm p' = Some t \<and>
    (\<exists>u k ps. vp_images p' t = Some (Formatted u k ps) \<and> vp_keys p' t = Some k \<and> (vh_fresh h \<longrightarrow> ps = []))"
  proof (cases "vp_warm p = Some t \<and> be_alive e")
    case True
    then show ?thesis using assms(3) pool_invD(3,4) [OF inv] by (fastforce simp: ensure_eq)
  next
    case False
    then show ?thesis using assms(3) boot_vm_Ok [of e t "evict p" h p'] by (auto simp: ensure_eq)
  qed
  moreover have "im_owner im \<noteq> u" if "vp_images p' t = Some (Formatted u k ps)" "t' \<noteq> t" "vp_images p' t' = Some im" for u k ps t' im
    using assigned_inj [OF pool_invD(1) [OF inv'], of t' "im_owner im" t] pool_invD(2) [OF inv' that(3)] pool_invD(2) [OF inv' that(1)] that(2)
    by auto
  ultimately show ?thesis using ensure_frame [OF assms(3)] by blast
qed

subsection \<open>A boot that fails half way\<close>

lemma blank_boot:
  assumes "vp_images p t = Some (Blank u)" "boot_vm e t' p = (r, p')"
  shows "vp_images p' t = Some (Blank u) \<and> (t' = t \<longrightarrow> \<not> (\<exists>h. r = Ok h)) \<and> (vp_warm p \<noteq> Some t \<longrightarrow> vp_warm p' \<noteq> Some t)"
  using assms(2)
proof (cases rule: boot_vm_cases)
  case (ready uid uids key im im')
  have "t' \<noteq> t" using assms(1) ready(3,5,6) by (auto simp: mountable_iff)
  then show ?thesis using assms(1) ready by simp
qed (use assms(1) in \<open>auto split: option.splits if_splits\<close>)

lemma blank_ensure:
  assumes "vp_images p t = Some (Blank u)" "vp_warm p \<noteq> Some t" "ensure_vm_for e t' p = (r, p')"
  shows "vp_images p' t = Some (Blank u) \<and> (t' = t \<longrightarrow> \<not> (\<exists>h. r = Ok h)) \<and> vp_warm p' \<noteq> Some t"
  using assms(2,3) blank_boot [of "evict p" t u e t' r p'] assms(1) by (auto simp: ensure_eq split: if_splits)

text \<open>Jobs only ask for machines; a wipe needs a machine that was handed out.\<close>

fun asks :: "pool_op \<Rightarrow> bool" where
  "asks (Wipe e t) = False"
| "asks _ = True"

lemma blank_stays:
  assumes "vp_images p t = Some (Blank u)" "vp_warm p \<noteq> Some t" "list_all asks ops"
  shows "vp_images (foldl pool_step p ops) t = Some (Blank u) \<and> vp_warm (foldl pool_step p ops) \<noteq> Some t"
  using assms
proof (induction ops arbitrary: p)
  case (Cons op ops)
  have "vp_images (pool_step p op) t = Some (Blank u) \<and> vp_warm (pool_step p op) \<noteq> Some t"
  proof (cases op)
    case (Ensure e t')
    then show ?thesis using blank_ensure [OF Cons.prems(1,2), of e t'] by (cases "ensure_vm_for e t' p") auto
  next
    case (Registers path)
    then show ?thesis using Cons.prems(1,2)
      by (auto simp: guest_registers_def split: option.splits image.splits)
  qed (use Cons.prems(3) in simp)
  then show ?case using Cons.IH Cons.prems(3) by simp
qed simp

text \<open>
  A first boot that fails after the hypervisor was started locks the tenant out of the worker.
  The image file exists then but was never formatted; every later boot takes it for one in use,
  asks the guest to mount it, and fails, whatever happens in between, until the worker restarts.
\<close>

theorem half_created_image_locks_out:
  assumes "vp_images p t = None" "vp_warm p \<noteq> Some t" "be_dir_ok e" "be_boot e = NotReady \<or> be_boot e = ExecFailed"
    and "fst (allocate t (vp_uids p)) = Ok uid" "list_all asks ops"
  shows "\<not> (\<exists>h. fst (ensure_vm_for e' t (foldl pool_step (snd (ensure_vm_for e t p)) ops)) = Ok h)"
proof -
  obtain uids where al: "allocate t (vp_uids p) = (Ok uid, uids)" using assms(5) by (metis prod.collapse)
  have "boot_vm e t (evict p) = (Err [OpaqueCause ''booting the VM failed''],
      (evict p)\<lparr>vp_uids := uids, vp_images := (vp_images p)(t \<mapsto> Blank uid)\<rparr>)"
    using assms(1,3,4) al by (auto simp: boot_vm_def launcher_boot_def image_created_def)
  then have "vp_images (snd (ensure_vm_for e t p)) t = Some (Blank uid) \<and> vp_warm (snd (ensure_vm_for e t p)) \<noteq> Some t"
    using assms(2) by (simp add: ensure_eq)
  then have "vp_images (foldl pool_step (snd (ensure_vm_for e t p)) ops) t = Some (Blank uid) \<and>
      vp_warm (foldl pool_step (snd (ensure_vm_for e t p)) ops) \<noteq> Some t"
    using blank_stays assms(6) by blast
  then show ?thesis
    using blank_ensure [of _ t uid e' t] by (metis prod.collapse)
qed

subsection \<open>A worker with one tenant\<close>

definition ex_pool :: vm_pool where
  "ex_pool = \<lparr>vp_state_dir = ''/v'', vp_warm = None, vp_keys = Map.empty,
     vp_uids = \<lparr>ua_ceiling = 2001, ua_next = 2000, ua_free = [], ua_assigned = Map.empty\<rparr>, vp_images = Map.empty\<rparr>"

definition ex_boot :: "boot_result \<Rightarrow> boot_env" where
  "ex_boot r = \<lparr>be_alive = True, be_dir_ok = True, be_boot = r, be_control = Answered,
     be_tools = \<lparr>gt_modprobe = True, gt_cryptsetup = True, gt_mkfs = True, gt_mount = True\<rparr>, be_random = [7], be_removed = True\<rparr>"

lemma ex_pool_new: "pool_new ''/v'' ''0 0 2001'' = Ok ex_pool"
  by (simp add: pool_new_def ex_uid_new ex_pool_def)

theorem vm_pool_isolates_tenants_witness:
  "\<exists>h p'. ensure_vm_for (ex_boot Booted) (TenantId ''a'') (foldl pool_step ex_pool []) = (Ok h, p') \<and> vh_fresh h \<and>
     vp_images p' (TenantId ''a'') = Some (Formatted 2000 [7] [])"
proof -
  let ?r = "ensure_vm_for (ex_boot Booted) (TenantId ''a'') (foldl pool_step ex_pool [])"
  have r: "\<exists>h p'. ?r = (Ok h, p') \<and> vh_fresh h"
    by (simp add: ensure_vm_for_def boot_vm_def ex_boot_def ex_pool_def allocate_def launcher_boot_def image_created_def
        push_key_def unlock_and_mount_def Let_def)
  then obtain h p' where hp: "?r = (Ok h, p')" "vh_fresh h" by blast
  moreover have "vp_images (snd ?r) (TenantId ''a'') = Some (Formatted 2000 [7] [])"
    by (simp add: ensure_vm_for_def boot_vm_def ex_boot_def ex_pool_def allocate_def launcher_boot_def image_created_def
        push_key_def unlock_and_mount_def Let_def)
  ultimately show ?thesis
    using vm_pool_isolates_tenants [OF ex_pool_new refl hp(1)] by auto
qed

theorem half_created_image_locks_out_witness:
  "\<not> (\<exists>h. fst (ensure_vm_for (ex_boot Booted) (TenantId ''a'')
       (foldl pool_step (snd (ensure_vm_for (ex_boot NotReady) (TenantId ''a'') ex_pool)) [Ensure (ex_boot Booted) (TenantId ''a'')])) = Ok h)"
  by (rule half_created_image_locks_out [where uid = 2000]) (simp_all add: ex_pool_def ex_boot_def allocate_def)

end
