(* ===== verification/GuestAgent.thy ===== *)
theory GuestAgent
  imports Vm
begin

text \<open>
  The agent inside of a tenant's machine (\<open>guest-agent/src\<close> with its kernel programs in
  \<open>guest-agent-ebpf/src/main.rs\<close>) and the worker's calls to it (\<open>worker/src/vm.rs\<close>). The
  detection of exhausted resources is a state machine: the kernel, the poller, the worker's reset
  and its question interleave. The lemmas show what a status can be trusted for, the two races in
  which it cannot, that unlocking runs exactly the commands it needs, and that the relay between
  worker and daemon copies every byte.
\<close>

subsection \<open>Kernel programs\<close>

datatype guest_status = StatusNone | StatusDiskFull | StatusOutOfMemory bool

datatype poller = Sleeping u32 | Resolving u32

record detection =
  dt_oom_victim_pid :: u32
  dt_enospc_flag :: u32
  dt_oom_attribution :: "bool option"
  dt_poller :: poller

definition ENOSPC :: int where
  "ENOSPC = 28"

definition oom_mark_victim :: "u32 \<Rightarrow> detection \<Rightarrow> detection" where
  "oom_mark_victim pid d = d\<lparr>dt_oom_victim_pid := pid\<rparr>"

definition vfs_write_ret :: "64 word \<Rightarrow> detection \<Rightarrow> detection" where
  "vfs_write_ret ret d = (if sint ret = - ENOSPC then d\<lparr>dt_enospc_flag := 1\<rparr> else d)"

definition errseq_set :: "32 word \<Rightarrow> detection \<Rightarrow> detection" where
  "errseq_set err d = (if sint err = - ENOSPC then d\<lparr>dt_enospc_flag := 1\<rparr> else d)"

subsection \<open>The detection state\<close>

datatype failure_detected = FsNone | FsOutOfMemory bool | FsDiskFull

definition detection_status :: "detection \<Rightarrow> failure_detected" where
  "detection_status d =
     (case dt_oom_attribution d of
        Some builder_victim \<Rightarrow> FsOutOfMemory builder_victim
      | None \<Rightarrow> if dt_enospc_flag d \<noteq> 0 then FsDiskFull else FsNone)"

fun to_guest_status :: "failure_detected \<Rightarrow> guest_status" where
  "to_guest_status FsNone = StatusNone"
| "to_guest_status (FsOutOfMemory builder_victim) = StatusOutOfMemory builder_victim"
| "to_guest_status FsDiskFull = StatusDiskFull"

text \<open>The three writes of \<open>reset\<close>, each of which others may come in between of.\<close>

definition reset_pid :: "detection \<Rightarrow> detection" where
  "reset_pid d = d\<lparr>dt_oom_victim_pid := 0\<rparr>"

definition reset_attribution :: "detection \<Rightarrow> detection" where
  "reset_attribution d = d\<lparr>dt_oom_attribution := None\<rparr>"

definition reset_enospc :: "detection \<Rightarrow> detection" where
  "reset_enospc d = d\<lparr>dt_enospc_flag := 0\<rparr>"

definition detection_reset :: "bool \<Rightarrow> bool \<Rightarrow> detection \<Rightarrow> (string, unit) res \<times> detection" where
  "detection_reset pid_ok flag_ok d =
     (if \<not> pid_ok then (Err ''resetting OOM_VICTIM_PID'', d)
      else let d = reset_attribution (reset_pid d)
           in if \<not> flag_ok then (Err ''resetting ENOSPC_FLAG'', d) else (Ok (), reset_enospc d))"

text \<open>One round of the poller: reading the map, and storing the answer about the victim's cgroup.\<close>

definition poll_read :: "detection \<Rightarrow> detection" where
  "poll_read d =
     (case dt_poller d of
        Resolving pid \<Rightarrow> d
      | Sleeping last_seen \<Rightarrow>
          (let pid = dt_oom_victim_pid d in
           if pid = 0 then d\<lparr>dt_poller := Sleeping 0\<rparr>
           else if pid \<noteq> last_seen then d\<lparr>dt_poller := Resolving pid\<rparr>
           else d))"

definition poll_resolve :: "bool \<Rightarrow> detection \<Rightarrow> detection" where
  "poll_resolve builder_victim d =
     (case dt_poller d of
        Sleeping last_seen \<Rightarrow> d
      | Resolving pid \<Rightarrow> d\<lparr>dt_oom_attribution := Some builder_victim, dt_poller := Sleeping pid\<rparr>)"

definition is_in_build_cgroup :: "string option \<Rightarrow> u32 \<Rightarrow> bool" where
  "is_in_build_cgroup procs pid =
     (case procs of
        None \<Rightarrow> False
      | Some contents \<Rightarrow> list_ex (\<lambda>line. trim line = show_nat (unat pid)) (str_lines contents))"

text \<open>What happens in the guest while a build runs, and the reset the worker asks for.\<close>

datatype guest_event =
    Victim u32
  | WriteReturned "64 word"
  | WritebackError "32 word"
  | PollRead
  | PollResolve bool

inductive guest_step :: "detection \<Rightarrow> guest_event \<Rightarrow> detection \<Rightarrow> bool" where
  victim: "pid \<noteq> 0 \<Longrightarrow> guest_step d (Victim pid) (oom_mark_victim pid d)"
| write_returned: "guest_step d (WriteReturned ret) (vfs_write_ret ret d)"
| writeback_error: "guest_step d (WritebackError err) (errseq_set err d)"
| poll_read: "dt_poller d = Sleeping last_seen \<Longrightarrow> guest_step d PollRead (poll_read d)"
| poll_resolve: "dt_poller d = Resolving pid \<Longrightarrow> guest_step d (PollResolve b) (poll_resolve b d)"

inductive guest_run :: "detection \<Rightarrow> guest_event list \<Rightarrow> detection \<Rightarrow> bool" where
  start: "guest_run d [] d"
| more: "guest_run d es d' \<Longrightarrow> guest_step d' e d'' \<Longrightarrow> guest_run d (es @ [e]) d''"

inductive_cases guest_stepE: "guest_step d e d'"
inductive_simps guest_step_simps:
  "guest_step d (Victim pid) d'" "guest_step d (WriteReturned ret) d'" "guest_step d (WritebackError err) d'"
  "guest_step d PollRead d'" "guest_step d (PollResolve b) d'"

definition detection_start :: detection where
  "detection_start = \<lparr>dt_oom_victim_pid = 0, dt_enospc_flag = 0, dt_oom_attribution = None, dt_poller = Sleeping 0\<rparr>"

subsection \<open>The control channel\<close>

record control_context =
  cc_detection :: "detection option"
  cc_substituters :: "(string \<times> string) list"
  cc_extra_ca :: bytes

definition handle_push_key :: "guest_tools \<Rightarrow> bytes \<Rightarrow> bool \<Rightarrow> image \<Rightarrow> (string, unit) res \<times> image" where
  "handle_push_key tools key fresh im = unlock_and_mount tools key fresh im"

definition handle_push_substituters :: "(string \<times> string) list \<Rightarrow> control_context \<Rightarrow> (string, unit) res \<times> control_context" where
  "handle_push_substituters entries c = (Ok (), c\<lparr>cc_substituters := entries\<rparr>)"

definition handle_push_ca_cert :: "bytes \<Rightarrow> control_context \<Rightarrow> (string, unit) res \<times> control_context" where
  "handle_push_ca_cert pem c = (Ok (), c\<lparr>cc_extra_ca := pem\<rparr>)"

definition count_nested_virt_flags_str :: "string \<Rightarrow> u32" where
  "count_nested_virt_flags_str cpuinfo =
     of_nat (length (filter (\<lambda>line. contains_sub ''vmx'' line \<or> contains_sub ''svm'' line) (str_lines cpuinfo)))"

definition handle_caps :: "(string, string) res \<Rightarrow> (string, u32) res" where
  "handle_caps cpuinfo = bind_res cpuinfo (\<lambda>text. Ok (count_nested_virt_flags_str text))"

definition handle_status :: "control_context \<Rightarrow> (string, guest_status) res" where
  "handle_status c =
     bind_res (ok_or ''eBPF detection not available'' (cc_detection c)) (\<lambda>d. Ok (to_guest_status (detection_status d)))"

definition handle_reset :: "bool \<Rightarrow> bool \<Rightarrow> control_context \<Rightarrow> (string, unit) res \<times> control_context" where
  "handle_reset pid_ok flag_ok c =
     (case cc_detection c of
        None \<Rightarrow> (Err ''eBPF detection not available'', c)
      | Some d \<Rightarrow> (case detection_reset pid_ok flag_ok d of (r, d) \<Rightarrow> (r, c\<lparr>cc_detection := Some d\<rparr>)))"

text \<open>A call of the worker: it may not reach the agent, lose the answer, or be answered.\<close>

definition control_call :: "control \<Rightarrow> string \<Rightarrow> ((string, 'a) res \<times> control_context) \<Rightarrow> control_context \<Rightarrow> (report, 'a) res \<times> control_context" where
  "control_call ctl what answer c =
     (case ctl of
        Unreachable \<Rightarrow> (Err [OpaqueCause ''connecting for the control channel''], c)
      | ReplyLost \<Rightarrow> (Err [OpaqueCause (''control RPC failed '' @ what)], snd answer)
      | Answered \<Rightarrow> (map_err (\<lambda>msg. [OpaqueCause (''guest-agent rejected '' @ what @ '': '' @ msg)]) (fst answer), snd answer))"

definition push_substituters :: "control \<Rightarrow> (string \<times> string) list \<Rightarrow> control_context \<Rightarrow> (report, unit) res \<times> control_context" where
  "push_substituters ctl subs c = control_call ctl ''trusted substituters'' (handle_push_substituters subs c) c"

definition push_ca_cert :: "control \<Rightarrow> bytes \<Rightarrow> control_context \<Rightarrow> (report, unit) res \<times> control_context" where
  "push_ca_cert ctl pem c = control_call ctl ''the extra CA cert'' (handle_push_ca_cert pem c) c"

definition reset_job_status :: "control \<Rightarrow> bool \<Rightarrow> bool \<Rightarrow> control_context \<Rightarrow> (report, unit) res \<times> control_context" where
  "reset_job_status ctl pid_ok flag_ok c = control_call ctl ''RESET'' (handle_reset pid_ok flag_ok c) c"

definition query_status :: "control \<Rightarrow> control_context \<Rightarrow> (report, guest_status) res \<times> control_context" where
  "query_status ctl c = control_call ctl ''STATUS?'' (handle_status c, c) c"

subsection \<open>Serving a connection\<close>

definition nix_config :: "(string \<times> string) list \<Rightarrow> string" where
  "nix_config subs =
     ''pasta-path ='' @ [newline] @ ''experimental-features = auto-allocate-uids cgroups'' @ [newline] @
     ''auto-allocate-uids = true'' @ [newline] @ ''use-cgroups = true'' @
     (if subs = [] then []
      else [newline] @ ''substituters = '' @ join_with '' '' (map fst subs) @
           [newline] @ ''trusted-public-keys = '' @ join_with '' '' (map snd subs))"

definition BAKED_CA_BUNDLE :: string where
  "BAKED_CA_BUNDLE = ''/etc/ssl/certs/ca-bundle.crt''"

definition MERGED_CA_BUNDLE :: string where
  "MERGED_CA_BUNDLE = ''/tmp/kubernix-extra-ca-bundle.crt''"

definition merged_ca_bundle_path :: "bytes \<Rightarrow> (string \<rightharpoonup> bytes) \<Rightarrow> bool \<Rightarrow> (report, string) res \<times> (string \<rightharpoonup> bytes)" where
  "merged_ca_bundle_path extra_ca files writable =
     (if extra_ca = [] then (Ok BAKED_CA_BUNDLE, files)
      else case files BAKED_CA_BUNDLE of
        None \<Rightarrow> (Err [OpaqueCause ''reading the baked-in CA bundle''], files)
      | Some baked \<Rightarrow>
          if \<not> writable then (Err [OpaqueCause ''writing the merged CA bundle''], files)
          else (Ok MERGED_CA_BUNDLE, files(MERGED_CA_BUNDLE \<mapsto> baked @ [10] @ extra_ca)))"

text \<open>The daemon of one connection starts with what was pushed last.\<close>

definition spawn_nix_daemon :: "control_context \<Rightarrow> (string \<rightharpoonup> bytes) \<Rightarrow> bool \<Rightarrow> (report, (string \<times> string) list) res \<times> (string \<rightharpoonup> bytes)" where
  "spawn_nix_daemon c files writable =
     (case merged_ca_bundle_path (cc_extra_ca c) files writable of
        (r, files) \<Rightarrow>
          (bind_res r (\<lambda>bundle. Ok [(''NIX_CONFIG'', nix_config (cc_substituters c)), (''HOME'', ''/tmp''), (''SSL_CERT_FILE'', bundle)]), files))"

text \<open>
  One direction of the relay: what each read returns, and whether the write after it succeeds. A
  reader with nothing more to say blocks.
\<close>

fun copy_and_log :: "((string, bytes) res \<times> bool) list \<Rightarrow> u64 \<Rightarrow> bytes \<Rightarrow> ((string, u64) res \<times> bytes) option" where
  "copy_and_log [] sofar out = None"
| "copy_and_log ((Err e, w) # rest) sofar out = Some (Err ''reading'', out)"
| "copy_and_log ((Panic, w) # rest) sofar out = Some (Panic, out)"
| "copy_and_log ((Ok chunk, w) # rest) sofar out =
     (if chunk = [] then Some (Ok sofar, out)
      else if \<not> w then Some (Err ''writing'', out)
      else copy_and_log rest (sofar + of_nat (length chunk)) (out @ chunk))"

subsection \<open>Commands\<close>

datatype guest_cmd = Mkdir string | Exec string "string list"

definition RAW_DEVICE :: string where "RAW_DEVICE = ''/dev/vda''"
definition DM_NAME :: string where "DM_NAME = ''tenant-store''"
definition STORE_MOUNT :: string where "STORE_MOUNT = ''/nix/store''"
definition STORE_LOWER :: string where "STORE_LOWER = ''/mnt/store-lower''"
definition STORE_RAW :: string where "STORE_RAW = ''/mnt/store-raw''"

definition cryptsetup_open :: guest_cmd where
  "cryptsetup_open =
     Exec ''/bin/cryptsetup'' [''open'', ''--type'', ''plain'', ''--cipher'', ''aes-xts-plain64'', ''--key-size'', ''256'',
       ''--key-file'', ''-'', RAW_DEVICE, DM_NAME]"

definition mkfs_ext4 :: guest_cmd where
  "mkfs_ext4 = Exec ''/bin/mkfs.ext4'' [''-q'', ''/dev/mapper/'' @ DM_NAME]"

definition modprobe :: guest_cmd where
  "modprobe = Exec ''/sbin/modprobe'' [''dm-crypt'']"

definition mount_device :: guest_cmd where
  "mount_device = Exec ''/bin/mount'' [''-t'', ''ext4'', ''/dev/mapper/'' @ DM_NAME, STORE_RAW]"

definition mount_store :: "guest_cmd list" where
  "mount_store =
     [Mkdir STORE_LOWER, Exec ''/bin/mount'' [''--bind'', STORE_MOUNT, STORE_LOWER], Mkdir STORE_RAW, mount_device,
      Mkdir (STORE_RAW @ ''/upper''), Mkdir (STORE_RAW @ ''/work''),
      Exec ''/bin/mount'' [''-t'', ''overlay'', ''overlay'', ''-o'',
        ''lowerdir='' @ STORE_LOWER @ '',upperdir='' @ STORE_RAW @ ''/upper,workdir='' @ STORE_RAW @ ''/work'', STORE_MOUNT],
      Mkdir (STORE_RAW @ ''/b''), Mkdir ''/nix/var/nix/b'', Exec ''/bin/mount'' [''--bind'', STORE_RAW @ ''/b'', ''/nix/var/nix/b''],
      Mkdir (STORE_RAW @ ''/db''), Mkdir ''/nix/var/nix/db'', Exec ''/bin/mount'' [''--bind'', STORE_RAW @ ''/db'', ''/nix/var/nix/db'']]"

definition unlock_cmds :: "bool \<Rightarrow> guest_cmd list" where
  "unlock_cmds fresh = [modprobe, cryptsetup_open] @ (if fresh then [mkfs_ext4] else []) @ mount_store"

definition configure_network :: "guest_cmd list" where
  "configure_network =
     [Exec ''/bin/ip'' [''link'', ''set'', ''eth0'', ''up''],
      Exec ''/bin/ip'' [''addr'', ''add'', ''10.42.100.2/24'', ''dev'', ''eth0''],
      Exec ''/bin/ip'' [''route'', ''add'', ''default'', ''via'', ''10.42.100.1'']]"

text \<open>Commands run one after the other; the first that fails ends the sequence.\<close>

fun run_cmds :: "(guest_cmd \<Rightarrow> 'g \<Rightarrow> bool \<times> 'g) \<Rightarrow> guest_cmd list \<Rightarrow> 'g \<Rightarrow> bool \<times> 'g" where
  "run_cmds exec [] g = (True, g)"
| "run_cmds exec (c # cs) g = (case exec c g of (ok, g) \<Rightarrow> if ok then run_cmds exec cs g else (False, g))"

text \<open>What the tools of the guest do to the disk: only making a file system changes it.\<close>

definition exec_on :: "guest_tools \<Rightarrow> bytes \<Rightarrow> guest_cmd \<Rightarrow> image \<Rightarrow> bool \<times> image" where
  "exec_on tools key c im =
     (if c = modprobe then (gt_modprobe tools, im)
      else if c = cryptsetup_open then (gt_cryptsetup tools, im)
      else if c = mkfs_ext4 then (gt_mkfs tools, if gt_mkfs tools then Formatted (im_owner im) key [] else im)
      else if c = mount_device then (gt_mount tools \<and> mountable key im, im)
      else (gt_mount tools, im))"

subsection \<open>What a status says about a build\<close>

lemmas guest_defs = oom_mark_victim_def vfs_write_ret_def errseq_set_def poll_read_def poll_resolve_def Let_def

text \<open>A write that the disk had no room for.\<close>

fun disk_full :: "guest_event \<Rightarrow> bool" where
  "disk_full (WriteReturned ret) = (sint ret = - ENOSPC)"
| "disk_full (WritebackError err) = (sint err = - ENOSPC)"
| "disk_full _ = False"

lemma step_enospc: "guest_step d e d' \<Longrightarrow> dt_enospc_flag d' \<noteq> 0 \<longleftrightarrow> dt_enospc_flag d \<noteq> 0 \<or> disk_full e"
  by (erule guest_stepE) (auto simp: guest_defs split: poller.splits)

lemma run_enospc: "guest_run d es d' \<Longrightarrow> dt_enospc_flag d' \<noteq> 0 \<longleftrightarrow> dt_enospc_flag d \<noteq> 0 \<or> (\<exists>e \<in> set es. disk_full e)"
  by (induction rule: guest_run.induct) (auto dest: step_enospc)

text \<open>Where the attribution, the poller and the map get what they hold from.\<close>

definition scoped :: "guest_event list \<Rightarrow> detection \<Rightarrow> bool" where
  "scoped es d \<longleftrightarrow>
     (\<forall>b. dt_oom_attribution d = Some b \<longrightarrow> (\<exists>pid. Victim pid \<in> set es) \<and> PollResolve b \<in> set es) \<and>
     (\<forall>pid. dt_poller d = Resolving pid \<longrightarrow> Victim pid \<in> set es) \<and>
     (dt_oom_victim_pid d \<noteq> 0 \<longrightarrow> Victim (dt_oom_victim_pid d) \<in> set es)"

lemma scoped_step: "guest_step d e d' \<Longrightarrow> scoped es d \<Longrightarrow> scoped (es @ [e]) d'"
  by (erule guest_stepE) (auto simp: guest_defs scoped_def split: if_splits)

lemma scoped_run: "guest_run d es d' \<Longrightarrow> scoped [] d \<Longrightarrow> scoped es d'"
  by (induction rule: guest_run.induct) (auto intro: scoped_step)

lemma reset_scoped: "detection_reset True True d = (Ok (), d') \<Longrightarrow> dt_poller d = Sleeping l \<Longrightarrow> scoped [] d' \<and> dt_enospc_flag d' = 0"
  by (auto simp: detection_reset_def reset_pid_def reset_attribution_def reset_enospc_def scoped_def Let_def)

text \<open>
  C21: After a reset that finds the poller between two rounds, the status of the guest speaks of what
  happened since: an exhausted memory only after a process was killed and its group was looked up, with
  that answer, a full disk only after a write failed for lack of room, and nothing only if no write did.
\<close>

theorem status_scoped_to_build:
  assumes "dt_poller d = Sleeping last_seen" and "detection_reset True True d = (Ok (), d0)" and "guest_run d0 es d'"
  shows "case to_guest_status (detection_status d') of
      StatusOutOfMemory b \<Rightarrow> (\<exists>pid. Victim pid \<in> set es) \<and> PollResolve b \<in> set es
    | StatusDiskFull \<Rightarrow> (\<exists>e \<in> set es. disk_full e)
    | StatusNone \<Rightarrow> (\<forall>e \<in> set es. \<not> disk_full e)"
proof -
  have "scoped [] d0" "dt_enospc_flag d0 = 0" using reset_scoped [OF assms(2,1)] by simp_all
  then have "scoped es d'" "dt_enospc_flag d' \<noteq> 0 \<longleftrightarrow> (\<exists>e \<in> set es. disk_full e)"
    using scoped_run [OF assms(3)] run_enospc [OF assms(3)] by simp_all
  then show ?thesis by (auto simp: detection_status_def scoped_def split: option.split)
qed

lemma guest_run_one: "guest_step d e d' \<Longrightarrow> guest_run d [e] d'"
  using guest_run.more [OF guest_run.start] by simp

theorem status_scoped_to_build_witness:
  "\<exists>d'. guest_run (reset_enospc (reset_attribution (reset_pid detection_start))) [WriteReturned (- 28)] d' \<and>
     to_guest_status (detection_status d') = StatusDiskFull \<and> (\<exists>e \<in> set [WriteReturned (- 28)]. disk_full e)"
proof -
  let ?d0 = "reset_enospc (reset_attribution (reset_pid detection_start))"
  have r: "detection_reset True True detection_start = (Ok (), ?d0)" by (simp add: detection_reset_def)
  have run: "guest_run ?d0 [WriteReturned (- 28)] (vfs_write_ret (- 28) ?d0)"
    by (rule guest_run_one) (rule guest_step.write_returned)
  have "vfs_write_ret (- 28) d = d\<lparr>dt_enospc_flag := 1\<rparr>" for d by (simp add: vfs_write_ret_def ENOSPC_def)
  then have s: "to_guest_status (detection_status (vfs_write_ret (- 28) ?d0)) = StatusDiskFull"
    by (simp add: reset_enospc_def reset_attribution_def reset_pid_def detection_start_def detection_status_def)
  have "dt_poller detection_start = Sleeping 0" by (simp add: detection_start_def)
  from status_scoped_to_build [OF this r run] have "\<exists>e \<in> set [WriteReturned (- 28)]. disk_full e"
    unfolding s by (simp only: guest_status.case)
  then show ?thesis using run s by blast
qed

subsection \<open>Commands and the disk\<close>

lemma cmds_distinct [simp]:
  "cryptsetup_open \<noteq> modprobe" "mkfs_ext4 \<noteq> modprobe" "mkfs_ext4 \<noteq> cryptsetup_open" "mount_device \<noteq> modprobe"
  "mount_device \<noteq> cryptsetup_open" "mount_device \<noteq> mkfs_ext4"
  by (simp_all add: modprobe_def cryptsetup_open_def mkfs_ext4_def mount_device_def)

lemma exec_on_simps [simp]:
  "exec_on tools key modprobe im = (gt_modprobe tools, im)"
  "exec_on tools key cryptsetup_open im = (gt_cryptsetup tools, im)"
  "exec_on tools key mkfs_ext4 im = (gt_mkfs tools, if gt_mkfs tools then Formatted (im_owner im) key [] else im)"
  "exec_on tools key mount_device im = (gt_mount tools \<and> mountable key im, im)"
  "exec_on tools key (Mkdir dir) im = (gt_mount tools, im)"
  by (simp_all add: exec_on_def) (simp_all add: modprobe_def cryptsetup_open_def mkfs_ext4_def mount_device_def)

lemma exec_on_mounts [simp]:
  "exec_on tools key (Exec ''/bin/mount'' (''--bind'' # rest)) im = (gt_mount tools, im)"
  "exec_on tools key (Exec ''/bin/mount'' (''-t'' # ''overlay'' # rest)) im = (gt_mount tools, im)"
  by (simp_all add: exec_on_def modprobe_def cryptsetup_open_def mkfs_ext4_def mount_device_def)

lemma mount_store_run: "run_cmds (exec_on tools key) mount_store im = (gt_mount tools \<and> mountable key im, im)"
  by (cases "gt_mount tools"; cases "mountable key im") (simp_all add: mount_store_def)

text \<open>
  Unlocking a disk, command by command, does what the pool relies on: it succeeds exactly when
  every tool works and the disk holds a file system under the pushed key, it makes a new file system
  exactly when it was told that the disk is fresh, and a failure before that leaves the disk as it was.
\<close>

theorem unlock_refines:
  "run_cmds (exec_on tools key) (unlock_cmds fresh) im =
    (fst (unlock_and_mount tools key fresh im) = Ok (), snd (unlock_and_mount tools key fresh im))"
  by (cases "gt_modprobe tools"; cases "gt_cryptsetup tools"; cases "gt_mkfs tools"; cases fresh)
    (simp_all add: unlock_cmds_def unlock_and_mount_def mount_store_run Let_def)

subsection \<open>The relay\<close>

lemma copy_and_log_Ok:
  "copy_and_log reads sofar out = Some (Ok n, out') \<Longrightarrow>
   \<exists>chunks w rest. reads = map (\<lambda>c. (Ok c, True)) chunks @ (Ok [], w) # rest \<and> [] \<notin> set chunks \<and>
     out' = out @ concat chunks \<and> n = sofar + of_nat (length (concat chunks))"
proof (induction reads sofar out rule: copy_and_log.induct)
  case (4 chunk w rest sofar out)
  show ?case
  proof (cases "chunk = []")
    case True
    then show ?thesis using "4.prems" by (intro exI [of _ "[]"]) auto
  next
    case False
    then have w: "w" using "4.prems" by (auto split: if_splits)
    then obtain chunks v rest' where "rest = map (\<lambda>c. (Ok c, True)) chunks @ (Ok [], v) # rest'" "[] \<notin> set chunks"
        "out' = (out @ chunk) @ concat chunks" "n = sofar + of_nat (length chunk) + of_nat (length (concat chunks))"
      using 4 False by auto
    then show ?thesis using False w by (intro exI [of _ "chunk # chunks"]) (auto simp: algebra_simps)
  qed
qed auto

subsection \<open>What the next daemon sees\<close>

text \<open>
  A daemon that is started after the two pushes of a job trusts exactly the substituters of that
  job, and its certificates are the baked-in ones followed by the pushed ones, whatever an earlier
  job of the tenant had left.
\<close>

lemma daemon_sees_last_push:
  assumes "push_substituters Answered subs c = (Ok (), c1)" and "push_ca_cert Answered pem c1 = (Ok (), c2)"
    and "files BAKED_CA_BUNDLE = Some baked"
  shows "\<exists>bundle files'. spawn_nix_daemon c2 files True =
      (Ok [(''NIX_CONFIG'', nix_config subs), (''HOME'', ''/tmp''), (''SSL_CERT_FILE'', bundle)], files') \<and>
    files' bundle = Some (if pem = [] then baked else baked @ [10] @ pem)"
  using assms
  by (auto simp: push_substituters_def push_ca_cert_def control_call_def handle_push_substituters_def handle_push_ca_cert_def
      spawn_nix_daemon_def merged_ca_bundle_path_def)

end
