(* ===== verification/Http.thy ===== *)
theory Http
  imports Substitute MemoryStore PostgresActor
begin

text \<open>
  The binary cache over HTTP (\<open>crates/server/src/http.rs\<close>): the routes, and for each
  route its handler over the store's operations. A request is the list of its decoded path
  segments. What the object store answers (a pre-signed URL, the bytes of an object) is a
  parameter of the environment, as are the upstream caches and the cryptography.
\<close>

record http_state =
  he_presign_get :: "object_key \<Rightarrow> string option"
  he_get_object :: "object_key \<Rightarrow> bytes option"
  he_has_uploader :: bool
  he_store_dir :: string
  he_priority :: u32
  he_web :: web
  he_sha :: "bytes \<Rightarrow> bytes"
  he_crypto :: crypto
  he_seed :: bytes

datatype response =
    Response (rs_status: nat) (rs_type: "string option") (rs_body: string)
  | RedirectTo string

definition plain_response :: "nat \<Rightarrow> string \<Rightarrow> response" where
  "plain_response status body = Response status None (body @ [newline])"

abbreviation not_found :: response where
  "not_found \<equiv> plain_response 404 ''not found''"

definition no_object_store :: response where
  "no_object_store = plain_response 503 ''no object store''"

definition tenant_of :: "string \<Rightarrow> (response, tenant_id) res" where
  "tenant_of raw = ok_or (plain_response 404 ''unknown tenant'') (from_wire raw)"

definition cache_info :: "http_state \<Rightarrow> response" where
  "cache_info env = Response 200 (Some ''text/x-nix-cache-info'')
     (''StoreDir: '' @ he_store_dir env @ [newline] @ ''WantMassQuery: 1'' @ [newline] @
      ''Priority: '' @ show_nat (unat (he_priority env)) @ [newline])"

definition nix_cache_info :: "http_state \<Rightarrow> string \<Rightarrow> response" where
  "nix_cache_info env tenant = (case tenant_of tenant of Ok _ \<Rightarrow> cache_info env | Err r \<Rightarrow> r | Panic \<Rightarrow> not_found)"

definition with_tenant :: "string \<Rightarrow> (tenant_id \<Rightarrow> 's \<Rightarrow> response \<times> 's) \<Rightarrow> 's \<Rightarrow> response \<times> 's" where
  "with_tenant raw f st = (case tenant_of raw of Ok t \<Rightarrow> f t st | Err r \<Rightarrow> (r, st) | Panic \<Rightarrow> (not_found, st))"

definition public_key_route :: "'s store_ops \<Rightarrow> http_state \<Rightarrow> string \<Rightarrow> 's \<times> objects \<Rightarrow> response \<times> 's \<times> objects" where
  "public_key_route ops env tenant = with_tenant tenant (\<lambda>t (s, objs).
     case op_signer ops t (he_seed env) s of
       (Some signer, s) \<Rightarrow> (Response 200 (Some ''text/plain'') (public_key_string (he_crypto env) signer @ [newline]), s, objs)
     | (None, s) \<Rightarrow> (plain_response 500 ''no signing key'', s, objs))"

definition narinfo_response :: "http_state \<Rightarrow> path_info \<Rightarrow> remote_object \<Rightarrow> response" where
  "narinfo_response env info remote = Response 200 (Some ''text/x-nix-narinfo'')
     (render_narinfo info (ro_key remote) (ro_file_size remote) (ro_file_hash remote) (ro_compression remote) (he_store_dir env))"

definition narinfo :: "'s store_ops \<Rightarrow> http_state \<Rightarrow> string \<Rightarrow> string \<Rightarrow> 's \<times> objects \<Rightarrow> response \<times> 's \<times> objects" where
  "narinfo ops env tenant file = with_tenant tenant (\<lambda>t (s, objs).
     case strip_suffix ''.narinfo'' file of
       None \<Rightarrow> (not_found, s, objs)
     | Some hash \<Rightarrow>
       (case op_query_path_from_hash_part ops t hash s of
          None \<Rightarrow> (not_found, s, objs)
        | Some path \<Rightarrow>
          (case op_query_path_info ops t path s of
             None \<Rightarrow> (not_found, s, objs)
           | Some info \<Rightarrow>
             (if \<not> (case op_tier ops t path s of Some ti \<Rightarrow> is_vouchable ti | None \<Rightarrow> False) then (not_found, s, objs)
              else case op_output_object ops t path s of
                     None \<Rightarrow> (not_found, s, objs)
                   | Some remote \<Rightarrow> (narinfo_response env info remote, op_record_access ops t path s, objs)))))"

definition bad_segment :: "string \<Rightarrow> bool" where
  "bad_segment file \<longleftrightarrow> CHR ''/'' \<in> set file \<or> contains_sub ''..'' file"

definition redirect_to_object :: "http_state \<Rightarrow> object_key \<Rightarrow> response" where
  "redirect_to_object env key =
     (case he_presign_get env key of Some url \<Rightarrow> RedirectTo url | None \<Rightarrow> plain_response 500 ''cannot serve'')"

definition nar :: "http_state \<Rightarrow> string \<Rightarrow> string \<Rightarrow> 's \<times> objects \<Rightarrow> response \<times> 's \<times> objects" where
  "nar env tenant file = with_tenant tenant (\<lambda>t st.
     if \<not> he_has_uploader env then (no_object_store, st)
     else if bad_segment file then (not_found, st)
     else (redirect_to_object env (ObjectKey (tid_str t @ ''/nar/'' @ file)), st))"

definition resolve_substituter :: "'s store_ops \<Rightarrow> tenant_id \<Rightarrow> string \<Rightarrow> 's \<Rightarrow> (string \<times> string) option" where
  "resolve_substituter ops t slug s = find (\<lambda>(url, _). slug_for url = slug) (op_trusted_substituters ops t s)"

definition upstream_nix_cache_info :: "'s store_ops \<Rightarrow> http_state \<Rightarrow> string \<Rightarrow> string \<Rightarrow> 's \<times> objects \<Rightarrow> response \<times> 's \<times> objects" where
  "upstream_nix_cache_info ops env tenant slug = with_tenant tenant (\<lambda>t (s, objs).
     (case resolve_substituter ops t slug s of
        None \<Rightarrow> plain_response 404 ''unknown substituter'' | Some _ \<Rightarrow> cache_info env, s, objs))"

definition cached_upstream :: "'s store_ops \<Rightarrow> tenant_id \<Rightarrow> string \<Rightarrow> string \<times> string \<Rightarrow> 's \<Rightarrow> (path_info \<times> remote_object) option" where
  "cached_upstream ops t hash source s =
     Option.bind (op_query_path_from_hash_part ops t hash s) (\<lambda>path.
     if op_substituted_source ops t path s = Some source then
       Option.bind (op_query_path_info ops t path s) (\<lambda>info.
       map_option (Pair info) (op_output_object ops t path s))
     else None)"

definition upstream_narinfo ::
  "'s store_ops \<Rightarrow> http_state \<Rightarrow> string \<Rightarrow> string \<Rightarrow> string \<Rightarrow> 's \<times> objects \<Rightarrow> response \<times> 's \<times> objects" where
  "upstream_narinfo ops env tenant slug file = with_tenant tenant (\<lambda>t (s, objs).
     case strip_suffix ''.narinfo'' file of
       None \<Rightarrow> (not_found, s, objs)
     | Some hash \<Rightarrow>
       (case resolve_substituter ops t slug s of
          None \<Rightarrow> (plain_response 404 ''unknown substituter'', s, objs)
        | Some (url, pk) \<Rightarrow>
          (case cached_upstream ops t hash (url, pk) s of
             Some (info, remote) \<Rightarrow> (narinfo_response env info remote, s, objs)
           | None \<Rightarrow>
             (if \<not> he_has_uploader env then (no_object_store, s, objs)
              else case resolve_from_one ops (he_web env) (he_sha env) t hash (he_store_dir env) url pk (s, objs) of
                     (Some (info, remote), st) \<Rightarrow> (narinfo_response env info remote, st)
                   | (None, st) \<Rightarrow> (not_found, st)))))"

definition upstream_nar ::
  "'s store_ops \<Rightarrow> http_state \<Rightarrow> string \<Rightarrow> string \<Rightarrow> string \<Rightarrow> 's \<times> objects \<Rightarrow> response \<times> 's \<times> objects" where
  "upstream_nar ops env tenant slug file = with_tenant tenant (\<lambda>t (s, objs).
     (case resolve_substituter ops t slug s of
        None \<Rightarrow> plain_response 404 ''unknown substituter''
      | Some _ \<Rightarrow>
          if \<not> he_has_uploader env then no_object_store
          else if bad_segment file then not_found
          else redirect_to_object env (ObjectKey (''substituted/'' @ slug @ ''/nar/'' @ file)), s, objs))"

definition log_route :: "http_state \<Rightarrow> string \<Rightarrow> string \<Rightarrow> 's \<times> objects \<Rightarrow> response \<times> 's \<times> objects" where
  "log_route env tenant drv_hash = with_tenant tenant (\<lambda>t st.
     if \<not> he_has_uploader env then (no_object_store, st)
     else if bad_segment drv_hash then (not_found, st)
     else case he_get_object env (ObjectKey (tid_str t @ ''/log/'' @ drv_hash)) of
            Some bs \<Rightarrow> (Response 200 (Some ''text/plain; charset=utf-8'') (from_bytes bs), st)
          | None \<Rightarrow> (not_found, st))"

text \<open>The router: literal segments win over parameters, anything else is an empty 404.\<close>

definition router :: "'s store_ops \<Rightarrow> http_state \<Rightarrow> string list \<Rightarrow> 's \<times> objects \<Rightarrow> response \<times> 's \<times> objects" where
  "router ops env segs st =
     (case segs of
        [t, f] \<Rightarrow>
          if f = ''nix-cache-info'' then (nix_cache_info env t, st)
          else if f = ''public-key'' then public_key_route ops env t st
          else narinfo ops env t f st
      | [t, d, f] \<Rightarrow>
          if d = ''nar'' then nar env t f st
          else if d = ''log'' then log_route env t f st
          else (Response 404 None [], st)
      | [t, u, slug, f] \<Rightarrow>
          if u = ''upstream'' then
            (if f = ''nix-cache-info'' then upstream_nix_cache_info ops env t slug st
             else upstream_narinfo ops env t slug f st)
          else (Response 404 None [], st)
      | [t, u, slug, d, f] \<Rightarrow>
          if u = ''upstream'' \<and> d = ''nar'' then upstream_nar ops env t slug f st else (Response 404 None [], st)
      | _ \<Rightarrow> (Response 404 None [], st))"

subsection \<open>What the cache serves\<close>

lemma with_tenant_cases:
  "with_tenant raw f st = (case from_wire raw of Some t \<Rightarrow> f t st | None \<Rightarrow> (plain_response 404 ''unknown tenant'', st))"
  by (simp add: with_tenant_def tenant_of_def split: option.splits)

text \<open>
  The tenant's own cache serves a narinfo only for what the frontend vouches for: whenever the
  route answers 200, the store holds that path for that tenant as built or verified, and the body
  is the narinfo of its recorded metadata and object. Quarantined and substituted paths are answered with 404.
\<close>

theorem narinfo_serves_vouchable:
  assumes "router ops env [tenant, hash @ ''.narinfo''] st = (Response 200 ty body, st')"
  shows "\<exists>t path info ti remote. from_wire tenant = Some t \<and> op_query_path_from_hash_part ops t hash (fst st) = Some path \<and>
    op_query_path_info ops t path (fst st) = Some info \<and> op_tier ops t path (fst st) = Some ti \<and> is_vouchable ti \<and>
    op_output_object ops t path (fst st) = Some remote \<and>
    body = render_narinfo info (ro_key remote) (ro_file_size remote) (ro_file_hash remote) (ro_compression remote) (he_store_dir env)"
proof -
  have "hash @ ''.narinfo'' \<noteq> ''nix-cache-info''" "hash @ ''.narinfo'' \<noteq> ''public-key''"
    by (auto dest!: arg_cong [where f = last])
  then have "narinfo ops env tenant (hash @ ''.narinfo'') st = (Response 200 ty body, st')"
    using assms by (simp add: router_def)
  then show ?thesis
    by (cases st)
       (auto simp: narinfo_def with_tenant_cases narinfo_response_def plain_response_def split: option.splits if_splits prod.splits)
qed

definition ex_env :: http_state where
  "ex_env = \<lparr>he_presign_get = (\<lambda>k. Some (''https://s3/'' @ key_str k)), he_get_object = (\<lambda>_. None), he_has_uploader = True,
     he_store_dir = ''/nix/store'', he_priority = 50, he_web = ex_web ex_info [], he_sha = toy_sha,
     he_crypto = example_crypto, he_seed = []\<rparr>"

definition ex_object :: "object_key \<Rightarrow> remote_object" where
  "ex_object k = \<lparr>ro_key = k, ro_file_size = 80, ro_file_hash = replicate 32 1, ro_compression = Zstd\<rparr>"

definition ex_store :: "tier \<Rightarrow> memory_store" where
  "ex_store ti = snd (ms_record_path (TenantId ''t'') ex_info (ex_object (the (nar_key (TenantId ''t'') ti (pi_path ex_info)))) ti ms_new)"

lemma ex_info_hash: "hash_part (pi_path ex_info) = Some ex_hash"
  by (simp add: ex_info_def hash_part_def base_name_def ex_hash_def)

lemma ex_tenant: "from_wire ''t'' = Some (TenantId ''t'')"
  by (simp add: from_wire_def tenant_char_def is_lower_def)

lemma ex_store_queries:
  "op_query_path_from_hash_part memory_ops (TenantId ''t'') ex_hash (ex_store ti) = Some (pi_path ex_info)"
  "op_query_path_info memory_ops (TenantId ''t'') (pi_path ex_info) (ex_store ti) = Some ex_info"
  "op_tier memory_ops (TenantId ''t'') (pi_path ex_info) (ex_store ti) = Some ti"
  "op_output_object memory_ops (TenantId ''t'') (pi_path ex_info) (ex_store ti) =
     Some (ex_object (the (nar_key (TenantId ''t'') ti (pi_path ex_info))))"
  using ex_info_hash
  by (simp_all add: memory_ops_def ex_store_def ms_record_path_def Let_def ms_simps ms_query_path_from_hash_part_def
      update_conv' ms_new_def ms_read_def ms_write_def inner_default_def)

lemma ex_served:
  "is_vouchable ti \<Longrightarrow> \<exists>st'. router memory_ops ex_env [''t'', ex_hash @ ''.narinfo''] (ex_store ti, objs) =
     (narinfo_response ex_env ex_info (ex_object (the (nar_key (TenantId ''t'') ti (pi_path ex_info)))), st')"
  unfolding router_def narinfo_def
  by (simp add: with_tenant_cases ex_tenant ex_store_queries)

lemma narinfo_serves_vouchable_witness:
  "\<exists>t path ti. from_wire ''t'' = Some t \<and> op_query_path_from_hash_part memory_ops t ex_hash (ex_store Built) = Some path \<and>
     op_tier memory_ops t path (ex_store Built) = Some ti \<and> is_vouchable ti"
proof -
  obtain st' where "router memory_ops ex_env [''t'', ex_hash @ ''.narinfo''] (ex_store Built, Map.empty) =
      (narinfo_response ex_env ex_info (ex_object (the (nar_key (TenantId ''t'') Built (pi_path ex_info)))), st')"
    using ex_served [of Built Map.empty] by auto
  from narinfo_serves_vouchable [OF this [unfolded narinfo_response_def]] show ?thesis by auto
qed

subsection \<open>Which object a NAR URL leads to\<close>

lemma split_on_subset: "p \<in> set (split_on c s) \<Longrightarrow> set p \<subseteq> set s"
proof (induction s arbitrary: p)
  case (Cons x s)
  obtain q qs where q: "split_on c s = q # qs" using split_on_not_Nil by (metis neq_Nil_conv)
  then have "set q \<subseteq> set s" "\<And>p. p \<in> set qs \<Longrightarrow> set p \<subseteq> set s" using Cons.IH by auto
  then show ?case using Cons.prems q by (auto split: if_splits)
qed simp

lemma hash_part_no_slash: "hash_part p = Some h \<Longrightarrow> CHR ''/'' \<notin> set h"
proof -
  assume "hash_part p = Some h"
  then have "h = hd (split_on (CHR ''-'') (base_name p))" by (simp add: hash_part_def Let_def split: if_splits)
  then have "h \<in> set (split_on (CHR ''-'') (base_name p))" by simp
  then have "set h \<subseteq> set (base_name p)" by (rule split_on_subset)
  moreover have "CHR ''/'' \<notin> set (base_name p)"
    unfolding base_name_def by (rule split_on_pieces [where s = "sp_str p"]) (rule last_in_set [OF split_on_not_Nil])
  ultimately show ?thesis by (rule contra_subsetD)
qed

lemma no_double_dot: "CHR ''.'' \<notin> set h \<Longrightarrow> \<not> contains_sub ''..'' (h @ ''.nar.zst'')"
proof -
  have "contains_sub ''..'' (h @ t) \<Longrightarrow> contains_sub ''..'' t" if "CHR ''.'' \<notin> set h" for t using that by (induction h) auto
  moreover have "\<not> contains_sub ''..'' ''.nar.zst''" by code_simp
  ultimately show "CHR ''.'' \<notin> set h \<Longrightarrow> ?thesis" by blast
qed

lemma redirect_iff: "redirect_to_object env k = RedirectTo u \<longleftrightarrow> he_presign_get env k = Some u"
  by (auto simp: redirect_to_object_def plain_response_def split: option.splits)

lemma nix_cache_info_no_redirect: "nix_cache_info env t \<noteq> RedirectTo u"
  by (cases "from_wire t") (simp_all add: nix_cache_info_def tenant_of_def cache_info_def plain_response_def)

lemma router_redirect:
  assumes "router ops env segs st = (RedirectTo u, st')"
  shows "\<exists>k. he_presign_get env k = Some u \<and>
    ((\<exists>t f. wf_tenant t \<and> \<not> bad_segment f \<and> k = ObjectKey (tid_str t @ ''/nar/'' @ f)) \<or>
     (\<exists>slug f. \<not> bad_segment f \<and> k = ObjectKey (''substituted/'' @ slug @ ''/nar/'' @ f)))"
proof -
  consider t f where "segs = [t, ''nar'', f]" "nar env t f st = (RedirectTo u, st')"
    | t slug f where "upstream_nar ops env t slug f st = (RedirectTo u, st')"
    using assms
    by (auto simp: router_def nix_cache_info_no_redirect public_key_route_def narinfo_def log_route_def upstream_nix_cache_info_def
        upstream_narinfo_def narinfo_response_def cache_info_def plain_response_def no_object_store_def with_tenant_cases
        split: list.splits if_splits option.splits prod.splits)
  then show ?thesis
  proof cases
    case 1
    then show ?thesis
      by (auto simp: nar_def with_tenant_cases no_object_store_def plain_response_def redirect_iff from_wire_wf
          split: option.splits if_splits) (metis from_wire_wf)
  next
    case 2
    then show ?thesis
      by (cases st) (auto simp: upstream_nar_def with_tenant_cases no_object_store_def plain_response_def redirect_iff
          split: option.splits if_splits; blast)
  qed
qed

lemma served_key_not_quarantined:
  assumes "(\<exists>t f. wf_tenant t \<and> \<not> bad_segment f \<and> k = ObjectKey (tid_str t @ ''/nar/'' @ f)) \<or>
     (\<exists>slug f. \<not> bad_segment f \<and> k = ObjectKey (''substituted/'' @ slug @ ''/nar/'' @ f))"
    and "wf_tenant t" and "nar_key t Quarantined p = Some k"
  shows "t = TenantId ''substituted''"
proof -
  obtain h where "k = ObjectKey (tid_str t @ ''/untrusted/nar/'' @ h @ ''.nar.zst'')"
    using assms(3) by (auto simp: nar_key_def Option.bind_eq_Some_conv)
  then have q: "split_once (CHR ''/'') (key_str k) = Some (tid_str t, ''untrusted/nar/'' @ h @ ''.nar.zst'')"
    using assms(2) by (simp add: split_once_Some_iff)
  have "split_once (CHR ''/'') (key_str k) = Some (tid_str t', ''nar/'' @ f)" if "wf_tenant t'" "k = ObjectKey (tid_str t' @ ''/nar/'' @ f)" for t' f
    using that by (simp add: split_once_Some_iff)
  then obtain slug f where "k = ObjectKey (''substituted/'' @ slug @ ''/nar/'' @ f)" using assms(1) q by force
  then have "split_once (CHR ''/'') (key_str k) = Some (''substituted'', slug @ ''/nar/'' @ f)" by (simp add: split_once_Some_iff)
  then show ?thesis using q by (cases t) simp
qed

text \<open>
  Where a narinfo the router answers with comes from: the row and the object of a path the tenant holds as built
  or verified, or those of a path it holds as substituted from a given source.
\<close>

definition vouched_entry :: "'s store_ops \<Rightarrow> tenant_id \<Rightarrow> string \<Rightarrow> 's \<Rightarrow> path_info \<Rightarrow> remote_object \<Rightarrow> bool" where
  "vouched_entry ops t hash s info remote \<longleftrightarrow> (\<exists>path ti. op_query_path_from_hash_part ops t hash s = Some path \<and>
     op_query_path_info ops t path s = Some info \<and> op_output_object ops t path s = Some remote \<and>
     op_tier ops t path s = Some ti \<and> is_vouchable ti)"

definition mirrored_entry :: "'s store_ops \<Rightarrow> tenant_id \<Rightarrow> string \<Rightarrow> string \<times> string \<Rightarrow> 's \<Rightarrow> path_info \<Rightarrow> remote_object \<Rightarrow> bool" where
  "mirrored_entry ops t hash source s info remote \<longleftrightarrow> (\<exists>path. op_query_path_from_hash_part ops t hash s = Some path \<and>
     op_query_path_info ops t path s = Some info \<and> op_output_object ops t path s = Some remote \<and>
     op_substituted_source ops t path s = Some source \<and> op_tier ops t path s = Some Substituted)"

abbreviation narinfo_type :: "string option" where
  "narinfo_type \<equiv> Some ''text/x-nix-narinfo''"

lemma nix_cache_info_no_narinfo: "nix_cache_info env t \<noteq> Response status narinfo_type body"
  by (cases "from_wire t") (simp_all add: nix_cache_info_def tenant_of_def cache_info_def plain_response_def)

lemma router_narinfo:
  assumes "router ops env segs (s, objs) = (Response status narinfo_type body, st')"
  obtains (own) tenant t f hash info remote where "segs = [tenant, f]" "from_wire tenant = Some t" "strip_suffix ''.narinfo'' f = Some hash"
      "Response status narinfo_type body = narinfo_response env info remote" "vouched_entry ops t hash s info remote"
  | (cached) tenant t slug f hash info remote url pk where "segs = [tenant, ''upstream'', slug, f]" "from_wire tenant = Some t"
      "strip_suffix ''.narinfo'' f = Some hash" "resolve_substituter ops t slug s = Some (url, pk)"
      "Response status narinfo_type body = narinfo_response env info remote" "cached_upstream ops t hash (url, pk) s = Some (info, remote)"
  | (resolved) tenant t slug f hash info remote url pk where "segs = [tenant, ''upstream'', slug, f]" "from_wire tenant = Some t"
      "strip_suffix ''.narinfo'' f = Some hash" "resolve_substituter ops t slug s = Some (url, pk)"
      "Response status narinfo_type body = narinfo_response env info remote"
      "resolve_from_one ops (he_web env) (he_sha env) t hash (he_store_dir env) url pk (s, objs) = (Some (info, remote), st')"
proof -
  consider tenant f where "segs = [tenant, f]" "narinfo ops env tenant f (s, objs) = (Response status narinfo_type body, st')"
    | tenant slug f where "segs = [tenant, ''upstream'', slug, f]"
        "upstream_narinfo ops env tenant slug f (s, objs) = (Response status narinfo_type body, st')"
    using assms
    by (auto simp: router_def nix_cache_info_no_narinfo public_key_route_def nar_def log_route_def upstream_nix_cache_info_def
        upstream_nar_def cache_info_def plain_response_def no_object_store_def redirect_to_object_def with_tenant_cases
        split: list.splits if_splits option.splits prod.splits)
  then show thesis
  proof cases
    case 1
    then show thesis
      by (auto simp: narinfo_def with_tenant_cases plain_response_def vouched_entry_def split: option.splits if_splits intro!: own)
  next
    case 2
    then show thesis
      by (auto simp: upstream_narinfo_def with_tenant_cases plain_response_def no_object_store_def
          split: option.splits if_splits prod.splits intro: cached [OF _ _ _ _ sym] resolved [OF _ _ _ _ sym])
  qed
qed

lemma cached_upstream_mirrored:
  assumes "cached_upstream (postgres_ops pub) t hash source db = Some (info, remote)"
  shows "mirrored_entry (postgres_ops pub) t hash source db info remote"
proof -
  obtain path where path: "op_query_path_from_hash_part (postgres_ops pub) t hash db = Some path"
      "op_query_path_info (postgres_ops pub) t path db = Some info" "op_output_object (postgres_ops pub) t path db = Some remote"
      "op_substituted_source (postgres_ops pub) t path db = Some source"
    using assms by (auto simp: cached_upstream_def Option.bind_eq_Some_conv split: if_splits)
  then have "op_tier (postgres_ops pub) t path db = Some Substituted"
    by (auto simp: postgres_ops_def pg_ops substituted_source_db_def tier_db_def on_db_def Option.bind_eq_Some_conv tier_from_str_def
        split: if_splits option.splits)
  then show ?thesis using path unfolding mirrored_entry_def by blast
qed

text \<open>
  C29: What the cache serves. Every narinfo the router answers with describes either a path that the tenant in
  the URL holds as built or verified, or, under \<open>upstream\<close>, one that the tenant holds as substituted from
  exactly the trusted substituter asked for, or one that this request has just resolved from that substituter.
  So what is recorded of a path the tenant holds as quarantined is never served. No redirect leads to the
  quarantined archive of a tenant, unless the tenant is literally named substituted.
\<close>

theorem http_never_serves_quarantined:
  assumes "router (postgres_ops pub) env segs (db, objs) = (resp, st')"
  shows "case resp of
      RedirectTo u \<Rightarrow> \<exists>k. he_presign_get env k = Some u \<and>
        (\<forall>t p. wf_tenant t \<and> nar_key t Quarantined p = Some k \<longrightarrow> t = TenantId ''substituted'')
    | Response status ty body \<Rightarrow> ty = narinfo_type \<longrightarrow>
        (\<exists>tenant t f hash info remote. from_wire tenant = Some t \<and> strip_suffix ''.narinfo'' f = Some hash \<and>
          resp = narinfo_response env info remote \<and>
          (segs = [tenant, f] \<and> vouched_entry (postgres_ops pub) t hash db info remote \<or>
           (\<exists>slug url pk. segs = [tenant, ''upstream'', slug, f] \<and> resolve_substituter (postgres_ops pub) t slug db = Some (url, pk) \<and>
             (mirrored_entry (postgres_ops pub) t hash (url, pk) db info remote \<or>
              resolve_from_one (postgres_ops pub) (he_web env) (he_sha env) t hash (he_store_dir env) url pk (db, objs) =
                (Some (info, remote), st')))))"
proof (cases resp)
  case (RedirectTo u)
  obtain k where k: "he_presign_get env k = Some u"
      "(\<exists>t f. wf_tenant t \<and> \<not> bad_segment f \<and> k = ObjectKey (tid_str t @ ''/nar/'' @ f)) \<or>
       (\<exists>slug f. \<not> bad_segment f \<and> k = ObjectKey (''substituted/'' @ slug @ ''/nar/'' @ f))"
    using router_redirect [OF assms [unfolded RedirectTo]] by blast
  then show ?thesis unfolding RedirectTo response.case using served_key_not_quarantined [OF k(2)] by blast
next
  case (Response status ty body)
  show ?thesis unfolding Response response.case
  proof
    assume ty: "ty = narinfo_type"
    show "\<exists>tenant t f hash info remote. from_wire tenant = Some t \<and> strip_suffix ''.narinfo'' f = Some hash \<and>
        Response status ty body = narinfo_response env info remote \<and>
        (segs = [tenant, f] \<and> vouched_entry (postgres_ops pub) t hash db info remote \<or>
         (\<exists>slug url pk. segs = [tenant, ''upstream'', slug, f] \<and> resolve_substituter (postgres_ops pub) t slug db = Some (url, pk) \<and>
           (mirrored_entry (postgres_ops pub) t hash (url, pk) db info remote \<or>
            resolve_from_one (postgres_ops pub) (he_web env) (he_sha env) t hash (he_store_dir env) url pk (db, objs) =
              (Some (info, remote), st'))))"
      using assms unfolding Response ty
      by (cases rule: router_narinfo) (use cached_upstream_mirrored in blast)+
  qed
qed

text \<open>
  The URL in a served narinfo leads back to the path's object when the path was built, and
  never does when it was verified: the route rebuilds the key under the tenant's prefix, but a
  verified archive is stored under the shared key without one, so a client that follows the
  narinfo of a verified path is redirected to a different object.
\<close>

theorem narinfo_url_reaches_only_built:
  assumes "wf_tenant t" and "is_vouchable ti" and "nar_key t ti p = Some k" and "he_has_uploader env"
    and "hash_part p = Some h" and "CHR ''.'' \<notin> set h"
  shows "\<exists>k'. fst (router ops env [tid_str t, ''nar'', object_key_basename (key_str k)] st) = redirect_to_object env k' \<and>
    (k' = k \<longleftrightarrow> ti = Built)"
proof -
  have slash: "CHR ''/'' \<notin> set h" using assms(5) by (rule hash_part_no_slash)
  have tw: "takeWhile (\<lambda>x. x \<noteq> CHR ''/'') (rev h) = rev h" using slash by (auto simp: takeWhile_eq_all_conv)
  have base: "object_key_basename (pre @ ''/nar/'' @ h @ ''.nar.zst'') = h @ ''.nar.zst''" "object_key_basename (''nar/'' @ h @ ''.nar.zst'') = h @ ''.nar.zst''" for pre
    by (simp_all add: object_key_basename_def last_split_on_eq takeWhile_tail tw)
  have bad: "\<not> bad_segment (h @ ''.nar.zst'')" using slash assms(6) by (simp add: bad_segment_def no_double_dot)
  have "fst (router ops env [tid_str t, ''nar'', h @ ''.nar.zst''] st) = redirect_to_object env (ObjectKey (tid_str t @ ''/nar/'' @ h @ ''.nar.zst''))"
    using assms(1,4) bad by (simp add: router_def nar_def with_tenant_cases wf_tenant_def)
  moreover have "object_key_basename (key_str k) = h @ ''.nar.zst''" "ObjectKey (tid_str t @ ''/nar/'' @ h @ ''.nar.zst'') = k \<longleftrightarrow> ti = Built"
    using assms(1,2,3,5) base by (cases ti; force simp: nar_key_def)+
  ultimately show ?thesis by metis
qed

lemma ex_nar_redirect:
  "router ops ex_env [''t'', ''nar'', ex_hash @ ''.nar.zst''] st = (RedirectTo (''https://s3/t/nar/'' @ ex_hash @ ''.nar.zst''), st)"
proof -
  have "\<not> bad_segment (ex_hash @ ''.nar.zst'')" by code_simp
  then show ?thesis by (simp add: router_def nar_def with_tenant_cases ex_tenant redirect_to_object_def ex_env_def)
qed

lemma http_never_serves_quarantined_witness:
  "\<exists>k. he_presign_get ex_env k = Some (''https://s3/t/nar/'' @ ex_hash @ ''.nar.zst'') \<and>
     (\<forall>t p. wf_tenant t \<and> nar_key t Quarantined p = Some k \<longrightarrow> t = TenantId ''substituted'')"
proof -
  have "router (postgres_ops id) ex_env [''t'', ''nar'', ex_hash @ ''.nar.zst''] (pg_empty, Map.empty) =
      (RedirectTo (''https://s3/t/nar/'' @ ex_hash @ ''.nar.zst''), pg_empty, Map.empty)"
    by (rule ex_nar_redirect)
  from http_never_serves_quarantined [OF this] show ?thesis by simp
qed

lemma narinfo_url_reaches_only_built_witness:
  "\<exists>k'. fst (router memory_ops ex_env [''t'', ''nar'', object_key_basename (key_str (ObjectKey (''nar/'' @ ex_hash @ ''.nar.zst'')))] (ms_new, Map.empty))
     = redirect_to_object ex_env k' \<and> k' \<noteq> ObjectKey (''nar/'' @ ex_hash @ ''.nar.zst'')"
proof -
  have "nar_key (TenantId ''t'') Verified (pi_path ex_info) = Some (ObjectKey (''nar/'' @ ex_hash @ ''.nar.zst''))"
    using ex_info_hash by (simp add: nar_key_def)
  from narinfo_url_reaches_only_built [OF _ _ this _ ex_info_hash, of ex_env memory_ops "(ms_new, Map.empty)"] show ?thesis
    using ex_tenant by (auto simp: wf_tenant_def ex_env_def ex_hash_def)
qed

end
