(* ===== verification/Worker.thy ===== *)
theory Worker
  imports WorkerJob GuestAgent Build Http "HOL-Library.List_Lexorder"
begin

text \<open>
  The job loop of a worker (\<open>main\<close> and its helpers in \<open>worker/src/main.rs\<close>): routing by
  capability classes, the bounded retries after a failed build, and what happens to one message
  from its delivery to its acknowledgement. The daemon of the virtual machine, the message queue
  and the object store are parameters. The lemmas show that a job is built at most four times,
  when an acknowledged job has been settled and when it is lost, and that a retry on a wiped
  machine runs without the job's inputs.
\<close>

subsection \<open>Routing\<close>

definition MAX_JOB_DELIVER :: nat where
  "MAX_JOB_DELIVER = 5"

definition parse_static_worker_classes :: "string \<Rightarrow> string list" where
  "parse_static_worker_classes env_value =
     filter (\<lambda>f. f = ''big-parallel'') (map trim (split_on (CHR '','') env_value))"

definition replace_dash :: "string \<Rightarrow> string" where
  "replace_dash s = map (\<lambda>c. if c = CHR ''-'' then CHR ''_'' else c) s"

text \<open>Strings are ordered bytewise.\<close>

definition sort_strings :: "string list \<Rightarrow> string list" where
  "sort_strings xs = map from_bytes (sort_key (map unat) (map as_bytes xs))"

definition worker_subjects_and_consumer :: "string \<Rightarrow> string list \<Rightarrow> bool \<Rightarrow> (report, string list \<times> string) res" where
  "worker_subjects_and_consumer system classes exclusive =
     (let subjects = (if exclusive then [] else [''kubernix.jobs.'' @ system]) @
            map (\<lambda>class. ''kubernix.jobs.'' @ system @ ''.'' @ class) classes
      in if subjects = [] then Err [OpaqueCause ''KUBERNIX_WORKER_EXCLUSIVE_CLASSES set but no capability classes declared'']
         else Ok (subjects,
           if exclusive then ''worker-'' @ replace_dash system @ ''-'' @ join_with ''_'' (sort_strings classes)
           else ''worker-'' @ replace_dash system))"

definition worker_capabilities_satisfy :: "string list \<Rightarrow> string list \<Rightarrow> bool" where
  "worker_capabilities_satisfy classes required =
     list_all (\<lambda>f. f \<in> set classes) (filter (\<lambda>f. f = ''kvm'' \<or> f = ''big-parallel'') required)"

subsection \<open>Retrying a build\<close>

datatype retry_action = GiveUp | RetryEnospcWipe | RetryOomLocal | EscalateOom | TerminalOom | TerminalEnospc

fun next_action :: "guest_status \<Rightarrow> bool \<Rightarrow> bool \<Rightarrow> bool \<Rightarrow> bool \<Rightarrow> retry_action" where
  "next_action StatusNone fresh big enospc_retried oom_local_retried = GiveUp"
| "next_action StatusDiskFull fresh big enospc_retried oom_local_retried =
     (if enospc_retried \<or> fresh then TerminalEnospc else RetryEnospcWipe)"
| "next_action (StatusOutOfMemory False) fresh big enospc_retried oom_local_retried =
     (if oom_local_retried then TerminalOom else RetryOomLocal)"
| "next_action (StatusOutOfMemory True) fresh big enospc_retried oom_local_retried =
     (if big then TerminalOom else EscalateOom)"

fun terminal_failure :: "outcome \<Rightarrow> failure_kind \<Rightarrow> outcome" where
  "terminal_failure (OFailed message k) kind = OFailed message (Some kind)"
| "terminal_failure (OCompleted paths) kind = OCompleted paths"

definition hang_outcome :: "string \<Rightarrow> outcome" where
  "hang_outcome job_id =
     terminal_failure (outcome_failed (infra_failure_message job_id ''the guest VM stopped responding during the build'')) GuestHang"

datatype run_result = Finished outcome bytes | GuestHung

text \<open>
  The machine a job runs on: clearing the detection state, one build raced against the missing
  heartbeat, asking for the detected failure, wiping with a reboot and a new connection, and a new
  connection alone. A \<open>True\<close> of the last two says that it worked.
\<close>

record 'g machine =
  mc_reset :: "'g \<Rightarrow> 'g"
  mc_run :: "'g \<Rightarrow> run_result \<times> 'g"
  mc_status :: "'g \<Rightarrow> (report, guest_status) res \<times> 'g"
  mc_wipe :: "'g \<Rightarrow> bool \<times> 'g"
  mc_reconnect :: "'g \<Rightarrow> bool \<times> 'g"

record retry_flags =
  rf_enospc :: bool
  rf_oom :: bool
  rf_hang :: bool

definition no_retries :: retry_flags where
  "no_retries = \<lparr>rf_enospc = False, rf_oom = False, rf_hang = False\<rparr>"

definition retries_left :: "retry_flags \<Rightarrow> nat" where
  "retries_left fl = (if rf_enospc fl then 0 else 1) + (if rf_oom fl then 0 else 1) + (if rf_hang fl then 0 else 1)"

lemma retries_left_simps [termination_simp, simp]:
  "\<not> rf_hang fl \<Longrightarrow> retries_left (fl\<lparr>rf_hang := True\<rparr>) < retries_left fl"
  "next_action s fresh big (rf_enospc fl) (rf_oom fl) = RetryEnospcWipe \<Longrightarrow> retries_left (fl\<lparr>rf_enospc := True\<rparr>) < retries_left fl"
  "next_action s fresh big (rf_enospc fl) (rf_oom fl) = RetryOomLocal \<Longrightarrow> retries_left (fl\<lparr>rf_oom := True\<rparr>) < retries_left fl"
  by (auto simp: retries_left_def elim!: next_action.elims split: if_splits)

datatype loop_end = Settled outcome bytes | Escalated

function build_loop :: "'g machine \<Rightarrow> string \<Rightarrow> bool \<Rightarrow> bool \<Rightarrow> bool \<Rightarrow> retry_flags \<Rightarrow> 'g \<Rightarrow> loop_end \<times> 'g" where
  "build_loop mc job_id vm fresh big fl g =
     (case mc_run mc (if vm then mc_reset mc g else g) of
        (GuestHung, g) \<Rightarrow>
          if \<not> vm \<or> rf_hang fl then (Settled (hang_outcome job_id) [], g)
          else (case mc_wipe mc g of
                  (True, g) \<Rightarrow> build_loop mc job_id vm fresh big (fl\<lparr>rf_hang := True\<rparr>) g
                | (False, g) \<Rightarrow> (Settled (hang_outcome job_id) [], g))
      | (Finished (OCompleted paths) log, g) \<Rightarrow> (Settled (OCompleted paths) log, g)
      | (Finished (OFailed message kind) log, g) \<Rightarrow>
          if \<not> vm then (Settled (OFailed message kind) log, g)
          else (case mc_status mc g of
                  (Ok status, g) \<Rightarrow>
                    (case next_action status fresh big (rf_enospc fl) (rf_oom fl) of
                       GiveUp \<Rightarrow> (Settled (OFailed message kind) log, g)
                     | TerminalEnospc \<Rightarrow> (Settled (terminal_failure (OFailed message kind) DiskFull) log, g)
                     | TerminalOom \<Rightarrow> (Settled (terminal_failure (OFailed message kind) OutOfMemory) log, g)
                     | RetryEnospcWipe \<Rightarrow>
                         (case mc_wipe mc g of
                            (True, g) \<Rightarrow> build_loop mc job_id vm fresh big (fl\<lparr>rf_enospc := True\<rparr>) g
                          | (False, g) \<Rightarrow> (Settled (OFailed message kind) log, g))
                     | RetryOomLocal \<Rightarrow>
                         (case mc_reconnect mc g of
                            (True, g) \<Rightarrow> build_loop mc job_id vm fresh big (fl\<lparr>rf_oom := True\<rparr>) g
                          | (False, g) \<Rightarrow> (Settled (OFailed message kind) log, g))
                     | EscalateOom \<Rightarrow> (Escalated, g))
                | (_, g) \<Rightarrow> (Settled (OFailed message kind) log, g)))"
  by pat_completeness auto
termination
  by (relation "measure (\<lambda>(mc, job_id, vm, fresh, big, fl, g). retries_left fl)") auto

declare build_loop.simps [simp del]

text \<open>One unfolding of the loop: it ends, or goes round with one retry less.\<close>

datatype 'g loop_step = Stop loop_end 'g | Again retry_flags 'g

definition loop_step :: "'g machine \<Rightarrow> string \<Rightarrow> bool \<Rightarrow> bool \<Rightarrow> bool \<Rightarrow> retry_flags \<Rightarrow> 'g \<Rightarrow> 'g loop_step" where
  "loop_step mc job_id vm fresh big fl g =
     (case mc_run mc (if vm then mc_reset mc g else g) of
        (GuestHung, g) \<Rightarrow>
          if \<not> vm \<or> rf_hang fl then Stop (Settled (hang_outcome job_id) []) g
          else (case mc_wipe mc g of
                  (ok, g) \<Rightarrow> if ok then Again (fl\<lparr>rf_hang := True\<rparr>) g else Stop (Settled (hang_outcome job_id) []) g)
      | (Finished out log, g) \<Rightarrow>
          (case out of
             OCompleted paths \<Rightarrow> Stop (Settled out log) g
           | OFailed message kind \<Rightarrow>
               if \<not> vm then Stop (Settled out log) g
               else (case mc_status mc g of
                  (Ok status, g) \<Rightarrow>
                    (case next_action status fresh big (rf_enospc fl) (rf_oom fl) of
                       GiveUp \<Rightarrow> Stop (Settled out log) g
                     | TerminalEnospc \<Rightarrow> Stop (Settled (terminal_failure out DiskFull) log) g
                     | TerminalOom \<Rightarrow> Stop (Settled (terminal_failure out OutOfMemory) log) g
                     | RetryEnospcWipe \<Rightarrow>
                         (case mc_wipe mc g of (ok, g) \<Rightarrow> if ok then Again (fl\<lparr>rf_enospc := True\<rparr>) g else Stop (Settled out log) g)
                     | RetryOomLocal \<Rightarrow>
                         (case mc_reconnect mc g of (ok, g) \<Rightarrow> if ok then Again (fl\<lparr>rf_oom := True\<rparr>) g else Stop (Settled out log) g)
                     | EscalateOom \<Rightarrow> Stop Escalated g)
                | (_, g) \<Rightarrow> Stop (Settled out log) g)))"

lemma build_loop_step:
  "build_loop mc job_id vm fresh big fl g =
     (case loop_step mc job_id vm fresh big fl g of
        Stop e g \<Rightarrow> (e, g)
      | Again fl g \<Rightarrow> build_loop mc job_id vm fresh big fl g)"
proof -
  obtain r g1 where run: "mc_run mc (if vm then mc_reset mc g else g) = (r, g1)" by fastforce
  obtain ok1 w1 where wipe1: "mc_wipe mc g1 = (ok1, w1)" by fastforce
  obtain st g2 where status: "mc_status mc g1 = (st, g2)" by fastforce
  obtain ok2 w2 where wipe2: "mc_wipe mc g2 = (ok2, w2)" by fastforce
  obtain ok3 w3 where rec: "mc_reconnect mc g2 = (ok3, w3)" by fastforce
  note facts = loop_step_def run wipe1 status wipe2 rec
  show ?thesis
  proof (cases r)
    case GuestHung
    then show ?thesis by (subst build_loop.simps) (cases ok1; simp add: facts)
  next
    case (Finished out log)
    show ?thesis
    proof (cases out)
      case (OCompleted paths)
      then show ?thesis using Finished by (subst build_loop.simps) (simp add: facts)
    next
      case (OFailed message kind)
      show ?thesis
      proof (cases st)
        case (Ok status)
        then show ?thesis using Finished OFailed
          by (subst build_loop.simps)
            (cases "next_action status fresh big (rf_enospc fl) (rf_oom fl)"; cases ok2; cases ok3; simp add: facts)
      qed (use Finished OFailed in \<open>subst build_loop.simps; simp add: facts\<close>)+
    qed
  qed
qed

lemma loop_step_again: "loop_step mc job_id vm fresh big fl g = Again fl' g' \<Longrightarrow> vm \<and> retries_left fl' < retries_left fl"
  by (auto simp: loop_step_def split: prod.splits run_result.splits outcome.splits res.splits retry_action.splits if_splits)

text \<open>The machine with a counter of the builds it was asked for.\<close>

definition counted :: "'g machine \<Rightarrow> (nat \<times> 'g) machine" where
  "counted mc =
     \<lparr>mc_reset = \<lambda>(n, g). (n, mc_reset mc g),
      mc_run = \<lambda>(n, g). (case mc_run mc g of (r, g) \<Rightarrow> (r, (Suc n, g))),
      mc_status = \<lambda>(n, g). (case mc_status mc g of (r, g) \<Rightarrow> (r, (n, g))),
      mc_wipe = \<lambda>(n, g). (case mc_wipe mc g of (r, g) \<Rightarrow> (r, (n, g))),
      mc_reconnect = \<lambda>(n, g). (case mc_reconnect mc g of (r, g) \<Rightarrow> (r, (n, g)))\<rparr>"

lemma counted_step:
  "loop_step (counted mc) job_id vm fresh big fl (n, g) =
     (case loop_step mc job_id vm fresh big fl g of Stop e g \<Rightarrow> Stop e (Suc n, g) | Again fl g \<Rightarrow> Again fl (Suc n, g))"
  by (cases vm)
    (simp_all add: loop_step_def counted_def split: prod.split run_result.split outcome.split res.split retry_action.split)

lemma counted_loop:
  "\<exists>m. build_loop (counted mc) job_id vm fresh big fl (n, g) =
        (fst (build_loop mc job_id vm fresh big fl g), (n + m, snd (build_loop mc job_id vm fresh big fl g))) \<and>
      0 < m \<and> m \<le> Suc (retries_left fl) \<and> (\<not> vm \<longrightarrow> m = 1)"
proof (induction "retries_left fl" arbitrary: fl n g rule: less_induct)
  case less
  show ?case
  proof (cases "loop_step mc job_id vm fresh big fl g")
    case (Stop e g')
    then show ?thesis by (intro exI [of _ 1]) (simp add: build_loop_step counted_step)
  next
    case (Again fl' g')
    have vm: "vm" and lt: "retries_left fl' < retries_left fl" using loop_step_again [OF Again] by simp_all
    obtain m where "build_loop (counted mc) job_id vm fresh big fl' (Suc n, g') =
        (fst (build_loop mc job_id vm fresh big fl' g'), (Suc n + m, snd (build_loop mc job_id vm fresh big fl' g')))"
      "m \<le> Suc (retries_left fl')" using less [OF lt, of "Suc n" g'] by blast
    then show ?thesis
      using lt vm Again
      by (intro exI [of _ "Suc m"]) (simp add: build_loop_step [of _ _ _ _ _ fl] counted_step)
  qed
qed



subsection \<open>A status that arrives late\<close>

text \<open>
  The reset before a build does not stop a lookup that is under way. When a process of the previous
  build was killed and the poller is looking it up while the worker resets the guest, the answer arrives
  after the reset: the next build, in which nothing was killed, is reported as out of memory, and if it
  fails for a reason of its own it is retried, escalated to a larger worker, or ended for lack of memory.
\<close>

theorem oom_blamed_on_next_build:
  assumes "dt_poller d = Resolving pid" and "detection_reset True True d = (Ok (), d0)"
  shows "\<exists>d'. guest_run d0 [PollResolve b] d' \<and>
    next_action (to_guest_status (detection_status d')) fresh big False False =
      (if \<not> b then RetryOomLocal else if big then TerminalOom else EscalateOom)"
proof -
  have p: "dt_poller d0 = Resolving pid"
    using assms by (auto simp: detection_reset_def reset_pid_def reset_attribution_def reset_enospc_def Let_def)
  have "guest_run d0 [PollResolve b] (poll_resolve b d0)" by (rule guest_run_one [OF guest_step.poll_resolve [OF p]])
  moreover have "dt_oom_attribution (poll_resolve b d0) = Some b" by (simp add: poll_resolve_def p)
  ultimately show ?thesis by (intro exI [of _ "poll_resolve b d0"]) (cases b; simp add: detection_status_def)
qed

theorem oom_blamed_on_next_build_witness:
  "\<exists>d d0 d'. guest_run detection_start [Victim 7, PollRead] d \<and> detection_reset True True d = (Ok (), d0) \<and>
     guest_run d0 [PollResolve True] d' \<and> next_action (to_guest_status (detection_status d')) True False False False = EscalateOom"
proof -
  let ?v = "oom_mark_victim 7 detection_start"
  let ?d = "poll_read ?v"
  have p: "dt_poller ?d = Resolving 7" by (simp add: poll_read_def oom_mark_victim_def detection_start_def)
  have "guest_step ?v PollRead ?d"
    by (rule guest_step.poll_read [of _ 0]) (simp add: oom_mark_victim_def detection_start_def)
  then have run: "guest_run detection_start ([Victim 7] @ [PollRead]) ?d"
    by (intro guest_run.more [of _ "[Victim 7]" ?v] guest_run_one guest_step.victim) simp_all
  have r: "detection_reset True True ?d = (Ok (), reset_enospc (reset_attribution (reset_pid ?d)))" by (simp add: detection_reset_def)
  from oom_blamed_on_next_build [OF p r, of True True False] show ?thesis using run r by fastforce
qed

subsection \<open>A retry on a wiped machine\<close>

lemma wiped_image_empty:
  assumes "wipe_and_reboot e t p = (Ok h, p')"
  shows "vh_fresh h \<and> (\<exists>u k. vp_images p' t = Some (Formatted u k []))"
proof -
  let ?q = "(evict p)\<lparr>vp_images := (vp_images p)(t := None)\<rparr>"
  have "ensure_vm_for e t ?q = (Ok h, p')"
    using assms by (auto simp: wipe_and_reboot_def Let_def split: if_splits)
  then have "boot_vm e t (evict ?q) = (Ok h, p')" by (simp add: ensure_eq)
  from boot_vm_Ok [OF this] show ?thesis by auto
qed

text \<open>
  A path of the job's closure that only registering can make valid, and a daemon that does not
  complete a build while it is missing. Nothing the loop asks of the machine registers a path.
\<close>

definition never_registers :: "'g machine \<Rightarrow> ('g \<Rightarrow> string set) \<Rightarrow> string \<Rightarrow> bool" where
  "never_registers mc valid q \<longleftrightarrow>
     (\<forall>g. q \<notin> valid g \<longrightarrow> q \<notin> valid (mc_reset mc g) \<and> q \<notin> valid (snd (mc_run mc g)) \<and> q \<notin> valid (snd (mc_status mc g)) \<and>
        q \<notin> valid (snd (mc_reconnect mc g)) \<and> (\<forall>paths log. fst (mc_run mc g) \<noteq> Finished (OCompleted paths) log)) \<and>
     (\<forall>g. q \<notin> valid (snd (mc_wipe mc g)))"

lemma lacking_step:
  assumes "never_registers mc valid q" "q \<notin> valid g"
  shows "case loop_step mc job_id vm fresh big fl g of
      Stop e g' \<Rightarrow> \<forall>paths log. e \<noteq> Settled (OCompleted paths) log | Again fl' g' \<Rightarrow> q \<notin> valid g'"
proof -
  let ?g = "if vm then mc_reset mc g else g"
  obtain r g1 where run: "mc_run mc ?g = (r, g1)" by fastforce
  obtain st g2 where status: "mc_status mc g1 = (st, g2)" by fastforce
  have "q \<notin> valid ?g" using assms by (simp add: never_registers_def)
  then have v1: "q \<notin> valid g1" and r: "\<forall>paths log. r \<noteq> Finished (OCompleted paths) log"
    using assms(1) run unfolding never_registers_def by (metis snd_conv, metis fst_conv)
  have v2: "q \<notin> valid g2" using assms(1) v1 status unfolding never_registers_def by (metis snd_conv)
  have w: "q \<notin> valid (snd (mc_wipe mc g1))" "q \<notin> valid (snd (mc_wipe mc g2))" "q \<notin> valid (snd (mc_reconnect mc g2))"
    using assms(1) v2 by (simp_all add: never_registers_def)
  show ?thesis
  proof (cases r)
    case GuestHung
    then show ?thesis using run w by (auto simp: loop_step_def hang_outcome_def outcome_failed_def split: prod.split)
  next
    case (Finished out log)
    then obtain message kind where "out = OFailed message kind" using r by (cases out) auto
    then show ?thesis using Finished run status w
      by (auto simp: loop_step_def split: res.split retry_action.split prod.split)
  qed
qed

lemma lacking_loop:
  assumes "never_registers mc valid q" "q \<notin> valid g"
  shows "fst (build_loop mc job_id vm fresh big fl g) \<noteq> Settled (OCompleted paths) log"
  using assms(2)
proof (induction "retries_left fl" arbitrary: fl g rule: less_induct)
  case less
  show ?case
  proof (cases "loop_step mc job_id vm fresh big fl g")
    case (Stop e g')
    then show ?thesis using lacking_step [OF assms(1) less.prems, of job_id vm fresh big fl] by (simp add: build_loop_step)
  next
    case (Again fl' g')
    then show ?thesis
      using lacking_step [OF assms(1) less.prems, of job_id vm fresh big fl] less.hyps [of fl' g'] loop_step_again [OF Again]
      by (simp add: build_loop_step [of _ _ _ _ _ fl])
  qed
qed

text \<open>
  The retry meant to rescue a job from a hanging guest or a full disk cannot complete it. It runs
  the build on the wiped store without fetching the inputs again, so a job with an input that only the
  worker registers ends in a failure, whatever the guest does afterwards.
\<close>

theorem wiped_retry_never_completes:
  assumes "never_registers mc valid q" "mc_run mc (mc_reset mc g) = (r, g1)"
    and "r = GuestHung \<or> (\<exists>message kind log. r = Finished (OFailed message kind) log) \<and> fst (mc_status mc g1) = Ok StatusDiskFull \<and> \<not> fresh"
  shows "fst (build_loop mc job_id True fresh big no_retries g) \<noteq> Settled (OCompleted paths) log"
proof -
  obtain st g2 where status: "mc_status mc g1 = (st, g2)" by fastforce
  have w: "q \<notin> valid (snd (mc_wipe mc h))" for h using assms(1) by (simp add: never_registers_def)
  have "case loop_step mc job_id True fresh big no_retries g of
      Stop e g' \<Rightarrow> \<forall>paths log. e \<noteq> Settled (OCompleted paths) log | Again fl' g' \<Rightarrow> q \<notin> valid g'"
    using assms(2,3) status w [of g1] w [of g2]
    by (auto simp: loop_step_def hang_outcome_def outcome_failed_def no_retries_def split: prod.split)
  then show ?thesis
    using lacking_loop [OF assms(1)] by (auto simp: build_loop_step [of _ _ _ _ _ no_retries] split: loop_step.splits)
qed

text \<open>A guest that holds the inputs hangs once and would build them fine.\<close>

definition ex_machine :: "(bool \<times> string set) machine" where
  "ex_machine =
     \<lparr>mc_reset = id,
      mc_run = \<lambda>(hung, v). (if \<not> hung then GuestHung else if ''/s/lib'' \<in> v then Finished (OCompleted []) [] else Finished (OFailed ''missing'' None) [], (True, v)),
      mc_status = \<lambda>g. (Ok StatusNone, g), mc_wipe = \<lambda>(hung, v). (True, (hung, {})), mc_reconnect = \<lambda>g. (True, g)\<rparr>"

theorem wiped_retry_never_completes_witness:
  "fst (build_loop ex_machine ''j'' True False False no_retries (False, {''/s/lib''})) \<noteq> Settled (OCompleted []) []"
proof (rule wiped_retry_never_completes [where q = "''/s/lib''" and valid = snd])
  show "never_registers ex_machine snd ''/s/lib''"
    by (auto simp: never_registers_def ex_machine_def)
  show "mc_run ex_machine (mc_reset ex_machine (False, {''/s/lib''})) = (GuestHung, (True, {''/s/lib''}))"
    by (simp add: ex_machine_def)
qed simp

subsection \<open>One message from its delivery to its acknowledgement\<close>

datatype payload = ResultMsg job_result | RequestMsg build_request

text \<open>What the worker asks of the message queue; the flag says whether the queue confirmed.\<close>

datatype event = Published string payload bool | Acked | Nacked

datatype 'g handled = Handled "event list" 'g | Crashed

record 'g shop = "'g worker" +
  ws_system :: string
  ws_classes :: "string list"
  ws_vm :: bool
  ws_sched :: "nat list \<Rightarrow> nat list"
  ws_ensure_vm :: "tenant_id \<Rightarrow> 'g \<Rightarrow> (report, bool) res \<times> 'g"
  ws_push_substituters :: "(string \<times> string) list \<Rightarrow> 'g \<Rightarrow> (report, unit) res \<times> 'g"
  ws_push_ca_cert :: "'g \<Rightarrow> (report, unit) res \<times> 'g"
  ws_connect :: "'g \<Rightarrow> (report, unit) res \<times> 'g"
  ws_machine :: "job \<Rightarrow> store_path list \<Rightarrow> 'g machine"
  ws_publish :: "string \<Rightarrow> payload \<Rightarrow> 'g \<Rightarrow> (report, unit) res \<times> 'g"

text \<open>A machine is booted and connected to; what is pushed to it may fail. The flag is the freshness of its store.\<close>

definition dial :: "'g shop \<Rightarrow> job \<Rightarrow> 'g \<Rightarrow> (report, bool) res \<times> 'g" where
  "dial e j g =
     (if \<not> ws_vm e then (Ok False, g)
      else case ws_ensure_vm e (wj_tenant j) g of
        (Err x, g) \<Rightarrow> (Err x, g)
      | (Panic, g) \<Rightarrow> (Panic, g)
      | (Ok fresh, g) \<Rightarrow>
          (case ws_push_substituters e (wj_trusted_substituters j) g of (_, g) \<Rightarrow>
           (case ws_push_ca_cert e g of (_, g) \<Rightarrow>
            (case ws_connect e g of (r, g) \<Rightarrow> (bind_res r (\<lambda>_. Ok fresh), g)))))"

definition publish_result :: "'g shop \<Rightarrow> job \<Rightarrow> outcome \<Rightarrow> output_artifact list \<Rightarrow> object_key option \<Rightarrow> 'g \<Rightarrow> event \<times> bool \<times> 'g" where
  "publish_result e j out artifacts lk g =
     (let subject = ''kubernix.results.'' @ wj_job_id j; msg = ResultMsg (encode_result out artifacts lk) in
      case ws_publish e subject msg g of (r, g) \<Rightarrow> (Published subject msg (r = Ok ()), r = Ok (), g))"

definition fail_and_ack :: "'g shop \<Rightarrow> job \<Rightarrow> string \<Rightarrow> 'g \<Rightarrow> 'g handled" where
  "fail_and_ack e j message g =
     (case publish_result e j (outcome_failed message) [] None g of (ev, _, g) \<Rightarrow> Handled [ev, Acked] g)"

definition escalate :: "'g shop \<Rightarrow> build_request \<Rightarrow> 'g \<Rightarrow> 'g handled" where
  "escalate e m g =
     (let subject = ''kubernix.jobs.'' @ ws_system e @ ''.big-parallel'' in
      case ws_publish e subject (RequestMsg m) g of (r, g) \<Rightarrow> Handled [Published subject (RequestMsg m) (r = Ok ()), Acked] g)"

definition report_job :: "'g shop \<Rightarrow> job \<Rightarrow> outcome \<Rightarrow> output_artifact list \<Rightarrow> object_key option \<Rightarrow> 'g \<Rightarrow> 'g handled" where
  "report_job e j out artifacts lk g =
     (case publish_result e j out artifacts lk g of
        (ev, ok, g) \<Rightarrow> Handled (if ok then [ev, Acked] else [ev]) g)"

definition settle :: "'g shop \<Rightarrow> job \<Rightarrow> outcome \<Rightarrow> bytes \<Rightarrow> 'g \<Rightarrow> 'g handled" where
  "settle e j out log g =
     (case upload_artifacts (worker.truncate e) (ws_vm e) j out log g of
        (Ok (artifacts, lk), g) \<Rightarrow> report_job e j out artifacts lk g
      | (Err x, g) \<Rightarrow> report_job e j (outcome_failed (infra_failure_message (wj_job_id j) ''uploading artifacts failed'')) [] None g
      | (Panic, g) \<Rightarrow> Crashed)"

definition build_and_settle :: "'g shop \<Rightarrow> build_request \<Rightarrow> job \<Rightarrow> bool \<Rightarrow> 'g \<Rightarrow> 'g handled" where
  "build_and_settle e m j fresh g =
     (case declared_outputs j (og_store_dir e) of
        Err x \<Rightarrow> fail_and_ack e j (infra_failure_message (wj_job_id j) ''reading the derivation failed'') g
      | Panic \<Rightarrow> Crashed
      | Ok outs \<Rightarrow>
          (case build_loop (ws_machine e j outs) (wj_job_id j) (ws_vm e) fresh (''big-parallel'' \<in> set (ws_classes e)) no_retries g of
             (Escalated, g) \<Rightarrow> escalate e m g
           | (Settled out log, g) \<Rightarrow> settle e j out log g))"

definition perform_job :: "'g shop \<Rightarrow> build_request \<Rightarrow> job \<Rightarrow> 'g \<Rightarrow> 'g handled option" where
  "perform_job e m j g =
     (case dial e j g of
        (Err x, g) \<Rightarrow> Some (fail_and_ack e j (infra_failure_message (wj_job_id j) ''starting the tenant VM failed'') g)
      | (Panic, g) \<Rightarrow> Some Crashed
      | (Ok fresh, g) \<Rightarrow>
          map_option (\<lambda>(r, g).
            case r of
              Err x \<Rightarrow> fail_and_ack e j (infra_failure_message (wj_job_id j) ''fetching inputs failed'') g
            | Panic \<Rightarrow> Crashed
            | Ok _ \<Rightarrow> build_and_settle e m j fresh g)
          (fetch_inputs (outside.truncate e) (ws_sched e) (wj_job_id j) (wj_token j) (wj_inputs j) (ws_vm e) fresh g))"

text \<open>The debug formatting of a list of strings. Letters outside ASCII are kept, as the printable ones are.\<close>

definition escape_debug :: "char \<Rightarrow> string" where
  "escape_debug c =
     (let n = of_char c :: nat; hex_digit = (\<lambda>d. ''0123456789abcdef'' ! d) in
      if n = 0 then [CHR 0x5C, CHR ''0'']
      else if n = 9 then [CHR 0x5C, CHR ''t'']
      else if n = 10 then [CHR 0x5C, CHR ''n'']
      else if n = 13 then [CHR 0x5C, CHR ''r'']
      else if n = 34 \<or> n = 92 then [CHR 0x5C, c]
      else if n < 32 \<or> n = 127 then [CHR 0x5C] @ ''u{'' @ (if n < 16 then [hex_digit n] else [hex_digit (n div 16), hex_digit (n mod 16)]) @ ''}''
      else [c])"

definition debug_strings :: "string list \<Rightarrow> string" where
  "debug_strings xs =
     ''['' @ join_with '', '' (map (\<lambda>x. [CHR 0x22] @ concat (map escape_debug x) @ [CHR 0x22]) xs) @ '']''"

definition no_worker_message :: "job \<Rightarrow> string" where
  "no_worker_message j =
     ''kubernix: no worker in the fleet declares every required feature ('' @ debug_strings (wj_required_features j) @
     '') for job '' @ wj_job_id j"

definition process_message :: "'g shop \<Rightarrow> nat option \<Rightarrow> build_request \<Rightarrow> 'g \<Rightarrow> 'g handled option" where
  "process_message e delivered m g =
     (case decode_job m of
        Err x \<Rightarrow> Some (Handled [Acked] g)
      | Panic \<Rightarrow> Some Crashed
      | Ok j \<Rightarrow>
          if \<not> worker_capabilities_satisfy (ws_classes e) (wj_required_features j) then
            (if (case delivered of None \<Rightarrow> 1 | Some n \<Rightarrow> n) < MAX_JOB_DELIVER then Some (Handled [Nacked] g)
             else Some (fail_and_ack e j (no_worker_message j) g))
          else perform_job e m j g)"

subsection \<open>What an acknowledgement means\<close>

text \<open>The queue confirms whatever is published.\<close>

definition queue_up :: "'g shop \<Rightarrow> bool" where
  "queue_up e \<longleftrightarrow> (\<forall>subject msg g. fst (ws_publish e subject msg g) = Ok ())"

definition reported :: "'g shop \<Rightarrow> build_request \<Rightarrow> job \<Rightarrow> bool \<Rightarrow> event \<Rightarrow> bool" where
  "reported e m j ok ev \<longleftrightarrow>
     (\<exists>out artifacts lk. ev = Published (''kubernix.results.'' @ wj_job_id j) (ResultMsg (encode_result out artifacts lk)) ok) \<or>
     ev = Published (''kubernix.jobs.'' @ ws_system e @ ''.big-parallel'') (RequestMsg m) ok"

lemma publish_result_form:
  assumes "publish_result e j out artifacts lk g = (ev, ok, g')"
  shows "reported e m j ok ev \<and> (queue_up e \<longrightarrow> ok)"
proof -
  let ?subject = "''kubernix.results.'' @ wj_job_id j" and ?msg = "ResultMsg (encode_result out artifacts lk)"
  obtain r h where p: "ws_publish e ?subject ?msg g = (r, h)" by fastforce
  have "queue_up e \<longrightarrow> r = Ok ()" using p unfolding queue_up_def by (metis fst_conv)
  then show ?thesis using assms p by (auto simp: publish_result_def reported_def Let_def)
qed

text \<open>What one message leads to, without what happened on the way.\<close>

definition handled_ok :: "'g shop \<Rightarrow> build_request \<Rightarrow> job \<Rightarrow> 'g handled \<Rightarrow> bool" where
  "handled_ok e m j h \<longleftrightarrow>
     h = Crashed \<or>
     (\<exists>ok ev g'. (h = Handled [ev, Acked] g' \<or> h = Handled [ev] g' \<and> \<not> ok) \<and> reported e m j ok ev \<and> (queue_up e \<longrightarrow> ok))"

lemma fail_and_ack_ok: "handled_ok e m j (fail_and_ack e j message g)"
proof -
  obtain ev ok g' where p: "publish_result e j (outcome_failed message) [] None g = (ev, ok, g')" by (metis prod_cases3)
  then show ?thesis using publish_result_form [OF p, of m] unfolding handled_ok_def fail_and_ack_def by (simp add: p) blast
qed

lemma escalate_ok: "handled_ok e m j (escalate e m g)"
proof -
  let ?subject = "''kubernix.jobs.'' @ ws_system e @ ''.big-parallel''"
  obtain r g' where p: "ws_publish e ?subject (RequestMsg m) g = (r, g')" by fastforce
  have "queue_up e \<longrightarrow> r = Ok ()" using p unfolding queue_up_def by (metis fst_conv)
  then have "reported e m j (r = Ok ()) (Published ?subject (RequestMsg m) (r = Ok ())) \<and> (queue_up e \<longrightarrow> r = Ok ())"
    by (simp add: reported_def)
  then show ?thesis using p unfolding handled_ok_def escalate_def Let_def by (simp only: prod.case) blast
qed

lemma report_job_ok: "handled_ok e m j (report_job e j out artifacts lk g)"
proof -
  obtain ev ok g' where p: "publish_result e j out artifacts lk g = (ev, ok, g')" by (metis prod_cases3)
  then show ?thesis using publish_result_form [OF p, of m] unfolding handled_ok_def report_job_def by (cases ok) (simp_all add: p, blast+)
qed

lemma settle_ok: "handled_ok e m j (settle e j out log g)"
proof -
  obtain r g1 where u: "upload_artifacts (worker.truncate e) (ws_vm e) j out log g = (r, g1)" by fastforce
  then show ?thesis by (cases r) (auto simp: settle_def report_job_ok handled_ok_def [of _ _ _ Crashed])
qed

lemma build_and_settle_ok: "handled_ok e m j (build_and_settle e m j fresh g)"
  by (simp add: build_and_settle_def fail_and_ack_ok escalate_ok settle_ok handled_ok_def [of _ _ _ Crashed]
      split: res.split prod.split loop_end.split)

lemma perform_job_ok: "perform_job e m j g = Some h \<Longrightarrow> handled_ok e m j h"
proof -
  assume h: "perform_job e m j g = Some h"
  obtain r g1 where d: "dial e j g = (r, g1)" by fastforce
  have "handled_ok e m j (case a of Err x \<Rightarrow> fail_and_ack e j msg g2 | Panic \<Rightarrow> Crashed | Ok u \<Rightarrow> build_and_settle e m j fresh g2)"
    for a :: "(report, unit) res" and msg fresh g2
    by (cases a) (simp_all add: fail_and_ack_ok build_and_settle_ok handled_ok_def [of _ _ _ Crashed])
  then show ?thesis using h d
    by (cases r) (auto simp: perform_job_def fail_and_ack_ok handled_ok_def [of _ _ _ Crashed])
qed

text \<open>
  C10: A worker acknowledges a job only after it has dealt with it, as long as the queue confirms what
  is published. For every message that decodes and that the worker comes to an end with, either the
  message is refused for another worker, or exactly one message is published, the result of this job or
  this very request for a larger worker, and then the job is acknowledged.
\<close>

theorem acked_job_was_reported:
  assumes "decode_job m = Ok j" and "process_message e delivered m g = Some (Handled evs g')" and "queue_up e"
  shows "evs = [Nacked] \<and> \<not> worker_capabilities_satisfy (ws_classes e) (wj_required_features j) \<or>
    (\<exists>subject msg. evs = [Published subject msg True, Acked] \<and>
      ((\<exists>out artifacts lk. subject = ''kubernix.results.'' @ wj_job_id j \<and> msg = ResultMsg (encode_result out artifacts lk)) \<or>
       subject = ''kubernix.jobs.'' @ ws_system e @ ''.big-parallel'' \<and> msg = RequestMsg m))"
proof (cases "evs = [Nacked]")
  case True
  have "\<not> handled_ok e m j (Handled evs g')"
    using True by (auto simp: handled_ok_def reported_def)
  then show ?thesis
    using assms True fail_and_ack_ok [of e m j "no_worker_message j" g] perform_job_ok [of e m j g "Handled evs g'"]
    by (auto simp: process_message_def split: if_splits)
next
  case False
  then have "handled_ok e m j (Handled evs g')"
    using assms(1,2) fail_and_ack_ok [of e m j "no_worker_message j" g] perform_job_ok [of e m j g "Handled evs g'"]
    by (auto simp: process_message_def split: if_splits)
  then obtain ev where "evs = [ev, Acked]" "reported e m j True ev"
    using assms(3) unfolding handled_ok_def by auto
  then show ?thesis unfolding reported_def by blast
qed

subsection \<open>A message comes to an end\<close>

text \<open>What is outside of the worker may fail but does not take the worker down.\<close>

definition shop_sound :: "'g shop \<Rightarrow> bool" where
  "shop_sound e \<longleftrightarrow> reports (outside.truncate e) \<and>
     (\<forall>vm p g. fst (wk_nar e vm p g) \<noteq> Panic) \<and> (\<forall>url bs g. fst (wk_put e url bs g) \<noteq> Panic) \<and>
     (\<forall>p g. fst (wk_query_references e p g) \<noteq> Panic) \<and> (\<forall>p g. fst (wk_query_deriver e p g) \<noteq> Panic) \<and>
     (\<forall>t g. fst (ws_ensure_vm e t g) \<noteq> Panic) \<and> (\<forall>g. fst (ws_connect e g) \<noteq> Panic)"

definition worker_sound :: "'g worker \<Rightarrow> bool" where
  "worker_sound e \<longleftrightarrow> reports (outside.truncate e) \<and>
     (\<forall>vm p g. fst (wk_nar e vm p g) \<noteq> Panic) \<and> (\<forall>url bs g. fst (wk_put e url bs g) \<noteq> Panic) \<and>
     (\<forall>p g. fst (wk_query_references e p g) \<noteq> Panic) \<and> (\<forall>p g. fst (wk_query_deriver e p g) \<noteq> Panic)"

lemma shop_worker_sound: "shop_sound e \<Longrightarrow> worker_sound (worker.truncate e)"
  by (simp add: shop_sound_def worker_sound_def worker.truncate_def outside.truncate_def)

lemma from_full_no_panic: "from_full_or_err dir p \<noteq> Panic"
  by (simp add: from_full_or_err_def split: option.split)

lemma misconfigured_no_panic: "misconfigured (collect_res (map (from_full_or_err dir) ps)) \<noteq> Panic"
  "misconfigured (from_full_or_err dir p) \<noteq> Panic"
proof -
  have "collect_res (map (from_full_or_err dir) ps) \<noteq> Panic"
    by (rule collect_res_not_Panic) (auto simp: from_full_no_panic)
  then show "misconfigured (collect_res (map (from_full_or_err dir) ps)) \<noteq> Panic" "misconfigured (from_full_or_err dir p) \<noteq> Panic"
    by (simp_all add: misconfigured_def res_simps from_full_no_panic)
qed

lemma put_ok_no_panic: "r \<noteq> Panic \<Longrightarrow> put_ok r \<noteq> Panic"
  by (cases r) (auto simp: put_ok_def)

lemma path_metadata_no_panic: "worker_sound e \<Longrightarrow> fst (path_metadata e p g) \<noteq> Panic"
proof -
  assume s: "worker_sound e"
  obtain r g' where q: "og_query (outside.truncate e) (to_full (og_store_dir e) p) g = (r, g')" by fastforce
  then have "r \<noteq> Panic" using s unfolding worker_sound_def reports_def by (metis fst_conv)
  then show ?thesis using q misconfigured_no_panic
    by (auto simp: path_metadata_def res_simps split: option.splits)
qed

lemma query_metadata_no_panic: "worker_sound e \<Longrightarrow> fst (query_path_metadata e p g) \<noteq> Panic"
proof -
  assume s: "worker_sound e"
  obtain r g1 where q: "wk_query_references e (to_full (og_store_dir e) p) g = (r, g1)" by fastforce
  obtain r2 g2 where d: "wk_query_deriver e (to_full (og_store_dir e) p) g1 = (r2, g2)" by fastforce
  have "r \<noteq> Panic" "r2 \<noteq> Panic" using s q d unfolding worker_sound_def by (metis fst_conv)+
  then show ?thesis using q d misconfigured_no_panic
    by (auto simp: query_path_metadata_def res_simps Let_def split: res.splits)
qed

lemma upload_output_no_panic: "worker_sound e \<Longrightarrow> fst (upload_output e vm url key p g) \<noteq> Panic"
proof -
  assume s: "worker_sound e"
  obtain r g1 where n: "wk_nar e vm (to_full (og_store_dir e) p) g = (r, g1)" by fastforce
  then have r: "r \<noteq> Panic" using s unfolding worker_sound_def by (metis fst_conv)
  have put: "put_ok (fst (wk_put e url bs h)) \<noteq> Panic" for bs h
    using s by (intro put_ok_no_panic) (simp add: worker_sound_def)
  have meta: "fst (if vm then path_metadata e p h else query_path_metadata e p h) \<noteq> Panic" for h
    using path_metadata_no_panic [OF s] query_metadata_no_panic [OF s] by simp
  show ?thesis using r n put meta
    by (cases r) (auto simp: upload_output_def dump_hash_and_compress_def Let_def res_simps split_beta split: res.split)
qed

lemma upload_all_no_panic: "worker_sound e \<Longrightarrow> fst (upload_all e vm xs g) \<noteq> Panic"
proof (induction e vm xs g rule: upload_all.induct)
  case (2 e vm p key url rest g)
  obtain r g1 where u: "upload_output e vm url key p g = (r, g1)" by fastforce
  then have "r \<noteq> Panic" using upload_output_no_panic [OF "2.prems"] by (metis fst_conv)
  then show ?case using u 2 by (cases r) (auto simp: res_simps split_beta)
qed simp

lemma artifact_keys_no_panic: "artifact_keys j out \<noteq> Panic"
proof -
  have "collect_res (map (\<lambda>p. bind_res (ok_or [OpaqueCause x] (wk_nar_key t p)) (\<lambda>k. Ok (p, k))) outs) \<noteq> Panic" for x t outs
    by (rule collect_res_not_Panic) (auto simp: res_simps)
  then show ?thesis by (auto simp: artifact_keys_def Let_def res_simps)
qed

lemma upload_artifacts_no_panic:
  assumes "worker_sound e"
  shows "fst (upload_artifacts e vm j out log g) \<noteq> Panic"
proof (cases "artifact_keys j out")
  case (Ok a)
  obtain lk keys where a: "a = (lk, keys)" by fastforce
  obtain r g1 where u: "request_urls (outside.truncate e) (wj_job_id j) (wj_token j) (lk # map snd keys) False g = (r, g1)" by fastforce
  have "r \<noteq> Panic"
    using request_urls_no_panic [of "outside.truncate e"] assms u unfolding worker_sound_def by (metis fst_conv)
  moreover have "fst (upload_log e url lk log g1) \<noteq> Panic" for url
    using assms put_ok_no_panic by (simp add: upload_log_def worker_sound_def split_beta)
  ultimately show ?thesis
    using Ok a u upload_all_no_panic [OF assms]
    by (cases r) (auto simp: upload_artifacts_def split_beta res_simps split: res.split)
qed (use artifact_keys_no_panic [of j out] in \<open>auto simp: upload_artifacts_def\<close>)

lemma dial_no_panic: "shop_sound e \<Longrightarrow> fst (dial e j g) \<noteq> Panic"
proof -
  assume s: "shop_sound e"
  obtain r g1 where d: "ws_ensure_vm e (wj_tenant j) g = (r, g1)" by fastforce
  then have "r \<noteq> Panic" using s unfolding shop_sound_def by (metis fst_conv)
  then show ?thesis using s d by (cases r) (auto simp: dial_def shop_sound_def split_beta res_simps)
qed

lemma not_crashed [simp]:
  "fail_and_ack e j message g \<noteq> Crashed" "escalate e m g \<noteq> Crashed" "report_job e j out artifacts lk g \<noteq> Crashed"
  by (simp_all add: fail_and_ack_def escalate_def report_job_def Let_def split: prod.split)

lemma settle_not_crashed: "shop_sound e \<Longrightarrow> settle e j out log g \<noteq> Crashed"
  using upload_artifacts_no_panic [OF shop_worker_sound, of e "ws_vm e" j out log g]
  by (auto simp: settle_def split: prod.split res.split)

lemma decode_job_no_panic: "decode_job m \<noteq> Panic"
proof -
  have "collect_res (map decode_input ws) \<noteq> Panic" for ws
    by (rule collect_res_not_Panic) (auto simp: decode_input_def res_simps compression_from_str_def split: if_splits)
  then show ?thesis by (auto simp: decode_job_def res_simps)
qed

text \<open>
  If every call to the outside returns, handling a message comes to an end with the message acknowledged,
  refused or left for redelivery, and the worker ready for the next one, whatever these calls answer: it waits
  for no download that cannot arrive, retries a bounded number of times, and crashes only on a derivation that
  the parser itself panics on. A call that never returns, which the code does not guard against everywhere, and
  a client of the daemon that panics are outside of this.
\<close>

theorem process_message_returns:
  assumes "shop_sound e" and "fair (ws_sched e)"
    and "\<forall>j. decode_job m = Ok j \<longrightarrow> declared_outputs j (og_store_dir e) \<noteq> Panic"
  shows "\<exists>evs g'. process_message e delivered m g = Some (Handled evs g')"
proof (cases "decode_job m")
  case (Ok j)
  obtain r g1 where d: "dial e j g = (r, g1)" by fastforce
  have r: "r \<noteq> Panic" using dial_no_panic [OF assms(1), of j g] d by simp
  have ends: "\<exists>evs g'. h = Handled evs g'" if "h \<noteq> Crashed" for h :: "'a handled" using that by (cases h) auto
  have build: "build_and_settle e m j fresh g2 \<noteq> Crashed" for fresh g2
    using assms(3) Ok settle_not_crashed [OF assms(1)]
    by (auto simp: build_and_settle_def split: res.split prod.split loop_end.split)
  have "\<exists>h. perform_job e m j g = Some h \<and> h \<noteq> Crashed"
  proof (cases r)
    case (Ok fresh)
    obtain f g2 where "fetch_inputs (outside.truncate e) (ws_sched e) (wj_job_id j) (wj_token j) (wj_inputs j) (ws_vm e) fresh g1 = Some (f, g2)" "f \<noteq> Panic"
      using fetch_inputs_ends [OF assms(2), of "outside.truncate e"] assms(1) unfolding shop_sound_def by metis
    then show ?thesis using d Ok build by (cases f) (auto simp: perform_job_def)
  qed (use d r in \<open>auto simp: perform_job_def\<close>)
  then show ?thesis using Ok ends [of "fail_and_ack e j (no_worker_message j) g"] ends by (auto simp: process_message_def)
qed (use decode_job_no_panic [of m] in \<open>auto simp: process_message_def\<close>)

subsection \<open>Failures nobody hears of\<close>

definition queue_down :: "'g shop \<Rightarrow> bool" where
  "queue_down e \<longleftrightarrow> (\<forall>subject msg g. fst (ws_publish e subject msg g) \<noteq> Ok ())"

lemma publish_down:
  assumes "queue_down e"
  shows "\<exists>g'. publish_result e j out artifacts lk g =
    (Published (''kubernix.results.'' @ wj_job_id j) (ResultMsg (encode_result out artifacts lk)) False, False, g')"
proof -
  obtain r g' where p: "ws_publish e (''kubernix.results.'' @ wj_job_id j) (ResultMsg (encode_result out artifacts lk)) g = (r, g')"
    by fastforce
  then have "r \<noteq> Ok ()" using assms unfolding queue_down_def by (metis fst_conv)
  then show ?thesis using p by (simp add: publish_result_def Let_def)
qed

text \<open>The job fails before anything is built: no machine, or not all of its inputs.\<close>

definition never_built :: "'g shop \<Rightarrow> job \<Rightarrow> 'g \<Rightarrow> bool" where
  "never_built e j g \<longleftrightarrow>
     (case dial e j g of
        (Err x, g1) \<Rightarrow> True
      | (Panic, g1) \<Rightarrow> False
      | (Ok fresh, g1) \<Rightarrow>
          (case fetch_inputs (outside.truncate e) (ws_sched e) (wj_job_id j) (wj_token j) (wj_inputs j) (ws_vm e) fresh g1 of
             Some (Err x, g2) \<Rightarrow> True
           | _ \<Rightarrow> False))"

lemma never_built_fails: "never_built e j g \<Longrightarrow> \<exists>message g'. perform_job e m j g = Some (fail_and_ack e j message g')"
  by (fastforce simp: never_built_def perform_job_def split: prod.splits res.splits option.splits)

text \<open>
  A job that fails before it is built, while the queue does not confirm, is lost: the failure is not
  published and the request is acknowledged all the same, so no worker sees it again and whoever waits
  for the result waits in vain. Only a result that cannot be published after a build is left
  unacknowledged, for redelivery.
\<close>

theorem unpublished_failure_is_lost:
  assumes "decode_job m = Ok j" and "worker_capabilities_satisfy (ws_classes e) (wj_required_features j)" and "queue_down e"
    and "never_built e j g"
  shows "(\<exists>msg g'. process_message e delivered m g = Some (Handled [Published (''kubernix.results.'' @ wj_job_id j) msg False, Acked] g')) \<and>
    (\<exists>msg h'. report_job e j out artifacts lk h = Handled [Published (''kubernix.results.'' @ wj_job_id j) msg False] h')"
proof
  obtain message g1 where "process_message e delivered m g = Some (fail_and_ack e j message g1)"
    using assms(1,2) never_built_fails [OF assms(4), of m] by (auto simp: process_message_def)
  then show "\<exists>msg g'. process_message e delivered m g = Some (Handled [Published (''kubernix.results.'' @ wj_job_id j) msg False, Acked] g')"
    using publish_down [OF assms(3), of j "outcome_failed message" "[]" None g1] by (auto simp: fail_and_ack_def)
  show "\<exists>msg h'. report_job e j out artifacts lk h = Handled [Published (''kubernix.results.'' @ wj_job_id j) msg False] h'"
    using publish_down [OF assms(3), of j out artifacts lk h] by (auto simp: report_job_def)
qed

subsection \<open>From the frontend's token to the worker's uploads\<close>

lemma dots_append: "CHR ''.'' \<notin> set h \<Longrightarrow> contains_sub ''..'' (h @ t) \<Longrightarrow> contains_sub ''..'' t"
  by (induction h) auto

lemma worker_keys_permitted:
  assumes "wf_tenant t" and "\<forall>h. hash_part p = Some h \<longrightarrow> CHR ''.'' \<notin> set h" and "nar_key t Built p = Some k \<or> log_key t p = Some k"
  shows "key_is_permitted k False t"
proof -
  obtain h where h: "hash_part p = Some h" using assms(3) by (auto simp: nar_key_def log_key_def Option.bind_eq_Some_conv)
  then have dot: "CHR ''.'' \<notin> set h" using assms(2) by blast
  have "\<not> contains_sub ''..'' (h @ ''.nar.zst'')" "\<not> contains_sub ''..'' h"
    using dots_append [OF dot, of "[]"] no_double_dot [OF dot] by auto
  then have "\<not> contains_sub ''..'' (tid_str t @ ''/nar/'' @ h @ ''.nar.zst'')" "\<not> contains_sub ''..'' (tid_str t @ ''/log/'' @ h)"
    using dots_append [of "tid_str t @ ''/nar/''" "h @ ''.nar.zst''"] dots_append [of "tid_str t @ ''/log/''" h] assms(1) by auto
  moreover have "\<not> starts_with (tid_str t @ r) ''/''" for r
    using wf_tenant_no_slash [OF assms(1)] wf_tenant_not_Nil [OF assms(1)] by (cases "tid_str t") auto
  moreover have "strip_prefix (tid_str t @ ''/'') (tid_str t @ CHR ''/'' # r) = Some r" for r
    using strip_prefix_append [of "tid_str t @ ''/''" r] by simp
  ultimately show ?thesis
    using assms(3) h by (auto simp: nar_key_def log_key_def key_is_permitted_def Let_def)
qed

lemma declared_expected:
  assumes "collect_res (map (expected_output d path) outs) = Ok expected"
    and "\<forall>out \<in> set outs. o_algo out \<noteq> [] \<longrightarrow>
      verify_fixed_output (dm_sha d) (dm_store_dir d) (derivation_name path) (o_name out) (o_algo out) (o_hash out) = Some (o_path out)"
  shows "expected = map (\<lambda>out. (o_name out, o_path out)) outs"
proof -
  have "collect_res (map (expected_output d path) outs) = Ok (map (\<lambda>out. (o_name out, o_path out)) outs)"
    using assms(2) by (intro collect_res_map_Ok) (auto simp: expected_output_def)
  then show ?thesis using assms(1) by simp
qed

text \<open>
  C5: A worker that has built a job is given the URLs it asks for. The frontend mints a token for the
  outputs it computed from a derivation; the worker reads the outputs from the same derivation, derives
  the keys of their archives and of the log, and presents the token; the upload service then signs every
  one of them, as long as a fixed output is declared under the path its hash gives and no hash part holds
  a dot.
\<close>

theorem worker_upload_granted:
  assumes "dm_ops d = postgres_ops pub" and "dm_secrets d = postgres_secret_ops pub" and "pg_secret_inv s"
    and "length (dm_fresh_secret d) = 32" and "jwt_ok (dm_jwt d)" and "wf_tenant (dm_tenant d)"
    and "parse drv (dm_store_dir d) = Ok parsed" and "collect_res (map (expected_output d path) (outputs parsed)) = Ok expected"
    and "\<forall>out \<in> set (outputs parsed). o_algo out \<noteq> [] \<longrightarrow>
      verify_fixed_output (dm_sha d) (dm_store_dir d) (derivation_name path) (o_name out) (o_algo out) (o_hash out) = Some (o_path out)"
    and "\<forall>p \<in> insert path (o_path ` set (outputs parsed)). \<forall>h. hash_part p = Some h \<longrightarrow> CHR ''.'' \<notin> set h"
    and "prepare_job d path drv parsed expected staged s = (job, s')"
    and "decode_job (encode_request job) = Ok j" and "declared_outputs j (dm_store_dir d) = Ok outs"
    and "artifact_keys j (OCompleted outs) = Ok (lk, keys)"
    and "\<forall>k. presign False k = Ok (url k)"
  shows "fst (handle (dm_jwt d) (dm_secrets d) presign
      (Ok \<lparr>rq_job_id = wj_job_id j, rq_keys = lk # map snd keys, rq_download = False, rq_token = wj_token j\<rparr>) s') =
    Ok (map url (lk # map snd keys))"
proof -
  have job: "bj_tenant job = dm_tenant d" "bj_derivation_path job = path" "bj_drv job = drv"
    using assms(11) by (auto simp: prepare_job_def Let_def split: prod.splits)
  have "j = worker_job job" using decode_encode_request [of job] assms(6,12) job by simp
  then have j: "wj_tenant j = dm_tenant d" "wj_derivation_path j = path" "wj_drv j = drv" "wj_token j = bj_token job"
    using job by (simp_all add: worker_job_def)
  have outs: "outs = map o_path (outputs parsed)" using assms(7,13) j by (simp add: declared_outputs_def)
  have expected: "snd ` set expected = set outs" using declared_expected [OF assms(8,9)] outs by (simp add: image_image)
  note keys = artifact_keys_Ok [OF assms(14), simplified j outcome.case]
  have log: "key_is_permitted lk False (dm_tenant d)"
    using worker_keys_permitted [OF assms(6)] keys(1) assms(10) by blast
  have nar: "key_is_permitted k False (dm_tenant d) \<and> (\<exists>out \<in> set expected. nar_key (dm_tenant d) Built (snd out) = Some k)"
    if "k \<in> snd ` set keys" for k
  proof -
    obtain p where pk: "(p, k) \<in> set keys" using \<open>k \<in> snd ` set keys\<close> by force
    then have n: "nar_key (dm_tenant d) Built p = Some k" using keys(2) by auto
    have "p \<in> set outs" using pk keys(3) by (metis fst_conv image_eqI set_map)
    then have "p \<in> snd ` set expected" "p \<in> o_path ` set (outputs parsed)" using expected outs by simp_all
    then show ?thesis using n worker_keys_permitted [OF assms(6), of p k] assms(10) by force
  qed
  show ?thesis
    using token_authorizes_iff [OF assms(1-6,11), where rq = "\<lparr>rq_job_id = wj_job_id j, rq_keys = lk # map snd keys, rq_download = False, rq_token = wj_token j\<rparr>"
        and presign = presign and urls = "map url (lk # map snd keys)"] j log keys(1) nar assms(15)
    by (auto simp: list_all_iff)
qed

subsection \<open>One worker\<close>

text \<open>A worker whose machines do not start, and a queue that does or does not confirm.\<close>

definition ex_shop :: "bool \<Rightarrow> unit shop" where
  "ex_shop up = worker.extend ex_worker
     (shop.fields ''x86_64-linux'' [''kvm''] True rev (\<lambda>_ g. (Err [OpaqueCause ''no kernel''], g)) (\<lambda>_ g. (Ok (), g)) (\<lambda>g. (Ok (), g))
        (\<lambda>g. (Ok (), g)) (\<lambda>_ _. \<lparr>mc_reset = id, mc_run = \<lambda>g. (GuestHung, g), mc_status = \<lambda>g. (Ok StatusNone, g),
          mc_wipe = \<lambda>g. (True, g), mc_reconnect = \<lambda>g. (True, g)\<rparr>)
        (\<lambda>_ _ g. (if up then Ok () else Err [OpaqueCause ''no responders''], g)))"

lemma ex_shop_simps [simp]:
  "ws_classes (ex_shop up) = [''kvm'']" "ws_vm (ex_shop up) = True" "ws_sched (ex_shop up) = rev" "ws_system (ex_shop up) = ''x86_64-linux''"
  "ws_ensure_vm (ex_shop up) = (\<lambda>_ g. (Err [OpaqueCause ''no kernel''], g))" "og_store_dir (ex_shop up) = ''/s''"
  "ws_publish (ex_shop up) = (\<lambda>_ _ g. (if up then Ok () else Err [OpaqueCause ''no responders''], g))"
  by (simp_all add: ex_shop_def worker.extend_def shop.fields_def ex_worker_def)

lemma ex_shop_sound: "shop_sound (ex_shop up)"
  by (simp add: shop_sound_def reports_def ex_shop_def worker.extend_def shop.fields_def ex_worker_def outside.truncate_def)

lemma ex_decode: "decode_job (encode_request ex_bjob) = Ok (worker_job ex_bjob)"
  by (rule decode_encode_request) (simp add: ex_bjob_def wf_tenant_def from_wire_def tenant_char_def is_lower_def)

lemma ex_satisfied: "worker_capabilities_satisfy [''kvm''] (wj_required_features (worker_job ex_bjob))"
  by (simp add: worker_job_def ex_bjob_def worker_capabilities_satisfy_def)

lemma ex_outputs: "declared_outputs (worker_job ex_bjob) ''/s'' \<noteq> Panic"
  by (simp add: declared_outputs_def worker_job_def ex_bjob_def parse_def p_u64_def reader_u64_def reader_new_def)

theorem process_message_returns_witness:
  "\<exists>evs g'. process_message (ex_shop False) (Some 1) (encode_request ex_bjob) () = Some (Handled evs g')"
  by (rule process_message_returns [OF ex_shop_sound]) (simp_all add: fair_def ex_decode ex_outputs)

lemma ex_message:
  "\<exists>msg. process_message (ex_shop up) delivered (encode_request ex_bjob) () =
     Some (Handled [Published (''kubernix.results.'' @ wj_job_id (worker_job ex_bjob)) msg up, Acked] ())"
  using ex_satisfied by (cases up)
    (auto simp: process_message_def ex_decode perform_job_def dial_def fail_and_ack_def publish_result_def Let_def)

theorem acked_job_was_reported_witness:
  "\<exists>evs subject msg. process_message (ex_shop True) (Some 1) (encode_request ex_bjob) () = Some (Handled evs ()) \<and>
     evs = [Published subject msg True, Acked]"
proof -
  obtain evs where evs: "process_message (ex_shop True) (Some 1) (encode_request ex_bjob) () = Some (Handled evs ())"
    using ex_message by blast
  have "queue_up (ex_shop True)" by (simp add: queue_up_def)
  from acked_job_was_reported [OF ex_decode evs this] show ?thesis using evs ex_satisfied by auto
qed

theorem unpublished_failure_is_lost_witness:
  "\<exists>msg. process_message (ex_shop False) (Some 1) (encode_request ex_bjob) () =
     Some (Handled [Published (''kubernix.results.'' @ wj_job_id (worker_job ex_bjob)) msg False, Acked] ())"
proof -
  have "queue_down (ex_shop False)" by (simp add: queue_down_def)
  moreover have "never_built (ex_shop False) (worker_job ex_bjob) ()" by (simp add: never_built_def dial_def)
  ultimately show ?thesis
    using unpublished_failure_is_lost [OF ex_decode, of "ex_shop False" "()"] ex_satisfied by (auto simp: unit_eq)
qed

theorem worker_upload_granted_witness:
  "\<exists>job s' j. prepare_job (ex_daemon\<lparr>dm_jwt := ex_tokens\<rparr>) ex_drv_path ex_drv_bytes ex_parsed [(''out'', ex_out_path)] [] pg_empty = (job, s') \<and>
     decode_job (encode_request job) = Ok j \<and>
     fst (handle ex_tokens (postgres_secret_ops id) (\<lambda>_ k. Ok (key_str k))
       (Ok \<lparr>rq_job_id = wj_job_id j, rq_keys = [ObjectKey (''alice/log/'' @ replicate 32 (CHR ''2'')), ObjectKey (''alice/nar/'' @ replicate 32 (CHR ''1'') @ ''.nar.zst'')],
            rq_download = False, rq_token = wj_token j\<rparr>) s') =
     Ok [''alice/log/'' @ replicate 32 (CHR ''2''), ''alice/nar/'' @ replicate 32 (CHR ''1'') @ ''.nar.zst'']"
proof -
  let ?d = "ex_daemon\<lparr>dm_jwt := ex_tokens\<rparr>"
  obtain job s' where p: "prepare_job ?d ex_drv_path ex_drv_bytes ex_parsed [(''out'', ex_out_path)] [] pg_empty = (job, s')"
    by fastforce
  have d: "dm_ops ?d = postgres_ops id" "dm_secrets ?d = postgres_secret_ops id" "length (dm_fresh_secret ?d) = 32" "dm_jwt ?d = ex_tokens"
      "dm_tenant ?d = TenantId ''alice''" "dm_store_dir ?d = ''/s''"
    by (simp_all add: ex_daemon_def)
  have t: "wf_tenant (TenantId ''alice'')" by code_simp
  have job: "bj_tenant job = TenantId ''alice''" "bj_derivation_path job = ex_drv_path" "bj_drv job = ex_drv_bytes"
    using p d(5) by (auto simp: prepare_job_def Let_def split: prod.splits)
  have h: "hash_part ex_drv_path = Some (replicate 32 (CHR ''2''))" by code_simp
  have j: "decode_job (encode_request job) = Ok (worker_job job)" using decode_encode_request [of job] job t by simp
  have outs: "declared_outputs (worker_job job) (dm_store_dir ?d) = Ok [ex_out_path]"
    using ex_parse job d by (simp add: declared_outputs_def worker_job_def ex_parsed_def)
  have keys: "artifact_keys (worker_job job) (OCompleted [ex_out_path]) =
      Ok (ObjectKey (''alice/log/'' @ replicate 32 (CHR ''2'')), [(ex_out_path, ObjectKey (''alice/nar/'' @ replicate 32 (CHR ''1'') @ ''.nar.zst''))])"
    using job h by (simp add: artifact_keys_def wk_keys nar_key_def log_key_def worker_job_def ex_out_path_hash)
  have "pg_secret_inv pg_empty" by (simp add: pg_secret_inv_def pg_empty_def)
  moreover have "parse ex_drv_bytes (dm_store_dir ?d) = Ok ex_parsed" using ex_parse d by simp
  moreover have "collect_res (map (expected_output ?d ex_drv_path) (outputs ex_parsed)) = Ok [(''out'', ex_out_path)]"
    by (simp add: ex_parsed_def expected_output_def)
  moreover have "\<forall>q \<in> insert ex_drv_path (o_path ` set (outputs ex_parsed)). \<forall>x. hash_part q = Some x \<longrightarrow> CHR ''.'' \<notin> set x"
    using h ex_out_path_hash by (simp add: ex_parsed_def)
  ultimately show ?thesis
    using worker_upload_granted [OF d(1,2) _ d(3) _ _ _ _ _ _ p j outs keys, where presign = "\<lambda>_ k. Ok (key_str k)" and url = key_str] p j d t ex_tokens_ok
    by (simp add: ex_parsed_def)
qed

end
