(* ===== verification/Host.thy ===== *)
theory Host
  imports Worker
begin

text \<open>
  The host side of a worker: reading its environment, starting up, the command lines of its machines
  (\<open>VmConfig\<close>, \<open>boot\<close> and \<open>boot_probe\<close> in \<open>worker/src/vm.rs\<close>, \<open>main\<close> in \<open>worker/src/main.rs\<close>) and
  the two timers that run beside a job: the one that keeps the message from being redelivered and the
  one that watches the guest's heartbeat. Times are milliseconds. The lemmas show which subjects a
  worker subscribes to, when a silent guest is noticed, and when a job is given to a second worker.
\<close>

subsection \<open>Environment\<close>

type_synonym environment = "string \<Rightarrow> string option"

definition env_or :: "environment \<Rightarrow> string \<Rightarrow> string \<Rightarrow> string" where
  "env_or vars name fallback = (case vars name of Some v \<Rightarrow> v | None \<Rightarrow> fallback)"

definition parse_u32 :: "string \<Rightarrow> u32 option" where
  "parse_u32 s = Option.bind (parse_u64 s) (\<lambda>v. if unat v < 2 ^ 32 then Some (ucast v) else None)"

definition parse_i64 :: "string \<Rightarrow> int option" where
  "parse_i64 s =
     (let (neg, ds) = (case s of [] \<Rightarrow> (False, []) | c # cs \<Rightarrow> if c = CHR ''-'' then (True, cs) else if c = CHR ''+'' then (False, cs) else (False, s));
          v = (if neg then - int (digits_val ds) else int (digits_val ds))
      in if ds \<noteq> [] \<and> list_all is_dec_digit ds \<and> - (2 ^ 63) \<le> v \<and> v < 2 ^ 63 then Some v else None)"

definition parse_env_or :: "(string \<Rightarrow> 'a option) \<Rightarrow> environment \<Rightarrow> string \<Rightarrow> 'a \<Rightarrow> (report, 'a) res" where
  "parse_env_or from_str vars key fallback =
     (case vars key of
        Some v \<Rightarrow> ok_or [OpaqueCause (''invalid '' @ key)] (from_str v)
      | None \<Rightarrow> Ok fallback)"

definition env_secs :: "environment \<Rightarrow> string \<Rightarrow> u64 \<Rightarrow> u64" where
  "env_secs vars name fallback =
     (case vars name of Some v \<Rightarrow> (case parse_u64 v of Some secs \<Rightarrow> secs | None \<Rightarrow> fallback) | None \<Rightarrow> fallback)"

definition env_positive_i64 :: "environment \<Rightarrow> string \<Rightarrow> int \<Rightarrow> int" where
  "env_positive_i64 vars name fallback =
     (case vars name of
        Some v \<Rightarrow> (case parse_i64 v of Some n \<Rightarrow> if 0 < n then n else fallback | None \<Rightarrow> fallback)
      | None \<Rightarrow> fallback)"

text \<open>An entry of a directory: what following it leads to, and its contents.\<close>

record dir_entry =
  de_metadata :: "(io_kind, bool) res"
  de_contents :: "(io_kind, bytes) res"

definition read_extra_ca_pem :: "environment \<Rightarrow> (string \<Rightarrow> (io_kind, dir_entry list) res) \<Rightarrow> bytes" where
  "read_extra_ca_pem vars read_dir =
     (case vars ''SSL_CERT_DIR'' of
        None \<Rightarrow> []
      | Some dir \<Rightarrow>
          (case read_dir dir of
             Ok entries \<Rightarrow>
               concat (map (\<lambda>e. case (de_metadata e, de_contents e) of (Ok True, Ok bytes) \<Rightarrow> bytes @ [10] | _ \<Rightarrow> []) entries)
           | _ \<Rightarrow> []))"

record vm_config =
  vc_state_dir :: string
  vc_kernel :: string
  vc_initrd :: string
  vc_cloud_hypervisor :: string
  vc_passt :: string
  vc_vcpus :: u32
  vc_memory_mb :: u32
  vc_store_img_size_mb :: u64
  vc_boot_timeout :: u64
  vc_cid :: u32
  vc_probe_cid :: u32

definition vm_config_from_env :: "environment \<Rightarrow> (report, vm_config option) res" where
  "vm_config_from_env vars =
     (case (vars ''KUBERNIX_VM_KERNEL'', vars ''KUBERNIX_VM_INITRD'') of
        (None, None) \<Rightarrow> Ok None
      | (Some kern, Some initrd) \<Rightarrow>
          bind_res (parse_env_or parse_u32 vars ''KUBERNIX_VM_CID'' 3) (\<lambda>cid.
          bind_res (parse_env_or parse_u32 vars ''KUBERNIX_VM_VCPUS'' 1) (\<lambda>vcpus.
          bind_res (parse_env_or parse_u32 vars ''KUBERNIX_VM_MEMORY_MB'' 768) (\<lambda>memory_mb.
          bind_res (parse_env_or parse_u64 vars ''KUBERNIX_VM_STORE_IMG_MB'' 8192) (\<lambda>store_img_size_mb.
          bind_res (parse_env_or parse_u64 vars ''KUBERNIX_VM_BOOT_TIMEOUT_SECS'' 30) (\<lambda>boot_timeout.
          bind_res (parse_env_or parse_u32 vars ''KUBERNIX_VM_PROBE_CID'' (cid + 1)) (\<lambda>probe_cid.
            Ok (Some \<lparr>vc_state_dir = env_or vars ''KUBERNIX_VM_STATE_DIR'' ''/var/lib/kubernix-worker'', vc_kernel = kern, vc_initrd = initrd,
              vc_cloud_hypervisor = env_or vars ''KUBERNIX_VM_CH_BIN'' ''cloud-hypervisor'', vc_passt = env_or vars ''KUBERNIX_VM_PASST_BIN'' ''passt'',
              vc_vcpus = vcpus, vc_memory_mb = memory_mb, vc_store_img_size_mb = store_img_size_mb, vc_boot_timeout = boot_timeout,
              vc_cid = cid, vc_probe_cid = probe_cid\<rparr>)))))))
      | _ \<Rightarrow> Err [OpaqueCause ''KUBERNIX_VM_KERNEL and KUBERNIX_VM_INITRD must both be set, or neither''])"

subsection \<open>Command lines\<close>

definition show_u32 :: "u32 \<Rightarrow> string" where
  "show_u32 v = show_nat (unat v)"

definition kernel_args :: "vm_config \<Rightarrow> string list" where
  "kernel_args c = [''--kernel'', vc_kernel c, ''--initramfs'', vc_initrd c, ''--cmdline'', ''console=ttyS0 reboot=t panic=1'',
     ''--cpus'', ''boot='' @ show_u32 (vc_vcpus c) @ '',nested=on'']"

definition ch_args :: "vm_config \<Rightarrow> string \<Rightarrow> string \<Rightarrow> string \<Rightarrow> string \<Rightarrow> string list" where
  "ch_args c net_socket store_img vsock_socket console_log =
     kernel_args c @
     [''--memory'', ''size='' @ show_u32 (vc_memory_mb c) @ ''M,shared=on'',
      ''--vsock'', ''cid='' @ show_u32 (vc_cid c) @ '',socket='' @ vsock_socket, ''--net'', net_arg net_socket,
      ''--disk'', ''path='' @ store_img @ '',image_type=raw'', ''--console'', ''off'', ''--serial'', ''file='' @ console_log]"

definition probe_args :: "vm_config \<Rightarrow> string \<Rightarrow> string \<Rightarrow> string list" where
  "probe_args c vsock_socket console_log =
     kernel_args c @
     [''--memory'', ''size='' @ show_u32 (vc_memory_mb c) @ ''M'',
      ''--vsock'', ''cid='' @ show_u32 (vc_probe_cid c) @ '',socket='' @ vsock_socket, ''--console'', ''off'', ''--serial'', ''file='' @ console_log]"

text \<open>The probe: preparing and spawning it, waiting for the control port, and asking the guest.\<close>

definition boot_probe :: "(report, unit) res \<Rightarrow> (io_kind, bool \<times> bytes option) res list \<Rightarrow> (report, u32) res \<Rightarrow> (report, u32) res" where
  "boot_probe launched dials caps =
     bind_res launched (\<lambda>_.
     bind_res (map_err (\<lambda>_. [OpaqueCause ''waiting for guest-agent's control port'']) (wait_for_vsock_ready dials)) (\<lambda>_. caps))"

text \<open>
  Keeping the connection that \<open>handshake_once\<close> drops: the dial, the write of the request and the one
  read of the reply.
\<close>

definition vm_connect :: "(io_kind, bool \<times> bytes option) res \<Rightarrow> (report, unit) res" where
  "vm_connect dialed =
     (case dialed of
        Err _ \<Rightarrow> Err [OpaqueCause ''dialing the vsock socket'']
      | Panic \<Rightarrow> Panic
      | Ok (written, reply) \<Rightarrow>
          if \<not> written then Err [OpaqueCause ''sending the vsock CONNECT handshake'']
          else case reply of
            None \<Rightarrow> Err [OpaqueCause ''reading the vsock CONNECT reply'']
          | Some buf \<Rightarrow> if starts_with buf (as_bytes ''OK'') then Ok () else Err [OpaqueCause ''vsock CONNECT refused''])"

subsection \<open>Start-up\<close>

text \<open>
  The images a previous process left, by the name of their directory; removing one may fail.
\<close>

fun wipe_entries :: "(string \<Rightarrow> io_kind option) \<Rightarrow> string list \<Rightarrow> string set \<Rightarrow> (report, unit) res \<times> string set" where
  "wipe_entries failure [] images = (Ok (), images)"
| "wipe_entries failure (name # names) images =
     (if name \<notin> images then wipe_entries failure names images
      else case failure name of
             Some k \<Rightarrow> (Err [OpaqueCause ''removing a store image''], images)
           | None \<Rightarrow> wipe_entries failure names (images - {name}))"

definition wipe_orphaned_store_images ::
  "(io_kind, string list) res \<Rightarrow> (string \<Rightarrow> io_kind option) \<Rightarrow> string set \<Rightarrow> (report, unit) res \<times> string set" where
  "wipe_orphaned_store_images listing failure images =
     (case listing of
        Err k \<Rightarrow> if k = NotFound then (Ok (), images) else (Err [OpaqueCause ''reading the tenants directory''], images)
      | Panic \<Rightarrow> (Panic, images)
      | Ok names \<Rightarrow> wipe_entries failure names images)"

text \<open>What a worker finds on its host when it starts.\<close>

record host =
  ho_env :: environment
  ho_listing :: "(io_kind, string list) res"
  ho_failure :: "string \<Rightarrow> io_kind option"
  ho_images :: "string set"
  ho_uid_map :: string
  ho_probe :: "(report, u32) res"

definition capability_classes :: "environment \<Rightarrow> vm_config option \<Rightarrow> (report, u32) res \<Rightarrow> string list" where
  "capability_classes vars config probe =
     parse_static_worker_classes (env_or vars ''KUBERNIX_WORKER_CLASSES'' []) @
     (case (config, probe) of (Some _, Ok n) \<Rightarrow> if 0 < n then [''kvm''] else [] | _ \<Rightarrow> [])"

definition worker_start :: "host \<Rightarrow> (report, vm_pool option \<times> string list \<times> string) res \<times> string set" where
  "worker_start h =
     (case vm_config_from_env (ho_env h) of
        Err e \<Rightarrow> (Err e, ho_images h)
      | Panic \<Rightarrow> (Panic, ho_images h)
      | Ok config \<Rightarrow>
          (let (wiped, images) = (case config of
                 None \<Rightarrow> (Ok (), ho_images h)
               | Some c \<Rightarrow> wipe_orphaned_store_images (ho_listing h) (ho_failure h) (ho_images h))
           in (bind_res (map_err (wrap_err ''wiping orphaned tenant store images'') wiped) (\<lambda>_.
               bind_res (case config of None \<Rightarrow> Ok None | Some c \<Rightarrow> bind_res (pool_new (vc_state_dir c) (ho_uid_map h)) (\<lambda>p. Ok (Some p))) (\<lambda>pool.
               bind_res (worker_subjects_and_consumer (env_or (ho_env h) ''NIX_SYSTEM'' ''x86_64-linux'')
                 (capability_classes (ho_env h) config (ho_probe h)) (ho_env h ''KUBERNIX_WORKER_EXCLUSIVE_CLASSES'' \<noteq> None)) (\<lambda>(subjects, consumer).
                 Ok (pool, subjects, consumer)))), images)))"

subsection \<open>The guest's heartbeat\<close>

definition HEARTBEAT_INTERVAL :: nat where
  "HEARTBEAT_INTERVAL = 5000"

text \<open>What the publisher sends: when, its counter, and the part of it on the wire.\<close>

definition heartbeat_publisher :: "nat \<Rightarrow> nat \<Rightarrow> (nat \<times> u64 \<times> u32) list" where
  "heartbeat_publisher start n = map (\<lambda>k. (start + k * HEARTBEAT_INTERVAL, of_nat k, ucast (of_nat k :: u64))) [0..<n]"

definition heartbeat_is_stale :: "nat \<Rightarrow> nat \<Rightarrow> nat \<Rightarrow> bool" where
  "heartbeat_is_stale last_seen now deadline \<longleftrightarrow> deadline \<le> now - last_seen"

text \<open>The subscription: heartbeats and its end, each at a time. The result is when the monitor gives up.\<close>

datatype beat = Beat nat | Closed nat

fun monitor_loop :: "nat \<Rightarrow> nat \<Rightarrow> beat list \<Rightarrow> nat" where
  "monitor_loop deadline last_seen [] = last_seen + deadline"
| "monitor_loop deadline last_seen (Beat t # es) =
     (if t \<le> last_seen + deadline then monitor_loop deadline t es else last_seen + deadline)"
| "monitor_loop deadline last_seen (Closed t # es) = (if t \<le> last_seen + deadline then t else last_seen + deadline)"

definition guest_heartbeat_monitor :: "nat \<Rightarrow> nat \<Rightarrow> bool \<Rightarrow> bool \<Rightarrow> beat list \<Rightarrow> nat" where
  "guest_heartbeat_monitor deadline start connected subscribed es =
     (if connected \<and> subscribed then monitor_loop deadline start es else start)"

subsection \<open>The timer of a delivered message\<close>

text \<open>The times at which the heartbeat of one phase resets the timer: not at its start, then at every interval.\<close>

definition ack_heartbeat :: "nat \<Rightarrow> nat \<Rightarrow> nat \<Rightarrow> nat list" where
  "ack_heartbeat interval start duration = map (\<lambda>k. start + Suc k * interval) [0..<(duration - 1) div interval]"

text \<open>
  The phases of a job whose build ends on the first attempt: reaching the machine, the inputs under a
  heartbeat, the build under another, and uploading and publishing.
\<close>

definition ack_resets :: "nat \<Rightarrow> nat \<Rightarrow> nat \<Rightarrow> nat \<Rightarrow> nat list" where
  "ack_resets interval dialing fetching building =
     ack_heartbeat interval dialing fetching @ ack_heartbeat interval (dialing + fetching) building"

fun overdue :: "nat \<Rightarrow> nat \<Rightarrow> nat list \<Rightarrow> bool" where
  "overdue ack_wait reset [] = False"
| "overdue ack_wait reset (t # ts) = (ack_wait \<le> t - reset \<or> overdue ack_wait t ts)"

definition redelivered :: "nat \<Rightarrow> nat \<Rightarrow> nat \<Rightarrow> nat \<Rightarrow> nat \<Rightarrow> nat \<Rightarrow> bool" where
  "redelivered ack_wait interval dialing fetching building uploading =
     overdue ack_wait 0 (ack_resets interval dialing fetching building @ [dialing + fetching + building + uploading])"

subsection \<open>What a worker starts with\<close>

lemma wipe_entries_Ok: "wipe_entries failure names images = (Ok (), images') \<Longrightarrow> images' = images - set names"
  by (induction names arbitrary: images) (auto split: if_splits option.splits)

lemma static_classes: "set (parse_static_worker_classes v) \<subseteq> {''big-parallel''}"
  by (auto simp: parse_static_worker_classes_def)

lemma kvm_subject_iff:
  assumes "worker_subjects_and_consumer system (parse_static_worker_classes v @ probed) exclusive = Ok (subjects, consumer)"
  shows "''kubernix.jobs.'' @ system @ ''.kvm'' \<in> set subjects \<longleftrightarrow> ''kvm'' \<in> set probed"
  using assms static_classes [of v] by (auto simp: worker_subjects_and_consumer_def Let_def split: if_splits)

text \<open>
  A worker that starts pulls jobs that need nested virtualization exactly when it has machines and
  its own probe saw the feature inside of a guest; no environment variable can declare it. It has a pool
  of machines exactly when kernel and image are configured, and then no image of a previous process
  that it listed is left, and its pool knows of none: the first boot of every tenant is a fresh one.
\<close>

theorem worker_starts_probed:
  assumes "worker_start h = (Ok (pool, subjects, consumer), images)"
  shows "(''kubernix.jobs.'' @ env_or (ho_env h) ''NIX_SYSTEM'' ''x86_64-linux'' @ ''.kvm'' \<in> set subjects \<longleftrightarrow>
      pool \<noteq> None \<and> (\<exists>n. ho_probe h = Ok n \<and> 0 < n)) \<and>
    (pool \<noteq> None \<longleftrightarrow> ho_env h ''KUBERNIX_VM_KERNEL'' \<noteq> None \<and> ho_env h ''KUBERNIX_VM_INITRD'' \<noteq> None) \<and>
    (case pool of None \<Rightarrow> images = ho_images h
     | Some p \<Rightarrow> vp_images p = Map.empty \<and> (\<forall>names. ho_listing h = Ok names \<longrightarrow> images = ho_images h - set names))"
proof -
  obtain config where config: "vm_config_from_env (ho_env h) = Ok config"
    using assms by (cases "vm_config_from_env (ho_env h)") (auto simp: worker_start_def)
  have configured: "config \<noteq> None \<longleftrightarrow> ho_env h ''KUBERNIX_VM_KERNEL'' \<noteq> None \<and> ho_env h ''KUBERNIX_VM_INITRD'' \<noteq> None"
    using config by (auto simp: vm_config_from_env_def bind_res_Ok_iff split: option.splits)
  show ?thesis
  proof (cases config)
    case None
    then have subj: "worker_subjects_and_consumer (env_or (ho_env h) ''NIX_SYSTEM'' ''x86_64-linux'')
        (parse_static_worker_classes (env_or (ho_env h) ''KUBERNIX_WORKER_CLASSES'' []) @ []) (ho_env h ''KUBERNIX_WORKER_EXCLUSIVE_CLASSES'' \<noteq> None) =
        Ok (subjects, consumer)" and none: "pool = None" "images = ho_images h"
      using assms config by (auto simp: worker_start_def bind_res_Ok_iff capability_classes_def)
    show ?thesis using configured None none kvm_subject_iff [OF subj] by simp
  next
    case (Some c)
    obtain wiped images' where wipe: "wipe_orphaned_store_images (ho_listing h) (ho_failure h) (ho_images h) = (wiped, images')" by fastforce
    have "images' = ho_images h - set names" if "ho_listing h = Ok names" "wiped = Ok ()" for names
      using wipe that wipe_entries_Ok by (auto simp: wipe_orphaned_store_images_def)
    moreover obtain p where "pool_new (vc_state_dir c) (ho_uid_map h) = Ok p" "pool = Some p" "wiped = Ok ()" "images = images'"
      and subj: "worker_subjects_and_consumer (env_or (ho_env h) ''NIX_SYSTEM'' ''x86_64-linux'')
        (capability_classes (ho_env h) config (ho_probe h)) (ho_env h ''KUBERNIX_WORKER_EXCLUSIVE_CLASSES'' \<noteq> None) = Ok (subjects, consumer)"
      using assms Some config wipe by (auto simp: worker_start_def bind_res_Ok_iff map_err_Ok_iff)
    moreover have "vp_images p = Map.empty" if "pool_new (vc_state_dir c) (ho_uid_map h) = Ok p"
      using that by (auto simp: pool_new_def bind_res_Ok_iff)
    moreover have "''kubernix.jobs.'' @ env_or (ho_env h) ''NIX_SYSTEM'' ''x86_64-linux'' @ ''.kvm'' \<in> set subjects \<longleftrightarrow>
        (\<exists>n. ho_probe h = Ok n \<and> 0 < n)"
      using kvm_subject_iff [OF subj [unfolded capability_classes_def]] Some by (cases "ho_probe h") auto
    ultimately show ?thesis using configured Some by auto
  qed
qed

definition ex_host :: host where
  "ex_host = \<lparr>ho_env = [''KUBERNIX_VM_KERNEL'' \<mapsto> ''bzImage'', ''KUBERNIX_VM_INITRD'' \<mapsto> ''initrd'', ''KUBERNIX_VM_STATE_DIR'' \<mapsto> ''/v'',
       ''KUBERNIX_WORKER_CLASSES'' \<mapsto> ''kvm''],
     ho_listing = Ok [''alice''], ho_failure = (\<lambda>_. None), ho_images = {''alice''}, ho_uid_map = ''0 0 2001'', ho_probe = Ok 0\<rparr>"

lemma ex_start: "worker_start ex_host = (Ok (Some ex_pool, [''kubernix.jobs.x86_64-linux''], ''worker-x86_64_linux''), {})"
proof -
  have "trim ''kvm'' = ''kvm''"
    by (simp add: trim_def trim_start.simps [of "''kvm''"] trim_end.simps [of "''kvm''"] ws_prefix_graphic ws_suffix_graphic graphic_def)
  then have "parse_static_worker_classes ''kvm'' = []" by (simp add: parse_static_worker_classes_def)
  then show ?thesis
    by (simp add: worker_start_def ex_host_def vm_config_from_env_def parse_env_or_def env_or_def wipe_orphaned_store_images_def
        ex_pool_new capability_classes_def worker_subjects_and_consumer_def replace_dash_def)
qed

theorem worker_starts_probed_witness: "''kubernix.jobs.x86_64-linux.kvm'' \<notin> set [''kubernix.jobs.x86_64-linux''] \<and> vp_images ex_pool = Map.empty"
  using worker_starts_probed [OF ex_start] by (simp add: ex_host_def env_or_def)

subsection \<open>A silent guest is noticed\<close>

lemma monitor_steady:
  "\<forall>k < length ts. (last_seen # ts) ! Suc k \<le> (last_seen # ts) ! k + deadline \<Longrightarrow>
   monitor_loop deadline last_seen (map Beat ts) = last (last_seen # ts) + deadline"
proof (induction ts arbitrary: last_seen)
  case (Cons t ts)
  have "t \<le> last_seen + deadline" using Cons.prems [rule_format, of 0] by simp
  moreover have "\<forall>k < length ts. (t # ts) ! Suc k \<le> (t # ts) ! k + deadline"
  proof (intro allI impI)
    fix k assume "k < length ts"
    then show "(t # ts) ! Suc k \<le> (t # ts) ! k + deadline" using Cons.prems [rule_format, of "Suc k"] by simp
  qed
  ultimately show ?case using Cons.IH [of t] by simp
qed simp

text \<open>
  A guest that publishes its heartbeat on its interval is never given up on while it does, if each
  beat is delayed by less than what the deadline leaves over the interval; and once it falls silent it
  is given up on exactly one deadline after the last beat arrived.
\<close>

theorem silent_guest_noticed:
  assumes "0 < n" and "\<forall>k < n. delay k \<le> slack" and "HEARTBEAT_INTERVAL + slack \<le> deadline"
    and "publishing + slack \<le> start + deadline"
  shows "guest_heartbeat_monitor deadline start True True
      (map Beat (map (\<lambda>k. fst (heartbeat_publisher publishing n ! k) + delay k) [0..<n])) =
    publishing + (n - 1) * HEARTBEAT_INTERVAL + delay (n - 1) + deadline"
proof -
  let ?t = "\<lambda>k. publishing + k * HEARTBEAT_INTERVAL + delay k"
  have ts: "map (\<lambda>k. fst (heartbeat_publisher publishing n ! k) + delay k) [0..<n] = map ?t [0..<n]"
    by (simp add: heartbeat_publisher_def)
  have gaps: "(start # map ?t [0..<n]) ! Suc k \<le> (start # map ?t [0..<n]) ! k + deadline" if "k < n" for k
  proof (cases k)
    case 0
    have "delay 0 \<le> slack" using assms(1,2) by blast
    then show ?thesis using 0 assms(1,4) by simp
  next
    case (Suc j)
    have "delay k \<le> slack" using that assms(2) by blast
    then show ?thesis using Suc that assms(3) by simp
  qed
  have "last (start # map ?t [0..<n]) = ?t (n - 1)" using assms(1) by (cases n) simp_all
  then show ?thesis using monitor_steady [of "map ?t [0..<n]" start deadline] gaps
    by (simp add: ts guest_heartbeat_monitor_def)
qed

theorem silent_guest_noticed_witness:
  "guest_heartbeat_monitor 20000 0 True True (map Beat (map (\<lambda>k. fst (heartbeat_publisher 10 3 ! k) + 7) [0..<3])) = 30017"
  using silent_guest_noticed [of 3 "\<lambda>_. 7" 7 20000 10 0] by (simp add: HEARTBEAT_INTERVAL_def)

subsection \<open>When a job is given to a second worker\<close>

lemma overdue_steps:
  "i < w \<Longrightarrow> overdue w (s + k * i) (map (\<lambda>j. s + Suc j * i) [k..<n] @ rest) = overdue w (s + max k n * i) rest"
proof (induction "n - k" arbitrary: k)
  case 0
  then show ?case by (simp add: max_def)
next
  case (Suc d)
  then have "[k..<n] = k # [Suc k..<n]" "d = n - Suc k" "Suc k \<le> n" by (simp_all add: upt_conv_Cons)
  then show ?case using Suc.hyps(1) [of "Suc k"] Suc.prems Suc.hyps(2) by (simp add: max_def)
qed

text \<open>Where the timer stands after a phase under a heartbeat.\<close>

definition reset_after :: "nat \<Rightarrow> nat \<Rightarrow> nat \<Rightarrow> nat \<Rightarrow> nat" where
  "reset_after interval start duration reset = (if duration \<le> interval then reset else start + ((duration - 1) div interval) * interval)"

lemma overdue_phase:
  assumes "0 < i" and "i < w" and "start + i - reset < w"
  shows "overdue w reset (ack_heartbeat i start duration @ rest) = overdue w (reset_after i start duration reset) rest"
proof (cases "duration \<le> i")
  case True
  then have "(duration - 1) div i = 0" using assms(1) by (intro div_less) linarith
  then show ?thesis using True by (simp add: ack_heartbeat_def reset_after_def)
next
  case False
  let ?n = "(duration - 1) div i"
  have n: "0 < ?n" using False assms(1) by (simp add: div_greater_zero_iff)
  then have "[0..<?n] = 0 # [1..<?n]" by (simp add: upt_conv_Cons)
  then have "overdue w reset (ack_heartbeat i start duration @ rest) = overdue w (start + 1 * i) (map (\<lambda>j. start + Suc j * i) [1..<?n] @ rest)"
    using assms(3) by (simp add: ack_heartbeat_def)
  also have "\<dots> = overdue w (start + ?n * i) rest" using overdue_steps [OF assms(2), of start 1 ?n rest] n by (simp add: max_def)
  finally show ?thesis using False by (simp add: reset_after_def)
qed

lemma last_tick:
  fixes duration i :: nat
  shows "(duration - 1) div i * i \<le> duration" and "0 < i \<Longrightarrow> duration \<le> (duration - 1) div i * i + i"
proof -
  have "(duration - 1) div i * i + (duration - 1) mod i = duration - 1" by (rule div_mult_mod_eq)
  moreover have "(duration - 1) mod i < i" if "0 < i" using that by simp
  ultimately show "(duration - 1) div i * i \<le> duration" "0 < i \<Longrightarrow> duration \<le> (duration - 1) div i * i + i" by linarith+
qed

lemma reset_after_bounds:
  "0 < i \<Longrightarrow> start + duration \<le> reset_after i start duration reset + i \<or> duration \<le> i \<and> reset_after i start duration reset = reset"
  using last_tick(2) [of i duration] by (simp add: reset_after_def)

lemma overdue_last: "r \<le> m \<Longrightarrow> \<forall>t \<in> set ts. t \<le> m \<Longrightarrow> w \<le> e - m \<Longrightarrow> overdue w r (ts @ [e])"
  by (induction ts arbitrary: r) auto

lemma ack_heartbeat_within: "t \<in> set (ack_heartbeat i start duration) \<Longrightarrow> t \<le> start + duration"
proof -
  assume "t \<in> set (ack_heartbeat i start duration)"
  then obtain k where "k < (duration - 1) div i" and t: "t = start + Suc k * i" unfolding ack_heartbeat_def by fastforce
  then have "Suc k * i \<le> (duration - 1) div i * i" by (intro mult_le_mono1) simp
  then show ?thesis using t last_tick(1) [of duration i] by linarith
qed

text \<open>
  The heartbeat of a message protects the inputs and the build of a job, however long they take: if
  reaching the machine, uploading and two intervals together are shorter than the time the queue waits,
  the job is not given to a second worker. The upload is not protected: one that takes as long as the
  queue waits is, whatever came before, while the first worker is alive and at work.
\<close>

theorem long_upload_redelivered:
  assumes "0 < interval"
  shows "(dialing + uploading + 2 * interval < ack_wait \<longrightarrow> \<not> redelivered ack_wait interval dialing fetching building uploading) \<and>
    (ack_wait \<le> uploading \<longrightarrow> redelivered ack_wait interval dialing fetching building uploading)"
proof (intro conjI impI)
  assume short: "dialing + uploading + 2 * interval < ack_wait"
  let ?r1 = "reset_after interval dialing fetching 0" and ?done_at = "dialing + fetching + building + uploading"
  let ?r2 = "reset_after interval (dialing + fetching) building ?r1"
  note r1 = reset_after_bounds [OF assms, of dialing fetching 0] and r2 = reset_after_bounds [OF assms, of "dialing + fetching" building ?r1]
  have "redelivered ack_wait interval dialing fetching building uploading =
      overdue ack_wait ?r1 (ack_heartbeat interval (dialing + fetching) building @ [?done_at])"
    using overdue_phase [OF assms, of ack_wait dialing 0 fetching] short by (simp add: redelivered_def ack_resets_def)
  also have "\<dots> = overdue ack_wait ?r2 [?done_at]"
  proof (rule overdue_phase [OF assms])
    show "dialing + fetching + interval - ?r1 < ack_wait" using r1 short by linarith
  qed (use short in linarith)
  also have "\<dots> = False" using r1 r2 short by auto
  finally show "\<not> redelivered ack_wait interval dialing fetching building uploading" by simp
next
  assume "ack_wait \<le> uploading"
  moreover have "\<forall>t \<in> set (ack_resets interval dialing fetching building). t \<le> dialing + fetching + building"
    by (auto simp: ack_resets_def dest!: ack_heartbeat_within)
  ultimately show "redelivered ack_wait interval dialing fetching building uploading"
    unfolding redelivered_def by (intro overdue_last [where m = "dialing + fetching + building"]) simp_all
qed

theorem long_upload_redelivered_witness:
  "\<not> redelivered 90000 20000 3000 600000 7200000 30000 \<and> redelivered 90000 20000 3000 600000 7200000 90000"
  using long_upload_redelivered [of 20000 3000 30000 90000 600000 7200000] long_upload_redelivered [of 20000 3000 90000 90000 600000 7200000]
  by simp

end
