(* ===== verification/Auth.thy ===== *)
theory Auth
  imports Admin
begin

text \<open>
  Who a connection is served as: the SSH frontend (\<open>server/src/ssh.rs\<close>) and the mutual-TLS frontend
  (\<open>server/src/tls.rs\<close>), over the credentials of \<open>tenant_auth_bindings\<close>. The SSH and TLS engines
  and the X.509 parser are parameters. The locale \<open>tenant_auth\<close> states what both frontends rely on;
  both stores interpret it. The lemmas show that an SSH channel is served only for a bound key (or the
  claimed name, where that is configured) and only once, which certificate chain leads to which
  tenant, and how the end of a chain can be made to lead to another.
\<close>

subsection \<open>Resolving credentials\<close>

record 's tenant_auth_ops =
  ta_find :: "key_type \<Rightarrow> string \<Rightarrow> 's \<Rightarrow> (store_error, tenant_id option) res"
  ta_roots :: "'s \<Rightarrow> (store_error, bytes list) res"

definition memory_auth :: "memory_store tenant_auth_ops" where
  "memory_auth = \<lparr>ta_find = (\<lambda>_ _ _. Ok None), ta_roots = (\<lambda>_. Ok [])\<rparr>"

definition postgres_auth :: "(bytes \<Rightarrow> bytes) \<Rightarrow> pg tenant_auth_ops" where
  "postgres_auth pub = \<lparr>ta_find = pg_find_tenant_by_binding pub, ta_roots = pg_trusted_client_roots pub\<rparr>"

subsection \<open>The SSH session\<close>

datatype auth_policy = AcceptAll | RequireKey

datatype auth_reply = Accept | Reject

record ssh_handler =
  sh_user :: "string option"
  sh_tenant :: "tenant option"
  sh_channels :: "u32 set"

text \<open>What the frontend does on the session, the tasks it spawns included.\<close>

datatype ssh_effect =
    ChannelSuccess u32
  | ChannelFailure u32
  | Data u32 string
  | ExtendedData u32 string
  | Eof u32
  | ExitStatus u32 nat
  | CloseChannel u32
  | ServeRpc u32 tenant

record 's ssh_server =
  ss_policy :: auth_policy
  ss_store :: "'s store_ops"
  ss_auth :: "'s tenant_auth_ops"
  ss_sha :: "bytes \<Rightarrow> bytes"
  ss_crypto :: crypto
  ss_seed :: bytes

definition new_client :: ssh_handler where
  "new_client = \<lparr>sh_user = None, sh_tenant = None, sh_channels = {}\<rparr>"

definition auth_none :: "'s ssh_server \<Rightarrow> string \<Rightarrow> ssh_handler \<Rightarrow> auth_reply \<times> ssh_handler" where
  "auth_none srv user h =
     (case ss_policy srv of
        AcceptAll \<Rightarrow> (Accept, h\<lparr>sh_user := Some user, sh_tenant := Some (tenant_from_ssh (ss_sha srv) user None False)\<rparr>)
      | RequireKey \<Rightarrow> (Reject, h))"

definition auth_publickey :: "'s ssh_server \<Rightarrow> string \<Rightarrow> string \<Rightarrow> 's \<Rightarrow> ssh_handler \<Rightarrow> auth_reply \<times> ssh_handler" where
  "auth_publickey srv user fingerprint s h =
     (case ta_find (ss_auth srv) Ssh fingerprint s of
        Ok (Some tid) \<Rightarrow>
          (Accept, h\<lparr>sh_user := Some user,
             sh_tenant := Some \<lparr>t_id = tid, t_identity = ''key:'' @ fingerprint, t_verified = True\<rparr>\<rparr>)
      | _ \<Rightarrow> (Reject, h))"

definition greeting_name :: "ssh_handler \<Rightarrow> string" where
  "greeting_name h =
     (case sh_tenant h of
        Some tn \<Rightarrow> tid_str (t_id tn)
      | None \<Rightarrow> (case sh_user h of Some user \<Rightarrow> user | None \<Rightarrow> ''there''))"

text \<open>The dash of the message is one code point of three bytes.\<close>

definition shell_request :: "u32 \<Rightarrow> ssh_handler \<Rightarrow> ssh_effect list \<times> ssh_handler" where
  "shell_request ch h =
     ([ChannelSuccess ch,
       Data ch (''hey '' @ greeting_name h @ '', you've successfully authenticated, but kubernix has no shell to give you '' @
         map char_of [226 :: nat, 128, 148] @ '' use the lix plugin instead.'' @ [newline]),
       Eof ch, ExitStatus ch 1, CloseChannel ch],
      h\<lparr>sh_channels := sh_channels h - {ch}\<rparr>)"

definition channel_open_session :: "u32 \<Rightarrow> ssh_handler \<Rightarrow> ssh_handler" where
  "channel_open_session ch h = h\<lparr>sh_channels := insert ch (sh_channels h)\<rparr>"

definition is_stdio_request :: "string \<Rightarrow> bool" where
  "is_stdio_request command \<longleftrightarrow> ''--stdio'' \<in> set (split_whitespace command)"

definition whoami_response :: "'s ssh_server \<Rightarrow> tenant_id \<Rightarrow> 's \<Rightarrow> string \<times> 's" where
  "whoami_response srv t s =
     (case op_signer (ss_store srv) t (ss_seed srv) s of
        (signer, s) \<Rightarrow>
          (''tenant '' @ tid_str t @ [newline] @
           (case signer of None \<Rightarrow> [] | Some sg \<Rightarrow> ''key '' @ public_key_string (ss_crypto srv) sg @ [newline]) @
           concat (map (\<lambda>(url, pk). ''substituter '' @ slug_for url @ '' '' @ url @ '' '' @ pk @ [newline])
             (op_trusted_substituters (ss_store srv) t s)), s))"

definition unsupported_message :: "string \<Rightarrow> string" where
  "unsupported_message command =
     ''kubernix: unsupported command: '' @ command @ [newline] @
     ''kubernix only serves the Lix daemon protocol; expected an exec of `<remote-program> --stdio` (e.g. `nix-daemon --stdio`), optionally followed by `--store <uri>`.'' @
     [newline]"

definition exec_request :: "'s ssh_server \<Rightarrow> u32 \<Rightarrow> bytes \<Rightarrow> 's \<Rightarrow> ssh_handler \<Rightarrow> ssh_effect list \<times> ssh_handler \<times> 's" where
  "exec_request srv ch input s h =
     (let command = from_utf8_lossy input; without = h\<lparr>sh_channels := sh_channels h - {ch}\<rparr> in
      if trim command = ''kubernix-whoami'' then
        (case sh_tenant h of
           None \<Rightarrow> ([ChannelFailure ch], without, s)
         | Some tn \<Rightarrow>
             (case whoami_response srv (t_id tn) s of
                (body, s) \<Rightarrow> ([ChannelSuccess ch, Data ch body, Eof ch, ExitStatus ch 0, CloseChannel ch], without, s)))
      else if \<not> is_stdio_request command then
        ([ChannelSuccess ch, ExtendedData ch (unsupported_message command), ExitStatus ch 127, CloseChannel ch], without, s)
      else if ch \<notin> sh_channels h then ([ChannelFailure ch], h, s)
      else case sh_tenant h of
             None \<Rightarrow> ([ChannelFailure ch], without, s)
           | Some tn \<Rightarrow> ([ChannelSuccess ch, ServeRpc ch tn], without, s))"

subsection \<open>The TLS frontend\<close>

text \<open>A parsed extension, and what the parser says of the two the frontend asks for.\<close>

datatype parsed_ext = SubjectKeyIdentifier bytes | AuthorityKeyIdentifier "bytes option" | OtherExt

record cert =
  ct_ski :: "(unit, parsed_ext option) res"
  ct_aki :: "(unit, parsed_ext option) res"
  ct_is_ca :: bool

record x509 =
  x_pem :: "string \<Rightarrow> (string, bytes) res"
  x_der :: "bytes \<Rightarrow> (string, cert) res"

definition key_id_hex :: "bytes \<Rightarrow> string" where
  "key_id_hex bs = concat (map hex_byte bs)"

definition subject_key_id :: "cert \<Rightarrow> string option" where
  "subject_key_id c = (case ct_ski c of Ok (Some (SubjectKeyIdentifier kid)) \<Rightarrow> Some (key_id_hex kid) | _ \<Rightarrow> None)"

definition authority_key_id :: "cert \<Rightarrow> string option" where
  "authority_key_id c =
     (case ct_aki c of Ok (Some (AuthorityKeyIdentifier kid)) \<Rightarrow> map_option key_id_hex kid | _ \<Rightarrow> None)"

definition ca_from_pem :: "x509 \<Rightarrow> string \<Rightarrow> (string, string \<times> bytes) res" where
  "ca_from_pem x pem =
     bind_res (map_err (\<lambda>e. ''not a PEM certificate: '' @ e) (x_pem x pem)) (\<lambda>der.
     bind_res (map_err (\<lambda>e. ''not a valid X.509 certificate: '' @ e) (x_der x der)) (\<lambda>c.
       if \<not> ct_is_ca c then Err ''certificate is not a CA (basicConstraints cA=TRUE required)''
       else bind_res (ok_or ''certificate has no Subject Key Identifier extension'' (subject_key_id c)) (\<lambda>key_id. Ok (key_id, der))))"

definition candidate_key_ids :: "x509 \<Rightarrow> bytes list \<Rightarrow> string list" where
  "candidate_key_ids x chain =
     (if chain = [] then []
      else case x_der x (last chain) of
             Ok c \<Rightarrow> List.map_filter id [subject_key_id c, authority_key_id c]
           | _ \<Rightarrow> [])"

definition tls_tenant :: "string \<Rightarrow> tenant_id \<Rightarrow> tenant" where
  "tls_tenant key_id tid = \<lparr>t_id = tid, t_identity = ''tls:'' @ key_id, t_verified = True\<rparr>"

fun first_binding :: "'s tenant_auth_ops \<Rightarrow> string list \<Rightarrow> 's \<Rightarrow> tenant option" where
  "first_binding ta [] s = None"
| "first_binding ta (key_id # rest) s =
     (case ta_find ta Tls key_id s of
        Ok (Some tid) \<Rightarrow> Some (tls_tenant key_id tid)
      | Ok None \<Rightarrow> first_binding ta rest s
      | _ \<Rightarrow> None)"

definition tenant_for_chain :: "x509 \<Rightarrow> 's tenant_auth_ops \<Rightarrow> bytes list \<Rightarrow> 's \<Rightarrow> tenant option" where
  "tenant_for_chain x ta chain s = first_binding ta (candidate_key_ids x chain) s"

text \<open>The TLS engine: which roots it can use, whether a config can be built on them, and the handshake.\<close>

record rustls =
  tl_root_ok :: "bytes \<Rightarrow> bool"
  tl_build :: "bytes list \<Rightarrow> (string, unit) res"
  tl_handshake :: "bytes list \<Rightarrow> bytes list \<Rightarrow> (string, unit) res"

definition build_server_config :: "rustls \<Rightarrow> bytes list \<Rightarrow> (string, bytes list option) res" where
  "build_server_config r roots =
     (let store = filter (tl_root_ok r) roots in
      if store = [] then Ok None else bind_res (tl_build r store) (\<lambda>_. Ok (Some store)))"

record root_refresh =
  rf_last :: "bytes list option"
  rf_config :: "bytes list option"

definition refresh_roots :: "rustls \<Rightarrow> 's tenant_auth_ops \<Rightarrow> 's \<Rightarrow> root_refresh \<Rightarrow> root_refresh" where
  "refresh_roots r ta s rf =
     (case ta_roots ta s of
        Ok roots \<Rightarrow>
          (if rf_last rf \<noteq> Some roots then
             (case build_server_config r roots of
                Ok config \<Rightarrow> \<lparr>rf_last = Some roots, rf_config = config\<rparr>
              | _ \<Rightarrow> rf)
           else rf)
      | _ \<Rightarrow> rf)"

definition handle_connection :: "x509 \<Rightarrow> rustls \<Rightarrow> 's tenant_auth_ops \<Rightarrow> bytes list \<Rightarrow> bytes list \<Rightarrow> 's \<Rightarrow> (string, tenant) res" where
  "handle_connection x r ta config chain s =
     bind_res (tl_handshake r config chain) (\<lambda>_.
       ok_or ''client certificate is not bound to a tenant'' (tenant_for_chain x ta chain s))"

definition serve_tls :: "x509 \<Rightarrow> rustls \<Rightarrow> 's tenant_auth_ops \<Rightarrow> root_refresh \<Rightarrow> bytes list \<Rightarrow> 's \<Rightarrow> tenant option" where
  "serve_tls x r ta rf chain s =
     (case rf_config rf of
        None \<Rightarrow> None
      | Some config \<Rightarrow> (case handle_connection x r ta config chain s of Ok tn \<Rightarrow> Some tn | _ \<Rightarrow> None))"

subsection \<open>What the frontends rely on\<close>

text \<open>A store answers with a tenant exactly when the credential is bound to it.\<close>

locale tenant_auth =
  fixes ta :: "'s tenant_auth_ops" and bound :: "key_type \<Rightarrow> string \<Rightarrow> tenant_id \<Rightarrow> 's \<Rightarrow> bool"
  assumes find_exact: "ta_find ta kt k s = Ok r \<Longrightarrow> r = Some t \<longleftrightarrow> bound kt k t s"
begin

lemma publickey_accepts_bound:
  "ss_auth srv = ta \<Longrightarrow> auth_publickey srv user fp s h = (Accept, h') \<Longrightarrow>
    \<exists>tid. bound Ssh fp tid s \<and> h' = h\<lparr>sh_user := Some user, sh_tenant := Some \<lparr>t_id = tid, t_identity = ''key:'' @ fp, t_verified = True\<rparr>\<rparr>"
  using find_exact [of Ssh fp s] by (auto simp: auth_publickey_def split: res.splits option.splits)

lemma first_binding_bound:
  "first_binding ta ids s = Some tn \<Longrightarrow> \<exists>k \<in> set ids. bound Tls k (t_id tn) s \<and> tn = tls_tenant k (t_id tn)"
  using find_exact by (induction ids) (force simp: tls_tenant_def split: res.splits option.splits)+

lemma chain_leads_to_bound:
  assumes "handle_connection x r ta config chain s = Ok tn"
  shows "tl_handshake r config chain = Ok () \<and> (\<exists>k \<in> set (candidate_key_ids x chain). bound Tls k (t_id tn) s)"
  using assms first_binding_bound
  by (fastforce simp: handle_connection_def tenant_for_chain_def bind_res_Ok_iff ok_or_Ok_iff)

end

definition pg_bound :: "key_type \<Rightarrow> string \<Rightarrow> tenant_id \<Rightarrow> pg \<Rightarrow> bool" where
  "pg_bound kt k t db \<longleftrightarrow> (\<exists>row. map_of (pg_bindings db) (key_type_as_str kt, k) = Some row \<and> from_wire (fst row) = Some t)"

lemma postgres_auth_find: "ta_find (postgres_auth pub) kt k db = (if pg_actor_up db then find_tenant_by_binding_db kt k db else Err actor_unavailable)"
  by (simp add: postgres_auth_def pg_find_tenant_by_binding_def pg_call_def)

interpretation pg_auth: tenant_auth "postgres_auth pub" pg_bound
  by unfold_locales (auto simp: postgres_auth_find find_tenant_by_binding_db_def pg_bound_def split: if_splits option.splits prod.splits)

interpretation mem_auth: tenant_auth memory_auth "\<lambda>_ _ _ _. False"
  by unfold_locales (auto simp: memory_auth_def)

subsection \<open>A served channel was authenticated\<close>

text \<open>
  The calls the SSH engine makes on one connection, in any order. Each meets the store in a state that
  others may have changed, and leaves a record of what it met and did.
\<close>

datatype ssh_call = AuthNone string | AuthPublickey string string | OpenSession u32 | ShellRequest u32 | ExecRequest u32 bytes

fun ssh_handle :: "'s ssh_server \<Rightarrow> ssh_call \<Rightarrow> 's \<Rightarrow> ssh_handler \<Rightarrow> ssh_effect list \<times> ssh_handler" where
  "ssh_handle srv (AuthNone user) s h = ([], snd (auth_none srv user h))"
| "ssh_handle srv (AuthPublickey user fp) s h = ([], snd (auth_publickey srv user fp s h))"
| "ssh_handle srv (OpenSession ch) s h = ([], channel_open_session ch h)"
| "ssh_handle srv (ShellRequest ch) s h = shell_request ch h"
| "ssh_handle srv (ExecRequest ch input) s h = (case exec_request srv ch input s h of (es, h, _) \<Rightarrow> (es, h))"

type_synonym 's ssh_trace = "(ssh_call \<times> 's \<times> ssh_effect list) list"

inductive ssh_session :: "'s ssh_server \<Rightarrow> 's ssh_trace \<Rightarrow> ssh_handler \<Rightarrow> bool" for srv where
  connect: "ssh_session srv [] new_client"
| call: "ssh_session srv tr h \<Longrightarrow> ssh_handle srv c s h = (es, h') \<Longrightarrow> ssh_session srv (tr @ [(c, s, es)]) h'"

inductive_cases ssh_session_lastE: "ssh_session srv (tr @ [e]) h"

text \<open>Where the tenant of a session can come from.\<close>

definition key_authenticated :: "pg ssh_trace \<Rightarrow> tenant \<Rightarrow> bool" where
  "key_authenticated tr tn \<longleftrightarrow> (\<exists>user fp s es. (AuthPublickey user fp, s, es) \<in> set tr \<and> pg_bound Ssh fp (t_id tn) s \<and>
     t_identity tn = ''key:'' @ fp \<and> t_verified tn)"

definition name_claimed :: "pg ssh_server \<Rightarrow> pg ssh_trace \<Rightarrow> tenant \<Rightarrow> bool" where
  "name_claimed srv tr tn \<longleftrightarrow> ss_policy srv = AcceptAll \<and>
     (\<exists>user s es. (AuthNone user, s, es) \<in> set tr \<and> tn = tenant_from_ssh (ss_sha srv) user None False)"

lemma origin_mono:
  "key_authenticated tr tn \<Longrightarrow> set tr \<subseteq> set tr' \<Longrightarrow> key_authenticated tr' tn"
  "name_claimed srv tr tn \<Longrightarrow> set tr \<subseteq> set tr' \<Longrightarrow> name_claimed srv tr' tn"
  unfolding key_authenticated_def name_claimed_def by blast+

lemma exec_keeps_tenant: "exec_request srv ch input s h = (es, h', s') \<Longrightarrow> sh_tenant h' = sh_tenant h"
  by (auto simp: exec_request_def Let_def split: if_splits option.splits prod.splits)

lemma handle_tenant:
  assumes "ssh_handle srv c s h = (es, h')" and "ss_auth srv = postgres_auth pub" and "sh_tenant h' = Some tn"
  shows "sh_tenant h = Some tn \<or> key_authenticated [(c, s, es)] tn \<or> name_claimed srv [(c, s, es)] tn"
  using assms
proof (cases c)
  case (AuthPublickey user fp)
  then show ?thesis using assms pg_auth.publickey_accepts_bound [of srv pub user fp s h h']
    by (auto simp: key_authenticated_def auth_publickey_def split: res.splits option.splits)
qed (auto simp: auth_none_def name_claimed_def shell_request_def channel_open_session_def dest!: exec_keeps_tenant
      split: auth_policy.splits prod.splits)

lemma session_tenant:
  assumes "ssh_session srv tr h" and "ss_auth srv = postgres_auth pub"
  shows "sh_tenant h = Some tn \<Longrightarrow> key_authenticated tr tn \<or> name_claimed srv tr tn"
  using assms(1)
proof (induction arbitrary: tn)
  case (call tr h c s es h')
  let ?tr = "tr @ [(c, s, es)]"
  have "set tr \<subseteq> set ?tr" "set [(c, s, es)] \<subseteq> set ?tr" by auto
  then show ?case
    using handle_tenant [OF call.hyps(2) assms(2) call.prems] call.IH [of tn] origin_mono by blast
qed (simp add: new_client_def)

text \<open>Channels are claimed by the request that serves them.\<close>

definition opened :: "u32 \<Rightarrow> 's ssh_trace \<Rightarrow> nat" where
  "opened ch tr = length (filter (\<lambda>(c, _). c = OpenSession ch) tr)"

definition served :: "u32 \<Rightarrow> 's ssh_trace \<Rightarrow> nat" where
  "served ch tr = length (filter (\<lambda>(_, _, es). \<exists>tn. ServeRpc ch tn \<in> set es) tr)"

lemma served_request:
  "ssh_handle srv c s h = (es, h') \<Longrightarrow> ServeRpc ch tn \<in> set es \<Longrightarrow>
    sh_tenant h = Some tn \<and> ch \<in> sh_channels h \<and> ch \<notin> sh_channels h' \<and> (\<exists>input. c = ExecRequest ch input \<and> is_stdio_request (from_utf8_lossy input))"
  by (cases c) (auto simp: shell_request_def exec_request_def Let_def split: if_splits option.splits prod.splits)

lemma channels_opened:
  "ssh_handle srv c s h = (es, h') \<Longrightarrow> ch \<in> sh_channels h' \<Longrightarrow> c = OpenSession ch \<or> ch \<in> sh_channels h"
  by (cases c) (auto simp: shell_request_def exec_request_def auth_none_def auth_publickey_def channel_open_session_def Let_def
      split: if_splits option.splits prod.splits res.splits auth_policy.splits)

lemma session_serves_once:
  "ssh_session srv tr h \<Longrightarrow> served ch tr + (if ch \<in> sh_channels h then 1 else 0) \<le> opened ch tr"
proof (induction rule: ssh_session.induct)
  case (call tr h c s es h')
  show ?case
  proof (cases "\<exists>tn. ServeRpc ch tn \<in> set es")
    case True
    then show ?thesis using call served_request [OF call.hyps(2)] by (auto simp: served_def opened_def)
  next
    case False
    then show ?thesis using call channels_opened [OF call.hyps(2), of ch] by (auto simp: served_def opened_def split: if_splits)
  qed
qed (simp add: served_def opened_def new_client_def)

text \<open>
  C7: Whatever calls arrive on an SSH connection, in whatever order and however the database changes in
  between, a channel is served only for the tenant the connection authenticated as before: the tenant a
  presented key was bound to at that moment, or, only where keyless clients are accepted, the claimed
  name, unverified. It is served on an exec of the daemon, and at most as often as it was opened.
\<close>

theorem ssh_serves_authenticated:
  assumes "ssh_session srv (tr @ [(c, s, es)]) h" and "ss_auth srv = postgres_auth pub" and "ServeRpc ch tn \<in> set es"
  shows "(key_authenticated tr tn \<or> name_claimed srv tr tn) \<and>
    (\<exists>input. c = ExecRequest ch input \<and> is_stdio_request (from_utf8_lossy input)) \<and> served ch tr < opened ch tr"
proof -
  obtain h0 where before: "ssh_session srv tr h0" and step: "ssh_handle srv c s h0 = (es, h)"
    using assms(1) by (auto elim: ssh_session_lastE)
  note r = served_request [OF step assms(3)]
  show ?thesis using r session_tenant [OF before assms(2), of tn] session_serves_once [OF before, of ch] by auto
qed

text \<open>
  C17: Whoever a frontend serves, over SSH or over TLS and whatever the tables hold, is a tenant whose id
  has the form the wire demands: no slash and no dot, so that nothing derived from it, an object key or
  a path of the cache, can leave the tenant's own part.
\<close>

theorem served_tenants_well_formed:
  assumes "ss_auth srv = postgres_auth pub" and "\<And>x. length (ss_sha srv x) = 32"
    and "ssh_session srv tr h" and "(c, s, es) \<in> set tr" and "ServeRpc ch tn \<in> set es"
    and "handle_connection x r (postgres_auth pub') config chain db = Ok tn'"
  shows "wf_tenant (t_id tn) \<and> wf_tenant (t_id tn') \<and> CHR ''/'' \<notin> set (tid_str (t_id tn)) \<and> CHR ''/'' \<notin> set (tid_str (t_id tn'))"
proof -
  have bound: "pg_bound kt k t db \<Longrightarrow> wf_tenant t" for kt k t db by (auto simp: pg_bound_def dest: from_wire_wf)
  have "key_authenticated tr tn \<or> name_claimed srv tr tn" using assms(3,4)
  proof (induction)
    case (call tr h c' s' es' h')
    have sub: "set tr \<subseteq> set (tr @ [(c', s', es')])" by auto
    show ?case
    proof (cases "(c, s, es) = (c', s', es')")
      case True
      then have "sh_tenant h = Some tn" using served_request [OF call.hyps(2)] assms(5) by blast
      then show ?thesis using session_tenant [OF call.hyps(1) assms(1)] origin_mono sub by blast
    next
      case False
      then show ?thesis using call origin_mono sub by auto
    qed
  qed simp
  then have "wf_tenant (t_id tn)"
  proof
    assume "name_claimed srv tr tn"
    then obtain user where "tn = tenant_from_ssh (ss_sha srv) user None False" by (auto simp: name_claimed_def)
    then show ?thesis using derive_id_survives_wire [OF assms(2)] tenant_from_ssh_key_decides [of "ss_sha srv"] by (simp add: wf_tenant_def)
  qed (use bound in \<open>auto simp: key_authenticated_def\<close>)
  moreover have "wf_tenant (t_id tn')" using pg_auth.chain_leads_to_bound [OF assms(6)] bound by blast
  ultimately show ?thesis by simp
qed

subsection \<open>Examples\<close>

definition ex_bindings :: pg where
  "ex_bindings = pg_empty\<lparr>pg_bindings :=
     [((''ssh'', ''fp''), (''alice'', Some [])), ((''tls'', ''0a''), (''alice'', Some [10])), ((''tls'', ''0b''), (''bob'', Some [11]))]\<rparr>"

definition ex_ssh :: "auth_policy \<Rightarrow> pg ssh_server" where
  "ex_ssh policy = \<lparr>ss_policy = policy, ss_store = postgres_ops id, ss_auth = postgres_auth id, ss_sha = (\<lambda>_. replicate 32 0),
     ss_crypto = example_crypto, ss_seed = []\<rparr>"

text \<open>Certificates of one byte, their own key identifier; above 20 they name the issuer ten below.\<close>

definition ex_x509 :: x509 where
  "ex_x509 = \<lparr>x_pem = (\<lambda>pem. Ok (as_bytes pem)),
     x_der = (\<lambda>der. Ok \<lparr>ct_ski = Ok (Some (SubjectKeyIdentifier der)),
       ct_aki = Ok (if der = [20] then Some (AuthorityKeyIdentifier (Some [10])) else None), ct_is_ca = der \<noteq> [20]\<rparr>)\<rparr>"

text \<open>A handshake accepts a chain whose first certificate one of the roots issued; what it does not need it ignores.\<close>

definition ex_rustls :: rustls where
  "ex_rustls = \<lparr>tl_root_ok = (\<lambda>_. True), tl_build = (\<lambda>_. Ok ()),
     tl_handshake = (\<lambda>roots chain. if chain \<noteq> [] \<and> hd chain = [20] \<and> [10] \<in> set roots then Ok () else Err ''unknown issuer'')\<rparr>"

lemma ex_bindings_simps [simp]: "pg_fault ex_bindings = None" "pg_actor_up ex_bindings"
  by (simp_all add: ex_bindings_def pg_empty_def)

lemma ex_wire [simp]: "from_wire ''alice'' = Some (TenantId ''alice'')" "from_wire ''bob'' = Some (TenantId ''bob'')"
  by (simp_all add: from_wire_def tenant_char_def is_lower_def)

lemma ex_found [simp]:
  "ta_find (postgres_auth pub) Ssh ''fp'' ex_bindings = Ok (Some (TenantId ''alice''))"
  "ta_find (postgres_auth pub) Tls ''0a'' ex_bindings = Ok (Some (TenantId ''alice''))"
  "ta_find (postgres_auth pub) Tls ''0b'' ex_bindings = Ok (Some (TenantId ''bob''))"
  "ta_find (postgres_auth pub) Tls ''14'' ex_bindings = Ok None"
  by (simp_all add: postgres_auth_find find_tenant_by_binding_db_def) (simp_all add: ex_bindings_def)

text \<open>The exec of a daemon, as a client sends it.\<close>

definition ex_exec :: bytes where
  "ex_exec = as_bytes ''nix-daemon --stdio''"

lemma ex_exec_command: "from_utf8_lossy ex_exec = ''nix-daemon --stdio''"
  unfolding ex_exec_def by (rule from_utf8_lossy_id) (auto intro!: is_utf8_ascii)

lemma ex_exec_stdio: "is_stdio_request ''nix-daemon --stdio''" "trim ''nix-daemon --stdio'' = ''nix-daemon --stdio''"
proof -
  have "split_whitespace (join_with '' '' [''nix-daemon'', ''--stdio'']) = [''nix-daemon'', ''--stdio'']"
    by (rule split_whitespace_join) (simp add: graphic_def)
  then show "is_stdio_request ''nix-daemon --stdio''" by (simp add: is_stdio_request_def)
  show "trim ''nix-daemon --stdio'' = ''nix-daemon --stdio''"
    by (simp add: trim_def trim_start.simps [of "''nix-daemon --stdio''"] trim_end.simps [of "''nix-daemon --stdio''"]
        ws_prefix_graphic ws_suffix_graphic graphic_def)
qed

definition ex_alice :: tenant where
  "ex_alice = \<lparr>t_id = TenantId ''alice'', t_identity = ''key:fp'', t_verified = True\<rparr>"

lemma ex_session:
  "ssh_session (ex_ssh RequireKey)
    ([(AuthPublickey ''root'' ''fp'', ex_bindings, []), (OpenSession 0, ex_bindings, [])] @
     [(ExecRequest 0 ex_exec, ex_bindings, [ChannelSuccess 0, ServeRpc 0 ex_alice])])
    \<lparr>sh_user = Some ''root'', sh_tenant = Some ex_alice, sh_channels = {}\<rparr>"
proof -
  let ?srv = "ex_ssh RequireKey" and ?e1 = "(AuthPublickey ''root'' ''fp'', ex_bindings, [])" and ?e2 = "(OpenSession 0, ex_bindings, [])"
  have 1: "ssh_session ?srv ([] @ [?e1]) \<lparr>sh_user = Some ''root'', sh_tenant = Some ex_alice, sh_channels = {}\<rparr>"
    by (rule ssh_session.call [OF ssh_session.connect]) (simp add: auth_publickey_def ex_ssh_def new_client_def ex_alice_def)
  have 2: "ssh_session ?srv (([] @ [?e1]) @ [?e2]) \<lparr>sh_user = Some ''root'', sh_tenant = Some ex_alice, sh_channels = {0}\<rparr>"
    by (rule ssh_session.call [OF 1]) (simp add: channel_open_session_def)
  have "ssh_handle ?srv (ExecRequest 0 ex_exec) ex_bindings \<lparr>sh_user = Some ''root'', sh_tenant = Some ex_alice, sh_channels = {0}\<rparr> =
      ([ChannelSuccess 0, ServeRpc 0 ex_alice], \<lparr>sh_user = Some ''root'', sh_tenant = Some ex_alice, sh_channels = {}\<rparr>)"
    by (simp add: exec_request_def ex_exec_command ex_exec_stdio)
  from ssh_session.call [OF 2 this] show ?thesis by simp
qed

theorem ssh_serves_authenticated_witness:
  "key_authenticated [(AuthPublickey ''root'' ''fp'', ex_bindings, []), (OpenSession 0, ex_bindings, [])] ex_alice"
proof -
  have "\<not> name_claimed (ex_ssh RequireKey) tr ex_alice" for tr by (simp add: name_claimed_def ex_ssh_def)
  then show ?thesis
    using ssh_serves_authenticated [OF ex_session, of id 0 ex_alice] by (simp add: ex_ssh_def)
qed

subsection \<open>Which chain leads to which tenant\<close>

lemma candidates: "chain \<noteq> [] \<Longrightarrow> x_der x (last chain) = Ok c \<Longrightarrow>
    candidate_key_ids x chain = (case subject_key_id c of None \<Rightarrow> [] | Some k \<Rightarrow> [k]) @ (case authority_key_id c of None \<Rightarrow> [] | Some k \<Rightarrow> [k])"
  by (auto simp: candidate_key_ids_def List.map_filter_def split: option.split)

lemma add_delete_credential:
  assumes "add_credential ps t kt given db = (Ok (), db')" and "credential_of ps kt given = Ok (key_id, v)"
  shows "snd (delete_credential kt key_id db') = db" and "pg_fault db = None"
    and "pg_bindings db' = pg_bindings db @ [((key_type_as_str kt, key_id), (tid_str t, Some v))]" and "pg_fault db' = None"
proof -
  have fault: "pg_fault db = None" and new: "map_of (pg_bindings db) (key_type_as_str kt, key_id) = None"
    and db': "db' = db\<lparr>pg_bindings := pg_bindings db @ [((key_type_as_str kt, key_id), (tid_str t, Some v))]\<rparr>"
    using assms by (cases "map_of (pg_bindings db) (key_type_as_str kt, key_id)"; auto simp: add_credential_def split: option.splits if_splits)+
  have "filter (\<lambda>row. fst row \<noteq> (key_type_as_str kt, key_id)) (pg_bindings db) = pg_bindings db"
    using new by (force simp: filter_id_conv map_of_eq_None_iff)
  then show "snd (delete_credential kt key_id db') = db" "pg_fault db = None" "pg_fault db' = None"
      "pg_bindings db' = pg_bindings db @ [((key_type_as_str kt, key_id), (tid_str t, Some v))]"
    using fault db' by (simp_all add: delete_credential_def)
qed

text \<open>
  A chain is attributed to an authority by the key identifiers in its last certificate: that it is the
  authority's own, or that it was issued by it while its own identifier is bound to nobody.
\<close>

definition chain_names :: "x509 \<Rightarrow> bytes list \<Rightarrow> string \<Rightarrow> pg \<Rightarrow> bool" where
  "chain_names x chain key_id db \<longleftrightarrow> chain \<noteq> [] \<and>
     (\<exists>c. x_der x (last chain) = Ok c \<and>
       (subject_key_id c = Some key_id \<or>
        authority_key_id c = Some key_id \<and> (\<forall>k tid. subject_key_id c = Some k \<longrightarrow> \<not> pg_bound Tls k tid db)))"

lemma first_binding_added:
  assumes find: "\<And>k. ta_find ta Tls k s' = (if k = key_id then Ok (Some t) else ta_find ta Tls k s)"
    and found: "\<And>k. ta_find ta Tls k s = Ok None \<and> (\<forall>tid. \<not> pg_bound Tls k tid s) \<or> (\<exists>tid. ta_find ta Tls k s = Ok (Some tid) \<and> pg_bound Tls k tid s)"
  shows "first_binding ta (candidate_key_ids x chain) s' =
    (if chain_names x chain key_id s then Some (tls_tenant key_id t) else first_binding ta (candidate_key_ids x chain) s)"
proof (cases "chain = [] \<or> (\<forall>c. x_der x (last chain) \<noteq> Ok c)")
  case True
  then have "candidate_key_ids x chain = []" by (auto simp: candidate_key_ids_def split: res.split)
  then show ?thesis using True by (auto simp: chain_names_def)
next
  case False
  then obtain c where c: "chain \<noteq> []" "x_der x (last chain) = Ok c" by blast
  show ?thesis
  proof (cases "subject_key_id c")
    case None
    then show ?thesis using c by (auto simp: chain_names_def candidates [OF c] find split: option.split res.split)
  next
    case (Some k)
    consider "k = key_id" | "k \<noteq> key_id" "ta_find ta Tls k s = Ok None" "\<forall>tid. \<not> pg_bound Tls k tid s"
      | tid where "k \<noteq> key_id" "ta_find ta Tls k s = Ok (Some tid)" "pg_bound Tls k tid s"
      using found by blast
    then show ?thesis
      by cases (use c Some in \<open>auto simp: chain_names_def candidates [OF c] find split: option.split res.split\<close>)
  qed
qed

text \<open>
  C24: What a certificate authority changes that the administrator adds for a tenant. Its certificate is among
  the roots that the next refresh reads. A connection is served as the tenant exactly when the handshake under
  the roots in force succeeds and the last certificate the client sends is the authority's, or names it as its
  issuer and is not bound itself; every other connection is answered as before. Attribution looks at the last
  certificate alone, which the handshake need not have used. Deleting the credential restores what was.
\<close>

theorem added_ca_attribution:
  assumes add: "add_credential ps t Tls pem db = (Ok (), db')" and ca: "cp_tls ps = ca_from_pem x" "ca_from_pem x pem = Ok (key_id, der)"
    and t: "wf_tenant t" and up: "pg_actor_up db"
  shows "(\<exists>roots. ta_roots (postgres_auth pub) db' = Ok roots \<and> der \<in> set roots) \<and>
    handle_connection x r (postgres_auth pub) config chain db' =
      (if tl_handshake r config chain = Ok () \<and> chain_names x chain key_id db then Ok (tls_tenant key_id t)
       else handle_connection x r (postgres_auth pub) config chain db) \<and>
    snd (delete_credential Tls key_id db') = db"
proof -
  have cred: "credential_of ps Tls pem = Ok (key_id, der)" using ca by simp
  note del = add_delete_credential [OF add cred]
  have up': "pg_actor_up db'" using add up by (auto simp: add_credential_def split: res.splits option.splits if_splits prod.splits)
  have find': "ta_find (postgres_auth pub) Tls k db' = (if k = key_id then Ok (Some t) else ta_find (postgres_auth pub) Tls k db)" for k
    using add_credential_binds [OF t cred add, of Tls k] up up' by (simp add: postgres_auth_find)
  have found: "ta_find (postgres_auth pub) Tls k db = Ok None \<and> (\<forall>tid. \<not> pg_bound Tls k tid db) \<or>
      (\<exists>tid. ta_find (postgres_auth pub) Tls k db = Ok (Some tid) \<and> pg_bound Tls k tid db)" for k
    using up del(2) by (cases "map_of (pg_bindings db) (key_type_as_str Tls, k)")
      (auto simp: postgres_auth_find find_tenant_by_binding_db_def pg_bound_def split: prod.split)
  have "der \<in> set (List.map_filter (snd \<circ> snd) (sort_key (snd \<circ> fst) (filter (\<lambda>row. fst (fst row) = key_type_as_str Tls) (pg_bindings db'))))"
    unfolding del(3) by (force simp: List.map_filter_def)
  then have "\<exists>roots. ta_roots (postgres_auth pub) db' = Ok roots \<and> der \<in> set roots"
    using del(4) up' by (simp add: postgres_auth_def pg_ops trusted_client_roots_db_def)
  then show ?thesis
    using del(1) first_binding_added [OF find' found]
    by (cases "tl_handshake r config chain") (simp_all add: handle_connection_def tenant_for_chain_def)
qed

subsection \<open>The roots in force\<close>

text \<open>
  A refresh that reads the roots and can build on them puts exactly the usable ones in force; one that
  cannot leaves the last ones there. Whoever is served then passed the handshake under them and is
  bound in the database of that moment, so a deleted credential is refused before the next refresh.
\<close>

lemma refresh_follows:
  assumes "ta_roots ta s = Ok roots" and "\<And>store. tl_build r store = Ok ()"
    and "rf_config rf = (case rf_last rf of None \<Rightarrow> None | Some before \<Rightarrow> (let store = filter (tl_root_ok r) before in if store = [] then None else Some store))"
  shows "rf_last (refresh_roots r ta s rf) = Some roots \<and>
    rf_config (refresh_roots r ta s rf) = (if filter (tl_root_ok r) roots = [] then None else Some (filter (tl_root_ok r) roots))"
  using assms by (auto simp: refresh_roots_def build_server_config_def Let_def)

lemma refresh_keeps: "ta_roots ta s = Err e \<Longrightarrow> refresh_roots r ta s rf = rf"
  by (simp add: refresh_roots_def)

lemma tls_serves_bound:
  assumes "serve_tls x r (postgres_auth pub) rf chain db = Some tn"
  shows "\<exists>config. rf_config rf = Some config \<and> tl_handshake r config chain = Ok () \<and>
    (\<exists>k \<in> set (candidate_key_ids x chain). pg_bound Tls k (t_id tn) db)"
  using assms pg_auth.chain_leads_to_bound
  by (fastforce simp: serve_tls_def split: option.splits res.splits)

subsection \<open>The end of a chain\<close>

text \<open>
  What the TLS engine does with certificates it does not need: a chain that it accepts it also accepts
  with another certificate behind it, since those after the first are only material for the search of
  a path to a root.
\<close>

definition ignores_unused :: "rustls \<Rightarrow> bool" where
  "ignores_unused r \<longleftrightarrow> (\<forall>roots chain c. chain \<noteq> [] \<longrightarrow> tl_handshake r roots chain = Ok () \<longrightarrow> tl_handshake r roots (chain @ [c]) = Ok ())"

text \<open>
  A client of one tenant can be served as another. The chain is validated from its first
  certificate, but attributed by its last one, which the validation may not have used: a client that is
  admitted for its own tenant appends a certificate that carries the key identifier of another tenant's
  authority, and is served as that tenant.
\<close>

theorem chain_tail_impersonates:
  assumes "handle_connection x r (postgres_auth pub) config chain db = Ok tn" and "chain \<noteq> []" and "ignores_unused r"
    and "x_der x appended = Ok c" and "subject_key_id c = Some k" and "pg_bound Tls k victim db" and "pg_actor_up db" and "pg_fault db = None"
  shows "handle_connection x r (postgres_auth pub) config (chain @ [appended]) db = Ok (tls_tenant k victim)"
proof -
  have "tl_handshake r config (chain @ [appended]) = Ok ()"
    using assms(1-3) by (auto simp: ignores_unused_def handle_connection_def bind_res_Ok_iff)
  moreover have "ta_find (postgres_auth pub) Tls k db = Ok (Some victim)"
    using assms(6-8) by (auto simp: postgres_auth_find find_tenant_by_binding_db_def pg_bound_def)
  moreover have "\<exists>rest. candidate_key_ids x (chain @ [appended]) = k # rest"
    using assms(4,5) candidates [of "chain @ [appended]" x c] by simp
  ultimately show ?thesis by (auto simp: handle_connection_def tenant_for_chain_def)
qed

lemma ex_chain: "handle_connection ex_x509 ex_rustls (postgres_auth pub) [[10], [11]] [[20]] ex_bindings = Ok (tls_tenant ''0a'' (TenantId ''alice''))"
proof -
  have "candidate_key_ids ex_x509 [[20]] = [''14'', ''0a'']" by code_simp
  then show ?thesis by (simp add: handle_connection_def tenant_for_chain_def ex_rustls_def)
qed

theorem served_tenants_well_formed_witness:
  "wf_tenant (t_id ex_alice) \<and> wf_tenant (t_id (tls_tenant ''0a'' (TenantId ''alice'')))"
proof -
  have "length (ss_sha (ex_ssh RequireKey) x) = 32" for x by (simp add: ex_ssh_def)
  then show ?thesis
    using served_tenants_well_formed [OF _ _ ex_session, of id "ExecRequest 0 ex_exec" ex_bindings "[ChannelSuccess 0, ServeRpc 0 ex_alice]" 0 ex_alice, OF _ _ _ _ ex_chain]
    by (simp add: ex_ssh_def)
qed

theorem chain_tail_impersonates_witness:
  "handle_connection ex_x509 ex_rustls (postgres_auth id) [[10], [11]] [[20]] ex_bindings = Ok (tls_tenant ''0a'' (TenantId ''alice'')) \<and>
   handle_connection ex_x509 ex_rustls (postgres_auth id) [[10], [11]] ([[20]] @ [[11]]) ex_bindings = Ok (tls_tenant ''0b'' (TenantId ''bob''))"
proof (rule conjI [OF ex_chain chain_tail_impersonates [OF ex_chain]])
  show "ignores_unused ex_rustls" by (auto simp: ignores_unused_def ex_rustls_def split: if_splits)
  show "x_der ex_x509 [11] = Ok \<lparr>ct_ski = Ok (Some (SubjectKeyIdentifier [11])), ct_aki = Ok None, ct_is_ca = True\<rparr>" by (simp add: ex_x509_def)
  show "subject_key_id \<lparr>ct_ski = Ok (Some (SubjectKeyIdentifier [11])), ct_aki = Ok None, ct_is_ca = True\<rparr> = Some ''0b''" by code_simp
  show "pg_bound Tls ''0b'' (TenantId ''bob'') ex_bindings" by (simp add: pg_bound_def) (simp add: ex_bindings_def)
qed simp_all

definition ex_admin :: pg where
  "ex_admin = pg_empty\<lparr>pg_tenants := [(TenantId ''alice'', new_tenant_row ''alice'' True)]\<rparr>"

definition ex_parsers :: credential_parsers where
  "ex_parsers = \<lparr>cp_ssh = (\<lambda>_. Err []), cp_tls = ca_from_pem ex_x509\<rparr>"

theorem added_ca_attribution_witness:
  "handle_connection ex_x509 ex_rustls (postgres_auth id) [[10]] [[20]] (snd (add_credential ex_parsers (TenantId ''alice'') Tls [char_of (10 :: nat)] ex_admin)) =
     Ok (tls_tenant ''0a'' (TenantId ''alice''))"
proof -
  have ca: "ca_from_pem ex_x509 [char_of (10 :: nat)] = Ok (''0a'', [10])" by code_simp
  let ?db' = "snd (add_credential ex_parsers (TenantId ''alice'') Tls [char_of (10 :: nat)] ex_admin)"
  have add: "add_credential ex_parsers (TenantId ''alice'') Tls [char_of (10 :: nat)] ex_admin = (Ok (), ?db')"
    by (simp add: add_credential_def ex_parsers_def ca) (simp add: ex_admin_def pg_empty_def)
  let ?c = "\<lparr>ct_ski = Ok (Some (SubjectKeyIdentifier [20])), ct_aki = Ok (Some (AuthorityKeyIdentifier (Some [10]))), ct_is_ca = False\<rparr>"
  have keys: "subject_key_id ?c = Some ''14''" "authority_key_id ?c = Some ''0a''" by code_simp+
  have "\<not> pg_bound Tls k tid ex_admin" for k tid by (simp add: pg_bound_def ex_admin_def pg_empty_def)
  then have "chain_names ex_x509 [[20]] ''0a'' ex_admin" using keys by (simp add: chain_names_def ex_x509_def)
  then show ?thesis
    using added_ca_attribution [OF add _ ca, of id ex_rustls "[[10]]" "[[20]]"]
    by (simp add: ex_parsers_def wf_tenant_def ex_rustls_def) (simp add: ex_admin_def pg_empty_def)
qed

end
