(* ===== verification/Server.thy ===== *)
theory Server
  imports Lock Host Auth Http
begin

text \<open>
  The processes of a deployment: what each binary of \<open>server/src/bin\<close> and \<open>server/src/main.rs\<close> makes of its
  environment before it serves (\<open>rpc_env.rs\<close>, \<open>Config\<close> of \<open>daemon_rpc.rs\<close>, \<open>JobQueue::connect\<close>,
  \<open>UploadSigner::from_env\<close>), the streams a frontend and a worker set up in the job queue, and the
  commands of \<open>kubernix-admin\<close>. What is outside, a database, NATS, the files, is an argument: whether it
  can be reached. Shown here: which part of a frontend each variable decides and what makes it refuse
  to start, that processes with one environment agree on the retention of results whoever starts first,
  and what an operator reads is what the tables hold.
\<close>

subsection \<open>Environment and reachability\<close>

definition rpc_env_secs :: "environment \<Rightarrow> string \<Rightarrow> u64 \<Rightarrow> u64" where
  "rpc_env_secs vars name fallback =
     (case vars name of Some v \<Rightarrow> (case parse_u64 v of Some secs \<Rightarrow> secs | None \<Rightarrow> fallback) | None \<Rightarrow> fallback)"

text \<open>Connecting includes the migrations; the role decides as whom the pool connects.\<close>

record reachable_services =
  re_database :: "string \<Rightarrow> serving_role \<Rightarrow> (string, unit) res"
  re_nats :: "string \<Rightarrow> (string, unit) res"
  re_stream :: "string \<Rightarrow> (string, unit) res"
  re_delete_stream :: "string \<Rightarrow> bool"
  re_consumer :: "string \<Rightarrow> (string, unit) res"

record upload_signer =
  us_bucket :: string
  us_path_style :: bool

text \<open>A bucket that cannot be created is assumed to exist, and nothing else is tried.\<close>

definition upload_signer_from_env :: "environment \<Rightarrow> (report, upload_signer) res" where
  "upload_signer_from_env vars =
     Ok \<lparr>us_bucket = env_or vars ''S3_BUCKET'' ''kubernix-cache'', us_path_style = (vars ''AWS_ENDPOINT_URL'' \<noteq> None)\<rparr>"

subsection \<open>The streams of the job queue\<close>

record stream_config =
  sc_subjects :: "string list"
  sc_work_queue :: bool
  sc_max_age :: u64

type_synonym streams = "string \<Rightarrow> stream_config option"

text \<open>A stream that exists keeps its configuration.\<close>

definition get_or_create_stream :: "string \<Rightarrow> stream_config \<Rightarrow> streams \<Rightarrow> streams" where
  "get_or_create_stream name config js = (case js name of Some _ \<Rightarrow> js | None \<Rightarrow> js(name \<mapsto> config))"

definition create_stream :: "reachable_services \<Rightarrow> string \<Rightarrow> stream_config \<Rightarrow> streams \<Rightarrow> (string, unit) res \<times> streams" where
  "create_stream re name config js =
     (case re_stream re name of
        Ok _ \<Rightarrow> (Ok (), get_or_create_stream name config js)
      | Err e \<Rightarrow> (Err (''creating the '' @ name @ '' stream''), js)
      | Panic \<Rightarrow> (Panic, js))"

definition create_streams :: "reachable_services \<Rightarrow> u64 \<Rightarrow> streams \<Rightarrow> (string, unit) res \<times> streams" where
  "create_streams re results_retention js =
     (case create_stream re JOBS_STREAM \<lparr>sc_subjects = [''kubernix.jobs.>''], sc_work_queue = True, sc_max_age = 0\<rparr> js of
        (Ok _, js) \<Rightarrow> create_stream re RESULTS_STREAM \<lparr>sc_subjects = [''kubernix.results.>''], sc_work_queue = False, sc_max_age = results_retention\<rparr> js
      | (Err e, js) \<Rightarrow> (Err e, js)
      | (Panic, js) \<Rightarrow> (Panic, js))"

definition job_queue_connect :: "reachable_services \<Rightarrow> string \<Rightarrow> u64 \<Rightarrow> streams \<Rightarrow> (string, u64) res \<times> streams" where
  "job_queue_connect re url results_retention js =
     (case re_nats re url of
        Ok _ \<Rightarrow> (case create_streams re results_retention js of (r, js) \<Rightarrow> (bind_res r (\<lambda>_. Ok results_retention), js))
      | Err e \<Rightarrow> (Err (''connecting to NATS at '' @ url), js)
      | Panic \<Rightarrow> (Panic, js))"

text \<open>
  The worker sets up the same streams, after it deleted them if it was asked to; a failed deletion is
  only logged.
\<close>

definition worker_results_retention :: "environment \<Rightarrow> u64" where
  "worker_results_retention vars = env_secs vars ''KUBERNIX_JOB_RESULTS_RETENTION'' (24 * 3600)"

definition worker_streams :: "reachable_services \<Rightarrow> environment \<Rightarrow> streams \<Rightarrow> (string, unit) res \<times> streams" where
  "worker_streams re vars js =
     (let js = (if vars ''KUBERNIX_RESET_STREAMS'' \<noteq> None
                then foldl (\<lambda>js name. if re_delete_stream re name then js(name := None) else js) js [''kubernix_jobs'', ''kubernix_results'']
                else js)
      in create_streams re (worker_results_retention vars) js)"

text \<open>
  What a worker makes of its environment, and the consumer it pulls jobs with. The machines, images and
  classes of \<open>worker_start\<close> come between reaching the queue and setting up the streams.
\<close>

record consumer_config =
  cf_durable_name :: string
  cf_filter_subjects :: "string list"
  cf_max_ack_pending :: int
  cf_ack_wait :: u64
  cf_max_deliver :: nat

record worker_settings =
  ws_nats_url :: string
  ws_builder :: string
  ws_nix_cli :: string
  ws_store_uri :: "string option"
  ws_store_dir :: string
  ws_max_parallel_input_fetches :: int
  ws_ack_heartbeat_interval :: u64
  ws_guest_heartbeat_deadline :: u64
  ws_extra_ca_pem :: bytes
  ws_vm_pool :: "vm_pool option"
  ws_consumer :: consumer_config

definition worker_main ::
  "reachable_services \<Rightarrow> host \<Rightarrow> (string \<Rightarrow> (io_kind, dir_entry list) res) \<Rightarrow> streams \<Rightarrow> (report, worker_settings) res \<times> string set \<times> streams" where
  "worker_main re h read_dir js =
     (let vars = ho_env h; nats_url = env_or vars ''NATS_URL'' ''nats://localhost:4222'' in
      case re_nats re nats_url of
        Err e \<Rightarrow> (Err [OpaqueCause e], ho_images h, js)
      | Panic \<Rightarrow> (Panic, ho_images h, js)
      | Ok _ \<Rightarrow>
          (case worker_start h of
             (Err e, images) \<Rightarrow> (Err e, images, js)
           | (Panic, images) \<Rightarrow> (Panic, images, js)
           | (Ok (pool, subjects, durable_name), images) \<Rightarrow>
               (case worker_streams re vars js of
                  (created, js) \<Rightarrow>
                    (bind_res (map_err (\<lambda>e. [OpaqueCause e]) created) (\<lambda>_.
                     bind_res (map_err (\<lambda>e. [OpaqueCause e]) (re_consumer re durable_name)) (\<lambda>_.
                     Ok \<lparr>ws_nats_url = nats_url, ws_builder = env_or vars ''KUBERNIX_NIX_BUILDER'' ''nix-store'',
                       ws_nix_cli = env_or vars ''KUBERNIX_NIX_CLI'' ''nix'', ws_store_uri = vars ''KUBERNIX_NIX_STORE'',
                       ws_store_dir = env_or vars ''KUBERNIX_STORE_DIR'' ''/nix/store'',
                       ws_max_parallel_input_fetches = env_positive_i64 vars ''KUBERNIX_WORKER_MAX_PARALLEL_INPUT_FETCHES'' 8,
                       ws_ack_heartbeat_interval = env_secs vars ''KUBERNIX_WORKER_ACK_HEARTBEAT_INTERVAL'' 20,
                       ws_guest_heartbeat_deadline = env_secs vars ''KUBERNIX_WORKER_GUEST_HEARTBEAT_DEADLINE'' 20,
                       ws_extra_ca_pem = read_extra_ca_pem vars read_dir, ws_vm_pool = pool,
                       ws_consumer = \<lparr>cf_durable_name = durable_name, cf_filter_subjects = subjects,
                         cf_max_ack_pending = env_positive_i64 vars ''KUBERNIX_WORKER_MAX_CONCURRENT'' 1,
                         cf_ack_wait = env_secs vars ''KUBERNIX_WORKER_ACK_WAIT'' 90, cf_max_deliver = MAX_JOB_DELIVER\<rparr>\<rparr>)), images, js))))"

subsection \<open>The frontend\<close>

datatype backing = InMemory | InDatabase "(string \<times> string) option" u64

datatype trust = TrustUnknown | Untrusted | Trusted

record rpc_config =
  rc_protocol_id :: string
  rc_version :: string
  rc_trust :: trust
  rc_store :: backing
  rc_queue :: "u64 option"
  rc_system :: string
  rc_uploader :: "upload_signer option"
  rc_tenant :: tenant
  rc_store_dir :: string

definition DEFAULT_PROTOCOL_ID :: string where "DEFAULT_PROTOCOL_ID = ''lix/legacy/kubernix''"

definition default_system :: "environment \<Rightarrow> string" where
  "default_system vars = env_or vars ''KUBERNIX_SYSTEM'' ''x86_64-linux''"

definition default_rpc_config :: "(bytes \<Rightarrow> bytes) \<Rightarrow> environment \<Rightarrow> rpc_config" where
  "default_rpc_config sha vars = \<lparr>rc_protocol_id = DEFAULT_PROTOCOL_ID, rc_version = ''kubernix-0.1.0'', rc_trust = TrustUnknown, rc_store = InMemory, rc_queue = None, rc_system = default_system vars,
     rc_uploader = None, rc_tenant = tenant_from_ssh sha ''anonymous'' None False, rc_store_dir = ''/nix/store''\<rparr>"

definition default_substituter_from_env :: "environment \<Rightarrow> (string \<times> string) option" where
  "default_substituter_from_env vars =
     (case (vars ''KUBERNIX_DEFAULT_SUBSTITUTER_URL'', vars ''KUBERNIX_DEFAULT_SUBSTITUTER_KEY'') of
        (Some url, Some key) \<Rightarrow> Some (url, key) | _ \<Rightarrow> None)"

definition rpc_config_from_env :: "(bytes \<Rightarrow> bytes) \<Rightarrow> reachable_services \<Rightarrow> environment \<Rightarrow> streams \<Rightarrow> (string, rpc_config) res \<times> streams" where
  "rpc_config_from_env sha re vars js =
     (let c = default_rpc_config sha vars;
          c = (case vars ''KUBERNIX_STORE_DIR'' of Some dir \<Rightarrow> c\<lparr>rc_store_dir := dir\<rparr> | None \<Rightarrow> c);
          connected =
            (case vars ''DATABASE_URL'' of
               Some url \<Rightarrow>
                 (case re_database re url RoleApp of
                    Ok _ \<Rightarrow> Ok (c\<lparr>rc_store := InDatabase (default_substituter_from_env vars)
                      (rpc_env_secs vars ''KUBERNIX_SUBSTITUTER_NEGATIVE_CACHE_TTL'' 600)\<rparr>)
                  | Err e \<Rightarrow> Err e | Panic \<Rightarrow> Panic)
             | None \<Rightarrow> Ok c)
      in case connected of
           Err e \<Rightarrow> (Err e, js)
         | Panic \<Rightarrow> (Panic, js)
         | Ok c \<Rightarrow>
             (case vars ''NATS_URL'' of
                None \<Rightarrow> (Ok c, js)
              | Some url \<Rightarrow>
                  (case job_queue_connect re url (rpc_env_secs vars ''KUBERNIX_JOB_RESULTS_RETENTION'' (24 * 3600)) js of
                     (Ok retention, js) \<Rightarrow>
                       (Ok (c\<lparr>rc_uploader := (case upload_signer_from_env vars of Ok signer \<Rightarrow> Some signer | _ \<Rightarrow> None), rc_queue := Some retention\<rparr>), js)
                   | (_, js) \<Rightarrow> (Ok c, js))))"

text \<open>
  The handshake of a connection: one protocol is advertised, and whatever text a client requests in its
  place it gets the boot capability, which carries the configuration.
\<close>

definition supported :: "rpc_config \<Rightarrow> (string \<times> string) list" where
  "supported c = [(rc_protocol_id c, ''kubernix distributed remote builder'')]"

definition request :: "rpc_config \<Rightarrow> string \<Rightarrow> string \<Rightarrow> (string, rpc_config) res" where
  "request c client_info requested =
     (if \<not> is_utf8 client_info then Err ''client_info is not UTF-8''
      else if \<not> is_utf8 requested then Err ''protocol is not UTF-8''
      else Ok c)"

subsection \<open>What each process serves\<close>

text \<open>The host key: the files as their contents, and the reader and writer of the key format.\<close>

record key_files =
  kf_read :: "string \<Rightarrow> (string, bytes) res"
  kf_print :: "bytes \<Rightarrow> string"
  kf_writable :: bool

definition load_or_create_host_key ::
  "key_files \<Rightarrow> environment \<Rightarrow> (string, bytes) res \<Rightarrow> (string \<Rightarrow> string option) \<Rightarrow> (string, bytes) res \<times> (string \<Rightarrow> string option)" where
  "load_or_create_host_key kf vars generated fs =
     (let path = env_or vars ''KUBERNIX_SSH_HOST_KEY'' ''kubernix_host_ed25519'' in
      case fs path of
        Some contents \<Rightarrow> (map_err (\<lambda>_. ''reading the host key at '' @ path) (kf_read kf contents), fs)
      | None \<Rightarrow>
          (case generated of
             Ok key \<Rightarrow>
               if kf_writable kf then (Ok key, fs(path \<mapsto> kf_print kf key)) else (Err (''writing the host key to '' @ path), fs)
           | Err e \<Rightarrow> (Err ''generating a host key'', fs)
           | Panic \<Rightarrow> (Panic, fs)))"

definition sshd_policy :: "environment \<Rightarrow> auth_policy" where
  "sshd_policy vars = (if vars ''KUBERNIX_SSH_ACCEPT_ALL'' \<noteq> None then AcceptAll else RequireKey)"

record sshd =
  sd_listen :: string
  sd_key :: bytes
  sd_policy :: auth_policy
  sd_config :: rpc_config

definition sshd_main ::
  "(bytes \<Rightarrow> bytes) \<Rightarrow> key_files \<Rightarrow> reachable_services \<Rightarrow> environment \<Rightarrow> (string, bytes) res \<Rightarrow> (string \<Rightarrow> string option) \<times> streams \<Rightarrow>
   (string, sshd) res \<times> (string \<Rightarrow> string option) \<times> streams" where
  "sshd_main sha kf re vars generated st =
     (case st of (fs, js) \<Rightarrow>
      case load_or_create_host_key kf vars generated fs of
        (Ok key, fs) \<Rightarrow>
          (case rpc_config_from_env sha re vars js of
             (c, js) \<Rightarrow> (bind_res c (\<lambda>c. Ok \<lparr>sd_listen = env_or vars ''KUBERNIX_SSH_LISTEN'' ''0.0.0.0:2222'', sd_key = key,
                 sd_policy = sshd_policy vars, sd_config = c\<rparr>), fs, js))
      | (Err e, fs) \<Rightarrow> (Err e, fs, js)
      | (Panic, fs) \<Rightarrow> (Panic, fs, js))"

text \<open>The certificates and the key a TLS frontend identifies itself with.\<close>

definition load_identity :: "(string \<Rightarrow> (string, bytes list) res) \<Rightarrow> (string \<Rightarrow> (string, bytes) res) \<Rightarrow> string \<Rightarrow> string \<Rightarrow> (string, bytes list \<times> bytes) res" where
  "load_identity certs_in key_in cert_path key_path =
     bind_res (certs_in cert_path) (\<lambda>certs.
     if certs = [] then Err (''no certificates in '' @ cert_path)
     else bind_res (key_in key_path) (\<lambda>key. Ok (certs, key)))"

record mtlsd =
  md_listen :: string
  md_identity :: "bytes list \<times> bytes"
  md_config :: rpc_config

definition mtlsd_main ::
  "(bytes \<Rightarrow> bytes) \<Rightarrow> (string \<Rightarrow> (string, bytes list) res) \<Rightarrow> (string \<Rightarrow> (string, bytes) res) \<Rightarrow> reachable_services \<Rightarrow> environment \<Rightarrow> streams \<Rightarrow>
   (string, mtlsd) res \<times> streams" where
  "mtlsd_main sha certs_in key_in re vars js =
     (case bind_res (ok_or ''KUBERNIX_TLS_CERT is required'' (vars ''KUBERNIX_TLS_CERT'')) (\<lambda>cert.
           bind_res (ok_or ''KUBERNIX_TLS_KEY is required'' (vars ''KUBERNIX_TLS_KEY'')) (\<lambda>key.
           map_err (\<lambda>_. ''loading the server certificate'') (load_identity certs_in key_in cert key))) of
        Ok identity \<Rightarrow>
          (case rpc_config_from_env sha re vars js of
             (c, js) \<Rightarrow> (bind_res c (\<lambda>c. Ok \<lparr>md_listen = env_or vars ''KUBERNIX_TLS_LISTEN'' ''0.0.0.0:2224'', md_identity = identity, md_config = c\<rparr>), js))
      | Err e \<Rightarrow> (Err e, js)
      | Panic \<Rightarrow> (Panic, js))"

definition stdio_config :: "(bytes \<Rightarrow> bytes) \<Rightarrow> environment \<Rightarrow> rpc_config" where
  "stdio_config sha vars =
     (let c = default_rpc_config sha vars in case vars ''KUBERNIX_STORE_DIR'' of Some dir \<Rightarrow> c\<lparr>rc_store_dir := dir\<rparr> | None \<Rightarrow> c)"

record cache_server =
  ca_in_database :: bool
  ca_uploader :: "upload_signer option"
  ca_store_dir :: string
  ca_priority :: u32
  ca_listen :: string

definition cache_main :: "reachable_services \<Rightarrow> environment \<Rightarrow> (string, cache_server) res" where
  "cache_main re vars =
     bind_res (case vars ''DATABASE_URL'' of
                 Some url \<Rightarrow> bind_res (map_err (\<lambda>_. ''connecting to PostgreSQL'') (re_database re url RoleApp)) (\<lambda>_. Ok True)
               | None \<Rightarrow> Ok False) (\<lambda>stored.
     Ok \<lparr>ca_in_database = stored, ca_uploader = (case upload_signer_from_env vars of Ok signer \<Rightarrow> Some signer | _ \<Rightarrow> None),
         ca_store_dir = env_or vars ''KUBERNIX_STORE_DIR'' ''/nix/store'',
         ca_priority = (case Option.bind (vars ''KUBERNIX_CACHE_PRIORITY'') parse_u32 of Some p \<Rightarrow> p | None \<Rightarrow> 50),
         ca_listen = env_or vars ''KUBERNIX_HTTP_LISTEN'' ''0.0.0.0:3000''\<rparr>)"

subsection \<open>Collector and rotation\<close>

record collector =
  co_cutoffs :: tier_cutoffs
  co_retention :: job_retention
  co_batch :: int
  co_interval :: u64

text \<open>A timer without a period panics.\<close>

definition gc_main :: "reachable_services \<Rightarrow> environment \<Rightarrow> (string, collector) res" where
  "gc_main re vars =
     bind_res (ok_or ''DATABASE_URL must be set - nothing to collect without it'' (vars ''DATABASE_URL'')) (\<lambda>url.
     bind_res (map_err (\<lambda>_. ''connecting to PostgreSQL'') (re_database re url RoleGc)) (\<lambda>_.
     bind_res (map_err (\<lambda>_. ''no S3 configuration'') (upload_signer_from_env vars)) (\<lambda>_.
     let secs = (\<lambda>name fallback. unat (rpc_env_secs vars name (of_nat fallback)));
         interval = rpc_env_secs vars ''KUBERNIX_GC_INTERVAL'' 300
     in if interval = 0 then Panic
        else Ok \<lparr>co_cutoffs = \<lparr>tc_verified = secs ''KUBERNIX_GC_CUTOFF_VERIFIED'' (tc_verified default_cutoffs),
                   tc_built = secs ''KUBERNIX_GC_CUTOFF_BUILT'' (tc_built default_cutoffs),
                   tc_quarantined = secs ''KUBERNIX_GC_CUTOFF_QUARANTINED'' (tc_quarantined default_cutoffs)\<rparr>,
                 co_retention = \<lparr>jr_log_after = secs ''KUBERNIX_GC_JOB_LOG_CUTOFF'' (jr_log_after default_retention),
                   jr_row_after = secs ''KUBERNIX_GC_JOB_ROW_CUTOFF'' (jr_row_after default_retention),
                   jr_stuck_running_after = secs ''KUBERNIX_JOB_RESULTS_RETENTION'' (jr_stuck_running_after default_retention)\<rparr>,
                 co_batch = (case Option.bind (vars ''KUBERNIX_GC_BATCH'') parse_i64 of Some n \<Rightarrow> n | None \<Rightarrow> 10000),
                 co_interval = interval\<rparr>)))"

datatype rotator = RotateOnce u64 | RotateEvery u64 u64

definition rotate_main :: "reachable_services \<Rightarrow> environment \<Rightarrow> string list \<Rightarrow> (string, rotator) res" where
  "rotate_main re vars argv =
     bind_res (ok_or ''DATABASE_URL must be set - nothing to rotate without it'' (vars ''DATABASE_URL'')) (\<lambda>url.
     bind_res (map_err (\<lambda>_. ''connecting to PostgreSQL'') (re_database re url RoleGc)) (\<lambda>_.
     let interval = rpc_env_secs vars ''KUBERNIX_ROTATE_INTERVAL'' (6 * 3600);
         retention = rpc_env_secs vars ''KUBERNIX_ROTATE_RETENTION'' (24 * 3600)
     in if ''--once'' \<in> set argv then Ok (RotateOnce retention)
        else if interval = 0 then Panic else Ok (RotateEvery interval retention)))"

subsection \<open>The operator's commands\<close>

datatype cli_key_type = CliSsh | CliTls

fun cli_key_type_into :: "cli_key_type \<Rightarrow> key_type" where
  "cli_key_type_into CliSsh = Ssh"
| "cli_key_type_into CliTls = Tls"

text \<open>An id on the command line is checked like one on the wire.\<close>

definition tenant_id_arg :: "string \<Rightarrow> (invalid_tenant_id, tenant_id) res" where
  "tenant_id_arg s = tenant_from_str s"

datatype admin_command =
    ListTenants
  | AddTenant string
  | ListCredentials tenant_id
  | AddCredential tenant_id cli_key_type string
  | DeleteCredential cli_key_type string
  | ListSubstituters tenant_id
  | AddSubstituter tenant_id string string
  | RemoveSubstituter tenant_id string

datatype cli_error = AdminFailed admin_error | Unreadable string string | NoSuchCredential string | NoSuchSubstituter string

text \<open>
  Columns are filled to a width in characters, which the printer of a tenant's id ignores; names are
  printed as Rust debug strings.
\<close>

definition pad_right :: "nat \<Rightarrow> string \<Rightarrow> string" where
  "pad_right width s = s @ replicate (width - length (char_starts s)) (CHR '' '')"

definition show_bool :: "bool \<Rightarrow> string" where
  "show_bool b = (if b then ''true'' else ''false'')"

definition quoted :: "string \<Rightarrow> string" where
  "quoted s = [CHR 0x22] @ concat (map escape_debug s) @ [CHR 0x22]"

definition tenant_line :: "tenant_summary \<Rightarrow> string" where
  "tenant_line ts = tid_str (ts_id ts) @ '' '' @ pad_right 10 (show_bool (ts_verified ts)) @ '' '' @ ts_identity ts"

definition cli_list_tenants :: "pg \<Rightarrow> (cli_error, string list) res" where
  "cli_list_tenants db =
     bind_res (map_err AdminFailed (list_tenants db)) (\<lambda>ts.
     if ts = [] then Ok [''no tenants'']
     else Ok ((pad_right 40 ''id'' @ '' '' @ pad_right 10 ''verified'' @ '' identity'') # map tenant_line ts))"

definition cli_add_tenant :: "(bytes \<Rightarrow> bytes) \<Rightarrow> string \<Rightarrow> pg \<Rightarrow> (cli_error, string list) res \<times> pg" where
  "cli_add_tenant sha name db =
     (case add_tenant sha name db of
        (r, db) \<Rightarrow> (bind_res (map_err AdminFailed r) (\<lambda>id. Ok [''added tenant '' @ quoted name @ '' as '' @ tid_str id]), db))"

definition credential_line :: "string \<times> string \<Rightarrow> string" where
  "credential_line c = pad_right 10 (fst c) @ '' '' @ snd c"

definition cli_list_credentials :: "tenant_id \<Rightarrow> pg \<Rightarrow> (cli_error, string list) res" where
  "cli_list_credentials t db =
     bind_res (map_err AdminFailed (list_credentials t db)) (\<lambda>cs.
     if cs = [] then Ok [''no credentials''] else Ok ((pad_right 10 ''type'' @ '' key_id'') # map credential_line cs))"

definition cli_add_credential ::
  "credential_parsers \<Rightarrow> (string \<Rightarrow> (string, string) res) \<Rightarrow> tenant_id \<Rightarrow> key_type \<Rightarrow> string \<Rightarrow> pg \<Rightarrow> (cli_error, string list) res \<times> pg" where
  "cli_add_credential ps read_file t kt given db =
     (case (if kt = Tls then map_err (Unreadable given) (read_file given) else Ok given) of
        Ok contents \<Rightarrow>
          (case add_credential ps t kt contents db of
             (r, db) \<Rightarrow> (bind_res (map_err AdminFailed r) (\<lambda>_. Ok [''added credential for tenant '' @ tid_str t]), db))
      | Err e \<Rightarrow> (Err e, db)
      | Panic \<Rightarrow> (Panic, db))"

definition cli_delete_credential :: "key_type \<Rightarrow> string \<Rightarrow> pg \<Rightarrow> (cli_error, string list) res \<times> pg" where
  "cli_delete_credential kt key_id db =
     (case delete_credential kt key_id db of
        (r, db) \<Rightarrow> (bind_res (map_err AdminFailed r) (\<lambda>deleted.
            if deleted then Ok [''deleted credential '' @ key_id] else Err (NoSuchCredential key_id)), db))"

definition substituter_line :: "string \<times> string \<Rightarrow> string" where
  "substituter_line sb = pad_right 40 (fst sb) @ '' '' @ snd sb"

definition cli_list_substituters :: "tenant_id \<Rightarrow> pg \<Rightarrow> (cli_error, string list) res" where
  "cli_list_substituters t db =
     bind_res (map_err AdminFailed (list_substituters t db)) (\<lambda>sbs.
     if sbs = [] then Ok [''no substituters''] else Ok ((pad_right 40 ''url'' @ '' public_key'') # map substituter_line sbs))"

definition cli_add_substituter :: "tenant_id \<Rightarrow> string \<Rightarrow> string \<Rightarrow> pg \<Rightarrow> (cli_error, string list) res \<times> pg" where
  "cli_add_substituter t url pk db =
     (case add_substituter t url pk db of
        (r, db) \<Rightarrow> (bind_res (map_err AdminFailed r) (\<lambda>_. Ok [''added substituter '' @ quoted url @ '' for tenant '' @ tid_str t]), db))"

definition cli_remove_substituter :: "tenant_id \<Rightarrow> string \<Rightarrow> pg \<Rightarrow> (cli_error, string list) res \<times> pg" where
  "cli_remove_substituter t url db =
     (case remove_substituter t url db of
        (r, db) \<Rightarrow> (bind_res (map_err AdminFailed r) (\<lambda>removed.
            if removed then Ok [''removed substituter '' @ quoted url @ '' from tenant '' @ tid_str t]
            else Err (NoSuchSubstituter url)), db))"

text \<open>What the commands use of the outside: the hash, the parsers of keys, and the files.\<close>

record operator =
  op_sha :: "bytes \<Rightarrow> bytes"
  op_parsers :: credential_parsers
  op_read_file :: "string \<Rightarrow> (string, string) res"

fun run_command :: "operator \<Rightarrow> admin_command \<Rightarrow> pg \<Rightarrow> (cli_error, string list) res \<times> pg" where
  "run_command op ListTenants db = (cli_list_tenants db, db)"
| "run_command op (AddTenant name) db = cli_add_tenant (op_sha op) name db"
| "run_command op (ListCredentials t) db = (cli_list_credentials t db, db)"
| "run_command op (AddCredential t kt given) db = cli_add_credential (op_parsers op) (op_read_file op) t (cli_key_type_into kt) given db"
| "run_command op (DeleteCredential kt key_id) db = cli_delete_credential (cli_key_type_into kt) key_id db"
| "run_command op (ListSubstituters t) db = (cli_list_substituters t db, db)"
| "run_command op (AddSubstituter t url pk) db = cli_add_substituter t url pk db"
| "run_command op (RemoveSubstituter t url) db = cli_remove_substituter t url db"

text \<open>The process: an invocation that cannot reach the database runs no command.\<close>

datatype admin_exit = NotStarted string | Ran "(cli_error, string list) res"

definition admin_main :: "operator \<Rightarrow> reachable_services \<Rightarrow> environment \<Rightarrow> admin_command \<Rightarrow> pg \<Rightarrow> admin_exit \<times> pg" where
  "admin_main op re vars command db =
     (case bind_res (ok_or ''DATABASE_URL must be set'' (vars ''DATABASE_URL'')) (\<lambda>url.
           map_err (\<lambda>_. ''connecting to PostgreSQL'') (re_database re url RoleAdmin)) of
        Err e \<Rightarrow> (NotStarted e, db)
      | Panic \<Rightarrow> (NotStarted ''panic'', db)
      | Ok _ \<Rightarrow>
          (case run_command op command (db\<lparr>pg_default_substituter := default_substituter_from_env vars\<rparr>) of (r, db) \<Rightarrow> (Ran r, db)))"

subsection \<open>What the environment decides\<close>

lemma get_or_create_stream_other [simp]: "name' \<noteq> name \<Longrightarrow> get_or_create_stream name c js name' = js name'"
  by (simp add: get_or_create_stream_def split: option.splits)

lemma get_or_create_stream_same: "get_or_create_stream name c js name = (case js name of Some c' \<Rightarrow> Some c' | None \<Rightarrow> Some c)"
  by (simp add: get_or_create_stream_def split: option.splits)

lemma streams_differ [simp]: "JOBS_STREAM \<noteq> RESULTS_STREAM" "RESULTS_STREAM \<noteq> JOBS_STREAM"
  by (simp_all add: JOBS_STREAM_def RESULTS_STREAM_def)

text \<open>
  A frontend starts whenever the database it is told about answers, and refuses to start otherwise.
  Without one it serves from memory; it takes builds if and only if the queue it is told about answers
  and gives it both streams, and then always has somewhere to upload to; and a frontend that refuses to
  start has not touched the queue.
\<close>

theorem frontend_start_decided:
  assumes "rpc_config_from_env sha re vars js = (r, js')" and "\<And>url role. re_database re url role \<noteq> Panic"
  shows "(case r of
      Ok c \<Rightarrow> (rc_store c = InMemory \<longleftrightarrow> vars ''DATABASE_URL'' = None) \<and>
        (rc_queue c \<noteq> None \<longleftrightarrow> (\<exists>url. vars ''NATS_URL'' = Some url \<and> re_nats re url = Ok ()) \<and> re_stream re JOBS_STREAM = Ok () \<and> re_stream re RESULTS_STREAM = Ok ()) \<and>
        (rc_uploader c \<noteq> None \<longleftrightarrow> rc_queue c \<noteq> None) \<and> (rc_queue c = None \<longrightarrow> js' RESULTS_STREAM = js RESULTS_STREAM)
    | Err e \<Rightarrow> (\<exists>url. vars ''DATABASE_URL'' = Some url \<and> re_database re url RoleApp = Err e) \<and> js' = js
    | Panic \<Rightarrow> False) \<and>
    ((\<exists>e. r = Err e) \<longleftrightarrow> (\<exists>url. vars ''DATABASE_URL'' = Some url \<and> re_database re url RoleApp \<noteq> Ok ()))"
proof -
  have "rc_store (default_rpc_config sha vars) = InMemory" "rc_queue (default_rpc_config sha vars) = None" "rc_uploader (default_rpc_config sha vars) = None"
    by (simp_all add: default_rpc_config_def)
  then show ?thesis using assms
    by (auto simp: rpc_config_from_env_def job_queue_connect_def create_streams_def create_stream_def bind_res_Ok_iff upload_signer_from_env_def Let_def split: option.splits res.splits prod.splits)
qed

definition ex_services :: reachable_services where
  "ex_services = \<lparr>re_database = (\<lambda>url role. if url = ''db'' then Ok () else Err ''refused''), re_nats = (\<lambda>url. if url = ''nats'' then Ok () else Err ''refused''),
     re_stream = (\<lambda>_. Ok ()), re_delete_stream = (\<lambda>_. True), re_consumer = (\<lambda>_. Ok ())\<rparr>"

definition ex_vars :: environment where
  "ex_vars = [''DATABASE_URL'' \<mapsto> ''db'', ''NATS_URL'' \<mapsto> ''nats'', ''KUBERNIX_JOB_RESULTS_RETENTION'' \<mapsto> ''3600'']"

lemma ex_vars_lookup:
  "ex_vars ''DATABASE_URL'' = Some ''db''" "ex_vars ''NATS_URL'' = Some ''nats''" "ex_vars ''KUBERNIX_JOB_RESULTS_RETENTION'' = Some ''3600''"
  "ex_vars ''KUBERNIX_STORE_DIR'' = None" "ex_vars ''KUBERNIX_GC_INTERVAL'' = None"
  by (simp_all add: ex_vars_def)

lemmas server_eval = ex_services_def ex_vars_lookup rpc_config_from_env_def default_rpc_config_def job_queue_connect_def upload_signer_from_env_def
  env_or_def default_system_def default_substituter_from_env_def rpc_env_secs_def

theorem frontend_start_decided_witness:
  "\<exists>c js'. rpc_config_from_env id ex_services ex_vars (\<lambda>_. None) = (Ok c, js') \<and> rc_store c \<noteq> InMemory \<and> rc_queue c \<noteq> None \<and> rc_uploader c \<noteq> None"
proof -
  obtain r js' where r: "rpc_config_from_env id ex_services ex_vars (\<lambda>_. None) = (r, js')" by fastforce
  have db: "ex_vars ''DATABASE_URL'' = Some ''db''" "ex_vars ''NATS_URL'' = Some ''nats''" by (simp_all add: ex_vars_def)
  have up: "re_database ex_services url role \<noteq> Panic" "re_database ex_services ''db'' role = Ok ()" "re_nats ex_services ''nats'' = Ok ()" "re_stream ex_services name = Ok ()" for url role name
    by (simp_all add: ex_services_def)
  show ?thesis using frontend_start_decided [OF r up(1)] r db up by (cases r) auto
qed

subsection \<open>Who decides how long results are kept\<close>

datatype process = Frontend environment | BuildWorker environment

fun process_env :: "process \<Rightarrow> environment" where
  "process_env (Frontend vars) = vars"
| "process_env (BuildWorker vars) = vars"

fun start_process :: "(bytes \<Rightarrow> bytes) \<Rightarrow> reachable_services \<Rightarrow> streams \<Rightarrow> process \<Rightarrow> streams" where
  "start_process sha re js (Frontend vars) = snd (rpc_config_from_env sha re vars js)"
| "start_process sha re js (BuildWorker vars) = snd (worker_streams re vars js)"

definition results_retention :: "environment \<Rightarrow> u64" where
  "results_retention vars = rpc_env_secs vars ''KUBERNIX_JOB_RESULTS_RETENTION'' (24 * 3600)"

lemma worker_retention_eq: "worker_results_retention vars = results_retention vars"
  by (simp add: worker_results_retention_def results_retention_def env_secs_def rpc_env_secs_def)

lemma create_streams_results:
  assumes "create_streams re age js = (r, js')"
  shows "js' RESULTS_STREAM = js RESULTS_STREAM \<or> (js RESULTS_STREAM = None \<and> (\<exists>c. js' RESULTS_STREAM = Some c \<and> sc_max_age c = age))"
    and "r = Ok () \<Longrightarrow> js' RESULTS_STREAM \<noteq> None"
  using assms by (auto simp: create_streams_def create_stream_def get_or_create_stream_same split: option.splits res.splits prod.splits)

lemma frontend_streams:
  assumes "rpc_config_from_env sha re vars js = (r, js')"
  shows "js' RESULTS_STREAM = js RESULTS_STREAM \<or> (js RESULTS_STREAM = None \<and> (\<exists>c. js' RESULTS_STREAM = Some c \<and> sc_max_age c = results_retention vars))"
    and "r = Ok c \<Longrightarrow> rc_queue c \<in> {None, Some (results_retention vars)}"
  using assms create_streams_results(1) [of re "results_retention vars" js _ js']
  by (auto simp: rpc_config_from_env_def job_queue_connect_def default_rpc_config_def results_retention_def bind_res_Ok_iff Let_def
      split: option.splits res.splits prod.splits)

lemma worker_streams_results:
  assumes "worker_streams re vars js = (r, js')"
  shows "js' RESULTS_STREAM \<in> {None, js RESULTS_STREAM} \<or> (\<exists>c. js' RESULTS_STREAM = Some c \<and> sc_max_age c = results_retention vars)"
    and "r = Ok () \<Longrightarrow> js' RESULTS_STREAM \<noteq> None"
proof -
  let ?js = "if vars ''KUBERNIX_RESET_STREAMS'' \<noteq> None
    then foldl (\<lambda>js name. if re_delete_stream re name then js(name := None) else js) js [''kubernix_jobs'', ''kubernix_results''] else js"
  have created: "create_streams re (results_retention vars) ?js = (r, js')" using assms by (simp add: worker_streams_def worker_retention_eq Let_def)
  have "?js RESULTS_STREAM \<in> {None, js RESULTS_STREAM}" by (simp add: RESULTS_STREAM_def)
  then show "js' RESULTS_STREAM \<in> {None, js RESULTS_STREAM} \<or> (\<exists>c. js' RESULTS_STREAM = Some c \<and> sc_max_age c = results_retention vars)"
    using create_streams_results(1) [OF created] by auto
  show "r = Ok () \<Longrightarrow> js' RESULTS_STREAM \<noteq> None" by (rule create_streams_results(2) [OF created])
qed

definition keeps_for :: "u64 \<Rightarrow> streams \<Rightarrow> bool" where
  "keeps_for age js \<longleftrightarrow> (\<forall>c. js RESULTS_STREAM = Some c \<longrightarrow> sc_max_age c = age)"

lemma start_keeps_for:
  assumes "keeps_for (results_retention (process_env p)) js"
  shows "keeps_for (results_retention (process_env p)) (start_process sha re js p)"
proof (cases p)
  case (Frontend vars)
  obtain r js' where e: "rpc_config_from_env sha re vars js = (r, js')" by fastforce
  show ?thesis using assms frontend_streams(1) [OF e] Frontend e by (auto simp: keeps_for_def)
next
  case (BuildWorker vars)
  obtain r js' where e: "worker_streams re vars js = (r, js')" by fastforce
  show ?thesis using assms worker_streams_results(1) [OF e] BuildWorker e by (auto simp: keeps_for_def)
qed

lemma frontend_connected:
  assumes "vars ''DATABASE_URL'' = Some url" and "re_database re url RoleApp = Ok ()" and "vars ''NATS_URL'' = Some n" and "re_nats re n = Ok ()"
    and "\<And>name. re_stream re name = Ok ()"
  obtains c js' where "rpc_config_from_env sha re vars js = (Ok c, js')" and "rc_queue c = Some (results_retention vars)"
  using assms that by (simp add: rpc_config_from_env_def job_queue_connect_def create_streams_def create_stream_def results_retention_def Let_def)

lemma gc_main_stuck:
  assumes "gc_main re vars = Ok c"
  shows "jr_stuck_running_after (co_retention c) = unat (results_retention vars)"
proof -
  have "co_retention c = \<lparr>jr_log_after = unat (rpc_env_secs vars ''KUBERNIX_GC_JOB_LOG_CUTOFF'' (of_nat (jr_log_after default_retention))),
      jr_row_after = unat (rpc_env_secs vars ''KUBERNIX_GC_JOB_ROW_CUTOFF'' (of_nat (jr_row_after default_retention))),
      jr_stuck_running_after = unat (rpc_env_secs vars ''KUBERNIX_JOB_RESULTS_RETENTION'' (of_nat (jr_stuck_running_after default_retention)))\<rparr>"
    using assms unfolding gc_main_def upload_signer_from_env_def Let_def bind_res_Ok_iff by (elim exE conjE) (simp split: if_splits, auto)
  then show ?thesis by (simp add: results_retention_def default_retention_def)
qed

text \<open>
  C25: Processes that are given the same retention agree on it, whoever starts first and however often they
  are started again: the stream of results keeps an outcome exactly as long as a frontend holds the
  reservation of its job, and the collector gives up a running job after exactly that time.
\<close>

theorem retention_agreed:
  assumes "\<forall>p \<in> set started. results_retention (process_env p) = age"
    and "foldl (start_process sha re) (\<lambda>_. None) started RESULTS_STREAM = Some stream"
    and "Frontend vars \<in> set started" and "rpc_config_from_env sha re vars js = (Ok c, js')" and "rc_queue c = Some held"
    and "gc_main re gc_vars = Ok collector" and "gc_vars ''KUBERNIX_JOB_RESULTS_RETENTION'' = vars ''KUBERNIX_JOB_RESULTS_RETENTION''"
  shows "sc_max_age stream = held \<and> jr_stuck_running_after (co_retention collector) = unat held"
proof -
  have "keeps_for age (foldl (start_process sha re) js started)" if "keeps_for age js" for js
    using that assms(1)
  proof (induction started arbitrary: js)
    case (Cons p started)
    then show ?case using start_keeps_for [of p js sha re] by simp
  qed simp
  from this [of "\<lambda>_. None"] have "sc_max_age stream = age" using assms(2) by (simp add: keeps_for_def)
  moreover have "held = results_retention vars" using frontend_streams(2) [OF assms(4) refl] assms(5) by simp
  moreover have "results_retention vars = age" using assms(1,3) by force
  moreover have "results_retention gc_vars = results_retention vars" using assms(7) by (simp add: results_retention_def rpc_env_secs_def)
  moreover note gc_main_stuck [OF assms(6)]
  ultimately show ?thesis by simp
qed

theorem retention_agreed_witness:
  "\<exists>stream collector c js'. foldl (start_process id ex_services) (\<lambda>_. None) [BuildWorker ex_vars, Frontend ex_vars] RESULTS_STREAM = Some stream \<and>
    gc_main ex_services ex_vars = Ok collector \<and> rpc_config_from_env id ex_services ex_vars (\<lambda>_. None) = (Ok c, js') \<and>
    rc_queue c = Some 3600 \<and> sc_max_age stream = 3600 \<and> jr_stuck_running_after (co_retention collector) = 3600"
proof -
  have secs: "results_retention ex_vars = 3600"
    by (simp add: results_retention_def rpc_env_secs_def ex_vars_lookup parse_u64_def is_dec_digit_def digits_val_def)
  have up: "re_database ex_services ''db'' role = Ok ()" "re_nats ex_services ''nats'' = Ok ()" "re_stream ex_services name = Ok ()" for role name
    by (simp_all add: ex_services_def)
  obtain c js' where c: "rpc_config_from_env id ex_services ex_vars (\<lambda>_. None) = (Ok c, js')" "rc_queue c = Some 3600"
    using frontend_connected [OF ex_vars_lookup(1) up(1) ex_vars_lookup(2) up(2,3)] secs by metis
  obtain collector where g: "gc_main ex_services ex_vars = Ok collector"
    using up(1) by (simp add: gc_main_def ex_vars_lookup upload_signer_from_env_def rpc_env_secs_def [of _ "''KUBERNIX_GC_INTERVAL''"] Let_def)
  obtain stream where s: "foldl (start_process id ex_services) (\<lambda>_. None) [BuildWorker ex_vars, Frontend ex_vars] RESULTS_STREAM = Some stream"
  proof -
    obtain r js1 where w: "worker_streams ex_services ex_vars (\<lambda>_. None) = (r, js1)" by fastforce
    then have "r = Ok ()" using up(3) by (auto simp: worker_streams_def create_streams_def create_stream_def Let_def)
    moreover obtain r' js2 where "rpc_config_from_env id ex_services ex_vars js1 = (r', js2)" by fastforce
    ultimately show ?thesis using that w worker_streams_results(2) [OF w] frontend_streams(1) [of id ex_services ex_vars js1 r' js2] by auto
  qed
  show ?thesis using retention_agreed [OF _ s _ c g refl, of "results_retention ex_vars"] c g s by simp
qed

subsection \<open>Keys and credentials over restarts\<close>

text \<open>
  A frontend that is started again presents the same host key, if what was written can be read back.
\<close>

theorem host_key_stable:
  assumes "\<And>key. kf_read kf (kf_print kf key) = Ok key" and "load_or_create_host_key kf vars generated fs = (Ok key, fs')"
  shows "load_or_create_host_key kf vars generated' fs' = (Ok key, fs')"
  using assms by (cases "fs (env_or vars ''KUBERNIX_SSH_HOST_KEY'' ''kubernix_host_ed25519'')")
    (auto simp: load_or_create_host_key_def Let_def split: res.splits if_splits)

text \<open>
  A credential that was added is on the last line of the tenant's list, deleting it by the id printed there
  restores the tables, and deleting it again is an error that changes nothing.
\<close>

theorem credential_commands:
  assumes "run_command op (AddCredential t kt given) db = (Ok out, db')"
  shows "\<exists>key_id lines. run_command op (ListCredentials t) db' = (Ok (lines @ [credential_line (key_type_as_str (cli_key_type_into kt), key_id)]), db') \<and>
    run_command op (DeleteCredential kt key_id) db' = (Ok [''deleted credential '' @ key_id], db) \<and>
    run_command op (DeleteCredential kt key_id) db = (Err (NoSuchCredential key_id), db)"
proof -
  let ?kt = "cli_key_type_into kt"
  obtain contents where add: "add_credential (op_parsers op) t ?kt contents db = (Ok (), db')"
    using assms by (auto simp: cli_add_credential_def bind_res_Ok_iff split: res.splits prod.splits) (metis map_err_Ok_iff)+
  then obtain key_id v where cred: "credential_of (op_parsers op) ?kt contents = Ok (key_id, v)"
    by (auto simp: add_credential_def split: res.splits)
  note restored = add_delete_credential [OF add cred]
  have new: "map_of (pg_bindings db) (key_type_as_str ?kt, key_id) = None"
    and db': "db' = db\<lparr>pg_bindings := pg_bindings db @ [((key_type_as_str ?kt, key_id), (tid_str t, Some v))]\<rparr>"
    using add cred by (cases "map_of (pg_bindings db) (key_type_as_str ?kt, key_id)"; auto simp: add_credential_def split: option.splits if_splits)+
  have "list_credentials t db' = Ok (map fst (filter (\<lambda>row. fst (snd row) = tid_str t) (pg_bindings db)) @ [(key_type_as_str ?kt, key_id)])"
    using restored(2) by (simp add: db' list_credentials_def)
  then have "cli_list_credentials t db' = Ok ((pad_right 10 ''type'' @ '' key_id'') # map credential_line
      (map fst (filter (\<lambda>row. fst (snd row) = tid_str t) (pg_bindings db))) @ [credential_line (key_type_as_str ?kt, key_id)])"
    by (simp add: cli_list_credentials_def)
  moreover have "delete_credential ?kt key_id db' = (Ok True, db)"
    using restored by (auto simp: delete_credential_def db' new map_add_def)
  moreover have "delete_credential ?kt key_id db = (Ok False, db)"
  proof -
    have "filter (\<lambda>row. fst row \<noteq> (key_type_as_str ?kt, key_id)) (pg_bindings db) = pg_bindings db"
      using new by (force simp: filter_id_conv map_of_eq_None_iff)
    then show ?thesis using restored(2) new by (simp add: delete_credential_def)
  qed
  ultimately show ?thesis by (auto simp: cli_delete_credential_def)
qed

text \<open>
  A worker that starts pulls only from subjects the stream of jobs covers, holds at least one message,
  and finds both streams in place.
\<close>

theorem worker_pulls_from_stream:
  assumes "worker_main re h read_dir js = (Ok ws, images, js')"
  shows "list_all (\<lambda>subject. starts_with subject ''kubernix.jobs.'') (cf_filter_subjects (ws_consumer ws)) \<and> cf_filter_subjects (ws_consumer ws) \<noteq> [] \<and>
    0 < cf_max_ack_pending (ws_consumer ws) \<and> js' JOBS_STREAM \<noteq> None \<and> js' RESULTS_STREAM \<noteq> None"
proof -
  let ?vars = "ho_env h"
  obtain pool subjects durable where start: "worker_start h = (Ok (pool, subjects, durable), images)"
    and streams: "worker_streams re ?vars js = (Ok (), js')"
    and ws: "cf_filter_subjects (ws_consumer ws) = subjects" "cf_max_ack_pending (ws_consumer ws) = env_positive_i64 ?vars ''KUBERNIX_WORKER_MAX_CONCURRENT'' 1"
    using assms by (auto simp: worker_main_def Let_def bind_res_Ok_iff map_err_Ok_iff split: res.splits prod.splits)
  have "list_all (\<lambda>subject. starts_with subject ''kubernix.jobs.'') subjects \<and> subjects \<noteq> []"
    using start by (auto simp: worker_start_def worker_subjects_and_consumer_def Let_def bind_res_Ok_iff list_all_iff split: res.splits prod.splits if_splits)
  moreover have "js' JOBS_STREAM \<noteq> None" using streams
    by (auto simp: worker_streams_def create_streams_def create_stream_def get_or_create_stream_same Let_def split: res.splits prod.splits option.splits)
  moreover have "0 < env_positive_i64 vars name 1" for vars name
    by (auto simp: env_positive_i64_def split: option.splits if_splits)
  ultimately show ?thesis using ws worker_streams_results(2) [OF streams] by simp
qed

end
