(* ===== verification/View.thy ===== *)
theory View
  imports Reservations
begin

text \<open>
  The store as one connection sees it: \<open>server/src/tenant_view.rs\<close>, a store together with the one tenant
  every call is made for. The locale \<open>partitioned\<close> states when a store keeps its tenants apart, in the way
  of an unwinding proof: a relation per tenant that decides every answer the tenant gets, that no call of
  another tenant leaves, and that the tenant's own calls preserve. PostgreSQL is such a store as long as a
  key names one object and a job id belongs to one tenant; so in every interleaving of connections a tenant
  gets the answers it would get alone.
\<close>

subsection \<open>The calls of a view\<close>

record 's tenant_view =
  tv_store :: "'s store_ops"
  tv_tenant :: tenant_id

text \<open>The randomness a new signing key is drawn from is an argument of the call.\<close>

datatype view_request =
    VIsValidPath store_path
  | VQueryValidPaths "store_path list"
  | VQueryAllValidPaths
  | VQueryPathInfo store_path
  | VQueryPathFromHashPart string
  | VQueryReferrers store_path
  | VQuerySubstitutablePaths "store_path list"
  | VRecordPath path_info remote_object tier
  | VOutputObject store_path
  | VAddSignatures store_path "string list"
  | VQueryMissing "store_path list"
  | VTier store_path
  | VSigner bytes
  | VRejectUnverifiedPushes
  | VTrustedSubstituters
  | VRecordAccess store_path
  | VRecordJobOutcome uuid store_path string job_outcome
  | VReserveJob uuid store_path string nat

fun view_call :: "'s tenant_view \<Rightarrow> view_request \<Rightarrow> 's \<Rightarrow> db_reply \<times> 's" where
  "view_call v (VIsValidPath p) s = (RBool (op_is_valid_path (tv_store v) (tv_tenant v) p s), s)"
| "view_call v (VQueryValidPaths ps) s = (RPaths (op_query_valid_paths (tv_store v) (tv_tenant v) ps s), s)"
| "view_call v VQueryAllValidPaths s = (RPaths (op_query_all_valid_paths (tv_store v) (tv_tenant v) s), s)"
| "view_call v (VQueryPathInfo p) s = (RInfo (op_query_path_info (tv_store v) (tv_tenant v) p s), s)"
| "view_call v (VQueryPathFromHashPart h) s = (RPath (op_query_path_from_hash_part (tv_store v) (tv_tenant v) h s), s)"
| "view_call v (VQueryReferrers p) s = (RPaths (op_query_referrers (tv_store v) (tv_tenant v) p s), s)"
| "view_call v (VQuerySubstitutablePaths ps) s = (RPaths [], s)"
| "view_call v (VRecordPath info obj ti) s = map_prod RUnit id (op_record_path (tv_store v) (tv_tenant v) info obj ti s)"
| "view_call v (VOutputObject p) s = (RObject (op_output_object (tv_store v) (tv_tenant v) p s), s)"
| "view_call v (VAddSignatures p sigs) s = map_prod RUnit id (op_add_signatures (tv_store v) (tv_tenant v) p sigs s)"
| "view_call v (VQueryMissing ps) s = (RMissing (op_query_missing (tv_store v) (tv_tenant v) ps s), s)"
| "view_call v (VTier p) s = (RTier (op_tier (tv_store v) (tv_tenant v) p s), s)"
| "view_call v (VSigner seed) s = map_prod RSigner id (op_signer (tv_store v) (tv_tenant v) seed s)"
| "view_call v VRejectUnverifiedPushes s = (RBool (op_reject_unverified_pushes (tv_store v) (tv_tenant v) s), s)"
| "view_call v VTrustedSubstituters s = (RPairs (op_trusted_substituters (tv_store v) (tv_tenant v) s), s)"
| "view_call v (VRecordAccess p) s = (RNothing, op_record_access (tv_store v) (tv_tenant v) p s)"
| "view_call v (VRecordJobOutcome j d sys oc) s = (RNothing, op_record_job_outcome (tv_store v) (tv_tenant v) j d sys oc s)"
| "view_call v (VReserveJob j d sys ret) s = map_prod RReservation id (op_reserve_job (tv_store v) (tv_tenant v) j d sys ret s)"

text \<open>
  What the frontends put into the calls: an object key names one object, whoever records it, and a job id,
  which is drawn at random, is used by one tenant only. The digest of an object is an array of 32 bytes.
\<close>

fun wf_request :: "(object_key \<Rightarrow> remote_object) \<Rightarrow> (uuid \<Rightarrow> tenant_id) \<Rightarrow> tenant_id \<Rightarrow> view_request \<Rightarrow> bool" where
  "wf_request object_at owner t (VRecordPath info obj ti) \<longleftrightarrow> wf_object obj \<and> object_at (ro_key obj) = obj"
| "wf_request object_at owner t (VRecordJobOutcome j d sys oc) \<longleftrightarrow> owner j = t"
| "wf_request object_at owner t (VReserveJob j d sys ret) \<longleftrightarrow> owner j = t"
| "wf_request object_at owner t _ \<longleftrightarrow> True"

text \<open>The calls of any number of connections, one after the other, and what one tenant is answered.\<close>

abbreviation view_step :: "'s store_ops \<Rightarrow> tenant_id \<Rightarrow> view_request \<Rightarrow> 's \<Rightarrow> 's" where
  "view_step ops t c s \<equiv> snd (view_call \<lparr>tv_store = ops, tv_tenant = t\<rparr> c s)"

definition view_run :: "'s store_ops \<Rightarrow> (tenant_id \<times> view_request) list \<Rightarrow> 's \<Rightarrow> 's" where
  "view_run ops calls s = foldl (\<lambda>s (t, c). view_step ops t c s) s calls"

fun view_answers :: "'s store_ops \<Rightarrow> tenant_id \<Rightarrow> (tenant_id \<times> view_request) list \<Rightarrow> 's \<Rightarrow> db_reply list" where
  "view_answers ops u [] s = []"
| "view_answers ops u ((t, c) # calls) s =
     (case view_call \<lparr>tv_store = ops, tv_tenant = t\<rparr> c s of
        (reply, s) \<Rightarrow> if t = u then reply # view_answers ops u calls s else view_answers ops u calls s)"

subsection \<open>The contract of a partitioned store\<close>

locale partitioned =
  fixes ops :: "'s store_ops" and inv :: "'s \<Rightarrow> bool" and wf :: "tenant_id \<Rightarrow> view_request \<Rightarrow> bool"
    and same_for :: "tenant_id \<Rightarrow> 's \<Rightarrow> 's \<Rightarrow> bool"
  assumes inv_call: "inv s \<Longrightarrow> wf t c \<Longrightarrow> inv (view_step ops t c s)"
    and respects: "inv s \<Longrightarrow> wf t c \<Longrightarrow> t \<noteq> u \<Longrightarrow> same_for u s (view_step ops t c s)"
    and consistent: "inv s \<Longrightarrow> inv s' \<Longrightarrow> wf u c \<Longrightarrow> same_for u s s' \<Longrightarrow> same_for u (view_step ops u c s) (view_step ops u c s')"
    and decides: "inv s \<Longrightarrow> inv s' \<Longrightarrow> same_for u s s' \<Longrightarrow>
      fst (view_call \<lparr>tv_store = ops, tv_tenant = u\<rparr> c s) = fst (view_call \<lparr>tv_store = ops, tv_tenant = u\<rparr> c s')"
    and same_refl: "same_for u s s"
    and same_sym: "same_for u s s' \<Longrightarrow> same_for u s' s"
    and same_trans: "same_for u s s' \<Longrightarrow> same_for u s' s'' \<Longrightarrow> same_for u s s''"
begin

lemma answers_unwind:
  assumes "inv s" and "inv s'" and "same_for u s s'" and "\<forall>(t, c) \<in> set calls. wf t c"
  shows "view_answers ops u calls s = view_answers ops u (filter (\<lambda>(t, _). t = u) calls) s'"
  using assms
proof (induction calls arbitrary: s s')
  case (Cons x calls)
  obtain t c where x: "x = (t, c)" by (cases x)
  have wf: "wf t c" and rest: "\<forall>(t, c) \<in> set calls. wf t c" using Cons.prems(4) x by auto
  note inv = inv_call [OF Cons.prems(1) wf]
  show ?case
  proof (cases "t = u")
    case True
    have "view_answers ops u calls (view_step ops u c s) = view_answers ops u (filter (\<lambda>(t, _). t = u) calls) (view_step ops u c s')"
      using Cons.IH [OF _ _ consistent rest] inv inv_call [OF Cons.prems(2) wf] Cons.prems(1-3) wf True by blast
    then show ?thesis using True x decides [OF Cons.prems(1-3), of c]
      by (auto simp del: view_call.simps split: prod.splits)
  next
    case False
    have "same_for u (view_step ops t c s) s'"
      using same_trans [OF same_sym [OF respects [OF Cons.prems(1) wf False]] Cons.prems(3)] .
    then show ?thesis using Cons.IH [OF inv Cons.prems(2) _ rest] False x
      by (auto simp del: view_call.simps split: prod.splits)
  qed
qed simp

lemma answers_unaffected:
  "inv s \<Longrightarrow> \<forall>(t, c) \<in> set calls. wf t c \<Longrightarrow> view_answers ops u calls s = view_answers ops u (filter (\<lambda>(t, _). t = u) calls) s"
  by (rule answers_unwind) (simp_all add: same_refl)

lemma run_inv: "inv s \<Longrightarrow> \<forall>(t, c) \<in> set calls. wf t c \<Longrightarrow> inv (view_run ops calls s)"
  by (induction calls arbitrary: s) (auto simp: view_run_def intro: inv_call)

end

subsection \<open>What belongs to a tenant in the database\<close>

definition rows_of :: "tenant_id \<Rightarrow> pg \<Rightarrow> ((tenant_id \<times> store_path) \<times> path_row) list" where
  "rows_of u db = filter (\<lambda>row. fst (fst row) = u) (pg_store_paths db)"

definition jobs_of :: "tenant_id \<Rightarrow> pg \<Rightarrow> (uuid \<times> job_row) list" where
  "jobs_of u db = filter (\<lambda>row. jb_tenant (snd row) = u) (pg_jobs db)"

definition pg_same :: "tenant_id \<Rightarrow> pg \<Rightarrow> pg \<Rightarrow> bool" where
  "pg_same u db db' \<longleftrightarrow>
     pg_fault db' = pg_fault db \<and> pg_actor_up db' = pg_actor_up db \<and> pg_now db' = pg_now db \<and>
     map_of (pg_tenants db') u = map_of (pg_tenants db) u \<and> rows_of u db' = rows_of u db \<and> jobs_of u db' = jobs_of u db \<and>
     filter (\<lambda>row. fst row = u) (pg_tenant_substituters db') = filter (\<lambda>row. fst row = u) (pg_tenant_substituters db)"

lemma pg_same_refl: "pg_same u db db"
  by (simp add: pg_same_def)

lemma pg_same_sym: "pg_same u a b \<Longrightarrow> pg_same u b a"
  by (simp add: pg_same_def)

lemma pg_same_trans: "pg_same u a b \<Longrightarrow> pg_same u b c \<Longrightarrow> pg_same u a c"
  by (simp add: pg_same_def)

lemma live_scoped: "store_paths_live (TenantScope u) db = filter (\<lambda>row. pr_state (snd row) = Live) (rows_of u db)"
proof -
  have "visible (TenantScope u) row \<longleftrightarrow> fst (fst row) = u" for row by (cases row; cases "fst row") auto
  then show ?thesis by (simp add: store_paths_live_def rows_of_def conj_commute)
qed

lemma running_scoped: "running_for u d db = find (\<lambda>(_, r). jb_derivation_path r = d \<and> jb_status r = ''running'') (jobs_of u db)"
  unfolding running_for_def jobs_of_def find_filter by (rule arg_cong [where f = "\<lambda>P. find P _"]) auto

lemma pg_same_live:
  assumes "pg_same u db db'"
  shows "store_paths_live (TenantScope u) db' = store_paths_live (TenantScope u) db" and "live_row u p db' = live_row u p db"
  using assms by (simp_all add: live_row_def live_scoped pg_same_def)

lemma pg_same_reads:
  assumes "pg_same u db db'"
  shows "is_valid_path_db u p db' = is_valid_path_db u p db" "query_valid_paths_db u ps db' = query_valid_paths_db u ps db"
    "query_all_valid_paths_db u db' = query_all_valid_paths_db u db" "query_path_info_db u p db' = query_path_info_db u p db"
    "query_path_from_hash_part_db u h db' = query_path_from_hash_part_db u h db" "query_referrers_db u p db' = query_referrers_db u p db"
    "query_missing_db u ps db' = query_missing_db u ps db" "tier_db u p db' = tier_db u p db"
    "reject_unverified_pushes_db u db' = reject_unverified_pushes_db u db" "trusted_substituters_db u db' = trusted_substituters_db u db"
    "running_for u d db' = running_for u d db"
  using pg_same_live [OF assms] assms
  by (simp_all add: is_valid_path_db_def query_valid_paths_db_def query_all_valid_paths_db_def query_path_info_db_def
      query_path_from_hash_part_db_def query_referrers_db_def query_missing_db_def tier_db_def reject_unverified_pushes_db_def
      trusted_substituters_db_def on_db_def pg_same_def running_scoped)

text \<open>
  A state the frontends can reach: besides the integrity of the tables, every object row holds what its
  key names, and every job belongs to the tenant its id belongs to.
\<close>

definition object_columns :: "remote_object \<Rightarrow> object_row" where
  "object_columns ob = \<lparr>or_file_size = ro_file_size ob, or_file_hash = ro_file_hash ob,
     or_compression = compression_as_str (ro_compression ob)\<rparr>"

definition view_inv :: "(object_key \<Rightarrow> remote_object) \<Rightarrow> (uuid \<Rightarrow> tenant_id) \<Rightarrow> pg \<Rightarrow> bool" where
  "view_inv object_at owner db \<longleftrightarrow> pg_inv db \<and> jobs_inv db \<and>
     (\<forall>k r. map_of (pg_objects db) k = Some r \<longrightarrow> r = object_columns (object_at k)) \<and>
     (\<forall>(j, r) \<in> set (pg_jobs db). jb_tenant r = owner j)"

lemma view_inv_tables:
  "view_inv object_at owner db \<Longrightarrow> pg_inv db" "view_inv object_at owner db \<Longrightarrow> jobs_inv db"
  "view_inv object_at owner db \<Longrightarrow> map_of (pg_objects db) k = Some r \<Longrightarrow> r = object_columns (object_at k)"
  "view_inv object_at owner db \<Longrightarrow> (j, x) \<in> set (pg_jobs db) \<Longrightarrow> jb_tenant x = owner j"
  by (auto simp: view_inv_def)

lemma joined_described:
  assumes "view_inv object_at owner db" and "row \<in> set (rows_of u db)"
  shows "joined_object db (snd row) = map_option (\<lambda>k. (k, object_columns (object_at k))) (pr_object_key (snd row))"
proof (cases "pr_object_key (snd row)")
  case (Some k)
  have inv: "pg_inv db" by (rule view_inv_tables(1) [OF assms(1)])
  then have "map_of (pg_store_paths db) (fst row) = Some (snd row)"
    using assms(2) unfolding rows_of_def pg_inv_def by (intro map_of_is_SomeI) simp_all
  then obtain r where "map_of (pg_objects db) k = Some r" using inv Some unfolding pg_inv_def by blast
  then show ?thesis using view_inv_tables(3) [OF assms(1)] Some by (simp add: joined_object_def)
qed (simp add: joined_object_def)

lemma pg_same_object:
  assumes "view_inv object_at owner db" and "view_inv object_at owner db'" and "pg_same u db db'"
  shows "output_object_db u p db' = output_object_db u p db"
proof -
  have "joined_object db' (snd row) = joined_object db (snd row)" if "live_row u p db = Some row" for row
  proof -
    have row: "row \<in> set (rows_of u db)"
      using that unfolding live_row_def live_scoped by (auto dest!: find_Some_mem)
    then have "row \<in> set (rows_of u db')" using assms(3) by (simp add: pg_same_def)
    then show ?thesis using joined_described [OF assms(1) row] joined_described [OF assms(2)] by simp
  qed
  then show ?thesis using pg_same_live [OF assms(3)] assms(3)
    by (cases "live_row u p db") (simp_all add: output_object_db_def on_db_def pg_same_def)
qed

subsection \<open>Answers of the calls that write\<close>

lemma fst_upsert: "fst (upsert_path_inner t info ob ti src db) = (case pg_fault db of None \<Rightarrow> Ok () | Some e \<Rightarrow> Err (db_err e))"
  by (cases "upsert_path_inner t info ob ti src db") (auto split: option.splits dest: upsert_ok upsert_fault)

lemma fst_add_signatures:
  "fst (add_signatures_db t p sigs db) = (case pg_fault db of Some e \<Rightarrow> Err (db_err e) | None \<Rightarrow>
     (case map_of (rows_of t db) (t, p) of None \<Rightarrow> Err (NotFound (sp_str p)) | Some _ \<Rightarrow> Ok ()))"
  by (auto simp: add_signatures_db_def rows_of_def map_of_filter_fst [of "\<lambda>k. fst k = t"] split: option.splits)

lemma fst_reserve:
  "fst (reserve_job_db (\<lambda>_ db. db) t j d sys ret db) = (case pg_fault db of Some _ \<Rightarrow> Won | None \<Rightarrow>
     (case running_for t d db of Some (k, r) \<Rightarrow> if jb_created_at r + ret < pg_now db then Won else Lost k | None \<Rightarrow> Won))"
proof (cases "pg_fault db")
  case None
  obtain db1 where e: "ensure_tenant_id t db = (Ok (), db1)"
    using ensure_tenant_id_result [of t db] None by (cases "ensure_tenant_id t db") auto
  have "running_for t d db1 = running_for t d db" "pg_now db1 = pg_now db"
    using e ensure_tenant_id_frame [of t db] by (simp_all add: running_for_def)
  then show ?thesis using None e by (auto simp: reserve_seq reserve_insert_def split: option.splits)
qed (simp add: reserve_job_db_def ensure_tenant_id_def)

lemma fst_signer:
  assumes "pg_fault db' = pg_fault db" and "map_of (pg_tenants db') t = map_of (pg_tenants db) t"
  shows "fst (signer_db pub t seed db') = fst (signer_db pub t seed db)"
  using assms by (auto simp: signer_db_def ensure_tenant_id_def update_conv' Let_def split: option.splits res.splits)

lemma pg_query_missing_same:
  "pg_same u db db' \<Longrightarrow> pg_query_missing pub u ps db' = pg_query_missing pub u ps db"
  using pg_same_reads(7) [of u db db' ps] by (simp add: pg_ops pg_same_def)

lemma pg_same_decides:
  assumes "view_inv object_at owner db" and "view_inv object_at owner db'" and "pg_same u db db'"
  shows "fst (view_call \<lparr>tv_store = postgres_ops pub, tv_tenant = u\<rparr> c db') = fst (view_call \<lparr>tv_store = postgres_ops pub, tv_tenant = u\<rparr> c db)"
proof -
  note same = pg_same_reads [OF assms(3)] pg_same_object [OF assms] pg_query_missing_same [OF assms(3)]
  have up: "pg_actor_up db' = pg_actor_up db" "pg_fault db' = pg_fault db" "pg_now db' = pg_now db" "rows_of u db' = rows_of u db"
    "map_of (pg_tenants db') u = map_of (pg_tenants db) u"
    using assms(3) by (simp_all add: pg_same_def)
  have "fst (reserve_job_db (\<lambda>_ db. db) u j d sys ret db') = fst (reserve_job_db (\<lambda>_ db. db) u j d sys ret db)" for j d sys ret
    unfolding fst_reserve up same ..
  moreover have "fst (add_signatures_db u p sigs db') = fst (add_signatures_db u p sigs db)" for p sigs
    unfolding fst_add_signatures up ..
  ultimately show ?thesis using fst_signer [OF up(2,5)]
    by (cases c) (simp_all add: same up fst_upsert postgres_ops_def pg_ops)
qed

subsection \<open>Calls leave other tenants alone\<close>

lemma rows_update: "t \<noteq> u \<Longrightarrow> filter (\<lambda>row. fst (fst row) = u) (AList.update (t, p) r xs) = filter (\<lambda>row. fst (fst row) = u) xs"
  by (induction xs) auto

lemma jobs_update:
  "jb_tenant r \<noteq> u \<Longrightarrow> (case map_of xs j of None \<Rightarrow> True | Some r' \<Rightarrow> jb_tenant r' \<noteq> u) \<Longrightarrow>
   filter (\<lambda>row. jb_tenant (snd row) = u) (AList.update j r xs) = filter (\<lambda>row. jb_tenant (snd row) = u) xs"
  by (induction xs) (auto split: if_splits)

lemma jobs_rekeyed:
  assumes "\<forall>(i, x) \<in> set xs. i = old \<longrightarrow> jb_tenant x \<noteq> u" and "\<And>x. jb_tenant (f x) = jb_tenant x"
  shows "filter (\<lambda>row. jb_tenant (snd row) = u) (map (\<lambda>(i, x). if i = old then (j, f x) else (i, x)) xs) =
    filter (\<lambda>row. jb_tenant (snd row) = u) xs"
  using assms by (induction xs) (auto split: if_splits)

lemma ensure_same: "t \<noteq> u \<Longrightarrow> pg_same u db (snd (ensure_tenant_id t db))"
  by (auto simp: ensure_tenant_id_def pg_same_def rows_of_def jobs_of_def joined_object_def update_conv' split: option.splits)

lemma upsert_same:
  assumes "t \<noteq> u"
  shows "pg_same u db (snd (upsert_path_inner t info ob ti src db))"
proof (cases "pg_fault db")
  case None
  obtain r db' where up: "upsert_path_inner t info ob ti src db = (r, db')" by (cases "upsert_path_inner t info ob ti src db")
  obtain db1 where e: "ensure_tenant_id t db = (Ok (), db1)"
    using ensure_tenant_id_result [of t db] None by (cases "ensure_tenant_id t db") auto
  have "pg_tenants db' = pg_tenants db1" "pg_tenant_substituters db' = pg_tenant_substituters db1"
    using up e by (auto simp: upsert_path_inner_def Let_def)
  then have fields: "map_of (pg_tenants db') u = map_of (pg_tenants db) u"
      "filter (\<lambda>row. fst row = u) (pg_tenant_substituters db') = filter (\<lambda>row. fst row = u) (pg_tenant_substituters db)"
    using ensure_same [OF assms, of db] e by (simp_all add: pg_same_def)
  then show ?thesis using upsert_ok [OF None up] assms up None
    by (simp add: pg_same_def rows_of_def jobs_of_def rows_update)
next
  case (Some e)
  then show ?thesis using upsert_fault [OF Some, of t info ob ti src] pg_same_refl by (metis prod.collapse)
qed

lemma add_signatures_same: "t \<noteq> u \<Longrightarrow> pg_same u db (snd (add_signatures_db t p sigs db))"
  by (auto simp: add_signatures_db_def pg_same_def rows_of_def jobs_of_def joined_object_def rows_update split: option.splits)

lemma signer_same: "t \<noteq> u \<Longrightarrow> pg_same u db (snd (signer_db pub t seed db))"
  using ensure_same [of t u db]
  by (cases "ensure_tenant_id t db")
    (auto simp: signer_db_def pg_same_def rows_of_def jobs_of_def joined_object_def update_conv' Let_def split: option.splits res.splits)

lemma record_access_same: "pg_same u db (record_access_db t p db)"
  by (simp add: record_access_db_def on_db_def pg_same_def rows_of_def jobs_of_def joined_object_def split: option.splits)

lemma complete_row_tenant [simp]: "jb_tenant (complete_row now oc r) = jb_tenant r"
  by (simp add: complete_row_def split: job_outcome.splits)

lemma record_outcome_same: "t \<noteq> u \<Longrightarrow> pg_same u db (record_job_outcome_db t j d sys oc db)"
  using ensure_same [of t u db]
  by (cases "ensure_tenant_id t db")
    (auto simp: record_job_outcome_db_def pg_same_def rows_of_def jobs_of_def joined_object_def jobs_update Let_def
      split: option.splits res.splits)

lemma reserve_insert_same:
  assumes "jobs_inv db" and "t \<noteq> u"
  shows "pg_same u db (snd (reserve_insert t j d sys ret db))"
proof (cases "running_for t d db")
  case None
  then show ?thesis using assms(2)
    by (simp add: reserve_insert_def pg_same_def rows_of_def jobs_of_def joined_object_def)
next
  case (Some x)
  obtain old r where x: "x = (old, r)" by (cases x)
  have mem: "(old, r) \<in> set (pg_jobs db)" "jb_tenant r = t" using running_for_SomeD [of t d db old r] Some x by (simp_all add: runs_def)
  have "y = r" if "(old, y) \<in> set (pg_jobs db)" for y
    using that mem(1) assms(1) unfolding jobs_inv_def by (metis eq_key_imp_eq_value)
  then have "\<forall>(i, y) \<in> set (pg_jobs db). i = old \<longrightarrow> jb_tenant y \<noteq> u" using mem(2) assms(2) by auto
  then show ?thesis using Some x
    by (simp add: reserve_insert_def pg_same_def rows_of_def jobs_of_def joined_object_def jobs_rekeyed)
qed

lemma reserve_same:
  assumes "jobs_inv db" and "t \<noteq> u"
  shows "pg_same u db (snd (reserve_job_db (\<lambda>_ db. db) t j d sys ret db))"
proof -
  obtain r db1 where e: "ensure_tenant_id t db = (r, db1)" by (cases "ensure_tenant_id t db")
  have ensured: "pg_same u db db1" using ensure_same [OF assms(2), of db] e by simp
  have inv: "jobs_inv db1" using jobs_inv_ensure [OF assms(1), of t] e by simp
  have "pg_same u db1 (snd (reserve_insert t j d sys ret db1))" by (rule reserve_insert_same [OF inv assms(2)])
  then have "pg_same u db (snd (reserve_insert t j d sys ret db1))" by (rule pg_same_trans [OF ensured])
  then show ?thesis using e ensured
    by (auto simp: reserve_seq split: res.splits prod.splits insert_result.splits option.splits)
qed

lemma reserve_jobs_inv:
  assumes "jobs_inv db"
  shows "jobs_inv (snd (reserve_job_db (\<lambda>_ db. db) t j d sys ret db))"
proof -
  obtain r db1 where e: "ensure_tenant_id t db = (r, db1)" by (cases "ensure_tenant_id t db")
  have inv: "jobs_inv db1" using jobs_inv_ensure [OF assms, of t] e by simp
  obtain res db2 where att: "reserve_attempts 2 (\<lambda>_ db. db) t j d sys ret db1 = (res, db2)"
    by (cases "reserve_attempts 2 (\<lambda>_ db. db) t j d sys ret db1")
  have "jobs_inv db2" by (rule reserve_attempts_inv [OF _ inv att])
  then show ?thesis using e att inv by (cases r) (simp_all add: reserve_job_db_def)
qed

lemma signer_jobs: "pg_jobs (snd (signer_db pub t seed db)) = pg_jobs db"
  using ensure_tenant_id_frame [of t db]
  by (cases "ensure_tenant_id t db"; auto simp: signer_db_def Let_def split: res.splits option.splits)

lemma add_signatures_inv:
  assumes "pg_inv db"
  shows "pg_inv (snd (add_signatures_db t p sigs db))"
  using assms
  by (auto simp: add_signatures_db_def pg_inv_def distinct_update update_conv' simp del: map_of_eq_Some_iff
      split: option.splits if_splits)

lemma pg_inv_cong: "pg_store_paths db' = pg_store_paths db \<Longrightarrow> pg_objects db' = pg_objects db \<Longrightarrow> pg_inv db' = pg_inv db"
  by (simp add: pg_inv_def)

lemma jobs_inv_cong: "pg_jobs db' = pg_jobs db \<Longrightarrow> jobs_inv db' = jobs_inv db"
  by (simp add: jobs_inv_def)

lemma record_outcome_paths:
  "pg_store_paths (record_job_outcome_db t j d sys oc db) = pg_store_paths db"
  "pg_objects (record_job_outcome_db t j d sys oc db) = pg_objects db"
  using ensure_tenant_id_frame [of t db]
  by (cases "ensure_tenant_id t db"; auto simp: record_job_outcome_db_def Let_def split: res.splits)+

lemma reserve_insert_paths:
  "pg_store_paths (snd (reserve_insert t j d sys ret db)) = pg_store_paths db"
  "pg_objects (snd (reserve_insert t j d sys ret db)) = pg_objects db"
  by (auto simp: reserve_insert_def split: option.splits)

lemma reserve_state:
  "snd (reserve_job_db (\<lambda>_ db. db) t j d sys ret db) =
   (case ensure_tenant_id t db of (Ok _, db) \<Rightarrow> snd (reserve_insert t j d sys ret db) | (_, db) \<Rightarrow> db)"
  by (auto simp: reserve_seq split: res.splits prod.splits insert_result.splits option.splits)

lemma reserve_paths:
  "pg_store_paths (snd (reserve_job_db (\<lambda>_ db. db) t j d sys ret db)) = pg_store_paths db"
  "pg_objects (snd (reserve_job_db (\<lambda>_ db. db) t j d sys ret db)) = pg_objects db"
  using ensure_tenant_id_frame [of t db]
  by (cases "ensure_tenant_id t db"; simp add: reserve_state reserve_insert_paths split: res.splits)+

lemma upsert_jobs: "pg_jobs (snd (upsert_path_inner t info ob ti src db)) = pg_jobs db"
proof (cases "pg_fault db")
  case None
  then show ?thesis using upsert_ok [OF None, of t info ob ti src] by (metis prod.collapse)
next
  case (Some e)
  then show ?thesis using upsert_fault [OF Some, of t info ob ti src] by (metis prod.collapse)
qed

lemma record_outcome_jobs_inv: "jobs_inv db \<Longrightarrow> jobs_inv (record_job_outcome_db t j d sys oc db)"
  by (cases "pg_fault db") (simp_all add: record_outcome_inv, simp add: record_job_outcome_db_def ensure_tenant_id_def)

lemma view_inv_cong:
  assumes "pg_store_paths db' = pg_store_paths db" "pg_objects db' = pg_objects db" "pg_jobs db' = pg_jobs db"
  shows "view_inv object_at owner db' = view_inv object_at owner db"
  using pg_inv_cong [OF assms(1,2)] jobs_inv_cong [OF assms(3)] assms by (simp add: view_inv_def)

lemma upsert_view_inv:
  assumes "view_inv object_at owner db" and "wf_object ob" and "object_at (ro_key ob) = ob"
  shows "view_inv object_at owner (snd (upsert_path_inner t info ob ti src db))"
proof (cases "pg_fault db")
  case None
  obtain r db' where up: "upsert_path_inner t info ob ti src db = (r, db')" by (cases "upsert_path_inner t info ob ti src db")
  note ok = upsert_ok [OF None up]
  have "pg_inv db'" by (rule upsert_inv [OF view_inv_tables(1) [OF assms(1)] assms(2) up])
  moreover have "x = object_columns (object_at k)" if "map_of (pg_objects db') k = Some x" for k x
    using that ok view_inv_tables(3) [OF assms(1), of k x] assms(3)
    by (auto simp: update_conv' object_columns_def split: if_splits)
  ultimately show ?thesis using ok assms(1) up by (simp add: view_inv_def jobs_inv_def)
next
  case (Some e)
  then show ?thesis using upsert_fault [OF Some, of t info ob ti src] assms(1) by (metis prod.collapse)
qed

lemma reserve_insert_owned:
  assumes "\<forall>(i, r) \<in> set (pg_jobs db). jb_tenant r = owner i" and "owner j = t"
  shows "\<forall>(i, r) \<in> set (pg_jobs (snd (reserve_insert t j d sys ret db))). jb_tenant r = owner i"
proof (cases "running_for t d db")
  case None
  then show ?thesis using assms by (auto simp: reserve_insert_def)
next
  case (Some x)
  obtain old r where x: "x = (old, r)" by (cases x)
  have "(old, r) \<in> set (pg_jobs db)" "jb_tenant r = t" using running_for_SomeD [of t d db old r] Some x by (simp_all add: runs_def)
  then have "owner old = t" using assms(1) by auto
  then show ?thesis using assms Some x by (auto simp: reserve_insert_def split: if_splits)
qed

lemma reserve_view_inv:
  assumes "view_inv object_at owner db" and "owner j = t"
  shows "view_inv object_at owner (snd (reserve_job_db (\<lambda>_ db. db) t j d sys ret db))"
proof -
  obtain r db1 where e: "ensure_tenant_id t db = (r, db1)" by (cases "ensure_tenant_id t db")
  then have jobs: "pg_jobs db1 = pg_jobs db" using ensure_tenant_id_frame(3) [of t db] by simp
  have "\<forall>(i, x) \<in> set (pg_jobs (snd (reserve_job_db (\<lambda>_ db. db) t j d sys ret db))). jb_tenant x = owner i"
    using reserve_insert_owned [where owner = owner and j = j and t = t and db = db1 and d = d and sys = sys and ret = ret]
      assms jobs e by (cases r) (simp_all add: reserve_state view_inv_def)
  then show ?thesis using assms(1) reserve_jobs_inv [of db] pg_inv_cong [OF reserve_paths] by (simp add: view_inv_def reserve_paths)
qed

lemma record_outcome_view_inv:
  assumes "view_inv object_at owner db" and "owner j = t"
  shows "view_inv object_at owner (record_job_outcome_db t j d sys oc db)"
proof -
  have "\<forall>(i, x) \<in> set (pg_jobs (record_job_outcome_db t j d sys oc db)). jb_tenant x = owner i"
  proof (cases "pg_fault db")
    case None
    have d: "distinct (map fst (pg_jobs db))" using view_inv_tables(2) [OF assms(1)] by (simp add: jobs_inv_def)
    have "jb_tenant x = owner i" if "(i, x) \<in> set (AList.update j (complete_row (pg_now db) oc r) (pg_jobs db))" "jb_tenant r = t" for i x r
      using update_mem [OF d that(1)] that(2) assms(2) view_inv_tables(4) [OF assms(1), of i x] by auto
    moreover have "jb_tenant x = owner i" if "(i, x) \<in> set (pg_jobs db)" for i x by (rule view_inv_tables(4) [OF assms(1) that])
    ultimately show ?thesis using record_outcome_jobs [OF None, of t j d sys oc] by fastforce
  next
    case (Some e)
    then show ?thesis using view_inv_tables(4) [OF assms(1)] by (auto simp: record_job_outcome_db_def ensure_tenant_id_def)
  qed
  then show ?thesis using assms(1) record_outcome_jobs_inv [of db] pg_inv_cong [OF record_outcome_paths]
    by (simp add: view_inv_def record_outcome_paths)
qed

lemma add_signatures_view_inv:
  assumes "view_inv object_at owner db"
  shows "view_inv object_at owner (snd (add_signatures_db t p sigs db))"
proof -
  have "pg_objects (snd (add_signatures_db t p sigs db)) = pg_objects db" "pg_jobs (snd (add_signatures_db t p sigs db)) = pg_jobs db"
    by (simp_all add: add_signatures_db_def split: option.split)
  then show ?thesis using assms add_signatures_inv [of db] by (simp add: view_inv_def jobs_inv_def)
qed

subsection \<open>A tenant's own calls\<close>

lemma update_filter:
  "P (k, v) \<Longrightarrow> \<forall>w. (k, w) \<in> set xs \<longrightarrow> P (k, w) \<Longrightarrow> filter P (AList.update k v xs) = AList.update k v (filter P xs)"
  by (induction xs) auto

lemma rows_update_own: "rows_of u (db\<lparr>pg_store_paths := AList.update (u, p) r (pg_store_paths db)\<rparr>) = AList.update (u, p) r (rows_of u db)"
  by (simp add: rows_of_def update_filter)

lemma rows_lookup: "map_of (rows_of u db) (u, p) = map_of (pg_store_paths db) (u, p)"
  by (simp add: rows_of_def map_of_filter_fst [of "\<lambda>k. fst k = u"])

lemma map_of_filter_own: "\<forall>r. (j, r) \<in> set xs \<longrightarrow> P (j, r) \<Longrightarrow> map_of (filter P xs) j = map_of xs j"
  by (induction xs) auto

lemma filter_rekeyed:
  "(\<And>i y. P (if i = old then (j, f y) else (i, y)) \<longleftrightarrow> P (i, y)) \<Longrightarrow>
   filter P (map (\<lambda>(i, y). if i = old then (j, f y) else (i, y)) xs) = map (\<lambda>(i, y). if i = old then (j, f y) else (i, y)) (filter P xs)"
  by (induction xs) auto

lemma jobs_lookup:
  assumes "view_inv object_at owner db" and "owner j = u"
  shows "map_of (jobs_of u db) j = map_of (pg_jobs db) j" "(j, r) \<in> set (pg_jobs db) \<Longrightarrow> jb_tenant r = u"
proof -
  have own: "\<forall>r. (j, r) \<in> set (pg_jobs db) \<longrightarrow> jb_tenant r = u" using assms by (auto simp: view_inv_def)
  then show "(j, r) \<in> set (pg_jobs db) \<Longrightarrow> jb_tenant r = u" by blast
  show "map_of (jobs_of u db) j = map_of (pg_jobs db) j"
    using own unfolding jobs_of_def by (intro map_of_filter_own) simp
qed

lemma ensure_consistent:
  "pg_same u db db' \<Longrightarrow> pg_same u (snd (ensure_tenant_id u db)) (snd (ensure_tenant_id u db'))"
  by (auto simp: ensure_tenant_id_def pg_same_def rows_of_def jobs_of_def update_conv' split: option.splits)

lemma upsert_state:
  "snd (upsert_path_inner t info ob ti src db) =
   (case ensure_tenant_id t db of
      (Ok _, db) \<Rightarrow> db\<lparr>pg_objects := (if map_of (pg_objects db) (ro_key ob) = None
          then AList.update (ro_key ob) (object_columns ob) (pg_objects db) else pg_objects db),
        pg_store_paths := AList.update (t, pi_path info) (stored_row info ob ti src (pg_now db)) (pg_store_paths db)\<rparr>
    | (_, db) \<Rightarrow> db)"
  by (simp add: upsert_path_inner_def object_columns_def stored_row_def Let_def split: res.split prod.split)

lemma upsert_consistent:
  assumes "pg_same u db db'"
  shows "pg_same u (snd (upsert_path_inner u info ob ti src db)) (snd (upsert_path_inner u info ob ti src db'))"
proof -
  obtain r db1 where e: "ensure_tenant_id u db = (r, db1)" by (cases "ensure_tenant_id u db")
  obtain r' db2 where e': "ensure_tenant_id u db' = (r', db2)" by (cases "ensure_tenant_id u db'")
  have "r' = r" using ensure_tenant_id_result [of u db] ensure_tenant_id_result [of u db'] e e' assms by (simp add: pg_same_def)
  moreover have "pg_same u db1 db2" using ensure_consistent [OF assms] e e' by simp
  ultimately show ?thesis using e e'
    by (cases r) (auto simp: upsert_state pg_same_def rows_of_def jobs_of_def update_filter)
qed

lemma add_signatures_consistent:
  assumes "pg_same u db db'"
  shows "pg_same u (snd (add_signatures_db u p sigs db)) (snd (add_signatures_db u p sigs db'))"
proof -
  have "map_of (pg_store_paths db') (u, p) = map_of (pg_store_paths db) (u, p)"
    using assms rows_lookup [of u db p] rows_lookup [of u db' p] by (simp add: pg_same_def)
  then show ?thesis using assms
    by (auto simp: add_signatures_db_def pg_same_def rows_of_def jobs_of_def update_filter split: option.splits)
qed

lemma signer_consistent:
  assumes "pg_same u db db'"
  shows "pg_same u (snd (signer_db pub u seed db)) (snd (signer_db pub u seed db'))"
proof -
  obtain r db1 where e: "ensure_tenant_id u db = (r, db1)" by (cases "ensure_tenant_id u db")
  obtain r' db2 where e': "ensure_tenant_id u db' = (r', db2)" by (cases "ensure_tenant_id u db'")
  have "r' = r" using ensure_tenant_id_result [of u db] ensure_tenant_id_result [of u db'] e e' assms by (simp add: pg_same_def)
  moreover have "pg_same u db1 db2" using ensure_consistent [OF assms] e e' by simp
  ultimately show ?thesis using e e'
    by (cases r) (auto simp: signer_db_def pg_same_def rows_of_def jobs_of_def update_conv' Let_def split: option.splits res.splits)
qed

lemma record_access_consistent: "pg_same u db db' \<Longrightarrow> pg_same u (record_access_db t p db) (record_access_db t p db')"
  using record_access_same [of u db t p] record_access_same [of u db' t p] pg_same_trans pg_same_sym by meson

lemma ensure_view_inv: "view_inv object_at owner db \<Longrightarrow> view_inv object_at owner (snd (ensure_tenant_id t db))"
  by (subst view_inv_cong) simp_all

lemma record_outcome_consistent:
  assumes "view_inv object_at owner db" and "view_inv object_at owner db'" and "owner j = u" and "pg_same u db db'"
  shows "pg_same u (record_job_outcome_db u j d sys oc db) (record_job_outcome_db u j d sys oc db')"
proof -
  obtain r db1 where e: "ensure_tenant_id u db = (r, db1)" by (cases "ensure_tenant_id u db")
  obtain r' db2 where e': "ensure_tenant_id u db' = (r', db2)" by (cases "ensure_tenant_id u db'")
  have r: "r' = r" using ensure_tenant_id_result [of u db] ensure_tenant_id_result [of u db'] e e' assms(4) by (simp add: pg_same_def)
  have same: "pg_same u db1 db2" using ensure_consistent [OF assms(4)] e e' by simp
  have inv: "view_inv object_at owner db1" "view_inv object_at owner db2"
    using ensure_view_inv [OF assms(1), of u] ensure_view_inv [OF assms(2), of u] e e' by simp_all
  note look = jobs_lookup [OF inv(1) assms(3)] jobs_lookup [OF inv(2) assms(3)]
  have "map_of (pg_jobs db2) j = map_of (pg_jobs db1) j" using look(1,3) same by (simp add: pg_same_def)
  moreover have "jb_tenant x = u" if "map_of (pg_jobs db1) j = Some x" for x using look(2) map_of_SomeD [OF that] .
  ultimately show ?thesis using e e' r same look(2,4)
    by (cases r; cases "map_of (pg_jobs db1) j")
      (auto simp: record_job_outcome_db_def pg_same_def rows_of_def jobs_of_def update_filter Let_def)
qed

lemma reserve_insert_consistent:
  assumes "view_inv object_at owner db" and "view_inv object_at owner db'" and "owner j = u" and "pg_same u db db'"
  shows "pg_same u (snd (reserve_insert u j d sys ret db)) (snd (reserve_insert u j d sys ret db'))"
proof -
  have look: "map_of (pg_jobs db') j = map_of (pg_jobs db) j"
    using jobs_lookup(1) [OF assms(1,3)] jobs_lookup(1) [OF assms(2,3)] assms(4) by (simp add: pg_same_def)
  have run: "running_for u d db' = running_for u d db" by (rule pg_same_reads(11) [OF assms(4)])
  have rekey: "jobs_of u (x\<lparr>pg_jobs := map (\<lambda>(i, y). if i = old then (j, f y) else (i, y)) (pg_jobs x)\<rparr>) =
      map (\<lambda>(i, y). if i = old then (j, f y) else (i, y)) (jobs_of u x)" if "\<And>y. jb_tenant (f y) = jb_tenant y" for x old f
    using that by (simp add: jobs_of_def filter_rekeyed)
  show ?thesis
    using assms(4) look run
    by (auto simp: reserve_insert_def rekey pg_same_def rows_of_def split: option.split) (auto simp: jobs_of_def)
qed

lemma reserve_consistent:
  assumes "view_inv object_at owner db" and "view_inv object_at owner db'" and "owner j = u" and "pg_same u db db'"
  shows "pg_same u (snd (reserve_job_db (\<lambda>_ db. db) u j d sys ret db)) (snd (reserve_job_db (\<lambda>_ db. db) u j d sys ret db'))"
proof -
  obtain r db1 where e: "ensure_tenant_id u db = (r, db1)" by (cases "ensure_tenant_id u db")
  obtain r' db2 where e': "ensure_tenant_id u db' = (r', db2)" by (cases "ensure_tenant_id u db'")
  have r: "r' = r" using ensure_tenant_id_result [of u db] ensure_tenant_id_result [of u db'] e e' assms(4) by (simp add: pg_same_def)
  have same: "pg_same u db1 db2" using ensure_consistent [OF assms(4)] e e' by simp
  have inv: "view_inv object_at owner db1" "view_inv object_at owner db2"
    using ensure_view_inv [OF assms(1), of u] ensure_view_inv [OF assms(2), of u] e e' by simp_all
  show ?thesis using reserve_insert_consistent [OF inv assms(3) same] e e' r same
    by (cases r) (simp_all add: reserve_state)
qed

subsection \<open>PostgreSQL is partitioned\<close>

interpretation pg_views: partitioned "postgres_ops pub" "view_inv object_at owner" "wf_request object_at owner" pg_same for pub object_at owner
proof
  fix db db' db'' :: pg and t u and c :: view_request
  show "pg_same u db db" by (rule pg_same_refl)
  show "pg_same u db db' \<Longrightarrow> pg_same u db' db" by (rule pg_same_sym)
  show "pg_same u db db' \<Longrightarrow> pg_same u db' db'' \<Longrightarrow> pg_same u db db''" by (rule pg_same_trans)
  assume inv: "view_inv object_at owner db"
  then have tables: "pg_inv db" "jobs_inv db" by (simp_all add: view_inv_def)
  { assume wf: "wf_request object_at owner t c"
    show "view_inv object_at owner (view_step (postgres_ops pub) t c db)"
      using inv wf view_inv_cong [OF signer_db_frame(1,2) signer_jobs, of object_at owner]
      by (cases c) (simp_all add: postgres_ops_def pg_ops upsert_view_inv add_signatures_view_inv record_outcome_view_inv reserve_view_inv,
          simp add: record_access_db_def on_db_def view_inv_def pg_inv_def jobs_inv_def split: option.splits)
    assume "t \<noteq> u"
    then show "pg_same u db (view_step (postgres_ops pub) t c db)"
      using tables by (cases c) (simp_all add: postgres_ops_def pg_ops pg_same_refl upsert_same add_signatures_same signer_same
          record_access_same record_outcome_same reserve_same) }
  assume inv': "view_inv object_at owner db'"
  { assume same: "pg_same u db db'"
    then show "fst (view_call \<lparr>tv_store = postgres_ops pub, tv_tenant = u\<rparr> c db) = fst (view_call \<lparr>tv_store = postgres_ops pub, tv_tenant = u\<rparr> c db')"
      using pg_same_decides [OF inv inv'] by simp
    have "pg_actor_up db' = pg_actor_up db" using same by (simp add: pg_same_def)
    moreover assume "wf_request object_at owner u c"
    ultimately show "pg_same u (view_step (postgres_ops pub) u c db) (view_step (postgres_ops pub) u c db')"
      using same by (cases c) (simp_all add: postgres_ops_def pg_ops upsert_consistent add_signatures_consistent signer_consistent
          record_access_consistent record_outcome_consistent [OF inv inv'] reserve_consistent [OF inv inv']) }
qed

text \<open>
  C8: Tenants do not disturb each other. Take any interleaving of the calls that any number of connections
  make through their views. A tenant is answered exactly as if only its own calls had been made: no path, no
  signature, no object, no key and no reservation is gained, lost or changed by what others do. The calls
  have to agree on what an object key names, and not to share job ids: keys are derived from tenant and
  content, and ids are random.
\<close>

theorem tenants_undisturbed:
  assumes "pg_inv db" and "jobs_inv db" and "\<forall>k r. map_of (pg_objects db) k = Some r \<longrightarrow> r = object_columns (object_at k)"
    and "\<forall>(j, r) \<in> set (pg_jobs db). jb_tenant r = owner j" and "\<forall>(t, c) \<in> set calls. wf_request object_at owner t c"
  shows "view_answers (postgres_ops pub) u calls db = view_answers (postgres_ops pub) u (filter (\<lambda>(t, _). t = u) calls) db"
  by (rule pg_views.answers_unaffected [OF _ assms(5)]) (simp add: view_inv_def assms(1-4))

definition ex_shared_object :: remote_object where
  "ex_shared_object = \<lparr>ro_key = ObjectKey ''k'', ro_file_size = 5, ro_file_hash = replicate 32 0, ro_compression = Zstd\<rparr>"

definition ex_other_object :: remote_object where
  "ex_other_object = \<lparr>ro_key = ObjectKey ''l'', ro_file_size = 9, ro_file_hash = replicate 32 1, ro_compression = Zstd\<rparr>"

definition ex_pushed :: path_info where
  "ex_pushed = \<lparr>pi_path = StorePath ''p'', pi_deriver = None, pi_nar_hash = \<lparr>h_type = Sha256, h_bytes = []\<rparr>, pi_nar_size = 0,
     pi_references = [], pi_registration_time = 0, pi_ultimate = False, pi_sigs = []\<rparr>"

definition ex_interleaved :: "(tenant_id \<times> view_request) list" where
  "ex_interleaved =
     [(TenantId ''bob'', VReserveJob 1 (StorePath ''d'') ''x'' 60),
      (TenantId ''alice'', VRecordPath ex_pushed ex_shared_object Quarantined),
      (TenantId ''alice'', VReserveJob 2 (StorePath ''d'') ''x'' 60),
      (TenantId ''alice'', VRecordJobOutcome 2 (StorePath ''d'') ''x'' (Failed ''no'' [] None)),
      (TenantId ''bob'', VRecordPath ex_pushed ex_other_object Quarantined),
      (TenantId ''bob'', VOutputObject (StorePath ''p'')),
      (TenantId ''bob'', VReserveJob 1 (StorePath ''d'') ''x'' 60)]"

theorem tenants_undisturbed_witness:
  "view_answers (postgres_ops id) (TenantId ''bob'') ex_interleaved pg_empty =
     [RReservation Won, RUnit (Ok ()), RObject (Some ex_other_object), RReservation (Lost 1)]"
proof -
  let ?at = "\<lambda>k. if k = ObjectKey ''k'' then ex_shared_object else ex_other_object"
  let ?owner = "\<lambda>j. if j = 1 then TenantId ''bob'' else TenantId ''alice''"
  have "\<forall>(t, c) \<in> set ex_interleaved. wf_request ?at ?owner t c"
    by (simp add: ex_interleaved_def ex_shared_object_def ex_other_object_def wf_object_def)
  then have "view_answers (postgres_ops id) (TenantId ''bob'') ex_interleaved pg_empty =
      view_answers (postgres_ops id) (TenantId ''bob'') (filter (\<lambda>(t, _). t = TenantId ''bob'') ex_interleaved) pg_empty"
    by (intro tenants_undisturbed [where object_at = ?at and owner = ?owner])
      (simp_all add: pg_inv_def jobs_inv_def pg_empty_def del: view_answers.simps)
  also have "\<dots> = [RReservation Won, RUnit (Ok ()), RObject (Some ex_other_object), RReservation (Lost 1)]"
    by code_simp
  finally show ?thesis .
qed

text \<open>
  Without the agreement on keys the first to record a key decides what everybody reads under it.
\<close>

theorem shared_key_first_wins:
  "let obj = ex_shared_object\<lparr>ro_file_size := 7\<rparr>; calls = [(TenantId ''alice'', VRecordPath ex_pushed obj Quarantined), (TenantId ''alice'', VOutputObject (StorePath ''p''))] in
   last (view_answers (postgres_ops id) (TenantId ''alice'') calls pg_empty) = RObject (Some obj) \<and>
   last (view_answers (postgres_ops id) (TenantId ''alice'') ((TenantId ''bob'', VRecordPath ex_pushed ex_shared_object Quarantined) # calls) pg_empty) =
     RObject (Some ex_shared_object)"
  by code_simp

end
