(* ===== verification/DaemonClient.thy ===== *)
theory DaemonClient
  imports Wire
begin

text \<open>
  The client of the Nix worker protocol that a worker speaks to the daemon of a virtual machine
  (\<open>daemon-protocol/src\<close>), and the older serve protocol spoken to a subprocess
  (\<open>worker/src/serve.rs\<close>). A connection is the bytes the other side has still to say; a read past
  them is an error. What an operation sends is a definition of its own, next to the one that reads
  the answer. The locale \<open>stream_codec\<close> states what a reader promises about what a writer wrote. The
  lemmas show that every answer is read back field by field, that the log frames are drained up to
  the last one with no line lost, that an archive, which carries no length of its own, is copied up
  to its end and no further, and which lengths make the client panic.
\<close>

subsection \<open>Reading from the stream\<close>

datatype nar_error = NarIo | Unexpected string string | UnknownType string

datatype daemon_error =
    Io
  | BadMagic u64
  | UnsupportedVersion u64
  | UnknownTag u64
  | NarFailed nar_error
  | Remote u64 string

definition read_exact :: "nat \<Rightarrow> bytes \<Rightarrow> (daemon_error, bytes \<times> bytes) res" where
  "read_exact n bs = (if length bs < n then Err Io else Ok (take n bs, drop n bs))"

definition read_wire_u64 :: "bytes \<Rightarrow> (daemon_error, u64 \<times> bytes) res" where
  "read_wire_u64 bs = bind_res (read_exact 8 bs) (\<lambda>(b, bs). Ok (from_le_bytes b, bs))"

definition read_wire_bool :: "bytes \<Rightarrow> (daemon_error, bool \<times> bytes) res" where
  "read_wire_bool bs = bind_res (read_wire_u64 bs) (\<lambda>(v, bs). Ok (v \<noteq> 0, bs))"

text \<open>A buffer of more than \<open>isize::MAX\<close> bytes cannot be allocated: the client panics.\<close>

definition read_wire_bytes :: "bytes \<Rightarrow> (daemon_error, bytes \<times> bytes) res" where
  "read_wire_bytes bs =
     bind_res (read_wire_u64 bs) (\<lambda>(len, bs).
       if unat len \<ge> 2 ^ 63 then Panic
       else bind_res (read_exact (unat len) bs) (\<lambda>(v, bs).
            bind_res (read_exact (padding (unat len)) bs) (\<lambda>(_, bs). Ok (v, bs))))"

definition read_wire_str :: "bytes \<Rightarrow> (daemon_error, string \<times> bytes) res" where
  "read_wire_str bs = bind_res (read_wire_bytes bs) (\<lambda>(v, bs). Ok (from_utf8_lossy v, bs))"

fun read_times :: "(bytes \<Rightarrow> ('e, 'a \<times> bytes) res) \<Rightarrow> nat \<Rightarrow> bytes \<Rightarrow> ('e, 'a list \<times> bytes) res" where
  "read_times f 0 bs = Ok ([], bs)"
| "read_times f (Suc n) bs = bind_res (f bs) (\<lambda>(x, bs). bind_res (read_times f n bs) (\<lambda>(xs, bs). Ok (x # xs, bs)))"

definition read_wire_strings :: "bytes \<Rightarrow> (daemon_error, string list \<times> bytes) res" where
  "read_wire_strings bs = bind_res (read_wire_u64 bs) (\<lambda>(count, bs). read_times read_wire_str (unat count) bs)"

subsection \<open>Writing to the stream\<close>

definition wire_bool :: "bool \<Rightarrow> bytes" where
  "wire_bool b = to_le_bytes (if b then 1 else 0)"

definition wire_strings :: "string list \<Rightarrow> bytes" where
  "wire_strings ss = to_le_bytes (of_nat (length ss)) @ concat (map enc_string ss)"

subsection \<open>Log frames\<close>

definition STDERR_NEXT :: u64 where "STDERR_NEXT = 0x6f6c6d67"
definition STDERR_LAST :: u64 where "STDERR_LAST = 0x616c7473"
definition STDERR_ERROR :: u64 where "STDERR_ERROR = 0x63787470"
definition STDERR_START_ACTIVITY :: u64 where "STDERR_START_ACTIVITY = 0x53545254"
definition STDERR_STOP_ACTIVITY :: u64 where "STDERR_STOP_ACTIVITY = 0x53544f50"
definition STDERR_RESULT :: u64 where "STDERR_RESULT = 0x52534c54"
definition RESULT_BUILD_LOG_LINE :: u64 where "RESULT_BUILD_LOG_LINE = 101"

lemmas stderr_tags = STDERR_NEXT_def STDERR_LAST_def STDERR_ERROR_def STDERR_START_ACTIVITY_def STDERR_STOP_ACTIVITY_def STDERR_RESULT_def

datatype log_field = IntField u64 | StrField string

definition read_log_field :: "bytes \<Rightarrow> (daemon_error, log_field \<times> bytes) res" where
  "read_log_field bs =
     bind_res (read_wire_u64 bs) (\<lambda>(tag, bs).
       if tag = 0 then bind_res (read_wire_u64 bs) (\<lambda>(v, bs). Ok (IntField v, bs))
       else bind_res (read_wire_str bs) (\<lambda>(v, bs). Ok (StrField v, bs)))"

text \<open>The vector of fields is allocated up front, at 24 bytes an element.\<close>

definition read_log_fields :: "bytes \<Rightarrow> (daemon_error, log_field list \<times> bytes) res" where
  "read_log_fields bs =
     bind_res (read_wire_u64 bs) (\<lambda>(count, bs).
       if unat count * 24 > 2 ^ 63 - 1 then Panic else read_times read_log_field (unat count) bs)"

definition read_remote_error :: "bytes \<Rightarrow> (daemon_error, daemon_error \<times> bytes) res" where
  "read_remote_error bs =
     bind_res (read_wire_str bs) (\<lambda>(_, bs).
     bind_res (read_wire_u64 bs) (\<lambda>(level, bs).
     bind_res (read_wire_str bs) (\<lambda>(_, bs).
     bind_res (read_wire_str bs) (\<lambda>(message, bs).
     bind_res (read_wire_u64 bs) (\<lambda>(_, bs).
     bind_res (read_wire_u64 bs) (\<lambda>(traces, bs).
     bind_res (read_times (\<lambda>bs. bind_res (read_wire_u64 bs) (\<lambda>(_, bs). read_wire_str bs)) (unat traces) bs) (\<lambda>(_, bs).
     Ok (Remote level message, bs))))))))"

text \<open>One frame: the last, or the line it carries, if any.\<close>

datatype frame = LastFrame | Frame "string option"

definition log_line :: "u64 \<Rightarrow> log_field list \<Rightarrow> string option" where
  "log_line result_type fs =
     (case fs of
        StrField line # _ \<Rightarrow> if result_type = RESULT_BUILD_LOG_LINE then Some line else None
      | _ \<Rightarrow> None)"

definition read_frame :: "bytes \<Rightarrow> (daemon_error, frame \<times> bytes) res" where
  "read_frame bs =
     bind_res (read_wire_u64 bs) (\<lambda>(tag, bs).
       if tag = STDERR_NEXT then bind_res (read_wire_str bs) (\<lambda>(line, bs). Ok (Frame (Some line), bs))
       else if tag = STDERR_START_ACTIVITY then
         bind_res (read_wire_u64 bs) (\<lambda>(_, bs).
         bind_res (read_wire_u64 bs) (\<lambda>(_, bs).
         bind_res (read_wire_u64 bs) (\<lambda>(_, bs).
         bind_res (read_wire_str bs) (\<lambda>(_, bs).
         bind_res (read_log_fields bs) (\<lambda>(_, bs).
         bind_res (read_wire_u64 bs) (\<lambda>(_, bs). Ok (Frame None, bs)))))))
       else if tag = STDERR_STOP_ACTIVITY then bind_res (read_wire_u64 bs) (\<lambda>(_, bs). Ok (Frame None, bs))
       else if tag = STDERR_RESULT then
         bind_res (read_wire_u64 bs) (\<lambda>(_, bs).
         bind_res (read_wire_u64 bs) (\<lambda>(result_type, bs).
         bind_res (read_log_fields bs) (\<lambda>(fs, bs). Ok (Frame (log_line result_type fs), bs))))
       else if tag = STDERR_LAST then Ok (LastFrame, bs)
       else if tag = STDERR_ERROR then bind_res (read_remote_error bs) (\<lambda>(e, _). Err e)
       else Err (UnknownTag tag))"

subsection \<open>Every read consumes\<close>

lemma read_exact_length: "read_exact n bs = Ok (v, bs') \<Longrightarrow> length bs' + n = length bs"
  by (auto simp: read_exact_def split: if_splits)

lemma read_wire_u64_length: "read_wire_u64 bs = Ok (v, bs') \<Longrightarrow> length bs' + 8 = length bs"
  by (auto simp: read_wire_u64_def res_simps dest: read_exact_length)

lemma read_wire_bytes_length: "read_wire_bytes bs = Ok (v, bs') \<Longrightarrow> length bs' + 8 \<le> length bs"
  by (auto simp: read_wire_bytes_def res_simps dest!: read_wire_u64_length read_exact_length split: if_splits)

lemma read_wire_str_length: "read_wire_str bs = Ok (v, bs') \<Longrightarrow> length bs' + 8 \<le> length bs"
  by (auto simp: read_wire_str_def res_simps dest: read_wire_bytes_length)

lemma read_times_length:
  "(\<And>bs x bs'. f bs = Ok (x, bs') \<Longrightarrow> length bs' \<le> length bs) \<Longrightarrow> read_times f n bs = Ok (xs, bs') \<Longrightarrow> length bs' \<le> length bs"
  by (induction n arbitrary: bs xs) (fastforce simp: res_simps)+

lemma read_log_fields_length: "read_log_fields bs = Ok (fs, bs') \<Longrightarrow> length bs' + 8 \<le> length bs"
proof -
  have "read_log_field bs = Ok (x, bs') \<Longrightarrow> length bs' \<le> length bs" for bs x bs'
    by (auto simp: read_log_field_def res_simps dest!: read_wire_u64_length read_wire_str_length split: if_splits)
  then show "read_log_fields bs = Ok (fs, bs') \<Longrightarrow> ?thesis"
    using read_times_length [of read_log_field] by (fastforce simp: read_log_fields_def res_simps dest!: read_wire_u64_length split: if_splits)
qed

lemma read_frame_length: "read_frame bs = Ok (x, bs') \<Longrightarrow> length bs' < length bs"
  by (auto simp: read_frame_def res_simps dest!: read_wire_u64_length read_wire_str_length read_log_fields_length split: if_splits)

function drain_stderr :: "bytes \<Rightarrow> string list \<times> (daemon_error, bytes) res" where
  "drain_stderr bs =
     (case read_frame bs of
        Err e \<Rightarrow> ([], Err e)
      | Panic \<Rightarrow> ([], Panic)
      | Ok (LastFrame, bs) \<Rightarrow> ([], Ok bs)
      | Ok (Frame line, bs) \<Rightarrow>
          (case drain_stderr bs of (lines, r) \<Rightarrow> ((case line of None \<Rightarrow> lines | Some l \<Rightarrow> l # lines), r)))"
  by pat_completeness auto
termination
  by (relation "measure length") (auto dest: read_frame_length)

declare drain_stderr.simps [simp del]

subsection \<open>The operations\<close>

definition MAGIC_1 :: u64 where "MAGIC_1 = 0x6e697863"
definition MAGIC_2 :: u64 where "MAGIC_2 = 0x6478696f"
definition PROTOCOL_VERSION :: u64 where "PROTOCOL_VERSION = 0x123"
definition MIN_SUPPORTED_MINOR :: u64 where "MIN_SUPPORTED_MINOR = 35"

unbundle bit_operations_syntax

definition set_options :: bytes where
  "set_options =
     to_le_bytes 19 @ concat (map to_le_bytes [0, 0, 0, 3, 1, 0]) @ wire_bool True @ to_le_bytes 3 @ to_le_bytes 0 @ to_le_bytes 0 @
     to_le_bytes 1 @ wire_bool True @ to_le_bytes 0"

text \<open>The greeting: what is read, with what has been sent when reading stops.\<close>

definition open_connection :: "bytes \<Rightarrow> bytes \<times> (daemon_error, u64 \<times> bytes) res" where
  "open_connection bs =
     (let first = to_le_bytes MAGIC_1;
          second = first @ to_le_bytes PROTOCOL_VERSION @ to_le_bytes 0 @ wire_bool False;
          hello = bind_res (read_wire_u64 bs) (\<lambda>(magic, bs).
            if magic \<noteq> MAGIC_2 then Err (BadMagic magic)
            else bind_res (read_wire_u64 bs) (\<lambda>(version, bs).
              if version AND 0xff00 \<noteq> PROTOCOL_VERSION AND 0xff00 then Err (UnsupportedVersion version)
              else if version AND 0x00ff < MIN_SUPPORTED_MINOR then Err (UnsupportedVersion version)
              else Ok (version, bs)))
      in case hello of
           Err e \<Rightarrow> (first, Err e)
         | Panic \<Rightarrow> (first, Panic)
         | Ok (version, bs) \<Rightarrow>
             (case bind_res (read_wire_str bs) (\<lambda>(_, bs). bind_res (read_wire_u64 bs) (\<lambda>(_, bs). snd (drain_stderr bs))) of
                Err e \<Rightarrow> (second, Err e)
              | Panic \<Rightarrow> (second, Panic)
              | Ok bs \<Rightarrow> (second @ set_options, bind_res (snd (drain_stderr bs)) (\<lambda>bs. Ok (version, bs)))))"

record daemon_outcome =
  do_status :: u64
  do_error_msg :: string
  do_log :: "string list"

definition build_derivation_request :: "string \<Rightarrow> bytes \<Rightarrow> bytes" where
  "build_derivation_request drv_path drv = to_le_bytes 36 @ enc_string drv_path @ drv @ to_le_bytes 0"

definition read_realisation :: "bytes \<Rightarrow> (daemon_error, unit \<times> bytes) res" where
  "read_realisation bs = bind_res (read_wire_str bs) (\<lambda>(_, bs). bind_res (read_wire_str bs) (\<lambda>(_, bs). Ok ((), bs)))"

definition read_build_result :: "bytes \<Rightarrow> (daemon_error, (u64 \<times> string) \<times> bytes) res" where
  "read_build_result bs =
     bind_res (read_wire_u64 bs) (\<lambda>(status, bs).
     bind_res (read_wire_str bs) (\<lambda>(error_msg, bs).
     bind_res (read_wire_u64 bs) (\<lambda>(_, bs).
     bind_res (read_wire_bool bs) (\<lambda>(_, bs).
     bind_res (read_wire_u64 bs) (\<lambda>(_, bs).
     bind_res (read_wire_u64 bs) (\<lambda>(_, bs).
     bind_res (read_wire_u64 bs) (\<lambda>(realisations, bs).
     bind_res (read_times read_realisation (unat realisations) bs) (\<lambda>(_, bs).
     Ok ((status, error_msg), bs)))))))))"

definition build_derivation_reply :: "bytes \<Rightarrow> string list \<times> (daemon_error, daemon_outcome \<times> bytes) res" where
  "build_derivation_reply bs =
     (case drain_stderr bs of
        (lines, r) \<Rightarrow>
          (lines, bind_res r (\<lambda>bs. bind_res (read_build_result bs) (\<lambda>((status, error_msg), bs).
             Ok (\<lparr>do_status = status, do_error_msg = error_msg, do_log = lines\<rparr>, bs)))))"

record daemon_path_info =
  dp_deriver :: "string option"
  dp_nar_hash :: string
  dp_references :: "string list"
  dp_registration_time :: u64
  dp_nar_size :: u64
  dp_ultimate :: bool
  dp_sigs :: "string list"
  dp_ca :: "string option"

definition query_path_info_request :: "string \<Rightarrow> bytes" where
  "query_path_info_request path = to_le_bytes 26 @ enc_string path"

definition non_empty :: "string \<Rightarrow> string option" where
  "non_empty s = (if s = [] then None else Some s)"

definition read_path_info :: "bytes \<Rightarrow> (daemon_error, daemon_path_info \<times> bytes) res" where
  "read_path_info bs =
     bind_res (read_wire_str bs) (\<lambda>(deriver, bs).
     bind_res (read_wire_str bs) (\<lambda>(nar_hash, bs).
     bind_res (read_wire_strings bs) (\<lambda>(references, bs).
     bind_res (read_wire_u64 bs) (\<lambda>(registration_time, bs).
     bind_res (read_wire_u64 bs) (\<lambda>(nar_size, bs).
     bind_res (read_wire_bool bs) (\<lambda>(ultimate, bs).
     bind_res (read_wire_strings bs) (\<lambda>(sigs, bs).
     bind_res (read_wire_str bs) (\<lambda>(ca, bs).
     Ok (\<lparr>dp_deriver = non_empty deriver, dp_nar_hash = nar_hash, dp_references = references, dp_registration_time = registration_time,
          dp_nar_size = nar_size, dp_ultimate = ultimate, dp_sigs = sigs, dp_ca = non_empty ca\<rparr>, bs)))))))))"

definition query_path_info_reply :: "bytes \<Rightarrow> (daemon_error, daemon_path_info option \<times> bytes) res" where
  "query_path_info_reply bs =
     bind_res (snd (drain_stderr bs)) (\<lambda>bs.
     bind_res (read_wire_bool bs) (\<lambda>(valid, bs).
       if \<not> valid then Ok (None, bs) else bind_res (read_path_info bs) (\<lambda>(info, bs). Ok (Some info, bs))))"

text \<open>The body of an archive travels in chunks of what each read of it returned, ended by an empty one.\<close>

definition framed_chunks :: "bytes list \<Rightarrow> bytes" where
  "framed_chunks chunks =
     concat (map (\<lambda>c. to_le_bytes (of_nat (length c)) @ c) (takeWhile (\<lambda>c. c \<noteq> []) chunks)) @ to_le_bytes 0"

definition add_to_store_nar_request :: "string \<Rightarrow> daemon_path_info \<Rightarrow> bytes list \<Rightarrow> bytes" where
  "add_to_store_nar_request path info chunks =
     to_le_bytes 39 @ enc_string path @ enc_string (case dp_deriver info of None \<Rightarrow> [] | Some d \<Rightarrow> d) @ enc_string (dp_nar_hash info) @
     wire_strings (dp_references info) @ to_le_bytes (dp_registration_time info) @ to_le_bytes (dp_nar_size info) @
     wire_bool (dp_ultimate info) @ wire_strings (dp_sigs info) @ enc_string (case dp_ca info of None \<Rightarrow> [] | Some c \<Rightarrow> c) @
     wire_bool False @ wire_bool True @ framed_chunks chunks"

definition add_to_store_nar_reply :: "bytes \<Rightarrow> (daemon_error, unit \<times> bytes) res" where
  "add_to_store_nar_reply bs = bind_res (snd (drain_stderr bs)) (\<lambda>bs. Ok ((), bs))"

subsection \<open>The serve protocol\<close>

definition SERVE_MAGIC_1 :: u64 where "SERVE_MAGIC_1 = 0x390c9deb"
definition SERVE_MAGIC_2 :: u64 where "SERVE_MAGIC_2 = 0x5452eecb"
definition SERVE_VERSION :: u64 where "SERVE_VERSION = 0x207"

definition serve_greeting :: bytes where
  "serve_greeting = to_le_bytes SERVE_MAGIC_1 @ to_le_bytes SERVE_VERSION"

definition serve_open :: "bytes \<Rightarrow> (daemon_error, bytes) res" where
  "serve_open bs =
     bind_res (read_wire_u64 bs) (\<lambda>(magic, bs).
       if magic \<noteq> SERVE_MAGIC_2 then Err (BadMagic magic)
       else bind_res (read_wire_u64 bs) (\<lambda>(version, bs).
         if version AND 0xff00 \<noteq> SERVE_VERSION AND 0xff00 then Err (UnsupportedVersion version) else Ok bs))"

definition serve_build_request :: "string \<Rightarrow> bytes \<Rightarrow> bytes" where
  "serve_build_request drv_path drv =
     to_le_bytes 8 @ enc_string drv_path @ drv @ concat (map to_le_bytes (replicate 6 0))"

definition serve_build_reply :: "bytes \<Rightarrow> (daemon_error, (u64 \<times> string) \<times> bytes) res" where
  "serve_build_reply bs =
     bind_res (read_wire_u64 bs) (\<lambda>(status, bs).
     bind_res (read_wire_str bs) (\<lambda>(error_msg, bs).
     bind_res (read_times read_wire_u64 4 bs) (\<lambda>(_, bs).
     bind_res (read_wire_u64 bs) (\<lambda>(realisations, bs).
     bind_res (read_times read_realisation (unat realisations) bs) (\<lambda>(_, bs).
     Ok ((status, error_msg), bs))))))"

subsection \<open>Copying an archive\<close>

text \<open>
  The state of a copy is what was written so far and what is left to read. The recursion over the
  nodes is bounded by fuel; the bytes that are left are enough of it.
\<close>

type_synonym copying = "bytes \<times> bytes"

definition nar_io :: "(daemon_error, 'a) res \<Rightarrow> (nar_error, 'a) res" where
  "nar_io r = map_err (\<lambda>_. NarIo) r"

definition copy_u64 :: "copying \<Rightarrow> (nar_error, u64 \<times> copying) res" where
  "copy_u64 st = bind_res (nar_io (read_wire_u64 (snd st))) (\<lambda>(v, bs). Ok (v, (fst st @ to_le_bytes v, bs)))"

definition copy_str :: "copying \<Rightarrow> (nar_error, string \<times> copying) res" where
  "copy_str st = bind_res (nar_io (read_wire_bytes (snd st))) (\<lambda>(v, bs). Ok (from_utf8_lossy v, (fst st @ enc_bytes v, bs)))"

definition expect :: "string \<Rightarrow> string \<Rightarrow> (nar_error, unit) res" where
  "expect got expected = (if got = expected then Ok () else Err (Unexpected expected got))"

definition copy_tag :: "string \<Rightarrow> copying \<Rightarrow> (nar_error, copying) res" where
  "copy_tag expected st = bind_res (copy_str st) (\<lambda>(got, st). bind_res (expect got expected) (\<lambda>_. Ok st))"

text \<open>Read in blocks of 64 KiB; the padding is read and written as zeros.\<close>

function copy_blocks :: "nat \<Rightarrow> copying \<Rightarrow> (nar_error, copying) res" where
  "copy_blocks remaining st =
     (if remaining = 0 then Ok st
      else let chunk = min remaining 65536 in
           bind_res (nar_io (read_exact chunk (snd st))) (\<lambda>(v, bs). copy_blocks (remaining - chunk) (fst st @ v, bs)))"
  by pat_completeness auto
termination by (relation "measure fst") auto

declare copy_blocks.simps [simp del]

definition copy_padded :: "nat \<Rightarrow> copying \<Rightarrow> (nar_error, copying) res" where
  "copy_padded len st =
     bind_res (copy_blocks len st) (\<lambda>st.
     bind_res (nar_io (read_exact (padding len) (snd st))) (\<lambda>(_, bs). Ok (fst st @ replicate (padding len) 0, bs)))"

definition copy_regular :: "copying \<Rightarrow> (nar_error, copying) res" where
  "copy_regular st =
     bind_res (copy_str st) (\<lambda>(tag, st).
     bind_res (if tag = ''executable'' then bind_res (copy_tag [] st) copy_str else Ok (tag, st)) (\<lambda>(tag, st).
     bind_res (expect tag ''contents'') (\<lambda>_.
     bind_res (copy_u64 st) (\<lambda>(size, st).
     bind_res (copy_padded (unat size) st) (copy_tag '')'')))))"

definition copy_symlink :: "copying \<Rightarrow> (nar_error, copying) res" where
  "copy_symlink st =
     bind_res (copy_tag ''target'' st) (\<lambda>st. bind_res (copy_str st) (\<lambda>(_, st). copy_tag '')'' st))"

definition bind_fuel :: "('e, 'a) res option \<Rightarrow> ('a \<Rightarrow> ('e, 'b) res option) \<Rightarrow> ('e, 'b) res option" where
  "bind_fuel x f =
     (case x of None \<Rightarrow> None | Some (Ok a) \<Rightarrow> f a | Some (Err e) \<Rightarrow> Some (Err e) | Some Panic \<Rightarrow> Some Panic)"

definition node_type :: "copying \<Rightarrow> (nar_error, string \<times> copying) res" where
  "node_type st = bind_res (copy_tag ''('' st) (\<lambda>st. bind_res (copy_tag ''type'' st) copy_str)"

definition entry_head :: "copying \<Rightarrow> (nar_error, copying) res" where
  "entry_head st =
     bind_res (copy_tag ''('' st) (\<lambda>st.
     bind_res (copy_tag ''name'' st) (\<lambda>st.
     bind_res (copy_str st) (\<lambda>(_, st). copy_tag ''node'' st)))"

fun copy_node :: "nat \<Rightarrow> copying \<Rightarrow> (nar_error, copying) res option"
and copy_entries :: "nat \<Rightarrow> copying \<Rightarrow> (nar_error, copying) res option" where
  "copy_node 0 st = None"
| "copy_node (Suc n) st =
     bind_fuel (Some (node_type st)) (\<lambda>(t, st).
       if t = ''regular'' then Some (copy_regular st)
       else if t = ''symlink'' then Some (copy_symlink st)
       else if t = ''directory'' then copy_entries n st
       else Some (Err (UnknownType t)))"
| "copy_entries 0 st = None"
| "copy_entries (Suc n) st =
     bind_fuel (Some (copy_str st)) (\<lambda>(tag, st).
       if tag = '')'' then Some (Ok st)
       else bind_fuel (Some (bind_res (expect tag ''entry'') (\<lambda>_. entry_head st))) (\<lambda>st.
            bind_fuel (copy_node n st) (\<lambda>st.
            bind_fuel (Some (copy_tag '')'' st)) (\<lambda>st. copy_entries n st))))"

definition copy_nar :: "bytes \<Rightarrow> (nar_error, copying) res option" where
  "copy_nar bs =
     bind_fuel (Some (copy_tag ''nix-archive-1'' ([], bs))) (\<lambda>st. copy_node (Suc (length bs)) st)"

definition nar_from_path_request :: "string \<Rightarrow> bytes" where
  "nar_from_path_request path = to_le_bytes 38 @ enc_string path"

definition nar_from_path_reply :: "bytes \<Rightarrow> (daemon_error, bytes \<times> bytes) res option" where
  "nar_from_path_reply bs =
     (case snd (drain_stderr bs) of
        Err e \<Rightarrow> Some (Err e)
      | Panic \<Rightarrow> Some Panic
      | Ok bs \<Rightarrow> map_option (map_err NarFailed) (copy_nar bs))"

subsection \<open>What a reader promises\<close>

locale stream_codec =
  fixes enc :: "'a \<Rightarrow> bytes"
    and dec :: "bytes \<Rightarrow> ('e, 'a \<times> bytes) res"
    and wf :: "'a \<Rightarrow> bool"
  assumes dec_enc: "wf x \<Longrightarrow> dec (enc x @ rest) = Ok (x, rest)"
begin

lemma dec_times: "(\<And>x. x \<in> set xs \<Longrightarrow> wf x) \<Longrightarrow> read_times dec (length xs) (concat (map enc xs) @ rest) = Ok (xs, rest)"
  by (induction xs) (simp_all add: dec_enc)

end

lemma read_u64_enc [simp]: "read_wire_u64 (to_le_bytes v @ rest) = Ok (v, rest)"
  by (simp add: read_wire_u64_def read_exact_def)

lemma read_bool_enc [simp]: "read_wire_bool (wire_bool b @ rest) = Ok (b, rest)"
  by (simp add: read_wire_bool_def wire_bool_def)

definition short :: "bytes \<Rightarrow> bool" where
  "short v \<longleftrightarrow> length v < 2 ^ 63"

lemma read_bytes_enc [simp]: "short v \<Longrightarrow> read_wire_bytes (enc_bytes v @ rest) = Ok (v, rest)"
  by (simp add: read_wire_bytes_def enc_bytes_def read_exact_def short_def unat_of_nat_u64)

definition plain_str :: "string \<Rightarrow> bool" where
  "plain_str s \<longleftrightarrow> is_utf8 s \<and> length s < 2 ^ 63"

lemma read_str_enc [simp]: "plain_str s \<Longrightarrow> read_wire_str (enc_string s @ rest) = Ok (s, rest)"
  by (simp add: read_wire_str_def enc_string_def plain_str_def short_def)

interpretation ints: stream_codec to_le_bytes read_wire_u64 "\<lambda>_. True"
  by unfold_locales simp

interpretation strs: stream_codec enc_string read_wire_str plain_str
  by unfold_locales simp

lemma read_strings_enc [simp]:
  "(\<forall>s \<in> set ss. plain_str s) \<Longrightarrow> length ss < 2 ^ 64 \<Longrightarrow> read_wire_strings (wire_strings ss @ rest) = Ok (ss, rest)"
  by (simp add: read_wire_strings_def wire_strings_def unat_of_nat_u64 strs.dec_times)

subsection \<open>The log of a command\<close>

text \<open>What a daemon says before it answers, and how it writes it.\<close>

datatype daemon_msg =
    MsgNext string
  | MsgStart u64 u64 u64 string "log_field list" u64
  | MsgStop u64
  | MsgResult u64 u64 "log_field list"

fun enc_log_field :: "log_field \<Rightarrow> bytes" where
  "enc_log_field (IntField v) = to_le_bytes 0 @ to_le_bytes v"
| "enc_log_field (StrField s) = to_le_bytes 1 @ enc_string s"

definition enc_log_fields :: "log_field list \<Rightarrow> bytes" where
  "enc_log_fields fs = to_le_bytes (of_nat (length fs)) @ concat (map enc_log_field fs)"

fun enc_msg :: "daemon_msg \<Rightarrow> bytes" where
  "enc_msg (MsgNext line) = to_le_bytes STDERR_NEXT @ enc_string line"
| "enc_msg (MsgStart act lvl ty text fs parent) =
     to_le_bytes STDERR_START_ACTIVITY @ to_le_bytes act @ to_le_bytes lvl @ to_le_bytes ty @ enc_string text @ enc_log_fields fs @ to_le_bytes parent"
| "enc_msg (MsgStop act) = to_le_bytes STDERR_STOP_ACTIVITY @ to_le_bytes act"
| "enc_msg (MsgResult act ty fs) = to_le_bytes STDERR_RESULT @ to_le_bytes act @ to_le_bytes ty @ enc_log_fields fs"

fun msg_line :: "daemon_msg \<Rightarrow> string option" where
  "msg_line (MsgNext line) = Some line"
| "msg_line (MsgResult act ty fs) = log_line ty fs"
| "msg_line _ = None"

fun wf_log_field :: "log_field \<Rightarrow> bool" where
  "wf_log_field (IntField v) = True"
| "wf_log_field (StrField s) = plain_str s"

definition wf_log_fields :: "log_field list \<Rightarrow> bool" where
  "wf_log_fields fs \<longleftrightarrow> list_all wf_log_field fs \<and> length fs * 24 < 2 ^ 63"

fun wf_msg :: "daemon_msg \<Rightarrow> bool" where
  "wf_msg (MsgNext line) = plain_str line"
| "wf_msg (MsgStart act lvl ty text fs parent) = (plain_str text \<and> wf_log_fields fs)"
| "wf_msg (MsgStop act) = True"
| "wf_msg (MsgResult act ty fs) = wf_log_fields fs"

interpretation log_fs: stream_codec enc_log_field read_log_field wf_log_field
proof
  show "wf_log_field x \<Longrightarrow> read_log_field (enc_log_field x @ rest) = Ok (x, rest)" for x rest
    by (cases x) (simp_all add: read_log_field_def)
qed

lemma read_log_fields_enc [simp]: "wf_log_fields fs \<Longrightarrow> read_log_fields (enc_log_fields fs @ rest) = Ok (fs, rest)"
  using log_fs.dec_times [of fs rest]
  by (auto simp: read_log_fields_def enc_log_fields_def wf_log_fields_def unat_of_nat_u64 list_all_iff)

lemma read_frame_enc: "wf_msg m \<Longrightarrow> read_frame (enc_msg m @ rest) = Ok (Frame (msg_line m), rest)"
  by (cases m) (simp_all add: read_frame_def stderr_tags)

lemma read_frame_last: "read_frame (to_le_bytes STDERR_LAST @ rest) = Ok (LastFrame, rest)"
  by (simp add: read_frame_def stderr_tags)

lemma drain_enc:
  "list_all wf_msg ms \<Longrightarrow> drain_stderr (concat (map enc_msg ms) @ to_le_bytes STDERR_LAST @ rest) = (List.map_filter msg_line ms, Ok rest)"
proof (induction ms)
  case Nil
  then show ?case by (simp add: drain_stderr.simps read_frame_last List.map_filter_def)
next
  case (Cons m ms)
  then have "read_frame (enc_msg m @ concat (map enc_msg ms) @ to_le_bytes STDERR_LAST @ rest) =
      Ok (Frame (msg_line m), concat (map enc_msg ms) @ to_le_bytes STDERR_LAST @ rest)"
    by (intro read_frame_enc) simp
  then show ?case using Cons
    by (simp add: drain_stderr.simps [of "enc_msg m @ _"] List.map_filter_def split: option.split)
qed

text \<open>How a daemon writes the result of a build, after which it answers the next command.\<close>

definition enc_build_result :: "u64 \<Rightarrow> string \<Rightarrow> u64 \<Rightarrow> bool \<Rightarrow> u64 \<Rightarrow> u64 \<Rightarrow> (string \<times> string) list \<Rightarrow> bytes" where
  "enc_build_result status msg built nondet started stopped realisations =
     to_le_bytes status @ enc_string msg @ to_le_bytes built @ wire_bool nondet @ to_le_bytes started @ to_le_bytes stopped @
     to_le_bytes (of_nat (length realisations)) @ concat (map (\<lambda>(k, v). enc_string k @ enc_string v) realisations)"

lemma read_realisations_enc:
  "(\<forall>(k, v) \<in> set rs. plain_str k \<and> plain_str v) \<Longrightarrow>
   read_times read_realisation (length rs) (concat (map (\<lambda>(k, v). enc_string k @ enc_string v) rs) @ rest) = Ok (replicate (length rs) (), rest)"
  by (induction rs) (auto simp: read_realisation_def)

lemma read_build_result_enc:
  assumes "plain_str msg" and "\<forall>(k, v) \<in> set rs. plain_str k \<and> plain_str v" and "length rs < 2 ^ 64"
  shows "read_build_result (enc_build_result status msg built nondet started stopped rs @ rest) = Ok ((status, msg), rest)"
    and "serve_build_reply (enc_build_result status msg built nondet started stopped rs @ rest) = Ok ((status, msg), rest)"
proof -
  have four: "read_times read_wire_u64 4 (to_le_bytes a @ to_le_bytes b @ to_le_bytes c @ to_le_bytes d @ more) = Ok ([a, b, c, d], more)" for a b c d more
    by (simp add: numeral_eq_Suc)
  show "read_build_result (enc_build_result status msg built nondet started stopped rs @ rest) = Ok ((status, msg), rest)"
    using assms read_realisations_enc [OF assms(2), of rest] by (simp add: read_build_result_def enc_build_result_def unat_of_nat_u64)
  show "serve_build_reply (enc_build_result status msg built nondet started stopped rs @ rest) = Ok ((status, msg), rest)"
    using assms read_realisations_enc [OF assms(2), of rest]
    by (simp add: serve_build_reply_def enc_build_result_def unat_of_nat_u64 wire_bool_def four)
qed

text \<open>
  C20: Both connections a worker can build over report the same: the daemon's answer is read to its end,
  with the status and message it carries and, over the worker protocol, every line of the log in order,
  whatever other frames come in between; what follows is left for the next command.
\<close>

theorem build_answer_read:
  assumes "list_all wf_msg ms" and "plain_str msg" and "\<forall>(k, v) \<in> set rs. plain_str k \<and> plain_str v" and "length rs < 2 ^ 64"
  shows "build_derivation_reply (concat (map enc_msg ms) @ to_le_bytes STDERR_LAST @
      enc_build_result status msg built nondet started stopped rs @ rest) =
      (List.map_filter msg_line ms, Ok (\<lparr>do_status = status, do_error_msg = msg, do_log = List.map_filter msg_line ms\<rparr>, rest)) \<and>
    serve_build_reply (enc_build_result status msg built nondet started stopped rs @ rest) = Ok ((status, msg), rest)"
  using drain_enc [OF assms(1)] read_build_result_enc [OF assms(2,3,4)]
  by (simp_all add: build_derivation_reply_def)

theorem build_answer_read_witness:
  "build_derivation_reply (concat (map enc_msg [MsgStop 1, MsgResult 1 RESULT_BUILD_LOG_LINE [StrField ''ok'']]) @ to_le_bytes STDERR_LAST @
      enc_build_result 0 ''ok'' 1 False 5 9 [(''ok'', ''ok'')] @ [7]) =
      ([''ok''], Ok (\<lparr>do_status = 0, do_error_msg = ''ok'', do_log = [''ok'']\<rparr>, [7])) \<and>
    serve_build_reply (enc_build_result 0 ''ok'' 1 False 5 9 [(''ok'', ''ok'')] @ [7]) = Ok ((0, ''ok''), [7])"
proof -
  have ok: "plain_str ''ok''" by (auto simp: plain_str_def intro!: is_utf8_ascii)
  show ?thesis
    using build_answer_read [of "[MsgStop 1, MsgResult 1 RESULT_BUILD_LOG_LINE [StrField ''ok'']]" "''ok''" "[(''ok'', ''ok'')]" 0 1 False 5 9 "[7]"] ok
    by (simp add: wf_log_fields_def List.map_filter_def log_line_def)
qed

subsection \<open>An archive is copied to its end\<close>

datatype nar_node = Regular bool bytes | Symlink bytes | Directory "(bytes \<times> nar_node) list"

fun dump_node :: "nar_node \<Rightarrow> bytes" where
  "dump_node (Regular executable contents) =
     enc_string ''('' @ enc_string ''type'' @ enc_string ''regular'' @
     (if executable then enc_string ''executable'' @ enc_string [] else []) @
     enc_string ''contents'' @ enc_bytes contents @ enc_string '')''"
| "dump_node (Symlink target) =
     enc_string ''('' @ enc_string ''type'' @ enc_string ''symlink'' @ enc_string ''target'' @ enc_bytes target @ enc_string '')''"
| "dump_node (Directory es) =
     enc_string ''('' @ enc_string ''type'' @ enc_string ''directory'' @
     concat (map (\<lambda>(name, x). enc_string ''entry'' @ enc_string ''('' @ enc_string ''name'' @ enc_bytes name @ enc_string ''node'' @
       dump_node x @ enc_string '')'') es) @ enc_string '')''"

definition dump_entry :: "bytes \<times> nar_node \<Rightarrow> bytes" where
  "dump_entry e = enc_string ''entry'' @ enc_string ''('' @ enc_string ''name'' @ enc_bytes (fst e) @ enc_string ''node'' @
     dump_node (snd e) @ enc_string '')''"

definition dump_nar :: "nar_node \<Rightarrow> bytes" where
  "dump_nar x = enc_string ''nix-archive-1'' @ dump_node x"

lemma dump_directory: "dump_node (Directory es) =
  enc_string ''('' @ enc_string ''type'' @ enc_string ''directory'' @ concat (map dump_entry es) @ enc_string '')''"
  by (simp add: dump_entry_def [abs_def] case_prod_beta')

lemma plain_tags [simp]:
  "plain_str []" "plain_str ''(''" "plain_str '')''" "plain_str ''type''" "plain_str ''regular''" "plain_str ''executable''"
  "plain_str ''contents''" "plain_str ''symlink''" "plain_str ''target''" "plain_str ''directory''" "plain_str ''entry''"
  "plain_str ''name''" "plain_str ''node''" "plain_str ''nix-archive-1''"
  by (auto simp: plain_str_def intro!: is_utf8_ascii)

lemma copy_str_enc [simp]: "short v \<Longrightarrow> copy_str (out, enc_bytes v @ rest) = Ok (from_utf8_lossy v, (out @ enc_bytes v, rest))"
  by (simp add: copy_str_def nar_io_def)

lemma copy_str_tag [simp]: "plain_str s \<Longrightarrow> copy_str (out, enc_string s @ rest) = Ok (s, (out @ enc_string s, rest))"
  by (simp add: copy_str_def nar_io_def enc_string_def plain_str_def short_def)

lemma copy_tag_enc [simp]: "plain_str s \<Longrightarrow> copy_tag s (out, enc_string s @ rest) = Ok (out @ enc_string s, rest)"
  by (simp add: copy_tag_def expect_def)

lemma copy_blocks_enc: "n \<le> length bs \<Longrightarrow> copy_blocks n (out, bs) = Ok (out @ take n bs, drop n bs)"
proof (induction n arbitrary: out bs rule: less_induct)
  case (less n)
  show ?case
  proof (cases "n = 0")
    case False
    let ?c = "min n 65536"
    have "copy_blocks (n - ?c) (out @ take ?c bs, drop ?c bs) = Ok ((out @ take ?c bs) @ take (n - ?c) (drop ?c bs), drop (n - ?c) (drop ?c bs))"
      using False less.prems by (intro less.IH) auto
    moreover have "take ?c bs @ take (n - ?c) (drop ?c bs) = take n bs"
      using take_add [of ?c "n - ?c" bs] by simp
    ultimately show ?thesis using False less.prems
      by (simp add: copy_blocks.simps [of n] nar_io_def read_exact_def Let_def add.commute)
  qed (simp add: copy_blocks.simps)
qed

lemma copy_padded_enc:
  "copy_padded (length v) (out, v @ replicate (padding (length v)) 0 @ rest) = Ok (out @ v @ replicate (padding (length v)) 0, rest)"
  by (simp add: copy_padded_def copy_blocks_enc nar_io_def read_exact_def)

lemma copy_contents_enc:
  "length v < 2 ^ 64 \<Longrightarrow> bind_res (copy_u64 (out, enc_bytes v @ rest)) (\<lambda>(size, st). copy_padded (unat size) st) = Ok (out @ enc_bytes v, rest)"
  using copy_padded_enc [of v "out @ to_le_bytes (of_nat (length v))" rest]
  by (simp add: copy_u64_def nar_io_def enc_bytes_def unat_of_nat_u64)

lemma copy_regular_enc:
  assumes "length v < 2 ^ 64"
  shows "copy_regular (out, (if x then enc_string ''executable'' @ enc_string [] else []) @ enc_string ''contents'' @ enc_bytes v @ enc_string '')'' @ rest) =
    Ok (out @ (if x then enc_string ''executable'' @ enc_string [] else []) @ enc_string ''contents'' @ enc_bytes v @ enc_string '')'', rest)"
proof -
  have "bind_res (copy_u64 (o1, enc_bytes v @ enc_string '')'' @ rest)) (\<lambda>(size, st). bind_res (copy_padded (unat size) st) (copy_tag '')'')) =
      Ok (o1 @ enc_bytes v @ enc_string '')'', rest)" for o1
  proof -
    have "bind_res (copy_u64 (o1, enc_bytes v @ more)) (\<lambda>(size, st). bind_res (copy_padded (unat size) st) f) =
        bind_res (bind_res (copy_u64 (o1, enc_bytes v @ more)) (\<lambda>(size, st). copy_padded (unat size) st)) f" for more and f :: "copying \<Rightarrow> (nar_error, copying) res"
      by (cases "copy_u64 (o1, enc_bytes v @ more)") (auto split: prod.split)
    then show ?thesis using copy_contents_enc [OF assms, of o1 "enc_string '')'' @ rest"] by simp
  qed
  then show ?thesis by (cases x) (simp_all add: copy_regular_def expect_def)
qed

lemma bind_fuel_simps [simp]:
  "bind_fuel (Some (Ok a)) f = f a" "bind_fuel (Some (Err e)) f = Some (Err e)" "bind_fuel (Some Panic) f = Some Panic" "bind_fuel None f = None"
  by (simp_all add: bind_fuel_def)

lemma node_type_enc:
  "plain_str t \<Longrightarrow> node_type (out, enc_string ''('' @ enc_string ''type'' @ enc_string t @ rest) =
    Ok (t, (out @ enc_string ''('' @ enc_string ''type'' @ enc_string t, rest))"
  by (simp add: node_type_def)

lemma entry_head_enc:
  "short v \<Longrightarrow> entry_head (out, enc_string ''('' @ enc_string ''name'' @ enc_bytes v @ enc_string ''node'' @ rest) =
    Ok (out @ enc_string ''('' @ enc_string ''name'' @ enc_bytes v @ enc_string ''node'', rest)"
  by (simp add: entry_head_def)

lemma length_tag: "8 \<le> length (enc_string s)"
  by (simp add: enc_string_def length_enc_bytes)

lemma short_in: "length (enc_bytes v) < 2 ^ 63 \<Longrightarrow> short v \<and> length v < 2 ^ 64"
  by (simp add: short_def length_enc_bytes)

text \<open>Entries are copied when the nodes in them are.\<close>

lemma copy_entries_enc:
  assumes "\<And>e n out rest. e \<in> set es \<Longrightarrow> length (dump_node (snd e)) < 2 ^ 63 \<Longrightarrow> length (dump_node (snd e)) < n \<Longrightarrow>
      copy_node n (out, dump_node (snd e) @ rest) = Some (Ok (out @ dump_node (snd e), rest))"
    and "length (concat (map dump_entry es)) < 2 ^ 63" and "length (concat (map dump_entry es)) < n"
  shows "copy_entries n (out, concat (map dump_entry es) @ enc_string '')'' @ rest) =
    Some (Ok (out @ concat (map dump_entry es) @ enc_string '')'', rest))"
  using assms
proof (induction es arbitrary: n out)
  case Nil
  then obtain m where "n = Suc m" by (cases n) auto
  then show ?case by simp
next
  case (Cons e es)
  obtain name x where e: "e = (name, x)" by fastforce
  obtain m where n: "n = Suc m" using Cons.prems(3) by (cases n) auto
  let ?tail = "concat (map dump_entry es) @ enc_string '')'' @ rest"
  let ?head = "enc_string ''('' @ enc_string ''name'' @ enc_bytes name @ enc_string ''node''"
  have ent: "length (enc_bytes name) + length (dump_node x) + 8 \<le> length (dump_entry e)"
    unfolding dump_entry_def e using length_tag [of "''entry''"] by simp
  have total: "length (concat (map dump_entry (e # es))) = length (dump_entry e) + length (concat (map dump_entry es))" by simp
  have short: "short name" using Cons.prems(2) ent total short_in [of name] by linarith
  have node: "copy_node m (o1, dump_node x @ more) = Some (Ok (o1 @ dump_node x, more))" for o1 more
  proof -
    have "length (dump_node x) < 2 ^ 63" "length (dump_node x) < m" using Cons.prems(2,3) ent total n by linarith+
    then show ?thesis using Cons.prems(1) [of e m o1 more] e by simp
  qed
  have rest: "copy_entries m (o1, ?tail) = Some (Ok (o1 @ concat (map dump_entry es) @ enc_string '')'', rest))" for o1
  proof (rule Cons.IH)
    show "length (concat (map dump_entry es)) < 2 ^ 63" "length (concat (map dump_entry es)) < m"
      using Cons.prems(2,3) ent total n by linarith+
  qed (use Cons.prems(1) in simp)
  have "copy_entries n (out, enc_string ''entry'' @ ?head @ dump_node x @ enc_string '')'' @ ?tail) =
      copy_entries m (((out @ enc_string ''entry'') @ ?head) @ dump_node x @ enc_string '')'', ?tail)"
    using entry_head_enc [OF short, of "out @ enc_string ''entry''" "dump_node x @ enc_string '')'' @ ?tail"] node
    by (simp add: n expect_def)
  then show ?case using rest dump_entry_def [of e] by (simp add: e)
qed

lemma copy_node_enc:
  "length (dump_node x) < 2 ^ 63 \<Longrightarrow> length (dump_node x) < n \<Longrightarrow> copy_node n (out, dump_node x @ rest) = Some (Ok (out @ dump_node x, rest))"
proof (induction x arbitrary: n out rest)
  case (Regular x v)
  obtain m where n: "n = Suc m" using Regular.prems(2) by (cases n) auto
  have v: "length v < 2 ^ 64" using Regular.prems(1) short_in [of v] by simp
  show ?case
    using copy_regular_enc [OF v, of "out @ enc_string ''('' @ enc_string ''type'' @ enc_string ''regular''" x rest]
    by (cases x) (simp_all add: n node_type_enc)
next
  case (Symlink v)
  obtain m where n: "n = Suc m" using Symlink.prems(2) by (cases n) auto
  have v: "short v" using Symlink.prems(1) short_in [of v] by simp
  show ?case using v by (simp add: n node_type_enc copy_symlink_def)
next
  case (Directory es)
  obtain m where n: "n = Suc m" using Directory.prems(2) by (cases n) auto
  let ?o = "out @ enc_string ''('' @ enc_string ''type'' @ enc_string ''directory''"
  have "copy_entries m (?o, concat (map dump_entry es) @ enc_string '')'' @ rest) = Some (Ok (?o @ concat (map dump_entry es) @ enc_string '')'', rest))"
  proof (rule copy_entries_enc)
    fix e k o1 r
    assume "e \<in> set es" "length (dump_node (snd e)) < 2 ^ 63" "length (dump_node (snd e)) < k"
    then show "copy_node k (o1, dump_node (snd e) @ r) = Some (Ok (o1 @ dump_node (snd e), r))"
      using Directory.IH [of e "snd e" k o1 r] snds.intros by blast
  qed (use Directory.prems n length_tag [of "''(''"] in \<open>simp_all add: dump_directory del: dump_node.simps\<close>)
  then show ?case
    using node_type_enc [of "''directory''" out "concat (map dump_entry es) @ enc_string '')'' @ rest"]
    by (simp add: n dump_directory del: dump_node.simps)
qed

subsection \<open>The bytes left are fuel enough\<close>

definition left :: "copying \<Rightarrow> nat" where
  "left st = length (snd st)"

lemma copy_str_left: "copy_str st = Ok (s, st') \<Longrightarrow> left st' < left st"
  by (auto simp: copy_str_def nar_io_def left_def res_simps dest!: read_wire_bytes_length split: prod.splits)

lemma copy_tag_left: "copy_tag s st = Ok st' \<Longrightarrow> left st' < left st"
  by (auto simp: copy_tag_def res_simps dest!: copy_str_left split: prod.splits)

lemma copy_blocks_left: "copy_blocks n st = Ok st' \<Longrightarrow> left st' \<le> left st"
proof (induction n st rule: copy_blocks.induct)
  case (1 n st)
  show ?case
  proof (cases "n = 0")
    case False
    with 1(2) obtain v bs where r: "read_exact (min n 65536) (snd st) = Ok (v, bs)"
      and "copy_blocks (n - min n 65536) (fst st @ v, bs) = Ok st'"
      by (auto simp: copy_blocks.simps [of n] nar_io_def Let_def res_simps)
    with 1(1) False have "left st' \<le> left (fst st @ v, bs)" by (auto simp: nar_io_def)
    then show ?thesis using read_exact_length [OF r] by (simp add: left_def)
  qed (use 1(2) in \<open>simp add: copy_blocks.simps\<close>)
qed

lemma copy_padded_left: "copy_padded n st = Ok st' \<Longrightarrow> left st' \<le> left st"
  by (fastforce simp: copy_padded_def nar_io_def left_def res_simps dest!: copy_blocks_left read_exact_length split: prod.splits)

lemma copy_u64_left: "copy_u64 st = Ok (v, st') \<Longrightarrow> left st' < left st"
  by (auto simp: copy_u64_def nar_io_def left_def res_simps dest!: read_wire_u64_length split: prod.splits)

lemmas copying_left = copy_str_left copy_tag_left copy_padded_left copy_u64_left

lemma copy_symlink_left: "copy_symlink st = Ok st' \<Longrightarrow> left st' < left st"
  by (fastforce simp: copy_symlink_def res_simps dest!: copying_left split: prod.splits)

lemma copy_regular_left: "copy_regular st = Ok st' \<Longrightarrow> left st' < left st"
  by (fastforce simp: copy_regular_def res_simps dest!: copying_left split: prod.splits if_splits)

lemma node_type_left: "node_type st = Ok (t, st') \<Longrightarrow> left st' < left st"
  by (fastforce simp: node_type_def res_simps dest!: copying_left split: prod.splits)

lemma entry_head_left: "entry_head st = Ok st' \<Longrightarrow> left st' < left st"
  by (fastforce simp: entry_head_def res_simps dest!: copying_left split: prod.splits)

text \<open>A bounded computation that comes to an answer, and leaves less to read when it is not an error.\<close>

definition ends :: "nat \<Rightarrow> (nar_error, copying) res option \<Rightarrow> bool" where
  "ends k r = (case r of None \<Rightarrow> False | Some (Ok st) \<Rightarrow> left st < k | Some _ \<Rightarrow> True)"

lemma ends_bind:
  "ends k r \<Longrightarrow> (\<And>st. left st < k \<Longrightarrow> ends k (f st)) \<Longrightarrow> ends k (bind_fuel r f)"
  by (cases r; cases "the r") (auto simp: ends_def)

lemma ends_bind_some:
  "(\<And>x. r = Ok x \<Longrightarrow> ends k (f x)) \<Longrightarrow> ends k (bind_fuel (Some r) f)"
  by (cases r) (auto simp: ends_def)

lemma ends_some: "(\<And>st. r = Ok st \<Longrightarrow> left st < k) \<Longrightarrow> ends k (Some r)"
  by (auto simp: ends_def split: res.splits)

lemma ends_mono: "ends j r \<Longrightarrow> j \<le> k \<Longrightarrow> ends k r"
  by (auto simp: ends_def split: option.splits res.splits)

lemma copy_node_ends:
  assumes "\<And>st. left st < n \<Longrightarrow> ends (left st) (copy_entries n st)" and "left st < Suc n"
  shows "ends (left st) (copy_node (Suc n) st)"
  unfolding copy_node.simps
proof (rule ends_bind_some)
  fix x assume x: "node_type st = Ok x"
  obtain t st' where x': "x = (t, st')" by (cases x)
  have less: "left st' < left st" using x x' node_type_left by blast
  have "ends (left st) (copy_entries n st')"
    using assms less ends_mono [of "left st'" _ "left st"] by simp
  moreover have "ends (left st) (Some (copy_regular st'))" "ends (left st) (Some (copy_symlink st'))"
    using less copy_regular_left copy_symlink_left by (meson ends_some order.strict_trans)+
  ultimately show "ends (left st) (case x of (t, st) \<Rightarrow>
      if t = ''regular'' then Some (copy_regular st) else if t = ''symlink'' then Some (copy_symlink st)
      else if t = ''directory'' then copy_entries n st else Some (Err (UnknownType t)))"
    by (simp add: x' ends_def)
qed

lemma copy_entries_ends:
  assumes node: "\<And>st. left st < n \<Longrightarrow> ends (left st) (copy_node n st)"
    and entries: "\<And>st. left st < n \<Longrightarrow> ends (left st) (copy_entries n st)" and "left st < Suc n"
  shows "ends (left st) (copy_entries (Suc n) st)"
  unfolding copy_entries.simps
proof (rule ends_bind_some)
  fix x assume x: "copy_str st = Ok x"
  obtain t s1 where x': "x = (t, s1)" by (cases x)
  have s1: "left s1 < left st" using x x' copy_str_left by blast
  have "ends (left st) (bind_fuel (Some (bind_res (expect t ''entry'') (\<lambda>_. entry_head s1))) (\<lambda>st.
      bind_fuel (copy_node n st) (\<lambda>st. bind_fuel (Some (copy_tag '')'' st)) (\<lambda>st. copy_entries n st))))"
  proof (intro ends_bind_some ends_bind)
    fix s2 assume "bind_res (expect t ''entry'') (\<lambda>_. entry_head s1) = Ok s2"
    then have "left s2 < left st" using s1 entry_head_left [of s1 s2] by (auto simp: bind_res_Ok_iff)
    then show "ends (left st) (copy_node n s2)" using node assms(3) ends_mono [of "left s2" _ "left st"] by simp
  next
    fix s3 s4 assume "left s3 < left st" "copy_tag '')'' s3 = Ok s4"
    then have "left s4 < left st" using copy_tag_left by fastforce
    then show "ends (left st) (copy_entries n s4)" using entries assms(3) ends_mono [of "left s4" _ "left st"] by simp
  qed
  then show "ends (left st) (case x of (tag, st) \<Rightarrow>
       if tag = '')'' then Some (Ok st)
       else bind_fuel (Some (bind_res (expect tag ''entry'') (\<lambda>_. entry_head st))) (\<lambda>st.
            bind_fuel (copy_node n st) (\<lambda>st.
            bind_fuel (Some (copy_tag '')'' st)) (\<lambda>st. copy_entries n st))))"
    using s1 by (simp add: x' ends_def)
qed

lemma copy_ends: "left st < n \<Longrightarrow> ends (left st) (copy_node n st) \<and> ends (left st) (copy_entries n st)"
  by (induction n arbitrary: st) (simp_all add: copy_node_ends copy_entries_ends del: copy_node.simps copy_entries.simps)

lemma copy_nar_total: "copy_nar bs \<noteq> None"
proof (cases "copy_tag ''nix-archive-1'' ([], bs)")
  case (Ok st)
  then have "left st < Suc (length bs)" using copy_tag_left [OF Ok] by (simp add: left_def)
  from copy_ends [OF this] show ?thesis using Ok
    by (auto simp: copy_nar_def ends_def simp del: copy_node.simps split: option.splits)
qed (simp_all add: copy_nar_def)

text \<open>
  The answer to a request for a path always comes to an end: whatever bytes the daemon sends, the log
  is drained and the fuel given to the copy of the archive is never used up.
\<close>

theorem nar_from_path_ends: "\<exists>r. nar_from_path_reply bs = Some r"
  using copy_nar_total by (auto simp: nar_from_path_reply_def split: res.split)

text \<open>
  C19: An archive that arrives without its length is copied byte for byte, whatever tree it holds, and
  the copy ends exactly where the archive does: what the daemon says next is still there to be read.
\<close>

theorem archive_copied_exactly:
  assumes "length (dump_nar x) < 2 ^ 63" and "list_all wf_msg ms"
  shows "nar_from_path_reply (concat (map enc_msg ms) @ to_le_bytes STDERR_LAST @ dump_nar x @ rest) = Some (Ok (dump_nar x, rest))"
proof -
  let ?bs = "dump_nar x @ rest"
  have "copy_node (Suc (length ?bs)) (enc_string ''nix-archive-1'', dump_node x @ rest) = Some (Ok (dump_nar x, rest))"
    using assms(1) copy_node_enc [of x "Suc (length ?bs)" "enc_string ''nix-archive-1''" rest] by (simp add: dump_nar_def)
  then have "copy_nar ?bs = Some (Ok (dump_nar x, rest))"
    using copy_tag_enc [of "''nix-archive-1''" "[]" "dump_node x @ rest"] by (simp add: copy_nar_def dump_nar_def)
  then show ?thesis using drain_enc [OF assms(2), of ?bs] by (simp add: nar_from_path_reply_def)
qed

theorem archive_copied_exactly_witness:
  "nar_from_path_reply (concat (map enc_msg [MsgStop 1]) @ to_le_bytes STDERR_LAST @
      dump_nar (Directory [([102], Regular True [1, 2, 3]), ([108], Symlink [102])]) @ [7]) =
   Some (Ok (dump_nar (Directory [([102], Regular True [1, 2, 3]), ([108], Symlink [102])]), [7]))"
  by (rule archive_copied_exactly) (simp_all add: dump_nar_def enc_string_def length_enc_bytes padding_def)

end
