(* ===== verification/Control.thy ===== *)
theory Control
  imports GuestAgent DaemonClient
begin

text \<open>
  The framing of the control channel between worker and guest: \<open>guest-protocol/src/transport.rs\<close>, the
  worker's end (\<open>client.rs\<close>) and the agent's end (\<open>guest-agent/src/control_transport.rs\<close>, with the
  buffer that \<open>run_control_connection\<close> gives it). A frame is its length in four bytes and that many
  bytes; the messages inside of it are the business of the RPC library. The lemmas show that frames are
  read back one by one, how a stream that breaks off is told from one that ends, and which frames one
  end sends and the other refuses.
\<close>

subsection \<open>Frames\<close>

definition MAX_FRAME_LEN :: nat where
  "MAX_FRAME_LEN = 1024 * 1024"

datatype frame_error = ChannelClosed | FrameIo string | FrameTooLarge u32

text \<open>
  Reading from what the peer sent before it closed; \<open>read_frame\<close> asks again until the four bytes of
  the length are there.
\<close>

definition read_control_frame :: "nat \<Rightarrow> bytes \<Rightarrow> (frame_error, bytes \<times> bytes) res" where
  "read_control_frame max_len bs =
     (if bs = [] then Err ChannelClosed
      else if length bs < 4 then Err (FrameIo ''connection closed mid-frame while reading the length prefix'')
      else let len = le_nat (take 4 bs); body = drop 4 bs in
           if max_len < len then Err (FrameTooLarge (of_nat len))
           else if length body < len then Err (FrameIo ''early eof'')
           else Ok (take len body, drop len body))"

definition write_control_frame :: "bytes \<Rightarrow> (frame_error, bytes) res" where
  "write_control_frame bs = (if length bs < 2 ^ 32 then Ok (nat_le 4 (length bs) @ bs) else Err (FrameTooLarge (- 1)))"

subsection \<open>The worker's end\<close>

definition client_send :: "bytes \<Rightarrow> (frame_error, bytes) res" where
  "client_send request = write_control_frame request"

definition client_receive :: "bytes \<Rightarrow> (frame_error, bytes \<times> bytes) res" where
  "client_receive bs = read_control_frame MAX_FRAME_LEN bs"

subsection \<open>The agent's end\<close>

datatype control_wire_error = WireClosed | WireIo string | WireTooLarge u32

datatype rx_error_kind = ConnectionGone | ReceivedMessageTooLarge | OtherRxError

fun rx_kind :: "control_wire_error \<Rightarrow> rx_error_kind" where
  "rx_kind WireClosed = ConnectionGone"
| "rx_kind (WireIo e) = OtherRxError"
| "rx_kind (WireTooLarge n) = ReceivedMessageTooLarge"

datatype tx_error_kind = TxConnectionGone | OtherTxError

fun tx_kind :: "control_wire_error \<Rightarrow> tx_error_kind" where
  "tx_kind WireClosed = TxConnectionGone"
| "tx_kind (WireIo e) = OtherTxError"
| "tx_kind (WireTooLarge n) = OtherTxError"

fun from_frame_error :: "frame_error \<Rightarrow> control_wire_error" where
  "from_frame_error ChannelClosed = WireClosed"
| "from_frame_error (FrameIo e) = WireIo e"
| "from_frame_error (FrameTooLarge n) = WireTooLarge n"

definition control_send :: "bytes \<Rightarrow> bytes option \<Rightarrow> (control_wire_error, bytes) res" where
  "control_send header body =
     (case body of
        None \<Rightarrow> Err (WireTooLarge 0)
      | Some b \<Rightarrow> map_err from_frame_error (write_control_frame (header @ b)))"

text \<open>The buffer the agent receives into.\<close>

definition CONTROL_BUFFER :: nat where
  "CONTROL_BUFFER = 4096"

definition control_receive :: "bytes \<Rightarrow> (control_wire_error, bytes) res \<times> bytes" where
  "control_receive bs =
     (case read_control_frame MAX_FRAME_LEN bs of
        Err e \<Rightarrow> (Err (from_frame_error e), case e of FrameTooLarge _ \<Rightarrow> drop 4 bs | _ \<Rightarrow> [])
      | Panic \<Rightarrow> (Panic, [])
      | Ok (frame, rest) \<Rightarrow>
          (if length frame \<le> CONTROL_BUFFER then Ok frame else Err (WireTooLarge (of_nat (length frame))), rest))"

subsection \<open>Frames are read back\<close>

lemma read_written:
  assumes "length bs \<le> max_len" and "length bs < 2 ^ 32"
  shows "read_control_frame max_len (nat_le 4 (length bs) @ bs @ rest) = Ok (bs, rest)"
proof -
  have "nat_le 4 (length bs) @ bs @ rest \<noteq> []" by (metis append_is_Nil_conv length_nat_le list.size(3) zero_neq_numeral)
  then show ?thesis using assms by (simp add: read_control_frame_def le_nat_nat_le Let_def)
qed

interpretation frames: stream_codec "\<lambda>bs. nat_le 4 (length bs) @ bs" "read_control_frame MAX_FRAME_LEN" "\<lambda>bs. length bs \<le> MAX_FRAME_LEN"
  by unfold_locales (simp add: read_written MAX_FRAME_LEN_def)

text \<open>
  A stream that ends is told from one that breaks off: only with nothing left to read is it closed.
\<close>

lemma closed_iff: "read_control_frame max_len bs = Err ChannelClosed \<longleftrightarrow> bs = []"
  by (auto simp: read_control_frame_def Let_def)

lemma receive_sequence:
  "\<forall>f \<in> set fs. length f \<le> MAX_FRAME_LEN \<Longrightarrow>
   read_times client_receive (length fs) (concat (map (\<lambda>f. nat_le 4 (length f) @ f) fs)) = Ok (fs, [])"
  using frames.dec_times [of fs "[]"] by (simp add: client_receive_def [abs_def])

text \<open>
  The two ends of the control channel agree on every request up to the agent's buffer, and only on
  those. The worker sends any request of up to a mebibyte without an error, and the frame is read whole;
  but the agent hands only those of at most 4096 bytes to its handlers. A longer one, such as a bundle
  of a few certificates, is dropped: the agent reports a message that is too large to its RPC server,
  and continues behind it.
\<close>

theorem long_request_dropped:
  assumes "length request \<le> MAX_FRAME_LEN"
  shows "\<exists>sent. client_send request = Ok sent \<and> read_control_frame MAX_FRAME_LEN (sent @ rest) = Ok (request, rest) \<and>
    control_receive (sent @ rest) =
      (if length request \<le> 4096 then Ok request else Err (WireTooLarge (of_nat (length request))), rest)"
proof -
  have small: "length request < 2 ^ 32" using assms by (simp add: MAX_FRAME_LEN_def)
  let ?sent = "nat_le 4 (length request) @ request"
  have "client_send request = Ok ?sent" using small by (simp add: client_send_def write_control_frame_def)
  moreover have "read_control_frame MAX_FRAME_LEN (?sent @ rest) = Ok (request, rest)" using read_written [OF assms small] by simp
  ultimately show ?thesis by (intro exI [of _ ?sent]) (simp add: control_receive_def CONTROL_BUFFER_def)
qed

theorem long_request_dropped_witness:
  "\<exists>sent. client_send (replicate 5000 7) = Ok sent \<and> control_receive (sent @ [1]) = (Err (WireTooLarge 5000), [1])"
  using long_request_dropped [of "replicate 5000 7" "[1]"] by (auto simp: MAX_FRAME_LEN_def)

end
