(* ===== verification/Watch.thy ===== *)
theory Watch
  imports CapnpExt
begin

text \<open>
  Waiting for a job: \<open>await_outcome\<close> (\<open>server/src/jobs.rs\<close>) and \<open>watch\<close> with the calls on the
  client's log stream (\<open>server/src/capnp_ext.rs\<close>). The message queue delivers log lines and the
  outcome; the client may stop accepting log events at any point. The lemmas show that a client that
  stays sees a build activity with every line, in order, between its start and its end, and gets the
  outcome that was reported.
\<close>

subsection \<open>The client's log stream\<close>

datatype activity_field = FieldString string | FieldInt nat

datatype log_event =
    StartActivity u64 string "activity_field list"
  | BuildLogLine u64 bytes
  | StopActivity u64
  | Synchronize

text \<open>A client and what it was sent; it refuses events once it has gone.\<close>

record log_client =
  lc_sent :: "log_event list"
  lc_accepts :: nat

definition push_event :: "log_event \<Rightarrow> log_client \<Rightarrow> (report, unit) res \<times> log_client" where
  "push_event e lc =
     (if lc_accepts lc = 0 then (Err [OpaqueCause ''the client is gone''], lc)
      else (Ok (), lc\<lparr>lc_sent := lc_sent lc @ [e], lc_accepts := lc_accepts lc - 1\<rparr>))"

definition start_activity :: "u64 \<Rightarrow> string \<Rightarrow> log_client \<Rightarrow> (report, unit) res \<times> log_client" where
  "start_activity aid drv_path lc =
     push_event (StartActivity aid (''building '' @ drv_path) [FieldString drv_path, FieldString ''kubernix'', FieldInt 1, FieldInt 1]) lc"

definition push_log_line :: "u64 \<Rightarrow> bytes \<Rightarrow> log_client \<Rightarrow> (report, unit) res \<times> log_client" where
  "push_log_line aid line lc = push_event (BuildLogLine aid line) lc"

definition stop_activity :: "u64 \<Rightarrow> log_client \<Rightarrow> (report, unit) res \<times> log_client" where
  "stop_activity aid lc =
     (case push_event (StopActivity aid) lc of
        (Ok _, lc) \<Rightarrow> push_event Synchronize lc
      | (r, lc) \<Rightarrow> (r, lc))"

fun push_lines :: "u64 \<Rightarrow> bytes list \<Rightarrow> log_client \<Rightarrow> (report, unit) res \<times> log_client" where
  "push_lines aid [] lc = (Ok (), lc)"
| "push_lines aid (line # rest) lc =
     (case push_log_line aid line lc of
        (Ok _, lc) \<Rightarrow> push_lines aid rest lc
      | (r, lc) \<Rightarrow> (r, lc))"

subsection \<open>The outcome\<close>

text \<open>What the result consumer brings: the subscription, and within the timeout the first message.\<close>

datatype result_message = TimedOut | StreamEnded | MessageError | Message job_result bool

fun await_outcome :: "bool \<Rightarrow> result_message \<Rightarrow> (report, job_outcome) res" where
  "await_outcome subscribed m =
     (if \<not> subscribed then Err [OpaqueCause ''subscribing to the result consumer'']
      else case m of
        TimedOut \<Rightarrow> Err [OpaqueCause ''timed out waiting for a worker'']
      | StreamEnded \<Rightarrow> Err [OpaqueCause ''result stream ended before an outcome arrived'']
      | MessageError \<Rightarrow> Err [OpaqueCause ''reading a result message'']
      | Message result acked \<Rightarrow>
          bind_res (map_err (\<lambda>_. [OpaqueCause ''decoding a job result message'']) (decode_outcome result)) (\<lambda>outcome.
            if acked then Ok outcome else Err [OpaqueCause ''acking the result message'']))"

subsection \<open>Watching a job\<close>

text \<open>
  What is there each time the loop looks: the lines that have arrived, which it prefers, and perhaps
  the outcome. The waiting for the outcome ends at the latest with its timeout.
\<close>

type_synonym arrivals = "(bytes list \<times> (report, job_outcome) res option) list"

fun watch_loop :: "u64 \<Rightarrow> arrivals \<Rightarrow> log_client \<Rightarrow> (report, job_outcome) res option \<times> log_client" where
  "watch_loop aid [] lc = (None, lc)"
| "watch_loop aid ((lines, outcome) # next_ones) lc =
     (case push_lines aid lines lc of
        (Ok _, lc) \<Rightarrow> (case outcome of None \<Rightarrow> watch_loop aid next_ones lc | Some r \<Rightarrow> (Some r, lc))
      | (Err e, lc) \<Rightarrow> (Some (Err e), lc)
      | (Panic, lc) \<Rightarrow> (Some Panic, lc))"

text \<open>Lines that come after the outcome, each with the time since the one before.\<close>

definition drained :: "(nat \<times> bytes) list \<Rightarrow> bytes list" where
  "drained later = map snd (takeWhile (\<lambda>(gap, _). gap < 50) later)"

definition watch ::
  "uuid \<Rightarrow> string \<Rightarrow> string option \<Rightarrow> arrivals \<Rightarrow> (nat \<times> bytes) list \<Rightarrow> log_client \<Rightarrow> (report, job_outcome) res option \<times> log_client" where
  "watch job_id drv_path preamble arrived later lc =
     (let aid = (ucast job_id :: u64) in
      case start_activity aid drv_path lc of
        (Ok _, lc) \<Rightarrow>
          (case push_lines aid (case preamble of None \<Rightarrow> [] | Some p \<Rightarrow> [as_bytes p]) lc of
             (Ok _, lc) \<Rightarrow>
               (case watch_loop aid arrived lc of
                  (Some (Ok outcome), lc) \<Rightarrow>
                    (case push_lines aid (drained later) lc of
                       (Ok _, lc) \<Rightarrow>
                         (case stop_activity aid lc of
                            (Ok _, lc) \<Rightarrow> (Some (Ok outcome), lc)
                          | (Err e, lc) \<Rightarrow> (Some (Err e), lc)
                          | (Panic, lc) \<Rightarrow> (Some Panic, lc))
                     | (Err e, lc) \<Rightarrow> (Some (Err e), lc)
                     | (Panic, lc) \<Rightarrow> (Some Panic, lc))
                | (r, lc) \<Rightarrow> (r, lc))
           | (Err e, lc) \<Rightarrow> (Some (Err e), lc)
           | (Panic, lc) \<Rightarrow> (Some Panic, lc))
      | (Err e, lc) \<Rightarrow> (Some (Err e), lc)
      | (Panic, lc) \<Rightarrow> (Some Panic, lc))"

subsection \<open>A client that stays\<close>

text \<open>A client that accepts \<open>n\<close> more events, and what it has after some of them.\<close>

abbreviation takes :: "log_client \<Rightarrow> log_event list \<Rightarrow> log_client" where
  "takes lc es \<equiv> lc\<lparr>lc_sent := lc_sent lc @ es, lc_accepts := lc_accepts lc - length es\<rparr>"

lemma push_event_accepted: "0 < lc_accepts lc \<Longrightarrow> push_event e lc = (Ok (), takes lc [e])"
  by (simp add: push_event_def)

lemma push_lines_accepted:
  "length lines \<le> lc_accepts lc \<Longrightarrow> push_lines aid lines lc = (Ok (), takes lc (map (BuildLogLine aid) lines))"
  by (induction lines arbitrary: lc) (simp_all add: push_log_line_def push_event_accepted)

lemma watch_loop_accepted:
  assumes "\<forall>(ls, r) \<in> set before. r = None" and "length (concat (map fst before) @ lines) \<le> lc_accepts lc"
  shows "watch_loop aid (before @ (lines, Some r) # rest) lc =
    (Some r, takes lc (map (BuildLogLine aid) (concat (map fst before) @ lines)))"
  using assms
proof (induction before arbitrary: lc)
  case (Cons b before)
  obtain ls where b: "b = (ls, None)" using Cons.prems(1) by fastforce
  let ?lc = "takes lc (map (BuildLogLine aid) ls)"
  have "watch_loop aid (before @ (lines, Some r) # rest) ?lc =
      (Some r, takes ?lc (map (BuildLogLine aid) (concat (map fst before) @ lines)))"
    using Cons.prems b by (intro Cons.IH) auto
  then show ?case using Cons.prems b by (simp add: push_lines_accepted)
qed (simp add: push_lines_accepted)

text \<open>
  A client that stays sees the whole build. It is sent the start of an activity, the note of a
  request that joined a running job, every log line that arrived before the outcome or shortly after
  it, in the order in which they arrived, and the end of the activity, and it is told the outcome the
  worker reported.
\<close>

lemma watch_relays_everything:
  assumes "\<forall>(ls, r) \<in> set before. r = None" and "await_outcome subscribed message = Ok outcome"
    and "said = (case preamble of None \<Rightarrow> [] | Some p \<Rightarrow> [as_bytes p]) @ concat (map fst before) @ lines @ drained later"
    and "length said + 3 \<le> lc_accepts lc"
  shows "\<exists>lc'. watch job_id drv_path preamble (before @ (lines, Some (await_outcome subscribed message)) # rest) later lc = (Some (Ok outcome), lc') \<and>
    lc_sent lc' = lc_sent lc @
      [StartActivity (ucast job_id) (''building '' @ drv_path) [FieldString drv_path, FieldString ''kubernix'', FieldInt 1, FieldInt 1]] @
      map (BuildLogLine (ucast job_id)) said @ [StopActivity (ucast job_id), Synchronize]"
proof -
  let ?pre = "case preamble of None \<Rightarrow> [] | Some p \<Rightarrow> [as_bytes p]" and ?seen = "concat (map fst before) @ lines"
  have "length ?pre + length ?seen + length (drained later) + 3 \<le> lc_accepts lc" using assms(3,4) by simp
  then show ?thesis using assms(1-3)
    by (simp add: watch_def start_activity_def stop_activity_def push_event_accepted push_lines_accepted watch_loop_accepted Let_def
        del: await_outcome.simps)
qed

end
