(* ===== verification/GuestBoot.thy ===== *)
theory GuestBoot
  imports GuestAgent
begin

text \<open>
  How a guest comes up. The first process (\<open>guest-init/src/main.rs\<close>) is a sequence of system calls that
  ends at the first failure; the agent (\<open>guest-agent/src/main.rs\<close>) mounts what it can, sets up the memory
  limit of builds (\<open>cgroup.rs\<close>) and the kernel programs (\<open>ebpf.rs\<close>), and serves one daemon per connection.
  What the kernel and the tools answer is an argument. Shown here: the real init is executed only at the
  end of the full sequence, with every descriptor closed; an agent that can bind its ports serves,
  whatever else failed; the limit of a build leaves a tenth of the memory, up to the rounding of
  floating-point numbers; and a process is attributed to the build exactly if it is in its group.
\<close>

subsection \<open>The first process\<close>

text \<open>A system call returns a number or fails with one.\<close>

datatype sysret = Ret nat | Errno nat

datatype mount_flag = MS_RDONLY | MS_MOVE

datatype open_flag = O_RDONLY | O_RDWR

datatype node_kind = S_IFCHR | S_IFBLK

record loop_config =
  lp_fd :: u32
  lp_flags :: u32

datatype syscall =
    SysMkdir string
  | SysMknod string node_kind u64
  | SysOpen string open_flag
  | SysLoopGetFree nat
  | SysLoopConfigure nat loop_config
  | SysClose nat
  | SysMount string string "string option" mount_flag
  | SysChdir string
  | SysChroot string
  | SysExecv string "string list"

text \<open>The kernel answers a call by the calls made so far; the process is a function on that history.\<close>

type_synonym kernel = "syscall list \<Rightarrow> syscall \<Rightarrow> sysret"
type_synonym 'a init = "syscall list \<Rightarrow> (string, 'a) res \<times> syscall list"

definition and_then :: "'a init \<Rightarrow> ('a \<Rightarrow> 'b init) \<Rightarrow> 'b init" where
  "and_then m f h = (case m h of (Ok x, h) \<Rightarrow> f x h | (Err e, h) \<Rightarrow> (Err e, h) | (Panic, h) \<Rightarrow> (Panic, h))"

definition or_die :: "kernel \<Rightarrow> syscall \<Rightarrow> string \<Rightarrow> nat init" where
  "or_die k c what h = (case k h c of Ret n \<Rightarrow> (Ok n, h @ [c]) | Errno e \<Rightarrow> (Err what, h @ [c]))"

definition init_close :: "nat \<Rightarrow> unit init" where
  "init_close fd h = (Ok (), h @ [SysClose fd])"

definition EEXIST :: nat where "EEXIST = 17"

definition init_mkdir :: "kernel \<Rightarrow> string \<Rightarrow> nat init" where
  "init_mkdir k path h =
     (case k h (SysMkdir path) of
        Ret n \<Rightarrow> (Ok n, h @ [SysMkdir path])
      | Errno e \<Rightarrow> (if e = EEXIST then Ok 0 else Err (''mkdir '' @ path), h @ [SysMkdir path]))"

definition init_mknod :: "kernel \<Rightarrow> string \<Rightarrow> node_kind \<Rightarrow> u64 \<Rightarrow> nat init" where
  "init_mknod k path kind dev = or_die k (SysMknod path kind dev) (''mknod '' @ path)"

definition init_open :: "kernel \<Rightarrow> string \<Rightarrow> open_flag \<Rightarrow> nat init" where
  "init_open k path flag = or_die k (SysOpen path flag) (''open '' @ path)"

definition init_mount :: "kernel \<Rightarrow> string \<Rightarrow> string \<Rightarrow> string \<Rightarrow> mount_flag \<Rightarrow> nat init" where
  "init_mount k source target fstype flag =
     or_die k (SysMount source target (Some fstype) flag) (''mount '' @ fstype @ '' on '' @ target)"

unbundle bit_operations_syntax

definition makedev :: "u32 \<Rightarrow> u32 \<Rightarrow> u64" where
  "makedev major minor = push_bit 8 (ucast major) OR ucast minor"

definition LO_FLAGS_READ_ONLY :: u32 where "LO_FLAGS_READ_ONLY = 1"

definition loop_path :: "nat \<Rightarrow> string" where
  "loop_path n = ''/dev/loop'' @ show_nat n"

definition guest_init :: "kernel \<Rightarrow> string list \<Rightarrow> nat init" where
  "guest_init k argv =
     and_then (init_mkdir k ''/dev'') (\<lambda>_.
     and_then (init_mknod k ''/dev/loop-control'' S_IFCHR (makedev 10 237)) (\<lambda>_.
     and_then (init_open k ''/dev/loop-control'' O_RDWR) (\<lambda>ctl_fd.
     and_then (or_die k (SysLoopGetFree ctl_fd) ''LOOP_CTL_GET_FREE'') (\<lambda>loop_num.
     and_then (init_close ctl_fd) (\<lambda>_.
     and_then (init_mknod k (loop_path loop_num) S_IFBLK (makedev 7 (of_nat loop_num))) (\<lambda>_.
     and_then (init_open k ''/root.img'' O_RDONLY) (\<lambda>backing_fd.
     and_then (init_open k (loop_path loop_num) O_RDONLY) (\<lambda>loop_fd.
     and_then (or_die k (SysLoopConfigure loop_fd \<lparr>lp_fd = of_nat backing_fd, lp_flags = LO_FLAGS_READ_ONLY\<rparr>) ''LOOP_CONFIGURE'') (\<lambda>_.
     and_then (init_close backing_fd) (\<lambda>_.
     and_then (init_mkdir k ''/target'') (\<lambda>_.
     and_then (init_mount k (loop_path loop_num) ''/target'' ''erofs'' MS_RDONLY) (\<lambda>_.
     and_then (init_close loop_fd) (\<lambda>_.
     and_then (or_die k (SysChdir ''/target'') ''chdir /target'') (\<lambda>_.
     and_then (or_die k (SysMount ''.'' ''/'' None MS_MOVE) ''move-mounting /target onto /'') (\<lambda>_.
     and_then (or_die k (SysChroot ''.'') ''chroot .'') (\<lambda>_.
     and_then (or_die k (SysChdir ''/'') ''chdir /'') (\<lambda>_.
     or_die k (SysExecv ''/init'' argv) ''execv /init'')))))))))))))))))"

text \<open>The formula of the C library, which the packing stands in for.\<close>

definition glibc_makedev :: "u32 \<Rightarrow> u32 \<Rightarrow> u64" where
  "glibc_makedev major minor =
     push_bit 8 (ucast (major AND 0xfff)) OR push_bit 32 (ucast (major AND 0xfffff000)) OR
     ucast (minor AND 0xff) OR push_bit 12 (ucast (minor AND 0xffffff00))"

subsection \<open>The memory of a build\<close>

text \<open>
  Rounding a natural number to the 53 bits of a double, to the nearest and to even in the middle; a
  fraction with a power of two below is rounded by rounding its numerator.
\<close>

fun bit_length :: "nat \<Rightarrow> nat" where
  "bit_length n = (if n = 0 then 0 else Suc (bit_length (n div 2)))"

declare bit_length.simps [simp del]

definition round53 :: "nat \<Rightarrow> nat" where
  "round53 p =
     (if p < 2 ^ 53 then p
      else let e = bit_length p - 53; q = p div 2 ^ e; r = p mod 2 ^ e
           in (if 2 * r > 2 ^ e \<or> (2 * r = 2 ^ e \<and> odd q) then q + 1 else q) * 2 ^ e)"

text \<open>The double nearest to \<open>1.0 - 0.10\<close> is this number of steps of \<open>2 ^ -53\<close>.\<close>

definition BUILD_SHARE :: nat where "BUILD_SHARE = 8106479329266893"

definition memory_share :: "u64 \<Rightarrow> u64" where
  "memory_share total_bytes = of_nat (min (2 ^ 64 - 1) (round53 (round53 (unat total_bytes) * BUILD_SHARE) div 2 ^ 53))"

definition build_cgroup_memory_max :: "string option \<Rightarrow> u64 option" where
  "build_cgroup_memory_max meminfo =
     Option.bind meminfo (\<lambda>contents.
     Option.bind (find (\<lambda>l. prefix ''MemTotal:'' l) (str_lines contents)) (\<lambda>l.
     (let fields = split_whitespace l in
      if length fields \<le> 1 then None
      else map_option (\<lambda>total_kb. memory_share (total_kb * 1024)) (parse_u64 (fields ! 1)))))"


subsection \<open>Start-up of the agent\<close>

text \<open>What the tools, the files and the kernel of the guest answer.\<close>

record guest_outside =
  go_run :: "string \<Rightarrow> string list \<Rightarrow> bool"
  go_mkdir :: "string \<Rightarrow> bool"
  go_write :: "string \<Rightarrow> bool"
  go_xattr :: "string \<Rightarrow> bool"
  go_ebpf :: "string \<Rightarrow> bool"
  go_bind :: "u32 \<Rightarrow> bool"
  go_meminfo :: "string option"

definition CGROUP_ROOT :: string where "CGROUP_ROOT = ''/sys/fs/cgroup''"
definition BUILD_CGROUP :: string where "BUILD_CGROUP = ''/sys/fs/cgroup/build''"
definition TRACEFS_MOUNT :: string where "TRACEFS_MOUNT = ''/sys/kernel/tracing''"

text \<open>The control group: the files that were written, and the processes in the group of builds.\<close>

record cgroup_state =
  cg_files :: "string \<rightharpoonup> string"
  cg_procs :: "u32 list"

definition set_delegate_xattr :: "guest_outside \<Rightarrow> string \<Rightarrow> (string, unit) res" where
  "set_delegate_xattr go path =
     (if go_xattr go path then Ok () else Err ''setxattr(user.delegate) on the cgroup root'')"

definition cgroup_setup :: "guest_outside \<Rightarrow> cgroup_state \<Rightarrow> (string, unit) res \<times> cgroup_state" where
  "cgroup_setup go cg =
     (if \<not> go_mkdir go CGROUP_ROOT then (Err (''creating '' @ CGROUP_ROOT), cg)
      else if \<not> go_run go ''/bin/mount'' [''-t'', ''cgroup2'', ''cgroup2'', CGROUP_ROOT] then (Err ''mounting cgroup2'', cg)
      else if \<not> go_mkdir go TRACEFS_MOUNT then (Err (''creating '' @ TRACEFS_MOUNT), cg)
      else if \<not> go_run go ''/bin/mount'' [''-t'', ''tracefs'', ''tracefs'', TRACEFS_MOUNT] then (Err ''mounting tracefs'', cg)
      else if \<not> go_write go (CGROUP_ROOT @ ''/cgroup.subtree_control'') then (Err ''enabling the memory controller on the cgroup2 root'', cg)
      else
        let cg = cg\<lparr>cg_files := (cg_files cg)(CGROUP_ROOT @ ''/cgroup.subtree_control'' \<mapsto> ''+memory'')\<rparr> in
        case set_delegate_xattr go CGROUP_ROOT of
          Err e \<Rightarrow> (Err e, cg)
        | Panic \<Rightarrow> (Panic, cg)
        | Ok _ \<Rightarrow>
            if \<not> go_mkdir go BUILD_CGROUP then (Err (''creating '' @ BUILD_CGROUP), cg)
            else if \<not> go_write go (BUILD_CGROUP @ ''/memory.max'') then (Err ''setting the build cgroup's memory.max'', cg)
            else
              let memory_max = (case build_cgroup_memory_max (go_meminfo go) of Some m \<Rightarrow> m | None \<Rightarrow> - 1)
              in (Ok (), cg\<lparr>cg_files := (cg_files cg)(BUILD_CGROUP @ ''/memory.max'' \<mapsto> show_nat (unat memory_max))\<rparr>))"

definition move_into_build_cgroup :: "guest_outside \<Rightarrow> u32 \<Rightarrow> cgroup_state \<Rightarrow> (string, unit) res \<times> cgroup_state" where
  "move_into_build_cgroup go pid cg =
     (if go_write go (BUILD_CGROUP @ ''/cgroup.procs'') then (Ok (), cg\<lparr>cg_procs := cg_procs cg @ [pid]\<rparr>)
      else (Err (''moving pid '' @ show_nat (unat pid) @ '' into '' @ BUILD_CGROUP), cg))"

text \<open>What the kernel shows of the group: a process per line.\<close>

definition procs_text :: "u32 list \<Rightarrow> string" where
  "procs_text pids = concat (map (\<lambda>pid. show_nat (unat pid) @ [newline]) pids)"

text \<open>The steps of loading and attaching the kernel programs, by what each reports when it fails.\<close>

definition ebpf_steps :: "string list" where
  "ebpf_steps =
     [''loading guest-agent-ebpf bytecode'',
      ''oom_mark_victim program missing from bytecode'', ''oom_mark_victim is not a tracepoint program'', ''loading oom_mark_victim'',
      ''attaching oom_mark_victim to oom:mark_victim'',
      ''errseq_set program missing from bytecode'', ''errseq_set is not a kprobe program'', ''loading errseq_set kprobe'', ''attaching errseq_set kprobe'',
      ''vfs_write_ret program missing from bytecode'', ''vfs_write_ret is not a kprobe program'', ''loading vfs_write_ret kretprobe'',
      ''attaching vfs_write_ret kretprobe'',
      ''OOM_VICTIM_PID map missing from bytecode'', ''opening OOM_VICTIM_PID map'', ''ENOSPC_FLAG map missing from bytecode'', ''opening ENOSPC_FLAG map'']"

definition detection_setup :: "guest_outside \<Rightarrow> (string, detection) res" where
  "detection_setup go = (case find (\<lambda>step. \<not> go_ebpf go step) ebpf_steps of Some step \<Rightarrow> Err step | None \<Rightarrow> Ok detection_start)"

definition run_guest :: "guest_outside \<Rightarrow> guest_cmd list \<Rightarrow> bool" where
  "run_guest go cmds = fst (run_cmds (\<lambda>c g. (case c of Exec bin args \<Rightarrow> go_run go bin args | Mkdir dir \<Rightarrow> go_mkdir go dir, g)) cmds ())"

definition guest_mounts :: "(string \<times> string) list" where
  "guest_mounts = [(''proc'', ''/proc''), (''sysfs'', ''/sys''), (''devpts'', ''/dev/pts''), (''tmpfs'', ''/tmp''), (''tmpfs'', ''/nix/var'')]"

definition failed :: "bool \<Rightarrow> string \<Rightarrow> string list" where
  "failed ok message = (if ok then [] else [message])"

definition mount_all :: "guest_outside \<Rightarrow> string list" where
  "mount_all go =
     failed (go_run go ''/bin/mount'' [''-t'', ''devtmpfs'', ''devtmpfs'', ''/dev'']) ''mounting devtmpfs at /dev failed'' @
     concat (map (\<lambda>(fstype, target).
         failed (go_mkdir go target) (''creating '' @ target @ '' failed'') @
         failed (go_run go ''/bin/mount'' [''-t'', fstype, fstype, target]) (''mounting '' @ fstype @ '' at '' @ target @ '' failed'')) guest_mounts)"

definition NIX_DAEMON_PORT :: u32 where "NIX_DAEMON_PORT = 620"
definition CONTROL_PORT :: u32 where "CONTROL_PORT = 621"
definition LOG_PORT :: u32 where "LOG_PORT = 622"

record guest_agent =
  ag_context :: control_context
  ag_cgroup :: cgroup_state
  ag_complaints :: "string list"

text \<open>The arguments of a diagnostic child, and otherwise the start-up up to the accept loops.\<close>

datatype agent_start = OomVictim | FillStore string | NotBound string | Listening guest_agent

definition bind_ports :: "guest_outside \<Rightarrow> (string, unit) res" where
  "bind_ports go =
     (if \<not> go_bind go NIX_DAEMON_PORT then Err ''binding vsock listener''
      else if \<not> go_bind go CONTROL_PORT then Err ''binding control vsock listener''
      else if \<not> go_bind go LOG_PORT then Err ''binding log vsock listener''
      else Ok ())"

definition guest_main :: "guest_outside \<Rightarrow> string list \<Rightarrow> cgroup_state \<Rightarrow> agent_start" where
  "guest_main go args cg =
     (if length args > 1 \<and> args ! 1 = ''--diag-oom-victim'' then OomVictim
      else if length args > 1 \<and> args ! 1 = ''--diag-fill-store'' then
        FillStore (if length args > 2 then args ! 2 else ''/nix/store/.kubernix-enospc-test'')
      else
        let mounting = mount_all go;
            (grouped, cg) = cgroup_setup go cg;
            detection = detection_setup go;
            network = run_guest go configure_network
        in case bind_ports go of
             Err e \<Rightarrow> NotBound e
           | Panic \<Rightarrow> NotBound ''panic''
           | Ok _ \<Rightarrow>
               Listening \<lparr>ag_context = \<lparr>cc_detection = (case detection of Ok d \<Rightarrow> Some d | _ \<Rightarrow> None), cc_substituters = [], cc_extra_ca = []\<rparr>,
                 ag_cgroup = cg,
                 ag_complaints = mounting @ (case grouped of Err e \<Rightarrow> [''cgroup setup failed: '' @ e] | _ \<Rightarrow> []) @
                   (case detection of Err e \<Rightarrow> [''eBPF detection setup failed: '' @ e] | _ \<Rightarrow> []) @
                   failed network ''network configuration failed''\<rparr>)"

subsection \<open>One connection\<close>

text \<open>
  A connection runs until one direction of the relay ends; then it waits for the daemon, unless the
  relay failed. What is still to be relayed in the other direction is dropped. \<open>None\<close> is a connection
  that goes on.
\<close>

record relay =
  rl_in :: "((string, bytes) res \<times> bool) list"
  rl_out :: "((string, bytes) res \<times> bool) list"
  rl_in_first :: bool
  rl_daemon_exits :: bool

definition relay_result :: "relay \<Rightarrow> (string, u64) res option" where
  "relay_result rl =
     (case (copy_and_log (rl_in rl) 0 [], copy_and_log (rl_out rl) 0 []) of
        (None, None) \<Rightarrow> None
      | (Some (r, _), None) \<Rightarrow> Some (map_err (\<lambda>_. ''relaying vsock -> nix-daemon'') r)
      | (None, Some (r, _)) \<Rightarrow> Some (map_err (\<lambda>_. ''relaying nix-daemon -> vsock'') r)
      | (Some (r, _), Some (r', _)) \<Rightarrow>
          Some (if rl_in_first rl then map_err (\<lambda>_. ''relaying vsock -> nix-daemon'') r
                else map_err (\<lambda>_. ''relaying nix-daemon -> vsock'') r'))"

definition serve_connection ::
  "guest_outside \<Rightarrow> guest_agent \<Rightarrow> (string \<rightharpoonup> bytes) \<Rightarrow> bool \<Rightarrow> u32 option \<Rightarrow> relay \<Rightarrow> (report, unit) res option \<times> cgroup_state" where
  "serve_connection go ag files writable child rl =
     (case fst (spawn_nix_daemon (ag_context ag) files writable) of
        Err e \<Rightarrow> (Some (Err e), ag_cgroup ag)
      | Panic \<Rightarrow> (Some Panic, ag_cgroup ag)
      | Ok _ \<Rightarrow>
          let cg = (case (cc_detection (ag_context ag), child) of
                (Some _, Some pid) \<Rightarrow> snd (move_into_build_cgroup go pid (ag_cgroup ag)) | _ \<Rightarrow> ag_cgroup ag)
          in case relay_result rl of
               None \<Rightarrow> (None, cg)
             | Some (Err e) \<Rightarrow> (Some (Err [OpaqueCause e]), cg)
             | Some Panic \<Rightarrow> (Some Panic, cg)
             | Some (Ok _) \<Rightarrow> (if rl_daemon_exits rl then Some (Ok ()) else None, cg))"

subsection \<open>Diagnostics\<close>

text \<open>
  The filler writes four mebibytes at a time and gives up after the first failure or 4096 writes. The
  out-of-memory trigger starts a child that is moved into the group of builds.
\<close>

fun fill_writes :: "nat \<Rightarrow> bool list \<Rightarrow> u64 \<Rightarrow> u64" where
  "fill_writes 0 oks written_mb = written_mb"
| "fill_writes (Suc n) [] written_mb = written_mb"
| "fill_writes (Suc n) (ok # oks) written_mb = (if ok then fill_writes n oks (written_mb + 4) else written_mb)"

definition fill_store :: "bool \<Rightarrow> bool list \<Rightarrow> u64 option" where
  "fill_store created oks = (if \<not> created then None else Some (fill_writes 4096 oks 0))"

definition trigger_oom :: "guest_outside \<Rightarrow> (string, u32 option) res \<Rightarrow> cgroup_state \<Rightarrow> (string, unit) res \<times> cgroup_state" where
  "trigger_oom go spawned cg =
     (case spawned of
        Ok (Some pid) \<Rightarrow>
          (case move_into_build_cgroup go pid cg of (r, cg) \<Rightarrow> (map_err (\<lambda>_. ''moving the OOM diagnostic child into the build cgroup'') r, cg))
      | Ok None \<Rightarrow> (Ok (), cg)
      | Err _ \<Rightarrow> (Err ''spawning the OOM diagnostic child'', cg)
      | Panic \<Rightarrow> (Panic, cg))"


subsection \<open>Rounding\<close>

lemma bit_length_bounds: "n < 2 ^ bit_length n \<and> (0 < n \<longrightarrow> 2 ^ bit_length n \<le> 2 * n)"
proof (induction n rule: bit_length.induct)
  case (1 n)
  show ?case
  proof (cases "n = 0")
    case False
    then have "n div 2 < 2 ^ bit_length (n div 2)" and low: "0 < n div 2 \<Longrightarrow> 2 ^ bit_length (n div 2) \<le> 2 * (n div 2)"
      using 1 by simp_all
    then have "n < 2 ^ Suc (bit_length (n div 2))" by simp
    moreover have "2 ^ Suc (bit_length (n div 2)) \<le> 2 * n"
    proof (cases "n div 2 = 0")
      case True
      then have "bit_length (n div 2) = 0" by (simp add: bit_length.simps)
      then show ?thesis using False by simp
    next
      case False
      then show ?thesis using low by simp
    qed
    ultimately show ?thesis using False by (simp add: bit_length.simps [of n])
  qed (simp add: bit_length.simps)
qed

lemma nearest_multiple:
  fixes p q r w :: nat
  assumes "p = q * w + r" and "r < w" and "4503599627370496 * w \<le> p"
  shows "w \<le> 2 * r \<Longrightarrow> 9007199254740992 * ((q + 1) * w) \<le> 9007199254740993 * p \<and> 9007199254740992 * p \<le> 9007199254740992 * ((q + 1) * w) + p"
    and "2 * r \<le> w \<Longrightarrow> 9007199254740992 * (q * w) \<le> 9007199254740993 * p \<and> 9007199254740992 * p \<le> 9007199254740992 * (q * w) + p"
proof -
  have "(q + 1) * w = q * w + w" by simp
  then show "w \<le> 2 * r \<Longrightarrow> 9007199254740992 * ((q + 1) * w) \<le> 9007199254740993 * p \<and> 9007199254740992 * p \<le> 9007199254740992 * ((q + 1) * w) + p"
    using assms by linarith
  show "2 * r \<le> w \<Longrightarrow> 9007199254740992 * (q * w) \<le> 9007199254740993 * p \<and> 9007199254740992 * p \<le> 9007199254740992 * (q * w) + p"
    using assms by linarith
qed

lemma round53_error: "9007199254740992 * round53 p \<le> 9007199254740993 * p \<and> 9007199254740992 * p \<le> 9007199254740992 * round53 p + p"
proof (cases "p < 2 ^ 53")
  case False
  let ?e = "bit_length p - 53"
  have b: "p < 2 ^ bit_length p" "2 ^ bit_length p \<le> 2 * p" using bit_length_bounds [of p] False by auto
  then have "(2 :: nat) ^ 53 < 2 ^ bit_length p" using False by linarith
  then have "53 < bit_length p" by (rule power_less_imp_less_exp [rotated]) simp
  then have "(2 :: nat) ^ bit_length p = 2 ^ 53 * 2 ^ ?e" by (metis le_add_diff_inverse less_imp_le power_add)
  then have size: "4503599627370496 * 2 ^ ?e \<le> p" using b(2) by simp
  have split: "p = p div 2 ^ ?e * 2 ^ ?e + p mod 2 ^ ?e" "p mod 2 ^ ?e < 2 ^ ?e" by (simp only: div_mult_mod_eq, simp)
  note near = nearest_multiple [OF split size]
  show ?thesis
  proof (cases "2 ^ ?e < 2 * (p mod 2 ^ ?e) \<or> 2 * (p mod 2 ^ ?e) = 2 ^ ?e \<and> odd (p div 2 ^ ?e)")
    case True
    then have "round53 p = (p div 2 ^ ?e + 1) * 2 ^ ?e" using False unfolding round53_def Let_def by presburger
    moreover have "2 ^ ?e \<le> 2 * (p mod 2 ^ ?e)" using True by linarith
    ultimately show ?thesis using near(1) by presburger
  next
    case down: False
    then have "round53 p = p div 2 ^ ?e * 2 ^ ?e" using False unfolding round53_def Let_def by presburger
    moreover have "2 * (p mod 2 ^ ?e) \<le> 2 ^ ?e" using down by linarith
    ultimately show ?thesis using near(2) by presburger
  qed
qed (simp add: round53_def)

lemma memory_share_bounds: "100 * unat (memory_share mem) \<le> 91 * unat mem \<and> 89 * unat mem \<le> 100 * unat (memory_share mem) + 100"
proof -
  let ?t = "unat mem"
  let ?p = "round53 ?t"
  let ?m = "round53 (?p * BUILD_SHARE)"
  let ?x = "?m div 9007199254740992"
  note t = round53_error [of ?t] and m = round53_error [of "?p * BUILD_SHARE"]
  have x: "9007199254740992 * ?x \<le> ?m" "?m < 9007199254740992 * ?x + 9007199254740992" by linarith+
  have upper: "100 * ?x \<le> 91 * ?t" using t m x(1) unfolding BUILD_SHARE_def by linarith
  have lower: "89 * ?t \<le> 100 * ?x + 100" using t m x(2) unfolding BUILD_SHARE_def by linarith
  have "?t < 18446744073709551616" using unsigned_less [of mem] by simp
  then have "?x < 18446744073709551616" using upper by linarith
  then have "unat (memory_share mem) = ?x" by (simp add: memory_share_def unat_of_nat take_bit_eq_mod)
  then show ?thesis using upper lower by simp
qed


subsection \<open>Device numbers\<close>

lemma masked_low:
  fixes x :: u32
  assumes "take_bit n x = x"
  shows "x AND mask n = x" and "x AND NOT (mask n) = 0"
proof -
  show "x AND mask n = x" using assms by (simp add: take_bit_eq_mask)
  then have "x AND NOT (mask n) = x AND (mask n AND NOT (mask n))" by (metis and.assoc)
  then show "x AND NOT (mask n) = 0" by simp
qed

text \<open>
  Packing the two numbers is what the C library does for every major number below 4096 and every minor
  number below 256; a loop device beyond that would be given the number of another one.
\<close>

theorem makedev_small:
  assumes "major < 4096" and "minor < 256"
  shows "makedev major minor = glibc_makedev major minor"
proof -
  have "take_bit 12 major = major" "take_bit 8 minor = minor"
    using assms by (auto simp: word_unat_eq_iff unsigned_take_bit_eq take_bit_nat_eq_self word_less_nat_alt)
  note low = masked_low [OF this(1)] masked_low [OF this(2)]
  have masks: "(0xfff :: u32) = mask 12" "(0xfffff000 :: u32) = NOT (mask 12)" "(0xff :: u32) = mask 8" "(0xffffff00 :: u32) = NOT (mask 8)"
    by (simp_all add: mask_eq_exp_minus_1)
  show ?thesis unfolding makedev_def glibc_makedev_def masks low by simp
qed

lemma makedev_aliases: "makedev 7 256 = makedev 7 0 \<and> makedev 7 256 \<noteq> glibc_makedev 7 256"
  by (simp add: makedev_def glibc_makedev_def)


subsection \<open>The sequence of the first process\<close>

definition init_calls :: "nat \<Rightarrow> nat \<Rightarrow> nat \<Rightarrow> nat \<Rightarrow> string list \<Rightarrow> syscall list" where
  "init_calls ctl_fd loop_num backing_fd loop_fd argv =
     [SysMkdir ''/dev'', SysMknod ''/dev/loop-control'' S_IFCHR (makedev 10 237), SysOpen ''/dev/loop-control'' O_RDWR,
      SysLoopGetFree ctl_fd, SysClose ctl_fd, SysMknod (loop_path loop_num) S_IFBLK (makedev 7 (of_nat loop_num)),
      SysOpen ''/root.img'' O_RDONLY, SysOpen (loop_path loop_num) O_RDONLY,
      SysLoopConfigure loop_fd \<lparr>lp_fd = of_nat backing_fd, lp_flags = LO_FLAGS_READ_ONLY\<rparr>, SysClose backing_fd,
      SysMkdir ''/target'', SysMount (loop_path loop_num) ''/target'' (Some ''erofs'') MS_RDONLY, SysClose loop_fd,
      SysChdir ''/target'', SysMount ''.'' ''/'' None MS_MOVE, SysChroot ''.'', SysChdir ''/'', SysExecv ''/init'' argv]"

text \<open>A call whose failure does not end the process.\<close>

fun tolerated :: "syscall \<Rightarrow> sysret \<Rightarrow> bool" where
  "tolerated _ (Ret _) = True"
| "tolerated (SysMkdir _) (Errno e) = (e = EEXIST)"
| "tolerated (SysClose _) (Errno _) = True"
| "tolerated _ (Errno _) = False"

text \<open>The histories a process that goes on has behind it.\<close>

definition went_well :: "kernel \<Rightarrow> syscall list \<Rightarrow> bool" where
  "went_well k h \<longleftrightarrow> (\<forall>i < length h. tolerated (h ! i) (k (take i h) (h ! i)))"

definition went_wrong :: "kernel \<Rightarrow> syscall list \<Rightarrow> bool" where
  "went_wrong k h \<longleftrightarrow> h \<noteq> [] \<and> went_well k (butlast h) \<and> \<not> tolerated (last h) (k (butlast h) (last h))"

lemma went_well_Nil [simp]: "went_well k []"
  by (simp add: went_well_def)

lemma went_well_snoc [simp]: "went_well k (h @ [c]) \<longleftrightarrow> went_well k h \<and> tolerated c (k h c)"
  by (auto simp: went_well_def nth_append less_Suc_eq)

lemma went_wrong_snoc [simp]: "went_wrong k (h @ [c]) \<longleftrightarrow> went_well k h \<and> \<not> tolerated c (k h c)"
  by (simp add: went_wrong_def)

text \<open>One step of the process: it goes on after a tolerated call, and the others end it.\<close>

definition steps :: "kernel \<Rightarrow> 'a init \<Rightarrow> syscall \<Rightarrow> ('a \<Rightarrow> sysret \<Rightarrow> bool) \<Rightarrow> bool" where
  "steps k m c P \<longleftrightarrow>
     (\<forall>h. snd (m h) = h @ [c] \<and>
       (case fst (m h) of Ok x \<Rightarrow> tolerated c (k h c) \<and> P x (k h c) | Err _ \<Rightarrow> \<not> tolerated c (k h c) | Panic \<Rightarrow> False))"

lemma init_steps:
  "steps k (init_mkdir k p) (SysMkdir p) (\<lambda>_ _. True)"
  "steps k (init_close fd) (SysClose fd) (\<lambda>_ _. True)"
  "(\<And>e. \<not> tolerated c (Errno e)) \<Longrightarrow> steps k (or_die k c what) c (\<lambda>n r. r = Ret n)"
  by (auto simp: steps_def init_mkdir_def init_close_def or_die_def split: sysret.splits) (metis tolerated.simps(1,3) sysret.exhaust)+


text \<open>How the process ends: after the whole sequence, or at the first call that failed.\<close>

definition init_ended :: "kernel \<Rightarrow> string list \<Rightarrow> (string, nat) res \<times> syscall list \<Rightarrow> bool" where
  "init_ended k argv rh \<longleftrightarrow>
     (\<exists>ctl_fd loop_num backing_fd loop_fd.
        prefix (snd rh) (init_calls ctl_fd loop_num backing_fd loop_fd argv) \<and>
        (case fst rh of
           Ok _ \<Rightarrow> snd rh = init_calls ctl_fd loop_num backing_fd loop_fd argv \<and> went_well k (snd rh)
         | Err _ \<Rightarrow> went_wrong k (snd rh)
         | Panic \<Rightarrow> False))"

lemma and_then_steps:
  assumes "steps k m c P" and "went_well k h"
    and "\<And>e. went_wrong k (h @ [c]) \<Longrightarrow> init_ended k argv (Err e, h @ [c])"
    and "\<And>x. went_well k (h @ [c]) \<Longrightarrow> init_ended k argv (f x (h @ [c]))"
  shows "init_ended k argv (and_then m f h)"
proof -
  obtain r where m: "m h = (r, h @ [c])" using assms(1) by (metis steps_def prod.collapse)
  have "case r of Ok x \<Rightarrow> tolerated c (k h c) | Err _ \<Rightarrow> \<not> tolerated c (k h c) | Panic \<Rightarrow> False"
    using assms(1) [unfolded steps_def, THEN spec, of h] m by (auto split: res.splits)
  then show ?thesis using assms(2-4) m by (cases r) (simp_all add: and_then_def)
qed

lemma last_steps:
  assumes "steps k m c P" and "went_well k h"
    and "\<And>e. went_wrong k (h @ [c]) \<Longrightarrow> init_ended k argv (Err e, h @ [c])"
    and "\<And>x. went_well k (h @ [c]) \<Longrightarrow> init_ended k argv (Ok x, h @ [c])"
  shows "init_ended k argv (m h)"
  using and_then_steps [where f = "\<lambda>x h. (Ok x, h)", OF assms] by (simp add: and_then_def split: prod.splits res.splits)

lemma loop_path_inject [simp]: "loop_path n = loop_path m \<longleftrightarrow> n = m"
  by (simp add: loop_path_def)

lemma init_ended_intros:
  "went_wrong k h \<Longrightarrow> prefix h (init_calls ctl_fd loop_num backing_fd loop_fd argv) \<Longrightarrow> init_ended k argv (Err e, h)"
  "went_well k h \<Longrightarrow> h = init_calls ctl_fd loop_num backing_fd loop_fd argv \<Longrightarrow> init_ended k argv (Ok n, h)"
  by (auto simp: init_ended_def)

lemma prefix_same: "prefix xs ys \<Longrightarrow> prefix (x # xs) (x # ys)"
  by simp

lemma guest_init_ended: "init_ended k argv (guest_init k argv [])"
  unfolding guest_init_def init_mknod_def init_open_def init_mount_def
  apply (insert went_well_Nil [of k])
  apply ((rule and_then_steps, (rule init_steps(1,2) | (rule init_steps(3), (simp; fail))), assumption,
      rule init_ended_intros(1), assumption, (simp only: append_Nil append_Cons init_calls_def), (rule prefix_same Nil_prefix)+)+)
  apply (rule last_steps, rule init_steps(3), simp, assumption, rule init_ended_intros(1), assumption,
      (simp only: append_Nil append_Cons init_calls_def), (rule prefix_same Nil_prefix)+)
  apply (rule init_ended_intros(2), assumption, simp only: append_Nil append_Cons init_calls_def)
  done


text \<open>
  The real init is executed only at the end of the whole sequence, from the image moved onto the root
  and with every descriptor closed again; before that the process ends at the first call that fails.
\<close>

theorem init_executes_last:
  assumes "guest_init k argv [] = (r, h)" and "SysExecv path args \<in> set h"
  shows "path = ''/init'' \<and> args = argv \<and>
    (\<exists>ctl_fd loop_num backing_fd loop_fd. h = init_calls ctl_fd loop_num backing_fd loop_fd argv) \<and> went_well k (butlast h)"
proof -
  obtain a b c d where p: "prefix h (init_calls a b c d argv)"
    and e: "case r of Ok _ \<Rightarrow> h = init_calls a b c d argv \<and> went_well k h | Err _ \<Rightarrow> went_wrong k h | Panic \<Rightarrow> False"
    using guest_init_ended [of k argv] unfolding assms(1) init_ended_def fst_conv snd_conv by blast
  have last: "init_calls a b c d argv = butlast (init_calls a b c d argv) @ [SysExecv ''/init'' argv]"
    and others: "SysExecv path args \<notin> set (butlast (init_calls a b c d argv))" by (simp_all add: init_calls_def)
  have "prefix h (butlast (init_calls a b c d argv)) \<or> h = init_calls a b c d argv"
    using p last by (metis prefix_snoc)
  then have h: "h = init_calls a b c d argv" using others assms(2) by (meson set_mono_prefix subsetD)
  have "went_well k (butlast h)"
  proof (cases r)
    case (Ok n)
    then have "went_well k (butlast h @ [SysExecv ''/init'' argv])" using e h last by simp
    then show ?thesis by simp
  next
    case (Err m)
    then show ?thesis using e by (simp add: went_wrong_def)
  qed (use e in simp)
  moreover have "SysExecv path args = SysExecv ''/init'' argv" using assms(2) others h last by (metis UnE empty_iff empty_set list.set_cases set_ConsD set_append)
  ultimately show ?thesis using h by auto
qed

subsection \<open>Who belongs to the build\<close>

lemma show_nat_line: "newline \<notin> set (show_nat n)" "strip_suffix [char_of (13 :: nat)] (show_nat n) = None" "trim (show_nat n) = show_nat n"
proof -
  have t: "tidy (show_nat n)" by (rule graphic_tidy [OF show_nat_graphic])
  then show "newline \<notin> set (show_nat n)" by (simp add: tidy_def)
  have "char_of (13 :: nat) \<notin> set (show_nat n)" using show_nat_graphic [of n] by (auto simp: list_all_iff graphic_def)
  then show "strip_suffix [char_of (13 :: nat)] (show_nat n) = None"
    by (metis strip_suffix_iff in_set_conv_decomp not_None_eq)
  have "trim_start (show_nat n) = show_nat n" using t by (subst trim_start.simps) (auto simp: tidy_def ws_prefix_graphic)
  moreover have "trim_end (show_nat n) = show_nat n" using t by (subst trim_end.simps) (auto simp: tidy_def ws_suffix_graphic)
  ultimately show "trim (show_nat n) = show_nat n" by (simp add: trim_def)
qed

lemma in_build_cgroup_iff: "is_in_build_cgroup (Some (procs_text pids)) pid \<longleftrightarrow> pid \<in> set pids"
proof -
  have "str_lines (procs_text pids) = map (\<lambda>pid. show_nat (unat pid)) pids"
    unfolding procs_text_def using str_lines_concat [of "map (\<lambda>pid. show_nat (unat pid)) pids"] show_nat_line by (simp add: comp_def)
  then show ?thesis by (auto simp: is_in_build_cgroup_def list_ex_iff show_nat_line(3) word_unat_eq_iff [symmetric])
qed


subsection \<open>What a guest that came up guarantees\<close>

lemma cgroup_setup_procs: "cg_procs (snd (cgroup_setup go cg)) = cg_procs cg"
  by (simp add: cgroup_setup_def Let_def split: res.splits)

text \<open>
  C23: The limit written for builds follows the memory the kernel reports: whatever the rounding of the
  floating-point product does, it stays below 91 percent of the memory and reaches 89 percent of it up
  to one byte, so a tenth is left for the agent and the daemon around the build.
\<close>

theorem build_limit_leaves_headroom:
  assumes "cgroup_setup go cg = (Ok (), cg')" and "go_meminfo go = Some contents"
    and "find (\<lambda>l. prefix ''MemTotal:'' l) (str_lines contents) = Some line" and "split_whitespace line = label # value # rest"
    and "parse_u64 value = Some kb" and "unat kb < 2 ^ 54"
  shows "\<exists>limit. cg_files cg' (BUILD_CGROUP @ ''/memory.max'') = Some (show_nat limit) \<and>
    100 * limit \<le> 91 * (1024 * unat kb) \<and> 89 * (1024 * unat kb) \<le> 100 * limit + 100"
proof -
  have m: "build_cgroup_memory_max (go_meminfo go) = Some (memory_share (kb * 1024))"
    using assms(2-5) by (simp add: build_cgroup_memory_max_def)
  then have "cg_files cg' (BUILD_CGROUP @ ''/memory.max'') = Some (show_nat (unat (memory_share (kb * 1024))))"
    using assms(1) by (auto simp: cgroup_setup_def Let_def split: if_splits res.splits)
  moreover have "unat (kb * 1024) = 1024 * unat kb" using assms(6) by (simp add: unat_word_ariths)
  ultimately show ?thesis using memory_share_bounds [of "kb * 1024"] by auto
qed

definition ex_guest :: guest_outside where
  "ex_guest = \<lparr>go_run = (\<lambda>_ _. True), go_mkdir = (\<lambda>_. True), go_write = (\<lambda>_. True), go_xattr = (\<lambda>_. True), go_ebpf = (\<lambda>_. True), go_bind = (\<lambda>_. True),
     go_meminfo = Some (''MemTotal: 1000 kB'' @ [newline])\<rparr>"

definition ex_group :: cgroup_state where
  "ex_group = \<lparr>cg_files = Map.empty, cg_procs = []\<rparr>"

theorem build_limit_leaves_headroom_witness:
  "\<exists>cg' limit. cgroup_setup ex_guest ex_group = (Ok (), cg') \<and> cg_files cg' (BUILD_CGROUP @ ''/memory.max'') = Some (show_nat limit) \<and>
    100 * limit \<le> 91 * (1024 * 1000) \<and> 89 * (1024 * 1000) \<le> 100 * limit + 100"
proof -
  obtain cg' where c: "cgroup_setup ex_guest ex_group = (Ok (), cg')"
    by (simp add: cgroup_setup_def ex_guest_def set_delegate_xattr_def Let_def)
  have l: "str_lines (''MemTotal: 1000 kB'' @ [newline]) = [''MemTotal: 1000 kB'']"
    using str_lines_concat [of "[''MemTotal: 1000 kB'']"] by (simp add: newline_def strip_suffix_def char_of_eq_iff)
  have w: "split_whitespace (join_with '' '' [''MemTotal:'', ''1000'', ''kB'']) = [''MemTotal:'', ''1000'', ''kB'']"
    by (rule split_whitespace_join) (simp add: graphic_def)
  have p: "parse_u64 ''1000'' = Some 1000" by (simp add: parse_u64_def is_dec_digit_def digits_val_def)
  show ?thesis
    using build_limit_leaves_headroom [OF c _ _ _ p, of "''MemTotal: 1000 kB'' @ [newline]" "''MemTotal: 1000 kB''" "''MemTotal:''" "[''kB'']"] c l w
    by (simp add: ex_guest_def)
qed

lemma detection_setup_Ok: "(\<exists>d. detection_setup go = Ok d) \<longleftrightarrow> (\<forall>step \<in> set ebpf_steps. go_ebpf go step)"
  by (auto simp: detection_setup_def find_None_iff split: option.splits dest: find_Some_mem)

lemma guest_main_listening:
  assumes "guest_main go args cg = Listening ag"
  shows "cg_procs (ag_cgroup ag) = cg_procs cg" and "(\<exists>d. cc_detection (ag_context ag) = Some d) \<longleftrightarrow> (\<exists>d. detection_setup go = Ok d)"
  using assms cgroup_setup_procs [of go cg]
  by (auto simp: guest_main_def Let_def split: if_splits prod.splits res.splits)

text \<open>
  C22: An agent that gets its three ports serves, whatever of its mounts, its control group, its kernel
  programs and its network failed. A daemon it starts is then attributed to the build, under the test
  the poller makes on the kernel's list, exactly if the kernel programs are attached and the move into
  the group worked; nobody else is added.
\<close>

theorem daemon_attributed_to_build:
  assumes "length args \<le> 1" and "bind_ports go = Ok ()"
  shows "\<exists>ag. guest_main go args cg = Listening ag \<and>
    (\<forall>files writable env pid rl q. fst (spawn_nix_daemon (ag_context ag) files writable) = Ok env \<longrightarrow>
      (is_in_build_cgroup (Some (procs_text (cg_procs (snd (serve_connection go ag files writable (Some pid) rl))))) q \<longleftrightarrow>
        q \<in> set (cg_procs cg) \<or>
        (q = pid \<and> (\<forall>step \<in> set ebpf_steps. go_ebpf go step) \<and> go_write go (BUILD_CGROUP @ ''/cgroup.procs''))))"
proof -
  have "\<exists>ag. guest_main go args cg = Listening ag" using assms by (cases "cgroup_setup go cg") (simp add: guest_main_def Let_def)
  then obtain ag where ag: "guest_main go args cg = Listening ag" by blast
  note start = guest_main_listening [OF ag]
  have "set (cg_procs (snd (serve_connection go ag files writable (Some pid) rl))) =
      set (cg_procs cg) \<union> (if (\<forall>step \<in> set ebpf_steps. go_ebpf go step) \<and> go_write go (BUILD_CGROUP @ ''/cgroup.procs'') then {pid} else {})"
    if "fst (spawn_nix_daemon (ag_context ag) files writable) = Ok env" for files writable env pid rl
    using that start detection_setup_Ok [of go]
    by (auto simp: serve_connection_def move_into_build_cgroup_def Let_def split: option.splits res.splits)
  note members = this
  show ?thesis unfolding in_build_cgroup_iff
  proof (intro exI conjI allI impI, rule ag)
    fix files writable env pid rl q
    assume "fst (spawn_nix_daemon (ag_context ag) files writable) = Ok env"
    note members [OF this, of pid rl]
    then show "q \<in> set (cg_procs (snd (serve_connection go ag files writable (Some pid) rl))) \<longleftrightarrow>
        q \<in> set (cg_procs cg) \<or> (q = pid \<and> (\<forall>step \<in> set ebpf_steps. go_ebpf go step) \<and> go_write go (BUILD_CGROUP @ ''/cgroup.procs''))"
      by (auto split: if_splits)
  qed
qed

theorem daemon_attributed_to_build_witness:
  "\<exists>ag. guest_main ex_guest [''/init''] ex_group = Listening ag \<and>
    is_in_build_cgroup (Some (procs_text (cg_procs (snd (serve_connection ex_guest ag Map.empty True (Some 42)
      \<lparr>rl_in = [(Ok [], True)], rl_out = [], rl_in_first = True, rl_daemon_exits = True\<rparr>))))) 42"
proof -
  obtain ag where ag: "guest_main ex_guest [''/init''] ex_group = Listening ag"
    and all: "\<forall>files writable env pid rl q. fst (spawn_nix_daemon (ag_context ag) files writable) = Ok env \<longrightarrow>
      (is_in_build_cgroup (Some (procs_text (cg_procs (snd (serve_connection ex_guest ag files writable (Some pid) rl))))) q \<longleftrightarrow>
        q \<in> set (cg_procs ex_group) \<or>
        (q = pid \<and> (\<forall>step \<in> set ebpf_steps. go_ebpf ex_guest step) \<and> go_write ex_guest (BUILD_CGROUP @ ''/cgroup.procs'')))"
    using daemon_attributed_to_build [of "[''/init'']" ex_guest ex_group] by (auto simp: ex_guest_def bind_ports_def)
  have "cc_extra_ca (ag_context ag) = []" using ag by (auto simp: guest_main_def Let_def split: if_splits prod.splits res.splits)
  then have "\<exists>env. fst (spawn_nix_daemon (ag_context ag) Map.empty True) = Ok env" by (simp add: spawn_nix_daemon_def merged_ca_bundle_path_def)
  then show ?thesis using ag all by (auto simp: ex_guest_def)
qed

text \<open>The filler writes at most sixteen gibibytes, and says how much: four mebibytes for every write before the first that failed.\<close>

lemma fill_writes_takeWhile: "fill_writes n oks w = w + 4 * of_nat (length (takeWhile id (take n oks)))"
  by (induction n oks w rule: fill_writes.induct) (auto simp: algebra_simps)

theorem fill_store_bounded:
  assumes "fill_store True oks = Some mb"
  shows "unat mb = 4 * length (takeWhile id (take 4096 oks)) \<and> unat mb \<le> 16384"
proof -
  let ?n = "length (takeWhile id (take 4096 oks))"
  have "?n \<le> 4096" using length_takeWhile_le [of id "take 4096 oks"] by simp
  moreover have "mb = of_nat (4 * ?n)" using assms by (simp add: fill_store_def fill_writes_takeWhile)
  ultimately have "unat mb = 4 * ?n" unfolding unat_of_nat take_bit_eq_mod by (simp only: unat_of_nat take_bit_eq_mod) simp
  then show ?thesis using \<open>?n \<le> 4096\<close> by simp
qed

end
