(* ===== verification/Launcher.thy ===== *)
theory Launcher
  imports Vm
begin

text \<open>
  How a machine is started on the host: \<open>CloudHypervisorLauncher\<close>, the privilege drop and the directory
  layout of \<open>worker/src/vm.rs\<close>, over a file system with owners and modes and a list of running
  processes. Shown here: a boot that fails leaves no process behind and one that succeeds runs both
  processes as the tenant's uid without any group or capability; boot by boot this is the abstract
  launcher the pool of \<open>Vm\<close> is proved over; and the processes of one tenant can neither find, read nor
  remove what another tenant's machine created.
\<close>

subsection \<open>Credentials\<close>

text \<open>Only the superuser may change its identity; giving that up clears the capabilities.\<close>

record credentials =
  cr_uid :: u32
  cr_gid :: u32
  cr_groups :: "u32 list"
  cr_dac_override :: bool

definition setgroups :: "u32 list \<Rightarrow> credentials \<Rightarrow> (string, credentials) res" where
  "setgroups gs cr = (if cr_uid cr = 0 then Ok (cr\<lparr>cr_groups := gs\<rparr>) else Err ''EPERM'')"

definition setgid :: "u32 \<Rightarrow> credentials \<Rightarrow> (string, credentials) res" where
  "setgid g cr = (if cr_uid cr = 0 \<or> cr_gid cr = g then Ok (cr\<lparr>cr_gid := g\<rparr>) else Err ''EPERM'')"

definition setuid :: "u32 \<Rightarrow> credentials \<Rightarrow> (string, credentials) res" where
  "setuid u cr =
     (if cr_uid cr = 0 \<or> cr_uid cr = u then Ok (cr\<lparr>cr_uid := u, cr_dac_override := (cr_dac_override cr \<and> u = 0)\<rparr>) else Err ''EPERM'')"

definition drop_privileges :: "u32 \<Rightarrow> u32 \<Rightarrow> credentials \<Rightarrow> (string, credentials) res" where
  "drop_privileges uid gid cr =
     bind_res (setgroups [] cr) (\<lambda>cr. bind_res (setgid gid cr) (\<lambda>cr. setuid uid cr))"

subsection \<open>Files\<close>

record inode =
  in_uid :: u32
  in_gid :: u32
  in_mode :: u32
  in_size :: u64

type_synonym file_system = "string \<rightharpoonup> inode"

text \<open>The class a process falls into decides alone; the bits are read, write and search.\<close>

definition perm_class :: "credentials \<Rightarrow> inode \<Rightarrow> nat" where
  "perm_class cr i =
     (if cr_uid cr = in_uid i then 6 else if in_gid i = cr_gid cr \<or> in_gid i \<in> set (cr_groups cr) then 3 else 0)"

definition allows :: "credentials \<Rightarrow> nat \<Rightarrow> inode \<Rightarrow> bool" where
  "allows cr k i \<longleftrightarrow> cr_dac_override cr \<or> bit (in_mode i) (perm_class cr i + k)"

definition may :: "credentials \<Rightarrow> nat \<Rightarrow> file_system \<Rightarrow> string \<Rightarrow> bool" where
  "may cr k fs p \<longleftrightarrow> (case fs p of Some i \<Rightarrow> allows cr k i | None \<Rightarrow> False)"

definition may_list :: "credentials \<Rightarrow> file_system \<Rightarrow> string \<Rightarrow> bool" where
  "may_list cr fs dir \<longleftrightarrow> may cr 2 fs dir"

definition may_create :: "credentials \<Rightarrow> file_system \<Rightarrow> string list \<Rightarrow> string \<Rightarrow> bool" where
  "may_create cr fs parents dir \<longleftrightarrow> (\<forall>d \<in> set parents. may cr 0 fs d) \<and> may cr 0 fs dir \<and> may cr 1 fs dir"

definition may_open :: "credentials \<Rightarrow> file_system \<Rightarrow> string list \<Rightarrow> string \<Rightarrow> bool" where
  "may_open cr fs dirs file \<longleftrightarrow> (\<forall>d \<in> set dirs. may cr 0 fs d) \<and> (may cr 2 fs file \<or> may cr 1 fs file)"

text \<open>In a sticky directory only the owner of the file or of the directory may take an entry away.\<close>

definition may_unlink :: "credentials \<Rightarrow> file_system \<Rightarrow> string list \<Rightarrow> string \<Rightarrow> string \<Rightarrow> bool" where
  "may_unlink cr fs parents dir file \<longleftrightarrow>
     may_create cr fs parents dir \<and>
     (case (fs dir, fs file) of
        (Some d, Some f) \<Rightarrow> bit (in_mode d) 9 \<longrightarrow> cr_uid cr = in_uid f \<or> cr_uid cr = in_uid d
      | _ \<Rightarrow> False)"

subsection \<open>The directory of a tenant\<close>

definition tenants_dir :: "string \<Rightarrow> string" where
  "tenants_dir state_dir = state_dir @ ''/tenants''"

definition tenant_dir :: "string \<Rightarrow> tenant_id \<Rightarrow> string" where
  "tenant_dir state_dir t = tenants_dir state_dir @ ''/'' @ tid_str t"

text \<open>A directory that exists is left as it is; a new one gets what the mask of the process leaves.\<close>

definition create_dir_all :: "(string \<Rightarrow> bool) \<Rightarrow> credentials \<Rightarrow> string \<Rightarrow> file_system \<Rightarrow> (string, unit) res \<times> file_system" where
  "create_dir_all io cr dir fs =
     (if fs dir \<noteq> None then (Ok (), fs)
      else if io (''mkdir '' @ dir) then (Ok (), fs(dir \<mapsto> \<lparr>in_uid = cr_uid cr, in_gid = cr_gid cr, in_mode = 0x1ED, in_size = 0\<rparr>))
      else (Err (''creating '' @ dir), fs))"

definition set_permissions :: "(string \<Rightarrow> bool) \<Rightarrow> credentials \<Rightarrow> string \<Rightarrow> u32 \<Rightarrow> file_system \<Rightarrow> (string, unit) res \<times> file_system" where
  "set_permissions io cr p mode fs =
     (case fs p of
        Some i \<Rightarrow> if io (''chmod '' @ p) \<and> cr_uid cr = in_uid i then (Ok (), fs(p \<mapsto> i\<lparr>in_mode := mode\<rparr>)) else (Err (''chmod '' @ p), fs)
      | None \<Rightarrow> (Err (''chmod '' @ p), fs))"

definition bind_fs :: "(string, 'a) res \<times> 's \<Rightarrow> ('a \<Rightarrow> 's \<Rightarrow> (string, 'b) res \<times> 's) \<Rightarrow> (string, 'b) res \<times> 's" where
  "bind_fs m f = (case m of (Ok x, s) \<Rightarrow> f x s | (Err e, s) \<Rightarrow> (Err e, s) | (Panic, s) \<Rightarrow> (Panic, s))"

text \<open>The modes, in octal, are 701 and 1703; a new directory has 755 and the image 600.\<close>

definition prepare_tenant_dir :: "(string \<Rightarrow> bool) \<Rightarrow> credentials \<Rightarrow> string \<Rightarrow> tenant_id \<Rightarrow> file_system \<Rightarrow> (string, string) res \<times> file_system" where
  "prepare_tenant_dir io cr state_dir t fs =
     (let all = tenants_dir state_dir; own = tenant_dir state_dir t in
      bind_fs (create_dir_all io cr all fs) (\<lambda>_ fs.
      bind_fs (set_permissions io cr all 0x1C1 fs) (\<lambda>_ fs.
      bind_fs (create_dir_all io cr own fs) (\<lambda>_ fs.
      bind_fs (set_permissions io cr own 0x3C3 fs) (\<lambda>_ fs. (Ok own, fs))))))"

definition wipe_store_image :: "(string \<Rightarrow> bool) \<Rightarrow> string \<Rightarrow> file_system \<Rightarrow> (string, unit) res \<times> file_system" where
  "wipe_store_image io img fs =
     (if fs img \<noteq> None \<and> io (''unlink '' @ img) then (Ok (), fs(img := None)) else (Err (''removing '' @ img), fs))"

subsection \<open>Starting and stopping a machine\<close>

text \<open>
  The image is created in the forked child, after the drop; that the entry must not exist yet is part
  of creating it.
\<close>

definition drop_privileges_and_maybe_create_store_img ::
  "(string \<Rightarrow> bool) \<Rightarrow> string \<Rightarrow> tenant_id \<Rightarrow> u32 \<Rightarrow> u32 \<Rightarrow> bool \<Rightarrow> u64 \<Rightarrow> credentials \<Rightarrow> file_system \<Rightarrow> (string, credentials) res \<times> file_system" where
  "drop_privileges_and_maybe_create_store_img io state_dir t uid gid fresh size_mb cr fs =
     (case drop_privileges uid gid cr of
        Err e \<Rightarrow> (Err e, fs)
      | Panic \<Rightarrow> (Panic, fs)
      | Ok cr \<Rightarrow>
          if \<not> fresh then (Ok cr, fs)
          else
            let img = store_img_path state_dir t in
            if fs img \<noteq> None \<or> \<not> may_create cr fs [state_dir, tenants_dir state_dir] (tenant_dir state_dir t) \<or> \<not> io ''create store.img''
            then (Err ''create store.img'', fs)
            else
              let i = \<lparr>in_uid = cr_uid cr, in_gid = cr_gid cr, in_mode = 0x180, in_size = 0\<rparr> in
              if io ''size store.img'' then (Ok cr, fs(img \<mapsto> i\<lparr>in_size := size_mb * 1024 * 1024\<rparr>))
              else (Err ''size store.img'', fs(img \<mapsto> i)))"

text \<open>
  A process that runs: its program and who it runs as. Dropping the handle of a child that was not
  handed out kills it.
\<close>

type_synonym process_list = "(string \<times> credentials) list"

record launched_vm =
  lv_child :: "string \<times> credentials"
  lv_passt_child :: "(string \<times> credentials) option"

definition kill_child :: "string \<times> credentials \<Rightarrow> process_list \<Rightarrow> process_list" where
  "kill_child c ps = remove1 c ps"

text \<open>A log file belongs to the worker, which opens it for the child; an old one is truncated.\<close>

definition open_log :: "(string \<Rightarrow> bool) \<Rightarrow> credentials \<Rightarrow> string \<Rightarrow> string \<Rightarrow> file_system \<Rightarrow> (string, unit) res \<times> file_system" where
  "open_log io cr dir name fs =
     (let p = dir @ ''/'' @ name in
      if \<not> io (''create '' @ name) then (Err (''creating '' @ p), fs)
      else
        let i = (case fs p of Some i \<Rightarrow> i\<lparr>in_size := 0\<rparr> | None \<Rightarrow> \<lparr>in_uid = cr_uid cr, in_gid = cr_gid cr, in_mode = 0x1A4, in_size = 0\<rparr>) in
        (if io (''clone '' @ name) then Ok () else Err ''cloning the log file handle'', fs(p \<mapsto> i)))"

definition launch ::
  "(string \<Rightarrow> bool) \<Rightarrow> credentials \<Rightarrow> string \<Rightarrow> tenant_id \<Rightarrow> u32 \<Rightarrow> u32 \<Rightarrow> bool \<Rightarrow> u64 \<Rightarrow> file_system \<times> process_list \<Rightarrow>
   (string, launched_vm) res \<times> file_system \<times> process_list" where
  "launch io worker state_dir t uid gid fresh size_mb st =
     (case st of (fs, ps) \<Rightarrow>
      let dir = tenant_dir state_dir t;
        fs = (if io ''unlink net.sock'' then fs(dir @ ''/net.sock'' := None) else fs) in
      case open_log io worker dir ''passt.log'' fs of
        (Err e, fs) \<Rightarrow> (Err e, fs, ps)
      | (Panic, fs) \<Rightarrow> (Panic, fs, ps)
      | (Ok _, fs) \<Rightarrow>
      (case drop_privileges uid gid worker of
        Err e \<Rightarrow> (Err ''spawning passt'', fs, ps)
      | Panic \<Rightarrow> (Panic, fs, ps)
      | Ok cr \<Rightarrow>
          if \<not> io ''exec passt'' then (Err ''spawning passt'', fs, ps)
          else
            let passt = (''passt'', cr); ps = passt # ps in
            if \<not> io ''net.sock'' then (Err ''timed out waiting for passt'', fs, kill_child passt ps)
            else case open_log io worker dir ''cloud-hypervisor.log'' fs of
              (Err e, fs) \<Rightarrow> (Err e, fs, kill_child passt ps)
            | (Panic, fs) \<Rightarrow> (Panic, fs, kill_child passt ps)
            | (Ok _, fs) \<Rightarrow>
            (case drop_privileges_and_maybe_create_store_img io state_dir t uid gid fresh size_mb worker fs of
              (Err e, fs) \<Rightarrow> (Err ''spawning cloud-hypervisor'', fs, kill_child passt ps)
            | (Panic, fs) \<Rightarrow> (Panic, fs, kill_child passt ps)
            | (Ok cr, fs) \<Rightarrow>
                if \<not> io ''exec cloud-hypervisor'' then (Err ''spawning cloud-hypervisor'', fs, kill_child passt ps)
                else
                  let child = (''cloud-hypervisor'', cr); ps = child # ps in
                  if io ''vsock ready'' then (Ok \<lparr>lv_child = child, lv_passt_child = Some passt\<rparr>, fs, ps)
                  else (Err ''guest-agent handshake failed'', fs, kill_child passt (kill_child child ps)))))"

definition stop_vm :: "launched_vm \<Rightarrow> process_list \<Rightarrow> process_list" where
  "stop_vm vm ps =
     (let ps = kill_child (lv_child vm) ps in case lv_passt_child vm of Some passt \<Rightarrow> kill_child passt ps | None \<Rightarrow> ps)"

text \<open>The device every hypervisor opens is made accessible to all, if that works.\<close>

definition ensure_kvm_world_writable :: "(string \<Rightarrow> bool) \<Rightarrow> credentials \<Rightarrow> file_system \<Rightarrow> file_system" where
  "ensure_kvm_world_writable io cr fs = snd (set_permissions io cr ''/dev/kvm'' 0x1B6 fs)"

text \<open>How far a boot gets, as the pool sees it.\<close>

definition boot_point :: "(string \<Rightarrow> bool) \<Rightarrow> bool \<Rightarrow> boot_result" where
  "boot_point io fresh =
     (if \<not> (io ''create passt.log'' \<and> io ''clone passt.log'' \<and> io ''exec passt'' \<and> io ''net.sock'' \<and>
          io ''create cloud-hypervisor.log'' \<and> io ''clone cloud-hypervisor.log'') then EarlyFailure
      else if fresh \<and> \<not> io ''create store.img'' then DropFailed
      else if (fresh \<and> \<not> io ''size store.img'') \<or> \<not> io ''exec cloud-hypervisor'' then ExecFailed
      else if \<not> io ''vsock ready'' then NotReady
      else Booted)"

text \<open>Polling for a socket: what each look finds, and how many looks fit into the timeout.\<close>

definition wait_for_socket :: "bool list \<Rightarrow> nat \<Rightarrow> bool" where
  "wait_for_socket looks budget \<longleftrightarrow> list_ex id (take budget looks)"


subsection \<open>Who the processes of a machine run as\<close>

definition tenant_creds :: "u32 \<Rightarrow> u32 \<Rightarrow> credentials" where
  "tenant_creds uid gid = \<lparr>cr_uid = uid, cr_gid = gid, cr_groups = [], cr_dac_override = False\<rparr>"

lemma tenant_creds_simps [simp]:
  "cr_uid (tenant_creds uid gid) = uid" "cr_gid (tenant_creds uid gid) = gid" "cr_groups (tenant_creds uid gid) = []"
  "\<not> cr_dac_override (tenant_creds uid gid)"
  by (simp_all add: tenant_creds_def)

lemma drop_from_root: "cr_uid cr = 0 \<Longrightarrow> uid \<noteq> 0 \<Longrightarrow> drop_privileges uid gid cr = Ok (tenant_creds uid gid)"
  by (simp add: drop_privileges_def setgroups_def setgid_def setuid_def tenant_creds_def)

text \<open>In any other order the drop would not work: who has given up the superuser keeps its groups.\<close>

lemma dropped_keeps_groups: "uid \<noteq> 0 \<Longrightarrow> bind_res (setuid uid cr) (\<lambda>cr. setgroups [] cr) \<noteq> Ok cr'"
  by (auto simp: setuid_def setgroups_def bind_res_Ok_iff split: if_splits)

lemmas launch_defs = launch_def drop_privileges_and_maybe_create_store_img_def drop_from_root kill_child_def open_log_def Let_def

text \<open>
  A boot that fails leaves no process behind. One that succeeds has started two, both as the tenant
  and without any group or capability, and stopping the machine ends exactly these.
\<close>

theorem launch_processes:
  assumes "cr_uid worker = 0" and "uid \<noteq> 0" and "launch io worker state_dir t uid gid fresh size_mb (fs, ps) = (r, fs', ps')"
  shows "case r of
      Ok vm \<Rightarrow> ps' = [(''cloud-hypervisor'', tenant_creds uid gid), (''passt'', tenant_creds uid gid)] @ ps \<and> stop_vm vm ps' = ps
    | Err _ \<Rightarrow> ps' = ps
    | Panic \<Rightarrow> False"
  using assms by (auto simp: launch_defs stop_vm_def split: if_splits res.splits prod.splits)

subsection \<open>What other tenants can reach\<close>

text \<open>The layout after a successful preparation: the directories belong to the worker.\<close>

definition layout :: "credentials \<Rightarrow> string \<Rightarrow> tenant_id \<Rightarrow> file_system \<Rightarrow> bool" where
  "layout worker state_dir t fs \<longleftrightarrow>
     (\<exists>all own. fs (tenants_dir state_dir) = Some all \<and> in_uid all = cr_uid worker \<and> in_mode all = 0x1C1 \<and>
        fs (tenant_dir state_dir t) = Some own \<and> in_uid own = cr_uid worker \<and> in_mode own = 0x3C3)"

lemma dirs_differ: "tenant_dir state_dir t \<noteq> tenants_dir state_dir" "tenants_dir state_dir \<noteq> tenant_dir state_dir t"
  by (simp_all add: tenant_dir_def tenants_dir_def)

lemma img_differs: "store_img_path state_dir t \<noteq> tenants_dir state_dir" "store_img_path state_dir t \<noteq> tenant_dir state_dir t"
  "store_img_path state_dir t \<noteq> state_dir"
  by (simp_all add: store_img_path_def tenant_dir_def tenants_dir_def)

lemma prepare_layout:
  assumes "prepare_tenant_dir io worker state_dir t fs = (Ok d, fs')"
  shows "layout worker state_dir t fs'" and "d = tenant_dir state_dir t"
    and "p \<noteq> tenants_dir state_dir \<Longrightarrow> p \<noteq> tenant_dir state_dir t \<Longrightarrow> fs' p = fs p"
  using assms dirs_differ [of state_dir t]
  by (auto simp: prepare_tenant_dir_def bind_fs_def create_dir_all_def set_permissions_def layout_def Let_def
      split: if_splits option.splits prod.splits res.splits)


text \<open>Tenants are apart in both of their numbers, and neither is the worker's.\<close>

definition foreign :: "credentials \<Rightarrow> string \<Rightarrow> tenant_id \<Rightarrow> file_system \<Rightarrow> u32 \<Rightarrow> u32 \<Rightarrow> bool" where
  "foreign worker state_dir t fs uid gid \<longleftrightarrow> uid \<noteq> cr_uid worker \<and>
     (\<forall>d \<in> {tenants_dir state_dir, tenant_dir state_dir t}. \<forall>i. fs d = Some i \<longrightarrow> in_gid i \<noteq> gid)"

lemma layout_may:
  assumes "layout worker state_dir t fs" and "foreign worker state_dir t fs uid gid"
  shows "may (tenant_creds uid gid) 0 fs (tenants_dir state_dir)" "\<not> may (tenant_creds uid gid) 2 fs (tenants_dir state_dir)"
    "may (tenant_creds uid gid) 0 fs (tenant_dir state_dir t)" "may (tenant_creds uid gid) (Suc 0) fs (tenant_dir state_dir t)"
    "\<not> may (tenant_creds uid gid) 2 fs (tenant_dir state_dir t)"
  using assms unfolding layout_def foreign_def by (auto simp: may_def allows_def perm_class_def bit_numeral_rec(1))

lemma layout_create:
  assumes "layout worker state_dir t fs" and "foreign worker state_dir t fs uid gid" and "may (tenant_creds uid gid) 0 fs state_dir"
  shows "may_create (tenant_creds uid gid) fs [state_dir, tenants_dir state_dir] (tenant_dir state_dir t)"
  using layout_may [OF assms(1,2)] assms(3) by (simp add: may_create_def)


text \<open>The other files a launch touches, which lie beside the image.\<close>

definition scratch :: "string \<Rightarrow> tenant_id \<Rightarrow> string list" where
  "scratch state_dir t = map (\<lambda>n. tenant_dir state_dir t @ ''/'' @ n) [''net.sock'', ''passt.log'', ''cloud-hypervisor.log'']"

lemma scratch_differs:
  assumes "p \<in> set (scratch state_dir t)"
  shows "p \<noteq> state_dir" "p \<noteq> tenants_dir state_dir" "p \<noteq> tenant_dir state_dir t" "p \<noteq> store_img_path state_dir t"
  using assms by (auto simp: scratch_def tenant_dir_def tenants_dir_def store_img_path_def)

lemma may_create_cong:
  assumes "\<forall>d \<in> set (dir # parents). fs' d = fs d"
  shows "may_create cr fs' parents dir = may_create cr fs parents dir"
  using assms by (simp add: may_create_def may_def)

lemma open_log_cases:
  assumes "open_log io cr dir name fs = (r, fs')"
  shows "(if io (''create '' @ name) \<and> io (''clone '' @ name) then r = Ok () else (\<exists>e. r = Err e))"
    and "p \<noteq> dir @ ''/'' @ name \<Longrightarrow> fs' p = fs p"
  using assms by (auto simp: open_log_def Let_def split: if_splits)

lemma create_image:
  assumes "cr_uid worker = 0" and "uid \<noteq> 0" and "may_create (tenant_creds uid gid) fs [state_dir, tenants_dir state_dir] (tenant_dir state_dir t)"
    and "fresh = (fs (store_img_path state_dir t) = None)"
    and "drop_privileges_and_maybe_create_store_img io state_dir t uid gid fresh size_mb worker fs = (r, fs')"
  shows "if fresh \<longrightarrow> io ''create store.img'' \<and> io ''size store.img'' then r = Ok (tenant_creds uid gid) else (\<exists>e. r = Err e)"
    and "fs' = (if fresh \<and> io ''create store.img''
      then fs(store_img_path state_dir t \<mapsto> \<lparr>in_uid = uid, in_gid = gid, in_mode = 0x180, in_size = (if io ''size store.img'' then size_mb * 1024 * 1024 else 0)\<rparr>)
      else fs)"
  using assms by (auto simp: drop_privileges_and_maybe_create_store_img_def drop_from_root Let_def split: if_splits)

lemma launch_image:
  assumes "cr_uid worker = 0" and "uid \<noteq> 0" and "may_create (tenant_creds uid gid) fs [state_dir, tenants_dir state_dir] (tenant_dir state_dir t)"
    and "fresh = (fs (store_img_path state_dir t) = None)" and "launch io worker state_dir t uid gid fresh size_mb (fs, ps) = (r, fs', ps')"
  shows "((\<exists>vm. r = Ok vm) \<longleftrightarrow> boot_point io fresh = Booted) \<and>
    fs' (store_img_path state_dir t) = (if fresh \<and> image_created (boot_point io fresh)
      then Some \<lparr>in_uid = uid, in_gid = gid, in_mode = 0x180, in_size = (if io ''size store.img'' then size_mb * 1024 * 1024 else 0)\<rparr>
      else fs (store_img_path state_dir t)) \<and>
    (\<forall>p. p \<noteq> store_img_path state_dir t \<longrightarrow> p \<notin> set (scratch state_dir t) \<longrightarrow> fs' p = fs p)"
proof -
  let ?img = "store_img_path state_dir t" and ?dir = "tenant_dir state_dir t"
  define fs1 where "fs1 = (if io ''unlink net.sock'' then fs(?dir @ ''/net.sock'' := None) else fs)"
  obtain r2 fs2 where log1: "open_log io worker ?dir ''passt.log'' fs1 = (r2, fs2)" by fastforce
  obtain r3 fs3 where log2: "open_log io worker ?dir ''cloud-hypervisor.log'' fs2 = (r3, fs3)" by fastforce
  obtain r4 fs4 where img: "drop_privileges_and_maybe_create_store_img io state_dir t uid gid fresh size_mb worker fs3 = (r4, fs4)" by fastforce
  have other: "fs2 p = fs p" "fs3 p = fs p" if "p \<notin> set (scratch state_dir t)" for p
    using that open_log_cases(2) [OF log1, of p] open_log_cases(2) [OF log2, of p] by (auto simp: scratch_def fs1_def)
  note apart = scratch_differs [where state_dir = state_dir and t = t]
  have same: "fs2 ?img = fs ?img" "fs3 ?img = fs ?img" using other apart(4) by metis+
  have create: "may_create (tenant_creds uid gid) fs3 [state_dir, tenants_dir state_dir] ?dir"
    using assms(3) by (subst may_create_cong [of _ _ _ fs]) (use other(2) apart in auto)
  note made = create_image [OF assms(1,2) create _ img, unfolded same, OF assms(4)]
  note steps = open_log_cases(1) [OF log1] open_log_cases(1) [OF log2] made(1)
  have run: "launch io worker state_dir t uid gid fresh size_mb (fs, ps) =
    (case r2 of Err e \<Rightarrow> (Err e, fs2, ps) | Panic \<Rightarrow> (Panic, fs2, ps) | Ok _ \<Rightarrow>
      if \<not> io ''exec passt'' then (Err ''spawning passt'', fs2, ps)
      else if \<not> io ''net.sock'' then (Err ''timed out waiting for passt'', fs2, ps)
      else case r3 of Err e \<Rightarrow> (Err e, fs3, ps) | Panic \<Rightarrow> (Panic, fs3, ps) | Ok _ \<Rightarrow>
        (case r4 of Err e \<Rightarrow> (Err ''spawning cloud-hypervisor'', fs4, ps) | Panic \<Rightarrow> (Panic, fs4, ps) | Ok cr \<Rightarrow>
          if \<not> io ''exec cloud-hypervisor'' then (Err ''spawning cloud-hypervisor'', fs4, ps)
          else if io ''vsock ready'' then (Ok \<lparr>lv_child = (''cloud-hypervisor'', cr), lv_passt_child = Some (''passt'', tenant_creds uid gid)\<rparr>, fs4, (''cloud-hypervisor'', cr) # (''passt'', tenant_creds uid gid) # ps)
          else (Err ''guest-agent handshake failed'', fs4, ps)))"
    using log1 log2 img assms(1,2) by (simp add: launch_def drop_from_root kill_child_def Let_def fs1_def split: res.splits)
  show ?thesis
    using assms(5) steps other same unfolding run made(2) boot_point_def image_created_def
    by (auto split: if_splits)
qed

text \<open>
  C15: Step by step, with its files and processes, a boot does what the pool relies on: it succeeds exactly
  if every step does, an image exists afterwards exactly if it did before or the child got past its
  creation, it then belongs to the tenant's uid, and on the disk the launcher changes nothing else but
  its two log files and a left-over socket.
\<close>

theorem boot_refines_launcher:
  assumes "cr_uid worker = 0" and "uid \<noteq> 0" and "prepare_tenant_dir io worker state_dir t fs0 = (Ok dir, fs)"
    and "foreign worker state_dir t fs uid gid" and "may (tenant_creds uid gid) 0 fs state_dir"
    and "map_option im_owner im = map_option in_uid (fs (store_img_path state_dir t))" and "fresh = (im = None)"
    and "launch io worker state_dir t uid gid fresh size_mb (fs, ps) = (r, fs', ps')"
    and "launcher_boot (boot_point io fresh) uid fresh im = (r', im')"
  shows "((\<exists>vm. r = Ok vm) \<longleftrightarrow> r' = Ok ()) \<and>
    map_option im_owner im' = map_option in_uid (fs' (store_img_path state_dir t)) \<and>
    (\<forall>p. p \<noteq> store_img_path state_dir t \<longrightarrow> p \<notin> set (scratch state_dir t) \<longrightarrow> fs' p = fs p)"
proof -
  have create: "may_create (tenant_creds uid gid) fs [state_dir, tenants_dir state_dir] (tenant_dir state_dir t)"
    by (rule layout_create [OF prepare_layout(1) [OF assms(3)] assms(4,5)])
  have "fresh = (fs (store_img_path state_dir t) = None)" using assms(6,7) by (metis map_option_is_None)
  note boot = launch_image [OF assms(1,2) create this assms(8)]
  have "r' = Ok () \<longleftrightarrow> boot_point io fresh = Booted" "im' = (if fresh \<and> image_created (boot_point io fresh) then Some (Blank uid) else im)"
    using assms(9) by (auto simp: launcher_boot_def split: if_splits)
  then show ?thesis using boot assms(6) by (cases "fresh \<and> image_created (boot_point io fresh)") simp_all
qed

text \<open>The image of a tenant as its own machine creates it: readable and writable for its owner alone.\<close>

definition private_image :: "string \<Rightarrow> tenant_id \<Rightarrow> u32 \<Rightarrow> u32 \<Rightarrow> file_system \<Rightarrow> bool" where
  "private_image state_dir t uid gid fs \<longleftrightarrow>
     (\<forall>i. fs (store_img_path state_dir t) = Some i \<longrightarrow> in_uid i = uid \<and> in_gid i = gid \<and> in_mode i = 0x180)"

lemma private_image_may:
  assumes "private_image state_dir t uid gid fs"
  shows "uid' \<noteq> uid \<Longrightarrow> gid' \<noteq> gid \<Longrightarrow> \<not> may (tenant_creds uid' gid') 2 fs (store_img_path state_dir t) \<and> \<not> may (tenant_creds uid' gid') 1 fs (store_img_path state_dir t)"
    and "fs (store_img_path state_dir t) \<noteq> None \<Longrightarrow> may (tenant_creds uid gid) 2 fs (store_img_path state_dir t)"
  using assms by (auto simp: private_image_def may_def allows_def perm_class_def split: option.splits)

text \<open>
  C16: The image of a tenant stays with it, boot after boot. Take a boot that either finds no image or one that
  the tenant's own machine created, and let it end in any way. What is there afterwards is again private to the
  tenant; after a success it is there, and the tenant's processes can open it. A process of another tenant can
  list neither the tenants nor the files of this one, cannot open the image and cannot take it away, although
  the directory is writable for both. A file that another tenant put in the image's place before the first boot
  is outside of this: the boot would use it.
\<close>

theorem tenant_image_protected:
  assumes "cr_uid worker = 0" and "uid \<noteq> 0" and "prepare_tenant_dir io worker state_dir t fs0 = (Ok dir, fs)"
    and "foreign worker state_dir t fs uid gid" and "may (tenant_creds uid gid) 0 fs state_dir"
    and "private_image state_dir t uid gid fs" and "fresh = (fs (store_img_path state_dir t) = None)"
    and "launch io worker state_dir t uid gid fresh size_mb (fs, ps) = (r, fs', ps')"
    and "foreign worker state_dir t fs uid' gid'" and "uid' \<noteq> uid" and "gid' \<noteq> gid"
  shows "private_image state_dir t uid gid fs' \<and>
    ((\<exists>vm. r = Ok vm) \<longrightarrow>
       may_open (tenant_creds uid gid) fs' [state_dir, tenants_dir state_dir, tenant_dir state_dir t] (store_img_path state_dir t)) \<and>
    \<not> may_list (tenant_creds uid' gid') fs' (tenants_dir state_dir) \<and>
    \<not> may_list (tenant_creds uid' gid') fs' (tenant_dir state_dir t) \<and>
    \<not> may_open (tenant_creds uid' gid') fs' dirs (store_img_path state_dir t) \<and>
    \<not> may_unlink (tenant_creds uid' gid') fs' parents (tenant_dir state_dir t) (store_img_path state_dir t)"
proof -
  let ?img = "store_img_path state_dir t"
  note lay = prepare_layout(1) [OF assms(3)]
  note create = layout_create [OF lay assms(4,5)]
  note boot = launch_image [OF assms(1,2) create assms(7,8)]
  have img: "private_image state_dir t uid gid fs'"
    using boot assms(6) by (auto simp: private_image_def split: if_splits)
  have there: "fs' ?img \<noteq> None" if "r = Ok vm" for vm
    using boot assms(7) that by (auto simp: image_created_def split: if_splits)
  have rest: "p \<noteq> ?img \<Longrightarrow> p \<notin> set (scratch state_dir t) \<Longrightarrow> fs' p = fs p" for p
    using boot by simp
  have dirs: "fs' d = fs d" if "d \<in> {state_dir, tenants_dir state_dir, tenant_dir state_dir t}" for d
    using that rest [of d] scratch_differs [of d state_dir t] img_differs [of state_dir t] by (metis insertE empty_iff)
  then have may: "may cr k fs' d = may cr k fs d" if "d \<in> {state_dir, tenants_dir state_dir, tenant_dir state_dir t}" for cr k d
    using that by (simp add: may_def)
  obtain own where own: "fs' (tenant_dir state_dir t) = Some own" "in_uid own = 0" "in_mode own = 0x3C3"
    using lay dirs [of "tenant_dir state_dir t"] assms(1) unfolding layout_def by fastforce
  have "\<not> may_unlink (tenant_creds uid' gid') fs' parents (tenant_dir state_dir t) ?img"
    using own img assms(1,9,10) by (auto simp: may_unlink_def foreign_def private_image_def split: option.splits)
  then show ?thesis
    using layout_may [OF lay assms(4)] layout_may [OF lay assms(9)] assms(5,10,11) may img there private_image_may [OF img]
    by (auto simp: may_open_def may_list_def)
qed

subsection \<open>A boot of one tenant beside another\<close>

definition ex_worker_creds :: credentials where
  "ex_worker_creds = \<lparr>cr_uid = 0, cr_gid = 0, cr_groups = [], cr_dac_override = True\<rparr>"

definition ex_host_fs :: file_system where
  "ex_host_fs = [''/v'' \<mapsto> \<lparr>in_uid = 0, in_gid = 0, in_mode = 0x1ED, in_size = 0\<rparr>]"

definition ex_prepared :: file_system where
  "ex_prepared = ex_host_fs(''/v/tenants'' \<mapsto> \<lparr>in_uid = 0, in_gid = 0, in_mode = 0x1C1, in_size = 0\<rparr>,
     ''/v/tenants/a'' \<mapsto> \<lparr>in_uid = 0, in_gid = 0, in_mode = 0x3C3, in_size = 0\<rparr>)"

lemma ex_dirs: "tenants_dir ''/v'' = ''/v/tenants''" "tenant_dir ''/v'' (TenantId ''a'') = ''/v/tenants/a''"
  "store_img_path ''/v'' (TenantId ''a'') = ''/v/tenants/a/store.img''"
  by (simp_all add: tenants_dir_def tenant_dir_def store_img_path_def)

lemma ex_prepare: "prepare_tenant_dir (\<lambda>_. True) ex_worker_creds ''/v'' (TenantId ''a'') ex_host_fs = (Ok ''/v/tenants/a'', ex_prepared)"
  by (auto simp: prepare_tenant_dir_def ex_dirs bind_fs_def create_dir_all_def set_permissions_def ex_prepared_def ex_host_fs_def ex_worker_creds_def Let_def)

lemma ex_foreign: "uid \<noteq> 0 \<Longrightarrow> gid \<noteq> 0 \<Longrightarrow> foreign ex_worker_creds ''/v'' (TenantId ''a'') ex_prepared uid gid"
  by (simp add: foreign_def ex_dirs ex_prepared_def ex_host_fs_def ex_worker_creds_def)

lemma ex_state: "uid \<noteq> 0 \<Longrightarrow> gid \<noteq> 0 \<Longrightarrow> may (tenant_creds uid gid) 0 ex_prepared ''/v''"
  by (simp add: may_def allows_def perm_class_def ex_prepared_def ex_host_fs_def)

lemma ex_no_image: "ex_prepared (store_img_path ''/v'' (TenantId ''a'')) = None"
  by (simp add: ex_dirs ex_prepared_def ex_host_fs_def)

lemma ex_root: "cr_uid ex_worker_creds = 0"
  by (simp add: ex_worker_creds_def)

lemma ex_launch:
  obtains vm fs' ps' where "launch (\<lambda>_. True) ex_worker_creds ''/v'' (TenantId ''a'') 2000 2000 True 1 (ex_prepared, []) = (Ok vm, fs', ps')"
proof -
  obtain r fs' ps' where e: "launch (\<lambda>_. True) ex_worker_creds ''/v'' (TenantId ''a'') 2000 2000 True 1 (ex_prepared, []) = (r, fs', ps')"
    by (metis prod_cases3)
  have "may_create (tenant_creds 2000 2000) ex_prepared [''/v'', tenants_dir ''/v''] (tenant_dir ''/v'' (TenantId ''a''))"
    by (rule layout_create [OF prepare_layout(1) [OF ex_prepare]]) (simp_all add: ex_foreign ex_state)
  from launch_image [OF ex_root _ this _ e] have "\<exists>vm. r = Ok vm" using ex_no_image by (simp add: boot_point_def)
  then show ?thesis using e that by blast
qed

theorem tenant_image_protected_witness:
  "\<exists>vm fs' ps'. launch (\<lambda>_. True) ex_worker_creds ''/v'' (TenantId ''a'') 2000 2000 True 1 (ex_prepared, []) = (Ok vm, fs', ps') \<and>
    \<not> may_open (tenant_creds 2001 2001) fs' [''/v'', ''/v/tenants'', ''/v/tenants/a''] ''/v/tenants/a/store.img''"
proof -
  obtain vm fs' ps' where e: "launch (\<lambda>_. True) ex_worker_creds ''/v'' (TenantId ''a'') 2000 2000 True 1 (ex_prepared, []) = (Ok vm, fs', ps')"
    by (rule ex_launch)
  have "\<not> may_open (tenant_creds 2001 2001) fs' [''/v'', ''/v/tenants'', ''/v/tenants/a''] (store_img_path ''/v'' (TenantId ''a''))"
    using tenant_image_protected [OF _ _ ex_prepare _ _ _ _ e, of 2001 2001]
    by (simp add: ex_foreign ex_state ex_root ex_no_image private_image_def)
  then show ?thesis using e by (auto simp: ex_dirs)
qed

theorem boot_refines_launcher_witness:
  "\<exists>vm fs' ps'. launch (\<lambda>_. True) ex_worker_creds ''/v'' (TenantId ''a'') 2000 2000 True 1 (ex_prepared, []) = (Ok vm, fs', ps') \<and>
    fst (launcher_boot (boot_point (\<lambda>_. True) True) 2000 True None) = Ok () \<and> map_option in_uid (fs' ''/v/tenants/a/store.img'') = Some 2000"
proof -
  obtain vm fs' ps' where e: "launch (\<lambda>_. True) ex_worker_creds ''/v'' (TenantId ''a'') 2000 2000 True 1 (ex_prepared, []) = (Ok vm, fs', ps')"
    by (rule ex_launch)
  have b: "launcher_boot (boot_point (\<lambda>_. True) True) 2000 True None = (Ok (), Some (Blank 2000))"
    by (simp add: boot_point_def launcher_boot_def image_created_def)
  show ?thesis
    using boot_refines_launcher [OF ex_root _ ex_prepare _ _ _ _ e b] e b ex_no_image by (simp add: ex_foreign ex_state) (simp add: ex_dirs)
qed

end
