(* ===== verification/UrlService.thy ===== *)
theory UrlService
  imports Fetch
begin

text \<open>
  The service that hands out object URLs, from message to message: the request a worker encodes
  (\<open>worker/src/upload.rs\<close>), its decoding and the loop that answers (\<open>server/src/uploads.rs\<close>). The bytes
  of a message are what the Cap'n Proto reader finds in it. Shown here: every message that asks for an
  answer gets exactly one, in order, and a worker is told exactly what the service decided.
\<close>

definition UPLOADS_SUBJECT :: string where "UPLOADS_SUBJECT = ''kubernix.uploads''"

text \<open>A message as the reader sees it: every pointer can be broken, every text something else than UTF-8.\<close>

record raw_request =
  rr_job_id :: "(string, bytes) res"
  rr_keys :: "(string, (string, bytes) res list) res"
  rr_token :: "(string, bytes) res"
  rr_download :: bool

definition utf8_text :: "bytes \<Rightarrow> (string, string) res" where
  "utf8_text bs = (if valid_utf8 bs then Ok (from_bytes bs) else Err ''invalid utf-8'')"

definition read_key :: "(string, bytes) res \<Rightarrow> (string, object_key) res" where
  "read_key k = bind_res k (\<lambda>bs. bind_res (utf8_text bs) (\<lambda>s. Ok (ObjectKey s)))"

definition decode_request :: "(string, raw_request) res \<Rightarrow> (string, url_request) res" where
  "decode_request message =
     bind_res message (\<lambda>rr.
     let job_id = (case bind_res (rr_job_id rr) utf8_text of Ok s \<Rightarrow> s | _ \<Rightarrow> []) in
     bind_res (rr_keys rr) (\<lambda>keys.
     bind_res (collect_res (map read_key keys)) (\<lambda>keys.
     bind_res (rr_token rr) (\<lambda>token.
     Ok \<lparr>rq_job_id = job_id, rq_keys = keys, rq_download = rr_download rr, rq_token = token\<rparr>))))"

definition encode_url_request :: "url_request \<Rightarrow> raw_request" where
  "encode_url_request rq =
     \<lparr>rr_job_id = Ok (as_bytes (rq_job_id rq)), rr_keys = Ok (map (\<lambda>k. Ok (as_bytes (key_str k))) (rq_keys rq)),
      rr_token = Ok (rq_token rq), rr_download = rq_download rq\<rparr>"

text \<open>The loop: a message without a subject to answer on is skipped, and whether a reply arrives is up to the queue.\<close>

record url_message =
  um_reply :: "string option"
  um_payload :: "(string, raw_request) res"

fun serve_urls ::
  "jwt \<Rightarrow> 's secret_ops \<Rightarrow> (bool \<Rightarrow> object_key \<Rightarrow> (report, string) res) \<Rightarrow> url_message list \<Rightarrow> 's \<Rightarrow> (string \<times> url_response) list \<times> 's" where
  "serve_urls j sops presign [] s = ([], s)"
| "serve_urls j sops presign (m # ms) s =
     (case um_reply m of
        None \<Rightarrow> serve_urls j sops presign ms s
      | Some reply \<Rightarrow>
          (case handle j sops presign (decode_request (um_payload m)) s of
             (response, s) \<Rightarrow>
               (case serve_urls j sops presign ms s of (rest, s) \<Rightarrow> ((reply, encode_response response) # rest, s))))"

subsection \<open>What reaches the worker\<close>

lemma utf8_text_as_bytes: "is_utf8 s \<Longrightarrow> utf8_text (as_bytes s) = Ok s"
  by (simp add: utf8_text_def valid_utf8_as_bytes)

lemma read_key_Ok: "read_key k = Ok key \<longleftrightarrow> (\<exists>bs. k = Ok bs \<and> valid_utf8 bs \<and> key = ObjectKey (from_bytes bs))"
  by (auto simp: read_key_def utf8_text_def bind_res_Ok_iff split: if_splits)

lemma decode_request_Ok:
  "decode_request (Ok rr) = Ok rq \<longleftrightarrow>
    (\<exists>raw keys token. rr_keys rr = Ok raw \<and> map read_key raw = map Ok keys \<and> rr_token rr = Ok token \<and>
      rq = \<lparr>rq_job_id = (case bind_res (rr_job_id rr) utf8_text of Ok s \<Rightarrow> s | _ \<Rightarrow> []), rq_keys = keys, rq_download = rr_download rr, rq_token = token\<rparr>)"
  by (auto simp: decode_request_def Let_def bind_res_Ok_iff collect_res_Ok_iff)

lemma decode_encoded:
  assumes "is_utf8 (rq_job_id rq)" and "\<forall>k \<in> set (rq_keys rq). is_utf8 (key_str k)"
  shows "decode_request (Ok (encode_url_request rq)) = Ok rq"
proof -
  have "map (\<lambda>k. read_key (Ok (as_bytes (key_str k)))) (rq_keys rq) = map Ok (rq_keys rq)"
    using assms(2) by (simp add: read_key_Ok valid_utf8_as_bytes)
  moreover have "bind_res (Ok (as_bytes (rq_job_id rq))) utf8_text = Ok (rq_job_id rq)"
    using utf8_text_as_bytes [OF assms(1)] by (simp add: bind_res_Ok_iff)
  ultimately show ?thesis unfolding decode_request_Ok
    by (intro exI [of _ "map (\<lambda>k. Ok (as_bytes (key_str k))) (rq_keys rq)"] exI [of _ "rq_keys rq"] exI [of _ "rq_token rq"])
      (simp add: encode_url_request_def comp_def)
qed

text \<open>A request with one key that is not text is refused as a whole, whatever the others are.\<close>

lemma broken_key_refused:
  assumes "decode_request (Ok rr) = Ok rq" and "rr_keys rr = Ok raw" and "k \<in> set raw"
  shows "\<exists>bs. k = Ok bs \<and> valid_utf8 bs \<and> ObjectKey (from_bytes bs) \<in> set (rq_keys rq)"
proof -
  have "map read_key raw = map Ok (rq_keys rq)" using assms(1,2) by (auto simp: decode_request_Ok)
  then have "read_key k \<in> Ok ` set (rq_keys rq)" using assms(3) by (metis image_eqI list.set_map)
  then obtain key where "read_key k = Ok key" "key \<in> set (rq_keys rq)" by blast
  then show ?thesis by (auto simp: read_key_Ok)
qed

theorem each_message_answered_once:
  "map fst (fst (serve_urls j sops presign ms s)) = List.map_filter um_reply ms"
proof (induction ms arbitrary: s)
  case (Cons m ms)
  obtain r s1 where h: "handle j sops presign (decode_request (um_payload m)) s = (r, s1)" by fastforce
  obtain rest s2 where "serve_urls j sops presign ms s1 = (rest, s2)" by fastforce
  then show ?case using h Cons [of s] Cons [of s1] by (cases "um_reply m") (simp_all add: List.map_filter_simps)
qed simp

text \<open>
  A worker whose message reaches the service gets URLs exactly when the service decided to give them,
  one for each key and in the order of the keys; a refusal arrives as an error.
\<close>

theorem worker_told_decision:
  fixes e :: "'s outside"
  assumes "rq = \<lparr>rq_job_id = job_id, rq_keys = keys, rq_download = download, rq_token = token\<rparr>"
    and "is_utf8 job_id" and "\<forall>k \<in> set keys. is_utf8 (key_str k)"
    and "serve_urls j sops presign [\<lparr>um_reply = Some inbox, um_payload = Ok (encode_url_request rq)\<rparr>] s = ([(inbox, answer)], s')"
    and "og_ask e rq s = (Ok answer, s')"
  shows "fst (request_urls e job_id token keys download s) = Ok urls \<longleftrightarrow> fst (handle j sops presign (Ok rq) s) = Ok urls"
    and "fst (handle j sops presign (Ok rq) s) = Ok urls \<Longrightarrow> length urls = length keys"
proof -
  have rt: "decode_request (Ok (encode_url_request rq)) = Ok rq" by (rule decode_encoded) (use assms(1-3) in simp_all)
  obtain r where h: "handle j sops presign (Ok rq) s = (r, s')" and a: "answer = encode_response r"
    using assms(4) rt by (auto split: prod.splits)
  have len: "length urls = length keys" if "r = Ok urls" for urls
  proof -
    have "map (presign download) keys = map Ok urls" using handle_Ok_iff [of j sops presign rq s urls] h that assms(1) by auto
    then show ?thesis by (metis length_map)
  qed
  then show "fst (handle j sops presign (Ok rq) s) = Ok urls \<Longrightarrow> length urls = length keys" using h by simp
  have some: "keys \<noteq> []" if "r = Err (Internal []) \<or> r = Panic" using that h assms(1) by (auto simp: handle_def res_simps split: option.splits prod.splits)
  show "fst (request_urls e job_id token keys download s) = Ok urls \<longleftrightarrow> fst (handle j sops presign (Ok rq) s) = Ok urls"
  proof (cases r)
    case (Ok urls')
    then show ?thesis using len h a assms(1,5) by (auto simp: request_urls_def encode_response_def)
  next
    case (Err x)
    show ?thesis
    proof (cases "x = Internal []")
      case True
      then show ?thesis using Err some h a assms(1,5) by (auto simp: request_urls_def encode_response_def upload_error_text_def)
    next
      case False
      then have "upload_error_text x \<noteq> []" by (cases x) (auto simp: upload_error_text_def)
      then show ?thesis using Err h a assms(1,5) by (auto simp: request_urls_def encode_response_def)
    qed
  next
    case Panic
    then show ?thesis using some h a assms(1,5) by (auto simp: request_urls_def encode_response_def)
  qed
qed

end
