(* ===== verification/Spec2Isabelle.thy ===== *)
theory Spec2Isabelle
  imports Server View Control Watch GuestBoot Launcher UrlService
begin

text \<open>
  \<^bold>\<open>kubernix, verified.\<close> kubernix is a distributed remote builder for Nix. A frontend serves
  the Nix daemon protocol to clients, keeps every tenant's store paths in a database and their
  archives in an object store, hands builds to workers through a queue, pulls missing paths
  through from trusted substituters, and serves the result as a binary cache over HTTP. A worker
  takes a job from the queue, boots a machine for the tenant, fetches the inputs, builds inside of
  the guest, uploads the outputs and reports. This development models the frontend, the worker, the
  agent in the guest and the libraries they share, from the bytes on the wire up to the handlers,
  and proves what each part promises the next. File names below are relative to \<open>src/crates\<close>.

  \<^bold>\<open>Conventions.\<close> A Rust string is the list of its UTF-8 bytes as characters; a fallible
  function returns \<open>res\<close>, with a value, an error or a panic; integers keep their width where the
  code can overflow (\<open>u64\<close>, \<open>u32\<close> and \<open>uuid\<close> are words). Stateful code passes its state. Code
  outside the repository (SHA-256, Ed25519, base64, JWT, the compressors, the network, S3, NATS,
  randomness, the clock) is a parameter, and what is needed of it is a named predicate:
  \<open>digest_ok\<close>, \<open>crypto_ok\<close>, \<open>jwt_ok\<close>, \<open>zstd_ok\<close>, \<open>framed\<close>, \<open>fair\<close>, \<open>shop_sound\<close>, \<open>stores_puts\<close>, \<open>inverts\<close>.
  A call to such code is a total function of its arguments and the state of the outside: that it may hang
  is not expressible, and no property says that a handler returns whatever happens around it.

  \<^bold>\<open>Theories and sources.\<close>
  \<^item> \<open>Prelude\<close>, \<open>Utf8\<close>: results, strings, decimal and hex printing, UTF-8 with lossy decoding.
  \<^item> \<open>Wire\<close>, \<open>Types\<close>, \<open>Derivation\<close>: \<open>types/src\<close>, the length-prefixed wire form with its 64-bit
    cursor, the newtypes with their parsers, and the derivation parser. Round trips for both
    codecs, and the two inputs on which they panic.
  \<^item> \<open>Base32\<close>, \<open>Signing\<close>: \<open>signing/src\<close>, Nix base32 at the bit level as a bijection, and the
    fingerprint, which determines every signed field.
  \<^item> \<open>Tenant\<close>, \<open>ContentAddress\<close>: \<open>server/src/tenant.rs\<close> and \<open>store_path.rs\<close>. A derived tenant id
    survives the wire check; two pushes accepted at one path carry the same content unless the
    path hash collides; what the single-file check ignores.
  \<^item> \<open>Jobs\<close>, \<open>Store\<close>: \<open>jobs.rs\<close> and the traits of \<open>store.rs\<close>. The trait objects are the records
    \<open>store_ops\<close> and \<open>secret_ops\<close>; the laws their callers rely on are the locales \<open>path_store\<close>,
    \<open>object_catalog\<close> (which extends it) and \<open>secret_store\<close>.
  \<^item> \<open>MemoryStore\<close>, \<open>Postgres\<close>, \<open>PostgresActor\<close>: the two providers. The database is a record of
    tables with row-level security and a live view; every statement of \<open>postgres_store.rs\<close> is a
    function on it, reached through the actor's request type. Both providers interpret all three
    locales. What each method answers while the database or the actor is gone is written out: reads
    find nothing and writes fail, but a reservation is won, and cached secrets are still served.
  \<^item> \<open>Reservations\<close>: job reservation and completion under interference between the statements: a
    reservation that is won holds the one running row of its tenant and derivation, unless the
    database fails or the slot is raced away twice, when the code fails open.
  \<^item> \<open>View\<close>: \<open>tenant_view.rs\<close>, the store as one connection sees it. The locale \<open>partitioned\<close> states
    noninterference between tenants as an unwinding proof does and is interpreted on PostgreSQL: in
    any interleaving a tenant is answered as if it were alone, as long as the calls agree on what an
    object key names. Without that the first to record a key decides, which is shown as well.
  \<^item> \<open>Uploads\<close>: \<open>capability.rs\<close> and \<open>uploads.rs\<close>, tokens and pre-signed URLs. No tenant reaches
    another's namespace, but for downloads from a tenant named substituted, and a token uploads only
    its own job's outputs and log.
  \<^item> \<open>UrlService\<close>: the loop of \<open>uploads.rs\<close> that answers requests for URLs and the request as
    \<open>worker/src/upload.rs\<close> encodes it. Every message that asks for an answer gets one, in order, and
    the worker is told what was decided.
  \<^item> \<open>Gc\<close>: \<open>gc.rs\<close>, every statement of a collection pass. Marking is exactly reachability from
    fresh rows; a pass keeps every protected path with its bytes; four ways in which it does not
    do what it means to.
  \<^item> \<open>Narinfo\<close>, \<open>Substitute\<close>, \<open>Http\<close>: the narinfo text (a round trip between \<open>http.rs\<close> and
    \<open>substitute.rs\<close>), the pull-through fetch with its held-back last chunk, and the cache routes,
    which serve the metadata of vouched or substituted rows only and never redirect to a quarantined
    archive, but for that of a tenant named substituted.
  \<^item> \<open>CapnpExt\<close>, \<open>Daemon\<close>, \<open>Push\<close>, \<open>Build\<close>: \<open>capnp_ext.rs\<close>, \<open>rpc_error.rs\<close>, \<open>tenant_view.rs\<close>
    and \<open>daemon_rpc.rs\<close>. \<open>daemon\<close> holds the fixed fields of a connection and the parameters of
    one request, \<open>conn\<close> what changes. The effect of a push and of a finished build is proved
    once over \<open>object_catalog\<close> and instantiated for PostgreSQL; what a client gets
    back after a push is settled for every case; the token of a dispatched job is honoured for exactly that job.
  \<^item> \<open>Admin\<close>: \<open>admin.rs\<close> and \<open>rotate.rs\<close>, the administrator's commands over the same tables and the
    rotation of the secrets that sign tokens: a token verifies until the whole retention has passed
    since its secret was retired.
  \<^item> \<open>Lock\<close>: \<open>advisory_lock.rs\<close>, the guard under which replicas run the passes of \<open>Gc\<close> and \<open>Admin\<close>, as
    a step relation over sessions, pools, failing statements, lost sessions and crashing replicas: at
    most one guard per key has a living session, and nothing but a session that died unnoticed keeps a
    free key from being granted.
  \<^item> \<open>Auth\<close>: \<open>ssh.rs\<close>, \<open>tls.rs\<close> and the bindings both ask. The locale \<open>tenant_auth\<close> states what a
    lookup promises and is interpreted on both providers. Only a key that is bound, or a name where
    the policy asks for no key, is served, and as the tenant it is bound to; a CA that is added
    becomes a root at the next refresh, and which connections are then attributed to its tenant is
    settled exactly, by the tail of the chain, which a client can forge.
  \<^item> \<open>Watch\<close>: the log stream of \<open>capnp_ext.rs\<close> and the wait for an outcome in \<open>jobs.rs\<close>.
  \<^item> \<open>Inputs\<close>, \<open>Fetch\<close>: \<open>worker/src/input_fetch.rs\<close>, \<open>decompress.rs\<close>, \<open>nar_export.rs\<close>. The inputs of
    a job are sorted, downloaded in any order of arrival, verified and registered behind what they
    refer to; a closure without a cycle is registered in full, a cycle is reported.
  \<^item> \<open>Uid\<close>, \<open>Vm\<close>: \<open>worker/src/uid.rs\<close> and \<open>vm.rs\<close>, the uids and the pool of machines, images and
    keys as a state machine. No sequence of operations lets two tenants share an image, a key or a
    uid; a boot that fails half way locks the tenant out.
  \<^item> \<open>Launcher\<close>: the launcher of \<open>vm.rs\<close> below the pool, with the privilege drop, the modes of the
    directories and the processes. It refines the boot \<open>Vm\<close> assumes; a boot that fails leaves no
    process; other tenants' processes can neither list, open nor remove an image that the tenant's own
    machine created. The actions of the operating system succeed or fail as the parameter \<open>io\<close> says;
    the sockets and the console log that the started programs create themselves are left out.
  \<^item> \<open>GuestAgent\<close>: \<open>guest-agent/src\<close>, its kernel programs and the worker's calls to it. Kernel events,
    the poller and the reset interleave as an inductive step relation; the commands that unlock a
    disk refine what \<open>Vm\<close> assumes of them.
  \<^item> \<open>GuestBoot\<close>: \<open>guest-init/src\<close> and the start-up of the agent (\<open>main.rs\<close>, \<open>cgroup.rs\<close>, \<open>ebpf.rs\<close>,
    \<open>diag.rs\<close>). The real init is executed only at the end of the full sequence of system calls; the
    memory limit of builds leaves a tenth, through the rounding of doubles; a daemon is attributed to
    its build exactly if it was moved into the group.
  \<^item> \<open>DaemonClient\<close>: \<open>daemon-protocol/src\<close> and \<open>worker/src/serve.rs\<close>, both protocols a worker builds
    over, at the level of bytes. The locale \<open>stream_codec\<close> states what a reader promises. An answer
    is read to its end, and an archive of any tree is copied exactly.
  \<^item> \<open>Control\<close>: \<open>guest-protocol/src\<close> and \<open>guest-agent/src/control_transport.rs\<close>, the frames of the
    control connection from both ends. The frames interpret \<open>stream_codec\<close>, too; a request of more
    than the 4096 bytes that the agent reads into is dropped.
  \<^item> \<open>WorkerJob\<close>, \<open>Worker\<close>: \<open>worker/src/main.rs\<close>, \<open>vm_ops.rs\<close>, \<open>upload.rs\<close>. What a worker decodes,
    uploads and reports is what the frontend sent, grants and reads; a job is built at most
    four times, and its message acknowledged only after its outcome was published or escalated.
  \<^item> \<open>Host\<close>: what a worker does before and around a job: its environment, the command lines of the
    machines, the probe for nested virtualisation, and the timers that keep a message from being
    delivered again and notice a silent guest. The upload runs outside of the first of them.
  \<^item> \<open>Server\<close>: \<open>server/src/main.rs\<close>, \<open>server/src/bin\<close> and \<open>rpc_env.rs\<close>, what every process makes of its
    environment before it serves, the streams frontends and workers set up, the handshake of a
    connection, the start of a worker up to its first message, and the operator's commands with what
    they print. Which variable decides what, and
    that processes given one retention agree on it in whatever order they start.

  \<^bold>\<open>How the parts meet.\<close> \<open>Push\<close> and \<open>Build\<close> rest on \<open>ContentAddress\<close> (what may be called
  verified), \<open>Signing\<close> (what is signed), the store locales (what is recorded), \<open>Uploads\<close> (what a
  worker may write) and \<open>Reservations\<close> (who builds). \<open>Http\<close> reads the same store and serves only
  what \<open>Push\<close> and \<open>Build\<close> made vouchable. \<open>Gc\<close> and \<open>Admin\<close> work on the tables of \<open>Postgres\<close>.
  \<open>Worker\<close> composes \<open>WorkerJob\<close>, \<open>Fetch\<close>, \<open>Vm\<close> and \<open>GuestAgent\<close> into one handled message; it asks
  \<open>Uploads\<close> with the token \<open>Build\<close> gave it, and its report is decoded by \<open>Jobs\<close>. \<open>Auth\<close> decides the
  tenant a \<open>Daemon\<close> connection runs as, from the bindings \<open>Admin\<close> wrote; \<open>View\<close> keeps the connections
  of different tenants apart. \<open>Lock\<close> lets one replica at a time run \<open>Gc\<close> and \<open>Admin\<close>'s rotation, and
  \<open>Server\<close> starts all of them from one environment. \<open>Watch\<close> carries the report
  and the log back to the client: what the client of \<open>Build\<close> is told when a worker reports is the
  property below.

  \<^bold>\<open>Bounds and fuel.\<close> Loops are structural or have a measure, with two exceptions. The sort of the
  inputs is a partial function that is shown to return on every input. The copy of an archive takes
  fuel, one more than the bytes that are left, and \<open>nar_from_path_ends\<close> shows that it is never used
  up. The recursive marking query iterates over the finite set of live rows. Size bounds appear only
  where a 64-bit cursor or a capacity could overflow (\<open>Wire\<close>, \<open>Derivation\<close>, \<open>DaemonClient\<close>).

  \<^bold>\<open>Interleaving.\<close> A handler runs against one database state, and the database answers or fails for the
  whole of it; only a reservation can see it fail half way. A query with \<open>LIMIT 1\<close> takes the first row in
  the order of the table. Where the code tolerates or suffers
  from what others do in between, that is explicit: the reservation statements take an arbitrary
  interference, the sweep of the collector is split at the point of the race, the answer of the job
  queue includes the state the world is in afterwards, parallel downloads arrive in any order, and
  the detection state of a guest and the cluster around the lock take one step at a time.

  \<^bold>\<open>Not modelled.\<close> The handshakes, ciphers and channels of SSH and TLS, and the socket adapters of
  the guest protocol, which are library calls; the accept loops of the binaries, which only hand
  connections to what is modelled here; the effect of mounts on the file systems of the guest and the
  files a hypervisor creates itself, which belong to the operating system; metrics, logs and tracing, which nothing
  reads back; the client plugin, the test binaries and the packaging.
\<close>

section \<open>From a worker's report to the client\<close>

text \<open>
  The job queue as \<open>Watch\<close> reads it: what arrives for the job that is watched, and the client's log stream. The
  store and the objects may change in the meantime.
\<close>

definition watching ::
  "arrivals \<Rightarrow> (nat \<times> bytes) list \<Rightarrow> log_client \<Rightarrow> ('s \<times> objects \<Rightarrow> 's \<times> objects) \<Rightarrow> 's queue \<Rightarrow> 's queue" where
  "watching arrived later lc meanwhile q = q\<lparr>q_watch := \<lambda>job_id path preamble st.
     (case fst (watch job_id (sp_str path) preamble arrived later lc) of
        Some r \<Rightarrow> r
      | None \<Rightarrow> Err [OpaqueCause ''timed out waiting for a worker''], meanwhile st)\<rparr>"

lemma watching_simps [simp]:
  "q_results_retention (watching arrived later lc meanwhile q) = q_results_retention q"
  "q_subscribe_logs (watching arrived later lc meanwhile q) = q_subscribe_logs q"
  "q_result_consumer (watching arrived later lc meanwhile q) = q_result_consumer q"
  "q_submit (watching arrived later lc meanwhile q) = q_submit q"
  by (simp_all add: watching_def)

text \<open>What the client is told when a worker reports.\<close>

fun told :: "(string \<times> store_path) list \<Rightarrow> outcome \<Rightarrow> output_artifact list \<Rightarrow> build_result" where
  "told expected (OCompleted outs) artifacts =
     (let bogus = filter (\<lambda>p. p \<notin> snd ` set expected) (map oa_store_path artifacts) in
      if bogus = [] then \<lparr>br_status = StatusBuilt, br_error_msg = [], br_times_built = 1\<rparr>
      else \<lparr>br_status = PermanentFailure, br_error_msg =
              ''kubernix: worker reported output(s) outside this job's verified set: '' @ join_with '', '' (map sp_str bogus),
            br_times_built = 1\<rparr>)"
| "told expected (OFailed message kind) artifacts =
     (let shown = failure_status kind (if message = [] then ''build reported status Failed'' else message) in
      \<lparr>br_status = fst shown, br_error_msg = snd shown, br_times_built = 1\<rparr>)"

lemma report_outcome_told:
  "fst (report_outcome d expected
     (case out of
        OCompleted outs \<Rightarrow> Completed outs (map artifact_info artifacts) log
      | OFailed message kind \<Rightarrow> Failed (if message = [] then ''build reported status Failed'' else message) log kind) s) =
   told expected out artifacts"
proof (cases out)
  case (OCompleted outs)
  have "filter (\<lambda>p. p \<notin> snd ` set expected) (map oa_store_path artifacts) =
      map oi_store_path (filter (\<lambda>o1. oi_store_path o1 \<notin> snd ` set expected) (map artifact_info artifacts))"
    by (induction artifacts) (simp_all add: artifact_info_def)
  then show ?thesis using OCompleted by (simp add: record_outputs_def Let_def)
qed (simp add: Let_def)

lemma run_job_watched:
  assumes "op_reserve_job (dm_ops d) (dm_tenant d) (dm_job_id d) path (sys_str (dm_system d)) (q_results_retention q) s = (res, s1)"
    and "job = (case res of Won \<Rightarrow> dm_job_id d | Lost existing \<Rightarrow> existing)"
    and "preamble = (case res of Won \<Rightarrow> None | Lost _ \<Rightarrow> Some ATTACHED)"
    and "q_subscribe_logs q job = Ok ()" and "q_result_consumer q job = Ok ()" and "res = Won \<longrightarrow> (\<forall>j. q_submit q j = Ok ())"
    and "\<And>st. \<exists>st'. q_watch q job path preamble st = (Ok outcome, st')"
  shows "\<exists>st'. run_job d q path drv parsed expected staged (s, objs) = (Ok (job, outcome), st')"
proof (cases res)
  case Won
  obtain bj s2 where p: "prepare_job d path drv parsed expected staged s1 = (bj, s2)" by fastforce
  then have "bj_job_id bj = dm_job_id d" "bj_derivation_path bj = path" by (auto simp: prepare_job_def Let_def split: prod.splits)
  moreover obtain st' where "q_watch q job path preamble (s2, objs) = (Ok outcome, st')" using assms(7) by blast
  ultimately show ?thesis using assms(1-6) Won p by (simp add: run_job_def Build.dispatch_def)
next
  case (Lost existing)
  obtain st' where "q_watch q job path preamble (s1, objs) = (Ok outcome, st')" using assms(7) by blast
  then show ?thesis using assms(1-6) Lost by (simp add: run_job_def)
qed

lemma build_reported:
  assumes "check_derivation d raw drv = Ok (path, parsed, expected)"
    and "on_objects (all_outputs_available d (cs_options c) expected) c = (False, c1)" and "dm_queue d = Some q"
    and "run_job d q path drv parsed expected (cs_staged c1) (cs_store c1, cs_objects c1) = (Ok (job, outcome), st')"
    and "\<And>s. fst (report_outcome d expected outcome s) = result"
  shows "fst (build_derivation d raw drv c) = Ok result"
proof -
  have run: "\<exists>c2. on_objects (run_job d q path drv parsed expected (cs_staged c1)) c1 = (Ok (job, outcome), c2)"
    using assms(4) by (simp add: on_objects_def split: prod.split)
  show ?thesis using run assms(1-3,5) by (auto simp: build_derivation_def Let_def split_beta)
qed


definition ex_report_queue :: "pg queue" where
  "ex_report_queue = watching ([([[1]], None)] @ ([[2], [3]], Some (await_outcome True (Message (encode_result (OCompleted []) [ex_artifact] None) True))) # [])
     [(3, [4]), (60, [5])] \<lparr>lc_sent = [], lc_accepts = 10\<rparr> id (ex_queue\<lparr>q_submit := \<lambda>_. Ok ()\<rparr>)"


end
